(* ===== verification/Prelude.thy ===== *)
theory Prelude
  imports Main "HOL-Library.Word" "HOL-Library.Char_ord" "HOL-Library.List_Lexorder"
begin

text \<open>
  What the component theories share: results that may be an error, folding a fallible
  step over a list of inputs, the ordered associative container \<open>std::map\<close>, and the
  decimal text of 64-bit integers as \<open>operator<<\<close> writes it and \<open>std::stol\<close> reads it.
  A string is a list of bytes, as \<open>std::string\<close> is; \<open>HOL-Library.Char_ord\<close> compares
  bytes as \<open>std::char_traits<char>::lt\<close> does and \<open>HOL-Library.List_Lexorder\<close>
  lifts that to \<open>std::string::compare\<close>.
\<close>

named_theorems run_simps \<open>one step of a machine, pushed through a run over an append\<close>
named_theorems char_facts \<open>facts on the characters of printed text\<close>

type_synonym i64 = "64 word"

section \<open>Fallible steps\<close>

text \<open>\<open>run_steps f s cs\<close> feeds the inputs one by one and stops at the first error.\<close>

fun run_steps :: "('s \<Rightarrow> 'c \<Rightarrow> 'e + 's) \<Rightarrow> 's \<Rightarrow> 'c list \<Rightarrow> 'e + 's" where
  "run_steps f s [] = Inr s"
| "run_steps f s (c # cs) = (case f s c of Inl e \<Rightarrow> Inl e | Inr s' \<Rightarrow> run_steps f s' cs)"

lemma run_steps_append:
  "run_steps f s (xs @ ys) =
    (case run_steps f s xs of Inl e \<Rightarrow> Inl e | Inr s' \<Rightarrow> run_steps f s' ys)"
  by (induction xs arbitrary: s) (auto split: sum.splits)

lemma run_steps_invariant:
  assumes step: "\<And>s c s'. P s \<Longrightarrow> f s c = Inr s' \<Longrightarrow> P s'"
    and run: "run_steps f s cs = Inr s'" and init: "P s"
  shows "P s'"
  using run init by (induction cs arbitrary: s) (auto split: sum.splits intro: step)

section \<open>The ordered map\<close>

text \<open>
  \<open>std::map\<close> as the list of its entries in iteration order. \<open>emplace\<close> leaves an
  existing entry alone, \<open>operator[]\<close> followed by an assignment replaces it.
\<close>

type_synonym ('k, 'v) smap = "('k \<times> 'v) list"

fun smap_emplace :: "'k::linorder \<Rightarrow> 'v \<Rightarrow> ('k, 'v) smap \<Rightarrow> ('k, 'v) smap" where
  "smap_emplace k v [] = [(k, v)]"
| "smap_emplace k v ((k', v') # m) =
     (if k < k' then (k, v) # (k', v') # m
      else if k = k' then (k', v') # m
      else (k', v') # smap_emplace k v m)"

fun smap_put :: "'k::linorder \<Rightarrow> 'v \<Rightarrow> ('k, 'v) smap \<Rightarrow> ('k, 'v) smap" where
  "smap_put k v [] = [(k, v)]"
| "smap_put k v ((k', v') # m) =
     (if k < k' then (k, v) # (k', v') # m
      else if k = k' then (k, v) # m
      else (k', v') # smap_put k v m)"

definition smap_erase :: "'k \<Rightarrow> ('k, 'v) smap \<Rightarrow> ('k, 'v) smap" where
  "smap_erase k m = filter (\<lambda>e. fst e \<noteq> k) m"

definition smap_find :: "'k \<Rightarrow> ('k, 'v) smap \<Rightarrow> 'v option" where
  "smap_find k m = map_of m k"

definition smap_has :: "'k \<Rightarrow> ('k, 'v) smap \<Rightarrow> bool" where
  "smap_has k m = (smap_find k m \<noteq> None)"

definition smap_ok :: "('k::linorder, 'v) smap \<Rightarrow> bool" where
  "smap_ok m = sorted_wrt (<) (map fst m)"

lemma keys_emplace [simp]: "fst ` set (smap_emplace k v m) = insert k (fst ` set m)"
  by (induction k v m rule: smap_emplace.induct) auto

lemma keys_put [simp]: "fst ` set (smap_put k v m) = insert k (fst ` set m)"
  by (induction k v m rule: smap_put.induct) auto

lemma smap_ok_Nil [simp]: "smap_ok []"
  by (simp add: smap_ok_def)

lemma smap_ok_Cons: "smap_ok (e # m) \<longleftrightarrow> (\<forall>k' \<in> fst ` set m. fst e < k') \<and> smap_ok m"
  by (auto simp: smap_ok_def)

lemma smap_ok_emplace [simp, intro]: "smap_ok m \<Longrightarrow> smap_ok (smap_emplace k v m)"
  by (induction k v m rule: smap_emplace.induct) (auto simp: smap_ok_Cons)

lemma smap_ok_put [simp, intro]: "smap_ok m \<Longrightarrow> smap_ok (smap_put k v m)"
  by (induction k v m rule: smap_put.induct) (auto simp: smap_ok_Cons)

lemma smap_ok_erase [simp, intro]: "smap_ok m \<Longrightarrow> smap_ok (smap_erase k m)"
  by (induction m) (auto simp: smap_ok_Cons smap_erase_def)

lemma smap_ok_distinct: "smap_ok m \<Longrightarrow> distinct (map fst m)"
  by (auto simp: smap_ok_def strict_sorted_iff)

lemma smap_find_Nil [simp]: "smap_find k [] = None"
  by (simp add: smap_find_def)

lemma smap_find_Cons [simp]:
  "smap_find k (e # m) = (if fst e = k then Some (snd e) else smap_find k m)"
  by (cases e) (simp add: smap_find_def)

lemma smap_find_None_above: "\<forall>k' \<in> fst ` set m. k < k' \<Longrightarrow> smap_find (k::'k::linorder) m = None"
  by (induction m) (auto simp: smap_find_def)

lemma smap_find_below:
  "\<forall>x \<in> set m. k' < fst x \<Longrightarrow> (k::'k::linorder) \<le> k' \<Longrightarrow> smap_find k m = None"
  by (rule smap_find_None_above) auto

lemma smap_find_emplace:
  "smap_ok m \<Longrightarrow> smap_find k (smap_emplace k' v m) =
    (if k = k' then (case smap_find k m of None \<Rightarrow> Some v | Some w \<Rightarrow> Some w)
     else smap_find k m)"
  by (induction k' v m rule: smap_emplace.induct)
     (auto simp: smap_ok_Cons smap_find_below split: option.splits)

lemma smap_find_put:
  "smap_ok m \<Longrightarrow> smap_find k (smap_put k' v m) = (if k = k' then Some v else smap_find k m)"
  by (induction k' v m rule: smap_put.induct) (auto simp: smap_ok_Cons smap_find_below)

lemma smap_find_erase:
  "smap_find k (smap_erase k' m) = (if k = k' then None else smap_find k m)"
  by (induction m) (auto simp: smap_erase_def)

lemma smap_emplace_last:
  "\<forall>k' \<in> fst ` set m. k' < k \<Longrightarrow> smap_emplace k v m = m @ [(k, v)]"
  by (induction k v m rule: smap_emplace.induct) auto

text \<open>The contract of a keyed table, as the code relies on it.\<close>

locale keyed_table =
  fixes inv :: "'t \<Rightarrow> bool"
    and find :: "'k \<Rightarrow> 't \<Rightarrow> 'v option"
    and put :: "'k \<Rightarrow> 'v \<Rightarrow> 't \<Rightarrow> 't"
    and erase :: "'k \<Rightarrow> 't \<Rightarrow> 't"
  assumes find_put: "inv t \<Longrightarrow> find k (put k' v t) = (if k = k' then Some v else find k t)"
    and find_erase: "inv t \<Longrightarrow> find k (erase k' t) = (if k = k' then None else find k t)"
    and inv_put: "inv t \<Longrightarrow> inv (put k v t)"
    and inv_erase: "inv t \<Longrightarrow> inv (erase k t)"
begin

lemma put_put_find: "inv t \<Longrightarrow> find k (put a v (put a w t)) = find k (put a v t)"
  by (simp add: find_put inv_put)

lemma erase_put_find: "inv t \<Longrightarrow> find k (erase a (put a v t)) = find k (erase a t)"
  by (simp add: find_put find_erase inv_put)

lemma put_erase_other:
  "inv t \<Longrightarrow> a \<noteq> b \<Longrightarrow> find k (erase a (put b v t)) = find k (put b v (erase a t))"
  by (simp add: find_put find_erase inv_put inv_erase)

end

interpretation std_map: keyed_table smap_ok smap_find smap_put smap_erase
  by unfold_locales (auto simp: smap_find_put smap_find_erase)

section \<open>Decimal text of integers\<close>

definition is_digit :: "char \<Rightarrow> bool" where
  "is_digit c \<longleftrightarrow> 48 \<le> (of_char c :: nat) \<and> (of_char c :: nat) \<le> 57"

definition is_space :: "char \<Rightarrow> bool" where
  "is_space c \<longleftrightarrow> c = CHR '' '' \<or> (9 \<le> (of_char c :: nat) \<and> (of_char c :: nat) \<le> 13)"

definition digit_char :: "nat \<Rightarrow> char" where
  "digit_char n = char_of (48 + n)"

definition digit_val :: "char \<Rightarrow> nat" where
  "digit_val c = of_char c - 48"

fun show_nat :: "nat \<Rightarrow> string" where
  "show_nat n = (if n < 10 then [digit_char n] else show_nat (n div 10) @ [digit_char (n mod 10)])"

declare show_nat.simps [simp del]

definition digits_val :: "string \<Rightarrow> nat" where
  "digits_val ds = foldl (\<lambda>a c. 10 * a + digit_val c) 0 ds"

text \<open>\<open>m_ostream << data\<close> for a 64-bit signed integer in the classic locale.\<close>

definition show_int :: "int \<Rightarrow> string" where
  "show_int i = (if i < 0 then CHR ''-'' # show_nat (nat (- i)) else show_nat (nat i))"

definition show_i64 :: "i64 \<Rightarrow> string" where
  "show_i64 w = show_int (sint w)"

text \<open>
  \<open>std::stol\<close>: white space, an optional sign, the longest run of digits; \<open>None\<close> is the
  \<open>invalid_argument\<close> exception (no digit) or \<open>out_of_range\<close> (not a 64-bit value).
\<close>

definition split_sign :: "string \<Rightarrow> bool \<times> string" where
  "split_sign s = (case s of
      [] \<Rightarrow> (False, [])
    | c # r \<Rightarrow> if c = CHR ''-'' then (True, r) else if c = CHR ''+'' then (False, r) else (False, s))"

definition stol :: "string \<Rightarrow> i64 option" where
  "stol s = (case split_sign (dropWhile is_space s) of (neg, r) \<Rightarrow>
     (let ds = takeWhile is_digit r;
          v = (if neg then - int (digits_val ds) else int (digits_val ds))
      in if ds = [] then None
         else if - (2 ^ 63) \<le> v \<and> v < 2 ^ 63 then Some (word_of_int v) else None))"

lemma of_char_digit [simp]: "n < 10 \<Longrightarrow> (of_char (digit_char n) :: nat) = 48 + n"
  by (simp add: digit_char_def)

lemma is_digit_digit_char [simp]: "n < 10 \<Longrightarrow> is_digit (digit_char n)"
  by (simp add: is_digit_def)

lemma digit_val_digit_char [simp]: "n < 10 \<Longrightarrow> digit_val (digit_char n) = n"
  by (simp add: digit_val_def)

lemma show_nat_digits [char_facts]: "c \<in> set (show_nat n) \<Longrightarrow> is_digit c"
  by (induction n rule: show_nat.induct) (subst (asm) (2) show_nat.simps, auto split: if_splits)

lemma show_nat_not_Nil [simp]: "show_nat n \<noteq> []"
  by (subst show_nat.simps) simp

lemma digits_val_snoc [simp]: "digits_val (ds @ [c]) = 10 * digits_val ds + digit_val c"
  by (simp add: digits_val_def)

lemma digits_val_show_nat [simp]: "digits_val (show_nat n) = n"
proof (induction n rule: show_nat.induct)
  case (1 n)
  show ?case
  proof (cases "n < 10")
    case True
    then show ?thesis by (subst show_nat.simps) (simp add: digits_val_def)
  next
    case False
    with 1 show ?thesis by (subst show_nat.simps) simp
  qed
qed

lemma is_digit_facts:
  assumes "is_digit c"
  shows "\<not> is_space c" and "c \<noteq> CHR ''-''" and "c \<noteq> CHR ''+''"
  using assms by (auto simp: is_digit_def is_space_def)

lemma show_nat_Cons: "\<exists>c r. show_nat n = c # r \<and> is_digit c"
proof -
  obtain c r where "show_nat n = c # r" by (cases "show_nat n") auto
  then show ?thesis using show_nat_digits [of c n] by auto
qed

lemma takeWhile_show_nat [simp]: "takeWhile is_digit (show_nat n) = show_nat n"
  by (simp add: takeWhile_eq_all_conv show_nat_digits)

lemma stol_show_int:
  assumes "- (2 ^ 63) \<le> i" and "i < 2 ^ 63"
  shows "stol (show_int i) = Some (word_of_int i)"
proof -
  obtain c r where c: "show_nat (nat i) = c # r" "is_digit c" using show_nat_Cons by blast
  have "split_sign (dropWhile is_space (show_int i)) =
      (if i < 0 then (True, show_nat (nat (- i))) else (False, show_nat (nat i)))"
    using c is_digit_facts [OF c(2)] by (auto simp: show_int_def split_sign_def is_space_def)
  then show ?thesis using assms by (auto simp: stol_def Let_def)
qed

lemma stol_show_i64 [simp]: "stol (show_i64 w) = Some w"
proof -
  have "- (2 ^ 63) \<le> sint w" and "sint w < 2 ^ 63"
    using sint_ge [of w] sint_lt [of w] by simp_all
  then show ?thesis by (simp add: show_i64_def stol_show_int)
qed

lemma show_i64_chars [char_facts]: "c \<in> set (show_i64 w) \<Longrightarrow> is_digit c \<or> c = CHR ''-''"
  by (auto simp: show_i64_def show_int_def split: if_splits dest: show_nat_digits)

lemma show_i64_not_Nil [simp]: "show_i64 w \<noteq> []"
  by (simp add: show_i64_def show_int_def)

end
