(* ===== verification/Doubles.thy ===== *)
theory Doubles
  imports Prelude
begin

text \<open>
  The text of IEEE-754 doubles, as the codecs use it. A double is its 64 bits.
  \<open>show_f64\<close> is \<open>std::ostream::operator<<(double)\<close> at its default precision, the
  conversion \<open>%g\<close> with six significant digits; \<open>stod\<close> is \<open>std::stod\<close>, whose
  \<open>None\<close> is the exception it throws (no number, or \<open>strtod\<close> reports ERANGE). Both compute
  with exact fractions of natural numbers and round half to even, as the C library does in the
  default rounding mode.
\<close>

type_synonym f64 = "64 word"

definition f64_neg :: "f64 \<Rightarrow> bool" where
  "f64_neg w = bit w 63"

definition f64_exp :: "f64 \<Rightarrow> nat" where
  "f64_exp w = (unat w div 2 ^ 52) mod 2048"

definition f64_man :: "f64 \<Rightarrow> nat" where
  "f64_man w = unat w mod 2 ^ 52"

definition f64_finite :: "f64 \<Rightarrow> bool" where
  "f64_finite w \<longleftrightarrow> f64_exp w \<noteq> 2047"

definition f64_make :: "bool \<Rightarrow> nat \<Rightarrow> f64" where
  "f64_make neg n = word_of_nat (n + (if neg then 2 ^ 63 else 0))"

section \<open>Printing\<close>

text \<open>The fraction \<open>a / b\<close> rounded to the nearest integer, ties to even.\<close>

definition round_half_even :: "nat \<Rightarrow> nat \<Rightarrow> nat" where
  "round_half_even a b = (let q = a div b; r = a mod b in
     if 2 * r < b then q else if b < 2 * r then q + 1 else if even q then q else q + 1)"

text \<open>The decimal exponent of the fraction \<open>n / d\<close>, that is the floor of its base-10 logarithm.\<close>

definition dec_exponent :: "nat \<Rightarrow> nat \<Rightarrow> int" where
  "dec_exponent n d =
     (if d \<le> n then int (length (show_nat (n div d))) - 1
      else - int (length (show_nat ((d - 1) div n))))"

definition strip_zeros :: "string \<Rightarrow> string" where
  "strip_zeros ds = rev (dropWhile (\<lambda>c. c = CHR ''0'') (rev ds))"

definition with_fraction :: "string \<Rightarrow> string \<Rightarrow> string" where
  "with_fraction ip fp = (if fp = [] then ip else ip @ CHR ''.'' # fp)"

definition show_exponent :: "int \<Rightarrow> string" where
  "show_exponent x = (let ds = show_nat (nat \<bar>x\<bar>) in
     CHR ''e'' # (if x < 0 then CHR ''-'' else CHR ''+'') #
     (if length ds < 2 then CHR ''0'' # ds else ds))"

text \<open>The text of six decimal digits \<open>ds\<close> with the point after the first, times ten to the \<open>x\<close>.\<close>

definition show_scaled :: "string \<Rightarrow> int \<Rightarrow> string" where
  "show_scaled ds x =
     (if -4 \<le> x \<and> x < 6 then
        (if 0 \<le> x
         then with_fraction (take (Suc (nat x)) ds) (strip_zeros (drop (Suc (nat x)) ds))
         else with_fraction ''0'' (strip_zeros (replicate (nat (- x) - 1) (CHR ''0'') @ ds)))
      else with_fraction (take (Suc 0) ds) (strip_zeros (drop 1 ds)) @ show_exponent x)"

definition show_fraction :: "nat \<Rightarrow> nat \<Rightarrow> string" where
  "show_fraction n d =
     (let x = dec_exponent n d;
          s = (if 5 < x then round_half_even n (d * 10 ^ nat (x - 5))
               else round_half_even (n * 10 ^ nat (5 - x)) d)
      in if s = 10 ^ 6 then show_scaled (show_nat (10 ^ 5)) (x + 1) else show_scaled (show_nat s) x)"

definition show_significand :: "nat \<Rightarrow> int \<Rightarrow> string" where
  "show_significand m e =
     (if 0 \<le> e then show_fraction (m * 2 ^ nat e) 1 else show_fraction m (2 ^ nat (- e)))"

definition show_magnitude :: "f64 \<Rightarrow> string" where
  "show_magnitude w =
     (if f64_exp w = 2047 then (if f64_man w = 0 then ''inf'' else ''nan'')
      else if f64_exp w = 0 \<and> f64_man w = 0 then ''0''
      else show_significand (if f64_exp w = 0 then f64_man w else 2 ^ 52 + f64_man w)
             (int (max 1 (f64_exp w)) - 1075))"

definition show_f64 :: "f64 \<Rightarrow> string" where
  "show_f64 w = (if f64_neg w then ''-'' else []) @ show_magnitude w"

section \<open>Reading\<close>

fun bit_length :: "nat \<Rightarrow> nat" where
  "bit_length n = (if n = 0 then 0 else Suc (bit_length (n div 2)))"

declare bit_length.simps [simp del]

definition scale2 :: "nat \<Rightarrow> nat \<Rightarrow> int \<Rightarrow> nat" where
  "scale2 n d e = (if 0 \<le> e then round_half_even n (d * 2 ^ nat e)
                   else round_half_even (n * 2 ^ nat (- e)) d)"

text \<open>
  The double nearest to \<open>n / d\<close>; \<open>None\<close> when \<open>strtod\<close> sets ERANGE, that is on overflow
  and when the result is tiny (after rounding) and inexact.
\<close>

definition nearest_f64 :: "bool \<Rightarrow> nat \<Rightarrow> nat \<Rightarrow> f64 option" where
  "nearest_f64 neg n d =
     (if n = 0 then Some (f64_make neg 0)
      else let k = int (bit_length n) - int (bit_length d);
               lg = (if (if 0 \<le> k then d * 2 ^ nat k \<le> n else d \<le> n * 2 ^ nat (- k)) then k else k - 1);
               e = max (lg - 52) (-1074);
               m = scale2 n d e;
               exact = (if 0 \<le> e then m * 2 ^ nat e * d = n else m * d = n * 2 ^ nat (- e));
               tiny = (lg < -1022 \<and> \<not> (lg = -1023 \<and> scale2 n d (lg - 52) = 2 ^ 53))
           in if tiny \<and> \<not> exact then None
              else if m < 2 ^ 52 then Some (f64_make neg m)
              else let b = (if m = 2 ^ 53 then e + 1076 else e + 1075);
                       f = (if m = 2 ^ 53 then 0 else m - 2 ^ 52)
                   in if 2047 \<le> b then None else Some (f64_make neg (nat b * 2 ^ 52 + f)))"

definition is_hex_digit :: "char \<Rightarrow> bool" where
  "is_hex_digit c \<longleftrightarrow> is_digit c \<or> c \<in> set ''abcdefABCDEF''"

definition hex_val :: "char \<Rightarrow> nat" where
  "hex_val c = (let n = of_char c in
     if is_digit c then n - 48 else if 97 \<le> n then n - 87 else n - 55)"

definition split_point :: "(char \<Rightarrow> bool) \<Rightarrow> string \<Rightarrow> string \<times> string \<times> string" where
  "split_point P r = (let ip = takeWhile P r; r1 = dropWhile P r in
     case r1 of [] \<Rightarrow> (ip, [], [])
     | c # t \<Rightarrow> if c = CHR ''.'' then (ip, takeWhile P t, dropWhile P t) else (ip, [], r1))"

definition read_exponent :: "char \<Rightarrow> char \<Rightarrow> string \<Rightarrow> int" where
  "read_exponent lo up r = (case r of [] \<Rightarrow> 0
     | c # t \<Rightarrow> if c = lo \<or> c = up then
         (case split_sign t of (neg, t') \<Rightarrow>
            let v = int (digits_val (takeWhile is_digit t')) in if neg then - v else v)
       else 0)"

definition scaled_fraction :: "bool \<Rightarrow> nat \<Rightarrow> nat \<Rightarrow> int \<Rightarrow> f64 option" where
  "scaled_fraction neg base m x =
     (if 0 \<le> x then nearest_f64 neg (m * base ^ nat x) 1 else nearest_f64 neg m (base ^ nat (- x)))"

definition read_decimal :: "bool \<Rightarrow> string \<Rightarrow> f64 option" where
  "read_decimal neg r = (case split_point is_digit r of (ip, fp, r2) \<Rightarrow>
     if ip @ fp = [] then None
     else scaled_fraction neg 10 (digits_val (ip @ fp))
            (read_exponent (CHR ''e'') (CHR ''E'') r2 - int (length fp)))"

definition read_hex :: "bool \<Rightarrow> string \<Rightarrow> f64 option" where
  "read_hex neg r = (case split_point is_hex_digit r of (ip, fp, r2) \<Rightarrow>
     if ip @ fp = [] then Some (f64_make neg 0)
     else scaled_fraction neg 2 (foldl (\<lambda>a c. 16 * a + hex_val c) 0 (ip @ fp))
            (read_exponent (CHR ''p'') (CHR ''P'') r2 - 4 * int (length fp)))"

definition lower :: "char \<Rightarrow> char" where
  "lower c = (let n = (of_char c :: nat) in if 65 \<le> n \<and> n \<le> 90 then char_of (n + 32) else c)"

definition stod :: "string \<Rightarrow> f64 option" where
  "stod s = (case split_sign (dropWhile is_space s) of (neg, r) \<Rightarrow>
     if map lower (take 3 r) = ''inf'' then Some (f64_make neg (2047 * 2 ^ 52))
     else if map lower (take 3 r) = ''nan'' then Some (f64_make neg (2047 * 2 ^ 52 + 2 ^ 51))
     else if map lower (take 2 r) = ''0x'' then read_hex neg (drop 2 r)
     else read_decimal neg r)"

section \<open>The characters of a printed double\<close>

definition float_chars :: string where
  "float_chars = ''-+.e''"

lemma in_strip_zeros: "c \<in> set (strip_zeros ds) \<Longrightarrow> c \<in> set ds"
  unfolding strip_zeros_def using set_dropWhileD [of c _ "rev ds"] by simp

lemma set_with_fraction: "set (with_fraction ip fp) \<subseteq> set ip \<union> {CHR ''.''} \<union> set fp"
  by (simp add: with_fraction_def) blast

lemma is_digit_0 [simp]: "is_digit (CHR ''0'')"
  by (simp add: is_digit_def)

lemma set_show_exponent:
  assumes "c \<in> set (show_exponent x)"
  shows "is_digit c \<or> c \<in> set float_chars"
proof -
  have "set (show_exponent x) \<subseteq> set ''e-+0'' \<union> set (show_nat (nat \<bar>x\<bar>))"
    by (auto simp: show_exponent_def Let_def)
  with assms have "c \<in> set ''e-+0'' \<or> is_digit c" using show_nat_digits by blast
  then show ?thesis using is_digit_0 by (auto simp: float_chars_def)
qed

lemma take_show_nat: "c \<in> set (take k (show_nat n)) \<Longrightarrow> is_digit c"
  by (rule show_nat_digits, erule in_set_takeD)

lemma strip_drop_show_nat: "c \<in> set (strip_zeros (drop k (show_nat n))) \<Longrightarrow> is_digit c"
  by (rule show_nat_digits, rule in_set_dropD, erule in_strip_zeros)

lemma strip_pad_show_nat:
  assumes "c \<in> set (strip_zeros (replicate k (CHR ''0'') @ show_nat n))"
  shows "is_digit c"
  using in_strip_zeros [OF assms] show_nat_digits [of c n] by (cases "k = 0") auto

lemma set_digits_fraction:
  assumes "\<And>c. c \<in> set ip \<Longrightarrow> is_digit c" and "\<And>c. c \<in> set fp \<Longrightarrow> is_digit c"
    and "c \<in> set (with_fraction ip fp)"
  shows "is_digit c \<or> c \<in> set float_chars"
  using assms subsetD [OF set_with_fraction assms(3)] by (auto simp: float_chars_def)

lemma show_scaled_chars:
  assumes "c \<in> set (show_scaled (show_nat s) x)"
  shows "is_digit c \<or> c \<in> set float_chars"
proof -
  have 1: "c \<in> set (with_fraction (take k (show_nat s)) (strip_zeros (drop k' (show_nat s)))) \<Longrightarrow>
      is_digit c \<or> c \<in> set float_chars" for k k'
    by (rule set_digits_fraction) (auto dest: take_show_nat strip_drop_show_nat)
  have 2: "c \<in> set (with_fraction ''0'' (strip_zeros (replicate k (CHR ''0'') @ show_nat s))) \<Longrightarrow>
      is_digit c \<or> c \<in> set float_chars" for k
    by (rule set_digits_fraction) (auto dest: strip_pad_show_nat)
  show ?thesis
    using assms unfolding show_scaled_def
    by (auto split: if_splits dest: 1 2 set_show_exponent)
qed

lemma show_fraction_chars:
  "c \<in> set (show_fraction n d) \<Longrightarrow> is_digit c \<or> c \<in> set float_chars"
  unfolding show_fraction_def Let_def by (auto split: if_splits dest: show_scaled_chars)

lemma with_fraction_hd:
  "ip \<noteq> [] \<Longrightarrow> with_fraction ip fp \<noteq> [] \<and> hd (with_fraction ip fp) = hd ip"
  by (auto simp: with_fraction_def)

lemma show_scaled_hd: "show_scaled (show_nat s) x \<noteq> [] \<and> is_digit (hd (show_scaled (show_nat s) x))"
proof -
  obtain c r where "show_nat s = c # r" and "is_digit c" using show_nat_Cons by blast
  then show ?thesis by (simp add: show_scaled_def with_fraction_def)
qed

lemma show_fraction_hd: "show_fraction n d \<noteq> [] \<and> is_digit (hd (show_fraction n d))"
  unfolding show_fraction_def Let_def by (simp add: show_scaled_hd)

lemma show_significand_chars:
  "c \<in> set (show_significand m e) \<Longrightarrow> is_digit c \<or> c \<in> set float_chars"
  by (simp only: show_significand_def split: if_splits) (erule show_fraction_chars)+

lemma show_significand_hd: "show_significand m e \<noteq> [] \<and> is_digit (hd (show_significand m e))"
  by (simp only: show_significand_def show_fraction_hd split: if_splits) simp

lemma show_magnitude_finite:
  assumes "f64_finite w"
  shows "show_magnitude w = ''0'' \<or> (\<exists>m e. show_magnitude w = show_significand m e)"
  using assms unfolding show_magnitude_def f64_finite_def by metis

lemma show_f64_finite_chars:
  assumes "f64_finite w" and "c \<in> set (show_f64 w)"
  shows "is_digit c \<or> c \<in> set float_chars"
proof -
  have minus: "CHR ''-'' \<in> set float_chars" by (simp add: float_chars_def)
  show ?thesis
    using show_magnitude_finite [OF assms(1)] assms(2) minus
    by (auto simp: show_f64_def dest: show_significand_chars split: if_splits)
qed

lemma show_f64_infinite:
  "\<not> f64_finite w \<Longrightarrow> show_f64 w \<in> {''inf'', ''nan'', ''-inf'', ''-nan''}"
  by (simp add: show_f64_def show_magnitude_def f64_finite_def)

lemma show_f64_chars [char_facts]:
  "c \<in> set (show_f64 w) \<Longrightarrow> is_digit c \<or> c \<in> set (float_chars @ ''infa'')"
  using show_f64_finite_chars [of w c] show_f64_infinite [of w]
  by (cases "f64_finite w") (auto simp: float_chars_def)

lemma show_f64_not_Nil [simp]: "show_f64 w \<noteq> []"
proof (cases "f64_finite w")
  case True
  then show ?thesis using show_magnitude_finite show_significand_hd by (fastforce simp: show_f64_def)
next
  case False
  then show ?thesis using show_f64_infinite by fastforce
qed

lemma show_f64_hd:
  assumes "f64_finite w"
  shows "is_digit (hd (show_f64 w)) \<or> hd (show_f64 w) = CHR ''-''"
  using show_magnitude_finite [OF assms] show_significand_hd
  by (auto simp: show_f64_def hd_append)

end
