(* ===== verification/Atlas_Message.thy ===== *)
theory Atlas_Message
  imports Doubles
begin

text \<open>
  The data of \<open>libs/atlas/src/Atlas/Message\<close>: the variant type \<open>Element\<close>, the calls of the
  interface \<open>Atlas::Bridge\<close>, the message encoder (\<open>MEncoder.cpp\<close>) that turns an element into a
  sequence of bridge calls, and the bracketing discipline such a sequence obeys. A map
  (\<open>MapType\<close>, a \<open>std::map\<close>) is the list of its entries in key order.
\<close>

section \<open>Elements and bridge calls\<close>

datatype elem =
    ENone
  | EInt i64
  | EFloat f64
  | EPtr "64 word"
  | EString string
  | EMap "(string \<times> elem) list"
  | EList "elem list"

type_synonym map_type = "(string \<times> elem) list"
type_synonym list_type = "elem list"

datatype bridge_call =
    StreamBegin
  | StreamMessage
  | StreamEnd
  | MapMapItem string
  | MapListItem string
  | MapIntItem string i64
  | MapFloatItem string f64
  | MapStringItem string string
  | MapNoneItem string
  | MapEnd
  | ListMapItem
  | ListListItem
  | ListIntItem i64
  | ListFloatItem f64
  | ListStringItem string
  | ListNoneItem
  | ListEnd

text \<open>
  A \<open>std::map\<close> is ordered by its key type: every map inside an element has strictly
  increasing names. This is the class invariant of the values the code builds.
\<close>

fun elem_ok :: "elem \<Rightarrow> bool" and entries_ok :: "map_type \<Rightarrow> bool" and elems_ok :: "list_type \<Rightarrow> bool"
where
  "elem_ok (EMap m) = (smap_ok m \<and> entries_ok m)"
| "elem_ok (EList l) = elems_ok l"
| "elem_ok _ = True"
| "entries_ok [] = True"
| "entries_ok ((n, e) # m) = (elem_ok e \<and> entries_ok m)"
| "elems_ok [] = True"
| "elems_ok (e # l) = (elem_ok e \<and> elems_ok l)"

definition message_ok :: "map_type \<Rightarrow> bool" where
  "message_ok m = elem_ok (EMap m)"

section \<open>The message encoder\<close>

text \<open>
  \<open>Encoder::mapElementItem\<close> and \<open>Encoder::listElementItem\<close>; the loops over the entries of a
  map and the elements of a list are the two functions on lists. A pointer falls through to
  \<open>default\<close> and makes no call.
\<close>

fun map_element_item :: "string \<Rightarrow> elem \<Rightarrow> bridge_call list"
  and list_element_item :: "elem \<Rightarrow> bridge_call list"
  and encode_entries :: "map_type \<Rightarrow> bridge_call list"
  and encode_elements :: "list_type \<Rightarrow> bridge_call list"
where
  "map_element_item n (EInt i) = [MapIntItem n i]"
| "map_element_item n (EFloat d) = [MapFloatItem n d]"
| "map_element_item n (EString s) = [MapStringItem n s]"
| "map_element_item n (EMap m) = MapMapItem n # encode_entries m @ [MapEnd]"
| "map_element_item n (EList l) = MapListItem n # encode_elements l @ [ListEnd]"
| "map_element_item n ENone = [MapNoneItem n]"
| "map_element_item n (EPtr p) = []"
| "list_element_item (EInt i) = [ListIntItem i]"
| "list_element_item (EFloat d) = [ListFloatItem d]"
| "list_element_item (EString s) = [ListStringItem s]"
| "list_element_item (EMap m) = ListMapItem # encode_entries m @ [MapEnd]"
| "list_element_item (EList l) = ListListItem # encode_elements l @ [ListEnd]"
| "list_element_item ENone = [ListNoneItem]"
| "list_element_item (EPtr p) = []"
| "encode_entries [] = []"
| "encode_entries ((n, e) # m) = map_element_item n e @ encode_entries m"
| "encode_elements [] = []"
| "encode_elements (e # l) = list_element_item e @ encode_elements l"

definition list_element_map_item :: "map_type \<Rightarrow> bridge_call list" where
  "list_element_map_item m = ListMapItem # encode_entries m @ [MapEnd]"

definition list_element_list_item :: "list_type \<Rightarrow> bridge_call list" where
  "list_element_list_item l = ListListItem # encode_elements l @ [ListEnd]"

definition map_element_map_item :: "string \<Rightarrow> map_type \<Rightarrow> bridge_call list" where
  "map_element_map_item n m = MapMapItem n # encode_entries m @ [MapEnd]"

definition map_element_list_item :: "string \<Rightarrow> list_type \<Rightarrow> bridge_call list" where
  "map_element_list_item n l = MapListItem n # encode_elements l @ [ListEnd]"

definition stream_message_element :: "map_type \<Rightarrow> bridge_call list" where
  "stream_message_element m = StreamMessage # encode_entries m @ [MapEnd]"

section \<open>The bracketing discipline of a bridge\<close>

text \<open>
  The contexts of \<open>Bridge.h\<close>: nothing yet, in a stream, in a map, in a list. \<open>call_next k c\<close>
  is the stack of contexts after the call \<open>c\<close>, \<open>None\<close> when the call does not belong there.
\<close>

datatype bctx = KStream | KMap | KList

definition call_next :: "bctx list \<Rightarrow> bridge_call \<Rightarrow> bctx list option" where
  "call_next k c = (case k of
      [] \<Rightarrow> (case c of StreamBegin \<Rightarrow> Some [KStream] | _ \<Rightarrow> None)
    | x # r \<Rightarrow> (case x of
        KStream \<Rightarrow> (case c of StreamMessage \<Rightarrow> Some (KMap # k) | _ \<Rightarrow> None)
      | KMap \<Rightarrow> (case c of
            MapMapItem n \<Rightarrow> Some (KMap # k)
          | MapListItem n \<Rightarrow> Some (KList # k)
          | MapIntItem n i \<Rightarrow> Some k
          | MapFloatItem n d \<Rightarrow> Some k
          | MapStringItem n s \<Rightarrow> Some k
          | MapNoneItem n \<Rightarrow> Some k
          | MapEnd \<Rightarrow> Some r
          | _ \<Rightarrow> None)
      | KList \<Rightarrow> (case c of
            ListMapItem \<Rightarrow> Some (KMap # k)
          | ListListItem \<Rightarrow> Some (KList # k)
          | ListIntItem i \<Rightarrow> Some k
          | ListFloatItem d \<Rightarrow> Some k
          | ListStringItem s \<Rightarrow> Some k
          | ListNoneItem \<Rightarrow> Some k
          | ListEnd \<Rightarrow> Some r
          | _ \<Rightarrow> None)))"

lemma call_next_simps [simp]:
  "call_next [] StreamBegin = Some [KStream]"
  "call_next (KStream # k) StreamMessage = Some (KMap # KStream # k)"
  "call_next (KMap # k) (MapMapItem n) = Some (KMap # KMap # k)"
  "call_next (KMap # k) (MapListItem n) = Some (KList # KMap # k)"
  "call_next (KMap # k) (MapIntItem n i) = Some (KMap # k)"
  "call_next (KMap # k) (MapFloatItem n d) = Some (KMap # k)"
  "call_next (KMap # k) (MapStringItem n s) = Some (KMap # k)"
  "call_next (KMap # k) (MapNoneItem n) = Some (KMap # k)"
  "call_next (KMap # k) MapEnd = Some k"
  "call_next (KList # k) ListMapItem = Some (KMap # KList # k)"
  "call_next (KList # k) ListListItem = Some (KList # KList # k)"
  "call_next (KList # k) (ListIntItem i) = Some (KList # k)"
  "call_next (KList # k) (ListFloatItem d) = Some (KList # k)"
  "call_next (KList # k) (ListStringItem s) = Some (KList # k)"
  "call_next (KList # k) ListNoneItem = Some (KList # k)"
  "call_next (KList # k) ListEnd = Some k"
  by (simp_all add: call_next_def)

lemma call_next_cases:
  assumes "call_next k c = Some k'"
  obtains
    (begin_stream) "k = []" "c = StreamBegin" "k' = [KStream]"
  | (message) r where "k = KStream # r" "c = StreamMessage" "k' = KMap # k"
  | (map_map) r n where "k = KMap # r" "c = MapMapItem n" "k' = KMap # k"
  | (map_list) r n where "k = KMap # r" "c = MapListItem n" "k' = KList # k"
  | (map_int) r n i where "k = KMap # r" "c = MapIntItem n i" "k' = k"
  | (map_float) r n d where "k = KMap # r" "c = MapFloatItem n d" "k' = k"
  | (map_string) r n s where "k = KMap # r" "c = MapStringItem n s" "k' = k"
  | (map_none) r n where "k = KMap # r" "c = MapNoneItem n" "k' = k"
  | (map_end) "k = KMap # k'" "c = MapEnd"
  | (list_map) r where "k = KList # r" "c = ListMapItem" "k' = KMap # k"
  | (list_list) r where "k = KList # r" "c = ListListItem" "k' = KList # k"
  | (list_int) r i where "k = KList # r" "c = ListIntItem i" "k' = k"
  | (list_float) r d where "k = KList # r" "c = ListFloatItem d" "k' = k"
  | (list_string) r s where "k = KList # r" "c = ListStringItem s" "k' = k"
  | (list_none) r where "k = KList # r" "c = ListNoneItem" "k' = k"
  | (list_end) "k = KList # k'" "c = ListEnd"
  using assms unfolding call_next_def
  by (auto split: list.splits bctx.splits bridge_call.splits)

fun calls_next :: "bctx list \<Rightarrow> bridge_call list \<Rightarrow> bctx list option" where
  "calls_next k [] = Some k"
| "calls_next k (c # cs) = (case call_next k c of None \<Rightarrow> None | Some k' \<Rightarrow> calls_next k' cs)"

lemma calls_next_append [simp]:
  "calls_next k (xs @ ys) = (case calls_next k xs of None \<Rightarrow> None | Some k' \<Rightarrow> calls_next k' ys)"
  by (induction xs arbitrary: k) (auto split: option.splits)

lemma calls_next_encode:
  "calls_next (KMap # k) (map_element_item n e) = Some (KMap # k)"
  "calls_next (KList # k) (list_element_item e) = Some (KList # k)"
  "calls_next (KMap # k) (encode_entries m) = Some (KMap # k)"
  "calls_next (KList # k) (encode_elements l) = Some (KList # k)"
  by (induction n e and e and m and l arbitrary: k and k and k and k
      rule: map_element_item_list_element_item_encode_entries_encode_elements.induct) auto

lemma calls_next_message [simp]:
  "calls_next (KStream # k) (stream_message_element m) = Some (KStream # k)"
  by (simp add: stream_message_element_def calls_next_encode)

lemma calls_next_messages [simp]:
  "calls_next (KStream # k) (concat (map stream_message_element ms)) = Some (KStream # k)"
  by (induction ms) auto

section \<open>What a transport makes of the calls\<close>

text \<open>
  A codec may change a float on its way (it travels as text); \<open>nf d\<close> is the scalar that
  arrives for the double \<open>d\<close>, \<open>None\<close> when the receiving codec ignores the item. All other
  calls arrive as they are.
\<close>

type_synonym float_arrival = "f64 \<Rightarrow> elem option"

fun map_scalar :: "string \<Rightarrow> elem option \<Rightarrow> bridge_call list" where
  "map_scalar n (Some (EInt i)) = [MapIntItem n i]"
| "map_scalar n (Some (EFloat d)) = [MapFloatItem n d]"
| "map_scalar n _ = []"

fun list_scalar :: "elem option \<Rightarrow> bridge_call list" where
  "list_scalar (Some (EInt i)) = [ListIntItem i]"
| "list_scalar (Some (EFloat d)) = [ListFloatItem d]"
| "list_scalar _ = []"

fun arrive :: "float_arrival \<Rightarrow> bridge_call \<Rightarrow> bridge_call list" where
  "arrive nf (MapFloatItem n d) = map_scalar n (nf d)"
| "arrive nf (ListFloatItem d) = list_scalar (nf d)"
| "arrive nf c = [c]"

definition arrive_all :: "float_arrival \<Rightarrow> bridge_call list \<Rightarrow> bridge_call list" where
  "arrive_all nf cs = concat (map (arrive nf) cs)"

lemma arrive_all_simps [simp]:
  "arrive_all nf [] = []"
  "arrive_all nf (c # cs) = arrive nf c @ arrive_all nf cs"
  "arrive_all nf (xs @ ys) = arrive_all nf xs @ arrive_all nf ys"
  by (simp_all add: arrive_all_def)

definition float_scalar :: "elem option \<Rightarrow> elem option" where
  "float_scalar v = (case v of Some (EInt i) \<Rightarrow> v | Some (EFloat d) \<Rightarrow> v | _ \<Rightarrow> None)"

text \<open>The element that arrives: floats as \<open>nf\<close> says, pointers gone.\<close>

fun elem_arrives :: "float_arrival \<Rightarrow> elem \<Rightarrow> elem option"
  and entries_arrive :: "float_arrival \<Rightarrow> map_type \<Rightarrow> map_type"
  and elems_arrive :: "float_arrival \<Rightarrow> list_type \<Rightarrow> list_type"
where
  "elem_arrives nf ENone = Some ENone"
| "elem_arrives nf (EInt i) = Some (EInt i)"
| "elem_arrives nf (EFloat d) = float_scalar (nf d)"
| "elem_arrives nf (EPtr p) = None"
| "elem_arrives nf (EString s) = Some (EString s)"
| "elem_arrives nf (EMap m) = Some (EMap (entries_arrive nf m))"
| "elem_arrives nf (EList l) = Some (EList (elems_arrive nf l))"
| "entries_arrive nf [] = []"
| "entries_arrive nf ((n, e) # m) =
     (case elem_arrives nf e of None \<Rightarrow> [] | Some e' \<Rightarrow> [(n, e')]) @ entries_arrive nf m"
| "elems_arrive nf [] = []"
| "elems_arrive nf (e # l) =
     (case elem_arrives nf e of None \<Rightarrow> [] | Some e' \<Rightarrow> [e']) @ elems_arrive nf l"

lemma entries_arrive_keys: "fst ` set (entries_arrive nf m) \<subseteq> fst ` set m"
proof (induction m)
  case (Cons x m)
  then show ?case by (cases x) (force split: option.splits)
qed simp

text \<open>Elements without floats and pointers arrive unchanged.\<close>

fun elem_exact :: "float_arrival \<Rightarrow> elem \<Rightarrow> bool"
  and entries_exact :: "float_arrival \<Rightarrow> map_type \<Rightarrow> bool"
  and elems_exact :: "float_arrival \<Rightarrow> list_type \<Rightarrow> bool"
where
  "elem_exact nf (EFloat d) = (nf d = Some (EFloat d))"
| "elem_exact nf (EPtr p) = False"
| "elem_exact nf (EMap m) = entries_exact nf m"
| "elem_exact nf (EList l) = elems_exact nf l"
| "elem_exact nf _ = True"
| "entries_exact nf [] = True"
| "entries_exact nf ((n, e) # m) = (elem_exact nf e \<and> entries_exact nf m)"
| "elems_exact nf [] = True"
| "elems_exact nf (e # l) = (elem_exact nf e \<and> elems_exact nf l)"

lemma exact_arrives:
  "elem_exact nf e \<Longrightarrow> elem_arrives nf e = Some e"
  "entries_exact nf m \<Longrightarrow> entries_arrive nf m = m"
  "elems_exact nf l \<Longrightarrow> elems_arrive nf l = l"
  by (induction nf e and nf m and nf l rule: elem_exact_entries_exact_elems_exact.induct)
     (auto simp: float_scalar_def)

end
