(* ===== verification/Atlas_Decoder.thy ===== *)
theory Atlas_Decoder
  imports Atlas_Message
begin

text \<open>
  \<open>Message/DecoderBase.cpp\<close> and \<open>Message/QueuedDecoder.cpp\<close>: the bridge that rebuilds messages.
  Its state is four stacks (the head of a list is the top) and the queue of arrived messages.
  A failed \<open>assert\<close> and a use of an empty stack are the error \<open>DecoderAssert\<close>.
\<close>

datatype decoder_state = STATE_STREAM | STATE_MAP | STATE_LIST

record decoder =
  d_state :: "decoder_state list"
  d_maps :: "map_type list"
  d_lists :: "list_type list"
  d_names :: "string list"
  d_queue :: "map_type list"

datatype decoder_error = DecoderAssert | UnexpectedStateStream

definition decoder_init :: decoder where
  "decoder_init = \<lparr>d_state = [], d_maps = [], d_lists = [], d_names = [], d_queue = []\<rparr>"

section \<open>Operations\<close>

definition message_arrived :: "map_type \<Rightarrow> decoder \<Rightarrow> decoder" where
  "message_arrived m d = d\<lparr>d_queue := d_queue d @ [m]\<rparr>"

definition queue_size :: "decoder \<Rightarrow> nat" where
  "queue_size d = length (d_queue d)"

definition front_message :: "decoder \<Rightarrow> map_type option" where
  "front_message d = (case d_queue d of [] \<Rightarrow> None | m # _ \<Rightarrow> Some m)"

definition pop_message :: "decoder \<Rightarrow> (map_type \<times> decoder) option" where
  "pop_message d = (case d_queue d of [] \<Rightarrow> None | m # q \<Rightarrow> Some (m, d\<lparr>d_queue := q\<rparr>))"

definition push_state :: "decoder_state \<Rightarrow> decoder \<Rightarrow> decoder" where
  "push_state x d = d\<lparr>d_state := x # d_state d\<rparr>"

definition emplace_top :: "string \<Rightarrow> elem \<Rightarrow> decoder \<Rightarrow> decoder_error + decoder" where
  "emplace_top n e d = (case d_maps d of [] \<Rightarrow> Inl DecoderAssert
     | m # ms \<Rightarrow> Inr (d\<lparr>d_maps := smap_emplace n e m # ms\<rparr>))"

definition append_top :: "elem \<Rightarrow> decoder \<Rightarrow> decoder_error + decoder" where
  "append_top e d = (case d_lists d of [] \<Rightarrow> Inl DecoderAssert
     | l # ls \<Rightarrow> Inr (d\<lparr>d_lists := (l @ [e]) # ls\<rparr>))"

definition stream_end :: "decoder \<Rightarrow> decoder_error + decoder" where
  "stream_end d = (case d_state d of [] \<Rightarrow> Inl DecoderAssert | _ # st \<Rightarrow> Inr (d\<lparr>d_state := st\<rparr>))"

definition map_end :: "decoder \<Rightarrow> decoder_error + decoder" where
  "map_end d = (case (d_maps d, d_state d) of
     (m # ms, _ # x # st) \<Rightarrow>
       (let d1 = d\<lparr>d_state := x # st, d_maps := ms\<rparr> in
        case x of
          STATE_MAP \<Rightarrow> (case d_names d of [] \<Rightarrow> Inl DecoderAssert
             | n # ns \<Rightarrow> emplace_top n (EMap m) (d1\<lparr>d_names := ns\<rparr>))
        | STATE_LIST \<Rightarrow> append_top (EMap m) d1
        | STATE_STREAM \<Rightarrow> Inr (message_arrived m d1))
   | _ \<Rightarrow> Inl DecoderAssert)"

definition list_end :: "decoder \<Rightarrow> decoder_error + decoder" where
  "list_end d = (case (d_lists d, d_state d) of
     (l # ls, _ # x # st) \<Rightarrow>
       (let d1 = d\<lparr>d_state := x # st, d_lists := ls\<rparr> in
        case x of
          STATE_MAP \<Rightarrow> (case d_names d of [] \<Rightarrow> Inl DecoderAssert
             | n # ns \<Rightarrow> emplace_top n (EList l) (d1\<lparr>d_names := ns\<rparr>))
        | STATE_LIST \<Rightarrow> append_top (EList l) d1
        | STATE_STREAM \<Rightarrow> Inl UnexpectedStateStream)
   | _ \<Rightarrow> Inl DecoderAssert)"

fun decoder_step :: "decoder \<Rightarrow> bridge_call \<Rightarrow> decoder_error + decoder" where
  "decoder_step d StreamBegin = Inr (push_state STATE_STREAM d)"
| "decoder_step d StreamMessage = Inr (push_state STATE_MAP (d\<lparr>d_maps := [] # d_maps d\<rparr>))"
| "decoder_step d StreamEnd = stream_end d"
| "decoder_step d (MapMapItem n) =
     Inr (push_state STATE_MAP (d\<lparr>d_names := n # d_names d, d_maps := [] # d_maps d\<rparr>))"
| "decoder_step d (MapListItem n) =
     Inr (push_state STATE_LIST (d\<lparr>d_names := n # d_names d, d_lists := [] # d_lists d\<rparr>))"
| "decoder_step d (MapIntItem n i) = emplace_top n (EInt i) d"
| "decoder_step d (MapFloatItem n f) = emplace_top n (EFloat f) d"
| "decoder_step d (MapStringItem n s) = emplace_top n (EString s) d"
| "decoder_step d (MapNoneItem n) = emplace_top n ENone d"
| "decoder_step d MapEnd = map_end d"
| "decoder_step d ListMapItem = Inr (push_state STATE_MAP (d\<lparr>d_maps := [] # d_maps d\<rparr>))"
| "decoder_step d ListListItem = Inr (push_state STATE_LIST (d\<lparr>d_lists := [] # d_lists d\<rparr>))"
| "decoder_step d (ListIntItem i) = append_top (EInt i) d"
| "decoder_step d (ListFloatItem f) = append_top (EFloat f) d"
| "decoder_step d (ListStringItem s) = append_top (EString s) d"
| "decoder_step d ListNoneItem = append_top ENone d"
| "decoder_step d ListEnd = list_end d"

definition decode :: "decoder \<Rightarrow> bridge_call list \<Rightarrow> decoder_error + decoder" where
  "decode = run_steps decoder_step"

section \<open>The stacks agree with the context\<close>

text \<open>
  The invariant that makes every \<open>assert\<close> hold: the state stack is the context stack of the
  bridge, there is one open map (list) per map (list) context, and one pending name for each
  map or list that was opened inside a map.
\<close>

fun ctx_state :: "bctx \<Rightarrow> decoder_state" where
  "ctx_state KStream = STATE_STREAM"
| "ctx_state KMap = STATE_MAP"
| "ctx_state KList = STATE_LIST"

fun pending_names :: "bctx list \<Rightarrow> nat" where
  "pending_names (KMap # KMap # k) = Suc (pending_names (KMap # k))"
| "pending_names (KList # KMap # k) = Suc (pending_names (KMap # k))"
| "pending_names (x # k) = pending_names k"
| "pending_names [] = 0"

text \<open>A stream at the bottom and nowhere else, and only maps directly in the stream.\<close>

fun ctx_wf :: "bctx list \<Rightarrow> bool" where
  "ctx_wf [] = True"
| "ctx_wf [x] = (x = KStream)"
| "ctx_wf (x # y # k) = (x \<noteq> KStream \<and> (y = KStream \<longrightarrow> x = KMap) \<and> ctx_wf (y # k))"

definition decoder_inv :: "bctx list \<Rightarrow> decoder \<Rightarrow> bool" where
  "decoder_inv k d \<longleftrightarrow> ctx_wf k
     \<and> d_state d = map ctx_state k
     \<and> length (d_maps d) = length (filter (\<lambda>x. x = KMap) k)
     \<and> length (d_lists d) = length (filter (\<lambda>x. x = KList) k)
     \<and> length (d_names d) = pending_names k
     \<and> list_all smap_ok (d_maps d)"

lemmas decoder_ops = push_state_def emplace_top_def append_top_def stream_end_def
  map_end_def list_end_def message_arrived_def

section \<open>No assertion fails on a disciplined sequence\<close>

lemma ctx_wf_Cons:
  "ctx_wf (x # k) \<longleftrightarrow>
    (if k = [] then x = KStream
     else x \<noteq> KStream \<and> (hd k = KStream \<longrightarrow> x = KMap) \<and> ctx_wf k)"
  by (cases k) auto

lemma pending_names_Cons:
  "pending_names (x # k) = (if x \<noteq> KStream \<and> k \<noteq> [] \<and> hd k = KMap then 1 else 0) + pending_names k"
proof (cases k)
  case (Cons y r)
  then show ?thesis by (cases x; cases y) auto
qed (cases x, auto)

lemma call_next_wf:
  assumes "call_next k c = Some k'" and "ctx_wf k"
  shows "ctx_wf k'" and "k' \<noteq> []"
  using assms(1) by (cases rule: call_next_cases; use assms(2) in \<open>auto simp: ctx_wf_Cons split: if_splits\<close>)+

lemma decoder_inv_init: "decoder_inv [] decoder_init"
  by (simp add: decoder_inv_def decoder_init_def)

lemma map_end_safe:
  assumes inv: "decoder_inv (KMap # k) d"
  shows "\<exists>d'. map_end d = Inr d' \<and> decoder_inv k d'"
proof -
  from inv have wf: "ctx_wf (KMap # k)" by (simp add: decoder_inv_def)
  then obtain x r where k: "k = x # r" by (cases k) (auto simp: ctx_wf_Cons)
  from inv obtain m ms where maps: "d_maps d = m # ms" by (cases "d_maps d") (auto simp: decoder_inv_def)
  show ?thesis
  proof (cases x)
    case KStream
    with inv k maps wf show ?thesis
      by (auto simp: decoder_inv_def decoder_ops ctx_wf_Cons pending_names_Cons)
  next
    case KMap
    with inv k obtain n ns where "d_names d = n # ns" by (cases "d_names d") (auto simp: decoder_inv_def)
    moreover from inv k KMap maps obtain m' ms' where "ms = m' # ms'" by (cases ms) (auto simp: decoder_inv_def)
    ultimately show ?thesis using KMap inv k maps wf
      by (auto simp: decoder_inv_def decoder_ops ctx_wf_Cons pending_names_Cons)
  next
    case KList
    with inv k obtain l ls where "d_lists d = l # ls" by (cases "d_lists d") (auto simp: decoder_inv_def)
    with KList inv k maps wf show ?thesis
      by (auto simp: decoder_inv_def decoder_ops ctx_wf_Cons pending_names_Cons)
  qed
qed

lemma list_end_safe:
  assumes inv: "decoder_inv (KList # k) d"
  shows "\<exists>d'. list_end d = Inr d' \<and> decoder_inv k d'"
proof -
  from inv have wf: "ctx_wf (KList # k)" by (simp add: decoder_inv_def)
  then obtain x r where k: "k = x # r" by (cases k) (auto simp: ctx_wf_Cons)
  from inv obtain l ls where lists: "d_lists d = l # ls"
    by (cases "d_lists d") (auto simp: decoder_inv_def)
  show ?thesis
  proof (cases x)
    case KStream
    with k wf show ?thesis by (simp add: ctx_wf_Cons)
  next
    case KMap
    with inv k obtain n ns where "d_names d = n # ns" by (cases "d_names d") (auto simp: decoder_inv_def)
    moreover from inv k KMap obtain m ms where "d_maps d = m # ms"
      by (cases "d_maps d") (auto simp: decoder_inv_def)
    ultimately show ?thesis using KMap inv k lists wf
      by (auto simp: decoder_inv_def decoder_ops ctx_wf_Cons pending_names_Cons)
  next
    case KList
    with inv k lists obtain l' ls' where "ls = l' # ls'" by (cases ls) (auto simp: decoder_inv_def)
    with KList inv k lists wf show ?thesis
      by (auto simp: decoder_inv_def decoder_ops ctx_wf_Cons pending_names_Cons)
  qed
qed

lemma emplace_top_safe:
  assumes "decoder_inv (KMap # k) d"
  shows "\<exists>d'. emplace_top n e d = Inr d' \<and> decoder_inv (KMap # k) d'"
  using assms by (cases "d_maps d") (auto simp: emplace_top_def decoder_inv_def)

lemma append_top_safe:
  assumes "decoder_inv (KList # k) d"
  shows "\<exists>d'. append_top e d = Inr d' \<and> decoder_inv (KList # k) d'"
  using assms by (cases "d_lists d") (auto simp: append_top_def decoder_inv_def)

lemma decoder_step_safe:
  assumes inv: "decoder_inv k d" and next_ctx: "call_next k c = Some k'"
  shows "\<exists>d'. decoder_step d c = Inr d' \<and> decoder_inv k' d'"
  using next_ctx
proof (cases rule: call_next_cases)
  case map_end
  then show ?thesis using inv map_end_safe by simp
next
  case list_end
  then show ?thesis using inv list_end_safe by simp
next
  case map_int
  then show ?thesis using inv emplace_top_safe by simp
next
  case map_float
  then show ?thesis using inv emplace_top_safe by simp
next
  case map_string
  then show ?thesis using inv emplace_top_safe by simp
next
  case map_none
  then show ?thesis using inv emplace_top_safe by simp
next
  case list_int
  then show ?thesis using inv append_top_safe by simp
next
  case list_float
  then show ?thesis using inv append_top_safe by simp
next
  case list_string
  then show ?thesis using inv append_top_safe by simp
next
  case list_none
  then show ?thesis using inv append_top_safe by simp
qed (use inv in \<open>auto simp: decoder_inv_def push_state_def ctx_wf_Cons pending_names_Cons split: if_splits\<close>)

lemma decode_safe:
  "decoder_inv k d \<Longrightarrow> calls_next k cs = Some k' \<Longrightarrow> \<exists>d'. decode d cs = Inr d' \<and> decoder_inv k' d'"
proof (induction cs arbitrary: k d)
  case Nil
  then show ?case by (simp add: decode_def)
next
  case (Cons c cs)
  then obtain k1 where k1: "call_next k c = Some k1" "calls_next k1 cs = Some k'"
    by (auto split: option.splits)
  with Cons.prems decoder_step_safe obtain d1 where "decoder_step d c = Inr d1" "decoder_inv k1 d1"
    by blast
  with Cons.IH k1 show ?case by (fastforce simp: decode_def)
qed

section \<open>The messages that arrive\<close>

definition emplace_all :: "map_type \<Rightarrow> map_type \<Rightarrow> map_type" where
  "emplace_all es m = foldl (\<lambda>acc e. smap_emplace (fst e) (snd e) acc) m es"

lemma emplace_all_simps [simp]:
  "emplace_all [] m = m"
  "emplace_all (e # es) m = emplace_all es (smap_emplace (fst e) (snd e) m)"
  "emplace_all (xs @ ys) m = emplace_all ys (emplace_all xs m)"
  by (simp_all add: emplace_all_def)

lemma emplace_all_sorted: "smap_ok (m @ es) \<Longrightarrow> emplace_all es m = m @ es"
proof (induction es arbitrary: m)
  case (Cons e es)
  then have "\<forall>k' \<in> fst ` set m. k' < fst e" by (auto simp: smap_ok_def sorted_wrt_append)
  then show ?case using Cons by (simp add: smap_emplace_last)
qed simp

lemma smap_ok_entries_arrive: "smap_ok m \<Longrightarrow> smap_ok (entries_arrive nf m)"
proof (induction m)
  case (Cons x m)
  obtain n e where x: "x = (n, e)" by (cases x)
  from Cons.prems x have "\<forall>k' \<in> fst ` set (entries_arrive nf m). n < k'"
    using subsetD [OF entries_arrive_keys] by (fastforce simp: smap_ok_Cons)
  with Cons x show ?case by (auto simp: smap_ok_Cons split: option.splits)
qed simp

lemma rebuilt_map: "smap_ok m \<Longrightarrow> emplace_all (entries_arrive nf m) [] = entries_arrive nf m"
  using emplace_all_sorted [of "[]"] smap_ok_entries_arrive by simp

lemma decode_append:
  "decode d (xs @ ys) = (case decode d xs of Inl e \<Rightarrow> Inl e | Inr d' \<Rightarrow> decode d' ys)"
  unfolding decode_def by (rule run_steps_append)

lemma decode_simps [simp]:
  "decode d [] = Inr d"
  "decode d (c # cs) = (case decoder_step d c of Inl e \<Rightarrow> Inl e | Inr d' \<Rightarrow> decode d' cs)"
  unfolding decode_def by simp_all

abbreviation in_map :: "decoder_state list \<Rightarrow> map_type \<Rightarrow> map_type list \<Rightarrow> list_type list
    \<Rightarrow> string list \<Rightarrow> map_type list \<Rightarrow> decoder" where
  "in_map st m ms ls ns q \<equiv>
    \<lparr>d_state = STATE_MAP # st, d_maps = m # ms, d_lists = ls, d_names = ns, d_queue = q\<rparr>"

abbreviation in_list :: "decoder_state list \<Rightarrow> map_type list \<Rightarrow> list_type \<Rightarrow> list_type list
    \<Rightarrow> string list \<Rightarrow> map_type list \<Rightarrow> decoder" where
  "in_list st ms l ls ns q \<equiv>
    \<lparr>d_state = STATE_LIST # st, d_maps = ms, d_lists = l # ls, d_names = ns, d_queue = q\<rparr>"

lemma decode_float_map:
  "decode (in_map st m ms ls ns q) (map_scalar n v) =
    Inr (in_map st (emplace_all (case float_scalar v of None \<Rightarrow> [] | Some e \<Rightarrow> [(n, e)]) m) ms ls ns q)"
  by (cases v rule: list_scalar.cases) (auto simp: float_scalar_def emplace_top_def)

lemma decode_float_list:
  "decode (in_list st ms l ls ns q) (list_scalar v) =
    Inr (in_list st ms (l @ (case float_scalar v of None \<Rightarrow> [] | Some e \<Rightarrow> [e])) ls ns q)"
  by (cases v rule: list_scalar.cases) (auto simp: float_scalar_def append_top_def)

lemma decode_encoded:
  "elem_ok e \<Longrightarrow> decode (in_map st m ms ls ns q) (arrive_all nf (map_element_item n e)) =
    Inr (in_map st (emplace_all (case elem_arrives nf e of None \<Rightarrow> [] | Some e' \<Rightarrow> [(n, e')]) m) ms ls ns q)"
  "elem_ok e \<Longrightarrow> decode (in_list st ms l ls ns q) (arrive_all nf (list_element_item e)) =
    Inr (in_list st ms (l @ (case elem_arrives nf e of None \<Rightarrow> [] | Some e' \<Rightarrow> [e'])) ls ns q)"
  "entries_ok es \<Longrightarrow> decode (in_map st m ms ls ns q) (arrive_all nf (encode_entries es)) =
    Inr (in_map st (emplace_all (entries_arrive nf es) m) ms ls ns q)"
  "elems_ok vs \<Longrightarrow> decode (in_list st ms l ls ns q) (arrive_all nf (encode_elements vs)) =
    Inr (in_list st ms (l @ elems_arrive nf vs) ls ns q)"
  by (induction n e and e and es and vs
      arbitrary: st m ms ls ns q and st ms l ls ns q and st m ms ls ns q and st ms l ls ns q
      rule: map_element_item_list_element_item_encode_entries_encode_elements.induct)
     (auto simp: decode_append decoder_ops decode_float_map decode_float_list rebuilt_map)

lemma decode_message:
  assumes "message_ok m"
  shows "decode \<lparr>d_state = STATE_STREAM # st, d_maps = ms, d_lists = ls, d_names = ns, d_queue = q\<rparr>
      (arrive_all nf (stream_message_element m)) =
    Inr \<lparr>d_state = STATE_STREAM # st, d_maps = ms, d_lists = ls, d_names = ns,
         d_queue = q @ [entries_arrive nf m]\<rparr>"
  using assms
  by (simp add: stream_message_element_def message_ok_def decode_append decode_encoded decoder_ops
      rebuilt_map)

lemma decode_messages:
  assumes "list_all message_ok msgs"
  shows "decode \<lparr>d_state = STATE_STREAM # st, d_maps = ms, d_lists = ls, d_names = ns, d_queue = q\<rparr>
      (arrive_all nf (concat (map stream_message_element msgs))) =
    Inr \<lparr>d_state = STATE_STREAM # st, d_maps = ms, d_lists = ls, d_names = ns,
         d_queue = q @ map (entries_arrive nf) msgs\<rparr>"
  using assms by (induction msgs arbitrary: q) (auto simp: decode_append decode_message)

section \<open>What the decoder guarantees\<close>

lemma arrive_all_same: "arrive_all (\<lambda>d. Some (EFloat d)) cs = cs"
proof (induction cs)
  case (Cons c cs)
  then show ?case by (cases c) auto
qed simp

text \<open>An element is plain when no pointer is in it; pointers are not sent.\<close>

definition plain_message :: "map_type \<Rightarrow> bool" where
  "plain_message m \<longleftrightarrow> entries_exact (\<lambda>d. Some (EFloat d)) m"

text \<open>
  C9: the decoder rebuilds what the encoder took apart. Any list of messages without pointers, nested
  to any depth, streamed by \<open>streamMessageElement\<close> to a decoder whose stream is open, is appended
  to its queue unchanged and in order, and the four stacks are as they were before.
\<close>

theorem decoder_inverts_encoder:
  assumes "list_all message_ok msgs" and "list_all plain_message msgs"
    and "decode decoder_init [StreamBegin] = Inr d0"
  shows "decode d0 (concat (map stream_message_element msgs)) = Inr (d0\<lparr>d_queue := msgs\<rparr>)"
proof -
  have "map (entries_arrive (\<lambda>d. Some (EFloat d))) msgs = msgs"
    using assms(2) by (induction msgs) (auto simp: plain_message_def exact_arrives)
  with decode_messages [OF assms(1), of "[]" "[]" "[]" "[]" "[]" "\<lambda>d. Some (EFloat d)"] assms(3)
  show ?thesis by (auto simp: arrive_all_same decoder_init_def push_state_def)
qed

theorem decoder_inverts_encoder_witness:
  "\<exists>d. decode decoder_init (StreamBegin # concat (map stream_message_element
       [[(''a'', EList [EInt 1, EMap [(''x'', ENone)]]), (''b'', EFloat 7)], []])) = Inr d
     \<and> d_queue d = [[(''a'', EList [EInt 1, EMap [(''x'', ENone)]]), (''b'', EFloat 7)], []]"
  using decoder_inverts_encoder [of "[[(''a'', EList [EInt 1, EMap [(''x'', ENone)]]), (''b'', EFloat 7)], []]"
      "push_state STATE_STREAM decoder_init"]
  by (simp add: message_ok_def plain_message_def smap_ok_Cons)

text \<open>
  C10: no assertion of the decoder can fail on calls that are properly bracketed. Whatever the calls,
  if each belongs to the context it is made in (a stream, a map, a list), none of the stacks
  is used empty, and the invariant holds: the state stack mirrors the open contexts, there is one
  partial map or list per open map or list, one pending name per container opened in a map, and
  every partial map is ordered.
\<close>

theorem decoder_never_asserts:
  assumes "decoder_inv k d" and "calls_next k cs = Some k'"
  shows "\<exists>d'. decode d cs = Inr d' \<and> decoder_inv k' d'"
  using assms by (rule decode_safe)

theorem decoder_never_asserts_witness:
  "\<exists>d. decode decoder_init [StreamBegin, StreamMessage, MapListItem ''l'', ListMapItem, MapEnd] = Inr d
     \<and> decoder_inv [KList, KMap, KStream] d"
  using decoder_never_asserts [OF decoder_inv_init,
      of "[StreamBegin, StreamMessage, MapListItem ''l'', ListMapItem, MapEnd]"] by simp

end
