(* ===== verification/Atlas_Transport.thy ===== *)
theory Atlas_Transport
  imports Atlas_Decoder
begin

text \<open>
  The contract between the message layer and a codec (\<open>Atlas/Codec.h\<close>: a codec is a bridge that
  writes text, and \<open>poll\<close> makes the calls it reads on another bridge). Under this contract the
  messages the encoder sends through a codec are the messages the peer's decoder queues,
  whatever the pieces in which the text arrives. Each codec theory interprets the locale.
\<close>

fun closing :: "bridge_call \<Rightarrow> bool" where
  "closing MapEnd = True"
| "closing ListEnd = True"
| "closing _ = False"

text \<open>The text a codec writes for a sequence of calls, with the codec's own writing state.\<close>

fun write_calls :: "('w \<Rightarrow> bridge_call \<Rightarrow> string \<times> 'w) \<Rightarrow> 'w \<Rightarrow> bridge_call list \<Rightarrow> string" where
  "write_calls enc w [] = []"
| "write_calls enc w (c # cs) = fst (enc w c) @ write_calls enc (snd (enc w c)) cs"

fun write_state :: "('w \<Rightarrow> bridge_call \<Rightarrow> string \<times> 'w) \<Rightarrow> 'w \<Rightarrow> bridge_call list \<Rightarrow> 'w" where
  "write_state enc w [] = w"
| "write_state enc w (c # cs) = write_state enc (snd (enc w c)) cs"

lemma write_calls_append:
  "write_calls enc w (xs @ ys) = write_calls enc w xs @ write_calls enc (write_state enc w xs) ys"
  by (induction xs arbitrary: w) auto

text \<open>The calls of a whole session: the stream is opened and the messages are streamed.\<close>

definition session_calls :: "map_type list \<Rightarrow> bridge_call list" where
  "session_calls msgs = StreamBegin # concat (map stream_message_element msgs)"

locale message_codec =
  fixes enc :: "'w \<Rightarrow> bridge_call \<Rightarrow> string \<times> 'w"
    and w0 :: 'w
    and start :: 's
    and poll :: "'s \<Rightarrow> string \<Rightarrow> 'e + 's"
    and bridge :: "'s \<Rightarrow> bridge_call list"
    and accepts :: "bridge_call \<Rightarrow> bool"
    and nf :: float_arrival
    and at :: "bctx list \<Rightarrow> bridge_call list \<Rightarrow> 's \<Rightarrow> bool"
    and starts :: "'w \<Rightarrow> char \<Rightarrow> bool"
  assumes poll_pieces: "poll s (xs @ ys) =
      (case poll s xs of Inl e \<Rightarrow> Inl e | Inr s' \<Rightarrow> poll s' ys)"
    and poll_Nil: "poll s [] = Inr s"
    and at_bridge: "at k b s \<Longrightarrow> bridge s = b"
    and read_open: "\<exists>s. at [KMap, KStream] [StreamBegin, StreamMessage] s \<and>
      poll start (write_calls enc w0 [StreamBegin, StreamMessage] @ r) = poll s r"
    and read_call: "\<lbrakk>call_next k c = Some k'; k \<noteq> []; ctx_wf k; accepts c; at k b s;
      closing c \<or> (\<exists>x r'. r = x # r' \<and> starts (snd (enc w c)) x)\<rbrakk>
      \<Longrightarrow> \<exists>s'. at k' (b @ arrive nf c) s' \<and> poll s (fst (enc w c) @ r) = poll s' r"
    and enc_starts: "\<lbrakk>call_next k c = Some k'; k \<noteq> []; accepts c\<rbrakk>
      \<Longrightarrow> \<exists>x r. fst (enc w c) = x # r \<and> starts w x"
begin

lemma read_calls:
  assumes "calls_next k cs = Some k'" and "list_all accepts cs" and "at k b s"
    and "k \<noteq> []" and "ctx_wf k" and "cs = [] \<or> closing (last cs)"
  shows "\<exists>s'. at k' (b @ arrive_all nf cs) s' \<and> poll s (write_calls enc w cs @ r) = poll s' r"
  using assms
proof (induction cs arbitrary: k b s w)
  case Nil
  then show ?case by auto
next
  case (Cons c cs)
  from Cons.prems(1) obtain k1 where k1: "call_next k c = Some k1" "calls_next k1 cs = Some k'"
    by (auto split: option.splits)
  note wf1 = call_next_wf [OF k1(1) Cons.prems(5)]
  let ?w = "snd (enc w c)" and ?t = "write_calls enc (snd (enc w c)) cs @ r"
  have sep: "closing c \<or> (\<exists>x r'. ?t = x # r' \<and> starts ?w x)"
  proof (cases cs)
    case Nil
    with Cons.prems(6) show ?thesis by simp
  next
    case c2: (Cons c2 cs2)
    with k1 obtain k2 where "call_next k1 c2 = Some k2" by (auto split: option.splits)
    with enc_starts [OF this wf1(2), of ?w] c2 Cons.prems(2) show ?thesis by auto
  qed
  obtain s1 where s1: "at k1 (b @ arrive nf c) s1" "poll s (fst (enc w c) @ ?t) = poll s1 ?t"
    using read_call [OF k1(1) Cons.prems(4,5) _ Cons.prems(3) sep] Cons.prems(2) by auto
  have "\<exists>s'. at k' ((b @ arrive nf c) @ arrive_all nf cs) s' \<and> poll s1 ?t = poll s' r"
    by (rule Cons.IH [OF k1(2) _ s1(1) wf1(2,1)]) (use Cons.prems(2,6) in \<open>auto split: if_splits\<close>)
  with s1(2) show ?case by simp
qed

text \<open>A whole session arrives as the calls that were made, up to \<open>nf\<close>.\<close>

lemma session_read:
  assumes ne: "msgs \<noteq> []" and acc: "list_all (\<lambda>m. list_all accepts (stream_message_element m)) msgs"
  shows "\<exists>s. poll start (write_calls enc w0 (session_calls msgs)) = Inr s
    \<and> bridge s = StreamBegin # arrive_all nf (concat (map stream_message_element msgs))"
proof -
  obtain m ms where msgs: "msgs = m # ms" using ne by (cases msgs) auto
  let ?rest = "encode_entries m @ [MapEnd] @ concat (map stream_message_element ms)"
  let ?w = "write_state enc w0 [StreamBegin, StreamMessage]"
  have calls: "session_calls msgs = [StreamBegin, StreamMessage] @ ?rest"
    by (simp add: session_calls_def msgs stream_message_element_def)
  obtain s1 where s1: "at [KMap, KStream] [StreamBegin, StreamMessage] s1"
    "poll start (write_calls enc w0 (session_calls msgs)) = poll s1 (write_calls enc ?w ?rest @ [])"
    using read_open [of "write_calls enc ?w ?rest"] unfolding calls write_calls_append by auto
  have "\<exists>s. at [KStream] ([StreamBegin, StreamMessage] @ arrive_all nf ?rest) s \<and>
      poll s1 (write_calls enc ?w ?rest @ []) = poll s []"
  proof (rule read_calls [OF _ _ s1(1)])
    show "calls_next [KMap, KStream] ?rest = Some [KStream]"
      by (simp add: calls_next_encode)
    show "list_all accepts ?rest"
      using acc by (auto simp: msgs stream_message_element_def list_all_iff)
    have "closing (last (concat (map stream_message_element ns)))" if "ns \<noteq> []" for ns
      using that by (induction ns) (auto simp: stream_message_element_def)
    from this [of "m # ms"] have "closing (last (StreamMessage # ?rest))"
      by (simp only: list.map concat.simps stream_message_element_def append_Cons append_assoc) simp
    then show "?rest = [] \<or> closing (last ?rest)" by simp
  qed simp_all
  then obtain s where s: "at [KStream] ([StreamBegin, StreamMessage] @ arrive_all nf ?rest) s"
    "poll s1 (write_calls enc ?w ?rest @ []) = Inr s"
    by (auto simp: poll_Nil)
  have "[StreamBegin, StreamMessage] @ arrive_all nf ?rest =
      StreamBegin # arrive_all nf (concat (map stream_message_element msgs))"
    by (simp add: msgs stream_message_element_def)
  with at_bridge [OF s(1)] s(2) s1(2) show ?thesis by auto
qed

text \<open>The messages that the peer's queue holds afterwards.\<close>

theorem session_delivers:
  assumes ne: "msgs \<noteq> []" and ok: "list_all message_ok msgs"
    and acc: "list_all (\<lambda>m. list_all accepts (stream_message_element m)) msgs"
  shows "\<exists>s d. poll start (write_calls enc w0 (session_calls msgs)) = Inr s
    \<and> decode decoder_init (bridge s) = Inr d \<and> d_queue d = map (entries_arrive nf) msgs"
  using session_read [OF ne acc] decode_messages [OF ok]
  by (fastforce simp: decoder_init_def push_state_def)

theorem session_delivers_exactly:
  assumes "msgs \<noteq> []" and "list_all message_ok msgs"
    and "list_all (\<lambda>m. list_all accepts (stream_message_element m)) msgs"
    and exact: "list_all (entries_exact nf) msgs"
  shows "\<exists>s d. poll start (write_calls enc w0 (session_calls msgs)) = Inr s
    \<and> decode decoder_init (bridge s) = Inr d \<and> d_queue d = msgs"
proof -
  have "map (entries_arrive nf) msgs = msgs"
    using exact by (induction msgs) (auto simp: exact_arrives)
  with session_delivers [OF assms(1-3)] show ?thesis by auto
qed

text \<open>The text may arrive in any pieces, each handed to one \<open>poll\<close>.\<close>

lemma poll_chunks: "run_steps poll s chunks = poll s (concat chunks)"
  by (induction chunks arbitrary: s) (auto simp: poll_pieces poll_Nil split: sum.splits)

end

end
