(* ===== verification/Codec_Packed.thy ===== *)
theory Codec_Packed
  imports Atlas_Transport
begin

text \<open>
  The Packed codec of \<open>libs/atlas/src/Atlas/Codecs/Packed.cpp\<close> and \<open>Packed.h\<close>: the hexadecimal
  escapes, the character machine behind \<open>poll\<close> and the encoder. \<open>pk_bridge\<close> lists the calls
  made on \<open>m_bridge\<close> so far; a bridge call is assumed not to throw, as those of the decoder on a
  disciplined sequence (\<open>Atlas_Decoder\<close>). \<open>m_istream.putback\<close> leaves the character for the next
  round. \<open>PackedUB\<close> is undefined behaviour: \<open>top\<close> or \<open>pop\<close> of an empty stack, and reading
  a string past its terminator.
\<close>

section \<open>Hexadecimal escapes\<close>

definition packed_specials :: string where
  "packed_specials = ''+[]()@#$=''"

definition is_special :: "char \<Rightarrow> bool" where
  "is_special c \<longleftrightarrow> c \<in> set packed_specials"

definition hex_digit_char :: "nat \<Rightarrow> char" where
  "hex_digit_char n = ''0123456789abcdef'' ! n"

text \<open>\<open>snprintf(hex, 3, "%x", c)\<close>: a negative \<open>char\<close> prints as \<open>ffffff..\<close>, cut to two digits.\<close>

definition char_to_hex :: "char \<Rightarrow> string" where
  "char_to_hex c = (let n = of_char c :: nat in
     if 128 \<le> n then ''ff''
     else if n < 16 then [hex_digit_char n]
     else [hex_digit_char (n div 16), hex_digit_char (n mod 16)])"

text \<open>
  \<open>sscanf(hex, "%x", &c)\<close> on a C string of at most two characters: white space, a sign, hex
  digits up to the first other character; the result is cut to a \<open>char\<close>. Without a digit the
  function returns zero. A prefix \<open>0x\<close> with nothing behind it yields zero either way.
\<close>

definition hex_to_char :: "char \<Rightarrow> char \<Rightarrow> char" where
  "hex_to_char h0 h1 =
     (let s = takeWhile (\<lambda>c. c \<noteq> CHR 0x00) [h0, h1] in
      case split_sign (dropWhile is_space s) of (neg, r) \<Rightarrow>
        (let v = int (foldl (\<lambda>a c. 16 * a + hex_val c) 0 (takeWhile is_hex_digit r))
         in char_of (nat ((if neg then - v else v) mod 256))))"

definition hex_encode1 :: "char \<Rightarrow> string" where
  "hex_encode1 c = (if is_special c then CHR ''+'' # char_to_hex c else [c])"

fun hex_encode_loop :: "string \<Rightarrow> string" where
  "hex_encode_loop [] = []"
| "hex_encode_loop (c # cs) = hex_encode1 c @ hex_encode_loop cs"

text \<open>Up to the first special character the data is copied; without one it is returned as it is.\<close>

definition hex_encode :: "string \<Rightarrow> string" where
  "hex_encode s =
     (if dropWhile (\<lambda>c. \<not> is_special c) s = [] then s
      else takeWhile (\<lambda>c. \<not> is_special c) s @ hex_encode_loop (dropWhile (\<lambda>c. \<not> is_special c) s))"

text \<open>
  \<open>data[++i]\<close> may read the terminator (index \<open>size()\<close>) but nothing behind it: \<open>None\<close> is the
  out-of-bounds read of a \<open>+\<close> that ends the data.
\<close>

fun hex_decode_loop :: "string \<Rightarrow> string option" where
  "hex_decode_loop [] = Some []"
| "hex_decode_loop (c # cs) =
     (if c = CHR ''+'' then
        (case cs of
           [] \<Rightarrow> None
         | [h0] \<Rightarrow> Some [hex_to_char h0 (CHR 0x00)]
         | h0 # h1 # r \<Rightarrow> map_option (\<lambda>t. hex_to_char h0 h1 # t) (hex_decode_loop r))
      else map_option (\<lambda>t. c # t) (hex_decode_loop cs))"

definition hex_decode :: "string \<Rightarrow> string option" where
  "hex_decode s =
     (if dropWhile (\<lambda>c. c \<noteq> CHR ''+'') s = [] then Some s
      else map_option (\<lambda>t. takeWhile (\<lambda>c. c \<noteq> CHR ''+'') s @ t)
             (hex_decode_loop (dropWhile (\<lambda>c. c \<noteq> CHR ''+'') s)))"

lemma hex_encode_eq: "hex_encode s = concat (map hex_encode1 s)"
proof -
  have loop: "hex_encode_loop r = concat (map hex_encode1 r)" for r
    by (induction r) auto
  have plain: "\<forall>c \<in> set r. \<not> is_special c \<Longrightarrow> concat (map hex_encode1 r) = r" for r
    by (induction r) (auto simp: hex_encode1_def)
  have "concat (map hex_encode1 s) =
      takeWhile (\<lambda>c. \<not> is_special c) s @ concat (map hex_encode1 (dropWhile (\<lambda>c. \<not> is_special c) s))"
    using plain [of "takeWhile (\<lambda>c. \<not> is_special c) s"]
    by (metis concat_append map_append set_takeWhileD takeWhile_dropWhile_id)
  then show ?thesis
    using plain [of s] by (auto simp: hex_encode_def loop dropWhile_eq_Nil_conv)
qed

lemma hex_decode_loop_plain:
  "CHR ''+'' \<notin> set p \<Longrightarrow> hex_decode_loop (p @ r) = map_option (\<lambda>t. p @ t) (hex_decode_loop r)"
  by (cases "hex_decode_loop r"; induction p) auto

lemma hex_decode_eq: "hex_decode s = hex_decode_loop s"
proof -
  let ?p = "takeWhile (\<lambda>c. c \<noteq> CHR ''+'') s" and ?r = "dropWhile (\<lambda>c. c \<noteq> CHR ''+'') s"
  have "CHR ''+'' \<notin> set ?p" by (auto dest: set_takeWhileD)
  then have split: "hex_decode_loop s = map_option (\<lambda>t. ?p @ t) (hex_decode_loop ?r)"
    using hex_decode_loop_plain [of ?p ?r] by simp
  have "?r = [] \<Longrightarrow> ?p = s" by (metis append_Nil2 takeWhile_dropWhile_id)
  with split show ?thesis unfolding hex_decode_def by (cases "?r = []") auto
qed

definition special_codes :: "string list" where
  "special_codes = [''2b'', ''5b'', ''5d'', ''28'', ''29'', ''40'', ''23'', ''24'', ''3d'']"

lemma special_codes_encode: "map char_to_hex packed_specials = special_codes"
  by (simp add: char_to_hex_def hex_digit_char_def packed_specials_def special_codes_def)

lemma special_codes_decode: "map (\<lambda>h. hex_to_char (h ! 0) (h ! 1)) special_codes = packed_specials"
  by (simp add: packed_specials_def special_codes_def hex_to_char_def hex_val_def is_hex_digit_def
      split_sign_def is_digit_def is_space_def char_of_eq_iff take_bit_eq_mod)

lemma special_codes_plain: "list_all (\<lambda>h. length h = 2 \<and> list_all (\<lambda>c. \<not> is_special c) h) special_codes"
  by (simp add: special_codes_def is_special_def packed_specials_def)

lemma hex_encode1_special:
  assumes "is_special c"
  obtains h0 h1 where "hex_encode1 c = [CHR ''+'', h0, h1]" "hex_to_char h0 h1 = c"
    "\<not> is_special h0" "\<not> is_special h1"
proof -
  from assms obtain i where i: "i < length packed_specials" "packed_specials ! i = c"
    by (auto simp: is_special_def in_set_conv_nth)
  then have len: "i < length special_codes"
    using arg_cong [OF special_codes_encode, of length] by simp
  let ?h = "special_codes ! i"
  have hex: "char_to_hex c = ?h" using i arg_cong [OF special_codes_encode, of "\<lambda>l. l ! i"] by simp
  have char: "hex_to_char (?h ! 0) (?h ! 1) = c"
    using i len arg_cong [OF special_codes_decode, of "\<lambda>l. l ! i"] by simp
  have plain: "length ?h = 2" "list_all (\<lambda>c. \<not> is_special c) ?h"
    using special_codes_plain len by (simp_all add: list_all_length)
  then obtain h0 h1 where "?h = [h0, h1]" by (auto simp: numeral_2_eq_2 length_Suc_conv)
  with hex char plain(2) show ?thesis
    using that [of h0 h1] assms by (simp add: hex_encode1_def)
qed

lemma is_special_plus [simp]: "is_special (CHR ''+'')"
  by (simp add: is_special_def packed_specials_def)

lemma hex_decode_encode1:
  "hex_decode_loop (hex_encode1 c @ r) = map_option (\<lambda>t. c # t) (hex_decode_loop r)"
proof (cases "is_special c")
  case True
  then show ?thesis by (rule hex_encode1_special) simp
next
  case False
  then have "c \<noteq> CHR ''+''" by auto
  with False show ?thesis by (simp add: hex_encode1_def)
qed

lemma hex_decode_encode [simp]: "hex_decode (hex_encode s) = Some s"
  by (induction s) (simp_all add: hex_decode_eq hex_encode_eq hex_decode_encode1)

lemma hex_encode1_chars:
  assumes "d \<in> set (hex_encode1 c)"
  shows "d = CHR ''+'' \<or> \<not> is_special d"
proof (cases "is_special c")
  case True
  then obtain h0 h1 where "hex_encode1 c = [CHR ''+'', h0, h1]" "\<not> is_special h0" "\<not> is_special h1"
    by (rule hex_encode1_special)
  then show ?thesis using assms by auto
next
  case False
  with assms show ?thesis by (simp add: hex_encode1_def)
qed

lemma hex_encode_chars [char_facts]: "d \<in> set (hex_encode s) \<Longrightarrow> d = CHR ''+'' \<or> \<not> is_special d"
  by (auto simp: hex_encode_eq dest: hex_encode1_chars)

section \<open>The character machine\<close>

datatype packed_state = PK_NOTHING | PK_STREAM | PK_MAP | PK_LIST | PK_MAP_BEGIN | PK_LIST_BEGIN
  | PK_INT | PK_FLOAT | PK_STRING | PK_NAME

record packed =
  pk_stack :: "packed_state list"
  pk_name :: string
  pk_data :: string
  pk_bridge :: "bridge_call list"

datatype packed_error = PackedUB

definition packed_init :: packed where
  "packed_init = \<lparr>pk_stack = [PK_NOTHING], pk_name = [], pk_data = [], pk_bridge = []\<rparr>"

definition pk_push :: "packed_state list \<Rightarrow> packed \<Rightarrow> packed" where
  "pk_push st s = s\<lparr>pk_stack := st @ pk_stack s\<rparr>"

definition pk_pop :: "packed \<Rightarrow> packed" where
  "pk_pop s = s\<lparr>pk_stack := tl (pk_stack s)\<rparr>"

definition pk_call :: "bridge_call \<Rightarrow> packed \<Rightarrow> packed" where
  "pk_call c s = s\<lparr>pk_bridge := pk_bridge s @ [c]\<rparr>"

type_synonym packed_result = "packed_error + (packed \<times> bool)"

text \<open>A handler's result: the new state, and whether the character was put back.\<close>

definition pk_done :: "packed \<Rightarrow> packed_result" where
  "pk_done s = Inr (s, False)"

definition pk_putback :: "packed \<Rightarrow> packed_result" where
  "pk_putback s = Inr (s, True)"

definition pk_parse_stream :: "char \<Rightarrow> packed \<Rightarrow> packed_result" where
  "pk_parse_stream c s =
     (if c = CHR ''['' then pk_done (pk_push [PK_MAP] (pk_call StreamMessage s)) else pk_done s)"

definition pk_parsing_begins :: "char \<Rightarrow> packed \<Rightarrow> packed_result" where
  "pk_parsing_begins c s = pk_parse_stream c (pk_call StreamBegin (pk_push [PK_STREAM] s))"

definition pk_parse_map :: "char \<Rightarrow> packed \<Rightarrow> packed_result" where
  "pk_parse_map c s =
     (if c = CHR '']'' then pk_done (pk_pop (pk_call MapEnd s))
      else if c = CHR ''['' then pk_done (pk_push [PK_NAME, PK_MAP_BEGIN, PK_MAP] s)
      else if c = CHR ''('' then pk_done (pk_push [PK_NAME, PK_LIST_BEGIN, PK_LIST] s)
      else if c = CHR ''$'' then pk_done (pk_push [PK_NAME, PK_STRING] s)
      else if c = CHR ''@'' then pk_done (pk_push [PK_NAME, PK_INT] s)
      else if c = CHR ''#'' then pk_done (pk_push [PK_NAME, PK_FLOAT] s)
      else pk_done s)"

definition pk_parse_list :: "char \<Rightarrow> packed \<Rightarrow> packed_result" where
  "pk_parse_list c s =
     (if c = CHR '')'' then pk_done (pk_pop (pk_call ListEnd s))
      else if c = CHR ''['' then pk_done (pk_push [PK_MAP] (pk_call ListMapItem s))
      else if c = CHR ''('' then pk_done (pk_push [PK_LIST] (pk_call ListListItem s))
      else if c = CHR ''$'' then pk_done (pk_push [PK_STRING] s)
      else if c = CHR ''@'' then pk_done (pk_push [PK_INT] s)
      else if c = CHR ''#'' then pk_done (pk_push [PK_FLOAT] s)
      else pk_done s)"

definition pk_parse_map_begin :: "char \<Rightarrow> packed \<Rightarrow> packed_result" where
  "pk_parse_map_begin c s = (case hex_decode (pk_name s) of
      None \<Rightarrow> Inl PackedUB
    | Some n \<Rightarrow> pk_putback ((pk_pop (pk_call (MapMapItem n) s))\<lparr>pk_name := []\<rparr>))"

definition pk_parse_list_begin :: "char \<Rightarrow> packed \<Rightarrow> packed_result" where
  "pk_parse_list_begin c s = (case hex_decode (pk_name s) of
      None \<Rightarrow> Inl PackedUB
    | Some n \<Rightarrow> pk_putback ((pk_pop (pk_call (MapListItem n) s))\<lparr>pk_name := []\<rparr>))"

definition packed_delims :: string where
  "packed_delims = ''[]()$@#''"

text \<open>
  \<open>parseInt\<close>: the delimiter is put back, then the item goes to the map or list below. A
  \<open>stol\<close> that throws drops the item; with a malformed name the arguments of the call are
  evaluated in an unspecified order, so undefined behaviour is possible and counted as such.
\<close>

definition pk_parse_int :: "char \<Rightarrow> packed \<Rightarrow> packed_result" where
  "pk_parse_int c s =
     (if c \<in> set packed_delims then
        (let s1 = pk_pop s in
         case pk_stack s1 of
           [] \<Rightarrow> Inl PackedUB
         | t # _ \<Rightarrow>
             if t = PK_MAP then
               (case hex_decode (pk_name s1) of
                  None \<Rightarrow> Inl PackedUB
                | Some n \<Rightarrow>
                    (let s2 = (if pk_data s1 = [] then pk_call (MapNoneItem n) s1
                               else case stol (pk_data s1) of
                                   None \<Rightarrow> s1
                                 | Some i \<Rightarrow> pk_call (MapIntItem n i) s1)
                     in pk_putback (s2\<lparr>pk_name := [], pk_data := []\<rparr>)))
             else if t = PK_LIST then
               (let s2 = (if pk_data s1 = [] then pk_call ListNoneItem s1
                          else case stol (pk_data s1) of
                              None \<Rightarrow> s1
                            | Some i \<Rightarrow> pk_call (ListIntItem i) s1)
                in pk_putback (s2\<lparr>pk_data := []\<rparr>))
             else pk_putback (s1\<lparr>pk_data := []\<rparr>))
      else if is_digit c \<or> c = CHR ''-'' \<or> c = CHR ''+'' then pk_done (s\<lparr>pk_data := pk_data s @ [c]\<rparr>)
      else pk_done s)"

definition pk_parse_float :: "char \<Rightarrow> packed \<Rightarrow> packed_result" where
  "pk_parse_float c s =
     (if c \<in> set packed_delims then
        (let s1 = pk_pop s in
         case pk_stack s1 of
           [] \<Rightarrow> Inl PackedUB
         | t # _ \<Rightarrow>
             if t = PK_MAP then
               (case hex_decode (pk_name s1) of
                  None \<Rightarrow> Inl PackedUB
                | Some n \<Rightarrow>
                    (let s2 = (case stod (pk_data s1) of
                                   None \<Rightarrow> s1
                                 | Some d \<Rightarrow> pk_call (MapFloatItem n d) s1)
                     in pk_putback (s2\<lparr>pk_name := [], pk_data := []\<rparr>)))
             else if t = PK_LIST then
               (let s2 = (case stod (pk_data s1) of
                              None \<Rightarrow> s1
                            | Some d \<Rightarrow> pk_call (ListFloatItem d) s1)
                in pk_putback (s2\<lparr>pk_data := []\<rparr>))
             else pk_putback (s1\<lparr>pk_data := []\<rparr>))
      else if is_digit c \<or> c \<in> set ''.-+eE'' then pk_done (s\<lparr>pk_data := pk_data s @ [c]\<rparr>)
      else pk_done s)"

definition pk_parse_string :: "char \<Rightarrow> packed \<Rightarrow> packed_result" where
  "pk_parse_string c s =
     (if c \<in> set packed_delims then
        (let s1 = pk_pop s in
         case pk_stack s1 of
           [] \<Rightarrow> Inl PackedUB
         | t # _ \<Rightarrow>
             if t = PK_MAP then
               (case (hex_decode (pk_name s1), hex_decode (pk_data s1)) of
                  (Some n, Some v) \<Rightarrow>
                    pk_putback ((pk_call (MapStringItem n v) s1)\<lparr>pk_name := [], pk_data := []\<rparr>)
                | _ \<Rightarrow> Inl PackedUB)
             else if t = PK_LIST then
               (case hex_decode (pk_data s1) of
                  None \<Rightarrow> Inl PackedUB
                | Some v \<Rightarrow> pk_putback ((pk_call (ListStringItem v) s1)\<lparr>pk_data := []\<rparr>))
             else pk_putback (s1\<lparr>pk_data := []\<rparr>))
      else if c = CHR ''='' then pk_done s
      else pk_done (s\<lparr>pk_data := pk_data s @ [c]\<rparr>))"

definition pk_parse_name :: "char \<Rightarrow> packed \<Rightarrow> packed_result" where
  "pk_parse_name c s =
     (if c = CHR ''='' then pk_done (pk_pop s)
      else if c \<in> set packed_delims then pk_done s
      else pk_done (s\<lparr>pk_name := pk_name s @ [c]\<rparr>))"

definition packed_step :: "char \<Rightarrow> packed \<Rightarrow> packed_result" where
  "packed_step c s = (case pk_stack s of
      [] \<Rightarrow> Inl PackedUB
    | t # _ \<Rightarrow> (case t of
          PK_NOTHING \<Rightarrow> pk_parsing_begins c s
        | PK_STREAM \<Rightarrow> pk_parse_stream c s
        | PK_MAP \<Rightarrow> pk_parse_map c s
        | PK_LIST \<Rightarrow> pk_parse_list c s
        | PK_MAP_BEGIN \<Rightarrow> pk_parse_map_begin c s
        | PK_LIST_BEGIN \<Rightarrow> pk_parse_list_begin c s
        | PK_INT \<Rightarrow> pk_parse_int c s
        | PK_FLOAT \<Rightarrow> pk_parse_float c s
        | PK_STRING \<Rightarrow> pk_parse_string c s
        | PK_NAME \<Rightarrow> pk_parse_name c s))"

lemmas packed_handlers = pk_parsing_begins_def pk_parse_stream_def pk_parse_map_def
  pk_parse_list_def pk_parse_map_begin_def pk_parse_list_begin_def pk_parse_int_def
  pk_parse_float_def pk_parse_string_def pk_parse_name_def

lemmas packed_basics = pk_push_def pk_pop_def pk_call_def pk_done_def pk_putback_def Let_def

text \<open>A character is only put back by a handler that pops its state: the loop ends.\<close>

lemma packed_step_putback:
  "packed_step c s = Inr (s', True) \<Longrightarrow> length (pk_stack s') < length (pk_stack s)"
  unfolding packed_step_def
  by (auto simp: packed_handlers packed_basics
      split: list.splits packed_state.splits if_splits option.splits)

function packed_poll :: "packed \<Rightarrow> string \<Rightarrow> packed_error + packed" where
  "packed_poll s [] = Inr s"
| "packed_poll s (c # cs) = (case packed_step c s of
      Inl e \<Rightarrow> Inl e
    | Inr (s', back) \<Rightarrow> packed_poll s' (if back then c # cs else cs))"
  by pat_completeness auto
termination
  by (relation "measures [\<lambda>(s, cs). length cs, \<lambda>(s, cs). length (pk_stack s)]")
     (auto split: if_splits dest: packed_step_putback)

declare packed_poll.simps(2) [simp del]

section \<open>The encoder\<close>

fun packed_encode :: "bridge_call \<Rightarrow> string" where
  "packed_encode StreamBegin = []"
| "packed_encode StreamMessage = ''[''"
| "packed_encode StreamEnd = []"
| "packed_encode (MapMapItem n) = ''['' @ hex_encode n @ ''=''"
| "packed_encode (MapListItem n) = ''('' @ hex_encode n @ ''=''"
| "packed_encode (MapIntItem n i) = ''@'' @ hex_encode n @ ''='' @ show_i64 i"
| "packed_encode (MapFloatItem n d) = ''#'' @ hex_encode n @ ''='' @ show_f64 d"
| "packed_encode (MapStringItem n v) = ''$'' @ hex_encode n @ ''='' @ hex_encode v"
| "packed_encode (MapNoneItem n) = ''@'' @ hex_encode n @ ''=''"
| "packed_encode MapEnd = '']''"
| "packed_encode ListMapItem = ''[''"
| "packed_encode ListListItem = ''(''"
| "packed_encode (ListIntItem i) = ''@'' @ show_i64 i"
| "packed_encode (ListFloatItem d) = ''#'' @ show_f64 d"
| "packed_encode (ListStringItem v) = ''$'' @ hex_encode v"
| "packed_encode ListNoneItem = ''@''"
| "packed_encode ListEnd = '')''"

definition packed_write :: "bridge_call list \<Rightarrow> string" where
  "packed_write cs = concat (map packed_encode cs)"

text \<open>All calls a fresh codec makes on its bridge when it polls the whole text.\<close>

definition packed_read :: "string \<Rightarrow> bridge_call list option" where
  "packed_read cs = (case packed_poll packed_init cs of Inl e \<Rightarrow> None | Inr s \<Rightarrow> Some (pk_bridge s))"

section \<open>Polling in pieces\<close>

text \<open>\<open>poll\<close> may be called whenever some input has arrived; how the input is cut does not matter.\<close>

lemma packed_poll_pieces:
  "packed_poll s (xs @ ys) =
    (case packed_poll s xs of Inl e \<Rightarrow> Inl e | Inr s' \<Rightarrow> packed_poll s' ys)"
proof (induction s xs rule: packed_poll.induct)
  case (2 s c cs)
  show ?case
  proof (cases "packed_step c s")
    case (Inr r)
    obtain s' bk where "r = (s', bk)" by (cases r)
    with 2 [OF Inr] Inr show ?thesis
      by (cases bk) (simp_all add: packed_poll.simps(2) [of s])
  qed (simp add: packed_poll.simps(2))
qed simp

section \<open>Reading what the encoder wrote\<close>

abbreviation pk :: "packed_state list \<Rightarrow> string \<Rightarrow> string \<Rightarrow> bridge_call list \<Rightarrow> packed" where
  "pk st n d b \<equiv> \<lparr>pk_stack = st, pk_name = n, pk_data = d, pk_bridge = b\<rparr>"

lemma delim_special: "c \<in> set packed_delims \<Longrightarrow> is_special c \<and> c \<noteq> CHR ''+'' \<and> c \<noteq> CHR ''=''"
  by (auto simp: packed_delims_def is_special_def packed_specials_def)

lemma equals_special: "is_special (CHR ''='')"
  by (simp add: is_special_def packed_specials_def)

lemma plain_char:
  "c = CHR ''+'' \<or> \<not> is_special c \<Longrightarrow> c \<notin> set packed_delims"
  "c = CHR ''+'' \<or> \<not> is_special c \<Longrightarrow> c \<noteq> CHR ''=''"
  using delim_special equals_special by auto

lemma digit_not_delim: "is_digit c \<Longrightarrow> c \<notin> set packed_delims"
  by (auto simp: packed_delims_def is_digit_def)

lemma packed_poll_open [run_simps]:
  "packed_poll (pk (PK_NOTHING # st) n d b) (CHR ''['' # r) =
     packed_poll (pk (PK_MAP # PK_STREAM # PK_NOTHING # st) n d (b @ [StreamBegin, StreamMessage])) r"
  "packed_poll (pk (PK_STREAM # st) n d b) (CHR ''['' # r) =
     packed_poll (pk (PK_MAP # PK_STREAM # st) n d (b @ [StreamMessage])) r"
  by (simp_all add: packed_poll.simps(2) packed_step_def packed_handlers packed_basics)

lemma packed_poll_map [run_simps]:
  "packed_poll (pk (PK_MAP # st) n d b) (CHR '']'' # r) = packed_poll (pk st n d (b @ [MapEnd])) r"
  "packed_poll (pk (PK_MAP # st) n d b) (CHR ''['' # r) =
     packed_poll (pk (PK_NAME # PK_MAP_BEGIN # PK_MAP # PK_MAP # st) n d b) r"
  "packed_poll (pk (PK_MAP # st) n d b) (CHR ''('' # r) =
     packed_poll (pk (PK_NAME # PK_LIST_BEGIN # PK_LIST # PK_MAP # st) n d b) r"
  "packed_poll (pk (PK_MAP # st) n d b) (CHR ''$'' # r) =
     packed_poll (pk (PK_NAME # PK_STRING # PK_MAP # st) n d b) r"
  "packed_poll (pk (PK_MAP # st) n d b) (CHR ''@'' # r) =
     packed_poll (pk (PK_NAME # PK_INT # PK_MAP # st) n d b) r"
  "packed_poll (pk (PK_MAP # st) n d b) (CHR ''#'' # r) =
     packed_poll (pk (PK_NAME # PK_FLOAT # PK_MAP # st) n d b) r"
  by (simp_all add: packed_poll.simps(2) packed_step_def packed_handlers packed_basics)

lemma packed_poll_list [run_simps]:
  "packed_poll (pk (PK_LIST # st) n d b) (CHR '')'' # r) = packed_poll (pk st n d (b @ [ListEnd])) r"
  "packed_poll (pk (PK_LIST # st) n d b) (CHR ''['' # r) =
     packed_poll (pk (PK_MAP # PK_LIST # st) n d (b @ [ListMapItem])) r"
  "packed_poll (pk (PK_LIST # st) n d b) (CHR ''('' # r) =
     packed_poll (pk (PK_LIST # PK_LIST # st) n d (b @ [ListListItem])) r"
  "packed_poll (pk (PK_LIST # st) n d b) (CHR ''$'' # r) =
     packed_poll (pk (PK_STRING # PK_LIST # st) n d b) r"
  "packed_poll (pk (PK_LIST # st) n d b) (CHR ''@'' # r) =
     packed_poll (pk (PK_INT # PK_LIST # st) n d b) r"
  "packed_poll (pk (PK_LIST # st) n d b) (CHR ''#'' # r) =
     packed_poll (pk (PK_FLOAT # PK_LIST # st) n d b) r"
  by (simp_all add: packed_poll.simps(2) packed_step_def packed_handlers packed_basics)

lemma packed_poll_name [run_simps]:
  "packed_poll (pk (PK_NAME # st) m d b) (hex_encode n @ CHR ''='' # r) =
     packed_poll (pk st (m @ hex_encode n) d b) r"
proof -
  have "packed_poll (pk (PK_NAME # st) m d b) (v @ CHR ''='' # r) = packed_poll (pk st (m @ v) d b) r"
    if "\<forall>c \<in> set v. c = CHR ''+'' \<or> \<not> is_special c" for v
    using that
  proof (induction v arbitrary: m)
    case Nil
    then show ?case by (simp add: packed_poll.simps(2) packed_step_def packed_handlers packed_basics)
  next
    case (Cons c v)
    then have "c = CHR ''+'' \<or> \<not> is_special c" by (meson list.set_intros(1))
    note c = plain_char [OF this]
    from c Cons show ?case
      by (simp add: packed_poll.simps(2) packed_step_def packed_handlers packed_basics)
  qed
  then show ?thesis using hex_encode_chars by blast
qed

lemma packed_poll_string [run_simps]:
  "packed_poll (pk (PK_STRING # st) m d b) (hex_encode n @ r) =
     packed_poll (pk (PK_STRING # st) m (d @ hex_encode n) b) r"
proof -
  have "packed_poll (pk (PK_STRING # st) m d b) (v @ r) = packed_poll (pk (PK_STRING # st) m (d @ v) b) r"
    if "\<forall>c \<in> set v. c = CHR ''+'' \<or> \<not> is_special c" for v
    using that
  proof (induction v arbitrary: d)
    case (Cons c v)
    then have "c = CHR ''+'' \<or> \<not> is_special c" by (meson list.set_intros(1))
    note c = plain_char [OF this]
    from c Cons show ?case
      by (simp add: packed_poll.simps(2) packed_step_def packed_handlers packed_basics)
  qed simp
  then show ?thesis using hex_encode_chars by blast
qed

lemma packed_poll_int [run_simps]:
  "packed_poll (pk (PK_INT # st) m d b) (show_i64 i @ r) =
     packed_poll (pk (PK_INT # st) m (d @ show_i64 i) b) r"
proof -
  have "packed_poll (pk (PK_INT # st) m d b) (v @ r) = packed_poll (pk (PK_INT # st) m (d @ v) b) r"
    if "\<forall>c \<in> set v. is_digit c \<or> c = CHR ''-''" for v
    using that
  proof (induction v arbitrary: d)
    case (Cons c v)
    have "c \<notin> set packed_delims"
      using Cons.prems digit_not_delim [of c] by (auto simp: packed_delims_def)
    moreover have "is_digit c \<or> c = CHR ''-'' \<or> c = CHR ''+''" using Cons.prems by auto
    ultimately show ?case
      using Cons by (simp add: packed_poll.simps(2) packed_step_def packed_handlers packed_basics)
  qed simp
  then show ?thesis using show_i64_chars by blast
qed

definition packed_float_char :: "char \<Rightarrow> bool" where
  "packed_float_char c \<longleftrightarrow> is_digit c \<or> c \<in> set ''.-+eE''"

lemma packed_poll_float [run_simps]:
  "packed_poll (pk (PK_FLOAT # st) m d b) (show_f64 f @ r) =
     packed_poll (pk (PK_FLOAT # st) m (d @ filter packed_float_char (show_f64 f)) b) r"
proof -
  have "packed_poll (pk (PK_FLOAT # st) m d b) (v @ r) =
      packed_poll (pk (PK_FLOAT # st) m (d @ filter packed_float_char v) b) r"
    if "\<forall>c \<in> set v. c \<notin> set packed_delims" for v
    using that
  proof (induction v arbitrary: d)
    case (Cons c v)
    then show ?case
      by (simp add: packed_float_char_def packed_poll.simps(2) packed_step_def packed_handlers
          packed_basics)
  qed simp
  moreover have "\<forall>c \<in> set (show_f64 f). c \<notin> set packed_delims"
    using digit_not_delim show_f64_chars [of _ f] by (fastforce simp: packed_delims_def float_chars_def)
  ultimately show ?thesis by blast
qed

text \<open>A scalar ends at the next delimiter, which the map or list below reads again.\<close>

lemma packed_poll_int_end [run_simps]:
  assumes "x \<in> set packed_delims"
  shows
    "packed_poll (pk (PK_INT # PK_MAP # st) (hex_encode n) (show_i64 i) b) (x # r) =
       packed_poll (pk (PK_MAP # st) [] [] (b @ [MapIntItem n i])) (x # r)"
    "packed_poll (pk (PK_INT # PK_MAP # st) (hex_encode n) [] b) (x # r) =
       packed_poll (pk (PK_MAP # st) [] [] (b @ [MapNoneItem n])) (x # r)"
    "packed_poll (pk (PK_INT # PK_LIST # st) n (show_i64 i) b) (x # r) =
       packed_poll (pk (PK_LIST # st) n [] (b @ [ListIntItem i])) (x # r)"
    "packed_poll (pk (PK_INT # PK_LIST # st) n [] b) (x # r) =
       packed_poll (pk (PK_LIST # st) n [] (b @ [ListNoneItem])) (x # r)"
  using assms
  by (subst packed_poll.simps(2), simp add: packed_step_def pk_parse_int_def packed_basics)+

lemma packed_poll_string_end [run_simps]:
  assumes "x \<in> set packed_delims"
  shows
    "packed_poll (pk (PK_STRING # PK_MAP # st) (hex_encode n) (hex_encode v) b) (x # r) =
       packed_poll (pk (PK_MAP # st) [] [] (b @ [MapStringItem n v])) (x # r)"
    "packed_poll (pk (PK_STRING # PK_LIST # st) n (hex_encode v) b) (x # r) =
       packed_poll (pk (PK_LIST # st) n [] (b @ [ListStringItem v])) (x # r)"
  using assms
  by (subst packed_poll.simps(2), simp add: packed_step_def pk_parse_string_def packed_basics)+

text \<open>
  The float that arrives: the printed text without the letters of \<open>inf\<close> and \<open>nan\<close>, which
  \<open>parseFloat\<close> skips, read by \<open>stod\<close>; the item is dropped when that throws.
\<close>

definition packed_float :: float_arrival where
  "packed_float d = map_option EFloat (stod (filter packed_float_char (show_f64 d)))"

lemma packed_poll_float_end [run_simps]:
  assumes "x \<in> set packed_delims"
  shows
    "packed_poll (pk (PK_FLOAT # PK_MAP # st) (hex_encode n) (filter packed_float_char (show_f64 f)) b) (x # r) =
       packed_poll (pk (PK_MAP # st) [] [] (b @ map_scalar n (packed_float f))) (x # r)"
    "packed_poll (pk (PK_FLOAT # PK_LIST # st) n (filter packed_float_char (show_f64 f)) b) (x # r) =
       packed_poll (pk (PK_LIST # st) n [] (b @ list_scalar (packed_float f))) (x # r)"
  using assms
  by (subst packed_poll.simps(2),
      simp add: packed_step_def pk_parse_float_def packed_basics packed_float_def split: option.splits)+

lemma packed_poll_begin [run_simps]:
  "packed_poll (pk (PK_MAP_BEGIN # st) (hex_encode n) d b) (x # r) =
     packed_poll (pk st [] d (b @ [MapMapItem n])) (x # r)"
  "packed_poll (pk (PK_LIST_BEGIN # st) (hex_encode n) d b) (x # r) =
     packed_poll (pk st [] d (b @ [MapListItem n])) (x # r)"
  by (subst packed_poll.simps(2),
      simp add: packed_step_def pk_parse_map_begin_def pk_parse_list_begin_def packed_basics)+

fun packed_ctx :: "bctx \<Rightarrow> packed_state" where
  "packed_ctx KStream = PK_STREAM"
| "packed_ctx KMap = PK_MAP"
| "packed_ctx KList = PK_LIST"

definition packed_at :: "bctx list \<Rightarrow> bridge_call list \<Rightarrow> packed" where
  "packed_at k b = pk (map packed_ctx k @ [PK_NOTHING]) [] [] b"

lemma packed_read_call:
  assumes "call_next k c = Some k'" and "k \<noteq> []" and "x \<in> set packed_delims"
  shows "packed_poll (packed_at k b) (packed_encode c @ x # r) =
    packed_poll (packed_at k' (b @ arrive packed_float c)) (x # r)"
  using assms(1)
  by (cases rule: call_next_cases) (use assms(2,3) in \<open>simp_all add: packed_at_def run_simps\<close>)

lemma packed_encode_delim:
  assumes "call_next k c = Some k'" and "k \<noteq> []"
  shows "\<exists>x r. packed_encode c = x # r \<and> x \<in> set packed_delims"
  using assms(1) by (cases rule: call_next_cases) (use assms(2) in \<open>simp_all add: packed_delims_def\<close>)

section \<open>The codec meets its contract\<close>

definition packed_enc :: "unit \<Rightarrow> bridge_call \<Rightarrow> string \<times> unit" where
  "packed_enc w c = (packed_encode c, ())"

lemma packed_enc_simps [simp]: "fst (packed_enc w c) = packed_encode c"
  by (simp add: packed_enc_def)

lemma packed_read_any:
  assumes "call_next k c = Some k'" and "k \<noteq> []" and "ctx_wf k"
    and "closing c \<or> (\<exists>x r'. r = x # r' \<and> x \<in> set packed_delims)"
  shows "packed_poll (packed_at k b) (packed_encode c @ r) =
    packed_poll (packed_at k' (b @ arrive packed_float c)) r"
proof (cases "closing c")
  case True
  with assms(1) show ?thesis
    by (cases rule: call_next_cases) (simp_all add: packed_at_def run_simps)
next
  case False
  with assms packed_read_call show ?thesis by auto
qed

interpretation packed_codec: message_codec packed_enc "()" packed_init packed_poll pk_bridge
    "\<lambda>_. True" packed_float "\<lambda>k b s. s = packed_at k b" "\<lambda>_ x. x \<in> set packed_delims"
proof
  show "packed_poll s (xs @ ys) =
      (case packed_poll s xs of Inl e \<Rightarrow> Inl e | Inr s' \<Rightarrow> packed_poll s' ys)" for s xs ys
    by (rule packed_poll_pieces)
  show "\<exists>s. s = packed_at [KMap, KStream] [StreamBegin, StreamMessage] \<and>
      packed_poll packed_init (write_calls packed_enc () [StreamBegin, StreamMessage] @ r) =
      packed_poll s r" for r
    by (simp add: packed_init_def packed_at_def run_simps)
qed (auto simp: packed_at_def packed_read_any [unfolded packed_at_def] dest: packed_encode_delim)

section \<open>When polling cannot fail\<close>

text \<open>
  \<open>PARSE_NOTHING\<close> stays at the bottom of the stack, so no \<open>top\<close> or \<open>pop\<close> meets an empty one;
  what remains is the truncated escape of \<open>hexDecode\<close>, which needs a \<open>+\<close> in the input.
\<close>

definition packed_safe :: "packed \<Rightarrow> bool" where
  "packed_safe s \<longleftrightarrow> pk_stack s \<noteq> [] \<and> last (pk_stack s) = PK_NOTHING
     \<and> PK_NOTHING \<notin> set (butlast (pk_stack s))
     \<and> CHR ''+'' \<notin> set (pk_name s) \<and> CHR ''+'' \<notin> set (pk_data s)"

lemma hex_decode_plain: "CHR ''+'' \<notin> set s \<Longrightarrow> hex_decode s = Some s"
  using hex_decode_loop_plain [of s "[]"] by (simp add: hex_decode_eq)

definition packed_result_safe :: "packed_result \<Rightarrow> bool" where
  "packed_result_safe r = (case r of Inl e \<Rightarrow> False | Inr (s, bk) \<Rightarrow> packed_safe s)"

lemma packed_step_safe:
  assumes safe: "packed_safe s" and c: "c \<noteq> CHR ''+''"
  shows "packed_result_safe (packed_step c s)"
proof -
  from safe obtain t st where st: "pk_stack s = t # st" by (cases "pk_stack s") (auto simp: packed_safe_def)
  show ?thesis
  proof (cases "t = PK_NOTHING")
    case True
    with st safe c show ?thesis
      by (simp add: packed_step_def packed_handlers packed_basics packed_safe_def packed_result_safe_def
          split: if_splits)
  next
    case False
    with st safe obtain u st' where st': "st = u # st'"
      by (cases st) (auto simp: packed_safe_def)
    have "hex_decode (pk_name s) = Some (pk_name s)" "hex_decode (pk_data s) = Some (pk_data s)"
      using safe by (simp_all add: packed_safe_def hex_decode_plain)
    with st st' safe c False show ?thesis
      unfolding packed_step_def
      by (cases t)
         (auto simp: packed_handlers packed_basics packed_safe_def packed_result_safe_def
           simp del: hex_decode_encode split: option.splits if_splits)
  qed
qed

lemma packed_poll_safe:
  assumes "packed_safe s" and "CHR ''+'' \<notin> set cs"
  shows "\<exists>s'. packed_poll s cs = Inr s' \<and> packed_safe s'"
  using assms
proof (induction s cs rule: packed_poll.induct)
  case (2 s c cs)
  obtain s' bk where step: "packed_step c s = Inr (s', bk)" "packed_safe s'"
    using packed_step_safe [of s c] 2(2,3) by (auto simp: packed_result_safe_def split: sum.splits)
  with 2(1) [OF step(1) refl] 2(3) show ?case by (simp add: packed_poll.simps(2) split: if_splits)
qed simp

lemma packed_safe_init: "packed_safe packed_init"
  by (simp add: packed_safe_def packed_init_def)


section \<open>What the codec guarantees\<close>

lemma packed_write_calls: "write_calls packed_enc () cs = packed_write cs"
  by (induction cs) (simp_all add: packed_write_def packed_enc_def)

lemma packed_write_simps:
  "packed_write [] = []" "packed_write (c # cs) = packed_encode c @ packed_write cs"
  by (simp_all add: packed_write_def)

lemma show_i64_small: "show_i64 5 = ''5''"
  by code_simp

text \<open>
  C1: Packed carries messages. A sender opens the stream and streams any non-empty list of
  messages (maps with ordered names, nested to any depth); the text is cut in any way into
  pieces, each handed to one \<open>poll\<close>. The receiving codec does not fail, no assertion of the
  decoder behind it fails, and the decoder's queue is the list of the messages that were sent:
  names and strings byte for byte, integers exact, a float as its six printed digits read back.
\<close>

theorem packed_delivers_messages:
  assumes "msgs \<noteq> []" and "list_all message_ok msgs"
    and "concat chunks = packed_write (session_calls msgs)"
  shows "\<exists>s d. run_steps packed_poll packed_init chunks = Inr s
    \<and> decode decoder_init (pk_bridge s) = Inr d
    \<and> d_queue d = map (entries_arrive packed_float) msgs"
  using packed_codec.session_delivers [OF assms(1,2)] assms(3)
  by (simp add: packed_codec.poll_chunks packed_write_calls list_all_iff)

theorem packed_delivers_messages_witness:
  "\<exists>s d. run_steps packed_poll packed_init [''[@a='', ''5$b=+'', ''40][]''] = Inr s
    \<and> decode decoder_init (pk_bridge s) = Inr d
    \<and> d_queue d = [[(''a'', EInt 5), (''b'', EString ''@'')], []]"
proof -
  have "hex_encode ''a'' = ''a''" "hex_encode ''b'' = ''b''" "hex_encode ''@'' = ''+40''" by code_simp+
  moreover have "''a'' < ''b''" by simp
  ultimately show ?thesis
    using packed_delivers_messages [of "[[(''a'', EInt 5), (''b'', EString ''@'')], []]"
        "[''[@a='', ''5$b=+'', ''40][]'']"]
    by (simp add: message_ok_def session_calls_def stream_message_element_def packed_write_simps
        show_i64_small smap_ok_Cons)
qed

text \<open>
  The escapes of Packed are transparent. For every string of bytes \<open>hexDecode\<close> undoes
  \<open>hexEncode\<close>, without reading out of bounds, and the escaped text holds no character that
  is structure to the parser; the only special character in it is the escape itself.
\<close>

theorem packed_escape_transparent:
  "hex_decode (hex_encode s) = Some s \<and> (\<forall>c \<in> set packed_specials. c = CHR ''+'' \<or> c \<notin> set (hex_encode s))"
  using hex_encode_chars by (auto simp: is_special_def)

theorem packed_escape_transparent_witness:
  "hex_decode (hex_encode ''a[+]b'') = Some ''a[+]b'' \<and> CHR ''['' \<notin> set (hex_encode ''a[+]b'')"
  using packed_escape_transparent [of "''a[+]b''"] by (simp add: packed_specials_def)

text \<open>
  C30: polling Packed never meets an empty state stack, whatever the bytes, and never reads out of
  bounds unless an escape is in them: from a state that holds no escape, any input without \<open>+\<close>
  is consumed to the end without an error, and leaves such a state.
\<close>

theorem packed_poll_no_escape:
  assumes "packed_safe s" and "CHR ''+'' \<notin> set (concat chunks)"
  shows "\<exists>s'. run_steps packed_poll s chunks = Inr s' \<and> packed_safe s'"
  using packed_poll_safe [OF assms] by (simp add: packed_codec.poll_chunks)

theorem packed_poll_no_escape_witness:
  "\<exists>s'. run_steps packed_poll packed_init [''[@a=1'', '')]]xx(''] = Inr s' \<and> packed_safe s'"
  using packed_poll_no_escape [OF packed_safe_init, of "[''[@a=1'', '')]]xx('']"] by simp

text \<open>
  An escape cut short by a delimiter makes \<open>hexDecode\<close> read past the end of the name: the
  peer reaches undefined behaviour with seven bytes. (Two characters are read behind every
  \<open>+\<close> without a test of the length.)
\<close>

theorem packed_truncated_escape: "packed_poll packed_init ''[$a+=x]'' = Inl PackedUB"
  by code_simp

text \<open>
  How the input of Packed is cut does not matter: polling piece by piece is polling
  the whole text, from every state and with every outcome.
\<close>

theorem packed_poll_chunks: "run_steps packed_poll s chunks = packed_poll s (concat chunks)"
  by (rule packed_codec.poll_chunks)

end
