(* ===== verification/Codec_XML.thy ===== *)
theory Codec_XML
  imports Atlas_Transport
begin

text \<open>
  The XML codec of \<open>libs/atlas/src/Atlas/Codecs/XML.cpp\<close>: the entity escapes, the tokenizer, the
  tag handlers and the encoder. An exception of the code (\<open>std::runtime_error\<close>) ends the poll
  with \<open>XmlError\<close>; \<open>XmlUB\<close> is a use of an empty stack. Positions in a tag are \<open>int\<close> as in
  the code, for tags shorter than \<open>INT_MAX\<close>.
\<close>

section \<open>Escapes\<close>

fun xml_escape1 :: "char \<Rightarrow> string" where
  "xml_escape1 c =
     (if c = CHR ''&'' then ''&amp;''
      else if c = CHR 0x22 then ''&quot;''
      else if c = CHR 0x27 then ''&apos;''
      else if c = CHR ''<'' then ''&lt;''
      else if c = CHR ''>'' then ''&gt;''
      else [c])"

fun xml_escape :: "string \<Rightarrow> string" where
  "xml_escape [] = []"
| "xml_escape (c # cs) = xml_escape1 c @ xml_escape cs"

text \<open>\<open>original[i]\<close>: index \<open>size()\<close> reads the terminator.\<close>

definition char_at :: "string \<Rightarrow> nat \<Rightarrow> char" where
  "char_at s i = (if i < length s then s ! i else CHR 0x00)"

definition xml_entity :: "string \<Rightarrow> (char \<times> nat) option" where
  "xml_entity s =
     (if 3 \<le> length s \<and> char_at s 1 = CHR ''l'' \<and> char_at s 2 = CHR ''t'' \<and> char_at s 3 = CHR '';''
      then Some (CHR ''<'', 4)
      else if 3 \<le> length s \<and> char_at s 1 = CHR ''g'' \<and> char_at s 2 = CHR ''t'' \<and> char_at s 3 = CHR '';''
      then Some (CHR ''>'', 4)
      else if 4 \<le> length s \<and> char_at s 1 = CHR ''a'' \<and> char_at s 2 = CHR ''m'' \<and> char_at s 3 = CHR ''p''
        \<and> char_at s 4 = CHR '';''
      then Some (CHR ''&'', 5)
      else if 5 \<le> length s \<and> char_at s 1 = CHR ''q'' \<and> char_at s 2 = CHR ''u'' \<and> char_at s 3 = CHR ''o''
        \<and> char_at s 4 = CHR ''t'' \<and> char_at s 5 = CHR '';''
      then Some (CHR 0x22, 6)
      else if 5 \<le> length s \<and> char_at s 1 = CHR ''a'' \<and> char_at s 2 = CHR ''p'' \<and> char_at s 3 = CHR ''o''
        \<and> char_at s 4 = CHR ''s'' \<and> char_at s 5 = CHR '';''
      then Some (CHR 0x27, 6)
      else None)"

fun xml_unescape :: "string \<Rightarrow> string" where
  "xml_unescape [] = []"
| "xml_unescape (c # cs) =
     (case (if c = CHR ''&'' then xml_entity (c # cs) else None) of
        Some (e, n) \<Rightarrow> e # xml_unescape (drop (n - 1) cs)
      | None \<Rightarrow> c # xml_unescape cs)"

lemma xml_unescape_escape1: "xml_unescape (xml_escape1 c @ r) = c # xml_unescape r"
  by (simp add: xml_entity_def char_at_def)

lemma xml_unescape_escape [simp]: "xml_unescape (xml_escape s) = s"
  by (induction s) (simp_all only: xml_escape.simps xml_unescape_escape1 xml_unescape.simps)

lemma xml_escape_Nil_iff [simp]: "xml_escape s = [] \<longleftrightarrow> s = []"
  by (cases s) simp_all

lemma xml_escape1_chars:
  "c \<in> set (xml_escape1 d) \<Longrightarrow> c \<noteq> CHR ''<'' \<and> c \<noteq> CHR ''>'' \<and> c \<noteq> CHR 0x22 \<and>
    (d \<noteq> CHR ''/'' \<longrightarrow> c \<noteq> CHR ''/'')"
  by (auto split: if_splits)

lemma xml_escape_chars [char_facts]:
  assumes "c \<in> set (xml_escape s)"
  shows "c \<noteq> CHR ''<'' \<and> c \<noteq> CHR ''>'' \<and> c \<noteq> CHR 0x22 \<and> (CHR ''/'' \<notin> set s \<longrightarrow> c \<noteq> CHR ''/'')"
  using assms
proof (induction s)
  case (Cons d s)
  then show ?case using xml_escape1_chars [of c d] by auto
qed simp

section \<open>The state machine\<close>

datatype xml_token = TOKEN_TAG | TOKEN_START_TAG | TOKEN_END_TAG | TOKEN_DATA

datatype xml_state = XM_NOTHING | XM_STREAM | XM_MAP | XM_LIST | XM_INT | XM_FLOAT | XM_STRING | XM_NONE

record xml =
  xm_token :: xml_token
  xm_stack :: "xml_state list"
  xm_data :: "string list"
  xm_tag :: string
  xm_name :: string
  xm_bridge :: "bridge_call list"

datatype xml_error = XmlUB | XmlError

type_synonym xml_result = "xml_error + xml"

definition xml_init :: xml where
  "xml_init = \<lparr>xm_token = TOKEN_DATA, xm_stack = [XM_NOTHING], xm_data = [[]], xm_tag = [],
     xm_name = [], xm_bridge = []\<rparr>"

definition xm_call :: "bridge_call \<Rightarrow> xml \<Rightarrow> xml" where
  "xm_call c s = s\<lparr>xm_bridge := xm_bridge s @ [c]\<rparr>"

definition xm_push :: "xml_state \<Rightarrow> xml \<Rightarrow> xml" where
  "xm_push x s = s\<lparr>xm_stack := x # xm_stack s\<rparr>"

definition xm_pop :: "xml \<Rightarrow> xml" where
  "xm_pop s = s\<lparr>xm_stack := tl (xm_stack s)\<rparr>"

text \<open>\<open>(int) s.find(..)\<close> and \<open>(int) s.rfind(..)\<close>: -1 when there is no occurrence.\<close>

fun find_from :: "nat \<Rightarrow> string \<Rightarrow> string \<Rightarrow> int" where
  "find_from i p [] = (if p = [] then int i else -1)"
| "find_from i p (c # cs) = (if take (length p) (c # cs) = p then int i else find_from (Suc i) p cs)"

definition find_str :: "string \<Rightarrow> string \<Rightarrow> int" where
  "find_str p s = find_from 0 p s"

definition rfind_char :: "char \<Rightarrow> string \<Rightarrow> int" where
  "rfind_char c s =
     (if c \<in> set s then int (length s) - 1 - int (length (takeWhile (\<lambda>d. d \<noteq> c) (rev s))) else -1)"

definition substr :: "string \<Rightarrow> int \<Rightarrow> int \<Rightarrow> string" where
  "substr s i n = take (nat n) (drop (nat i) s)"

text \<open>
  The name attribute and the tag word. A missing \<open>name="\<close> is position -1, so the name would
  start at 5; a missing blank gives \<open>npos\<close>, the whole tag.
\<close>

definition tag_name :: "string \<Rightarrow> string" where
  "tag_name t =
     (let name_start = find_str (''name='' @ [CHR 0x22]) t + 6; name_end = rfind_char (CHR 0x22) t in
      if name_start < name_end then xml_unescape (substr t name_start (name_end - name_start)) else [])"

definition tag_word :: "string \<Rightarrow> string" where
  "tag_word t = (let tag_end = find_str '' '' t in if tag_end = -1 then t else substr t 0 tag_end)"

definition xm_open_item :: "string \<Rightarrow> bridge_call \<Rightarrow> bridge_call \<Rightarrow> xml \<Rightarrow> xml_result" where
  "xm_open_item tag as_map as_list s =
     (if tag = ''map'' then Inr (xm_push XM_MAP (xm_call as_map s))
      else if tag = ''list'' then Inr (xm_push XM_LIST (xm_call as_list s))
      else if tag = ''int'' then Inr (xm_push XM_INT s)
      else if tag = ''float'' then Inr (xm_push XM_FLOAT s)
      else if tag = ''string'' then Inr (xm_push XM_STRING s)
      else if tag = ''none'' then Inr (xm_push XM_NONE s)
      else Inl XmlError)"

definition xm_parse_start_tag :: "xml \<Rightarrow> xml_result" where
  "xm_parse_start_tag s0 =
     (let name = tag_name (xm_tag s0); tag = tag_word (xm_tag s0);
          s = s0\<lparr>xm_name := name, xm_tag := tag\<rparr>
      in case xm_stack s of
           [] \<Rightarrow> Inl XmlUB
         | t # _ \<Rightarrow> (case t of
               XM_NOTHING \<Rightarrow>
                 (if tag = ''atlas'' then Inr (xm_push XM_STREAM (xm_call StreamBegin s)) else Inl XmlError)
             | XM_STREAM \<Rightarrow>
                 (if tag = ''map'' then Inr (xm_push XM_MAP (xm_call StreamMessage s)) else Inl XmlError)
             | XM_MAP \<Rightarrow> xm_open_item tag (MapMapItem name) (MapListItem name) s
             | XM_LIST \<Rightarrow> xm_open_item tag ListMapItem ListListItem s
             | _ \<Rightarrow> Inl XmlError))"

text \<open>
  The end tag of a scalar: an empty \<open>int\<close> or \<open>float\<close> is zero, a \<open>stol\<close> or \<open>stod\<close>
  that throws drops the item; a state below that is not a map counts as a list.
\<close>

definition xm_scalar :: "(string \<Rightarrow> bridge_call option) \<Rightarrow> (string \<Rightarrow> bridge_call option) \<Rightarrow> xml \<Rightarrow> xml_result" where
  "xm_scalar mk_map mk_list s0 =
     (let s = xm_pop s0 in
      case (xm_stack s, xm_data s) of
        (t # _, d # _) \<Rightarrow>
          (case (if t = XM_MAP then mk_map d else mk_list d) of
             None \<Rightarrow> Inr s
           | Some c \<Rightarrow> Inr (xm_call c s))
      | _ \<Rightarrow> Inl XmlUB)"

definition xml_int :: "string \<Rightarrow> i64 option" where
  "xml_int d = (if d = [] then Some 0 else stol d)"

definition xml_double :: "string \<Rightarrow> f64 option" where
  "xml_double d = (if d = [] then Some 0 else stod d)"

definition xm_parse_end_tag :: "xml \<Rightarrow> xml_result" where
  "xm_parse_end_tag s =
     (let tag = xm_tag s; name = xm_name s in
      case xm_stack s of
        [] \<Rightarrow> Inl XmlUB
      | t # _ \<Rightarrow> (case t of
            XM_NOTHING \<Rightarrow> Inl XmlError
          | XM_STREAM \<Rightarrow> (if tag = ''atlas'' then Inr (xm_pop (xm_call StreamEnd s)) else Inl XmlError)
          | XM_MAP \<Rightarrow> (if tag = ''map'' then Inr (xm_pop (xm_call MapEnd s)) else Inl XmlError)
          | XM_LIST \<Rightarrow> (if tag = ''list'' then Inr (xm_pop (xm_call ListEnd s)) else Inl XmlError)
          | XM_INT \<Rightarrow>
              (if tag = ''int'' then
                 xm_scalar (\<lambda>d. map_option (MapIntItem name) (xml_int d))
                   (\<lambda>d. map_option ListIntItem (xml_int d)) s
               else Inl XmlError)
          | XM_FLOAT \<Rightarrow>
              (if tag = ''float'' then
                 xm_scalar (\<lambda>d. map_option (MapFloatItem name) (xml_double d))
                   (\<lambda>d. map_option ListFloatItem (xml_double d)) s
               else Inl XmlError)
          | XM_STRING \<Rightarrow>
              (if tag = ''string'' then
                 xm_scalar (\<lambda>d. Some (MapStringItem name (xml_unescape d)))
                   (\<lambda>d. Some (ListStringItem (xml_unescape d))) s
               else Inl XmlError)
          | XM_NONE \<Rightarrow>
              (if tag = ''none'' then
                 xm_scalar (\<lambda>d. Some (MapNoneItem name)) (\<lambda>d. Some ListNoneItem) s
               else Inl XmlError)))"

definition xm_token_tag :: "char \<Rightarrow> xml \<Rightarrow> xml_result" where
  "xm_token_tag c s =
     (if c = CHR ''/'' then Inr (s\<lparr>xm_tag := [], xm_token := TOKEN_END_TAG\<rparr>)
      else if c = CHR ''>'' then Inl XmlError
      else Inr (s\<lparr>xm_tag := [c], xm_token := TOKEN_START_TAG\<rparr>))"

definition xm_after_start :: "xml_token \<Rightarrow> xml \<Rightarrow> xml_result" where
  "xm_after_start tok s = (case xm_parse_start_tag s of
      Inl e \<Rightarrow> Inl e
    | Inr s' \<Rightarrow> Inr (s'\<lparr>xm_token := tok, xm_data := [] # xm_data s'\<rparr>))"

definition xm_token_start_tag :: "char \<Rightarrow> xml \<Rightarrow> xml_result" where
  "xm_token_start_tag c s =
     (if c = CHR ''<'' then Inl XmlError
      else if c = CHR ''>'' then xm_after_start TOKEN_DATA s
      else if c = CHR ''/'' then xm_after_start TOKEN_END_TAG s
      else Inr (s\<lparr>xm_tag := xm_tag s @ [c]\<rparr>))"

definition xm_token_end_tag :: "char \<Rightarrow> xml \<Rightarrow> xml_result" where
  "xm_token_end_tag c s =
     (if c = CHR ''<'' then Inl XmlError
      else if c = CHR ''>'' then
        (case xm_parse_end_tag s of
           Inl e \<Rightarrow> Inl e
         | Inr s' \<Rightarrow> (case xm_data s' of
              [] \<Rightarrow> Inl XmlUB
            | _ # ds \<Rightarrow> Inr (s'\<lparr>xm_token := TOKEN_DATA, xm_data := ds\<rparr>)))
      else Inr (s\<lparr>xm_tag := xm_tag s @ [c]\<rparr>))"

definition xm_token_data :: "char \<Rightarrow> xml \<Rightarrow> xml_result" where
  "xm_token_data c s =
     (if c = CHR ''<'' then Inr (s\<lparr>xm_token := TOKEN_TAG\<rparr>)
      else if c = CHR ''>'' then Inl XmlError
      else (case xm_data s of
          [] \<Rightarrow> Inl XmlUB
        | d # ds \<Rightarrow> Inr (s\<lparr>xm_data := (d @ [c]) # ds\<rparr>)))"

definition xml_step :: "xml \<Rightarrow> char \<Rightarrow> xml_result" where
  "xml_step s c = (case xm_token s of
      TOKEN_TAG \<Rightarrow> xm_token_tag c s
    | TOKEN_START_TAG \<Rightarrow> xm_token_start_tag c s
    | TOKEN_END_TAG \<Rightarrow> xm_token_end_tag c s
    | TOKEN_DATA \<Rightarrow> xm_token_data c s)"

definition xml_poll :: "xml \<Rightarrow> string \<Rightarrow> xml_result" where
  "xml_poll = run_steps xml_step"

section \<open>The encoder\<close>

definition xml_open :: "string \<Rightarrow> string \<Rightarrow> string" where
  "xml_open t n = ''<'' @ t @ '' name='' @ [CHR 0x22] @ xml_escape n @ [CHR 0x22] @ ''>''"

definition xml_tag :: "string \<Rightarrow> string" where
  "xml_tag t = ''<'' @ t @ ''>''"

definition xml_close :: "string \<Rightarrow> string" where
  "xml_close t = ''</'' @ t @ ''>''"

fun xml_encode :: "bridge_call \<Rightarrow> string" where
  "xml_encode StreamBegin = xml_tag ''atlas''"
| "xml_encode StreamEnd = xml_close ''atlas''"
| "xml_encode StreamMessage = xml_tag ''map''"
| "xml_encode (MapMapItem n) = xml_open ''map'' n"
| "xml_encode (MapListItem n) = xml_open ''list'' n"
| "xml_encode (MapIntItem n i) = xml_open ''int'' n @ show_i64 i @ xml_close ''int''"
| "xml_encode (MapFloatItem n d) = xml_open ''float'' n @ show_f64 d @ xml_close ''float''"
| "xml_encode (MapStringItem n v) = xml_open ''string'' n @ xml_escape v @ xml_close ''string''"
| "xml_encode (MapNoneItem n) = xml_open ''none'' n @ xml_close ''none''"
| "xml_encode MapEnd = xml_close ''map''"
| "xml_encode ListMapItem = xml_tag ''map''"
| "xml_encode ListListItem = xml_tag ''list''"
| "xml_encode (ListIntItem i) = xml_tag ''int'' @ show_i64 i @ xml_close ''int''"
| "xml_encode (ListFloatItem d) = xml_tag ''float'' @ show_f64 d @ xml_close ''float''"
| "xml_encode (ListStringItem v) = xml_tag ''string'' @ xml_escape v @ xml_close ''string''"
| "xml_encode ListNoneItem = xml_tag ''none'' @ xml_close ''none''"
| "xml_encode ListEnd = xml_close ''list''"

section \<open>No empty stack\<close>

text \<open>The two stacks have the same height, and \<open>PARSE_NOTHING\<close> stays at the bottom.\<close>

definition xml_inv :: "xml \<Rightarrow> bool" where
  "xml_inv s \<longleftrightarrow> xm_stack s \<noteq> [] \<and> last (xm_stack s) = XM_NOTHING
     \<and> XM_NOTHING \<notin> set (butlast (xm_stack s)) \<and> length (xm_data s) = length (xm_stack s)"

lemmas xml_handlers = xm_token_tag_def xm_token_start_tag_def xm_token_end_tag_def xm_token_data_def
  xm_after_start_def xm_parse_start_tag_def xm_parse_end_tag_def xm_scalar_def xm_open_item_def

lemmas xml_basics = xm_call_def xm_push_def xm_pop_def Let_def

definition xml_result_ok :: "xml_result \<Rightarrow> bool" where
  "xml_result_ok r = (case r of Inl e \<Rightarrow> e = XmlError | Inr s \<Rightarrow> xml_inv s)"

lemma xml_inv_stack:
  assumes "xml_inv s" and "xm_stack s = t # st" and "t \<noteq> XM_NOTHING"
  obtains u st' d ds where "st = u # st'" "xm_data s = d # ds"
  using assms by (cases st; cases "xm_data s") (auto simp: xml_inv_def)

text \<open>A tag handler changes the height of the state stack by exactly one, or throws.\<close>

lemma xm_start_tag_ok:
  assumes inv: "xml_inv s"
  shows "xml_result_ok (xm_after_start tok s)"
proof -
  from inv obtain t st where st: "xm_stack s = t # st" by (cases "xm_stack s") (auto simp: xml_inv_def)
  with inv show ?thesis
    by (cases t) (simp_all add: xml_handlers xml_basics xml_inv_def xml_result_ok_def split: if_splits)
qed

lemma xm_end_tag_ok:
  assumes inv: "xml_inv s"
  shows "xml_result_ok (xm_token_end_tag c s)"
proof -
  from inv obtain t st where st: "xm_stack s = t # st" by (cases "xm_stack s") (auto simp: xml_inv_def)
  show ?thesis
  proof (cases "t = XM_NOTHING")
    case True
    with st inv show ?thesis
      by (simp add: xml_handlers xml_basics xml_inv_def xml_result_ok_def)
  next
    case False
    with inv st obtain u st' d ds where "st = u # st'" "xm_data s = d # ds" by (rule xml_inv_stack)
    with inv st False show ?thesis
      by (cases t) (simp_all add: xml_handlers xml_basics xml_inv_def xml_result_ok_def
          split: if_splits option.splits)
  qed
qed

lemma xml_step_ok:
  assumes "xml_inv s"
  shows "xml_result_ok (xml_step s c)"
proof -
  obtain d ds where "xm_data s = d # ds" using assms by (cases "xm_data s") (auto simp: xml_inv_def)
  with assms show ?thesis
    by (cases "xm_token s")
       (simp_all add: xml_step_def xm_end_tag_ok xm_start_tag_ok xm_token_tag_def
         xm_token_start_tag_def xm_token_data_def,
        simp_all add: xml_result_ok_def xml_inv_def)
qed

lemma xml_poll_ok: "xml_inv s \<Longrightarrow> xml_result_ok (xml_poll s cs)"
proof (induction cs arbitrary: s)
  case Nil
  then show ?case by (simp add: xml_poll_def xml_result_ok_def)
next
  case (Cons c cs)
  show ?case
  proof (cases "xml_step s c")
    case (Inr s')
    then have "xml_inv s'" using xml_step_ok [OF Cons.prems, of c] by (simp add: xml_result_ok_def)
    with Cons.IH Inr show ?thesis by (simp add: xml_poll_def)
  qed (use xml_step_ok [OF Cons.prems, of c] in \<open>simp add: xml_poll_def xml_result_ok_def\<close>)
qed

lemma xml_inv_init: "xml_inv xml_init"
  by (simp add: xml_inv_def xml_init_def)

section \<open>Reading what the encoder wrote\<close>

abbreviation xm :: "xml_token \<Rightarrow> xml_state list \<Rightarrow> string list \<Rightarrow> string \<Rightarrow> string
    \<Rightarrow> bridge_call list \<Rightarrow> xml" where
  "xm k st ds tg nm b \<equiv> \<lparr>xm_token = k, xm_stack = st, xm_data = ds, xm_tag = tg, xm_name = nm,
     xm_bridge = b\<rparr>"

definition tag_chars :: "string \<Rightarrow> bool" where
  "tag_chars t \<longleftrightarrow> CHR ''<'' \<notin> set t \<and> CHR ''>'' \<notin> set t \<and> CHR ''/'' \<notin> set t"

lemma xml_poll_simps:
  "xml_poll s [] = Inr s"
  "xml_poll s (c # cs) = (case xml_step s c of Inl e \<Rightarrow> Inl e | Inr s' \<Rightarrow> xml_poll s' cs)"
  unfolding xml_poll_def by simp_all

lemma xml_poll_pieces:
  "xml_poll s (xs @ ys) = (case xml_poll s xs of Inl e \<Rightarrow> Inl e | Inr s' \<Rightarrow> xml_poll s' ys)"
  unfolding xml_poll_def by (rule run_steps_append)

lemma xml_poll_tag_text:
  assumes "tag_chars t"
  shows "xml_poll (xm TOKEN_START_TAG st ds tg nm b) (t @ r) =
    xml_poll (xm TOKEN_START_TAG st ds (tg @ t) nm b) r"
  using assms
  by (induction t arbitrary: tg)
     (auto simp: xml_poll_simps xml_step_def xm_token_start_tag_def tag_chars_def)

lemma xml_poll_start_tag:
  assumes "tag_chars t" and "t \<noteq> []"
  shows "xml_poll (xm TOKEN_DATA st ds tg nm b) (CHR ''<'' # t @ CHR ''>'' # r) =
    (case xm_after_start TOKEN_DATA (xm TOKEN_START_TAG st ds t nm b) of
       Inl e \<Rightarrow> Inl e | Inr s \<Rightarrow> xml_poll s r)"
proof -
  obtain c t' where t: "t = c # t'" using assms(2) by (cases t) auto
  with assms(1) have t': "tag_chars t'" by (simp add: tag_chars_def)
  have "xml_poll (xm TOKEN_DATA st ds tg nm b) (CHR ''<'' # t @ CHR ''>'' # r) =
      xml_poll (xm TOKEN_START_TAG st ds [c] nm b) (t' @ CHR ''>'' # r)"
    using assms(1) by (auto simp: t tag_chars_def xml_poll_simps xml_step_def xm_token_data_def xm_token_tag_def)
  also have "\<dots> = xml_poll (xm TOKEN_START_TAG st ds t nm b) (CHR ''>'' # r)"
    using xml_poll_tag_text [OF t'] by (simp add: t)
  also have "\<dots> = (case xm_after_start TOKEN_DATA (xm TOKEN_START_TAG st ds t nm b) of
       Inl e \<Rightarrow> Inl e | Inr s \<Rightarrow> xml_poll s r)"
    by (simp add: xml_poll_simps xml_step_def xm_token_start_tag_def)
  finally show ?thesis .
qed

lemma xml_poll_data:
  assumes "CHR ''<'' \<notin> set v" and "CHR ''>'' \<notin> set v"
  shows "xml_poll (xm TOKEN_DATA st (d # ds) tg nm b) (v @ r) =
    xml_poll (xm TOKEN_DATA st ((d @ v) # ds) tg nm b) r"
  using assms
  by (induction v arbitrary: d) (auto simp: xml_poll_simps xml_step_def xm_token_data_def)

lemma xml_poll_close:
  assumes "tag_chars w"
  shows "xml_poll (xm TOKEN_DATA st ds tg nm b) (xml_close w @ r) =
    (case xm_token_end_tag (CHR ''>'') (xm TOKEN_END_TAG st ds w nm b) of
       Inl e \<Rightarrow> Inl e | Inr s \<Rightarrow> xml_poll s r)"
proof -
  have "xml_poll (xm TOKEN_END_TAG st ds u nm b) (w @ CHR ''>'' # r) =
      xml_poll (xm TOKEN_END_TAG st ds (u @ w) nm b) (CHR ''>'' # r)" for u
    using assms
    by (induction w arbitrary: u)
       (auto simp: xml_poll_simps xml_step_def xm_token_end_tag_def tag_chars_def)
  from this [of "[]"] show ?thesis
    by (simp add: xml_close_def xml_poll_simps xml_step_def xm_token_data_def xm_token_tag_def)
qed

text \<open>The attribute and the word of a tag the encoder wrote.\<close>

abbreviation attribute :: "string \<Rightarrow> string" where
  "attribute n \<equiv> '' name='' @ [CHR 0x22] @ xml_escape n @ [CHR 0x22]"

definition item_words :: "string list" where
  "item_words = [''map'', ''list'', ''int'', ''float'', ''string'', ''none'']"

lemma rfind_char_snoc [simp]: "rfind_char c (s @ [c]) = int (length s)"
  by (simp add: rfind_char_def)

lemma item_words_facts:
  assumes "w \<in> set item_words"
  shows "tag_chars w" and "w \<noteq> []"
    and "find_str (''name='' @ [CHR 0x22]) (w @ attribute n) = int (length w) + 1"
    and "find_str '' '' (w @ attribute n) = int (length w)"
    and "find_str '' '' w = -1"
    and "find_str (''name='' @ [CHR 0x22]) w = -1" and "CHR 0x22 \<notin> set w"
  using assms by (auto simp: item_words_def tag_chars_def find_str_def)

lemma tag_name_attribute:
  assumes "w \<in> set item_words"
  shows "tag_name (w @ attribute n) = n"
proof -
  let ?t = "w @ '' name='' @ [CHR 0x22] @ xml_escape n"
  have t: "w @ attribute n = ?t @ [CHR 0x22]" by simp
  have "rfind_char (CHR 0x22) (w @ attribute n) = int (length w + 7 + length (xml_escape n))"
    unfolding t rfind_char_snoc by simp
  with item_words_facts(3) [OF assms, of n] show ?thesis
    by (cases "n = []") (auto simp: tag_name_def substr_def Let_def nat_add_distrib)
qed

lemma tag_word_attribute: "w \<in> set item_words \<Longrightarrow> tag_word (w @ attribute n) = w"
  using item_words_facts(4) [of w n] by (simp add: tag_word_def substr_def Let_def)

lemma tag_plain:
  assumes "w \<in> set item_words"
  shows "tag_word w = w" and "tag_name w = []"
  using item_words_facts(5-7) [OF assms] by (simp_all add: tag_word_def tag_name_def rfind_char_def Let_def)

lemma attribute_chars:
  assumes "w \<in> set item_words" and "CHR ''/'' \<notin> set n"
  shows "tag_chars (w @ attribute n)"
  using item_words_facts(1) [OF assms(1)] assms(2) by (auto simp: tag_chars_def dest: xml_escape_chars)

lemma xml_poll_open_map [run_simps]:
  assumes "w \<in> set item_words" and "CHR ''/'' \<notin> set n"
  shows "xml_poll (xm TOKEN_DATA (XM_MAP # st) ds tg nm b) (xml_open w n @ r) =
    (case xm_open_item w (MapMapItem n) (MapListItem n) (xm TOKEN_START_TAG (XM_MAP # st) ds w n b) of
       Inl e \<Rightarrow> Inl e
     | Inr s \<Rightarrow> xml_poll (s\<lparr>xm_token := TOKEN_DATA, xm_data := [] # xm_data s\<rparr>) r)"
  using xml_poll_start_tag [OF attribute_chars [OF assms], of "XM_MAP # st" ds tg nm b r]
  by (simp add: xml_open_def xm_after_start_def xm_parse_start_tag_def Let_def
      tag_name_attribute [OF assms(1), simplified] tag_word_attribute [OF assms(1), simplified]
      split: sum.splits)

lemma xml_poll_open_list [run_simps]:
  assumes "w \<in> set item_words"
  shows "xml_poll (xm TOKEN_DATA (XM_LIST # st) ds tg nm b) (xml_tag w @ r) =
    (case xm_open_item w ListMapItem ListListItem (xm TOKEN_START_TAG (XM_LIST # st) ds w [] b) of
       Inl e \<Rightarrow> Inl e
     | Inr s \<Rightarrow> xml_poll (s\<lparr>xm_token := TOKEN_DATA, xm_data := [] # xm_data s\<rparr>) r)"
  using xml_poll_start_tag [OF item_words_facts(1,2) [OF assms], of "XM_LIST # st" ds tg nm b r]
  by (simp add: xml_tag_def xm_after_start_def xm_parse_start_tag_def Let_def tag_plain [OF assms]
      split: sum.splits)

lemma word_facts [simp]:
  "''map'' \<in> set item_words" "''list'' \<in> set item_words" "''int'' \<in> set item_words"
  "''float'' \<in> set item_words" "''string'' \<in> set item_words" "''none'' \<in> set item_words"
  "tag_chars ''map''" "tag_chars ''list''" "tag_chars ''int''" "tag_chars ''float''"
  "tag_chars ''string''" "tag_chars ''none''" "tag_chars ''atlas''"
  by (simp_all add: item_words_def tag_chars_def)

lemma xml_poll_open_item [run_simps]:
  "xml_poll (xm TOKEN_DATA (XM_STREAM # st) ds tg nm b) (xml_tag ''map'' @ r) =
     xml_poll (xm TOKEN_DATA (XM_MAP # XM_STREAM # st) ([] # ds) ''map'' [] (b @ [StreamMessage])) r"
  "xml_poll (xm TOKEN_DATA (XM_NOTHING # st) ds tg nm b) (xml_tag ''atlas'' @ r) =
     xml_poll (xm TOKEN_DATA (XM_STREAM # XM_NOTHING # st) ([] # ds) ''atlas'' [] (b @ [StreamBegin])) r"
  using xml_poll_start_tag [of "''map''" "XM_STREAM # st" ds tg nm b r]
    xml_poll_start_tag [of "''atlas''" "XM_NOTHING # st" ds tg nm b r]
  by (simp_all add: xml_tag_def xm_after_start_def xm_parse_start_tag_def xml_basics
      tag_word_def tag_name_def find_str_def rfind_char_def)

lemma digits_plain: "is_digit c \<or> c = CHR ''-'' \<Longrightarrow> c \<noteq> CHR ''<'' \<and> c \<noteq> CHR ''>''"
  by (auto simp: is_digit_def)

lemma float_plain: "is_digit c \<or> c \<in> set (float_chars @ ''infa'') \<Longrightarrow> c \<noteq> CHR ''<'' \<and> c \<noteq> CHR ''>''"
  by (auto simp: is_digit_def float_chars_def)

lemma xml_poll_scalar_text [run_simps]:
  "xml_poll (xm TOKEN_DATA st (d # ds) tg nm b) (show_i64 i @ r) =
     xml_poll (xm TOKEN_DATA st ((d @ show_i64 i) # ds) tg nm b) r"
  "xml_poll (xm TOKEN_DATA st (d # ds) tg nm b) (show_f64 f @ r) =
     xml_poll (xm TOKEN_DATA st ((d @ show_f64 f) # ds) tg nm b) r"
  "xml_poll (xm TOKEN_DATA st (d # ds) tg nm b) (xml_escape v @ r) =
     xml_poll (xm TOKEN_DATA st ((d @ xml_escape v) # ds) tg nm b) r"
  using show_i64_chars [THEN digits_plain] show_f64_chars [THEN float_plain] xml_escape_chars
  by (intro xml_poll_data; blast)+

definition xml_float :: float_arrival where
  "xml_float d = map_option EFloat (stod (show_f64 d))"

lemmas xml_close_simps = xml_poll_close xm_token_end_tag_def xm_parse_end_tag_def xm_scalar_def
  xml_int_def xml_double_def

lemma xml_poll_close_item [run_simps]:
  "xml_poll (xm TOKEN_DATA (XM_MAP # st) (d # ds) tg nm b) (xml_close ''map'' @ r) =
     xml_poll (xm TOKEN_DATA st ds ''map'' nm (b @ [MapEnd])) r"
  "xml_poll (xm TOKEN_DATA (XM_LIST # st) (d # ds) tg nm b) (xml_close ''list'' @ r) =
     xml_poll (xm TOKEN_DATA st ds ''list'' nm (b @ [ListEnd])) r"
  "xml_poll (xm TOKEN_DATA (XM_INT # XM_MAP # st) (show_i64 i # ds) tg nm b) (xml_close ''int'' @ r) =
     xml_poll (xm TOKEN_DATA (XM_MAP # st) ds ''int'' nm (b @ [MapIntItem nm i])) r"
  "xml_poll (xm TOKEN_DATA (XM_INT # XM_LIST # st) (show_i64 i # ds) tg nm b) (xml_close ''int'' @ r) =
     xml_poll (xm TOKEN_DATA (XM_LIST # st) ds ''int'' nm (b @ [ListIntItem i])) r"
  "xml_poll (xm TOKEN_DATA (XM_FLOAT # XM_MAP # st) (show_f64 f # ds) tg nm b) (xml_close ''float'' @ r) =
     xml_poll (xm TOKEN_DATA (XM_MAP # st) ds ''float'' nm (b @ map_scalar nm (xml_float f))) r"
  "xml_poll (xm TOKEN_DATA (XM_FLOAT # XM_LIST # st) (show_f64 f # ds) tg nm b) (xml_close ''float'' @ r) =
     xml_poll (xm TOKEN_DATA (XM_LIST # st) ds ''float'' nm (b @ list_scalar (xml_float f))) r"
  "xml_poll (xm TOKEN_DATA (XM_STRING # XM_MAP # st) (xml_escape v # ds) tg nm b) (xml_close ''string'' @ r) =
     xml_poll (xm TOKEN_DATA (XM_MAP # st) ds ''string'' nm (b @ [MapStringItem nm v])) r"
  "xml_poll (xm TOKEN_DATA (XM_STRING # XM_LIST # st) (xml_escape v # ds) tg nm b) (xml_close ''string'' @ r) =
     xml_poll (xm TOKEN_DATA (XM_LIST # st) ds ''string'' nm (b @ [ListStringItem v])) r"
  "xml_poll (xm TOKEN_DATA (XM_NONE # XM_MAP # st) (d # ds) tg nm b) (xml_close ''none'' @ r) =
     xml_poll (xm TOKEN_DATA (XM_MAP # st) ds ''none'' nm (b @ [MapNoneItem nm])) r"
  "xml_poll (xm TOKEN_DATA (XM_NONE # XM_LIST # st) (d # ds) tg nm b) (xml_close ''none'' @ r) =
     xml_poll (xm TOKEN_DATA (XM_LIST # st) ds ''none'' nm (b @ [ListNoneItem])) r"
  by (simp_all add: xml_close_simps xml_basics xml_float_def split: option.splits)

section \<open>The codec meets its contract\<close>

text \<open>A name with a slash ends its tag early: such names are not carried.\<close>

fun xml_accepts :: "bridge_call \<Rightarrow> bool" where
  "xml_accepts (MapMapItem n) = (CHR ''/'' \<notin> set n)"
| "xml_accepts (MapListItem n) = (CHR ''/'' \<notin> set n)"
| "xml_accepts (MapIntItem n i) = (CHR ''/'' \<notin> set n)"
| "xml_accepts (MapFloatItem n d) = (CHR ''/'' \<notin> set n)"
| "xml_accepts (MapStringItem n v) = (CHR ''/'' \<notin> set n)"
| "xml_accepts (MapNoneItem n) = (CHR ''/'' \<notin> set n)"
| "xml_accepts _ = True"

fun xml_ctx :: "bctx \<Rightarrow> xml_state" where
  "xml_ctx KStream = XM_STREAM"
| "xml_ctx KMap = XM_MAP"
| "xml_ctx KList = XM_LIST"

definition xml_at :: "bctx list \<Rightarrow> bridge_call list \<Rightarrow> xml \<Rightarrow> bool" where
  "xml_at k b s \<longleftrightarrow> (\<exists>ds tg nm. s = xm TOKEN_DATA (map xml_ctx k @ [XM_NOTHING]) ds tg nm b
     \<and> length ds = Suc (length k))"

definition xml_enc :: "unit \<Rightarrow> bridge_call \<Rightarrow> string \<times> unit" where
  "xml_enc w c = (xml_encode c, ())"

lemma xml_at_refl:
  "length ds = Suc (length k) \<Longrightarrow> st = map xml_ctx k @ [XM_NOTHING] \<Longrightarrow>
    \<exists>s'. xml_at k b s' \<and> xml_poll (xm TOKEN_DATA st ds tg nm b) r = xml_poll s' r"
  by (auto simp: xml_at_def)

lemma xml_read_call:
  assumes "call_next k c = Some k'" and "xml_accepts c" and "xml_at k b s" and "k \<noteq> []"
  shows "\<exists>s'. xml_at k' (b @ arrive xml_float c) s' \<and> xml_poll s (xml_encode c @ r) = xml_poll s' r"
proof -
  from assms(3) obtain d ds tg nm where s:
    "s = xm TOKEN_DATA (map xml_ctx k @ [XM_NOTHING]) (d # ds) tg nm b" "length ds = length k"
    by (auto simp: xml_at_def length_Suc_conv)
  from assms(1) show ?thesis
    by (cases rule: call_next_cases)
       (use assms(2,4) s in
         \<open>simp_all add: run_simps xm_open_item_def xml_basics xml_at_refl\<close>)
qed

interpretation xml_codec: message_codec xml_enc "()" xml_init xml_poll xm_bridge
    xml_accepts xml_float xml_at "\<lambda>_ x. x = CHR ''<''"
proof
  show "xml_poll s (xs @ ys) =
      (case xml_poll s xs of Inl e \<Rightarrow> Inl e | Inr s' \<Rightarrow> xml_poll s' ys)" for s xs ys
    by (rule xml_poll_pieces)
  show "xml_poll s [] = Inr s" for s by (rule xml_poll_simps)
  show "xm_bridge s = b" if "xml_at k b s" for k b s
    using that by (auto simp: xml_at_def)
  show "\<exists>s. xml_at [KMap, KStream] [StreamBegin, StreamMessage] s \<and>
      xml_poll xml_init (write_calls xml_enc () [StreamBegin, StreamMessage] @ r) = xml_poll s r" for r
    by (simp add: xml_init_def xml_enc_def run_simps xml_at_refl)
  show "\<exists>s'. xml_at k' (b @ arrive xml_float c) s' \<and> xml_poll s (fst (xml_enc w c) @ r) = xml_poll s' r"
    if "call_next k c = Some k'" "k \<noteq> []" "xml_accepts c" "xml_at k b s" for k c k' b s w r
    using xml_read_call [OF that(1,3,4,2)] by (simp add: xml_enc_def)
  show "\<exists>x r. fst (xml_enc w c) = x # r \<and> x = CHR ''<''"
    if "call_next k c = Some k'" for k c k' w
    using that
    by (cases rule: call_next_cases)
       (simp_all add: xml_enc_def xml_open_def xml_tag_def xml_close_def)
qed

section \<open>What the codec guarantees\<close>

lemma xml_write_simps:
  "write_calls xml_enc w [] = []"
  "write_calls xml_enc w (c # cs) = xml_encode c @ write_calls xml_enc () cs"
  "fst (xml_enc w c) = xml_encode c"
  by (simp_all add: xml_enc_def)

text \<open>
  C12: XML carries messages whose names have no slash, cut in any way: the receiving codec does not
  fail, no assertion of the decoder fails, and the queue holds the messages that were sent.
\<close>

theorem xml_delivers_messages:
  assumes "msgs \<noteq> []" and "list_all message_ok msgs"
    and "list_all (\<lambda>m. list_all xml_accepts (stream_message_element m)) msgs"
    and "concat chunks = write_calls xml_enc () (session_calls msgs)"
  shows "\<exists>s d. run_steps xml_poll xml_init chunks = Inr s
    \<and> decode decoder_init (xm_bridge s) = Inr d
    \<and> d_queue d = map (entries_arrive xml_float) msgs"
  using xml_codec.session_delivers [OF assms(1,2,3)] assms(4)
  by (simp add: xml_codec.poll_chunks)

theorem xml_delivers_messages_witness:
  "\<exists>s d. run_steps xml_poll xml_init
      [''<atlas><map><string name='' @ [CHR 0x22] @ ''a&l'', ''t;'' @ [CHR 0x22] @ ''>x&amp;</string></map>''] = Inr s
    \<and> decode decoder_init (xm_bridge s) = Inr d
    \<and> d_queue d = [[(''a<'', EString ''x&'')]]"
  using xml_delivers_messages [of "[[(''a<'', EString ''x&'')]]"
      "[''<atlas><map><string name='' @ [CHR 0x22] @ ''a&l'', ''t;'' @ [CHR 0x22] @ ''>x&amp;</string></map>'']"]
  by (simp add: message_ok_def session_calls_def stream_message_element_def xml_write_simps
      smap_ok_Cons xml_tag_def xml_open_def xml_close_def)

text \<open>
  The entities of XML are transparent, and the escaped text holds no character that is
  structure to the tokenizer or to the attribute.
\<close>

theorem xml_escape_transparent:
  "xml_unescape (xml_escape s) = s
    \<and> (\<forall>c. c \<in> {CHR ''<'', CHR ''>'', CHR 0x22} \<longrightarrow> c \<notin> set (xml_escape s))"
  using xml_escape_chars by auto

theorem xml_escape_transparent_witness:
  "xml_unescape (xml_escape ''<&amp;>'') = ''<&amp;>'' \<and> CHR ''<'' \<notin> set (xml_escape ''<&amp;>'')"
  using xml_escape_transparent [of "''<&amp;>''"] by simp

text \<open>
  The XML codec never pops or reads an empty stack, whatever bytes arrive: the stack of parser
  states and the stack of data have the same height, and the bottom state stays. What is left
  is the exception the tokenizer throws at malformed input.
\<close>

theorem xml_never_undefined:
  assumes "xml_inv s"
  shows "run_steps xml_poll s chunks = Inl XmlError \<or> (\<exists>s'. run_steps xml_poll s chunks = Inr s' \<and> xml_inv s')"
  using xml_poll_ok [OF assms, of "concat chunks"] unfolding xml_codec.poll_chunks
  by (auto simp: xml_result_ok_def split: sum.splits xml_error.splits)

theorem xml_never_undefined_witness:
  "run_steps xml_poll xml_init [''</x>'', ''<atlas></atlas>''] = Inl XmlError
    \<or> (\<exists>s'. run_steps xml_poll xml_init [''</x>'', ''<atlas></atlas>''] = Inr s' \<and> xml_inv s')"
  by (rule xml_never_undefined [OF xml_inv_init])

text \<open>A slash is not escaped, and \<open>tokenStartTag\<close> takes it for the end of an empty tag.\<close>

lemma xml_escape_slash: "CHR ''/'' \<in> set n \<Longrightarrow> CHR ''/'' \<in> set (xml_escape n)"
  by (induction n) auto

lemma xml_poll_end_text:
  assumes "CHR ''<'' \<notin> set t" and "CHR ''>'' \<notin> set t"
  shows "xml_poll (xm TOKEN_END_TAG st ds tg nm b) (t @ r) =
    xml_poll (xm TOKEN_END_TAG st ds (tg @ t) nm b) r"
  using assms
  by (induction t arbitrary: tg) (auto simp: xml_poll_simps xml_step_def xm_token_end_tag_def)

lemma xm_wrong_end_tag:
  assumes "w \<in> set item_words" and "t \<noteq> w"
    and "xm_open_item w m l s = Inr s'" and "xm_stack s = XM_MAP # st"
  shows "xm_parse_end_tag (s'\<lparr>xm_token := k, xm_data := ds, xm_tag := t\<rparr>) = Inl XmlError"
proof -
  from assms(1) have "w = ''map'' \<or> w = ''list'' \<or> w = ''int'' \<or> w = ''float'' \<or> w = ''string'' \<or> w = ''none''"
    by (simp add: item_words_def)
  then show ?thesis
    using assms(2,4) assms(3) [symmetric]
    by (elim disjE) (simp_all add: xm_open_item_def xm_parse_end_tag_def xml_basics)
qed

text \<open>
  The XML encoder does not escape a slash in a name, so inside a message any item whose name has
  one is text that the receiving codec rejects: the tag is taken to end at the slash, the rest of the
  name becomes the name of its end tag, and \<open>poll\<close> throws. (\<open>xml_delivers_messages\<close> excludes such names.)
\<close>

theorem xml_slash_in_name_fails:
  assumes "CHR ''/'' \<in> set n" and "w \<in> set item_words"
  shows "xml_poll (xm TOKEN_DATA (XM_MAP # st) ds tg nm b) (xml_open w n @ r) = Inl XmlError"
proof -
  obtain p q where pq: "xml_escape n = p @ CHR ''/'' # q" "CHR ''/'' \<notin> set p"
    using xml_escape_slash [OF assms(1)] by (metis split_list_first)
  let ?t = "w @ '' name='' @ [CHR 0x22] @ p" and ?u = "q @ [CHR 0x22]"
  let ?st = "XM_MAP # st"
  have esc: "\<forall>c \<in> set (p @ q). c \<noteq> CHR ''<'' \<and> c \<noteq> CHR ''>''"
    using xml_escape_chars [of _ n] by (auto simp: pq(1))
  have t: "tag_chars ?t" "w \<noteq> []"
    using item_words_facts(1,2) [OF assms(2)] esc pq(2) by (auto simp: tag_chars_def)
  have "find_str '' '' ?t = int (length w)"
    using assms(2) by (auto simp: item_words_def find_str_def)
  then have t3: "tag_word ?t = w" by (simp add: tag_word_def substr_def Let_def)
  obtain c w' where w: "w = c # w'" "c \<noteq> CHR ''/''" "c \<noteq> CHR ''>''"
    using t(1,2) by (cases w) (auto simp: tag_chars_def)
  let ?nm = "tag_name ?t"
  obtain s' where s': "xm_open_item w (MapMapItem ?nm) (MapListItem ?nm) (xm TOKEN_START_TAG ?st ds w ?nm b) = Inr s'"
    using assms(2) by (auto simp: item_words_def xm_open_item_def)
  have "xm_tag s' = w"
    using s' by (auto simp: xm_open_item_def xml_basics split: if_splits)
  have after: "xm_after_start TOKEN_END_TAG (xm TOKEN_START_TAG ?st ds ?t nm b) =
      Inr (s'\<lparr>xm_token := TOKEN_END_TAG, xm_data := [] # xm_data s'\<rparr>)"
    using s' t3 by (simp add: xm_after_start_def xm_parse_start_tag_def Let_def)
  obtain x where x: "s'\<lparr>xm_token := TOKEN_END_TAG, xm_data := [] # xm_data s'\<rparr> =
      xm TOKEN_END_TAG (xm_stack s') ([] # xm_data s') w (xm_name s') (xm_bridge s')"
    using \<open>xm_tag s' = w\<close> by (cases s') auto
  have "xml_poll (xm TOKEN_DATA ?st ds tg nm b) (xml_open w n @ r) =
      xml_poll (xm TOKEN_START_TAG ?st ds [c] nm b) ((w' @ '' name='' @ [CHR 0x22] @ p) @ CHR ''/'' # ?u @ CHR ''>'' # r)"
    using w by (simp add: xml_open_def pq(1) xml_poll_simps xml_step_def xm_token_data_def xm_token_tag_def)
  also have "\<dots> = xml_poll (xm TOKEN_START_TAG ?st ds ?t nm b) (CHR ''/'' # ?u @ CHR ''>'' # r)"
    by (subst xml_poll_tag_text) (use t(1) w in \<open>auto simp: tag_chars_def\<close>)
  also have "\<dots> = xml_poll (xm TOKEN_END_TAG (xm_stack s') ([] # xm_data s') w (xm_name s') (xm_bridge s')) (?u @ CHR ''>'' # r)"
    using after x by (simp add: xml_poll_simps xml_step_def xm_token_start_tag_def)
  also have "\<dots> = xml_poll (xm TOKEN_END_TAG (xm_stack s') ([] # xm_data s') (w @ ?u) (xm_name s') (xm_bridge s')) (CHR ''>'' # r)"
    by (rule xml_poll_end_text) (use esc in auto)
  also have "\<dots> = Inl XmlError"
    using xm_wrong_end_tag [OF assms(2) _ s', where t = "w @ ?u" and st = st and k = TOKEN_END_TAG
        and ds = "[] # xm_data s'"] x
    by (cases s') (simp add: xml_poll_simps xml_step_def xm_token_end_tag_def)
  finally show ?thesis .
qed

theorem xml_slash_in_name_fails_witness:
  "xml_poll (xm TOKEN_DATA [XM_MAP, XM_STREAM, XM_NOTHING] [[], [], []] [] [] []) (xml_open ''int'' ''a/b'' @ ''1</int>'')
    = Inl XmlError"
  using xml_slash_in_name_fails [of "''a/b''" "''int''"] by simp

end
