(* ===== verification/Codec_Bach.thy ===== *)
theory Codec_Bach
  imports Atlas_Transport "HOL-Library.Sublist"
begin

text \<open>
  The Bach codec of \<open>libs/atlas/src/Atlas/Codecs/Bach.cpp\<close>: the escapes of strings, the
  character machine behind \<open>poll\<close> (comments, line counting, literals) and the encoder with its
  \<open>m_comma\<close> flag. \<open>ba_bridge\<close> lists the calls made on \<open>m_bridge\<close> so far. \<open>BachThrow\<close> is an
  exception of \<open>std::stol\<close> or \<open>std::stod\<close> that leaves \<open>poll\<close>; \<open>BachUB\<close> is \<open>top\<close> of an empty stack.
\<close>

section \<open>Strings\<close>

text \<open>
  \<open>decodeString\<close>: the first loop replaces each backslash-quote by a quote. The second loop
  searches again from the position of the replacement, so it takes the replacement into account.
\<close>

fun decode_quotes :: "string \<Rightarrow> string" where
  "decode_quotes [] = []"
| "decode_quotes [c] = [c]"
| "decode_quotes (c # d # r) =
     (if c = CHR 0x5C \<and> d = CHR 0x22 then CHR 0x22 # decode_quotes r else c # decode_quotes (d # r))"

fun decode_slashes :: "string \<Rightarrow> string" where
  "decode_slashes [] = []"
| "decode_slashes [c] = [c]"
| "decode_slashes (c # d # r) =
     (if c = CHR 0x5C \<and> d = CHR 0x5C then decode_slashes (CHR 0x5C # r) else c # decode_slashes (d # r))"

definition decode_string :: "string \<Rightarrow> string" where
  "decode_string s = decode_slashes (decode_quotes s)"

definition bach_special :: "char \<Rightarrow> bool" where
  "bach_special c \<longleftrightarrow> c = CHR 0x5C \<or> c = CHR 0x22"

definition encode_char :: "char \<Rightarrow> string" where
  "encode_char c = (if bach_special c then [CHR 0x5C, c] else [c])"

fun encode_tail :: "string \<Rightarrow> string" where
  "encode_tail [] = []"
| "encode_tail (c # cs) = encode_char c @ encode_tail cs"

text \<open>The prefix before the first special character is copied, the rest is escaped.\<close>

definition encode_string :: "string \<Rightarrow> string" where
  "encode_string s =
     (if dropWhile (\<lambda>c. \<not> bach_special c) s = [] then s
      else takeWhile (\<lambda>c. \<not> bach_special c) s @ encode_tail (dropWhile (\<lambda>c. \<not> bach_special c) s))"

lemma encode_string_eq: "encode_string s = encode_tail s"
proof -
  have plain: "list_all (\<lambda>c. \<not> bach_special c) p \<Longrightarrow> encode_tail (p @ q) = p @ encode_tail q" for p q
    by (induction p) (auto simp: encode_char_def)
  have "encode_tail (takeWhile (\<lambda>c. \<not> bach_special c) s @ dropWhile (\<lambda>c. \<not> bach_special c) s) =
      takeWhile (\<lambda>c. \<not> bach_special c) s @ encode_tail (dropWhile (\<lambda>c. \<not> bach_special c) s)"
    by (rule plain) (auto simp: list_all_iff dest: set_takeWhileD)
  then have split: "encode_tail s = takeWhile (\<lambda>c. \<not> bach_special c) s
      @ encode_tail (dropWhile (\<lambda>c. \<not> bach_special c) s)" by simp
  show ?thesis
  proof (cases "dropWhile (\<lambda>c. \<not> bach_special c) s = []")
    case True
    then have "encode_tail s = s" using plain [of s "[]"] by (simp add: list_all_iff)
    with True show ?thesis by (metis encode_string_def)
  next
    case False
    with split show ?thesis by (simp only: encode_string_def if_False)
  qed
qed

section \<open>The character machine\<close>

datatype bach_state = BA_INIT | BA_STREAM | BA_MAP | BA_LIST | BA_NAME | BA_DATA | BA_INT | BA_FLOAT
  | BA_STRING | BA_LITERAL | BA_COMMENT

record bach =
  ba_stack :: "bach_state list"
  ba_name :: string
  ba_data :: string
  ba_linenum :: "32 word"
  ba_bridge :: "bridge_call list"

datatype bach_error = BachUB | BachThrow

type_synonym bach_result = "bach_error + (bach \<times> bool)"

definition bach_init :: bach where
  "bach_init = \<lparr>ba_stack = [BA_INIT], ba_name = [], ba_data = [], ba_linenum = 0, ba_bridge = []\<rparr>"

definition ba_push :: "bach_state list \<Rightarrow> bach \<Rightarrow> bach" where
  "ba_push st s = s\<lparr>ba_stack := st @ ba_stack s\<rparr>"

definition ba_pop :: "bach \<Rightarrow> bach" where
  "ba_pop s = s\<lparr>ba_stack := tl (ba_stack s)\<rparr>"

definition ba_call :: "bridge_call \<Rightarrow> bach \<Rightarrow> bach" where
  "ba_call c s = s\<lparr>ba_bridge := ba_bridge s @ [c]\<rparr>"

text \<open>A handler's result: the new state, and whether the character was put back.\<close>

definition ba_done :: "bach \<Rightarrow> bach_result" where
  "ba_done s = Inr (s, False)"

definition ba_putback :: "bach \<Rightarrow> bach_result" where
  "ba_putback s = Inr (s, True)"

definition ba_delims :: string where
  "ba_delims = ''[]{},''"

definition is_alpha :: "char \<Rightarrow> bool" where
  "is_alpha c \<longleftrightarrow> (CHR ''a'' \<le> c \<and> c \<le> CHR ''z'') \<or> (CHR ''A'' \<le> c \<and> c \<le> CHR ''Z'')"

definition ba_parse_init :: "char \<Rightarrow> bach \<Rightarrow> bach_result" where
  "ba_parse_init c s =
     (if c = CHR ''['' then ba_done (ba_push [BA_STREAM] (ba_call StreamBegin s)) else ba_done s)"

definition ba_parse_stream :: "char \<Rightarrow> bach \<Rightarrow> bach_result" where
  "ba_parse_stream c s =
     (if c = CHR ''{'' then ba_done (ba_push [BA_MAP] (ba_call StreamMessage s))
      else if c = CHR '']'' then ba_done (ba_call StreamEnd s)
      else ba_done s)"

definition ba_parse_map :: "char \<Rightarrow> bach \<Rightarrow> bach_result" where
  "ba_parse_map c s =
     (if c = CHR ''}'' then ba_done (ba_pop (ba_call MapEnd s))
      else if c = CHR 0x22 then ba_done (ba_push [BA_NAME, BA_DATA] s)
      else if is_alpha c then ba_putback (ba_push [BA_NAME, BA_DATA] s)
      else ba_done s)"

definition ba_parse_list :: "char \<Rightarrow> bach \<Rightarrow> bach_result" where
  "ba_parse_list c s =
     (if c = CHR '']'' then ba_done (ba_pop (ba_call ListEnd s))
      else if c = CHR ''{'' then ba_done (ba_push [BA_MAP] (ba_call ListMapItem s))
      else if c = CHR ''['' then ba_done (ba_push [BA_LIST] (ba_call ListListItem s))
      else if is_digit c \<or> c = CHR ''-'' then ba_putback (ba_push [BA_INT] s)
      else if c = CHR 0x22 then ba_done (ba_push [BA_STRING] s)
      else ba_done s)"

text \<open>
  The end of a number: the delimiter is put back and the number goes to the map or list below.
  The conversions are only made there, and their exceptions are not caught.
\<close>

definition ba_number :: "(string \<Rightarrow> bridge_call option) \<Rightarrow> (string \<Rightarrow> bridge_call option) \<Rightarrow> bach \<Rightarrow> bach_result" where
  "ba_number mk_map mk_list s =
     (let s1 = ba_pop s in
      case ba_stack s1 of
        [] \<Rightarrow> Inl BachUB
      | t # _ \<Rightarrow>
          if t = BA_MAP \<or> t = BA_LIST then
            (case (if t = BA_MAP then mk_map (ba_data s1) else mk_list (ba_data s1)) of
               None \<Rightarrow> Inl BachThrow
             | Some c \<Rightarrow> ba_putback ((ba_call c s1)\<lparr>ba_name := [], ba_data := []\<rparr>))
          else ba_putback (s1\<lparr>ba_name := [], ba_data := []\<rparr>))"

definition ba_parse_int :: "char \<Rightarrow> bach \<Rightarrow> bach_result" where
  "ba_parse_int c s =
     (if c \<in> set ba_delims then
        ba_number (\<lambda>d. map_option (MapIntItem (decode_string (ba_name s))) (stol d))
          (\<lambda>d. map_option ListIntItem (stol d)) s
      else if is_digit c \<or> c \<in> set ''-+eE'' then ba_done (s\<lparr>ba_data := ba_data s @ [c]\<rparr>)
      else if c = CHR ''.'' then ba_done ((ba_push [BA_FLOAT] (ba_pop s))\<lparr>ba_data := ba_data s @ [c]\<rparr>)
      else ba_done s)"

definition ba_parse_float :: "char \<Rightarrow> bach \<Rightarrow> bach_result" where
  "ba_parse_float c s =
     (if c \<in> set ba_delims then
        ba_number (\<lambda>d. map_option (MapFloatItem (decode_string (ba_name s))) (stod d))
          (\<lambda>d. map_option ListFloatItem (stod d)) s
      else if is_digit c \<or> c \<in> set ''.-+eE'' then ba_done (s\<lparr>ba_data := ba_data s @ [c]\<rparr>)
      else ba_done s)"

definition ba_parse_string :: "char \<Rightarrow> bach \<Rightarrow> bach_result" where
  "ba_parse_string c s =
     (if c = CHR 0x22 then
        (let s1 = ba_pop s in
         case ba_stack s1 of
           [] \<Rightarrow> Inl BachUB
         | t # _ \<Rightarrow>
             (let s2 = (if t = BA_MAP
                        then ba_call (MapStringItem (decode_string (ba_name s)) (decode_string (ba_data s))) s1
                        else if t = BA_LIST then ba_call (ListStringItem (decode_string (ba_data s))) s1
                        else s1)
              in ba_done (s2\<lparr>ba_name := [], ba_data := []\<rparr>)))
      else if c = CHR 0x5C then ba_done (ba_push [BA_LITERAL] s)
      else ba_done (s\<lparr>ba_data := ba_data s @ [c]\<rparr>))"

definition ba_parse_literal :: "char \<Rightarrow> bach \<Rightarrow> bach_result" where
  "ba_parse_literal c s = ba_done (ba_pop (s\<lparr>ba_data := ba_data s @ [c]\<rparr>))"

definition ba_open :: "bach_state \<Rightarrow> (string \<Rightarrow> bridge_call) \<Rightarrow> bridge_call \<Rightarrow> bach \<Rightarrow> bach_result" where
  "ba_open x mk_map as_list s =
     (let s1 = ba_pop s in
      case ba_stack s1 of
        [] \<Rightarrow> Inl BachUB
      | t # _ \<Rightarrow> ba_done (ba_push [x]
          (if t = BA_MAP then (ba_call (mk_map (decode_string (ba_name s1))) s1)\<lparr>ba_name := []\<rparr>
           else if t = BA_LIST then ba_call as_list s1
           else s1)))"

definition ba_parse_data :: "char \<Rightarrow> bach \<Rightarrow> bach_result" where
  "ba_parse_data c s =
     (if is_digit c \<or> c = CHR ''-'' then ba_putback (ba_push [BA_INT] (ba_pop s))
      else if c = CHR ''{'' then ba_open BA_MAP MapMapItem ListMapItem s
      else if c = CHR ''['' then ba_open BA_LIST MapListItem ListListItem s
      else if c = CHR 0x22 then ba_done (ba_push [BA_STRING] (ba_pop s))
      else ba_done s)"

definition name_char :: "char \<Rightarrow> bool" where
  "name_char c \<longleftrightarrow> is_alpha c \<or> is_digit c \<or> c = CHR ''_''"

definition ba_parse_name :: "char \<Rightarrow> bach \<Rightarrow> bach_result" where
  "ba_parse_name c s =
     (if c = CHR '':'' \<or> c = CHR 0x22 then ba_done (ba_pop s)
      else if name_char c then ba_done (s\<lparr>ba_name := ba_name s @ [c]\<rparr>)
      else ba_done s)"

definition ba_parse_comment :: "char \<Rightarrow> bach \<Rightarrow> bach_result" where
  "ba_parse_comment c s = (if c = CHR 0x0A then ba_done (ba_pop s) else ba_done s)"

definition stringmode :: "bach_state \<Rightarrow> bool" where
  "stringmode t \<longleftrightarrow> t = BA_COMMENT \<or> t = BA_STRING \<or> t = BA_LITERAL"

definition bach_dispatch :: "bach_state \<Rightarrow> char \<Rightarrow> bach \<Rightarrow> bach_result" where
  "bach_dispatch t c s = (case t of
      BA_INIT \<Rightarrow> ba_parse_init c s
    | BA_STREAM \<Rightarrow> ba_parse_stream c s
    | BA_MAP \<Rightarrow> ba_parse_map c s
    | BA_LIST \<Rightarrow> ba_parse_list c s
    | BA_DATA \<Rightarrow> ba_parse_data c s
    | BA_INT \<Rightarrow> ba_parse_int c s
    | BA_FLOAT \<Rightarrow> ba_parse_float c s
    | BA_STRING \<Rightarrow> ba_parse_string c s
    | BA_LITERAL \<Rightarrow> ba_parse_literal c s
    | BA_NAME \<Rightarrow> ba_parse_name c s
    | BA_COMMENT \<Rightarrow> ba_parse_comment c s)"

text \<open>One round of \<open>poll\<close>: comments, line ends and carriage returns first, then the handler.\<close>

definition bach_step :: "char \<Rightarrow> bach \<Rightarrow> bach_result" where
  "bach_step c s = (case ba_stack s of
      [] \<Rightarrow> Inl BachUB
    | t # _ \<Rightarrow>
        if c = CHR ''#'' \<and> \<not> stringmode t then ba_done (ba_push [BA_COMMENT] s)
        else if c = CHR 0x0A then
          (let s1 = s\<lparr>ba_linenum := ba_linenum s + 1\<rparr> in
           if stringmode t then bach_dispatch t c s1 else ba_done s1)
        else if c = CHR 0x0D then ba_done s
        else bach_dispatch t c s)"

lemmas bach_handlers = ba_parse_init_def ba_parse_stream_def ba_parse_map_def ba_parse_list_def
  ba_parse_int_def ba_parse_float_def ba_parse_string_def ba_parse_literal_def ba_parse_data_def
  ba_parse_name_def ba_parse_comment_def ba_number_def ba_open_def

lemmas bach_basics = ba_push_def ba_pop_def ba_call_def ba_done_def ba_putback_def Let_def

text \<open>
  A character that is put back is taken by the next state: a delimiter pops a number, and a
  digit or letter opens a number or a name, which keeps it. So the loop ends.
\<close>

definition bach_rounds :: "char \<Rightarrow> bach_state list \<Rightarrow> nat" where
  "bach_rounds c st =
     (if c \<in> set ba_delims then length st
      else case st of [] \<Rightarrow> 0 | t # _ \<Rightarrow> if t = BA_MAP \<or> t = BA_LIST \<or> t = BA_DATA then 1 else 0)"

lemma delims_plain: "c \<in> set ba_delims \<Longrightarrow> \<not> is_alpha c \<and> \<not> is_digit c \<and> c \<noteq> CHR ''-''"
  by (auto simp: ba_delims_def is_alpha_def is_digit_def less_eq_char_def)

lemma bach_dispatch_putback:
  "bach_dispatch t c s = Inr (s', True) \<Longrightarrow> ba_stack s = t # st \<Longrightarrow>
    bach_rounds c (ba_stack s') < bach_rounds c (t # st)"
  using delims_plain [of c]
  by (cases t) (auto simp: bach_dispatch_def bach_handlers bach_basics bach_rounds_def
      split: list.splits if_splits option.splits)

lemma bach_step_putback:
  assumes "bach_step c s = Inr (s', True)"
  shows "bach_rounds c (ba_stack s') < bach_rounds c (ba_stack s)"
proof -
  from assms obtain t st where st: "ba_stack s = t # st"
    by (auto simp: bach_step_def split: list.splits)
  from assms st obtain s0 where "bach_dispatch t c s0 = Inr (s', True)" "ba_stack s0 = t # st"
    by (auto simp: bach_step_def ba_done_def Let_def split: if_splits)
  from bach_dispatch_putback [OF this] st show ?thesis by simp
qed

function bach_poll :: "bach \<Rightarrow> string \<Rightarrow> bach_error + bach" where
  "bach_poll s [] = Inr s"
| "bach_poll s (c # cs) = (case bach_step c s of
      Inl e \<Rightarrow> Inl e
    | Inr (s', bk) \<Rightarrow> bach_poll s' (if bk then c # cs else cs))"
  by pat_completeness auto
termination
  by (relation "measures [\<lambda>(s, cs). length cs, \<lambda>(s, cs). bach_rounds (hd cs) (ba_stack s)]")
     (auto split: if_splits dest: bach_step_putback)

declare bach_poll.simps(2) [simp del]

section \<open>The encoder\<close>

text \<open>The codec's writing state is \<open>m_comma\<close>; each operation yields the text and the next flag.\<close>

definition comma :: "bool \<Rightarrow> string" where
  "comma w = (if w then '','' else [])"

definition write_line :: "string \<Rightarrow> bool \<Rightarrow> bool \<Rightarrow> string" where
  "write_line l endtag w = (if endtag then [] else comma w) @ l"

definition write_item :: "string \<Rightarrow> string \<Rightarrow> bool \<Rightarrow> string" where
  "write_item n txt w = comma w @ (if n = [] then [] else n @ '':'') @ txt"

definition quoted :: "string \<Rightarrow> string" where
  "quoted v = CHR 0x22 # encode_string v @ [CHR 0x22]"

fun bach_encode :: "bool \<Rightarrow> bridge_call \<Rightarrow> string \<times> bool" where
  "bach_encode w StreamBegin = (write_line ''['' False w, False)"
| "bach_encode w StreamEnd = (write_line '']'' True w, w)"
| "bach_encode w StreamMessage = (write_line ''{'' False w, False)"
| "bach_encode w (MapMapItem n) = (write_line (n @ '':{'') False w, False)"
| "bach_encode w (MapListItem n) = (write_line (n @ '':['') False w, False)"
| "bach_encode w (MapIntItem n i) = (write_item n (show_i64 i) w, True)"
| "bach_encode w (MapFloatItem n d) = (write_item n (show_f64 d) w, True)"
| "bach_encode w (MapStringItem n v) = (write_item n (quoted v) w, True)"
| "bach_encode w (MapNoneItem n) = (comma w @ n @ '':'', w)"
| "bach_encode w MapEnd = (write_line ''}'' True w, True)"
| "bach_encode w ListMapItem = (write_line ''{'' False w, False)"
| "bach_encode w ListListItem = (write_line ''['' False w, False)"
| "bach_encode w (ListIntItem i) = (write_item [] (show_i64 i) w, True)"
| "bach_encode w (ListFloatItem d) = (write_item [] (show_f64 d) w, True)"
| "bach_encode w (ListStringItem v) = (write_item [] (quoted v) w, True)"
| "bach_encode w ListNoneItem = (comma w, True)"
| "bach_encode w ListEnd = (write_line '']'' True w, True)"

lemmas bach_writers = write_line_def write_item_def comma_def quoted_def

section \<open>Reading what the encoder wrote\<close>

abbreviation ba :: "bach_state list \<Rightarrow> string \<Rightarrow> string \<Rightarrow> 32 word \<Rightarrow> bridge_call list \<Rightarrow> bach" where
  "ba st nm d ln b \<equiv> \<lparr>ba_stack = st, ba_name = nm, ba_data = d, ba_linenum = ln, ba_bridge = b\<rparr>"

lemma bach_poll_pieces:
  "bach_poll s (xs @ ys) = (case bach_poll s xs of Inl e \<Rightarrow> Inl e | Inr s' \<Rightarrow> bach_poll s' ys)"
proof (induction s xs rule: bach_poll.induct)
  case (2 s c cs)
  show ?case
  proof (cases "bach_step c s")
    case (Inr p)
    with 2 [of p "fst p" "snd p"] show ?thesis
      by (cases p) (auto simp: bach_poll.simps(2) split: if_splits)
  qed (simp add: bach_poll.simps(2))
qed simp

lemma plain_step:
  assumes "c \<noteq> CHR ''#''" and "c \<noteq> CHR 0x0A" and "c \<noteq> CHR 0x0D" and "ba_stack s = t # st"
  shows "bach_poll s (c # cs) = (case bach_dispatch t c s of
      Inl e \<Rightarrow> Inl e | Inr (s', bk) \<Rightarrow> bach_poll s' (if bk then c # cs else cs))"
  using assms by (simp add: bach_poll.simps(2) bach_step_def)

lemma name_char_facts:
  assumes "name_char c"
  shows "c \<noteq> CHR ''#''" and "c \<noteq> CHR 0x0A" and "c \<noteq> CHR 0x0D" and "c \<noteq> CHR '':''"
    and "c \<noteq> CHR 0x22" and "c \<noteq> CHR 0x5C" and "c \<noteq> CHR ''}''" and "c \<noteq> CHR '',''"
  using assms by (auto simp: name_char_def is_alpha_def is_digit_def less_eq_char_def)

definition bach_name :: "string \<Rightarrow> bool" where
  "bach_name n \<longleftrightarrow> n \<noteq> [] \<and> is_alpha (hd n) \<and> list_all name_char n"

lemma decode_name:
  assumes "list_all name_char n"
  shows "decode_string n = n"
proof -
  have "decode_quotes m = m" if "list_all name_char m" for m
    using that by (induction m rule: decode_quotes.induct) (auto dest: name_char_facts)
  moreover have "decode_slashes m = m" if "list_all name_char m" for m
    using that by (induction m rule: decode_slashes.induct) (auto dest: name_char_facts)
  ultimately show ?thesis using assms by (simp add: decode_string_def)
qed

lemma bach_poll_name_text:
  assumes "list_all name_char n"
  shows "bach_poll (ba (BA_NAME # st) m d ln b) (n @ r) = bach_poll (ba (BA_NAME # st) (m @ n) d ln b) r"
  using assms
proof (induction n arbitrary: m)
  case (Cons c n)
  with name_char_facts [of c] show ?case
    by (simp add: plain_step bach_dispatch_def ba_parse_name_def bach_basics)
qed simp

lemma bach_poll_colon [run_simps]:
  "bach_poll (ba (BA_NAME # st) m d ln b) (CHR '':'' # r) = bach_poll (ba st m d ln b) r"
  by (simp add: plain_step bach_dispatch_def ba_parse_name_def bach_basics)

lemma bach_poll_name [run_simps]:
  assumes "bach_name n"
  shows "bach_poll (ba (BA_MAP # st) [] d ln b) (n @ CHR '':'' # r) =
    bach_poll (ba (BA_DATA # BA_MAP # st) n d ln b) r"
proof -
  obtain c n' where n: "n = c # n'" "is_alpha c" "name_char c"
    using assms by (cases n) (auto simp: bach_name_def)
  have "bach_poll (ba (BA_MAP # st) [] d ln b) (n @ CHR '':'' # r) =
      bach_poll (ba (BA_NAME # BA_DATA # BA_MAP # st) [] d ln b) (n @ CHR '':'' # r)"
    using n name_char_facts [OF n(3)] by (simp add: plain_step bach_dispatch_def ba_parse_map_def bach_basics)
  also have "\<dots> = bach_poll (ba (BA_DATA # BA_MAP # st) n d ln b) r"
    using assms by (simp add: bach_name_def bach_poll_name_text bach_poll_colon)
  finally show ?thesis .
qed

lemma bach_poll_structure [run_simps]:
  "bach_poll (ba (BA_STREAM # st) nm d ln b) (CHR '','' # r) = bach_poll (ba (BA_STREAM # st) nm d ln b) r"
  "bach_poll (ba (BA_MAP # st) nm d ln b) (CHR '','' # r) = bach_poll (ba (BA_MAP # st) nm d ln b) r"
  "bach_poll (ba (BA_LIST # st) nm d ln b) (CHR '','' # r) = bach_poll (ba (BA_LIST # st) nm d ln b) r"
  "bach_poll (ba (BA_INIT # st) nm d ln b) (CHR ''['' # r) =
     bach_poll (ba (BA_STREAM # BA_INIT # st) nm d ln (b @ [StreamBegin])) r"
  "bach_poll (ba (BA_STREAM # st) nm d ln b) (CHR ''{'' # r) =
     bach_poll (ba (BA_MAP # BA_STREAM # st) nm d ln (b @ [StreamMessage])) r"
  "bach_poll (ba (BA_MAP # st) nm d ln b) (CHR ''}'' # r) = bach_poll (ba st nm d ln (b @ [MapEnd])) r"
  "bach_poll (ba (BA_LIST # st) nm d ln b) (CHR '']'' # r) = bach_poll (ba st nm d ln (b @ [ListEnd])) r"
  "bach_poll (ba (BA_LIST # st) nm d ln b) (CHR ''{'' # r) =
     bach_poll (ba (BA_MAP # BA_LIST # st) nm d ln (b @ [ListMapItem])) r"
  "bach_poll (ba (BA_LIST # st) nm d ln b) (CHR ''['' # r) =
     bach_poll (ba (BA_LIST # BA_LIST # st) nm d ln (b @ [ListListItem])) r"
  "bach_poll (ba (BA_DATA # BA_MAP # st) nm d ln b) (CHR ''{'' # r) =
     bach_poll (ba (BA_MAP # BA_MAP # st) [] d ln (b @ [MapMapItem (decode_string nm)])) r"
  "bach_poll (ba (BA_DATA # BA_MAP # st) nm d ln b) (CHR ''['' # r) =
     bach_poll (ba (BA_LIST # BA_MAP # st) [] d ln (b @ [MapListItem (decode_string nm)])) r"
  by (simp_all add: plain_step bach_dispatch_def ba_parse_stream_def ba_parse_map_def ba_parse_list_def
      ba_parse_init_def ba_parse_data_def ba_open_def bach_basics is_alpha_def is_digit_def less_eq_char_def)

subsection \<open>Strings\<close>

lemma bach_poll_char:
  assumes "c \<noteq> CHR 0x0D"
  shows "\<exists>ln'. bach_poll (ba (BA_STRING # st) nm d ln b) (encode_char c @ r) =
    bach_poll (ba (BA_STRING # st) nm (d @ [c]) ln' b) r"
  using assms
  by (cases "c = CHR 0x0A")
     (auto simp: encode_char_def bach_special_def bach_poll.simps(2) bach_step_def bach_dispatch_def
       stringmode_def ba_parse_string_def ba_parse_literal_def bach_basics)

lemma bach_poll_text:
  assumes "CHR 0x0D \<notin> set v"
  shows "\<exists>ln'. bach_poll (ba (BA_STRING # st) nm d ln b) (encode_tail v @ r) =
    bach_poll (ba (BA_STRING # st) nm (d @ v) ln' b) r"
  using assms
proof (induction v arbitrary: d ln)
  case (Cons c v)
  from Cons.prems obtain ln1 where
    "bach_poll (ba (BA_STRING # st) nm d ln b) (encode_char c @ encode_tail v @ r) =
      bach_poll (ba (BA_STRING # st) nm (d @ [c]) ln1 b) (encode_tail v @ r)"
    using bach_poll_char [of c st nm d ln b "encode_tail v @ r"] by auto
  moreover from Cons obtain ln2 where
    "bach_poll (ba (BA_STRING # st) nm (d @ [c]) ln1 b) (encode_tail v @ r) =
      bach_poll (ba (BA_STRING # st) nm (d @ c # v) ln2 b) r"
    using Cons.IH [of "d @ [c]" ln1] Cons.prems by auto
  ultimately show ?case by auto
qed auto

lemma bach_poll_quoted:
  assumes "CHR 0x0D \<notin> set v"
  shows "\<exists>ln'. bach_poll (ba (BA_DATA # BA_MAP # st) nm [] ln b) (quoted v @ r) =
      bach_poll (ba (BA_MAP # st) [] [] ln' (b @ [MapStringItem (decode_string nm) (decode_string v)])) r"
    and "\<exists>ln'. bach_poll (ba (BA_LIST # st) [] [] ln b) (quoted v @ r) =
      bach_poll (ba (BA_LIST # st) [] [] ln' (b @ [ListStringItem (decode_string v)])) r"
proof -
  have open_quote:
    "bach_poll (ba (BA_DATA # BA_MAP # st) nm [] ln b) (CHR 0x22 # q) =
      bach_poll (ba (BA_STRING # BA_MAP # st) nm [] ln b) q"
    "bach_poll (ba (BA_LIST # st) [] [] ln b) (CHR 0x22 # q) =
      bach_poll (ba (BA_STRING # BA_LIST # st) [] [] ln b) q" for q
    by (simp_all add: plain_step bach_dispatch_def ba_parse_data_def ba_parse_list_def bach_basics is_digit_def)
  have close_quote:
    "bach_poll (ba (BA_STRING # BA_MAP # st) nm v l b) (CHR 0x22 # r) =
      bach_poll (ba (BA_MAP # st) [] [] l (b @ [MapStringItem (decode_string nm) (decode_string v)])) r"
    "bach_poll (ba (BA_STRING # BA_LIST # st) [] v l b) (CHR 0x22 # r) =
      bach_poll (ba (BA_LIST # st) [] [] l (b @ [ListStringItem (decode_string v)])) r" for l
    by (simp_all add: plain_step bach_dispatch_def ba_parse_string_def bach_basics)
  obtain l1 where "bach_poll (ba (BA_STRING # BA_MAP # st) nm [] ln b) (encode_tail v @ CHR 0x22 # r) =
      bach_poll (ba (BA_STRING # BA_MAP # st) nm v l1 b) (CHR 0x22 # r)"
    using bach_poll_text [OF assms, of "BA_MAP # st" nm "[]" ln b "CHR 0x22 # r"] by auto
  then show "\<exists>ln'. bach_poll (ba (BA_DATA # BA_MAP # st) nm [] ln b) (quoted v @ r) =
      bach_poll (ba (BA_MAP # st) [] [] ln' (b @ [MapStringItem (decode_string nm) (decode_string v)])) r"
    by (auto simp: quoted_def encode_string_eq open_quote close_quote)
  obtain l2 where "bach_poll (ba (BA_STRING # BA_LIST # st) [] [] ln b) (encode_tail v @ CHR 0x22 # r) =
      bach_poll (ba (BA_STRING # BA_LIST # st) [] v l2 b) (CHR 0x22 # r)"
    using bach_poll_text [OF assms, of "BA_LIST # st" "[]" "[]" ln b "CHR 0x22 # r"] by auto
  then show "\<exists>ln'. bach_poll (ba (BA_LIST # st) [] [] ln b) (quoted v @ r) =
      bach_poll (ba (BA_LIST # st) [] [] ln' (b @ [ListStringItem (decode_string v)])) r"
    by (auto simp: quoted_def encode_string_eq open_quote close_quote)
qed

subsection \<open>Numbers\<close>

definition number_char :: "char \<Rightarrow> bool" where
  "number_char c \<longleftrightarrow> is_digit c \<or> c \<in> set float_chars"

definition number_text :: "string \<Rightarrow> bool" where
  "number_text t \<longleftrightarrow> t \<noteq> [] \<and> (is_digit (hd t) \<or> hd t = CHR ''-'') \<and> list_all number_char t"

text \<open>The state in which a number ends: a point switches to \<open>PARSE_FLOAT\<close>.\<close>

definition number_state :: "string \<Rightarrow> bach_state" where
  "number_state t = (if CHR ''.'' \<in> set t then BA_FLOAT else BA_INT)"

lemma number_char_facts:
  assumes "number_char c"
  shows "c \<noteq> CHR ''#''" and "c \<noteq> CHR 0x0A" and "c \<noteq> CHR 0x0D" and "c \<notin> set ba_delims"
    and "c \<noteq> CHR ''.'' \<Longrightarrow> is_digit c \<or> c \<in> set ''-+eE''" and "is_digit c \<or> c \<in> set ''.-+eE''"
  using assms by (auto simp: number_char_def float_chars_def ba_delims_def is_digit_def)

lemma bach_poll_float_text:
  assumes "list_all number_char t"
  shows "bach_poll (ba (BA_FLOAT # st) nm d ln b) (t @ r) = bach_poll (ba (BA_FLOAT # st) nm (d @ t) ln b) r"
  using assms
proof (induction t arbitrary: d)
  case (Cons c t)
  then have c: "number_char c" and IH: "\<And>d. bach_poll (ba (BA_FLOAT # st) nm d ln b) (t @ r) =
      bach_poll (ba (BA_FLOAT # st) nm (d @ t) ln b) r" by simp_all
  have "ba_parse_float c (ba (BA_FLOAT # st) nm d ln b) = ba_done (ba (BA_FLOAT # st) nm (d @ [c]) ln b)"
    using number_char_facts(4,6) [OF c] by (simp add: ba_parse_float_def)
  with IH number_char_facts(1-3) [OF c] show ?case
    by (simp add: plain_step bach_dispatch_def ba_done_def)
qed simp

lemma bach_poll_int_text:
  assumes "list_all number_char t"
  shows "bach_poll (ba (BA_INT # st) nm d ln b) (t @ r) =
    bach_poll (ba (number_state t # st) nm (d @ t) ln b) r"
  using assms
proof (induction t arbitrary: d)
  case (Cons c t)
  then have c: "number_char c" and t: "list_all number_char t"
    and IH: "\<And>d. bach_poll (ba (BA_INT # st) nm d ln b) (t @ r) =
      bach_poll (ba (number_state t # st) nm (d @ t) ln b) r" by simp_all
  note step = number_char_facts(1-3) [OF c]
  show ?case
  proof (cases "c = CHR ''.''")
    case True
    then show ?thesis
      using bach_poll_float_text [OF t, of st nm "d @ [c]" ln b r]
      by (simp add: plain_step bach_dispatch_def ba_parse_int_def bach_basics ba_delims_def is_digit_def number_state_def)
  next
    case False
    then have "ba_parse_int c (ba (BA_INT # st) nm d ln b) = ba_done (ba (BA_INT # st) nm (d @ [c]) ln b)"
      using number_char_facts(4,5) [OF c] by (simp add: ba_parse_int_def)
    with IH False step show ?thesis
      by (auto simp: plain_step bach_dispatch_def ba_done_def number_state_def)
  qed
qed (simp add: number_state_def)

lemma bach_poll_number_begin:
  assumes "number_text t"
  shows "bach_poll (ba (BA_DATA # st) nm d ln b) (t @ r) = bach_poll (ba (number_state t # st) nm (d @ t) ln b) r"
    and "bach_poll (ba (BA_LIST # st) nm d ln b) (t @ r) =
      bach_poll (ba (number_state t # BA_LIST # st) nm (d @ t) ln b) r"
proof -
  obtain c t' where t: "t = c # t'" "is_digit c \<or> c = CHR ''-''" and chars: "list_all number_char t"
    using assms by (cases t) (auto simp: number_text_def)
  have nc: "number_char c" using t chars by simp
  have not_brackets: "c \<noteq> CHR '']'' \<and> c \<noteq> CHR ''{'' \<and> c \<noteq> CHR ''[''"
    using t(2) by (auto simp: is_digit_def)
  have "bach_poll (ba (BA_DATA # st) nm d ln b) (t @ r) = bach_poll (ba (BA_INT # st) nm d ln b) (t @ r)"
    using t(2) number_char_facts(1-3) [OF nc]
    by (simp add: t(1) plain_step bach_dispatch_def ba_parse_data_def bach_basics)
  then show "bach_poll (ba (BA_DATA # st) nm d ln b) (t @ r) =
      bach_poll (ba (number_state t # st) nm (d @ t) ln b) r"
    using bach_poll_int_text [OF chars] by simp
  have "bach_poll (ba (BA_LIST # st) nm d ln b) (t @ r) = bach_poll (ba (BA_INT # BA_LIST # st) nm d ln b) (t @ r)"
    using t(2) not_brackets number_char_facts(1-3) [OF nc]
    by (simp add: t(1) plain_step bach_dispatch_def ba_parse_list_def bach_basics)
  then show "bach_poll (ba (BA_LIST # st) nm d ln b) (t @ r) =
      bach_poll (ba (number_state t # BA_LIST # st) nm (d @ t) ln b) r"
    using bach_poll_int_text [OF chars] by simp
qed

text \<open>What a number becomes: without a point an integer, else a float; \<open>None\<close> is an exception.\<close>

definition read_number :: "string \<Rightarrow> elem option" where
  "read_number t = (if CHR ''.'' \<in> set t then map_option EFloat (stod t) else map_option EInt (stol t))"

definition bach_float :: float_arrival where
  "bach_float d = read_number (show_f64 d)"

lemma bach_poll_number_end:
  assumes x: "x \<in> set ba_delims" and v: "read_number t \<noteq> None" and n: "list_all name_char n"
  shows "bach_poll (ba (number_state t # BA_MAP # st) n t ln b) (x # r) =
      bach_poll (ba (BA_MAP # st) [] [] ln (b @ map_scalar n (read_number t))) (x # r)"
    and "bach_poll (ba (number_state t # BA_LIST # st) n t ln b) (x # r) =
      bach_poll (ba (BA_LIST # st) [] [] ln (b @ list_scalar (read_number t))) (x # r)"
proof -
  have x': "x \<noteq> CHR ''#''" "x \<noteq> CHR 0x0A" "x \<noteq> CHR 0x0D"
    using x by (auto simp: ba_delims_def)
  have "bach_poll (ba (number_state t # u # st) n t ln b) (x # r) =
      bach_poll (ba (u # st) [] [] ln (b @ (if u = BA_MAP then map_scalar n (read_number t)
        else list_scalar (read_number t)))) (x # r)" if u: "u = BA_MAP \<or> u = BA_LIST" for u
    using x x' v u
    by (cases "CHR ''.'' \<in> set t")
       (auto simp: plain_step bach_dispatch_def number_state_def ba_parse_int_def ba_parse_float_def
        ba_number_def bach_basics read_number_def decode_name [OF n] split: option.splits)
  from this [of BA_MAP] this [of BA_LIST] show
    "bach_poll (ba (number_state t # BA_MAP # st) n t ln b) (x # r) =
      bach_poll (ba (BA_MAP # st) [] [] ln (b @ map_scalar n (read_number t))) (x # r)"
    "bach_poll (ba (number_state t # BA_LIST # st) n t ln b) (x # r) =
      bach_poll (ba (BA_LIST # st) [] [] ln (b @ list_scalar (read_number t))) (x # r)"
    by simp_all
qed

section \<open>The codec meets its contract\<close>

text \<open>
  What Bach carries: names are words, a string is one that \<open>decodeString\<close> leaves alone and that has no
  carriage return, a float must be finite and readable, and there is no text for \<open>None\<close>.
\<close>

definition bach_text :: "string \<Rightarrow> bool" where
  "bach_text v \<longleftrightarrow> decode_string v = v \<and> CHR 0x0D \<notin> set v"

definition bach_double :: "f64 \<Rightarrow> bool" where
  "bach_double d \<longleftrightarrow> f64_finite d \<and> bach_float d \<noteq> None"

fun bach_accepts :: "bridge_call \<Rightarrow> bool" where
  "bach_accepts (MapMapItem n) = bach_name n"
| "bach_accepts (MapListItem n) = bach_name n"
| "bach_accepts (MapIntItem n i) = bach_name n"
| "bach_accepts (MapFloatItem n d) = (bach_name n \<and> bach_double d)"
| "bach_accepts (MapStringItem n v) = (bach_name n \<and> bach_text v)"
| "bach_accepts (MapNoneItem n) = False"
| "bach_accepts (ListFloatItem d) = bach_double d"
| "bach_accepts (ListStringItem v) = bach_text v"
| "bach_accepts ListNoneItem = False"
| "bach_accepts _ = True"

fun bach_ctx :: "bctx \<Rightarrow> bach_state" where
  "bach_ctx KStream = BA_STREAM"
| "bach_ctx KMap = BA_MAP"
| "bach_ctx KList = BA_LIST"

definition bach_at :: "bctx list \<Rightarrow> bridge_call list \<Rightarrow> bach \<Rightarrow> bool" where
  "bach_at k b s \<longleftrightarrow> (\<exists>ln. s = ba (map bach_ctx k @ [BA_INIT]) [] [] ln b)"

definition bach_starts :: "bool \<Rightarrow> char \<Rightarrow> bool" where
  "bach_starts w x \<longleftrightarrow> (w \<longrightarrow> x \<in> set ba_delims)"

lemma bach_name_chars: "bach_name n \<Longrightarrow> list_all name_char n"
  by (simp add: bach_name_def)

lemma bach_poll_comma:
  "t \<in> {BA_STREAM, BA_MAP, BA_LIST} \<Longrightarrow> bach_poll (ba (t # st) nm d ln b) (comma w @ r) = bach_poll (ba (t # st) nm d ln b) r"
  by (auto simp: comma_def bach_poll_structure)

lemma number_text_i64: "number_text (show_i64 i)"
proof -
  have "c = CHR ''-'' \<or> is_digit c" if "c \<in> set (show_i64 i)" for c
    using show_i64_chars [OF that] by auto
  moreover have "hd (show_i64 i) \<in> set (show_i64 i)" by simp
  ultimately show ?thesis
    unfolding number_text_def list_all_iff number_char_def
    by (metis list.set_intros(1) float_chars_def show_i64_not_Nil)
qed

lemma read_number_i64: "read_number (show_i64 i) = Some (EInt i)"
proof -
  have "CHR ''.'' \<notin> set (show_i64 i)"
    using show_i64_chars [of "CHR ''.''" i] by (auto simp: is_digit_def)
  then show ?thesis by (simp add: read_number_def)
qed

lemma number_text_f64: "f64_finite d \<Longrightarrow> number_text (show_f64 d)"
  using show_f64_finite_chars [of d] show_f64_hd [of d]
  by (auto simp: number_text_def list_all_iff number_char_def)

lemma bach_read_number:
  assumes t: "number_text t" "read_number t \<noteq> None" and x: "x \<in> set ba_delims"
  shows "bach_name n \<Longrightarrow> bach_poll (ba (BA_MAP # st) [] [] ln b) (write_item n t w @ x # r) =
      bach_poll (ba (BA_MAP # st) [] [] ln (b @ map_scalar n (read_number t))) (x # r)"
    and "bach_poll (ba (BA_LIST # st) [] [] ln b) (write_item [] t w @ x # r) =
      bach_poll (ba (BA_LIST # st) [] [] ln (b @ list_scalar (read_number t))) (x # r)"
proof -
  show "bach_poll (ba (BA_MAP # st) [] [] ln b) (write_item n t w @ x # r) =
      bach_poll (ba (BA_MAP # st) [] [] ln (b @ map_scalar n (read_number t))) (x # r)" if n: "bach_name n"
  proof -
    have "n \<noteq> []" using n by (simp add: bach_name_def)
    then show ?thesis
      using bach_poll_number_begin(1) [OF t(1), of "BA_MAP # st" n "[]" ln b "x # r"]
        bach_poll_number_end(1) [OF x t(2) bach_name_chars [OF n], of st ln b r]
      by (simp add: write_item_def bach_poll_comma bach_poll_name [OF n])
  qed
  show "bach_poll (ba (BA_LIST # st) [] [] ln b) (write_item [] t w @ x # r) =
      bach_poll (ba (BA_LIST # st) [] [] ln (b @ list_scalar (read_number t))) (x # r)"
    using bach_poll_number_begin(2) [OF t(1), of st "[]" "[]" ln b "x # r"]
      bach_poll_number_end(2) [OF x t(2), of "[]" st ln b r]
    by (simp add: write_item_def bach_poll_comma)
qed

lemma bach_read_string:
  assumes v: "bach_text v"
  shows "bach_name n \<Longrightarrow> \<exists>ln'. bach_poll (ba (BA_MAP # st) [] [] ln b) (write_item n (quoted v) w @ r) =
      bach_poll (ba (BA_MAP # st) [] [] ln' (b @ [MapStringItem n v])) r"
    and "\<exists>ln'. bach_poll (ba (BA_LIST # st) [] [] ln b) (write_item [] (quoted v) w @ r) =
      bach_poll (ba (BA_LIST # st) [] [] ln' (b @ [ListStringItem v])) r"
proof -
  have v': "CHR 0x0D \<notin> set v" "decode_string v = v" using v by (simp_all add: bach_text_def)
  show "\<exists>ln'. bach_poll (ba (BA_MAP # st) [] [] ln b) (write_item n (quoted v) w @ r) =
      bach_poll (ba (BA_MAP # st) [] [] ln' (b @ [MapStringItem n v])) r" if n: "bach_name n"
  proof -
    have "n \<noteq> []" using n by (simp add: bach_name_def)
    then show ?thesis
      using bach_poll_quoted(1) [OF v'(1), of st n ln b r] decode_name [OF bach_name_chars [OF n]] v'(2)
      by (simp add: write_item_def bach_poll_comma bach_poll_name [OF n])
  qed
  show "\<exists>ln'. bach_poll (ba (BA_LIST # st) [] [] ln b) (write_item [] (quoted v) w @ r) =
      bach_poll (ba (BA_LIST # st) [] [] ln' (b @ [ListStringItem v])) r"
    using bach_poll_quoted(2) [OF v'(1), of st ln b r] v'(2) by (simp add: write_item_def bach_poll_comma)
qed

lemma bach_at_refl: "st = map bach_ctx k @ [BA_INIT] \<Longrightarrow>
    \<exists>s'. bach_at k b s' \<and> bach_poll (ba st [] [] ln b) r = bach_poll s' r"
  by (auto simp: bach_at_def)

lemma bach_read_call:
  assumes "call_next k c = Some k'" and "k \<noteq> []" and "bach_accepts c" and "bach_at k b s"
    and r: "closing c \<or> (\<exists>x r'. r = x # r' \<and> bach_starts (snd (bach_encode w c)) x)"
  shows "\<exists>s'. bach_at k' (b @ arrive bach_float c) s' \<and> bach_poll s (fst (bach_encode w c) @ r) = bach_poll s' r"
proof -
  from assms(4) obtain ln where s: "s = ba (map bach_ctx k @ [BA_INIT]) [] [] ln b"
    by (auto simp: bach_at_def)
  from assms(1) show ?thesis
  proof (cases rule: call_next_cases)
    case (map_map k1 n)
    with assms(3) s show ?thesis
      using bach_at_refl [of _ k'] by (simp add: write_line_def bach_poll_comma bach_poll_name bach_poll_structure decode_name bach_name_chars)
  next
    case (map_list k1 n)
    with assms(3) s show ?thesis
      using bach_at_refl [of _ k'] by (simp add: write_line_def bach_poll_comma bach_poll_name bach_poll_structure decode_name bach_name_chars)
  next
    case (map_int k1 n i)
    with r obtain x r' where x: "r = x # r'" "x \<in> set ba_delims" by (auto simp: bach_starts_def)
    show ?thesis
      using bach_read_number(1) [OF number_text_i64 _ x(2), of i n] map_int assms(3) s x(1) bach_at_refl [of _ k']
      by (simp add: read_number_i64)
  next
    case (list_int k1 i)
    with r obtain x r' where x: "r = x # r'" "x \<in> set ba_delims" by (auto simp: bach_starts_def)
    show ?thesis
      using bach_read_number(2) [OF number_text_i64 _ x(2), of i] list_int assms(3) s x(1) bach_at_refl [of _ k']
      by (simp add: read_number_i64)
  next
    case (map_float k1 n d)
    with r obtain x r' where x: "r = x # r'" "x \<in> set ba_delims" by (auto simp: bach_starts_def)
    show ?thesis
      using bach_read_number(1) [OF number_text_f64 _ x(2), of d n] map_float assms(3) s x(1) bach_at_refl [of _ k']
      by (simp add: bach_double_def bach_float_def)
  next
    case (list_float k1 d)
    with r obtain x r' where x: "r = x # r'" "x \<in> set ba_delims" by (auto simp: bach_starts_def)
    show ?thesis
      using bach_read_number(2) [OF number_text_f64 _ x(2), of d] list_float assms(3) s x(1) bach_at_refl [of _ k']
      by (simp add: bach_double_def bach_float_def)
  next
    case (map_string k1 n v)
    with bach_read_string(1) [of v n "map bach_ctx k1 @ [BA_INIT]" ln b w r] assms(3) s obtain ln' where
      "bach_poll s (fst (bach_encode w c) @ r) =
        bach_poll (ba (map bach_ctx k @ [BA_INIT]) [] [] ln' (b @ [MapStringItem n v])) r" by auto
    with map_string show ?thesis by (auto simp: bach_at_def)
  next
    case (list_string k1 v)
    with bach_read_string(2) [of v "map bach_ctx k1 @ [BA_INIT]" ln b w r] assms(3) s obtain ln' where
      "bach_poll s (fst (bach_encode w c) @ r) =
        bach_poll (ba (map bach_ctx k @ [BA_INIT]) [] [] ln' (b @ [ListStringItem v])) r" by auto
    with list_string show ?thesis by (auto simp: bach_at_def)
  qed (use assms(2,3) s bach_at_refl [of _ k'] in
      \<open>simp_all add: write_line_def bach_poll_comma bach_poll_structure\<close>)
qed

lemma bach_encode_starts:
  assumes "call_next k c = Some k'" and "k \<noteq> []" and "bach_accepts c"
  shows "\<exists>x r. fst (bach_encode w c) = x # r \<and> bach_starts w x"
  using assms(1)
  by (cases rule: call_next_cases; cases w)
     (use assms(2,3) in \<open>auto simp: bach_writers bach_starts_def ba_delims_def neq_Nil_conv bach_name_def
         show_i64_not_Nil [unfolded neq_Nil_conv] show_f64_not_Nil [unfolded neq_Nil_conv]\<close>)

interpretation bach_codec: message_codec bach_encode False bach_init bach_poll ba_bridge
    bach_accepts bach_float bach_at bach_starts
proof
  show "bach_poll s (xs @ ys) =
      (case bach_poll s xs of Inl e \<Rightarrow> Inl e | Inr s' \<Rightarrow> bach_poll s' ys)" for s xs ys
    by (rule bach_poll_pieces)
  show "\<exists>s. bach_at [KMap, KStream] [StreamBegin, StreamMessage] s \<and>
      bach_poll bach_init (write_calls bach_encode False [StreamBegin, StreamMessage] @ r) = bach_poll s r" for r
    by (simp add: bach_init_def bach_at_refl write_line_def comma_def bach_poll_structure)
  show "\<exists>x r. fst (bach_encode w c) = x # r \<and> bach_starts w x"
    if "call_next k c = Some k'" "k \<noteq> []" "bach_accepts c" for k c k' w
    using that by (rule bach_encode_starts)
qed (auto simp: bach_at_def intro: bach_read_call [unfolded bach_at_def])

section \<open>No empty stack\<close>

definition bach_inv :: "bach \<Rightarrow> bool" where
  "bach_inv s \<longleftrightarrow> ba_stack s \<noteq> [] \<and> last (ba_stack s) = BA_INIT \<and> BA_INIT \<notin> set (butlast (ba_stack s))"

definition bach_result_ok :: "bach_result \<Rightarrow> bool" where
  "bach_result_ok r = (case r of Inl e \<Rightarrow> e = BachThrow | Inr (s, bk) \<Rightarrow> bach_inv s)"

lemma bach_inv_init: "bach_inv bach_init"
  by (simp add: bach_inv_def bach_init_def)

lemma bach_dispatch_ok:
  assumes "bach_inv s" and st: "ba_stack s = t # st"
  shows "bach_result_ok (bach_dispatch t c s)"
proof (cases "t = BA_INIT")
  case True
  with assms show ?thesis
    by (simp add: bach_dispatch_def ba_parse_init_def bach_basics bach_inv_def bach_result_ok_def split: if_splits)
next
  case False
  with assms obtain u st' where "st = u # st'"
    by (cases st) (auto simp: bach_inv_def)
  with assms False show ?thesis
    unfolding bach_dispatch_def
    by (cases t) (auto simp: bach_handlers bach_basics bach_inv_def bach_result_ok_def split: option.splits if_splits)
qed

lemma bach_step_ok:
  assumes "bach_inv s"
  shows "bach_result_ok (bach_step c s)"
proof -
  obtain t st where st: "ba_stack s = t # st" using assms by (cases "ba_stack s") (auto simp: bach_inv_def)
  let ?s1 = "s\<lparr>ba_linenum := ba_linenum s + 1\<rparr>"
  have "bach_inv ?s1" "ba_stack ?s1 = t # st" using assms st by (simp_all add: bach_inv_def)
  then have "bach_result_ok (bach_dispatch t c ?s1)" "bach_result_ok (bach_dispatch t c s)"
    using bach_dispatch_ok assms st by blast+
  moreover have "bach_result_ok (ba_done s)" "bach_result_ok (ba_done ?s1)" "bach_result_ok (ba_done (ba_push [BA_COMMENT] s))"
    using assms by (simp_all add: bach_result_ok_def bach_inv_def bach_basics)
  ultimately show ?thesis by (auto simp: bach_step_def st Let_def)
qed

lemma bach_poll_ok:
  "bach_inv s \<Longrightarrow> bach_poll s cs = Inl BachThrow \<or> (\<exists>s'. bach_poll s cs = Inr s' \<and> bach_inv s')"
proof (induction s cs rule: bach_poll.induct)
  case (2 s c cs)
  show ?case
  proof (cases "bach_step c s")
    case (Inl e)
    with bach_step_ok [OF 2(2), of c] show ?thesis by (simp add: bach_poll.simps(2) bach_result_ok_def)
  next
    case (Inr p)
    obtain s' bk where p: "p = (s', bk)" by (cases p)
    with Inr bach_step_ok [OF 2(2), of c] have "bach_inv s'" by (simp add: bach_result_ok_def)
    with 2(1) [OF Inr p [symmetric]] Inr p show ?thesis by (simp add: bach_poll.simps(2) split: if_splits)
  qed
qed simp

section \<open>Which strings survive\<close>

lemma decode_quotes_length: "length (decode_quotes v) \<le> length v"
  by (induction v rule: decode_quotes.induct) auto

lemma decode_slashes_length: "length (decode_slashes v) \<le> length v"
  by (induction v rule: decode_slashes.induct) auto

lemma decode_quotes_iff: "decode_quotes v = v \<longleftrightarrow> \<not> sublist [CHR 0x5C, CHR 0x22] v"
  using decode_quotes_length
  by (induction v rule: decode_quotes.induct) (auto simp: sublist_Cons_right dest: arg_cong [where f = length])

lemma decode_slashes_iff: "decode_slashes v = v \<longleftrightarrow> \<not> sublist [CHR 0x5C, CHR 0x5C] v"
proof (induction v rule: decode_slashes.induct)
  case (3 c d r)
  have "decode_slashes (CHR 0x5C # r) \<noteq> CHR 0x5C # CHR 0x5C # r"
    using decode_slashes_length [of "CHR 0x5C # r"] by (auto dest: arg_cong [where f = length])
  with 3 show ?case by (auto simp: sublist_Cons_right)
qed (auto simp: sublist_Cons_right)

section \<open>What the codec guarantees\<close>

text \<open>
  C13: Bach carries messages whose names are words, whose strings have no run of backslashes, no
  backslash before a quote and no carriage return, without \<open>None\<close>, and whose floats are finite and
  readable; the text may arrive in any pieces. Polling does not fail, no assertion of the decoder
  fails, and the queue holds the messages, a float as the number its text reads as.
\<close>

theorem bach_delivers_messages:
  assumes "msgs \<noteq> []" and "list_all message_ok msgs"
    and "list_all (\<lambda>m. list_all bach_accepts (stream_message_element m)) msgs"
    and "concat chunks = write_calls bach_encode False (session_calls msgs)"
  shows "\<exists>s d. run_steps bach_poll bach_init chunks = Inr s
    \<and> decode decoder_init (ba_bridge s) = Inr d
    \<and> d_queue d = map (entries_arrive bach_float) msgs"
  using bach_codec.session_delivers [OF assms(1,2,3)] assms(4)
  by (simp add: bach_codec.poll_chunks)

lemma show_i64_5: "show_i64 5 = ''5''"
  by code_simp

theorem bach_delivers_messages_witness:
  "\<exists>s d. run_steps bach_poll bach_init [''[{ab:'', ''5,cd:[5,'' @ [CHR 0x22] @ ''x#'', [CHR 0x22] @ ''],ef:{}},{}''] = Inr s
    \<and> decode decoder_init (ba_bridge s) = Inr d
    \<and> d_queue d = [[(''ab'', EInt 5), (''cd'', EList [EInt 5, EString ''x#'']), (''ef'', EMap [])], []]"
proof -
  have names: "bach_name ''ab''" "bach_name ''cd''" "bach_name ''ef''" "bach_text ''x#''"
    "encode_string ''x#'' = ''x#''" by code_simp+
  let ?msgs = "[[(''ab'', EInt 5), (''cd'', EList [EInt 5, EString ''x#'']), (''ef'', EMap [])], []]"
  have ok: "list_all message_ok ?msgs"
    by (simp add: message_ok_def smap_ok_Cons)
  have acc: "list_all (\<lambda>m. list_all bach_accepts (stream_message_element m)) ?msgs"
    using names by (simp add: stream_message_element_def)
  have cut: "concat [''[{ab:'', ''5,cd:[5,'' @ [CHR 0x22] @ ''x#'', [CHR 0x22] @ ''],ef:{}},{}''] =
      write_calls bach_encode False (session_calls ?msgs)"
    using names by (simp add: session_calls_def stream_message_element_def show_i64_5 bach_writers)
  show ?thesis using bach_delivers_messages [OF _ ok acc cut] by (simp del: run_steps.simps)
qed

text \<open>
  C38: the Bach parser never reads or pops an empty stack, whatever bytes arrive: \<open>PARSE_INIT\<close>
  stays at the bottom. The only failure is the exception of a number that \<open>stol\<close> or \<open>stod\<close> rejects.
\<close>

theorem bach_never_undefined:
  assumes "bach_inv s"
  shows "run_steps bach_poll s chunks = Inl BachThrow \<or> (\<exists>s'. run_steps bach_poll s chunks = Inr s' \<and> bach_inv s')"
  using bach_poll_ok [OF assms, of "concat chunks"] unfolding bach_codec.poll_chunks .

theorem bach_never_undefined_witness:
  "run_steps bach_poll bach_init [''[{a:-'', '',]}}#''] = Inl BachThrow
    \<or> (\<exists>s'. run_steps bach_poll bach_init [''[{a:-'', '',]}}#''] = Inr s' \<and> bach_inv s')"
  by (rule bach_never_undefined [OF bach_inv_init])

text \<open>
  A string without carriage returns arrives as \<open>decodeString\<close> of itself, because the parser has
  already undone the escapes of \<open>encodeString\<close> when \<open>decodeString\<close> undoes them again; it survives exactly when
  no two backslashes are adjacent and no backslash stands before a quote.
\<close>

theorem bach_string_arrives:
  assumes "CHR 0x0D \<notin> set v"
  shows "\<exists>ln'. bach_poll (ba (BA_LIST # st) [] [] ln b) (fst (bach_encode w (ListStringItem v)) @ r) =
      bach_poll (ba (BA_LIST # st) [] [] ln' (b @ [ListStringItem (decode_string v)])) r
    \<and> (decode_string v = v \<longleftrightarrow> \<not> sublist [CHR 0x5C, CHR 0x5C] v \<and> \<not> sublist [CHR 0x5C, CHR 0x22] v)"
proof -
  have "decode_string v = v \<longleftrightarrow> \<not> sublist [CHR 0x5C, CHR 0x5C] v \<and> \<not> sublist [CHR 0x5C, CHR 0x22] v"
  proof (cases "decode_quotes v = v")
    case True
    then show ?thesis by (simp add: decode_string_def decode_slashes_iff decode_quotes_iff [symmetric])
  next
    case False
    have "length (decode_quotes v) < length v"
      using False
    proof (induction v rule: decode_quotes.induct)
      case (3 c d r)
      then show ?case using decode_quotes_length [of r] by (auto split: if_splits)
    qed simp_all
    with decode_slashes_length [of "decode_quotes v"] have "decode_string v \<noteq> v"
      by (auto simp: decode_string_def dest: arg_cong [where f = length])
    with False show ?thesis by (simp add: decode_quotes_iff)
  qed
  with bach_poll_quoted(2) [OF assms, of st ln b r] show ?thesis
    by (simp add: write_item_def bach_poll_comma)
qed

theorem bach_string_arrives_witness:
  "\<exists>ln'. bach_poll (ba [BA_LIST, BA_MAP, BA_STREAM, BA_INIT] [] [] 0 []) (fst (bach_encode True (ListStringItem [CHR 0x5C, CHR 0x5C])) @ [])
    = bach_poll (ba [BA_LIST, BA_MAP, BA_STREAM, BA_INIT] [] [] ln' ([] @ [ListStringItem [CHR 0x5C]])) []"
  using bach_string_arrives [of "[CHR 0x5C, CHR 0x5C]" "[BA_MAP, BA_STREAM, BA_INIT]" 0 "[]" True "[]"]
  by (simp add: decode_string_def)

text \<open>Text that \<open>parseData\<close> passes over while it waits for a value.\<close>

lemma bach_poll_skip:
  assumes "list_all (\<lambda>c. is_alpha c \<or> c = CHR ''_'' \<or> c = CHR '':'' \<or> c = CHR '','') t"
  shows "bach_poll (ba (BA_DATA # st) nm d ln b) (t @ r) = bach_poll (ba (BA_DATA # st) nm d ln b) r"
  using assms
proof (induction t)
  case (Cons c t)
  have "c \<noteq> CHR ''#'' \<and> c \<noteq> CHR 0x0A \<and> c \<noteq> CHR 0x0D \<and> \<not> is_digit c \<and> c \<noteq> CHR ''-'' \<and> c \<noteq> CHR ''{''
      \<and> c \<noteq> CHR ''['' \<and> c \<noteq> CHR 0x22"
    using Cons.prems by (auto simp: is_alpha_def is_digit_def less_eq_char_def)
  with Cons show ?case by (simp add: plain_step bach_dispatch_def ba_parse_data_def bach_basics)
qed simp

text \<open>
  Bach has no text for \<open>None\<close>. An item without a value, followed by an integer item whose name has no
  digit, arrives as one item: the name of the first with the value of the second. The second
  name is lost. (\<open>bach_delivers_messages\<close> excludes \<open>None\<close>.)
\<close>

theorem bach_none_takes_next_value:
  assumes "bach_name n" and "m \<noteq> []" and "list_all (\<lambda>c. is_alpha c \<or> c = CHR ''_'') m" and "x \<in> set ba_delims"
  shows "bach_poll (ba (BA_MAP # st) [] [] ln b)
      (write_calls bach_encode w [MapNoneItem n, MapIntItem m i] @ x # r) =
    bach_poll (ba (BA_MAP # st) [] [] ln (b @ [MapIntItem n i])) (x # r)"
proof -
  have "list_all (\<lambda>c. is_alpha c \<or> c = CHR ''_'' \<or> c = CHR '':'' \<or> c = CHR '','') (comma w @ m @ '':'')"
    using assms(3) by (auto simp: comma_def list_all_iff)
  from bach_poll_skip [OF this, of "BA_MAP # st" n "[]" ln b "show_i64 i @ x # r"]
  have "bach_poll (ba (BA_DATA # BA_MAP # st) n [] ln b) (comma w @ m @ CHR '':'' # show_i64 i @ x # r) =
      bach_poll (ba (BA_DATA # BA_MAP # st) n [] ln b) (show_i64 i @ x # r)" by simp
  also have "\<dots> = bach_poll (ba (BA_MAP # st) [] [] ln (b @ [MapIntItem n i])) (x # r)"
    using bach_poll_number_begin(1) [OF number_text_i64, of "BA_MAP # st" n "[]" ln b i "x # r"]
      bach_poll_number_end(1) [OF assms(4) _ bach_name_chars [OF assms(1)], of "show_i64 i" st ln b r]
    by (simp add: read_number_i64)
  finally show ?thesis using assms(1,2)
    by (simp add: bach_poll_comma bach_poll_name write_item_def)
qed

theorem bach_none_takes_next_value_witness:
  "bach_poll (ba [BA_MAP, BA_STREAM, BA_INIT] [] [] 0 []) (write_calls bach_encode False [MapNoneItem ''a'', MapIntItem ''b'' 5] @ ''}'')
    = bach_poll (ba [BA_MAP, BA_STREAM, BA_INIT] [] [] 0 ([] @ [MapIntItem ''a'' 5])) ''}''"
proof -
  have "bach_name ''a''" "list_all (\<lambda>c. is_alpha c \<or> c = CHR ''_'') ''b''" "CHR ''}'' \<in> set ba_delims" by code_simp+
  with bach_none_takes_next_value [of "''a''" "''b''" "CHR ''}''" "[BA_STREAM, BA_INIT]" 0 "[]" False 5 "[]"]
  show ?thesis by simp
qed

text \<open>
  A float whose text has no point arrives as the integer \<open>stol\<close> reads: two arrives as the integer
  two, and ten to the twentieth, printed as \<open>1e+20\<close>, as the integer one.
\<close>

theorem bach_float_without_point:
  "bach_float 0x4000000000000000 = Some (EInt 2) \<and> bach_float 0x4415AF1D78B58C40 = Some (EInt 1)"
proof -
  note show_f64_eval = show_f64_def show_magnitude_def show_significand_def show_fraction_def Let_def
    dec_exponent_def show_nat.simps round_half_even_def show_scaled_def strip_zeros_def
    with_fraction_def show_exponent_def
  have "digit_char 0 = CHR ''0''" "digit_char (Suc 0) = CHR ''1''" "digit_char 2 = CHR ''2''" by code_simp+
  moreover have "f64_exp 0x4415AF1D78B58C40 = 1089" "f64_man 0x4415AF1D78B58C40 = 0x5AF1D78B58C40"
    "\<not> f64_neg 0x4415AF1D78B58C40" "f64_exp 0x4000000000000000 = 1024" "f64_man 0x4000000000000000 = 0"
    "\<not> f64_neg 0x4000000000000000"
    by (simp_all add: f64_exp_def f64_man_def f64_neg_def)
  ultimately have "show_f64 0x4000000000000000 = ''2''" "show_f64 0x4415AF1D78B58C40 = ''1e+20''"
    by (simp_all add: show_f64_eval)
  moreover have "stol ''2'' = Some 2" "stol ''1e+20'' = Some 1" by code_simp+
  ultimately show ?thesis by (simp add: bach_float_def read_number_def)
qed

end
