(* ===== verification/Atlas_Net.thy ===== *)
theory Atlas_Net
  imports Atlas_Decoder "HOL-Library.Sublist"
begin

text \<open>
  \<open>libs/atlas/src/Atlas/Net\<close>: the negotiation of a codec (\<open>Stream.cpp\<close>: the line reader, the helper
  that reads offers, the client \<open>StreamConnect\<close> and the server \<open>StreamAccept\<close>) and the loopback
  bridge (\<open>Loopback.cpp\<close>). A stream is the text that is available on it; \<open>std::endl\<close> writes a
  newline. The two ends run in a network that carries bytes in order and in any pieces.
\<close>

section \<open>Lines\<close>

definition NL :: char where
  "NL = CHR 0x0A"

text \<open>\<open>get_line\<close>: the text before the first \<open>ch\<close>, which must not be the first character.\<close>

definition get_line :: "char \<Rightarrow> string \<Rightarrow> string \<times> string" where
  "get_line ch s =
     (let out = takeWhile (\<lambda>c. c \<noteq> ch) s in
      if ch \<in> set s \<and> out \<noteq> [] then (out, drop (length out + 1) s) else ([], s))"

text \<open>
  \<open>NegotiateHelper::get\<close>: the answer, the rest of the buffer, and the names collected so far.
  The buffer shrinks with every line.
\<close>

lemma get_line_length: "get_line ch s = (l, r) \<Longrightarrow> l \<noteq> [] \<Longrightarrow> length r < length s"
  by (cases s) (auto simp: get_line_def Let_def split: if_splits)

function helper_get :: "string \<Rightarrow> string \<Rightarrow> string list \<Rightarrow> bool \<times> string \<times> string list" where
  "helper_get hdr buf names =
     (if buf = [] then (False, buf, names)
      else if hd buf = NL then (True, tl buf, names)
      else case get_line NL buf of (s, buf') \<Rightarrow>
        if s = [] then (False, buf', names)
        else case get_line (CHR '' '') s of (h, s') \<Rightarrow>
          helper_get hdr buf' (if h = hdr then names @ [s'] else names))"
  by pat_completeness auto
termination
  by (relation "measure (\<lambda>(hdr, buf, names). length buf)")
     (auto dest: get_line_length [OF sym])

declare helper_get.simps [simp del]

definition helper_put :: "string \<Rightarrow> string" where
  "helper_put hdr = hdr @ '' Packed'' @ [NL] @ hdr @ '' XML'' @ [NL] @ hdr @ '' Bach'' @ [NL]
     @ hdr @ '' Gzip'' @ [NL] @ hdr @ '' Bzip2'' @ [NL] @ [NL]"

section \<open>The two ends\<close>

datatype net_state = SERVER_GREETING | CLIENT_GREETING | CLIENT_CODECS | SERVER_CODECS
  | CLIENT_FILTERS | SERVER_FILTERS | DONE

datatype negotiate_state = IN_PROGRESS | SUCCEEDED | FAILED

datatype codec_kind = PACKED | XML | BACH

record negotiator =
  ng_state :: net_state
  ng_out_name :: string
  ng_in_name :: string
  ng_in :: string
  ng_out :: string
  ng_in_ok :: bool
  ng_out_ok :: bool
  ng_in_codecs :: "string list"
  ng_in_filters :: "string list"
  ng_buf :: string
  ng_packed :: bool
  ng_xml :: bool
  ng_bach :: bool
  ng_gzip :: bool
  ng_bzip2 :: bool

definition negotiator_init :: "string \<Rightarrow> bool \<Rightarrow> negotiator" where
  "negotiator_init name can = \<lparr>ng_state = SERVER_GREETING, ng_out_name = name, ng_in_name = [],
     ng_in = [], ng_out = [], ng_in_ok = True, ng_out_ok = True, ng_in_codecs = [], ng_in_filters = [],
     ng_buf = [], ng_packed = can, ng_xml = can, ng_bach = can, ng_gzip = can, ng_bzip2 = can\<rparr>"

definition stream_connect :: "string \<Rightarrow> negotiator" where
  "stream_connect name = negotiator_init name True"

definition stream_accept :: "string \<Rightarrow> negotiator" where
  "stream_accept name = negotiator_init name False"

definition ng_write :: "string \<Rightarrow> negotiator \<Rightarrow> negotiator" where
  "ng_write t s = s\<lparr>ng_out := ng_out s @ t\<rparr>"

text \<open>The loops that move everything that is available into \<open>m_buf\<close>.\<close>

definition ng_fill :: "negotiator \<Rightarrow> negotiator" where
  "ng_fill s = s\<lparr>ng_buf := ng_buf s @ ng_in s, ng_in := []\<rparr>"

text \<open>\<open>processServerCodecs\<close> of the client and \<open>processClientCodecs\<close> of the server, and the same for filters.\<close>

definition process_codecs :: "negotiator \<Rightarrow> negotiator" where
  "process_codecs s = s\<lparr>ng_xml := ng_xml s \<or> ''XML'' \<in> set (ng_in_codecs s),
     ng_packed := ng_packed s \<or> ''Packed'' \<in> set (ng_in_codecs s),
     ng_bach := ng_bach s \<or> ''Bach'' \<in> set (ng_in_codecs s)\<rparr>"

definition process_filters :: "negotiator \<Rightarrow> negotiator" where
  "process_filters s = s\<lparr>ng_gzip := ng_gzip s \<or> ''Gzip'' \<in> set (ng_in_filters s),
     ng_bzip2 := ng_bzip2 s \<or> ''Bzip2'' \<in> set (ng_in_filters s)\<rparr>"

definition read_greeting :: "net_state \<Rightarrow> negotiator \<Rightarrow> negotiator" where
  "read_greeting nxt s =
     (if ng_buf s = [] then s
      else case get_line NL (ng_buf s) of (l, buf) \<Rightarrow>
        if l = [] then s\<lparr>ng_in_name := l, ng_buf := buf\<rparr>
        else s\<lparr>ng_in_name := l, ng_buf := buf, ng_state := nxt\<rparr>)"

definition connect_greeting :: "negotiator \<Rightarrow> negotiator" where
  "connect_greeting s = (if ng_state s = SERVER_GREETING then read_greeting CLIENT_GREETING s else s)"

definition connect_greet :: "negotiator \<Rightarrow> negotiator" where
  "connect_greet s =
     (if ng_state s = CLIENT_GREETING
      then (ng_write (''ATLAS '' @ ng_out_name s @ [NL]) s)\<lparr>ng_state := CLIENT_CODECS\<rparr> else s)"

definition connect_offer :: "negotiator \<Rightarrow> negotiator" where
  "connect_offer s =
     (if ng_state s = CLIENT_CODECS
      then (ng_write (helper_put ''ICAN'') s)\<lparr>ng_state := SERVER_CODECS\<rparr> else s)"

definition connect_answer :: "negotiator \<Rightarrow> negotiator" where
  "connect_answer s =
     (if ng_state s = SERVER_CODECS then
        (case helper_get ''IWILL'' (ng_buf s) (ng_in_codecs s) of (ok, buf, names) \<Rightarrow>
           let s1 = s\<lparr>ng_buf := buf, ng_in_codecs := names\<rparr> in
           if ok then (process_codecs s1)\<lparr>ng_state := DONE\<rparr> else s1)
      else s)"

definition connect_poll :: "negotiator \<Rightarrow> negotiator" where
  "connect_poll s = connect_answer (connect_offer (connect_greet (connect_greeting (ng_fill s))))"

definition accept_greet :: "negotiator \<Rightarrow> negotiator" where
  "accept_greet s =
     (if ng_state s = SERVER_GREETING
      then (ng_write (''ATLAS '' @ ng_out_name s @ [NL]) s)\<lparr>ng_state := CLIENT_GREETING\<rparr> else s)"

definition accept_greeting :: "negotiator \<Rightarrow> negotiator" where
  "accept_greeting s = (if ng_state s = CLIENT_GREETING then read_greeting CLIENT_CODECS s else s)"

definition accept_offer :: "negotiator \<Rightarrow> negotiator" where
  "accept_offer s =
     (if ng_state s = CLIENT_CODECS then
        (case helper_get ''ICAN'' (ng_buf s) (ng_in_codecs s) of (ok, buf, names) \<Rightarrow>
           let s1 = s\<lparr>ng_buf := buf, ng_in_codecs := names\<rparr> in
           process_codecs (if ok then s1\<lparr>ng_state := SERVER_CODECS\<rparr> else s1))
      else s)"

definition accept_answer :: "negotiator \<Rightarrow> negotiator" where
  "accept_answer s =
     (if ng_state s = SERVER_CODECS then
        (ng_write ((if ng_packed s then ''IWILL Packed'' @ [NL]
                    else if ng_xml s then ''IWILL XML'' @ [NL]
                    else if ng_bach s then ''IWILL Bach'' @ [NL] else []) @ [NL]) s)\<lparr>ng_state := DONE\<rparr>
      else s)"

definition accept_poll :: "negotiator \<Rightarrow> negotiator" where
  "accept_poll s = accept_answer (accept_offer (accept_greeting (ng_fill (accept_greet s))))"

definition get_state :: "negotiator \<Rightarrow> negotiate_state" where
  "get_state s =
     (if ng_state s = DONE then (if ng_packed s \<or> ng_xml s \<or> ng_bach s then SUCCEEDED else FAILED)
      else if ng_in_ok s \<or> ng_out_ok s then IN_PROGRESS else FAILED)"

definition get_codec :: "negotiator \<Rightarrow> codec_kind option" where
  "get_codec s = (if ng_packed s then Some PACKED else if ng_xml s then Some XML
     else if ng_bach s then Some BACH else None)"

lemmas connect_ops = connect_greeting_def connect_greet_def connect_offer_def connect_answer_def
lemmas accept_ops = accept_greeting_def accept_greet_def accept_offer_def accept_answer_def

section \<open>Lines in pieces\<close>

lemma takeWhile_line: "ch \<notin> set l \<Longrightarrow> takeWhile (\<lambda>c. c \<noteq> ch) (l @ ch # r) = l"
  by (induction l) auto

lemma get_line_at:
  assumes "NL \<notin> set l" and "l \<noteq> []"
  shows "get_line NL (l @ NL # r) = (l, r)"
  using assms by (simp add: get_line_def takeWhile_line Let_def)

lemma get_line_none: "NL \<notin> set s \<Longrightarrow> get_line NL s = ([], s)"
  by (simp add: get_line_def)

lemma get_line_some:
  assumes "get_line NL s = (l, r)" and "l \<noteq> []"
  shows "s = l @ NL # r" and "NL \<notin> set l"
proof -
  from assms have in_s: "NL \<in> set s" and l: "l = takeWhile (\<lambda>c. c \<noteq> NL) s" and r: "r = drop (length l + 1) s"
    by (auto simp: get_line_def Let_def split: if_splits)
  from in_s obtain xs ys where s: "s = xs @ NL # ys" "NL \<notin> set xs" by (meson split_list_first)
  then have "l = xs" using l by (simp add: takeWhile_line)
  with s r show "s = l @ NL # r" "NL \<notin> set l" by simp_all
qed

lemma helper_get_Nil [simp]: "helper_get hdr [] ns = (False, [], ns)"
  by (subst helper_get.simps) simp

lemma helper_get_end [simp]: "helper_get hdr (NL # r) ns = (True, r, ns)"
  by (subst helper_get.simps) simp

lemma helper_get_line:
  assumes "NL \<notin> set l" and "l \<noteq> []"
  shows "helper_get hdr (l @ NL # r) ns =
    helper_get hdr r (if fst (get_line (CHR '' '') l) = hdr then ns @ [snd (get_line (CHR '' '') l)] else ns)"
proof -
  have "hd (l @ NL # r) \<noteq> NL" using assms by (cases l) auto
  with assms show ?thesis
    by (subst helper_get.simps) (simp add: get_line_at split: prod.splits)
qed

lemma helper_get_partial:
  assumes "NL \<notin> set s"
  shows "helper_get hdr s ns = (False, s, ns)"
proof (cases s)
  case (Cons c t)
  with assms show ?thesis by (subst helper_get.simps) (auto simp: get_line_none)
qed simp

text \<open>A buffer is empty, a partial line, an empty line, or a line and more.\<close>

lemma buffer_cases:
  obtains (partial) "NL \<notin> set s" | (empty_line) r where "s = NL # r"
    | (line) l r where "s = l @ NL # r" "NL \<notin> set l" "l \<noteq> []"
proof (cases "NL \<in> set s")
  case True
  then obtain l r where "s = l @ NL # r" "NL \<notin> set l" by (meson split_list_first)
  with that show thesis by (cases "l = []") auto
qed (rule that(1))

lemma helper_get_resumes:
  "helper_get hdr b ns = (False, b', ns') \<Longrightarrow> helper_get hdr (b' @ c) ns' = helper_get hdr (b @ c) ns"
proof (induction "length b" arbitrary: b ns rule: less_induct)
  case less
  show ?case
  proof (cases b rule: buffer_cases)
    case partial
    with less.prems show ?thesis by (simp add: helper_get_partial)
  next
    case (empty_line r)
    with less.prems show ?thesis by simp
  next
    case (line l r)
    let ?ns = "if fst (get_line (CHR '' '') l) = hdr then ns @ [snd (get_line (CHR '' '') l)] else ns"
    have "helper_get hdr r ?ns = (False, b', ns')"
      using less.prems helper_get_line [OF line(2,3), of hdr r ns] line(1) by simp
    from less.hyps [OF _ this] line helper_get_line [OF line(2,3), of hdr "r @ c" ns]
    show ?thesis by simp
  qed
qed

lemma helper_get_found:
  "helper_get hdr b ns = (True, b', ns') \<Longrightarrow> helper_get hdr (b @ c) ns = (True, b' @ c, ns')"
proof (induction "length b" arbitrary: b ns rule: less_induct)
  case less
  show ?case
  proof (cases b rule: buffer_cases)
    case partial
    with less.prems show ?thesis by (simp add: helper_get_partial)
  next
    case (empty_line r)
    with less.prems show ?thesis by simp
  next
    case (line l r)
    let ?ns = "if fst (get_line (CHR '' '') l) = hdr then ns @ [snd (get_line (CHR '' '') l)] else ns"
    have "helper_get hdr r ?ns = (True, b', ns')"
      using less.prems helper_get_line [OF line(2,3), of hdr r ns] line(1) by simp
    from less.hyps [OF _ this] line helper_get_line [OF line(2,3), of hdr "r @ c" ns]
    show ?thesis by simp
  qed
qed

lemma line_prefix:
  assumes "b @ c = l @ NL # r" and "NL \<notin> set l"
  shows "NL \<notin> set b \<or> (\<exists>b'. b = l @ NL # b' \<and> b' @ c = r)"
  using assms by (auto simp: append_eq_append_conv2 append_eq_Cons_conv)

section \<open>The network\<close>

record network =
  nt_client :: negotiator
  nt_server :: negotiator

definition network_init :: "string \<Rightarrow> string \<Rightarrow> network" where
  "network_init cname sname = \<lparr>nt_client = stream_connect cname, nt_server = stream_accept sname\<rparr>"

text \<open>What one end has written and the other has not yet received is in \<open>ng_out\<close>.\<close>

definition carry :: "nat \<Rightarrow> negotiator \<Rightarrow> negotiator \<Rightarrow> negotiator \<times> negotiator" where
  "carry n a b = (a\<lparr>ng_out := drop n (ng_out a)\<rparr>, b\<lparr>ng_in := ng_in b @ take n (ng_out a)\<rparr>)"

inductive net_step :: "network \<Rightarrow> network \<Rightarrow> bool" where
  client_polls: "net_step w (w\<lparr>nt_client := connect_poll (nt_client w)\<rparr>)"
| server_polls: "net_step w (w\<lparr>nt_server := accept_poll (nt_server w)\<rparr>)"
| to_server: "carry n (nt_client w) (nt_server w) = (c, s) \<Longrightarrow> net_step w \<lparr>nt_client = c, nt_server = s\<rparr>"
| to_client: "carry n (nt_server w) (nt_client w) = (s, c) \<Longrightarrow> net_step w \<lparr>nt_client = c, nt_server = s\<rparr>"

inductive_cases net_stepE: "net_step w w'"

definition net_reachable :: "network \<Rightarrow> network \<Rightarrow> bool" where
  "net_reachable = net_step\<^sup>*\<^sup>*"

section \<open>The invariant of the handshake\<close>

text \<open>
  What each end sends altogether, and what it has still to send; an end is in order when what it has
  buffered, what is on its way and what the peer will send (\<open>x\<close>) is what it still expects.
\<close>

definition greeting :: "string \<Rightarrow> string" where
  "greeting name = ''ATLAS '' @ name @ [NL]"

definition offers :: "string list" where
  "offers = [''Packed'', ''XML'', ''Bach'', ''Gzip'', ''Bzip2'']"

definition client_future :: "negotiator \<Rightarrow> string" where
  "client_future c = (if ng_state c = SERVER_GREETING then greeting (ng_out_name c) @ helper_put ''ICAN'' else [])"

definition server_future :: "negotiator \<Rightarrow> string" where
  "server_future s = (if ng_state s = SERVER_GREETING then greeting (ng_out_name s) else [])
     @ (if ng_state s = DONE then [] else ''IWILL Packed'' @ [NL, NL])"

definition server_ok :: "string \<Rightarrow> string \<Rightarrow> negotiator \<Rightarrow> bool" where
  "server_ok cname x s \<longleftrightarrow> NL \<notin> set (ng_out_name s) \<and>
     (let rest = ng_buf s @ ng_in s @ x in
      case ng_state s of
        SERVER_GREETING \<Rightarrow> rest = greeting cname @ helper_put ''ICAN'' \<and> ng_in_codecs s = []
      | CLIENT_GREETING \<Rightarrow> rest = greeting cname @ helper_put ''ICAN'' \<and> ng_in_codecs s = []
      | CLIENT_CODECS \<Rightarrow> helper_get ''ICAN'' rest (ng_in_codecs s) = (True, [], offers)
          \<and> ng_in_name s = ''ATLAS '' @ cname
      | DONE \<Rightarrow> rest = [] \<and> ng_packed s \<and> ng_in_name s = ''ATLAS '' @ cname
      | _ \<Rightarrow> False)"

definition client_ok :: "string \<Rightarrow> string \<Rightarrow> negotiator \<Rightarrow> bool" where
  "client_ok sname x c \<longleftrightarrow> NL \<notin> set (ng_out_name c) \<and> ng_packed c \<and>
     (let rest = ng_buf c @ ng_in c @ x in
      case ng_state c of
        SERVER_GREETING \<Rightarrow> rest = greeting sname @ ''IWILL Packed'' @ [NL, NL] \<and> ng_in_codecs c = []
      | SERVER_CODECS \<Rightarrow> helper_get ''IWILL'' rest (ng_in_codecs c) = (True, [], [''Packed''])
          \<and> ng_in_name c = ''ATLAS '' @ sname
      | DONE \<Rightarrow> rest = [] \<and> ng_in_codecs c = [''Packed''] \<and> ng_in_name c = ''ATLAS '' @ sname
      | _ \<Rightarrow> False)"

lemma helper_get_offers: "helper_get ''ICAN'' (helper_put ''ICAN'') [] = (True, [], offers)"
proof -
  have "helper_get ''ICAN'' (''ICAN '' @ n @ NL # r) ns = helper_get ''ICAN'' r (ns @ [n])" if "NL \<notin> set n" for n r ns
    using helper_get_line [of "''ICAN '' @ n" "''ICAN''" r ns] that by (simp add: NL_def get_line_def Let_def)
  note line = this [of "''Packed''"] this [of "''XML''"] this [of "''Bach''"] this [of "''Gzip''"] this [of "''Bzip2''"]
  show ?thesis
    using line by (simp add: helper_put_def offers_def NL_def helper_get_end [unfolded NL_def])
qed

lemma helper_get_answer: "helper_get ''IWILL'' (''IWILL Packed'' @ [NL, NL]) [] = (True, [], [''Packed''])"
  using helper_get_line [of "''IWILL Packed''" "''IWILL''" "[NL]" "[]"]
  by (simp add: NL_def get_line_def Let_def helper_get_end [unfolded NL_def])

lemma helper_get_partial_text:
  assumes "helper_get hdr (b @ x) ns = (True, [], full)"
  shows "case helper_get hdr b ns of (ok, b', ns') \<Rightarrow>
    if ok then b' = [] \<and> x = [] \<and> ns' = full else helper_get hdr (b' @ x) ns' = (True, [], full)"
proof -
  obtain ok b' ns' where r: "helper_get hdr b ns = (ok, b', ns')" by (cases "helper_get hdr b ns")
  with helper_get_found [of hdr b ns b' ns' x] helper_get_resumes [of hdr b ns b' ns' x] assms
  show ?thesis by (cases ok) auto
qed

lemma read_greeting_cases:
  assumes "ng_buf s @ x = greeting name @ r" and "NL \<notin> set name"
  shows "read_greeting nxt s = s\<lparr>ng_in_name := ng_in_name (read_greeting nxt s)\<rparr>
    \<or> (\<exists>b. read_greeting nxt s = s\<lparr>ng_in_name := ''ATLAS '' @ name, ng_buf := b, ng_state := nxt\<rparr> \<and> b @ x = r)"
proof -
  let ?l = "''ATLAS '' @ name"
  have l: "NL \<notin> set ?l" "?l \<noteq> []" using assms(2) by (auto simp: NL_def)
  from assms(1) have "ng_buf s @ x = ?l @ NL # r" by (simp add: greeting_def)
  from line_prefix [OF this l(1)] show ?thesis
  proof
    assume "NL \<notin> set (ng_buf s)"
    then show ?thesis by (cases s) (simp add: read_greeting_def get_line_none)
  next
    assume "\<exists>b'. ng_buf s = ?l @ NL # b' \<and> b' @ x = r"
    then obtain b' where b': "ng_buf s = ?l @ NL # b'" "b' @ x = r" by auto
    then have "read_greeting nxt s = s\<lparr>ng_in_name := ?l, ng_buf := b', ng_state := nxt\<rparr>"
      using get_line_at [OF l] by (simp add: read_greeting_def)
    with b'(2) show ?thesis by blast
  qed
qed

lemma accept_offer_ok:
  assumes "ng_state s = CLIENT_CODECS" and "helper_get ''ICAN'' (ng_buf s @ x) (ng_in_codecs s) = (True, [], offers)"
    and "ng_in s = []" and "NL \<notin> set (ng_out_name s)" and "ng_in_name s = ''ATLAS '' @ cname"
  shows "server_ok cname x (accept_answer (accept_offer s))
    \<and> ng_out (accept_answer (accept_offer s)) @ server_future (accept_answer (accept_offer s)) = ng_out s @ server_future s
    \<and> ng_state (accept_answer (accept_offer s)) \<noteq> SERVER_GREETING
    \<and> (x = [] \<longrightarrow> ng_state (accept_answer (accept_offer s)) = DONE)"
proof -
  obtain ok b' ns' where r: "helper_get ''ICAN'' (ng_buf s) (ng_in_codecs s) = (ok, b', ns')"
    by (cases "helper_get ''ICAN'' (ng_buf s) (ng_in_codecs s)")
  note res = helper_get_partial_text [OF assms(2), unfolded r]
  have "x = [] \<longrightarrow> ok" using assms(2) r by auto
  show ?thesis
  proof (cases ok)
    case True
    with res r assms show ?thesis
      by (simp add: accept_ops process_codecs_def server_ok_def ng_write_def offers_def server_future_def Let_def)
  next
    case False
    with res r assms \<open>x = [] \<longrightarrow> ok\<close> show ?thesis
      by (simp add: accept_ops process_codecs_def server_ok_def server_future_def Let_def)
  qed
qed

lemma accept_poll_ok:
  assumes ok: "server_ok cname x s" and name: "NL \<notin> set cname"
  shows "server_ok cname x (accept_poll s)
    \<and> ng_out (accept_poll s) @ server_future (accept_poll s) = ng_out s @ server_future s
    \<and> ng_state (accept_poll s) \<noteq> SERVER_GREETING
    \<and> (x = [] \<longrightarrow> ng_state (accept_poll s) = DONE)"
proof (cases "ng_state s = SERVER_GREETING \<or> ng_state s = CLIENT_GREETING")
  case True
  let ?s = "ng_fill (accept_greet s)"
  let ?g = "read_greeting CLIENT_CODECS ?s"
  from True ok have s: "ng_state ?s = CLIENT_GREETING" "ng_in ?s = []" "ng_in_codecs ?s = []"
    "NL \<notin> set (ng_out_name ?s)" "ng_buf ?s @ x = greeting cname @ helper_put ''ICAN''"
    "ng_out ?s @ server_future ?s = ng_out s @ server_future s"
    by (auto simp: server_ok_def ng_fill_def accept_greet_def ng_write_def server_future_def greeting_def Let_def)
  have poll: "accept_poll s = accept_answer (accept_offer ?g)"
    using s(1) by (simp add: accept_poll_def accept_greeting_def)
  from read_greeting_cases [OF s(5) name, of CLIENT_CODECS] show ?thesis
  proof
    assume g: "?g = ?s\<lparr>ng_in_name := ng_in_name ?g\<rparr>"
    obtain nm where g': "?g = ?s\<lparr>ng_in_name := nm\<rparr>" using g by auto
    have "x \<noteq> []"
    proof
      assume "x = []"
      with s(5) have "ng_buf ?s = (''ATLAS '' @ cname) @ NL # helper_put ''ICAN''" by (simp add: greeting_def)
      moreover have "NL \<notin> set (''ATLAS '' @ cname)" using name by (auto simp: NL_def)
      ultimately have "ng_state ?g = CLIENT_CODECS"
        using get_line_at [of "''ATLAS '' @ cname" "helper_put ''ICAN''"] by (simp add: read_greeting_def)
      with g' s(1) show False by simp
    qed
    with s show ?thesis
      unfolding poll g' by (simp add: accept_offer_def accept_answer_def server_ok_def server_future_def Let_def)
  next
    assume "\<exists>b. ?g = ?s\<lparr>ng_in_name := ''ATLAS '' @ cname, ng_buf := b, ng_state := CLIENT_CODECS\<rparr> \<and> b @ x = helper_put ''ICAN''"
    then obtain b where b: "?g = ?s\<lparr>ng_in_name := ''ATLAS '' @ cname, ng_buf := b, ng_state := CLIENT_CODECS\<rparr>"
      "b @ x = helper_put ''ICAN''" by auto
    have "server_ok cname x (accept_answer (accept_offer ?g))
      \<and> ng_out (accept_answer (accept_offer ?g)) @ server_future (accept_answer (accept_offer ?g)) = ng_out ?g @ server_future ?g
      \<and> ng_state (accept_answer (accept_offer ?g)) \<noteq> SERVER_GREETING
      \<and> (x = [] \<longrightarrow> ng_state (accept_answer (accept_offer ?g)) = DONE)"
      by (rule accept_offer_ok) (use b s helper_get_offers in simp_all)
    moreover have "ng_out ?g @ server_future ?g = ng_out s @ server_future s"
      using s(1,6) b(1) by (simp add: server_future_def)
    ultimately show ?thesis
      unfolding poll by (auto simp: server_ok_def Let_def)
  qed
next
  case False
  show ?thesis
  proof (cases "ng_state s = CLIENT_CODECS")
    case True
    let ?s = "ng_fill s"
    have "accept_poll s = accept_answer (accept_offer ?s)"
      using True by (simp add: accept_poll_def accept_greet_def accept_greeting_def ng_fill_def)
    moreover have "server_ok cname x (accept_answer (accept_offer ?s))
      \<and> ng_out (accept_answer (accept_offer ?s)) @ server_future (accept_answer (accept_offer ?s)) = ng_out ?s @ server_future ?s
      \<and> ng_state (accept_answer (accept_offer ?s)) \<noteq> SERVER_GREETING
      \<and> (x = [] \<longrightarrow> ng_state (accept_answer (accept_offer ?s)) = DONE)"
      by (rule accept_offer_ok) (use True ok in \<open>simp_all add: server_ok_def ng_fill_def Let_def\<close>)
    ultimately show ?thesis by (auto simp: server_ok_def server_future_def ng_fill_def Let_def)
  next
    case fin: False
    with False ok have "ng_state s = DONE" by (auto simp: server_ok_def Let_def split: net_state.splits)
    with ok show ?thesis
      by (simp add: accept_poll_def accept_ops server_ok_def ng_fill_def server_future_def Let_def)
  qed
qed

lemma connect_answer_ok:
  assumes "ng_state c = SERVER_CODECS" and "helper_get ''IWILL'' (ng_buf c @ x) (ng_in_codecs c) = (True, [], [''Packed''])"
    and "ng_in c = []" and "NL \<notin> set (ng_out_name c)" and "ng_in_name c = ''ATLAS '' @ sname" and "ng_packed c"
  shows "client_ok sname x (connect_answer c) \<and> ng_out (connect_answer c) = ng_out c
    \<and> client_future (connect_answer c) = [] \<and> ng_state (connect_answer c) \<noteq> SERVER_GREETING
    \<and> (x = [] \<longrightarrow> ng_state (connect_answer c) = DONE)"
proof -
  obtain ok b' ns' where r: "helper_get ''IWILL'' (ng_buf c) (ng_in_codecs c) = (ok, b', ns')"
    by (cases "helper_get ''IWILL'' (ng_buf c) (ng_in_codecs c)")
  note res = helper_get_partial_text [OF assms(2), unfolded r]
  have "x = [] \<longrightarrow> ok" using assms(2) r by auto
  show ?thesis
  proof (cases ok)
    case True
    with res r assms show ?thesis
      by (simp add: connect_answer_def process_codecs_def client_ok_def client_future_def Let_def)
  next
    case False
    with res r assms \<open>x = [] \<longrightarrow> ok\<close> show ?thesis
      by (simp add: connect_answer_def client_ok_def client_future_def Let_def)
  qed
qed

text \<open>The client leaves its first state as soon as the server's greeting has arrived.\<close>

definition answer_only :: "string \<Rightarrow> bool" where
  "answer_only x \<longleftrightarrow> x = [] \<or> x = ''IWILL Packed'' @ [NL, NL]"

lemma connect_poll_ok:
  assumes ok: "client_ok sname x c" and name: "NL \<notin> set sname"
  shows "client_ok sname x (connect_poll c)
    \<and> ng_out (connect_poll c) @ client_future (connect_poll c) = ng_out c @ client_future c
    \<and> (answer_only x \<longrightarrow> ng_state (connect_poll c) \<noteq> SERVER_GREETING)
    \<and> (x = [] \<longrightarrow> ng_state (connect_poll c) = DONE)"
proof (cases "ng_state c = SERVER_GREETING")
  case True
  let ?c = "ng_fill c"
  let ?g = "read_greeting CLIENT_GREETING ?c"
  from True ok have c: "ng_state ?c = SERVER_GREETING" "ng_in ?c = []" "ng_in_codecs ?c = []" "ng_packed ?c"
    "NL \<notin> set (ng_out_name ?c)" "ng_buf ?c @ x = greeting sname @ ''IWILL Packed'' @ [NL, NL]"
    "ng_out ?c = ng_out c" "ng_out_name ?c = ng_out_name c"
    by (auto simp: client_ok_def ng_fill_def greeting_def Let_def)
  have poll: "connect_poll c = connect_answer (connect_offer (connect_greet ?g))"
    using c(1) by (simp add: connect_poll_def connect_greeting_def)
  from read_greeting_cases [OF c(6) name, of CLIENT_GREETING] show ?thesis
  proof
    assume g: "?g = ?c\<lparr>ng_in_name := ng_in_name ?g\<rparr>"
    obtain nm where g': "?g = ?c\<lparr>ng_in_name := nm\<rparr>" using g by auto
    have "\<not> answer_only x"
    proof
      assume "answer_only x"
      with c(6) obtain b where "ng_buf ?c = (''ATLAS '' @ sname) @ NL # b"
        by (auto simp: answer_only_def greeting_def)
      moreover have "NL \<notin> set (''ATLAS '' @ sname)" using name by (auto simp: NL_def)
      ultimately have "ng_state ?g = CLIENT_GREETING"
        using get_line_at [of "''ATLAS '' @ sname" b] by (simp add: read_greeting_def)
      with g' c(1) show False by simp
    qed
    with c True show ?thesis
      unfolding poll g'
      by (simp add: connect_greet_def connect_offer_def connect_answer_def client_ok_def client_future_def
          answer_only_def Let_def)
  next
    assume "\<exists>b. ?g = ?c\<lparr>ng_in_name := ''ATLAS '' @ sname, ng_buf := b, ng_state := CLIENT_GREETING\<rparr>
      \<and> b @ x = ''IWILL Packed'' @ [NL, NL]"
    then obtain b where b: "?g = ?c\<lparr>ng_in_name := ''ATLAS '' @ sname, ng_buf := b, ng_state := CLIENT_GREETING\<rparr>"
      "b @ x = ''IWILL Packed'' @ [NL, NL]" by auto
    let ?o = "connect_offer (connect_greet ?g)"
    have o: "ng_out ?o = ng_out c @ client_future c"
      using b c True by (simp add: connect_greet_def connect_offer_def ng_write_def client_future_def greeting_def)
    have "client_ok sname x (connect_answer ?o) \<and> ng_out (connect_answer ?o) = ng_out ?o
      \<and> client_future (connect_answer ?o) = [] \<and> ng_state (connect_answer ?o) \<noteq> SERVER_GREETING
      \<and> (x = [] \<longrightarrow> ng_state (connect_answer ?o) = DONE)"
      by (rule connect_answer_ok)
         (use b c helper_get_answer in \<open>simp_all add: connect_greet_def connect_offer_def ng_write_def\<close>)
    with o show ?thesis unfolding poll by simp
  qed
next
  case False
  show ?thesis
  proof (cases "ng_state c = SERVER_CODECS")
    case True
    let ?c = "ng_fill c"
    have poll: "connect_poll c = connect_answer ?c"
      using True by (simp add: connect_poll_def connect_greeting_def connect_greet_def connect_offer_def ng_fill_def)
    have "client_ok sname x (connect_answer ?c) \<and> ng_out (connect_answer ?c) = ng_out ?c
      \<and> client_future (connect_answer ?c) = [] \<and> ng_state (connect_answer ?c) \<noteq> SERVER_GREETING
      \<and> (x = [] \<longrightarrow> ng_state (connect_answer ?c) = DONE)"
      by (rule connect_answer_ok) (use True ok in \<open>simp_all add: client_ok_def ng_fill_def Let_def\<close>)
    with True show ?thesis unfolding poll by (simp add: client_future_def ng_fill_def)
  next
    case fin: False
    with False ok have "ng_state c = DONE" by (auto simp: client_ok_def Let_def split: net_state.splits)
    with ok show ?thesis
      by (simp add: connect_poll_def connect_ops client_ok_def ng_fill_def client_future_def Let_def)
  qed
qed

definition net_ok :: "string \<Rightarrow> string \<Rightarrow> network \<Rightarrow> bool" where
  "net_ok cname sname w \<longleftrightarrow>
     server_ok cname (ng_out (nt_client w) @ client_future (nt_client w)) (nt_server w)
     \<and> client_ok sname (ng_out (nt_server w) @ server_future (nt_server w)) (nt_client w)"

lemma net_ok_init:
  assumes "NL \<notin> set cname" and "NL \<notin> set sname"
  shows "net_ok cname sname (network_init cname sname)"
  using assms by (simp add: net_ok_def network_init_def stream_connect_def stream_accept_def negotiator_init_def
      server_ok_def client_ok_def client_future_def server_future_def)

lemma channel_simps [simp]:
  "server_ok cname x (s\<lparr>ng_in := ng_in s @ t\<rparr>) = server_ok cname (t @ x) s"
  "server_ok cname x (s\<lparr>ng_out := u\<rparr>) = server_ok cname x s"
  "client_ok sname x (c\<lparr>ng_in := ng_in c @ t\<rparr>) = client_ok sname (t @ x) c"
  "client_ok sname x (c\<lparr>ng_out := u\<rparr>) = client_ok sname x c"
  by (simp_all add: server_ok_def client_ok_def Let_def split: net_state.splits)

lemma future_simps [simp]:
  "client_future (c\<lparr>ng_in := t\<rparr>) = client_future c" "client_future (c\<lparr>ng_out := t\<rparr>) = client_future c"
  "server_future (c\<lparr>ng_in := t\<rparr>) = server_future c" "server_future (c\<lparr>ng_out := t\<rparr>) = server_future c"
  by (simp_all add: client_future_def server_future_def)

lemma take_drop_append: "take n xs @ drop n xs @ ys = xs @ ys"
  by (metis append_assoc append_take_drop_id)

lemma net_ok_step:
  assumes names: "NL \<notin> set cname" "NL \<notin> set sname" and step: "net_step w w'" and ok: "net_ok cname sname w"
  shows "net_ok cname sname w'"
  using step
proof (cases rule: net_step.cases)
  case client_polls
  with ok connect_poll_ok [OF _ names(2)] show ?thesis by (auto simp: net_ok_def)
next
  case server_polls
  with ok accept_poll_ok [OF _ names(1)] show ?thesis by (auto simp: net_ok_def)
next
  case (to_server n c s)
  with ok show ?thesis by (auto simp: net_ok_def carry_def take_drop_append)
next
  case (to_client n s c)
  with ok show ?thesis by (auto simp: net_ok_def carry_def take_drop_append)
qed

lemma net_ok_reachable:
  assumes names: "NL \<notin> set cname" "NL \<notin> set sname" and r: "net_reachable (network_init cname sname) w"
  shows "net_ok cname sname w"
  using r unfolding net_reachable_def
  by (induction rule: rtranclp_induct) (use net_ok_init [OF names] net_ok_step [OF names] in blast)+

section \<open>A round of the network\<close>

text \<open>The server polls, all its text arrives, the client polls, all its text arrives.\<close>

definition net_round :: "network \<Rightarrow> network" where
  "net_round w =
     (let s1 = accept_poll (nt_server w);
          (s2, c1) = carry (length (ng_out s1)) s1 (nt_client w);
          c2 = connect_poll c1;
          (c3, s3) = carry (length (ng_out c2)) c2 s2
      in \<lparr>nt_client = c3, nt_server = s3\<rparr>)"

lemma net_round_steps: "net_step\<^sup>*\<^sup>* w (net_round w)"
proof -
  let ?w1 = "w\<lparr>nt_server := accept_poll (nt_server w)\<rparr>"
  obtain s2 c1 where c1: "carry (length (ng_out (nt_server ?w1))) (nt_server ?w1) (nt_client ?w1) = (s2, c1)"
    by (cases "carry (length (ng_out (nt_server ?w1))) (nt_server ?w1) (nt_client ?w1)")
  let ?w3 = "\<lparr>nt_client = c1, nt_server = s2\<rparr>\<lparr>nt_client := connect_poll c1\<rparr>"
  obtain c3 s3 where c3: "carry (length (ng_out (nt_client ?w3))) (nt_client ?w3) (nt_server ?w3) = (c3, s3)"
    by (cases "carry (length (ng_out (nt_client ?w3))) (nt_client ?w3) (nt_server ?w3)")
  have "net_step w ?w1" by (rule server_polls)
  moreover have "net_step ?w1 \<lparr>nt_client = c1, nt_server = s2\<rparr>" by (rule to_client [OF c1])
  moreover have "net_step \<lparr>nt_client = c1, nt_server = s2\<rparr> ?w3"
    using client_polls [of "\<lparr>nt_client = c1, nt_server = s2\<rparr>"] by simp
  moreover have "net_step ?w3 \<lparr>nt_client = c3, nt_server = s3\<rparr>" by (rule to_server [OF c3])
  ultimately have "net_step\<^sup>*\<^sup>* w \<lparr>nt_client = c3, nt_server = s3\<rparr>"
    by (meson converse_rtranclp_into_rtranclp rtranclp.rtrancl_refl)
  then show ?thesis using c1 c3 by (simp add: net_round_def Let_def)
qed

lemma net_ok_steps:
  assumes names: "NL \<notin> set cname" "NL \<notin> set sname" and ok: "net_ok cname sname w" and steps: "net_step\<^sup>*\<^sup>* w w'"
  shows "net_ok cname sname w'"
  using steps by (induction rule: rtranclp_induct) (use ok net_ok_step [OF names] in blast)+

text \<open>After a round the client has greeted and nothing is under way to the server.\<close>

definition greeted :: "network \<Rightarrow> bool" where
  "greeted w \<longleftrightarrow> ng_state (nt_client w) \<noteq> SERVER_GREETING \<and> ng_out (nt_client w) = []"

lemma net_round_progress:
  assumes names: "NL \<notin> set cname" "NL \<notin> set sname" and ok: "net_ok cname sname w"
  shows "greeted (net_round w)"
    and "greeted w \<Longrightarrow> ng_state (nt_client (net_round w)) = DONE \<and> ng_state (nt_server (net_round w)) = DONE"
proof -
  let ?x = "ng_out (nt_client w) @ client_future (nt_client w)"
  let ?s = "accept_poll (nt_server w)"
  let ?c = "connect_poll ((nt_client w)\<lparr>ng_in := ng_in (nt_client w) @ ng_out ?s\<rparr>)"
  let ?y = "server_future ?s"
  have round: "nt_client (net_round w) = ?c\<lparr>ng_out := []\<rparr>"
    "nt_server (net_round w) = ?s\<lparr>ng_out := [], ng_in := ng_in ?s @ ng_out ?c\<rparr>"
    by (simp_all add: net_round_def carry_def Let_def)
  from ok accept_poll_ok [OF _ names(1), of ?x "nt_server w"]
  have s: "ng_out ?s @ ?y = ng_out (nt_server w) @ server_future (nt_server w)"
    "ng_state ?s \<noteq> SERVER_GREETING" "?x = [] \<longrightarrow> ng_state ?s = DONE" by (auto simp: net_ok_def)
  from ok s(1) have "client_ok sname ?y ((nt_client w)\<lparr>ng_in := ng_in (nt_client w) @ ng_out ?s\<rparr>)"
    by (simp add: net_ok_def)
  moreover have "answer_only ?y" using s(2) by (simp add: answer_only_def server_future_def)
  ultimately have c: "ng_state ?c \<noteq> SERVER_GREETING" "?y = [] \<longrightarrow> ng_state ?c = DONE"
    using connect_poll_ok [OF _ names(2)] by blast+
  with round show "greeted (net_round w)" by (simp add: greeted_def)
  show "ng_state (nt_client (net_round w)) = DONE \<and> ng_state (nt_server (net_round w)) = DONE" if "greeted w"
  proof -
    have "?x = []" using that by (simp add: greeted_def client_future_def)
    with s(3) have "ng_state ?s = DONE" by simp
    moreover from this c(2) have "ng_state ?c = DONE" by (simp add: server_future_def)
    ultimately show ?thesis by (simp add: round)
  qed
qed

section \<open>What the negotiation guarantees\<close>

lemma two_rounds_done:
  assumes "NL \<notin> set cname" and "NL \<notin> set sname" and "net_reachable (network_init cname sname) w"
  shows "net_reachable w (net_round (net_round w))
    \<and> ng_state (nt_client (net_round (net_round w))) = DONE
    \<and> ng_state (nt_server (net_round (net_round w))) = DONE"
proof -
  note ok = net_ok_reachable [OF assms]
  have "net_ok cname sname (net_round w)"
    using net_ok_steps [OF assms(1,2) ok net_round_steps] .
  with net_round_progress [OF assms(1,2)] ok net_round_steps [of w] net_round_steps [of "net_round w"]
  show ?thesis unfolding net_reachable_def by auto
qed

text \<open>
  C3: the handshake is safe under every schedule. In any state that a client and a server can reach from
  the start, with polls in any order and the bytes carried in pieces of any length: an end that is
  done has succeeded, its codec is Packed, it knows the name of its peer, and it has consumed
  exactly the negotiation, so no byte meant for the codec is in its buffer.
\<close>

theorem handshake_safe:
  assumes "NL \<notin> set cname" and "NL \<notin> set sname" and "net_reachable (network_init cname sname) w"
  shows "(ng_state (nt_server w) = DONE \<longrightarrow> get_state (nt_server w) = SUCCEEDED
        \<and> get_codec (nt_server w) = Some PACKED \<and> ng_in_name (nt_server w) = ''ATLAS '' @ cname
        \<and> ng_buf (nt_server w) = [])
    \<and> (ng_state (nt_client w) = DONE \<longrightarrow> get_state (nt_client w) = SUCCEEDED
        \<and> get_codec (nt_client w) = Some PACKED \<and> ng_in_name (nt_client w) = ''ATLAS '' @ sname
        \<and> ng_in_codecs (nt_client w) = [''Packed''] \<and> ng_buf (nt_client w) = [])"
  using net_ok_reachable [OF assms]
  by (intro conjI impI) (simp_all add: net_ok_def server_ok_def client_ok_def get_state_def get_codec_def Let_def)

theorem handshake_safe_witness:
  "ng_state (nt_client (net_round (net_round (network_init ''c'' ''s'')))) = DONE
   \<and> get_codec (nt_client (net_round (net_round (network_init ''c'' ''s'')))) = Some PACKED"
proof -
  have names: "NL \<notin> set ''c''" "NL \<notin> set ''s''" by (simp_all add: NL_def)
  have "net_reachable (network_init ''c'' ''s'') (network_init ''c'' ''s'')" by (simp add: net_reachable_def)
  from two_rounds_done [OF names this] handshake_safe [OF names, of "net_round (net_round (network_init ''c'' ''s''))"]
  show ?thesis by blast
qed

text \<open>
  C4: the handshake can always be completed. From every state a client and a server can reach, two rounds of
  polls with the text delivered bring both ends to the end of the negotiation; the network has no
  deadlock and never has to be started again.
\<close>

theorem handshake_completes:
  assumes "NL \<notin> set cname" and "NL \<notin> set sname" and "net_reachable (network_init cname sname) w"
  shows "net_reachable w (net_round (net_round w))
    \<and> ng_state (nt_client (net_round (net_round w))) = DONE
    \<and> ng_state (nt_server (net_round (net_round w))) = DONE"
  by (rule two_rounds_done [OF assms])

theorem handshake_completes_witness:
  "ng_state (nt_client (net_round (net_round (network_init ''c'' ''s'')))) = DONE"
  using handshake_completes [of "''c''" "''s''" "network_init ''c'' ''s''"]
  by (simp add: net_reachable_def NL_def)

text \<open>
  Reading offers does not depend on how the text is cut. When \<open>get\<close> runs out of complete lines,
  calling it again on what it left, extended by the text that has arrived since, is calling it once on the
  whole text; when it finds the end, later text stays in the buffer untouched.
\<close>

theorem offers_in_pieces:
  assumes "helper_get hdr b ns = (ok, b', ns')"
  shows "helper_get hdr (b @ c) ns = (if ok then (True, b' @ c, ns') else helper_get hdr (b' @ c) ns')"
  using helper_get_resumes [of hdr b ns b' ns' c] helper_get_found [of hdr b ns b' ns' c] assms by (cases ok) auto

theorem offers_in_pieces_witness:
  "helper_get ''ICAN'' (''ICAN XM'' @ ''L'' @ [NL, NL]) [] = helper_get ''ICAN'' (''ICAN XM'' @ ''L'' @ [NL, NL]) []
    \<and> helper_get ''ICAN'' ''ICAN XM'' [] = (False, ''ICAN XM'', [])"
proof -
  have p: "helper_get ''ICAN'' ''ICAN XM'' [] = (False, ''ICAN XM'', [])"
    by (rule helper_get_partial) (simp add: NL_def)
  from offers_in_pieces [OF p, of "''L'' @ [NL, NL]"] p show ?thesis by simp
qed

text \<open>
  The client does not follow the server's choice. Whatever single codec the server says it will use,
  the client that has read the answer is done and picks Packed, because its \<open>can\<close> flags start true
  and the answer only sets flags. (The documentation of \<open>StreamConnect\<close> says that the server
  tells the client which codec to use.)
\<close>

theorem client_ignores_choice:
  assumes "NL \<notin> set sname" and "NL \<notin> set codec"
    and "c = connect_poll ((stream_connect cname)\<lparr>ng_in := greeting sname @ ''IWILL '' @ codec @ [NL, NL]\<rparr>)"
  shows "ng_state c = DONE \<and> ng_in_codecs c = [codec] \<and> get_codec c = Some PACKED"
proof -
  have "NL \<notin> set (''ATLAS '' @ sname)" "NL \<notin> set (''IWILL '' @ codec)" using assms(1,2) by (auto simp: NL_def)
  moreover have "get_line (CHR '' '') (''IWILL '' @ codec) = (''IWILL'', codec)"
    by (simp add: get_line_def)
  ultimately show ?thesis
    unfolding assms(3)
    using get_line_at [of "''ATLAS '' @ sname" "''IWILL '' @ codec @ [NL, NL]"]
      helper_get_line [of "''IWILL '' @ codec" "''IWILL''" "[NL]" "[]"]
    by (simp add: connect_poll_def connect_ops ng_fill_def stream_connect_def negotiator_init_def greeting_def
        read_greeting_def ng_write_def process_codecs_def get_codec_def)
qed

theorem client_ignores_choice_witness:
  "get_codec (connect_poll ((stream_connect ''c'')\<lparr>ng_in := greeting ''s'' @ ''IWILL '' @ ''XML'' @ [NL, NL]\<rparr>)) = Some PACKED"
  using client_ignores_choice [of "''s''" "''XML''" _ "''c''"] by (simp add: NL_def)

section \<open>Loopback\<close>

text \<open>\<open>LoopBridge\<close> passes every call on to the bridge behind it.\<close>

fun loop_bridge :: "('b \<Rightarrow> bridge_call \<Rightarrow> 'e + 'b) \<Rightarrow> 'b \<Rightarrow> bridge_call \<Rightarrow> 'e + 'b" where
  "loop_bridge bridge b StreamBegin = bridge b StreamBegin"
| "loop_bridge bridge b StreamMessage = bridge b StreamMessage"
| "loop_bridge bridge b StreamEnd = bridge b StreamEnd"
| "loop_bridge bridge b (MapMapItem n) = bridge b (MapMapItem n)"
| "loop_bridge bridge b (MapListItem n) = bridge b (MapListItem n)"
| "loop_bridge bridge b (MapIntItem n i) = bridge b (MapIntItem n i)"
| "loop_bridge bridge b (MapFloatItem n d) = bridge b (MapFloatItem n d)"
| "loop_bridge bridge b (MapStringItem n v) = bridge b (MapStringItem n v)"
| "loop_bridge bridge b (MapNoneItem n) = bridge b (MapNoneItem n)"
| "loop_bridge bridge b MapEnd = bridge b MapEnd"
| "loop_bridge bridge b ListMapItem = bridge b ListMapItem"
| "loop_bridge bridge b ListListItem = bridge b ListListItem"
| "loop_bridge bridge b (ListIntItem i) = bridge b (ListIntItem i)"
| "loop_bridge bridge b (ListFloatItem d) = bridge b (ListFloatItem d)"
| "loop_bridge bridge b (ListStringItem v) = bridge b (ListStringItem v)"
| "loop_bridge bridge b ListNoneItem = bridge b ListNoneItem"
| "loop_bridge bridge b ListEnd = bridge b ListEnd"

lemma loop_bridge_same: "loop_bridge bridge b c = bridge b c"
  by (cases c) simp_all

text \<open>
  Two components joined by the loopback exchange messages exactly: every message without pointers,
  streamed to a loopback bridge in front of a decoder, is in the decoder's queue, with no
  restriction on names, strings or floats.
\<close>

theorem loopback_delivers:
  assumes "list_all message_ok msgs" and "list_all plain_message msgs"
  shows "\<exists>d. run_steps (loop_bridge decoder_step) decoder_init (StreamBegin # concat (map stream_message_element msgs)) = Inr d
    \<and> d_queue d = msgs"
proof -
  have "loop_bridge decoder_step = decoder_step" by (intro ext) (rule loop_bridge_same)
  moreover have "map (entries_arrive (\<lambda>d. Some (EFloat d))) msgs = msgs"
    using assms(2) by (induction msgs) (auto simp: plain_message_def exact_arrives)
  ultimately show ?thesis
    using decode_messages [OF assms(1), of "[]" "[]" "[]" "[]" "[]" "\<lambda>d. Some (EFloat d)"]
    by (simp add: decode_def [symmetric] arrive_all_same decoder_init_def push_state_def)
qed

theorem loopback_delivers_witness:
  "\<exists>d. run_steps (loop_bridge decoder_step) decoder_init (StreamBegin # concat (map stream_message_element [[(''a/b'', ENone)]])) = Inr d
    \<and> d_queue d = [[(''a/b'', ENone)]]"
  using loopback_delivers [of "[[(''a/b'', ENone)]]"] by (simp add: message_ok_def plain_message_def smap_ok_Cons)

end
