(* ===== verification/Meta_Packet.thy ===== *)
theory Meta_Packet
  imports Prelude
begin

text \<open>
  The packets of the metaserver (\<open>apps/metaserver/src/api/MetaServerPacket.cpp\<close>, \<open>.hpp\<close>,
  \<open>MetaServerProtocol.hpp\<close>): a buffer of 1024 bytes with a byte count and a write position, to
  which integers in network order and strings are appended, and from which they are read by offset.
  The read and head pointers always stand at the start of the buffer. \<open>LengthError\<close> and \<open>OutOfRange\<close>
  are the exceptions \<open>std::length_error\<close> and \<open>std::out_of_range\<close>; \<open>MetaUB\<close> is an access outside
  the buffer.
\<close>

datatype meta_error = LengthError | OutOfRange | BadTime | MetaUB

abbreviation "max_packet_bytes \<equiv> 1024 :: nat"
abbreviation "max_udp_out_bytes \<equiv> 570 :: nat"

type_synonym u32 = "32 word"
type_synonym u64 = "64 word"

section \<open>The protocol's numbers\<close>

abbreviation (input) "NMT_NULL \<equiv> 0 :: u32"
abbreviation (input) "NMT_SERVERKEEPALIVE \<equiv> 1 :: u32"
abbreviation (input) "NMT_CLIENTKEEPALIVE \<equiv> 2 :: u32"
abbreviation (input) "NMT_HANDSHAKE \<equiv> 3 :: u32"
abbreviation (input) "NMT_SERVERSHAKE \<equiv> 4 :: u32"
abbreviation (input) "NMT_CLIENTSHAKE \<equiv> 5 :: u32"
abbreviation (input) "NMT_TERMINATE \<equiv> 6 :: u32"
abbreviation (input) "NMT_LISTREQ \<equiv> 7 :: u32"
abbreviation (input) "NMT_LISTRESP \<equiv> 8 :: u32"
abbreviation (input) "NMT_SERVERATTR \<equiv> 11 :: u32"
abbreviation (input) "NMT_CLIENTATTR \<equiv> 12 :: u32"
abbreviation (input) "NMT_CLIENTFILTER \<equiv> 13 :: u32"
abbreviation (input) "NMT_ADMINREQ \<equiv> 25 :: u32"
abbreviation (input) "NMT_ADMINREQ_ENUMERATE \<equiv> 0 :: u32"
abbreviation (input) "NMT_ADMINREQ_ADDSERVER \<equiv> 1 :: u32"
abbreviation (input) "NMT_ADMINRESP \<equiv> 26 :: u32"
abbreviation (input) "NMT_ADMINRESP_ENUMERATE \<equiv> 0 :: u32"
abbreviation (input) "NMT_ADMINRESP_ADDSERVER \<equiv> 1 :: u32"
abbreviation (input) "NMT_ADMINRESP_ACK \<equiv> 32 :: u32"
abbreviation (input) "NMT_ADMINRESP_DENIED \<equiv> 34 :: u32"
abbreviation (input) "NMT_ADMINRESP_ERR \<equiv> 35 :: u32"
abbreviation (input) "NMT_DNSREQ \<equiv> 32 :: u32"
abbreviation (input) "NMT_DNSRESP \<equiv> 33 :: u32"
abbreviation (input) "DNS_TYPE_ALL \<equiv> 0 :: u32"
abbreviation (input) "DNS_TYPE_A \<equiv> 1 :: u32"
abbreviation (input) "DNS_TYPE_PTR \<equiv> 2 :: u32"

text \<open>The length of the table \<open>NMT_PRETTY\<close> of names.\<close>

abbreviation "nmt_pretty_size \<equiv> 34 :: nat"

section \<open>Network byte order\<close>

definition be32 :: "u32 \<Rightarrow> string" where
  "be32 w = (let n = unat w in
     [char_of (n div 2 ^ 24), char_of (n div 2 ^ 16), char_of (n div 2 ^ 8), char_of n])"

definition of_be32 :: "string \<Rightarrow> u32" where
  "of_be32 s = of_nat (foldl (\<lambda>a c. 256 * a + of_char c) 0 s)"

lemma length_be32 [simp]: "length (be32 w) = 4"
  by (simp add: be32_def Let_def)

lemma of_be32_be32 [simp]: "of_be32 (be32 w) = w"
proof -
  let ?n = "unat w"
  have q: "?n div 2 ^ 8 = ?n div 256" "?n div 2 ^ 16 = ?n div 256 div 256" "?n div 2 ^ 24 = ?n div 256 div 256 div 256"
    by (simp_all add: div_mult2_eq [symmetric])
  have "?n < 2 ^ LENGTH(32)" by (rule unsigned_less)
  then have "?n div 256 div 256 div 256 < 256" by (simp add: div_mult2_eq [symmetric])
  then have "256 * (256 * (256 * (?n div 256 div 256 div 256 mod 256) + ?n div 256 div 256 mod 256) + ?n div 256 mod 256)
      + ?n mod 256 = ?n" by simp
  then show ?thesis unfolding of_be32_def be32_def Let_def q by simp
qed

section \<open>The packet\<close>

record packet =
  mp_type :: u32
  mp_addr_int :: u32
  mp_addr :: string
  mp_port :: u32
  mp_bytes :: nat
  mp_write :: nat
  mp_payload :: string
  mp_need_free :: bool
  mp_outbound :: bool
  mp_seq :: u64
  mp_time :: u64

definition empty_payload :: string where
  "empty_payload = replicate max_packet_bytes (CHR 0x00)"

definition packet_new :: packet where
  "packet_new = \<lparr>mp_type = NMT_NULL, mp_addr_int = 0, mp_addr = [], mp_port = 0, mp_bytes = 0, mp_write = 0,
     mp_payload = empty_payload, mp_need_free = True, mp_outbound = False, mp_seq = 0, mp_time = 0\<rparr>"

text \<open>\<open>memcpy\<close> within the buffer.\<close>

definition read_bytes :: "nat \<Rightarrow> nat \<Rightarrow> string \<Rightarrow> meta_error + string" where
  "read_bytes off n b = (if off + n \<le> length b then Inr (take n (drop off b)) else Inl MetaUB)"

definition write_bytes :: "nat \<Rightarrow> string \<Rightarrow> string \<Rightarrow> meta_error + string" where
  "write_bytes off t b =
     (if off + length t \<le> length b then Inr (take off b @ t @ drop (off + length t) b) else Inl MetaUB)"

definition get_int_data :: "packet \<Rightarrow> nat \<Rightarrow> meta_error + u32" where
  "get_int_data p off = map_sum id of_be32 (read_bytes off 4 (mp_payload p))"

text \<open>The length \<open>m_Bytes - offset\<close> is computed in 64 bits and passed as 32.\<close>

definition message_length :: "nat \<Rightarrow> nat \<Rightarrow> nat" where
  "message_length bytes off = unat (ucast ((of_nat bytes :: u64) - of_nat off) :: u32)"

definition get_packet_message :: "packet \<Rightarrow> nat \<Rightarrow> meta_error + string" where
  "get_packet_message p off = read_bytes off (message_length (mp_bytes p) off) (mp_payload p)"

definition parse_packet_type :: "packet \<Rightarrow> meta_error + packet" where
  "parse_packet_type p =
     (if 0 < mp_bytes p then
        (case get_int_data p 0 of Inl e \<Rightarrow> Inl e | Inr t \<Rightarrow> Inr (p\<lparr>mp_type := t\<rparr>))
      else Inr p)"

definition packet_of :: "string \<Rightarrow> nat \<Rightarrow> meta_error + packet" where
  "packet_of pl n =
     (if max_packet_bytes < n then Inl LengthError
      else let p = packet_new\<lparr>mp_bytes := n, mp_payload := pl, mp_need_free := False\<rparr> in
        if 0 < n then parse_packet_type p else Inr (p\<lparr>mp_payload := empty_payload\<rparr>))"

text \<open>
  The bounds test of \<open>pack_uint32\<close> and \<open>pack_string\<close> is on the byte count; the bytes go to the
  write position.
\<close>

definition pack_bytes :: "string \<Rightarrow> packet \<Rightarrow> meta_error + packet" where
  "pack_bytes t p =
     (if max_packet_bytes < mp_bytes p \<or> max_packet_bytes - mp_bytes p < length t then Inl LengthError
      else case write_bytes (mp_write p) t (mp_payload p) of
        Inl e \<Rightarrow> Inl e
      | Inr b \<Rightarrow> Inr (p\<lparr>mp_payload := b, mp_bytes := mp_bytes p + length t, mp_write := mp_write p + length t\<rparr>))"

definition add_int :: "u32 \<Rightarrow> packet \<Rightarrow> meta_error + packet" where
  "add_int i p = pack_bytes (be32 i) p"

definition add_string :: "string \<Rightarrow> packet \<Rightarrow> meta_error + packet" where
  "add_string s p = pack_bytes s p"

definition set_packet_type :: "u32 \<Rightarrow> packet \<Rightarrow> meta_error + packet" where
  "set_packet_type t p =
     (case add_int t (p\<lparr>mp_payload := empty_payload, mp_write := 0, mp_bytes := 0\<rparr>) of
        Inl e \<Rightarrow> Inl e
      | Inr p' \<Rightarrow> parse_packet_type p')"

definition set_address :: "string \<Rightarrow> u32 \<Rightarrow> packet \<Rightarrow> packet" where
  "set_address a i p = p\<lparr>mp_addr := a, mp_addr_int := i\<rparr>"

definition set_buffer :: "string \<Rightarrow> nat \<Rightarrow> packet \<Rightarrow> packet" where
  "set_buffer pl n p = p\<lparr>mp_payload := pl, mp_bytes := n\<rparr>"

text \<open>Several integers and strings appended in a row.\<close>

datatype field = FInt u32 | FStr string

fun field_bytes :: "field \<Rightarrow> string" where
  "field_bytes (FInt i) = be32 i"
| "field_bytes (FStr s) = s"

fun add_field :: "packet \<Rightarrow> field \<Rightarrow> meta_error + packet" where
  "add_field p (FInt i) = add_int i p"
| "add_field p (FStr s) = add_string s p"

definition add_fields :: "field list \<Rightarrow> packet \<Rightarrow> meta_error + packet" where
  "add_fields fs p = run_steps add_field p fs"

lemma add_field_bytes: "add_field p f = pack_bytes (field_bytes f) p"
  by (cases f) (simp_all add: add_int_def add_string_def)

section \<open>Building a packet\<close>

text \<open>A packet under construction: its count is its write position, and its content the bytes written.\<close>

definition holds :: "string \<Rightarrow> packet \<Rightarrow> bool" where
  "holds t p \<longleftrightarrow> length t \<le> max_packet_bytes \<and> mp_bytes p = length t \<and> mp_write p = length t
     \<and> mp_payload p = t @ replicate (max_packet_bytes - length t) (CHR 0x00)"

lemma pack_bytes_holds:
  assumes "holds t p"
  shows "pack_bytes u p =
    (if length t + length u \<le> max_packet_bytes
     then Inr (p\<lparr>mp_payload := (t @ u) @ replicate (max_packet_bytes - length (t @ u)) (CHR 0x00),
                 mp_bytes := length (t @ u), mp_write := length (t @ u)\<rparr>)
     else Inl LengthError)"
  using assms by (auto simp: pack_bytes_def holds_def write_bytes_def)

lemma pack_bytes_ok:
  assumes "holds t p" and "length t + length u \<le> max_packet_bytes"
  shows "\<exists>p'. pack_bytes u p = Inr p' \<and> holds (t @ u) p' \<and> mp_type p' = mp_type p
    \<and> mp_addr p' = mp_addr p \<and> mp_addr_int p' = mp_addr_int p"
  using assms by (simp add: pack_bytes_holds) (simp add: holds_def)

lemma set_packet_type_ok:
  "\<exists>p'. set_packet_type t p = Inr p' \<and> holds (be32 t) p' \<and> mp_type p' = t
     \<and> mp_addr p' = mp_addr p \<and> mp_addr_int p' = mp_addr_int p"
proof -
  have "holds [] (p\<lparr>mp_payload := empty_payload, mp_write := 0, mp_bytes := 0\<rparr>)"
    by (simp add: holds_def empty_payload_def)
  from pack_bytes_ok [OF this, of "be32 t"] obtain p' where
    p': "pack_bytes (be32 t) (p\<lparr>mp_payload := empty_payload, mp_write := 0, mp_bytes := 0\<rparr>) = Inr p'"
      "holds (be32 t) p'" "mp_addr p' = mp_addr p" "mp_addr_int p' = mp_addr_int p" by auto
  then have "get_int_data p' 0 = Inr t" "mp_bytes p' = 4"
    by (simp_all add: holds_def get_int_data_def read_bytes_def)
  with p' show ?thesis by (simp add: set_packet_type_def add_int_def parse_packet_type_def holds_def)
qed

lemma add_fields_ok:
  assumes "holds t p" and "length t + length (concat (map field_bytes fs)) \<le> max_packet_bytes"
  shows "\<exists>p'. add_fields fs p = Inr p' \<and> holds (t @ concat (map field_bytes fs)) p' \<and> mp_type p' = mp_type p
    \<and> mp_addr p' = mp_addr p \<and> mp_addr_int p' = mp_addr_int p"
  using assms
proof (induction fs arbitrary: t p)
  case (Cons f fs)
  from pack_bytes_ok [OF Cons.prems(1), of "field_bytes f"] Cons.prems(2) obtain p1 where
    p1: "pack_bytes (field_bytes f) p = Inr p1" "holds (t @ field_bytes f) p1" "mp_type p1 = mp_type p"
      "mp_addr p1 = mp_addr p" "mp_addr_int p1 = mp_addr_int p" by auto
  from Cons.IH [OF p1(2)] Cons.prems(2) p1(3-5) obtain p2 where
    "add_fields fs p1 = Inr p2" "holds ((t @ field_bytes f) @ concat (map field_bytes fs)) p2"
      "mp_type p2 = mp_type p" "mp_addr p2 = mp_addr p" "mp_addr_int p2 = mp_addr_int p" by auto
  with p1(1) show ?case by (auto simp: add_fields_def add_field_bytes)
qed (simp add: add_fields_def)

lemma holds_get_int:
  assumes "holds (u @ be32 i @ v) p"
  shows "get_int_data p (length u) = Inr i"
  using assms by (simp add: holds_def get_int_data_def read_bytes_def)

lemma message_length_le: "off \<le> bytes \<Longrightarrow> bytes \<le> max_packet_bytes \<Longrightarrow> message_length bytes off = bytes - off"
proof -
  assume a: "off \<le> bytes" "bytes \<le> max_packet_bytes"
  then obtain d where d: "bytes = off + d" "d \<le> max_packet_bytes" by (metis le_Suc_ex le_trans le_add2)
  then have "unat (of_nat d :: u32) = d" "ucast (of_nat d :: u64) = (of_nat d :: u32)"
    by (simp_all add: unsigned_of_nat take_bit_nat_eq_self)
  then show ?thesis by (simp add: message_length_def d(1))
qed

section \<open>What the packets guarantee\<close>

lemma packet_of_holds:
  assumes "holds (be32 t @ u) p"
  shows "\<exists>q. packet_of (mp_payload p) (mp_bytes p) = Inr q \<and> mp_type q = t \<and> mp_bytes q = 4 + length u
    \<and> mp_payload q = mp_payload p"
proof -
  have p: "mp_bytes p = 4 + length u" "4 + length u \<le> max_packet_bytes"
    "mp_payload p = be32 t @ u @ replicate (max_packet_bytes - (4 + length u)) (CHR 0x00)"
    using assms by (simp_all add: holds_def)
  then have "read_bytes 0 4 (mp_payload p) = Inr (be32 t)" by (simp add: read_bytes_def)
  with p(1,2) show ?thesis by (simp add: packet_of_def parse_packet_type_def get_int_data_def)
qed

text \<open>
  A packet that is built by setting a type and appending integers and strings, and that fits in the
  buffer, is read back field by field by the receiver of its bytes: the type, every integer at its
  offset, and the bytes behind the type as a message. The build never fails before the buffer is full.
\<close>

theorem packet_roundtrip:
  assumes "4 + length (concat (map field_bytes fs)) \<le> max_packet_bytes"
  shows "\<exists>p1 p2 q. set_packet_type t p = Inr p1 \<and> add_fields fs p1 = Inr p2
    \<and> packet_of (mp_payload p2) (mp_bytes p2) = Inr q
    \<and> mp_type q = t \<and> mp_bytes q = 4 + length (concat (map field_bytes fs))
    \<and> get_packet_message q 4 = Inr (concat (map field_bytes fs))
    \<and> (\<forall>us i vs. fs = us @ FInt i # vs \<longrightarrow>
          get_int_data q (4 + length (concat (map field_bytes us))) = Inr i)"
proof -
  let ?u = "concat (map field_bytes fs)"
  obtain p1 where p1: "set_packet_type t p = Inr p1" "holds (be32 t) p1"
    using set_packet_type_ok by blast
  then obtain p2 where p2: "add_fields fs p1 = Inr p2" "holds (be32 t @ ?u) p2"
    using add_fields_ok [OF p1(2), of fs] assms by auto
  from packet_of_holds [OF p2(2)] obtain q where q: "packet_of (mp_payload p2) (mp_bytes p2) = Inr q"
    "mp_type q = t" "mp_bytes q = 4 + length ?u" "mp_payload q = mp_payload p2" by auto
  have len: "message_length (4 + length ?u) 4 = length ?u"
    using message_length_le [of 4 "4 + length ?u"] assms by simp
  have "get_packet_message q 4 = Inr ?u"
    using p2(2) q(3,4) assms by (simp add: get_packet_message_def len holds_def read_bytes_def)
  moreover have "get_int_data q (4 + length (concat (map field_bytes us))) = Inr i" if "fs = us @ FInt i # vs" for us i vs
  proof -
    have "holds ((be32 t @ concat (map field_bytes us)) @ be32 i @ concat (map field_bytes vs)) p2"
      using p2(2) by (simp add: that)
    from holds_get_int [OF this] show ?thesis using q(4) by (simp add: get_int_data_def)
  qed
  ultimately show ?thesis using p1(1) p2(1) q by blast
qed

theorem packet_roundtrip_witness:
  "\<exists>p1 p2 q. set_packet_type NMT_LISTRESP packet_new = Inr p1 \<and> add_fields [FInt 2, FInt 7] p1 = Inr p2
    \<and> packet_of (mp_payload p2) (mp_bytes p2) = Inr q \<and> mp_type q = NMT_LISTRESP
    \<and> get_int_data q 8 = Inr 7"
proof -
  from packet_roundtrip [of "[FInt 2, FInt 7]" NMT_LISTRESP packet_new] obtain p1 p2 q where
    q: "set_packet_type NMT_LISTRESP packet_new = Inr p1" "add_fields [FInt 2, FInt 7] p1 = Inr p2"
      "packet_of (mp_payload p2) (mp_bytes p2) = Inr q" "mp_type q = NMT_LISTRESP"
    and ints: "\<forall>us i vs. [FInt 2, FInt 7] = us @ FInt i # vs \<longrightarrow>
      get_int_data q (4 + length (concat (map field_bytes us))) = Inr i"
    by (auto simp del: add_fields_def)
  from ints [rule_format, of "[FInt 2]" 7 "[]"] q show ?thesis by simp
qed

text \<open>
  Appending to a packet under construction never writes outside the buffer: it either appends the
  bytes or throws \<open>length_error\<close>, exactly when they do not fit.
\<close>

theorem packet_append_bounds:
  assumes "holds t p"
  shows "(length t + length (field_bytes f) \<le> max_packet_bytes \<longrightarrow>
      (\<exists>p'. add_field p f = Inr p' \<and> holds (t @ field_bytes f) p'))
    \<and> (max_packet_bytes < length t + length (field_bytes f) \<longrightarrow> add_field p f = Inl LengthError)"
  using pack_bytes_ok [OF assms, of "field_bytes f"] pack_bytes_holds [OF assms, of "field_bytes f"]
  by (auto simp: add_field_bytes)

theorem packet_append_bounds_witness:
  "\<exists>p'. add_field packet_new (FStr ''ab'') = Inr p' \<and> holds ''ab'' p'"
  using packet_append_bounds [of "[]" packet_new "FStr ''ab''"]
  by (simp add: holds_def packet_new_def empty_payload_def)

text \<open>
  Reading the message of a packet that is shorter than the offset reads outside the buffer: the length
  wraps around to almost two to the thirty-second bytes.
\<close>

theorem short_message_out_of_bounds:
  assumes "mp_bytes p < off" and "off \<le> max_packet_bytes" and "length (mp_payload p) = max_packet_bytes"
  shows "get_packet_message p off = Inl MetaUB"
proof -
  obtain d where d: "off = mp_bytes p + Suc d" "Suc d \<le> max_packet_bytes"
    using assms(1,2) less_iff_Suc_add [of "mp_bytes p" off] by auto
  have "(of_nat (mp_bytes p) :: u64) - of_nat off = - of_nat (Suc d)" by (simp add: d(1))
  then have "message_length (mp_bytes p) off = unat (ucast (- (of_nat (Suc d) :: u64)) :: u32)"
    by (simp add: message_length_def)
  also have "ucast (- (of_nat (Suc d) :: u64)) = (- (of_nat (Suc d)) :: u32)"
    by transfer (simp add: take_bit_minus)
  also have "unat (- (of_nat (Suc d)) :: u32) = 2 ^ 32 - Suc d"
  proof -
    have "(- int (Suc d)) mod 2 ^ 32 = (- int (Suc d) + 2 ^ 32) mod 2 ^ 32" by (rule mod_add_self2 [symmetric])
    also have "\<dots> = 2 ^ 32 - int (Suc d)" using d(2) by (subst mod_pos_pos_trivial) simp_all
    finally have "take_bit 32 (- int (Suc d)) = 2 ^ 32 - int (Suc d)" by (simp only: take_bit_eq_mod)
    then show ?thesis using d(2) by transfer (simp add: nat_diff_distrib)
  qed
  finally have "message_length (mp_bytes p) off = 2 ^ 32 - Suc d" .
  then show ?thesis using d(2) assms(3) by (simp add: get_packet_message_def read_bytes_def)
qed

theorem short_message_out_of_bounds_witness:
  "get_packet_message (packet_new\<lparr>mp_bytes := 4\<rparr>) 12 = Inl MetaUB"
  using short_message_out_of_bounds [of "packet_new\<lparr>mp_bytes := 4\<rparr>" 12]
  by (simp add: packet_new_def empty_payload_def)

end
