(* ===== verification/Meta_Data.thy ===== *)
theory Meta_Data
  imports Meta_Packet Doubles "HOL-Library.Product_Lexorder"
begin

text \<open>
  The store of the metaserver (\<open>apps/metaserver/src/server/DataObject.cpp\<close>): server and client sessions
  with their attributes, client filters, pending handshakes, the cached server lists and the
  administrators. Maps are ordered by key as \<open>std::map\<close> is. Time is in microseconds; the ISO text of a
  time and its parser belong to Boost and are the fields of a \<open>clock\<close>, together with the time of the
  operation; a parser that throws yields \<open>None\<close>. An operation that throws returns the error and
  the store as it is then.
\<close>

type_synonym attrs = "(string, string) smap"

record clock =
  ck_now :: int
  ck_iso :: "int \<Rightarrow> string"
  ck_parse :: "string \<Rightarrow> int option"

definition now_str :: "clock \<Rightarrow> string" where
  "now_str k = ck_iso k (ck_now k)"

record data_object =
  do_servers :: "(string, attrs) smap"
  do_listreq :: "(string, string list) smap"
  do_list_expiry :: "(string, string) smap"
  do_clients :: "(string, attrs) smap"
  do_filters :: "(string, attrs) smap"
  do_handshakes :: "(u32, attrs) smap"
  do_admins :: "string set"

definition data_object_init :: data_object where
  "data_object_init = \<lparr>do_servers = [], do_listreq = [], do_list_expiry = [], do_clients = [],
     do_filters = [], do_handshakes = [], do_admins = {}\<rparr>"

section \<open>Maps of attributes\<close>

definition attr_row :: "'k \<Rightarrow> ('k, attrs) smap \<Rightarrow> attrs" where
  "attr_row s m = (case smap_find s m of None \<Rightarrow> [] | Some a \<Rightarrow> a)"

text \<open>\<open>m[s][n] = v\<close>, \<open>m[s].erase(n)\<close> and the value with the empty string for what is missing.\<close>

definition attr_put :: "'k::linorder \<Rightarrow> string \<Rightarrow> string \<Rightarrow> ('k, attrs) smap \<Rightarrow> ('k, attrs) smap" where
  "attr_put s n v m = smap_put s (smap_put n v (attr_row s m)) m"

definition attr_erase :: "'k::linorder \<Rightarrow> string \<Rightarrow> ('k, attrs) smap \<Rightarrow> ('k, attrs) smap" where
  "attr_erase s n m = smap_put s (smap_erase n (attr_row s m)) m"

definition attr_get :: "'k \<Rightarrow> string \<Rightarrow> ('k, attrs) smap \<Rightarrow> string" where
  "attr_get s n m = (case smap_find n (attr_row s m) of None \<Rightarrow> [] | Some v \<Rightarrow> v)"

definition protected_name :: "string \<Rightarrow> bool" where
  "protected_name n \<longleftrightarrow> n = ''ip'' \<or> n = ''expiry'' \<or> n = ''port''"

section \<open>Sessions\<close>

definition add_server_attribute :: "string \<Rightarrow> string \<Rightarrow> string \<Rightarrow> data_object \<Rightarrow> bool \<times> data_object" where
  "add_server_attribute s n v d =
     (if s \<noteq> [] \<and> n \<noteq> [] then (True, d\<lparr>do_servers := attr_put s n v (do_servers d)\<rparr>) else (False, d))"

definition remove_server_attribute :: "string \<Rightarrow> string \<Rightarrow> data_object \<Rightarrow> data_object" where
  "remove_server_attribute s n d =
     (if smap_has s (do_servers d) \<and> \<not> protected_name n
      then d\<lparr>do_servers := attr_erase s n (do_servers d)\<rparr> else d)"

definition get_server_attribute :: "string \<Rightarrow> string \<Rightarrow> data_object \<Rightarrow> string" where
  "get_server_attribute s n d = attr_get s n (do_servers d)"

definition add_client_attribute :: "string \<Rightarrow> string \<Rightarrow> string \<Rightarrow> data_object \<Rightarrow> bool \<times> data_object" where
  "add_client_attribute s n v d =
     (if s \<noteq> [] \<and> n \<noteq> [] then (True, d\<lparr>do_clients := attr_put s n v (do_clients d)\<rparr>) else (False, d))"

definition remove_client_attribute :: "string \<Rightarrow> string \<Rightarrow> data_object \<Rightarrow> data_object" where
  "remove_client_attribute s n d =
     (if smap_has s (do_clients d) \<and> \<not> protected_name n
      then d\<lparr>do_clients := attr_erase s n (do_clients d)\<rparr> else d)"

definition get_client_attribute :: "string \<Rightarrow> string \<Rightarrow> data_object \<Rightarrow> string" where
  "get_client_attribute s n d = attr_get s n (do_clients d)"

definition add_client_filter :: "string \<Rightarrow> string \<Rightarrow> string \<Rightarrow> data_object \<Rightarrow> bool \<times> data_object" where
  "add_client_filter s n v d =
     (if s \<noteq> [] \<and> n \<noteq> [] \<and> smap_has s (do_clients d)
      then (True, d\<lparr>do_filters := attr_put s n v (do_filters d)\<rparr>) else (False, d))"

definition get_client_filters :: "string \<Rightarrow> data_object \<Rightarrow> attrs" where
  "get_client_filters s d =
     (if smap_has s (do_filters d) \<and> smap_has s (do_clients d) then attr_row s (do_filters d) else [])"

definition get_client_filter :: "string \<Rightarrow> string \<Rightarrow> data_object \<Rightarrow> string" where
  "get_client_filter s n d =
     (if smap_has s (do_filters d) \<and> smap_has s (do_clients d) then attr_get s n (do_filters d) else [])"

definition remove_client_filter :: "string \<Rightarrow> string \<Rightarrow> data_object \<Rightarrow> data_object" where
  "remove_client_filter s n d =
     (if smap_has s (do_filters d) then d\<lparr>do_filters := attr_erase s n (do_filters d)\<rparr> else d)"

definition add_server_session :: "clock \<Rightarrow> string \<Rightarrow> data_object \<Rightarrow> bool \<times> data_object" where
  "add_server_session k s d =
     (let fresh = \<not> smap_has s (do_servers d);
          d1 = (if fresh then snd (add_server_attribute s ''ip'' s d) else d)
      in (fresh, snd (add_server_attribute s ''expiry'' (now_str k) d1)))"

definition remove_server_session :: "string \<Rightarrow> data_object \<Rightarrow> data_object" where
  "remove_server_session s d =
     d\<lparr>do_servers := smap_erase s (do_servers d), do_listreq := smap_erase ''default'' (do_listreq d)\<rparr>"

definition server_session_exists :: "string \<Rightarrow> data_object \<Rightarrow> bool" where
  "server_session_exists s d = smap_has s (do_servers d)"

definition get_server_session :: "string \<Rightarrow> data_object \<Rightarrow> attrs" where
  "get_server_session s d = attr_row s (do_servers d)"

definition add_client_session :: "clock \<Rightarrow> string \<Rightarrow> data_object \<Rightarrow> bool \<times> data_object" where
  "add_client_session k s d =
     (let fresh = \<not> smap_has s (do_clients d);
          d1 = (if fresh then snd (add_client_attribute s ''ip'' s d) else d)
      in (fresh, snd (add_client_attribute s ''expiry'' (now_str k) d1)))"

definition remove_client_session :: "string \<Rightarrow> data_object \<Rightarrow> data_object" where
  "remove_client_session s d =
     d\<lparr>do_filters := smap_erase s (do_filters d), do_clients := smap_erase s (do_clients d)\<rparr>"

definition client_session_exists :: "string \<Rightarrow> data_object \<Rightarrow> bool" where
  "client_session_exists s d = smap_has s (do_clients d)"

definition get_client_session :: "string \<Rightarrow> data_object \<Rightarrow> attrs" where
  "get_client_session s d = attr_row s (do_clients d)"

definition get_client_session_list :: "data_object \<Rightarrow> string list" where
  "get_client_session_list d = map fst (do_clients d)"

definition get_client_session_count :: "data_object \<Rightarrow> nat" where
  "get_client_session_count d = length (do_clients d)"

definition get_server_session_count :: "string \<Rightarrow> data_object \<Rightarrow> nat" where
  "get_server_session_count s d =
     (if s = ''default'' then length (do_servers d)
      else case smap_find s (do_listreq d) of None \<Rightarrow> 0 | Some v \<Rightarrow> length v)"

definition iequals :: "string \<Rightarrow> string \<Rightarrow> bool" where
  "iequals a b \<longleftrightarrow> map lower a = map lower b"

definition search_server_sessions :: "string \<Rightarrow> string \<Rightarrow> data_object \<Rightarrow> string list" where
  "search_server_sessions n v d = filter (\<lambda>s. iequals (get_server_attribute s n d) v) (map fst (do_servers d))"

definition acl_admin_check :: "string \<Rightarrow> data_object \<Rightarrow> bool" where
  "acl_admin_check ip d \<longleftrightarrow> do_admins d = {} \<or> ip \<in> do_admins d"

definition add_admin_acl :: "string \<Rightarrow> data_object \<Rightarrow> data_object" where
  "add_admin_acl ip d = d\<lparr>do_admins := insert ip (do_admins d)\<rparr>"

section \<open>Server lists\<close>

text \<open>
  \<open>createServerSessionListresp\<close>: the servers that pass the client's filters, ordered by the
  attribute the client asks for and then by name, are cached for the client.
\<close>

definition passes_filter :: "attrs \<Rightarrow> data_object \<Rightarrow> string \<Rightarrow> bool" where
  "passes_filter fs d s = list_all (\<lambda>f. fst f = ''sortby'' \<or> get_server_attribute s (fst f) d = snd f) fs"

definition sort_attribute :: "attrs \<Rightarrow> string" where
  "sort_attribute fs = (case smap_find ''sortby'' fs of None \<Rightarrow> [] | Some v \<Rightarrow> v)"

definition sort_rank :: "string \<Rightarrow> data_object \<Rightarrow> string \<Rightarrow> string \<times> string" where
  "sort_rank by d s = ((if by = [] then [] else get_server_attribute s by d), s)"

definition create_listresp :: "clock \<Rightarrow> string \<Rightarrow> data_object \<Rightarrow> nat \<times> data_object" where
  "create_listresp k ip d =
     (let fs = get_client_filters ip d;
          ids = remdups_adj (filter (passes_filter fs d) (map fst (do_servers d)));
          v = sort_key (sort_rank (sort_attribute fs) d) ids
      in (length v, d\<lparr>do_listreq := smap_put ip v (smap_erase ip (do_listreq d)),
                      do_list_expiry := smap_put ip (now_str k) (do_list_expiry d)\<rparr>))"

text \<open>\<open>begin() + start_idx\<close> behind the end of the vector is undefined.\<close>

definition get_server_session_list ::
    "clock \<Rightarrow> nat \<Rightarrow> nat \<Rightarrow> string \<Rightarrow> data_object \<Rightarrow> (meta_error \<times> data_object) + string list \<times> data_object" where
  "get_server_session_list k start_idx max_items s d =
     (let d1 = (if start_idx = 0 \<and> s = ''default'' then snd (create_listresp k ''default'' d) else d);
          n = get_server_session_count s d1
      in if n = 0 \<or> n \<le> start_idx then Inr ([], d1)
         else let d2 = d1\<lparr>do_listreq := smap_emplace s [] (do_listreq d1)\<rparr>;
                  v = (case smap_find s (do_listreq d2) of None \<Rightarrow> [] | Some v \<Rightarrow> v)
              in if length v < start_idx then Inl (MetaUB, d2)
                 else Inr (remdups_adj (take max_items (drop start_idx v)), d2))"

definition get_server_session_cache_list :: "data_object \<Rightarrow> string list" where
  "get_server_session_cache_list d = map fst (do_listreq d)"

section \<open>Handshakes\<close>

definition add_handshake :: "clock \<Rightarrow> u32 \<Rightarrow> data_object \<Rightarrow> u32 \<times> data_object" where
  "add_handshake k h d = (h, d\<lparr>do_handshakes := attr_put h ''expiry'' (now_str k) (do_handshakes d)\<rparr>)"

definition remove_handshake :: "u32 \<Rightarrow> data_object \<Rightarrow> u32 \<times> data_object" where
  "remove_handshake h d =
     (if smap_has h (do_handshakes d) then h else 0, d\<lparr>do_handshakes := smap_erase h (do_handshakes d)\<rparr>)"

definition handshake_exists :: "u32 \<Rightarrow> data_object \<Rightarrow> bool" where
  "handshake_exists h d = smap_has h (do_handshakes d)"

definition get_handshake_count :: "data_object \<Rightarrow> nat" where
  "get_handshake_count d = length (do_handshakes d)"

definition get_handshake_expiry :: "clock \<Rightarrow> u32 \<Rightarrow> data_object \<Rightarrow> meta_error + int" where
  "get_handshake_expiry k h d =
     (if handshake_exists h d then
        (case ck_parse k (attr_get h ''expiry'' (do_handshakes d)) of None \<Rightarrow> Inl BadTime | Some t \<Rightarrow> Inr t)
      else Inr (ck_now k - 5000 * 1000))"

definition get_latency :: "int \<Rightarrow> int \<Rightarrow> u32" where
  "get_latency t1 t2 = (if t2 - t1 < 0 then 999 else word_of_int ((t2 - t1) div 1000))"

section \<open>Expiry\<close>

definition fallback_time :: string where
  "fallback_time = ''20000101T010000.000000''"

definition is_expired :: "clock \<Rightarrow> u32 \<Rightarrow> string \<Rightarrow> bool option" where
  "is_expired k seconds et =
     map_option (\<lambda>t. t + uint seconds * 1000000 < ck_now k) (ck_parse k (if et = [] then fallback_time else et))"

text \<open>The loop of \<open>expireEntries\<close> over the keys of the container, in order.\<close>

fun expire_entries :: "clock \<Rightarrow> u32 \<Rightarrow> ('k \<Rightarrow> 'd \<Rightarrow> 'd) \<Rightarrow> ('k \<Rightarrow> 'd \<Rightarrow> string \<times> 'd) \<Rightarrow> 'k list \<Rightarrow> 'd
    \<Rightarrow> (meta_error \<times> 'd) + 'k list \<times> 'd" where
  "expire_entries k secs rem get [] d = Inr ([], d)"
| "expire_entries k secs rem get (x # xs) d =
     (case get x d of (et, d1) \<Rightarrow>
       (case is_expired k secs et of
          None \<Rightarrow> Inl (BadTime, d1)
        | Some old \<Rightarrow>
            (case expire_entries k secs rem get xs (if old then rem x d1 else d1) of
               Inl e \<Rightarrow> Inl e
             | Inr (l, d2) \<Rightarrow> Inr (if old then x # l else l, d2))))"

definition handshake_stamp :: "u32 \<Rightarrow> data_object \<Rightarrow> string \<times> data_object" where
  "handshake_stamp h d = (attr_get h ''expiry'' (do_handshakes d), d)"

definition expire_handshakes :: "clock \<Rightarrow> u32 \<Rightarrow> data_object \<Rightarrow> (meta_error \<times> data_object) + u32 list \<times> data_object" where
  "expire_handshakes k secs d =
     expire_entries k secs (\<lambda>h d. snd (remove_handshake h d)) handshake_stamp (map fst (do_handshakes d)) d"

definition get_server_expiry_iso :: "clock \<Rightarrow> string \<Rightarrow> data_object \<Rightarrow> string \<times> data_object" where
  "get_server_expiry_iso k s d =
     (let fallback = now_str k;
          et0 = (case smap_find s (do_servers d) of None \<Rightarrow> fallback
                 | Some a \<Rightarrow> (case smap_find ''expiry'' a of None \<Rightarrow> fallback | Some v \<Rightarrow> v));
          et = (if et0 = [] then fallback else et0)
      in case ck_parse k et of
           Some t \<Rightarrow> (et, d)
         | None \<Rightarrow> (fallback, if smap_has s (do_servers d)
                             then d\<lparr>do_servers := attr_put s ''expiry'' fallback (do_servers d)\<rparr> else d))"

definition expire_server_sessions :: "clock \<Rightarrow> u32 \<Rightarrow> data_object \<Rightarrow> (meta_error \<times> data_object) + string list \<times> data_object" where
  "expire_server_sessions k secs d =
     expire_entries k secs remove_server_session (get_server_expiry_iso k) (map fst (do_servers d)) d"

text \<open>\<open>itr->second["expiry"]\<close> inserts an empty value when there is none.\<close>

definition client_stamp :: "string \<Rightarrow> data_object \<Rightarrow> string \<times> data_object" where
  "client_stamp s d = (attr_get s ''expiry'' (do_clients d),
     d\<lparr>do_clients := smap_put s (smap_emplace ''expiry'' [] (attr_row s (do_clients d))) (do_clients d)\<rparr>)"

definition expire_client_sessions :: "clock \<Rightarrow> u32 \<Rightarrow> data_object \<Rightarrow> (meta_error \<times> data_object) + string list \<times> data_object" where
  "expire_client_sessions k secs d =
     expire_entries k secs remove_client_session client_stamp (map fst (do_clients d)) d"

text \<open>Here an empty text is not replaced: the parser throws.\<close>

fun expired_caches :: "clock \<Rightarrow> u32 \<Rightarrow> (string, string) smap \<Rightarrow> meta_error + string list" where
  "expired_caches k secs [] = Inr []"
| "expired_caches k secs (e # es) =
     (case ck_parse k (snd e) of
        None \<Rightarrow> Inl BadTime
      | Some t \<Rightarrow> map_sum id (\<lambda>l. if t + uint secs * 1000000 < ck_now k then fst e # l else l)
                    (expired_caches k secs es))"

definition expire_client_session_cache :: "clock \<Rightarrow> u32 \<Rightarrow> data_object \<Rightarrow> (meta_error \<times> data_object) + string list \<times> data_object" where
  "expire_client_session_cache k secs d =
     (case expired_caches k secs (do_list_expiry d) of
        Inl e \<Rightarrow> Inl (e, d)
      | Inr l \<Rightarrow> Inr (l, d\<lparr>do_list_expiry := foldl (\<lambda>m x. smap_erase x m) (do_list_expiry d) l,
                           do_listreq := foldl (\<lambda>m x. smap_erase x m) (do_listreq d) l\<rparr>))"

section \<open>The store's invariant\<close>

text \<open>
  Every map is ordered, no session has an empty name, and a client that has filters has a session
  (the comment in \<open>addClientFilter\<close>: a session is a requirement to add a filter).
\<close>

definition data_ok :: "data_object \<Rightarrow> bool" where
  "data_ok d \<longleftrightarrow> smap_ok (do_servers d) \<and> smap_ok (do_clients d) \<and> smap_ok (do_filters d)
     \<and> smap_ok (do_handshakes d) \<and> smap_ok (do_listreq d) \<and> smap_ok (do_list_expiry d)
     \<and> fst ` set (do_filters d) \<subseteq> fst ` set (do_clients d)
     \<and> [] \<notin> fst ` set (do_servers d) \<and> [] \<notin> fst ` set (do_clients d)"

lemma smap_has_iff: "smap_has k m \<longleftrightarrow> k \<in> fst ` set m"
  by (induction m) (auto simp: smap_has_def)

lemma keys_erase [simp]: "fst ` set (smap_erase k m) = fst ` set m - {k}"
  by (auto simp: smap_erase_def)

lemma keys_erase_list: "map fst (smap_erase k m) = filter (\<lambda>x. x \<noteq> k) (map fst m)"
  by (induction m) (auto simp: smap_erase_def)

lemma keys_put_same: "smap_ok m \<Longrightarrow> k \<in> fst ` set m \<Longrightarrow> map fst (smap_put k v m) = map fst m"
  by (induction k v m rule: smap_put.induct) (fastforce simp: smap_ok_Cons)+

lemma keys_attr_put [simp]: "fst ` set (attr_put s n v m) = insert s (fst ` set m)"
  by (simp add: attr_put_def)

lemma ok_attr_put [simp, intro]: "smap_ok m \<Longrightarrow> smap_ok (attr_put s n v m)"
  by (simp add: attr_put_def)

lemma keys_attr_erase: "fst ` set (attr_erase s n m) = insert s (fst ` set m)"
  by (simp add: attr_erase_def)

lemma ok_attr_erase [simp, intro]: "smap_ok m \<Longrightarrow> smap_ok (attr_erase s n m)"
  by (simp add: attr_erase_def)

lemma attr_row_put: "smap_ok m \<Longrightarrow> attr_row s' (smap_put s r m) = (if s' = s then r else attr_row s' m)"
  by (simp add: attr_row_def smap_find_put)

lemma attr_row_erase: "attr_row s' (smap_erase s m) = (if s' = s then [] else attr_row s' m)"
  by (simp add: attr_row_def smap_find_erase)

lemma attr_get_erase_row: "attr_get s' n (smap_erase s m) = (if s' = s then [] else attr_get s' n m)"
  by (simp add: attr_get_def attr_row_erase)

lemma attr_get_put_other: "smap_ok m \<Longrightarrow> s' \<noteq> s \<Longrightarrow> attr_get s' n' (smap_put s r m) = attr_get s' n' m"
  by (simp add: attr_get_def attr_row_put)

lemma attr_get_attr_put_other: "smap_ok m \<Longrightarrow> s' \<noteq> s \<Longrightarrow> attr_get s' n' (attr_put s n v m) = attr_get s' n' m"
  by (simp add: attr_put_def attr_get_put_other)

lemma ok_foldl_erase: "smap_ok m \<Longrightarrow> smap_ok (foldl (\<lambda>m x. smap_erase x m) m l)"
  by (induction l arbitrary: m) auto

lemma data_ok_init: "data_ok data_object_init"
  by (simp add: data_ok_def data_object_init_def)

named_theorems data_ops \<open>the operations of the store\<close>

lemmas [data_ops] = add_server_attribute_def remove_server_attribute_def add_client_attribute_def
  remove_client_attribute_def add_client_filter_def remove_client_filter_def add_server_session_def
  remove_server_session_def add_client_session_def remove_client_session_def add_handshake_def
  remove_handshake_def create_listresp_def add_admin_acl_def

lemma data_ok_ops [simp, intro]:
  assumes "data_ok d"
  shows "data_ok (snd (add_server_attribute s n v d))" and "data_ok (remove_server_attribute s n d)"
    and "data_ok (snd (add_client_attribute s n v d))" and "data_ok (remove_client_attribute s n d)"
    and "data_ok (snd (add_client_filter s n v d))" and "data_ok (remove_client_filter s n d)"
    and "data_ok (remove_server_session s d)" and "data_ok (remove_client_session s d)"
    and "data_ok (snd (add_handshake k h d))" and "data_ok (snd (remove_handshake h d))"
    and "data_ok (snd (create_listresp k s d))" and "data_ok (add_admin_acl s d)"
  using assms by (auto simp: data_ok_def data_ops smap_has_iff keys_attr_erase Let_def)

lemma data_ok_sessions [simp, intro]:
  assumes "data_ok d"
  shows "data_ok (snd (add_server_session k s d))" and "data_ok (snd (add_client_session k s d))"
  using assms by (auto simp: add_server_session_def add_client_session_def Let_def intro: data_ok_ops)

lemma data_ok_stamps [simp, intro]:
  assumes "data_ok d"
  shows "s \<in> fst ` set (do_clients d) \<Longrightarrow> data_ok (snd (client_stamp s d))"
    and "data_ok (snd (get_server_expiry_iso k s d))"
  using assms by (auto simp: data_ok_def client_stamp_def get_server_expiry_iso_def Let_def smap_has_iff split: option.splits)

lemma data_ok_cache:
  assumes "data_ok d"
  shows "expire_client_session_cache k secs d = Inr (l, d') \<Longrightarrow> data_ok d'"
    and "expire_client_session_cache k secs d = Inl (e, d') \<Longrightarrow> data_ok d'"
  using assms by (clarsimp simp: data_ok_def expire_client_session_cache_def ok_foldl_erase split: sum.splits)+

lemma data_ok_list:
  assumes "data_ok d"
  shows "get_server_session_list k i m s d = Inr (l, d') \<Longrightarrow> data_ok d'"
    and "get_server_session_list k i m s d = Inl (e, d') \<Longrightarrow> data_ok d'"
proof -
  let ?d1 = "if i = 0 \<and> s = ''default'' then snd (create_listresp k ''default'' d) else d"
  have "data_ok ?d1" using assms by simp
  then have "data_ok (?d1\<lparr>do_listreq := smap_emplace s [] (do_listreq ?d1)\<rparr>)" by (auto simp: data_ok_def)
  with \<open>data_ok ?d1\<close> show
    "get_server_session_list k i m s d = Inr (l, d') \<Longrightarrow> data_ok d'"
    "get_server_session_list k i m s d = Inl (e, d') \<Longrightarrow> data_ok d'"
    unfolding get_server_session_list_def Let_def by (auto split: if_splits)
qed

section \<open>Containers whose entries expire\<close>

text \<open>What \<open>expireEntries\<close> relies on, and what it then does.\<close>

locale expiring =
  fixes ok :: "'d \<Rightarrow> bool" and keys :: "'d \<Rightarrow> 'k list" and stamp :: "'d \<Rightarrow> 'k \<Rightarrow> string"
    and rem :: "'k \<Rightarrow> 'd \<Rightarrow> 'd" and get :: "'k \<Rightarrow> 'd \<Rightarrow> string \<times> 'd"
  assumes distinct_keys: "ok d \<Longrightarrow> distinct (keys d)"
    and rem_ok: "ok d \<Longrightarrow> ok (rem x d)"
    and rem_keys: "ok d \<Longrightarrow> keys (rem x d) = filter (\<lambda>y. y \<noteq> x) (keys d)"
    and rem_stamp: "ok d \<Longrightarrow> y \<noteq> x \<Longrightarrow> stamp (rem x d) y = stamp d y"
    and get_fst: "fst (get x d) = stamp d x"
    and get_ok: "ok d \<Longrightarrow> x \<in> set (keys d) \<Longrightarrow> ok (snd (get x d))"
    and get_keys: "ok d \<Longrightarrow> x \<in> set (keys d) \<Longrightarrow> keys (snd (get x d)) = keys d"
    and get_stamp: "ok d \<Longrightarrow> x \<in> set (keys d) \<Longrightarrow> y \<noteq> x \<Longrightarrow> stamp (snd (get x d)) y = stamp d y"
begin

lemma expire_some:
  assumes "ok d" and "distinct xs" and "set xs \<subseteq> set (keys d)"
    and "\<And>x. x \<in> set xs \<Longrightarrow> is_expired k secs (stamp d x) = Some (old x)"
  shows "\<exists>d'. expire_entries k secs rem get xs d = Inr (filter old xs, d') \<and> ok d'
    \<and> keys d' = filter (\<lambda>y. \<not> (y \<in> set xs \<and> old y)) (keys d)"
  using assms
proof (induction xs arbitrary: d)
  case (Cons x xs)
  let ?g = "snd (get x d)"
  let ?d = "if old x then rem x ?g else ?g"
  have x: "x \<in> set (keys d)" "x \<notin> set xs" using Cons.prems(2,3) by simp_all
  note g = get_ok [OF Cons.prems(1) x(1)] get_keys [OF Cons.prems(1) x(1)]
  have d: "ok ?d" "keys ?d = filter (\<lambda>y. \<not> (y = x \<and> old x)) (keys d)"
    using g rem_ok [OF g(1)] rem_keys [OF g(1), of x] by (auto intro: filter_cong)
  have "stamp ?d y = stamp d y" if "y \<in> set xs" for y
  proof -
    have "y \<noteq> x" using that x(2) by auto
    then show ?thesis using rem_stamp [OF g(1), of y x] get_stamp [OF Cons.prems(1) x(1), of y] by simp
  qed
  with Cons.prems x(2) d have "\<exists>d'. expire_entries k secs rem get xs ?d = Inr (filter old xs, d') \<and> ok d'
      \<and> keys d' = filter (\<lambda>y. \<not> (y \<in> set xs \<and> old y)) (keys ?d)"
    by (intro Cons.IH) auto
  then obtain d' where d': "expire_entries k secs rem get xs ?d = Inr (filter old xs, d')" "ok d'"
    "keys d' = filter (\<lambda>y. \<not> (y \<in> set xs \<and> old y)) (keys ?d)" by blast
  have "is_expired k secs (fst (get x d)) = Some (old x)" using Cons.prems(4) [of x] get_fst by simp
  with d' have "expire_entries k secs rem get (x # xs) d = Inr (filter old (x # xs), d')"
    by (cases "get x d") (auto split: if_splits)
  moreover have "keys d' = filter (\<lambda>y. \<not> (y \<in> set (x # xs) \<and> old y)) (keys d)"
    unfolding d'(3) d(2) filter_filter by (rule filter_cong) auto
  ultimately show ?case using d'(2) by blast
qed (auto simp: filter_id_conv)

text \<open>All entries are looked at, exactly the old ones go, and they are the ones reported.\<close>

lemma expire_all:
  assumes "ok d" and "\<And>x. x \<in> set (keys d) \<Longrightarrow> is_expired k secs (stamp d x) = Some (old x)"
  shows "\<exists>d'. expire_entries k secs rem get (keys d) d = Inr (filter old (keys d), d') \<and> ok d'
    \<and> keys d' = filter (\<lambda>y. \<not> old y) (keys d)"
proof -
  from expire_some [OF assms(1) distinct_keys [OF assms(1)] subset_refl assms(2)] obtain d' where
    "expire_entries k secs rem get (keys d) d = Inr (filter old (keys d), d')" "ok d'"
    "keys d' = filter (\<lambda>y. \<not> (y \<in> set (keys d) \<and> old y)) (keys d)" by blast
  moreover have "filter (\<lambda>y. \<not> (y \<in> set (keys d) \<and> old y)) (keys d) = filter (\<lambda>y. \<not> old y) (keys d)"
    by (rule filter_cong) auto
  ultimately show ?thesis by auto
qed

text \<open>Whatever the stamps are, a sweep leaves a store that is in order.\<close>

lemma expire_ok:
  assumes "ok d" and "distinct xs" and "set xs \<subseteq> set (keys d)"
  shows "ok (case expire_entries k secs rem get xs d of Inl (e, d') \<Rightarrow> d' | Inr (l, d') \<Rightarrow> d')"
  using assms
proof (induction xs arbitrary: d)
  case (Cons x xs)
  have x: "x \<in> set (keys d)" using Cons.prems(3) by simp
  note g = get_ok [OF Cons.prems(1) x] get_keys [OF Cons.prems(1) x]
  have "ok (case expire_entries k secs rem get xs (if old then rem x (snd (get x d)) else snd (get x d)) of
      Inl (e, d') \<Rightarrow> d' | Inr (l, d') \<Rightarrow> d')" for old
    using g rem_ok [OF g(1)] rem_keys [OF g(1), of x] Cons.prems(2,3) by (intro Cons.IH) auto
  note ih = this [of True] this [of False]
  from ih g(1) show ?case by (cases "get x d") (auto split: option.split sum.splits)
qed simp

text \<open>A stamp that cannot be read ends the sweep with an exception.\<close>

lemma expire_bad:
  assumes "ok d" and "distinct xs" and "set xs \<subseteq> set (keys d)" and "x \<in> set xs"
    and "is_expired k secs (stamp d x) = None"
  shows "\<exists>d'. expire_entries k secs rem get xs d = Inl (BadTime, d')"
  using assms
proof (induction xs arbitrary: d)
  case (Cons z xs)
  let ?g = "snd (get z d)"
  have z: "z \<in> set (keys d)" using Cons.prems(3) by simp
  note g = get_ok [OF Cons.prems(1) z] get_keys [OF Cons.prems(1) z]
  show ?case
  proof (cases "is_expired k secs (fst (get z d))")
    case None
    then show ?thesis by (cases "get z d") simp
  next
    case (Some old)
    let ?d = "if old then rem z ?g else ?g"
    have "x \<noteq> z" using Some Cons.prems(5) get_fst [of z d] by auto
    then have x: "x \<in> set xs" using Cons.prems(4) by simp
    have "stamp ?d x = stamp d x"
      using rem_stamp [OF g(1) \<open>x \<noteq> z\<close>] get_stamp [OF Cons.prems(1) z \<open>x \<noteq> z\<close>] by simp
    moreover have "ok ?d" "set xs \<subseteq> set (keys ?d)"
      using g rem_ok [OF g(1)] rem_keys [OF g(1), of z] Cons.prems(2,3) by auto
    ultimately have "\<exists>d'. expire_entries k secs rem get xs ?d = Inl (BadTime, d')"
      using Cons.prems x by (intro Cons.IH) auto
    with Some show ?thesis by (cases "get z d") auto
  qed
qed simp

end

interpretation handshakes: expiring data_ok "\<lambda>d. map fst (do_handshakes d)"
    "\<lambda>d h. attr_get h ''expiry'' (do_handshakes d)" "\<lambda>h d. snd (remove_handshake h d)" handshake_stamp
proof
  show "distinct (map fst (do_handshakes d))" if "data_ok d" for d
    using that by (simp add: data_ok_def smap_ok_distinct)
qed (auto simp: handshake_stamp_def remove_handshake_def keys_erase_list attr_get_erase_row intro: data_ok_ops [unfolded remove_handshake_def, simplified])

interpretation clients: expiring data_ok "\<lambda>d. map fst (do_clients d)"
    "\<lambda>d s. attr_get s ''expiry'' (do_clients d)" remove_client_session client_stamp
proof
  show "distinct (map fst (do_clients d))" if "data_ok d" for d
    using that by (simp add: data_ok_def smap_ok_distinct)
  show "map fst (do_clients (snd (client_stamp x d))) = map fst (do_clients d)"
    if "data_ok d" "x \<in> set (map fst (do_clients d))" for d x
    using that by (simp add: client_stamp_def data_ok_def keys_put_same)
  show "attr_get y ''expiry'' (do_clients (snd (client_stamp x d))) = attr_get y ''expiry'' (do_clients d)"
    if "data_ok d" "y \<noteq> x" for d x y
    using that by (simp add: client_stamp_def data_ok_def attr_get_put_other)
  show "data_ok (snd (client_stamp x d))" if "data_ok d" "x \<in> set (map fst (do_clients d))" for d x
    using that by (intro data_ok_stamps(1)) simp_all
qed (auto simp: client_stamp_def [unfolded prod_eq_iff] remove_client_session_def keys_erase_list attr_get_erase_row
      intro: data_ok_ops [unfolded remove_client_session_def] data_ok_stamps(1))

text \<open>The stamp of a server: the fallback is the current time.\<close>

lemma server_stamp_row:
  "smap_find s (do_servers d) = smap_find s (do_servers d') \<Longrightarrow>
    fst (get_server_expiry_iso k s d) = fst (get_server_expiry_iso k s d')"
  by (simp add: get_server_expiry_iso_def Let_def split: option.splits)

interpretation servers: expiring data_ok "\<lambda>d. map fst (do_servers d)"
    "\<lambda>d s. fst (get_server_expiry_iso k s d)" remove_server_session "get_server_expiry_iso k" for k
proof
  show "distinct (map fst (do_servers d))" if "data_ok d" for d
    using that by (simp add: data_ok_def smap_ok_distinct)
  show "map fst (do_servers (snd (get_server_expiry_iso k x d))) = map fst (do_servers d)"
    if "data_ok d" "x \<in> set (map fst (do_servers d))" for d x
    using that by (simp add: get_server_expiry_iso_def data_ok_def keys_put_same attr_put_def Let_def split: option.splits)
  show "fst (get_server_expiry_iso k y (snd (get_server_expiry_iso k x d))) = fst (get_server_expiry_iso k y d)"
    if "data_ok d" "y \<noteq> x" for d x y
  proof (rule server_stamp_row)
    show "smap_find y (do_servers (snd (get_server_expiry_iso k x d))) = smap_find y (do_servers d)"
      using that by (auto simp: get_server_expiry_iso_def data_ok_def attr_put_def smap_find_put Let_def split: option.splits)
  qed
  show "fst (get_server_expiry_iso k y (remove_server_session x d)) = fst (get_server_expiry_iso k y d)"
    if "y \<noteq> x" for d x y
    using that by (intro server_stamp_row) (simp add: remove_server_session_def smap_find_erase)
qed (auto simp: remove_server_session_def keys_erase_list intro: data_ok_ops [unfolded remove_server_session_def] data_ok_stamps(2))

lemma server_stamp_parses:
  assumes "ck_parse k (now_str k) \<noteq> None"
  shows "ck_parse k (fst (get_server_expiry_iso k s d)) \<noteq> None"
proof -
  have "ck_parse k (fst (case ck_parse k et of None \<Rightarrow> (now_str k, a) | Some t \<Rightarrow> (et, b))) \<noteq> None"
    for et and a b :: data_object
    using assms by (simp split: option.split)
  then show ?thesis unfolding get_server_expiry_iso_def Let_def .
qed

section \<open>What the store guarantees\<close>

text \<open>A clock whose current time can be written and read back, as Boost documents it.\<close>

definition clock_ok :: "clock \<Rightarrow> bool" where
  "clock_ok k \<longleftrightarrow> now_str k \<noteq> [] \<and> ck_parse k (now_str k) = Some (ck_now k)"

text \<open>A small clock for examples: it knows two times.\<close>

definition sample_clock :: clock where
  "sample_clock = \<lparr>ck_now = 5000000, ck_iso = (\<lambda>t. if t = 5000000 then ''now'' else ''past''),
     ck_parse = (\<lambda>s. if s = ''now'' then Some 5000000 else if s = ''past'' then Some 0 else None)\<rparr>"

lemma clock_ok_sample: "clock_ok sample_clock"
  by (simp add: clock_ok_def now_str_def sample_clock_def)

text \<open>
  A sweep of the handshakes looks at every handshake, removes exactly those that are older than the
  limit, reports exactly those, in order, and keeps the others and the invariant of the store.
\<close>

theorem handshake_sweep:
  assumes "data_ok d"
    and "\<And>h. h \<in> fst ` set (do_handshakes d) \<Longrightarrow>
      is_expired k secs (attr_get h ''expiry'' (do_handshakes d)) = Some (old h)"
  shows "\<exists>d'. expire_handshakes k secs d = Inr (filter old (map fst (do_handshakes d)), d')
    \<and> data_ok d' \<and> map fst (do_handshakes d') = filter (\<lambda>h. \<not> old h) (map fst (do_handshakes d))"
  unfolding expire_handshakes_def using handshakes.expire_all [OF assms(1), of k secs old] assms(2) by simp

theorem handshake_sweep_witness:
  "\<exists>d'. expire_handshakes sample_clock 3
      (data_object_init\<lparr>do_handshakes := [(4, [(''expiry'', ''past'')]), (9, [(''expiry'', ''now'')])]\<rparr>) = Inr ([4], d')
    \<and> map fst (do_handshakes d') = [9]"
proof -
  let ?d = "data_object_init\<lparr>do_handshakes := [(4, [(''expiry'', ''past'')]), (9, [(''expiry'', ''now'')])]\<rparr>"
  have "is_expired sample_clock 3 ''past'' = Some True"
    "is_expired sample_clock 3 ''now'' = Some False"
    by (simp_all add: is_expired_def sample_clock_def)
  then have "is_expired sample_clock 3 (attr_get h ''expiry'' (do_handshakes ?d)) = Some (h = 4)"
    if "h \<in> fst ` set (do_handshakes ?d)" for h
    using that by (auto simp: attr_get_def attr_row_def)
  moreover have "data_ok ?d" by (simp add: data_ok_def data_object_init_def smap_ok_Cons)
  ultimately show ?thesis using handshake_sweep [of ?d sample_clock 3 "\<lambda>h. h = 4"] by auto
qed

text \<open>
  A sweep of the servers never throws, whatever the servers have written into their expiry attributes:
  a text that is not a time counts as the current time. It removes exactly the servers whose stamp
  is older than the limit and keeps the invariant of the store.
\<close>

theorem server_sweep_total:
  assumes "data_ok d" and "clock_ok k"
  shows "\<exists>l d'. expire_server_sessions k secs d = Inr (l, d') \<and> data_ok d'
    \<and> set l = {s \<in> fst ` set (do_servers d). is_expired k secs (fst (get_server_expiry_iso k s d)) = Some True}
    \<and> fst ` set (do_servers d') = fst ` set (do_servers d) - set l"
proof -
  let ?t = "\<lambda>s. fst (get_server_expiry_iso k s d)"
  have stamp: "?t s \<noteq> [] \<and> ck_parse k (?t s) \<noteq> None" for s
  proof
    show "ck_parse k (?t s) \<noteq> None" using server_stamp_parses assms(2) by (simp add: clock_ok_def)
    show "?t s \<noteq> []"
      using assms(2) by (auto simp: get_server_expiry_iso_def clock_ok_def Let_def split: option.splits)
  qed
  have "is_expired k secs (?t s) = Some (is_expired k secs (?t s) = Some True)" for s
    using stamp [of s] by (cases "ck_parse k (?t s)") (simp_all add: is_expired_def)
  from servers.expire_all [where old = "\<lambda>s. is_expired k secs (?t s) = Some True", OF assms(1) this] obtain d' where
    d': "expire_server_sessions k secs d = Inr (filter (\<lambda>s. is_expired k secs (?t s) = Some True) (map fst (do_servers d)), d')"
      "data_ok d'" "map fst (do_servers d') = filter (\<lambda>s. is_expired k secs (?t s) \<noteq> Some True) (map fst (do_servers d))"
    unfolding expire_server_sessions_def by blast
  have "fst ` set (do_servers d') = set (map fst (do_servers d'))" by simp
  then show ?thesis using d'(1,2) unfolding d'(3) by auto
qed

theorem server_sweep_total_witness:
  "\<exists>l d'. expire_server_sessions sample_clock 3
      (data_object_init\<lparr>do_servers := [(''1.2.3.4'', [(''expiry'', ''garbage'')])]\<rparr>) = Inr (l, d')"
  using server_sweep_total [OF _ clock_ok_sample, of "data_object_init\<lparr>do_servers := [(''1.2.3.4'', [(''expiry'', ''garbage'')])]\<rparr>" 3]
  by (auto simp: data_ok_def data_object_init_def smap_ok_Cons)

text \<open>
  The sweep of the clients has no such protection. If one client has an expiry attribute that is not a
  time, the sweep throws and the sessions behind it are not looked at.
\<close>

theorem client_sweep_throws:
  assumes "data_ok d" and "c \<in> fst ` set (do_clients d)" and "get_client_attribute c ''expiry'' d = t"
    and "t \<noteq> []" and "ck_parse k t = None"
  shows "\<exists>d'. expire_client_sessions k secs d = Inl (BadTime, d')"
  unfolding expire_client_sessions_def
proof (rule clients.expire_bad [OF assms(1)])
  show "is_expired k secs (attr_get c ''expiry'' (do_clients d)) = None"
    using assms(3-5) by (simp add: is_expired_def get_client_attribute_def)
qed (use assms(1,2) in \<open>simp_all add: clients.distinct_keys\<close>)

theorem client_sweep_throws_witness:
  "\<exists>d'. expire_client_sessions sample_clock 3
      (data_object_init\<lparr>do_clients := [(''1.2.3.4'', [(''expiry'', ''x'')]), (''5.6.7.8'', [])]\<rparr>) = Inl (BadTime, d')"
proof -
  from client_sweep_throws [of "data_object_init\<lparr>do_clients := [(''1.2.3.4'', [(''expiry'', ''x'')]), (''5.6.7.8'', [])]\<rparr>"
      "''1.2.3.4''" "''x''" "sample_clock" 3]
  show ?thesis
    by (simp add: data_ok_def data_object_init_def smap_ok_Cons get_client_attribute_def attr_get_def attr_row_def
        sample_clock_def)
qed

text \<open>
  The list cached for a client holds exactly the servers that pass the filters the client has set, each once,
  ordered by the attribute the client asked for and by name among equals.
\<close>

theorem server_list_cached:
  assumes "data_ok d" and "create_listresp k ip d = (n, d')" and "fs = get_client_filters ip d"
  shows "\<exists>v. smap_find ip (do_listreq d') = Some v \<and> n = length v \<and> distinct v
    \<and> set v = {s \<in> fst ` set (do_servers d). \<forall>f \<in> set fs. fst f \<noteq> ''sortby'' \<longrightarrow> get_server_attribute s (fst f) d = snd f}
    \<and> sorted (map (sort_rank (sort_attribute fs) d) v)"
proof -
  let ?ids = "remdups_adj (filter (passes_filter fs d) (map fst (do_servers d)))"
  let ?v = "sort_key (sort_rank (sort_attribute fs) d) ?ids"
  have "distinct (map fst (do_servers d))" using assms(1) by (simp add: data_ok_def smap_ok_distinct)
  then have "distinct ?v" by (simp add: distinct_filter remdups_adj_distinct)
  moreover have "smap_find ip (do_listreq d') = Some ?v" "n = length ?v"
    using assms by (auto simp: create_listresp_def Let_def data_ok_def smap_find_put)
  moreover have "set ?v = {s \<in> fst ` set (do_servers d). \<forall>f \<in> set fs. fst f \<noteq> ''sortby'' \<longrightarrow> get_server_attribute s (fst f) d = snd f}"
    by (auto simp: passes_filter_def list_all_iff)
  ultimately show ?thesis by (metis sorted_sort_key)
qed

theorem server_list_cached_witness:
  "\<exists>v. smap_find ''1.1.1.1'' (do_listreq (snd (create_listresp sample_clock ''1.1.1.1''
      (data_object_init\<lparr>do_servers := [(''a'', [(''x'', ''2'')]), (''b'', [(''x'', ''1'')])]\<rparr>)))) = Some v
    \<and> set v = {''a'', ''b''}"
  using server_list_cached [of "data_object_init\<lparr>do_servers := [(''a'', [(''x'', ''2'')]), (''b'', [(''x'', ''1'')])]\<rparr>"
      "sample_clock" "''1.1.1.1''" _ _ "[]"]
  by (fastforce simp: data_ok_def data_object_init_def smap_ok_Cons get_client_filters_def smap_has_def
      create_listresp_def Let_def)

lemma emplace_present: "smap_ok m \<Longrightarrow> smap_find k m \<noteq> None \<Longrightarrow> smap_emplace k v m = m"
  by (induction k v m rule: smap_emplace.induct) (auto simp: smap_ok_Cons smap_find_below split: if_splits)

text \<open>
  A client that reads its cached list in pages of \<open>n\<close> servers gets, page after page, the list from
  the start, and the store does not change; a page behind the end is empty.
\<close>

theorem server_list_pages:
  assumes "data_ok d" and "smap_find s (do_listreq d) = Some v" and "distinct v" and "s \<noteq> ''default''"
  shows "(\<forall>i. get_server_session_list k i n s d = Inr (take n (drop i v), d))
    \<and> concat (map (\<lambda>i. fst (projr (get_server_session_list k (i * n) n s d))) [0..<m]) = take (m * n) v"
proof -
  have page: "get_server_session_list k i n s d = Inr (take n (drop i v), d)" for i
  proof -
    have "smap_emplace s [] (do_listreq d) = do_listreq d"
      using assms(1,2) by (simp add: emplace_present data_ok_def)
    moreover have "remdups_adj (take n (drop i v)) = take n (drop i v)"
      using assms(3) by (simp add: distinct_drop distinct_take remdups_adj_distinct)
    ultimately show ?thesis using assms(2,4)
      by (cases d) (auto simp: get_server_session_list_def get_server_session_count_def Let_def)
  qed
  have "concat (map (\<lambda>i. take n (drop (i * n) v)) [0..<m]) = take (m * n) v"
  proof (induction m)
    case (Suc m)
    have "take (m * n) v @ take n (drop (m * n) v) = take (m * n + n) v" by (simp add: take_add)
    with Suc show ?case by (simp add: add.commute)
  qed simp
  with page show ?thesis by simp
qed

theorem server_list_pages_witness:
  "get_server_session_list sample_clock 1 2 ''c'' (data_object_init\<lparr>do_listreq := [(''c'', [''x'', ''y'', ''z''])]\<rparr>)
    = Inr ([''y'', ''z''], data_object_init\<lparr>do_listreq := [(''c'', [''x'', ''y'', ''z''])]\<rparr>)"
  using server_list_pages [of "data_object_init\<lparr>do_listreq := [(''c'', [''x'', ''y'', ''z''])]\<rparr>" "''c''" "[''x'', ''y'', ''z'']"
      "sample_clock" 2 0]
  by (simp add: data_ok_def data_object_init_def smap_ok_Cons)

end
