(* ===== verification/Meta_Server.thy ===== *)
theory Meta_Server
  imports Meta_Data
begin

text \<open>
  The metaserver (\<open>apps/metaserver/src/server/MetaServer.cpp\<close>, \<open>MetaServerHandlerUDP.cpp\<close>, \<open>Network.h\<close>):
  the handlers of the packets, the sweep of the expiry timer, the statistics, and the receiving end
  of the UDP socket. The random number of a handshake and the clock are arguments. The result of a
  handler is the server and the reply, or the exception with the server as it is then. Integers
  are in the byte order of a little-endian host. Timers and sockets themselves are not modelled.
\<close>

record meta_server =
  ms_data :: data_object
  ms_handshake_expiry :: u32
  ms_session_expiry :: u32
  ms_client_expiry :: u32
  ms_cache_expiry :: u32
  ms_flush_seconds :: u32
  ms_flush_time :: int
  ms_start_time :: int
  ms_log_sessions :: bool
  ms_sequence :: u64
  ms_commands :: "string list"
  ms_stats :: "(string, string) smap"

definition meta_server_init :: "clock \<Rightarrow> meta_server" where
  "meta_server_init k = \<lparr>ms_data = data_object_init, ms_handshake_expiry = 30, ms_session_expiry = 3600,
     ms_client_expiry = 300, ms_cache_expiry = 60, ms_flush_seconds = 10, ms_flush_time = ck_now k,
     ms_start_time = ck_now k, ms_log_sessions = False, ms_sequence = 0,
     ms_commands = [''NMT_ADMINREQ_ADDSERVER'', ''NMT_ADMINREQ_ENUMERATE''],
     ms_stats = [(''client.cache'', ''0''), (''client.sessions'', ''0''), (''current.handshakes'', ''0''),
       (''packet.sequence'', ''0''), (''server.sessions'', ''0''), (''server.uptime'', ''0'')]\<rparr>"

type_synonym handled = "(meta_error \<times> meta_server) + meta_server \<times> packet"

section \<open>Addresses\<close>

text \<open>\<open>inet_ntop\<close> on the host's representation: the lowest byte comes first.\<close>

definition ip_net_to_ascii :: "u32 \<Rightarrow> string" where
  "ip_net_to_ascii a = (let n = unat a in
     show_nat (n mod 256) @ ''.'' @ show_nat (n div 256 mod 256) @ ''.''
     @ show_nat (n div 65536 mod 256) @ ''.'' @ show_nat (n div 16777216 mod 256))"

text \<open>
  \<open>IpAsciiToNet\<close>: the digits of an octet, with the early return when the value passes 255, and the
  octets with the dots between them.
\<close>

fun read_octet :: "nat \<Rightarrow> nat \<Rightarrow> string \<Rightarrow> (nat \<times> string) option" where
  "read_octet v n [] = (if n = 0 then None else Some (v, []))"
| "read_octet v n (c # cs) =
     (if is_digit c then
        (let v' = 10 * v + digit_val c in if 255 < v' then None else read_octet v' (Suc n) cs)
      else if n = 0 then None else Some (v, c # cs))"

fun read_octets :: "nat \<Rightarrow> nat \<Rightarrow> string \<Rightarrow> nat option" where
  "read_octets i 0 s = (if s = [] then Some 0 else None)"
| "read_octets i (Suc k) s =
     (case read_octet 0 0 s of
        None \<Rightarrow> None
      | Some (v, r) \<Rightarrow>
          (if k = 0 then map_option (\<lambda>t. v * 256 ^ i + t) (read_octets (Suc i) k r)
           else case r of
             [] \<Rightarrow> None
           | c # r' \<Rightarrow> if c = CHR ''.'' then map_option (\<lambda>t. v * 256 ^ i + t) (read_octets (Suc i) k r') else None))"

definition ip_ascii_to_net :: "string \<Rightarrow> u32 option" where
  "ip_ascii_to_net s = map_option of_nat (read_octets 0 4 s)"

definition show_u32 :: "u32 \<Rightarrow> string" where
  "show_u32 w = show_nat (unat w)"

text \<open>
  \<open>istringstream >> temp_int\<close>: an empty text leaves the variable as it was; text without a number
  stores zero, a number that is too large the largest value.
\<close>

definition extract_u32 :: "string \<Rightarrow> u32 \<Rightarrow> u32" where
  "extract_u32 s old = (let r = dropWhile is_space s in
     if r = [] then old
     else case split_sign r of (neg, t) \<Rightarrow>
       let ds = takeWhile is_digit t; v = digits_val ds in
       if ds = [] then 0 else if 2 ^ 32 \<le> v then - 1 else if neg then - of_nat v else of_nat v)"

text \<open>\<open>std::string::substr\<close>\<close>

definition std_substr :: "nat \<Rightarrow> nat \<Rightarrow> string \<Rightarrow> meta_error + string" where
  "std_substr pos n s = (if length s < pos then Inl OutOfRange else Inr (take n (drop pos s)))"

section \<open>Handlers\<close>

definition with_int :: "meta_server \<Rightarrow> packet \<Rightarrow> nat \<Rightarrow> (u32 \<Rightarrow> handled) \<Rightarrow> handled" where
  "with_int ms p off f = (case get_int_data p off of Inl e \<Rightarrow> Inl (e, ms) | Inr i \<Rightarrow> f i)"

definition with_message :: "meta_server \<Rightarrow> packet \<Rightarrow> nat \<Rightarrow> (string \<Rightarrow> handled) \<Rightarrow> handled" where
  "with_message ms p off f = (case get_packet_message p off of Inl e \<Rightarrow> Inl (e, ms) | Inr m \<Rightarrow> f m)"

definition reply :: "meta_server \<Rightarrow> u32 \<Rightarrow> field list \<Rightarrow> packet \<Rightarrow> handled" where
  "reply ms t fs out = (case set_packet_type t out of
      Inl e \<Rightarrow> Inl (e, ms)
    | Inr p \<Rightarrow> (case add_fields fs p of Inl e \<Rightarrow> Inl (e, ms) | Inr q \<Rightarrow> Inr (ms, q)))"

definition process_keepalive :: "clock \<Rightarrow> u32 \<Rightarrow> packet \<Rightarrow> packet \<Rightarrow> meta_server \<Rightarrow> handled" where
  "process_keepalive k rnd inp out ms =
     (case add_handshake k rnd (ms_data ms) of (i, d) \<Rightarrow>
        let ms1 = ms\<lparr>ms_data := d\<rparr> in
        if 0 < i then
          (case reply ms1 NMT_HANDSHAKE [FInt i] out of
             Inl e \<Rightarrow> Inl e
           | Inr (ms2, p) \<Rightarrow> Inr (ms2, set_address (mp_addr inp) (mp_addr_int inp) p))
        else Inr (ms1, out))"

text \<open>The packet may carry an address and a port that replace those of the sender.\<close>

definition int_behind :: "packet \<Rightarrow> nat \<Rightarrow> meta_error + u32 option" where
  "int_behind p off = (if off < mp_bytes p then map_sum id Some (get_int_data p off) else Inr None)"

definition register_server :: "clock \<Rightarrow> string \<Rightarrow> u32 \<Rightarrow> u32 \<Rightarrow> u32 \<Rightarrow> data_object \<Rightarrow> data_object" where
  "register_server k ip port ip_int latency d =
     (let d1 = snd (add_server_session k ip d);
          d2 = snd (add_server_attribute ip ''port'' (show_u32 port) d1);
          d3 = snd (add_server_attribute ip ''ip_int'' (show_u32 ip_int) d2)
      in snd (add_server_attribute ip ''latency'' (show_u32 latency) d3))"

definition process_server_shake :: "clock \<Rightarrow> packet \<Rightarrow> packet \<Rightarrow> meta_server \<Rightarrow> handled" where
  "process_server_shake k inp out ms =
     with_int ms inp 4 (\<lambda>shake.
       if handshake_exists shake (ms_data ms) then
         (case int_behind inp 8 of
            Inl e \<Rightarrow> Inl (e, ms)
          | Inr packed_ip \<Rightarrow> (case int_behind inp 12 of
              Inl e \<Rightarrow> Inl (e, ms)
            | Inr packed_port \<Rightarrow> (case get_handshake_expiry k shake (ms_data ms) of
                Inl e \<Rightarrow> Inl (e, ms)
              | Inr t1 \<Rightarrow>
                  Inr (ms\<lparr>ms_data := register_server k
                         (case packed_ip of None \<Rightarrow> mp_addr inp | Some a \<Rightarrow> ip_net_to_ascii a)
                         (case packed_port of None \<Rightarrow> mp_port inp | Some q \<Rightarrow> q)
                         (case packed_ip of None \<Rightarrow> mp_addr_int inp | Some a \<Rightarrow> a)
                         (get_latency t1 (ck_now k)) (ms_data ms)\<rparr>, out))))
       else Inr (ms, out))"

definition process_terminate :: "packet \<Rightarrow> packet \<Rightarrow> meta_server \<Rightarrow> handled" where
  "process_terminate inp out ms =
     (if 4 < mp_bytes inp then
        with_int ms inp 4 (\<lambda>key.
          if key = 0 then Inr (ms, out)
          else Inr (ms\<lparr>ms_data := remove_server_session (ip_net_to_ascii key) (ms_data ms)\<rparr>, out))
      else Inr (ms\<lparr>ms_data := remove_server_session (mp_addr inp) (ms_data ms)\<rparr>, out))"

definition process_client_shake :: "clock \<Rightarrow> packet \<Rightarrow> packet \<Rightarrow> meta_server \<Rightarrow> handled" where
  "process_client_shake k inp out ms =
     with_int ms inp 4 (\<lambda>shake.
       if handshake_exists shake (ms_data ms) then
         (let d1 = snd (add_client_session k (mp_addr inp) (ms_data ms));
              d2 = snd (add_client_attribute (mp_addr inp) ''port'' (show_u32 (mp_port inp)) d1)
          in Inr (ms\<lparr>ms_data := d2\<rparr>, out))
       else Inr (ms, out))"

text \<open>
  \<open>processLISTREQ\<close>: the test whether the list fits is made in 64-bit unsigned arithmetic. The loop over
  the page skips servers that are gone; \<open>temp_int\<close> keeps its value from one server to the next.
\<close>

fun list_ints :: "data_object \<Rightarrow> nat \<Rightarrow> u32 \<Rightarrow> string list \<Rightarrow> u32 list" where
  "list_ints d room temp [] = []"
| "list_ints d room temp (s # ss) =
     (if room = 0 then []
      else if server_session_exists s d then
        (let t = extract_u32 (get_server_attribute s ''ip_int'' d) temp in t # list_ints d (room - 1) t ss)
      else list_ints d room temp ss)"

definition list_room :: "nat \<Rightarrow> u32 \<Rightarrow> nat" where
  "list_room cnt idx =
     (if int (max_udp_out_bytes - 12) < (int cnt * 4 - uint idx * 4) mod 2 ^ 64
      then (max_udp_out_bytes - 12) div 4 else cnt)"

definition answer_listreq :: "clock \<Rightarrow> packet \<Rightarrow> packet \<Rightarrow> u32 \<Rightarrow> nat \<Rightarrow> data_object \<Rightarrow> meta_server \<Rightarrow> handled" where
  "answer_listreq k inp out idx room d1 ms =
     (case get_server_session_list k (unat idx) room (mp_addr inp) d1 of
        Inl (e, d2) \<Rightarrow> Inl (e, ms\<lparr>ms_data := d2\<rparr>)
      | Inr (ss, d2) \<Rightarrow>
          (let ints = list_ints d2 room 0 ss
           in reply (ms\<lparr>ms_data := d2\<rparr>) NMT_LISTRESP
                (if ints = [] then [FInt 0, FInt 0]
                 else FInt (of_nat (get_server_session_count ''default'' d2)) # FInt (of_nat (length ints)) # map FInt ints)
                (set_address (mp_addr inp) (mp_addr_int inp) out)))"

definition process_listreq :: "clock \<Rightarrow> packet \<Rightarrow> packet \<Rightarrow> meta_server \<Rightarrow> handled" where
  "process_listreq k inp out ms =
     with_int ms inp 4 (\<lambda>idx.
       case (if idx = 0 then create_listresp k (mp_addr inp) (ms_data ms)
             else (get_server_session_count (mp_addr inp) (ms_data ms), ms_data ms)) of
         (cnt, d1) \<Rightarrow> answer_listreq k inp out idx (list_room cnt idx) d1 ms)"

text \<open>The three packets that carry a name and a value.\<close>

definition process_attr :: "(string \<Rightarrow> string \<Rightarrow> string \<Rightarrow> data_object \<Rightarrow> bool \<times> data_object) \<Rightarrow> packet \<Rightarrow> packet \<Rightarrow> meta_server \<Rightarrow> handled" where
  "process_attr add inp out ms =
     with_int ms inp 4 (\<lambda>name_length. with_int ms inp 8 (\<lambda>value_length. with_message ms inp 12 (\<lambda>msg.
       case std_substr (unat name_length) (unat value_length) msg of
         Inl e \<Rightarrow> Inl (e, ms)
       | Inr v \<Rightarrow> reply (ms\<lparr>ms_data := snd (add (mp_addr inp) (take (unat name_length) msg) v (ms_data ms))\<rparr>)
                    NMT_NULL [] out)))"

definition process_server_attr :: "packet \<Rightarrow> packet \<Rightarrow> meta_server \<Rightarrow> handled" where
  "process_server_attr = process_attr add_server_attribute"

definition process_client_attr :: "packet \<Rightarrow> packet \<Rightarrow> meta_server \<Rightarrow> handled" where
  "process_client_attr = process_attr add_client_attribute"

definition process_client_filter :: "packet \<Rightarrow> packet \<Rightarrow> meta_server \<Rightarrow> handled" where
  "process_client_filter = process_attr add_client_filter"

text \<open>\<open>std::list::merge\<close>: of two equal elements the one of the list itself comes first.\<close>

fun list_merge :: "string list \<Rightarrow> string list \<Rightarrow> string list" where
  "list_merge [] ys = ys"
| "list_merge xs [] = xs"
| "list_merge (x # xs) (y # ys) = (if y < x then y # list_merge (x # xs) ys else x # list_merge xs (y # ys))"

definition dns_matches :: "u32 \<Rightarrow> string \<Rightarrow> data_object \<Rightarrow> string list" where
  "dns_matches t n d = remdups_adj
     (if t = DNS_TYPE_A then search_server_sessions ''name'' n d
      else if t = DNS_TYPE_PTR then search_server_sessions ''ip'' n d
      else if t = DNS_TYPE_ALL then list_merge (search_server_sessions ''ip'' n d) (search_server_sessions ''name'' n d)
      else [])"

definition process_dnsreq :: "packet \<Rightarrow> packet \<Rightarrow> meta_server \<Rightarrow> handled" where
  "process_dnsreq inp out ms =
     with_int ms inp 4 (\<lambda>t. with_int ms inp 8 (\<lambda>msg_length. with_message ms inp 12 (\<lambda>msg.
       let found = dns_matches t (take (unat msg_length) msg) (ms_data ms);
           n = FInt (of_nat (length found))
       in reply ms NMT_DNSRESP
            (if found = [] then [FInt 0, FInt 0]
             else n # n # map (\<lambda>s. FInt (of_nat (length s))) found @ [FStr (concat found)]) out)))"

definition process_adminreq :: "clock \<Rightarrow> packet \<Rightarrow> packet \<Rightarrow> meta_server \<Rightarrow> handled" where
  "process_adminreq k inp out ms =
     with_int ms inp 4 (\<lambda>sub.
       if \<not> acl_admin_check (mp_addr inp) (ms_data ms) then
         reply ms NMT_ADMINRESP [FInt sub, FInt NMT_ADMINRESP_DENIED] out
       else if sub = NMT_ADMINREQ_ENUMERATE then
         reply ms NMT_ADMINRESP
           ([FInt NMT_ADMINRESP_ENUMERATE, FInt NMT_ADMINRESP_ACK, FInt (of_nat (length (ms_commands ms)))]
            @ map (\<lambda>c. FInt (of_nat (length c))) (ms_commands ms) @ [FStr (concat (ms_commands ms))]) out
       else if sub = NMT_ADMINREQ_ADDSERVER then
         with_int ms inp 8 (\<lambda>addr. with_int ms inp 12 (\<lambda>port.
           let ip = ip_net_to_ascii addr;
               d1 = snd (add_server_session k ip (ms_data ms));
               d2 = snd (add_server_attribute ip ''port'' (show_u32 port) d1);
               d3 = snd (add_server_attribute ip ''ip_int'' (show_u32 addr) d2)
           in reply (ms\<lparr>ms_data := d3\<rparr>) NMT_ADMINRESP
                [FInt NMT_ADMINRESP_ADDSERVER, FInt NMT_ADMINRESP_ACK, FInt addr, FInt port]
                ((set_address ip addr out)\<lparr>mp_port := port\<rparr>)))
       else reply ms NMT_ADMINRESP [FInt sub, FInt NMT_ADMINRESP_ERR] out)"

definition delta_millis :: "clock \<Rightarrow> meta_server \<Rightarrow> u64" where
  "delta_millis k ms =
     (let d = ck_now k - ms_start_time ms in word_of_int (if d < 0 then - (- d div 1000) else d div 1000))"

definition dispatch_packet :: "clock \<Rightarrow> u32 \<Rightarrow> packet \<Rightarrow> packet \<Rightarrow> meta_server \<Rightarrow> handled" where
  "dispatch_packet k rnd inp out ms =
     (let t = mp_type inp in
      if t = NMT_SERVERKEEPALIVE \<or> t = NMT_CLIENTKEEPALIVE then process_keepalive k rnd inp out ms
      else if t = NMT_SERVERSHAKE then process_server_shake k inp out ms
      else if t = NMT_TERMINATE then process_terminate inp out ms
      else if t = NMT_CLIENTSHAKE then process_client_shake k inp out ms
      else if t = NMT_LISTREQ then process_listreq k inp out ms
      else if t = NMT_SERVERATTR then process_server_attr inp out ms
      else if t = NMT_CLIENTATTR then process_client_attr inp out ms
      else if t = NMT_CLIENTFILTER then process_client_filter inp out ms
      else if t = NMT_DNSREQ then process_dnsreq inp out ms
      else if t = NMT_ADMINREQ then process_adminreq k inp out ms
      else Inr (ms, out))"

definition stamp_in :: "clock \<Rightarrow> packet \<Rightarrow> meta_server \<Rightarrow> packet \<times> meta_server" where
  "stamp_in k inp ms0 =
     (let ms = (if ms_sequence ms0 = 0 then ms0\<lparr>ms_start_time := ck_now k\<rparr> else ms0);
          ms1 = ms\<lparr>ms_sequence := ms_sequence ms + 1\<rparr>
      in (inp\<lparr>mp_seq := ms_sequence ms1, mp_time := delta_millis k ms1\<rparr>, ms1))"

definition stamp_out :: "clock \<Rightarrow> meta_server \<times> packet \<Rightarrow> meta_server \<times> packet" where
  "stamp_out k r = (case r of (ms, out) \<Rightarrow>
     let ms1 = ms\<lparr>ms_sequence := ms_sequence ms + 1\<rparr>
     in (ms1, out\<lparr>mp_seq := ms_sequence ms1, mp_time := delta_millis k ms1, mp_outbound := True\<rparr>))"

definition process_packet :: "clock \<Rightarrow> u32 \<Rightarrow> packet \<Rightarrow> packet \<Rightarrow> meta_server \<Rightarrow> handled" where
  "process_packet k rnd inp out ms =
     (case stamp_in k inp ms of (inp1, ms1) \<Rightarrow> map_sum id (stamp_out k) (dispatch_packet k rnd inp1 out ms1))"

section \<open>Timers and statistics\<close>

text \<open>The sweeps of \<open>expiry_timer\<close>, in order; the first exception ends the tick.\<close>

definition expire_data :: "clock \<Rightarrow> meta_server \<Rightarrow> (meta_error \<times> data_object) + data_object" where
  "expire_data k ms =
     (case expire_handshakes k (ms_handshake_expiry ms) (ms_data ms) of
        Inl e \<Rightarrow> Inl e
      | Inr (_, d1) \<Rightarrow> (case expire_server_sessions k (ms_session_expiry ms) d1 of
          Inl e \<Rightarrow> Inl e
        | Inr (_, d2) \<Rightarrow> (case expire_client_sessions k (ms_client_expiry ms) d2 of
            Inl e \<Rightarrow> Inl e
          | Inr (_, d3) \<Rightarrow> (case expire_client_session_cache k (ms_cache_expiry ms) d3 of
              Inl e \<Rightarrow> Inl e
            | Inr (_, d4) \<Rightarrow>
                (if ms_log_sessions ms then
                   (case get_server_session_list k 0 (get_server_session_count ''default'' d4) ''default'' d4 of
                      Inl e \<Rightarrow> Inl e
                    | Inr (_, d5) \<Rightarrow> Inr d5)
                 else Inr d4)))))"

definition expiry_timer :: "clock \<Rightarrow> meta_server \<Rightarrow> (meta_error \<times> meta_server) + meta_server" where
  "expiry_timer k ms =
     (case expire_data k ms of
        Inl (e, d) \<Rightarrow> Inl (e, ms\<lparr>ms_data := d\<rparr>)
      | Inr d \<Rightarrow> Inr (ms\<lparr>ms_data := d,
           ms_flush_time := (if ck_now k < ms_flush_time ms + uint (ms_flush_seconds ms) * 1000000
                             then ck_now k else ms_flush_time ms)\<rparr>))"

definition update_timer :: "clock \<Rightarrow> meta_server \<Rightarrow> meta_server" where
  "update_timer k ms =
     (let d = ms_data ms;
          put = (\<lambda>n v m. smap_put n v m)
      in ms\<lparr>ms_stats :=
           put ''server.uptime'' (show_nat (unat (delta_millis k ms)))
          (put ''client.cache'' (show_nat (length (get_server_session_cache_list d)))
          (put ''current.handshakes'' (show_nat (get_handshake_count d))
          (put ''client.sessions'' (show_nat (get_client_session_count d))
          (put ''server.sessions'' (show_nat (get_server_session_count ''default'' d))
          (put ''packet.sequence'' (show_nat (unat (ms_sequence ms))) (ms_stats ms))))))\<rparr>)"

text \<open>\<open>getMSStats\<close>: everything for an empty request, else the requested names that exist.\<close>

definition get_ms_stats :: "(string, string) smap \<Rightarrow> meta_server \<Rightarrow> (string, string) smap" where
  "get_ms_stats req ms =
     (if req = [] then ms_stats ms
      else map (\<lambda>e. (fst e, case smap_find (fst e) (ms_stats ms) of None \<Rightarrow> [] | Some v \<Rightarrow> v))
             (filter (\<lambda>e. smap_has (fst e) (ms_stats ms)) req))"

section \<open>The UDP socket\<close>

text \<open>
  \<open>handle_receive\<close>: the next receive is only started at the end, and after an exception only when it
  is a \<open>boost::exception\<close>, as that of the time parser is. The log line before the dispatch reads the
  table of type names at the type. A receive that fails is logged only (\<open>receive_failed\<close>), and no other is started.
  The sender has an address of IPv4: the conversion of another one throws.
\<close>

record udp_handler =
  ud_server :: meta_server
  ud_receiving :: bool
  ud_sent :: "string list"

definition outgoing :: "packet \<Rightarrow> string list" where
  "outgoing rsp = (if 0 < mp_bytes rsp \<and> mp_type rsp \<noteq> NMT_NULL then [take (mp_bytes rsp) (mp_payload rsp)] else [])"

definition finish_receive :: "udp_handler \<Rightarrow> handled \<Rightarrow> meta_error option \<times> udp_handler" where
  "finish_receive u h =
     (case h of
        Inl (e, ms) \<Rightarrow>
          (if e = BadTime then (None, u\<lparr>ud_server := ms, ud_receiving := True\<rparr>)
           else (Some e, u\<lparr>ud_server := ms, ud_receiving := False\<rparr>))
      | Inr (ms, rsp) \<Rightarrow>
          (None, u\<lparr>ud_server := ms, ud_receiving := True, ud_sent := ud_sent u @ outgoing rsp\<rparr>))"

definition handle_receive :: "clock \<Rightarrow> u32 \<Rightarrow> string \<Rightarrow> nat \<Rightarrow> string \<Rightarrow> u32 \<Rightarrow> u32 \<Rightarrow> udp_handler
    \<Rightarrow> meta_error option \<times> udp_handler" where
  "handle_receive k rnd buf n addr addr_int port u =
     (case packet_of buf n of
        Inl e \<Rightarrow> (Some e, u\<lparr>ud_receiving := False\<rparr>)
      | Inr p \<Rightarrow>
          if nmt_pretty_size \<le> unat (mp_type p) then (Some MetaUB, u\<lparr>ud_receiving := False\<rparr>)
          else finish_receive u
            (process_packet k rnd ((set_address addr addr_int p)\<lparr>mp_port := port\<rparr>) packet_new (ud_server u)))"

definition receive_failed :: "udp_handler \<Rightarrow> udp_handler" where
  "receive_failed u = u\<lparr>ud_receiving := False\<rparr>"

text \<open>
  The loop of \<open>main.cpp\<close>: after an exception the timers are started again and the events go on; nothing
  starts the next receive. A datagram that nobody receives stays in the socket. \<open>Inl\<close> is a run whose
  behaviour is undefined.
\<close>

datatype main_event =
    Datagram clock u32 string nat string u32 u32
  | ExpiryTick clock
  | UpdateTick clock
  | ReceiveError

fun main_step :: "udp_handler \<Rightarrow> main_event \<Rightarrow> meta_error + udp_handler" where
  "main_step u (Datagram k rnd buf n addr addr_int port) =
     (if ud_receiving u then
        (case handle_receive k rnd buf n addr addr_int port u of
           (e, u') \<Rightarrow> if e = Some MetaUB then Inl MetaUB else Inr u')
      else Inr u)"
| "main_step u (ExpiryTick k) =
     (case expiry_timer k (ud_server u) of
        Inl (e, ms) \<Rightarrow> if e = MetaUB then Inl MetaUB else Inr (u\<lparr>ud_server := ms\<rparr>)
      | Inr ms \<Rightarrow> Inr (u\<lparr>ud_server := ms\<rparr>))"
| "main_step u (UpdateTick k) = Inr (u\<lparr>ud_server := update_timer k (ud_server u)\<rparr>)"
| "main_step u ReceiveError = Inr (receive_failed u)"

definition udp_init :: "clock \<Rightarrow> udp_handler" where
  "udp_init k = \<lparr>ud_server = meta_server_init k, ud_receiving = True, ud_sent = []\<rparr>"

end
