(* ===== verification/Meta_Guarantees.thy ===== *)
theory Meta_Guarantees
  imports Meta_Server
begin

text \<open>
  What the metaserver guarantees: the invariant of its store under every sequence of datagrams and timer
  ticks, which datagrams are undefined, which stop it, and what each kind of request does and answers.
  The proofs read a datagram once (\<open>handle_receive_packet\<close>, \<open>receive_some\<close>) and then argue about the
  handler of its type.
\<close>

section \<open>The store under the handlers\<close>

definition handled_server :: "handled \<Rightarrow> meta_server" where
  "handled_server h = (case h of Inl (e, ms) \<Rightarrow> ms | Inr (ms, p) \<Rightarrow> ms)"

abbreviation handled_ok :: "handled \<Rightarrow> bool" where
  "handled_ok h \<equiv> data_ok (ms_data (handled_server h))"

lemma handled_server_simps [simp]:
  "handled_server (Inl (e, ms)) = ms" "handled_server (Inr (ms, p)) = ms"
  by (simp_all add: handled_server_def)

lemma server_with_int:
  "(\<And>i. P (handled_server (f i))) \<Longrightarrow> P ms \<Longrightarrow> P (handled_server (with_int ms p off f))"
  by (simp add: with_int_def split: sum.split)

lemma server_with_message:
  "(\<And>m. P (handled_server (f m))) \<Longrightarrow> P ms \<Longrightarrow> P (handled_server (with_message ms p off f))"
  by (simp add: with_message_def split: sum.split)

lemma server_reply [simp]: "handled_server (reply ms t fs p) = ms"
  by (simp add: reply_def split: sum.split)

lemma data_ok_register [simp, intro]: "data_ok d \<Longrightarrow> data_ok (register_server k ip port ii l d)"
  by (auto simp: register_server_def Let_def)

lemma ok_keepalive: "data_ok (ms_data ms) \<Longrightarrow> handled_ok (process_keepalive k rnd inp out ms)"
proof -
  assume "data_ok (ms_data ms)"
  then have "data_ok (snd (add_handshake k rnd (ms_data ms)))" by simp
  then show ?thesis
    by (auto simp: process_keepalive_def add_handshake_def Let_def reply_def split: sum.splits)
qed

lemma ok_server_shake: "data_ok (ms_data ms) \<Longrightarrow> handled_ok (process_server_shake k inp out ms)"
  unfolding process_server_shake_def by (rule server_with_int) (auto split: sum.splits)

lemma ok_terminate: "data_ok (ms_data ms) \<Longrightarrow> handled_ok (process_terminate inp out ms)"
  by (auto simp: process_terminate_def intro: server_with_int [where P = "\<lambda>m. data_ok (ms_data m)"])

lemma ok_client_shake: "data_ok (ms_data ms) \<Longrightarrow> handled_ok (process_client_shake k inp out ms)"
  unfolding process_client_shake_def by (rule server_with_int) (auto simp: Let_def)

lemma ok_answer_listreq: "data_ok d \<Longrightarrow> handled_ok (answer_listreq k inp out idx room d ms)"
  by (auto simp: answer_listreq_def Let_def split: sum.split dest: data_ok_list)

lemma ok_listreq: "data_ok (ms_data ms) \<Longrightarrow> handled_ok (process_listreq k inp out ms)"
  unfolding process_listreq_def
proof (rule server_with_int)
  fix idx :: u32
  assume ok: "data_ok (ms_data ms)"
  let ?x = "if idx = 0 then create_listresp k (mp_addr inp) (ms_data ms)
              else (get_server_session_count (mp_addr inp) (ms_data ms), ms_data ms)"
  have "data_ok (snd ?x)" using ok by simp
  then show "handled_ok (case ?x of (cnt, d1) \<Rightarrow> answer_listreq k inp out idx (list_room cnt idx) d1 ms)"
    by (cases ?x) (simp add: ok_answer_listreq)
qed simp

lemma ok_attr:
  assumes "data_ok (ms_data ms)" and "\<And>s n v d. data_ok d \<Longrightarrow> data_ok (snd (add s n v d))"
  shows "handled_ok (process_attr add inp out ms)"
  unfolding process_attr_def
  by (intro server_with_int [where P = "\<lambda>m. data_ok (ms_data m)"] server_with_message [where P = "\<lambda>m. data_ok (ms_data m)"])
    (use assms in \<open>auto split: sum.split\<close>)

lemma server_dnsreq: "handled_server (process_dnsreq inp out ms) = ms"
  unfolding process_dnsreq_def Let_def
  by (intro server_with_int [where P = "\<lambda>m. m = ms"] server_with_message [where P = "\<lambda>m. m = ms"]) simp_all

lemma ok_adminreq: "data_ok (ms_data ms) \<Longrightarrow> handled_ok (process_adminreq k inp out ms)"
  unfolding process_adminreq_def Let_def
  by (intro server_with_int [where P = "\<lambda>m. data_ok (ms_data m)"])
    (auto intro!: server_with_int [where P = "\<lambda>m. data_ok (ms_data m)"])

lemma ok_dispatch: "data_ok (ms_data ms) \<Longrightarrow> handled_ok (dispatch_packet k rnd inp out ms)"
  by (simp add: dispatch_packet_def Let_def ok_keepalive ok_server_shake ok_terminate ok_client_shake ok_listreq
      ok_attr process_server_attr_def process_client_attr_def process_client_filter_def server_dnsreq ok_adminreq)

lemma stamp_in_data: "stamp_in k inp ms = (i, m) \<Longrightarrow> ms_data m = ms_data ms"
  by (auto simp: stamp_in_def Let_def split: if_splits)

lemma server_stamp_out: "ms_data (handled_server (map_sum id (stamp_out k) h)) = ms_data (handled_server h)"
  by (auto simp: handled_server_def stamp_out_def Let_def split: sum.split)

lemma ok_process_packet: "data_ok (ms_data ms) \<Longrightarrow> handled_ok (process_packet k rnd inp out ms)"
  by (auto simp: process_packet_def server_stamp_out ok_dispatch dest: stamp_in_data split: prod.split)

lemma ok_handle_receive:
  assumes "data_ok (ms_data (ud_server u))" and "handle_receive k rnd buf n addr ai port u = (e, u')"
  shows "data_ok (ms_data (ud_server u'))"
proof -
  have "handled_ok (process_packet k rnd p packet_new (ud_server u))" for p
    using ok_process_packet assms(1) .
  then have "process_packet k rnd p packet_new (ud_server u) = Inr (ms, r) \<Longrightarrow> data_ok (ms_data ms)"
    "process_packet k rnd p packet_new (ud_server u) = Inl (f, ms) \<Longrightarrow> data_ok (ms_data ms)" for p ms r f
    by (metis handled_server_simps)+
  then show ?thesis
    using assms by (auto simp: handle_receive_def finish_receive_def split: sum.splits if_splits)
qed

lemma sweeps_ok:
  assumes "data_ok d"
  shows "expire_handshakes k secs d = Inr (lh, d') \<Longrightarrow> data_ok d'" and "expire_handshakes k secs d = Inl (e, d') \<Longrightarrow> data_ok d'"
    and "expire_server_sessions k secs d = Inr (ls, d') \<Longrightarrow> data_ok d'" and "expire_server_sessions k secs d = Inl (e, d') \<Longrightarrow> data_ok d'"
    and "expire_client_sessions k secs d = Inr (lc, d') \<Longrightarrow> data_ok d'" and "expire_client_sessions k secs d = Inl (e, d') \<Longrightarrow> data_ok d'"
  using handshakes.expire_ok [OF assms handshakes.distinct_keys [OF assms] subset_refl, of k secs]
    servers.expire_ok [OF assms servers.distinct_keys [OF assms] subset_refl, of k secs k]
    clients.expire_ok [OF assms clients.distinct_keys [OF assms] subset_refl, of k secs]
  by (simp_all add: expire_handshakes_def expire_server_sessions_def expire_client_sessions_def)

lemma ok_expire_data:
  assumes "data_ok (ms_data ms)"
  shows "expire_data k ms = Inr d \<Longrightarrow> data_ok d" and "expire_data k ms = Inl (e, d) \<Longrightarrow> data_ok d"
proof -
  have "data_ok (case expire_data k ms of Inl (e, d) \<Rightarrow> d | Inr d \<Rightarrow> d)"
    unfolding expire_data_def using assms
    by (auto split: sum.split)
      (meson sweeps_ok data_ok_cache data_ok_list)+
  then show "expire_data k ms = Inr d \<Longrightarrow> data_ok d" "expire_data k ms = Inl (e, d) \<Longrightarrow> data_ok d"
    by simp_all
qed

lemma sweeps_bad_time:
  assumes "expire_entries k secs rem get xs d = Inl (e, d')"
  shows "e = BadTime"
  using assms by (induction xs arbitrary: d) (auto split: prod.splits option.splits sum.splits if_splits)

lemma expired_caches_bad_time: "expired_caches k secs m = Inl e \<Longrightarrow> e = BadTime"
proof (induction m)
  case (Cons x m)
  then show ?case by (cases "ck_parse k (snd x)"; cases "expired_caches k secs m") simp_all
qed simp

lemma expiry_errors: "expire_data k ms = Inl (e, d) \<Longrightarrow> e = BadTime"
  by (auto simp: expire_data_def expire_handshakes_def expire_server_sessions_def expire_client_sessions_def
      expire_client_session_cache_def get_server_session_list_def Let_def
      split: sum.splits if_splits dest!: sweeps_bad_time expired_caches_bad_time)

lemma ok_main_step:
  assumes "data_ok (ms_data (ud_server u))" and "main_step u ev = Inr u'"
  shows "data_ok (ms_data (ud_server u'))"
proof (cases ev)
  case (Datagram k rnd buf n addr ai port)
  then show ?thesis using assms by (auto split: if_splits prod.splits dest: ok_handle_receive)
next
  case (ExpiryTick k)
  then show ?thesis using assms ok_expire_data [OF assms(1), of k]
    by (auto simp: expiry_timer_def split: sum.splits if_splits)
next
  case (UpdateTick k)
  then show ?thesis using assms by (auto simp: update_timer_def Let_def)
next
  case ReceiveError
  then show ?thesis using assms by (auto simp: receive_failed_def)
qed

text \<open>
  C2: Whatever datagrams arrive or fail to and whenever the timers tick, with whatever clocks, in whatever order, and
  whatever exceptions are thrown on the way: as long as the run is defined, the store of the metaserver keeps its
  invariant. An undefined run is always an access outside of a buffer or a table.
\<close>

theorem server_keeps_store:
  "case run_steps main_step (udp_init k) evs of
     Inl e \<Rightarrow> e = MetaUB
   | Inr u \<Rightarrow> data_ok (ms_data (ud_server u))"
proof -
  have "main_step u ev = Inl e \<Longrightarrow> e = MetaUB" for u ev e
    by (cases ev) (auto split: if_splits prod.splits sum.splits)
  then have "run_steps main_step u evs = Inl e \<Longrightarrow> e = MetaUB" for u e
    by (induction evs arbitrary: u) (auto split: sum.splits)
  moreover have "run_steps main_step (udp_init k) evs = Inr u \<Longrightarrow> data_ok (ms_data (ud_server u))" for u
    by (erule run_steps_invariant [where P = "\<lambda>u. data_ok (ms_data (ud_server u))", rotated])
      (auto simp: udp_init_def meta_server_init_def data_ok_init intro: ok_main_step)
  ultimately show ?thesis by (simp split: sum.split)
qed

section \<open>Reading a datagram\<close>

definition int_at :: "packet \<Rightarrow> nat \<Rightarrow> u32" where
  "int_at p off = of_be32 (take 4 (drop off (mp_payload p)))"

text \<open>The packet that a datagram of the receive buffer becomes.\<close>

definition whole :: "packet \<Rightarrow> bool" where
  "whole p \<longleftrightarrow> length (mp_payload p) = max_packet_bytes \<and> mp_bytes p \<le> max_packet_bytes"

lemma with_int_whole: "whole p \<Longrightarrow> off + 4 \<le> max_packet_bytes \<Longrightarrow> with_int ms p off f = f (int_at p off)"
  by (simp add: with_int_def get_int_data_def read_bytes_def int_at_def whole_def)

lemma int_behind_whole:
  "whole p \<Longrightarrow> off + 4 \<le> max_packet_bytes \<Longrightarrow>
    int_behind p off = Inr (if off < mp_bytes p then Some (int_at p off) else None)"
  by (simp add: int_behind_def get_int_data_def read_bytes_def int_at_def whole_def)

lemma with_message_whole:
  assumes "whole p"
  shows "with_message ms p 12 f =
    (if 12 \<le> mp_bytes p then f (take (mp_bytes p - 12) (drop 12 (mp_payload p))) else Inl (MetaUB, ms))"
proof (cases "12 \<le> mp_bytes p")
  case True
  then show ?thesis
    using assms message_length_le [of 12 "mp_bytes p"]
    by (simp add: with_message_def get_packet_message_def read_bytes_def whole_def)
next
  case False
  have "list_all (\<lambda>n. max_packet_bytes < message_length n 12) [0..<12]"
    by (simp add: upt_rec message_length_def unsigned_ucast_eq unsigned_minus_1_eq_mask mask_eq_exp_minus_1)
  then have "max_packet_bytes < message_length n 12" if "n < 12" for n
    using that by (simp add: list_all_iff)
  from this [of "mp_bytes p"] False assms show ?thesis
    by (auto simp: with_message_def get_packet_message_def read_bytes_def whole_def)
qed

lemma add_fields_long:
  assumes "holds t p" and "max_packet_bytes < length t + length (concat (map field_bytes fs))"
  shows "add_fields fs p = Inl LengthError"
  using assms
proof (induction fs arbitrary: t p)
  case (Cons f fs)
  show ?case
  proof (cases "length t + length (field_bytes f) \<le> max_packet_bytes")
    case True
    from pack_bytes_ok [OF Cons.prems(1) True] obtain p1 where
      "pack_bytes (field_bytes f) p = Inr p1" "holds (t @ field_bytes f) p1" by auto
    with Cons.IH [of "t @ field_bytes f" p1] Cons.prems(2) show ?thesis
      by (simp add: add_fields_def add_field_bytes)
  next
    case False
    with pack_bytes_holds [OF Cons.prems(1)] show ?thesis by (simp add: add_fields_def add_field_bytes)
  qed
qed (simp add: holds_def)

lemma reply_whole:
  defines "b t fs \<equiv> be32 t @ concat (map field_bytes fs)"
  shows "length (b t fs) \<le> max_packet_bytes \<Longrightarrow> \<exists>p. reply ms t fs out = Inr (ms, p) \<and> holds (b t fs) p \<and> mp_type p = t"
    and "max_packet_bytes < length (b t fs) \<Longrightarrow> reply ms t fs out = Inl (LengthError, ms)"
proof -
  from set_packet_type_ok [of t out] obtain p where
    p: "set_packet_type t out = Inr p" "holds (be32 t) p" "mp_type p = t" by blast
  show "\<exists>q. reply ms t fs out = Inr (ms, q) \<and> holds (b t fs) q \<and> mp_type q = t" if "length (b t fs) \<le> max_packet_bytes"
    using add_fields_ok [OF p(2), of fs] that p(1,3) by (auto simp: reply_def b_def)
  show "reply ms t fs out = Inl (LengthError, ms)" if "max_packet_bytes < length (b t fs)"
    using add_fields_long [OF p(2), of fs] that p(1) by (auto simp: reply_def b_def)
qed

lemma reply_no_ub: "reply ms t fs out \<noteq> Inl (MetaUB, m)"
  using reply_whole(1) [of t fs ms out] reply_whole(2) [of t fs ms out]
  by (cases "length (be32 t @ concat (map field_bytes fs)) \<le> max_packet_bytes") auto

lemma list_no_ub:
  assumes "s \<noteq> ''default''" and "data_ok d"
  shows "get_server_session_list k i m s d \<noteq> Inl (e, d')"
  using assms
  by (auto simp: get_server_session_list_def get_server_session_count_def Let_def smap_find_emplace data_ok_def split: option.splits)

section \<open>Which packets are undefined\<close>

abbreviation "message_types \<equiv> {NMT_SERVERATTR, NMT_CLIENTATTR, NMT_CLIENTFILTER, NMT_DNSREQ}"

lemma attr_ub:
  assumes "whole inp"
  shows "(\<exists>m. process_attr add inp out ms = Inl (MetaUB, m)) \<longleftrightarrow> mp_bytes inp < 12"
  using assms
  by (auto simp: process_attr_def with_int_whole with_message_whole std_substr_def reply_no_ub)

lemma dns_ub:
  assumes "whole inp"
  shows "(\<exists>m. process_dnsreq inp out ms = Inl (MetaUB, m)) \<longleftrightarrow> mp_bytes inp < 12"
  using assms
  by (auto simp: process_dnsreq_def with_int_whole with_message_whole reply_no_ub Let_def)

lemma answer_listreq_no_ub:
  assumes "mp_addr inp \<noteq> ''default''" and "data_ok d"
  shows "answer_listreq k inp out idx room d ms \<noteq> Inl (MetaUB, m)"
  using assms by (auto simp: answer_listreq_def list_no_ub reply_no_ub Let_def split: sum.split)

lemma listreq_no_ub:
  assumes "whole inp" and "mp_addr inp \<noteq> ''default''" and "data_ok (ms_data ms)"
  shows "process_listreq k inp out ms \<noteq> Inl (MetaUB, m)"
proof -
  have "data_ok (snd (create_listresp k (mp_addr inp) (ms_data ms)))" using assms(3) by simp
  then show ?thesis using assms
    by (cases "create_listresp k (mp_addr inp) (ms_data ms)")
      (auto simp: process_listreq_def with_int_whole answer_listreq_no_ub)
qed

lemma keepalive_no_ub: "process_keepalive k rnd inp out ms \<noteq> Inl (MetaUB, m)"
  by (auto simp: process_keepalive_def add_handshake_def Let_def reply_no_ub split: sum.split)

lemma shake_no_ub:
  assumes "whole inp"
  shows "process_server_shake k inp out ms \<noteq> Inl (MetaUB, m)" and "process_client_shake k inp out ms \<noteq> Inl (MetaUB, m)"
    and "process_terminate inp out ms \<noteq> Inl (MetaUB, m)" and "process_adminreq k inp out ms \<noteq> Inl (MetaUB, m)"
  using assms
  by (auto simp: process_server_shake_def process_client_shake_def process_terminate_def process_adminreq_def
      with_int_whole int_behind_whole Let_def get_handshake_expiry_def reply_no_ub split: option.splits)

lemma dispatch_ub:
  assumes "whole inp" and "mp_addr inp \<noteq> ''default''" and "data_ok (ms_data ms)"
  shows "(\<exists>m. dispatch_packet k rnd inp out ms = Inl (MetaUB, m)) \<longleftrightarrow>
    mp_type inp \<in> message_types \<and> mp_bytes inp < 12"
  using assms
  by (simp add: dispatch_packet_def Let_def keepalive_no_ub shake_no_ub listreq_no_ub attr_ub dns_ub
      process_server_attr_def process_client_attr_def process_client_filter_def)

definition datagram_type :: "string \<Rightarrow> nat \<Rightarrow> u32" where
  "datagram_type buf n = (if n = 0 then NMT_NULL else of_be32 (take 4 buf))"

lemma packet_of_buffer:
  assumes "length buf = max_packet_bytes" and "n \<le> max_packet_bytes"
  shows "\<exists>p. packet_of buf n = Inr p \<and> whole p \<and> mp_type p = datagram_type buf n \<and> mp_bytes p = n
    \<and> (0 < n \<longrightarrow> mp_payload p = buf)"
  using assms
  by (auto simp: packet_of_def Let_def parse_packet_type_def get_int_data_def read_bytes_def whole_def
      datagram_type_def packet_new_def empty_payload_def)

text \<open>What \<open>process_packet\<close> is given by \<open>handle_receive\<close>.\<close>

lemma stamp_in_same:
  assumes "stamp_in k p ms = (q, m)"
  shows "mp_type q = mp_type p" "mp_bytes q = mp_bytes p" "mp_payload q = mp_payload p" "mp_addr q = mp_addr p"
    "mp_addr_int q = mp_addr_int p" "mp_port q = mp_port p" "ms_data m = ms_data ms" "ms_commands m = ms_commands ms"
  using assms by (auto simp: stamp_in_def Let_def)

lemma handle_receive_packet:
  assumes "length buf = max_packet_bytes" and "n \<le> max_packet_bytes"
  shows "\<exists>p ms. whole p \<and> mp_type p = datagram_type buf n \<and> mp_bytes p = n \<and> (0 < n \<longrightarrow> mp_payload p = buf)
    \<and> mp_addr p = addr \<and> mp_addr_int p = ai \<and> mp_port p = port
    \<and> ms_data ms = ms_data (ud_server u) \<and> ms_commands ms = ms_commands (ud_server u)
    \<and> handle_receive k rnd buf n addr ai port u =
       (if nmt_pretty_size \<le> unat (datagram_type buf n) then (Some MetaUB, u\<lparr>ud_receiving := False\<rparr>)
        else finish_receive u (map_sum id (stamp_out k) (dispatch_packet k rnd p packet_new ms)))"
proof -
  from packet_of_buffer [OF assms] obtain p where
    p: "packet_of buf n = Inr p" "whole p" "mp_type p = datagram_type buf n" "mp_bytes p = n"
      "0 < n \<longrightarrow> mp_payload p = buf" by (elim exE conjE)
  let ?p = "(set_address addr ai p)\<lparr>mp_port := port\<rparr>"
  obtain q ms where s: "stamp_in k ?p (ud_server u) = (q, ms)" by (cases "stamp_in k ?p (ud_server u)")
  have "whole q \<and> mp_type q = mp_type p \<and> mp_bytes q = n \<and> (0 < n \<longrightarrow> mp_payload q = buf)
    \<and> mp_addr q = addr \<and> mp_addr_int q = ai \<and> mp_port q = port \<and> ms_data ms = ms_data (ud_server u)
    \<and> ms_commands ms = ms_commands (ud_server u)"
    using p(2,4,5) by (simp add: stamp_in_same [OF s] set_address_def whole_def)
  moreover have "process_packet k rnd ?p packet_new (ud_server u) = map_sum id (stamp_out k) (dispatch_packet k rnd q packet_new ms)"
    by (simp add: process_packet_def s)
  ultimately show ?thesis
    using p(1,3) by (intro exI [of _ q] exI [of _ ms]) (simp add: handle_receive_def)
qed

lemma finish_stamp:
  "fst (finish_receive u (map_sum id (stamp_out k) h)) = (case h of Inl (e, ms) \<Rightarrow> if e = BadTime then None else Some e | Inr r \<Rightarrow> None)"
  by (auto simp: finish_receive_def stamp_out_def Let_def split: sum.split prod.split)

text \<open>
  C28: a datagram leads to undefined behaviour exactly when its type is behind the table of the names that the log
  line reads, or when it is an attribute, filter or DNS packet of less than twelve bytes, whose message
  would start behind its end.
\<close>

theorem datagram_undefined:
  assumes "length buf = max_packet_bytes" and "n \<le> max_packet_bytes" and "addr \<noteq> ''default''"
    and "data_ok (ms_data (ud_server u))"
  shows "fst (handle_receive k rnd buf n addr ai port u) = Some MetaUB \<longleftrightarrow>
    nmt_pretty_size \<le> unat (datagram_type buf n) \<or> datagram_type buf n \<in> message_types \<and> n < 12"
proof -
  from handle_receive_packet [OF assms(1,2), of addr ai port u k rnd] obtain p ms where
    p: "whole p" "mp_type p = datagram_type buf n" "mp_bytes p = n" "mp_addr p = addr" "ms_data ms = ms_data (ud_server u)"
    and h: "handle_receive k rnd buf n addr ai port u =
       (if nmt_pretty_size \<le> unat (datagram_type buf n) then (Some MetaUB, u\<lparr>ud_receiving := False\<rparr>)
        else finish_receive u (map_sum id (stamp_out k) (dispatch_packet k rnd p packet_new ms)))"
    by (elim exE conjE)
  from dispatch_ub [OF p(1), of ms k rnd packet_new] p assms(3,4) have
    d: "(\<exists>m. dispatch_packet k rnd p packet_new ms = Inl (MetaUB, m)) \<longleftrightarrow> datagram_type buf n \<in> message_types \<and> n < 12"
    by simp
  then have "fst (finish_receive u (map_sum id (stamp_out k) (dispatch_packet k rnd p packet_new ms))) = Some MetaUB
      \<longleftrightarrow> datagram_type buf n \<in> message_types \<and> n < 12"
    unfolding finish_stamp by (cases "dispatch_packet k rnd p packet_new ms") (auto split: prod.splits)
  then show ?thesis unfolding h by (simp del: insert_iff)
qed

theorem datagram_undefined_witness:
  "fst (handle_receive sample_clock 0 (be32 NMT_SERVERATTR @ replicate 1020 (CHR 0x00)) 4 ''1.2.3.4'' 0 0
      (udp_init sample_clock)) = Some MetaUB"
  using datagram_undefined [of "be32 NMT_SERVERATTR @ replicate 1020 (CHR 0x00)" 4 "''1.2.3.4''" "udp_init sample_clock"
      sample_clock 0 0 0]
  by (simp add: udp_init_def meta_server_init_def data_ok_init datagram_type_def)

section \<open>Sessions and attributes\<close>

lemma smap_find_put_any: "smap_find k (smap_put k' v m) = (if k = k' then Some v else smap_find k m)"
  by (induction k' v m rule: smap_put.induct) auto

lemma attr_get_attr_put: "attr_get s' n' (attr_put s n v m) = (if s' = s \<and> n' = n then v else attr_get s' n' m)"
  by (simp add: attr_get_def attr_put_def attr_row_def smap_find_put_any)

text \<open>
  A text message with a name that is longer than the message throws; the exception is not one the
  handler catches, so no receive is pending any more: whatever happens afterwards, the metaserver
  receives and answers nothing. One datagram of twelve bytes from anybody is enough.
\<close>

theorem long_name_deafens:
  assumes "length buf = max_packet_bytes" and "12 \<le> n" and "n \<le> max_packet_bytes"
    and "datagram_type buf n \<in> {NMT_SERVERATTR, NMT_CLIENTATTR, NMT_CLIENTFILTER}"
    and "n - 12 < unat (of_be32 (take 4 (drop 4 buf)))"
    and "ud_receiving u"
  shows "\<exists>u1. main_step u (Datagram k rnd buf n addr ai port) = Inr u1
    \<and> (\<forall>evs u2. run_steps main_step u1 evs = Inr u2 \<longrightarrow> \<not> ud_receiving u2 \<and> ud_sent u2 = ud_sent u)"
proof -
  from handle_receive_packet [OF assms(1,3), of addr ai port u k rnd] obtain p ms where
    p: "whole p" "mp_type p = datagram_type buf n" "mp_bytes p = n" "0 < n \<longrightarrow> mp_payload p = buf"
    and h: "handle_receive k rnd buf n addr ai port u =
       (if nmt_pretty_size \<le> unat (datagram_type buf n) then (Some MetaUB, u\<lparr>ud_receiving := False\<rparr>)
        else finish_receive u (map_sum id (stamp_out k) (dispatch_packet k rnd p packet_new ms)))"
    by (elim exE conjE)
  have "process_attr add p out ms = Inl (OutOfRange, ms)" for add out
    using p(1,3,4) assms(2,3,5) by (simp add: process_attr_def with_int_whole with_message_whole std_substr_def int_at_def whole_def)
  then have "dispatch_packet k rnd p packet_new ms = Inl (OutOfRange, ms)"
    using assms(4) by (auto simp: dispatch_packet_def process_server_attr_def process_client_attr_def
        process_client_filter_def p(2) Let_def)
  moreover have "\<not> nmt_pretty_size \<le> unat (datagram_type buf n)" using assms(4) by auto
  ultimately have "handle_receive k rnd buf n addr ai port u = (Some OutOfRange, u\<lparr>ud_server := ms, ud_receiving := False\<rparr>)"
    unfolding h by (simp add: finish_receive_def)
  then have u1: "main_step u (Datagram k rnd buf n addr ai port) = Inr (u\<lparr>ud_server := ms, ud_receiving := False\<rparr>)"
    using assms(6) by simp
  have deaf: "\<not> ud_receiving v2 \<and> ud_sent v2 = ud_sent u"
    if "run_steps main_step v evs = Inr v2" "\<not> ud_receiving v \<and> ud_sent v = ud_sent u" for v evs v2
  proof (rule run_steps_invariant [where P = "\<lambda>v. \<not> ud_receiving v \<and> ud_sent v = ud_sent u", OF _ that])
    show "\<not> ud_receiving w' \<and> ud_sent w' = ud_sent u"
      if "\<not> ud_receiving w \<and> ud_sent w = ud_sent u" "main_step w ev = Inr w'" for w ev w'
      using that by (cases ev) (auto simp: receive_failed_def split: sum.splits prod.splits if_splits)
  qed
  show ?thesis using u1 deaf by (intro exI conjI allI impI) auto
qed

theorem long_name_deafens_witness:
  "\<exists>u1. main_step (udp_init sample_clock)
      (Datagram sample_clock 0 (be32 NMT_SERVERATTR @ be32 9 @ be32 0 @ replicate 1012 (CHR 0x00)) 12 ''6.6.6.6'' 0 0) = Inr u1
    \<and> \<not> ud_receiving u1"
proof -
  let ?b = "be32 NMT_SERVERATTR @ be32 9 @ be32 0 @ replicate 1012 (CHR 0x00)"
  have "datagram_type ?b 12 = NMT_SERVERATTR" by (simp add: datagram_type_def)
  with long_name_deafens [of ?b 12 "udp_init sample_clock" sample_clock 0 "''6.6.6.6''" 0 0] obtain u1 where
    u1: "main_step (udp_init sample_clock) (Datagram sample_clock 0 ?b 12 ''6.6.6.6'' 0 0) = Inr u1"
    "\<forall>evs u2. run_steps main_step u1 evs = Inr u2 \<longrightarrow> \<not> ud_receiving u2 \<and> ud_sent u2 = ud_sent (udp_init sample_clock)"
    by (auto simp: udp_init_def)
  from u1(2) have "\<not> ud_receiving u1" by (metis run_steps.simps(1))
  with u1(1) show ?thesis by blast
qed

text \<open>What a packet of one of the types is handled by.\<close>

lemma dispatch_types:
  "mp_type p = NMT_SERVERKEEPALIVE \<Longrightarrow> dispatch_packet k rnd p out ms = process_keepalive k rnd p out ms"
  "mp_type p = NMT_SERVERSHAKE \<Longrightarrow> dispatch_packet k rnd p out ms = process_server_shake k p out ms"
  "mp_type p = NMT_CLIENTSHAKE \<Longrightarrow> dispatch_packet k rnd p out ms = process_client_shake k p out ms"
  "mp_type p = NMT_LISTREQ \<Longrightarrow> dispatch_packet k rnd p out ms = process_listreq k p out ms"
  "mp_type p = NMT_SERVERATTR \<Longrightarrow> dispatch_packet k rnd p out ms = process_server_attr p out ms"
  "mp_type p = NMT_ADMINREQ \<Longrightarrow> dispatch_packet k rnd p out ms = process_adminreq k p out ms"
  by (simp_all add: dispatch_packet_def Let_def)

text \<open>A datagram of a known type whose packet the dispatcher handles without an exception.\<close>

lemma receive_some:
  assumes "length buf = max_packet_bytes" and "n \<le> max_packet_bytes" and "unat (datagram_type buf n) < nmt_pretty_size"
    and "\<And>p ms. whole p \<Longrightarrow> mp_type p = datagram_type buf n \<Longrightarrow> mp_bytes p = n \<Longrightarrow> (0 < n \<Longrightarrow> mp_payload p = buf) \<Longrightarrow>
      mp_addr p = addr \<Longrightarrow> mp_addr_int p = ai \<Longrightarrow> mp_port p = port \<Longrightarrow> ms_data ms = ms_data (ud_server u) \<Longrightarrow>
      \<exists>ms' q. dispatch_packet k rnd p packet_new ms = Inr (ms', q) \<and> Q (ms_data ms') (outgoing q)"
  shows "\<exists>u'. handle_receive k rnd buf n addr ai port u = (None, u') \<and> ud_receiving u'
    \<and> (\<exists>s. ud_sent u' = ud_sent u @ s \<and> Q (ms_data (ud_server u')) s)"
proof -
  from handle_receive_packet [OF assms(1,2), of addr ai port u k rnd] obtain p ms where
    p: "whole p" "mp_type p = datagram_type buf n" "mp_bytes p = n" "0 < n \<longrightarrow> mp_payload p = buf"
      "mp_addr p = addr" "mp_addr_int p = ai" "mp_port p = port" "ms_data ms = ms_data (ud_server u)"
    and h: "handle_receive k rnd buf n addr ai port u =
       (if nmt_pretty_size \<le> unat (datagram_type buf n) then (Some MetaUB, u\<lparr>ud_receiving := False\<rparr>)
        else finish_receive u (map_sum id (stamp_out k) (dispatch_packet k rnd p packet_new ms)))"
    by (elim exE conjE)
  from assms(4) [OF p(1-3) p(4) [rule_format] p(5-8)] obtain ms' q where
    "dispatch_packet k rnd p packet_new ms = Inr (ms', q)" "Q (ms_data ms') (outgoing q)" by blast
  then show ?thesis using assms(3) unfolding h by (auto simp: finish_receive_def stamp_out_def outgoing_def Let_def)
qed

lemma receive_ok:
  assumes "length buf = max_packet_bytes" and "n \<le> max_packet_bytes" and "unat (datagram_type buf n) < nmt_pretty_size"
    and "\<And>p ms. whole p \<Longrightarrow> mp_type p = datagram_type buf n \<Longrightarrow> mp_bytes p = n \<Longrightarrow> (0 < n \<Longrightarrow> mp_payload p = buf) \<Longrightarrow>
      mp_addr p = addr \<Longrightarrow> mp_addr_int p = ai \<Longrightarrow> mp_port p = port \<Longrightarrow> ms_data ms = ms_data (ud_server u) \<Longrightarrow>
      \<exists>ms' q. dispatch_packet k rnd p packet_new ms = Inr (ms', q) \<and> ms_data ms' = d
        \<and> sent = outgoing q"
  shows "\<exists>u'. handle_receive k rnd buf n addr ai port u = (None, u') \<and> ud_receiving u' \<and> ms_data (ud_server u') = d
    \<and> ud_sent u' = ud_sent u @ sent"
  using receive_some [OF assms(1-3), of addr ai port u k rnd "\<lambda>d' s. d' = d \<and> sent = s"] assms(4) by blast

lemma sent_holds:
  "holds t q \<Longrightarrow> t \<noteq> [] \<Longrightarrow> mp_type q \<noteq> NMT_NULL \<Longrightarrow> outgoing q = [t]"
  by (simp add: holds_def outgoing_def)

lemma sent_nothing: "mp_type q = NMT_NULL \<Longrightarrow> outgoing q = []" "outgoing packet_new = []"
  by (simp_all add: outgoing_def packet_new_def)

lemma be32_not_Nil [simp]: "be32 w \<noteq> []"
  by (simp add: be32_def Let_def)

lemma keepalive_answer:
  assumes "rnd \<noteq> 0"
  shows "\<exists>ms' q. process_keepalive k rnd inp out ms = Inr (ms', q) \<and> ms_data ms' = snd (add_handshake k rnd (ms_data ms))
    \<and> holds (be32 NMT_HANDSHAKE @ be32 rnd) q \<and> mp_type q = NMT_HANDSHAKE"
proof -
  let ?ms = "ms\<lparr>ms_data := snd (add_handshake k rnd (ms_data ms))\<rparr>"
  have "0 < rnd" using assms by (simp add: word_greater_zero_iff)
  with reply_whole(1) [of NMT_HANDSHAKE "[FInt rnd]" ?ms out] show ?thesis
    by (auto simp: process_keepalive_def add_handshake_def Let_def set_address_def holds_def)
qed

lemma session_attrs:
  assumes "s \<noteq> []"
  shows "n \<noteq> ''expiry'' \<Longrightarrow> n \<noteq> ''ip'' \<Longrightarrow>
      get_server_attribute s' n (snd (add_server_session k s d)) = get_server_attribute s' n d"
    and "get_server_attribute s ''expiry'' (snd (add_server_session k s d)) = now_str k"
    and "server_session_exists s (snd (add_server_session k s d))"
    and "get_server_attribute s' n' (snd (add_server_attribute s n v d)) =
      (if s' = s \<and> n' = n \<and> n \<noteq> [] then v else get_server_attribute s' n' d)"
    and "server_session_exists s' d \<Longrightarrow> server_session_exists s' (snd (add_server_attribute s n v d))"
    and "n \<noteq> [] \<Longrightarrow> server_session_exists s (snd (add_server_attribute s n v d))"
  using assms
  by (simp_all add: add_server_session_def add_server_attribute_def get_server_attribute_def attr_get_attr_put
      server_session_exists_def smap_has_iff Let_def)

lemma register_attrs:
  assumes "s \<noteq> []"
  shows "server_session_exists s (register_server k s port ii l d)"
    and "get_server_attribute s ''port'' (register_server k s port ii l d) = show_u32 port"
    and "get_server_attribute s ''ip_int'' (register_server k s port ii l d) = show_u32 ii"
    and "get_server_attribute s ''latency'' (register_server k s port ii l d) = show_u32 l"
    and "get_server_attribute s ''expiry'' (register_server k s port ii l d) = now_str k"
  using session_attrs [OF assms] assms by (simp_all add: register_server_def Let_def)

text \<open>
  C11: the two-step registration of a server. A keep-alive is answered with a handshake packet that carries
  the random number; a shake that sends this number back before it is removed makes a session for the sender's
  address, with its port, its address as an integer, the time between the two packets and the current
  time as its stamp. The shake is not answered, and the socket goes on receiving.
\<close>

theorem server_registers:
  assumes "length b1 = max_packet_bytes" and "0 < n1" and "n1 \<le> max_packet_bytes" and "take 4 b1 = be32 NMT_SERVERKEEPALIVE"
    and "length b2 = max_packet_bytes" and "take 8 b2 = be32 NMT_SERVERSHAKE @ be32 rnd"
    and "rnd \<noteq> 0" and "addr \<noteq> []" and "ck_parse k2 (now_str k1) = Some t1"
  shows "\<exists>u1 u2. handle_receive k1 rnd b1 n1 addr ai port u = (None, u1)
    \<and> ud_sent u1 = ud_sent u @ [be32 NMT_HANDSHAKE @ be32 rnd]
    \<and> handle_receive k2 r2 b2 8 addr ai port u1 = (None, u2) \<and> ud_receiving u2 \<and> ud_sent u2 = ud_sent u1
    \<and> server_session_exists addr (ms_data (ud_server u2))
    \<and> get_server_attribute addr ''port'' (ms_data (ud_server u2)) = show_u32 port
    \<and> get_server_attribute addr ''ip_int'' (ms_data (ud_server u2)) = show_u32 ai
    \<and> get_server_attribute addr ''latency'' (ms_data (ud_server u2)) = show_u32 (get_latency t1 (ck_now k2))
    \<and> get_server_attribute addr ''expiry'' (ms_data (ud_server u2)) = now_str k2"
proof -
  let ?d1 = "snd (add_handshake k1 rnd (ms_data (ud_server u)))"
  let ?d2 = "register_server k2 addr port ai (get_latency t1 (ck_now k2)) ?d1"
  have t1: "datagram_type b1 n1 = NMT_SERVERKEEPALIVE" using assms(2,4) by (simp add: datagram_type_def)
  have "take 4 b2 = take 4 (take 8 b2)" by simp
  then have t2: "datagram_type b2 8 = NMT_SERVERSHAKE" unfolding assms(6) by (simp add: datagram_type_def)
  have "take 4 (drop 4 b2) = drop 4 (take 8 b2)" by (simp add: drop_take)
  then have shake: "of_be32 (take 4 (drop 4 b2)) = rnd" unfolding assms(6) by simp
  have "\<exists>u1. handle_receive k1 rnd b1 n1 addr ai port u = (None, u1) \<and> ud_receiving u1 \<and> ms_data (ud_server u1) = ?d1
      \<and> ud_sent u1 = ud_sent u @ [be32 NMT_HANDSHAKE @ be32 rnd]"
  proof (rule receive_ok [OF assms(1,3)])
    fix p :: packet and ms :: meta_server assume "mp_type p = datagram_type b1 n1" "ms_data ms = ms_data (ud_server u)"
    with keepalive_answer [OF assms(7), of k1 p packet_new ms] obtain ms' q where
      "dispatch_packet k1 rnd p packet_new ms = Inr (ms', q)" "ms_data ms' = ?d1"
      "holds (be32 NMT_HANDSHAKE @ be32 rnd) q" "mp_type q = NMT_HANDSHAKE"
      by (auto simp: dispatch_types t1)
    then show "\<exists>ms' q. dispatch_packet k1 rnd p packet_new ms = Inr (ms', q)
        \<and> ms_data ms' = ?d1 \<and> [be32 NMT_HANDSHAKE @ be32 rnd] =
          outgoing q"
      by (intro exI [of _ ms'] exI [of _ q]) (simp add: sent_holds)
  qed (simp add: t1)
  then obtain u1 where u1: "handle_receive k1 rnd b1 n1 addr ai port u = (None, u1)" "ms_data (ud_server u1) = ?d1"
      "ud_sent u1 = ud_sent u @ [be32 NMT_HANDSHAKE @ be32 rnd]" by blast
  have hs: "handshake_exists rnd ?d1" "get_handshake_expiry k2 rnd ?d1 = Inr t1"
    using assms(9) by (simp_all add: add_handshake_def handshake_exists_def smap_has_iff get_handshake_expiry_def attr_get_attr_put)
  have "\<exists>u2. handle_receive k2 r2 b2 8 addr ai port u1 = (None, u2) \<and> ud_receiving u2 \<and> ms_data (ud_server u2) = ?d2
      \<and> ud_sent u2 = ud_sent u1 @ []"
  proof (rule receive_ok [OF assms(5)])
    fix p :: packet and ms :: meta_server assume p: "whole p" "mp_type p = datagram_type b2 8" "mp_bytes p = 8" "0 < (8::nat) \<Longrightarrow> mp_payload p = b2"
      "mp_addr p = addr" "mp_addr_int p = ai" "mp_port p = port" "ms_data ms = ms_data (ud_server u1)"
    then have "int_at p 4 = rnd" using shake by (simp add: int_at_def)
    with p hs show "\<exists>ms' q. dispatch_packet k2 r2 p packet_new ms = Inr (ms', q) \<and> ms_data ms' = ?d2
        \<and> [] = outgoing q"
      by (simp add: dispatch_types t2 process_server_shake_def with_int_whole int_behind_whole u1(2) sent_nothing)
  qed (simp_all add: t2)
  then obtain u2 where "handle_receive k2 r2 b2 8 addr ai port u1 = (None, u2)" "ud_receiving u2"
    "ms_data (ud_server u2) = ?d2" "ud_sent u2 = ud_sent u1" by auto
  with u1 register_attrs [OF assms(8)] show ?thesis by simp
qed

theorem server_registers_witness:
  "\<exists>u1 u2. handle_receive sample_clock 7 (be32 NMT_SERVERKEEPALIVE @ replicate 1020 (CHR 0x00)) 4 ''1.2.3.4'' 0 80 (udp_init sample_clock) = (None, u1)
    \<and> handle_receive sample_clock 0 (be32 NMT_SERVERSHAKE @ be32 7 @ replicate 1016 (CHR 0x00)) 8 ''1.2.3.4'' 0 80 u1 = (None, u2)
    \<and> server_session_exists ''1.2.3.4'' (ms_data (ud_server u2))"
proof -
  have "ck_parse sample_clock (now_str sample_clock) = Some 5000000" using clock_ok_sample
    by (simp add: clock_ok_def sample_clock_def)
  with server_registers [of "be32 NMT_SERVERKEEPALIVE @ replicate 1020 (CHR 0x00)" 4
      "be32 NMT_SERVERSHAKE @ be32 7 @ replicate 1016 (CHR 0x00)" 7 "''1.2.3.4''" sample_clock sample_clock 5000000 0 80
      "udp_init sample_clock" 0]
  show ?thesis by auto
qed

text \<open>
  A shake, of a server or of a client, that carries a number the metaserver has not given out, or one that
  has been removed, changes nothing in the store and is not answered.
\<close>

theorem unknown_shake_ignored:
  assumes "length buf = max_packet_bytes" and "4 \<le> n" and "n \<le> max_packet_bytes"
    and "take 8 buf = be32 t @ be32 h" and "t = NMT_SERVERSHAKE \<or> t = NMT_CLIENTSHAKE"
    and "\<not> handshake_exists h (ms_data (ud_server u))"
  shows "\<exists>u'. handle_receive k rnd buf n addr ai port u = (None, u') \<and> ud_receiving u'
    \<and> ms_data (ud_server u') = ms_data (ud_server u) \<and> ud_sent u' = ud_sent u"
proof -
  have "take 4 buf = take 4 (take 8 buf)" by simp
  then have t: "datagram_type buf n = t" unfolding assms(4) using assms(2) by (simp add: datagram_type_def)
  have "take 4 (drop 4 buf) = drop 4 (take 8 buf)" by (simp add: drop_take)
  then have h: "of_be32 (take 4 (drop 4 buf)) = h" unfolding assms(4) by simp
  have "\<exists>u'. handle_receive k rnd buf n addr ai port u = (None, u') \<and> ud_receiving u'
    \<and> ms_data (ud_server u') = ms_data (ud_server u) \<and> ud_sent u' = ud_sent u @ []"
  proof (rule receive_ok [OF assms(1,3)])
    fix p :: packet and ms :: meta_server
    assume p: "whole p" "mp_type p = datagram_type buf n" "0 < n \<Longrightarrow> mp_payload p = buf" "ms_data ms = ms_data (ud_server u)"
    then have "int_at p 4 = h" using h assms(2) by (simp add: int_at_def)
    with p t assms(5,6) show "\<exists>ms' q. dispatch_packet k rnd p packet_new ms = Inr (ms', q)
        \<and> ms_data ms' = ms_data (ud_server u)
        \<and> [] = outgoing q"
      by (auto simp: dispatch_types process_server_shake_def process_client_shake_def with_int_whole sent_nothing)
  qed (use assms(5) t in auto)
  then show ?thesis by simp
qed

theorem unknown_shake_ignored_witness:
  "\<exists>u'. handle_receive sample_clock 0 (be32 NMT_SERVERSHAKE @ be32 7 @ replicate 1016 (CHR 0x00)) 8 ''1.2.3.4'' 0 80 (udp_init sample_clock)
      = (None, u') \<and> ms_data (ud_server u') = data_object_init"
  using unknown_shake_ignored [of "be32 NMT_SERVERSHAKE @ be32 7 @ replicate 1016 (CHR 0x00)" 8 NMT_SERVERSHAKE 7
      "udp_init sample_clock" sample_clock 0 "''1.2.3.4''" 0 80]
  by (auto simp: udp_init_def meta_server_init_def data_object_init_def handshake_exists_def smap_has_def)

text \<open>
  An attribute packet makes a session for its sender, without a keep-alive, a handshake or a shake: after one
  datagram from an address the metaserver has never heard of, the address is a registered server with this
  attribute.
\<close>

theorem attribute_makes_session:
  assumes "length buf = max_packet_bytes" and "n \<le> max_packet_bytes"
    and "n = 12 + length name + length v" and "length name = unat nl" and "length v = unat vl"
    and "take n buf = be32 NMT_SERVERATTR @ be32 nl @ be32 vl @ name @ v" and "name \<noteq> []" and "addr \<noteq> []"
  shows "\<exists>u'. handle_receive k rnd buf n addr ai port u = (None, u') \<and> ud_receiving u'
    \<and> server_session_exists addr (ms_data (ud_server u'))
    \<and> get_server_attribute addr name (ms_data (ud_server u')) = v
    \<and> do_handshakes (ms_data (ud_server u')) = do_handshakes (ms_data (ud_server u))"
proof -
  let ?d = "snd (add_server_attribute addr name v (ms_data (ud_server u)))"
  have "12 \<le> n" using assms(3) by simp
  then have tk: "take j buf = take j (take n buf)" if "j \<le> 12" for j using that by simp
  have ty: "datagram_type buf n = NMT_SERVERATTR" using tk [of 4] \<open>12 \<le> n\<close> unfolding assms(6)
    by (simp add: datagram_type_def)
  have "take 4 (drop 4 buf) = drop 4 (take 8 buf)" "take 4 (drop 8 buf) = drop 8 (take 12 buf)" by (simp_all add: drop_take)
  then have ints: "of_be32 (take 4 (drop 4 buf)) = nl" "of_be32 (take 4 (drop 8 buf)) = vl"
    using tk [of 8] tk [of 12] unfolding assms(6) by simp_all
  have "take (n - 12) (drop 12 buf) = drop 12 (take n buf)" by (simp add: drop_take)
  then have msg: "take (n - 12) (drop 12 buf) = name @ v" unfolding assms(6) by simp
  have "\<exists>u'. handle_receive k rnd buf n addr ai port u = (None, u') \<and> ud_receiving u' \<and> ms_data (ud_server u') = ?d
      \<and> ud_sent u' = ud_sent u @ []"
  proof (rule receive_ok [OF assms(1,2)])
    fix p :: packet and ms :: meta_server
    assume p: "whole p" "mp_type p = datagram_type buf n" "mp_bytes p = n" "0 < n \<Longrightarrow> mp_payload p = buf"
      "mp_addr p = addr" "ms_data ms = ms_data (ud_server u)"
    then have pl: "mp_payload p = buf" using \<open>12 \<le> n\<close> by simp
    have "dispatch_packet k rnd p packet_new ms = reply (ms\<lparr>ms_data := ?d\<rparr>) NMT_NULL [] packet_new"
      using p(1,2,3,5,6) pl ints msg \<open>12 \<le> n\<close>
      by (simp add: dispatch_types ty process_server_attr_def process_attr_def with_int_whole with_message_whole int_at_def
          std_substr_def assms(4) [symmetric] assms(5) [symmetric])
    moreover obtain q where "reply (ms\<lparr>ms_data := ?d\<rparr>) NMT_NULL [] packet_new = Inr (ms\<lparr>ms_data := ?d\<rparr>, q)" "mp_type q = NMT_NULL"
      using reply_whole(1) [of NMT_NULL "[]" "ms\<lparr>ms_data := ?d\<rparr>" packet_new] by auto
    ultimately show "\<exists>ms' q. dispatch_packet k rnd p packet_new ms = Inr (ms', q) \<and> ms_data ms' = ?d
        \<and> [] = outgoing q"
      by (auto simp: sent_nothing)
  qed (simp add: ty)
  moreover have "server_session_exists addr ?d" "get_server_attribute addr name ?d = v"
    using session_attrs [OF assms(8)] assms(7) by simp_all
  moreover have "do_handshakes ?d = do_handshakes (ms_data (ud_server u))" by (simp add: add_server_attribute_def)
  ultimately show ?thesis by metis
qed

theorem attribute_makes_session_witness:
  "\<exists>u'. handle_receive sample_clock 0 (be32 NMT_SERVERATTR @ be32 1 @ be32 1 @ ''a'' @ ''b'' @ replicate 1010 (CHR 0x00)) 14
      ''1.2.3.4'' 0 80 (udp_init sample_clock) = (None, u') \<and> server_session_exists ''1.2.3.4'' (ms_data (ud_server u'))"
proof -
  let ?b = "be32 NMT_SERVERATTR @ be32 1 @ be32 1 @ ''a'' @ ''b'' @ replicate 1010 (CHR 0x00)"
  have "length ?b = max_packet_bytes" "(14::nat) \<le> max_packet_bytes" "14 = 12 + length ''a'' + length ''b''"
    "length ''a'' = unat (1::u32)" "length ''b'' = unat (1::u32)"
    "take 14 ?b = be32 NMT_SERVERATTR @ be32 1 @ be32 1 @ ''a'' @ ''b''" "''a'' \<noteq> []" "''1.2.3.4'' \<noteq> []"
    by simp_all
  from attribute_makes_session [OF this, of sample_clock 0 0 80 "udp_init sample_clock"] show ?thesis by blast
qed

text \<open>
  An administration packet from an address that is not on the list of administrators is answered with a
  refusal that repeats its request, and changes nothing in the store. (The list is only used when it is not empty.)
\<close>

theorem admin_denied:
  assumes "length buf = max_packet_bytes" and "8 \<le> n" and "n \<le> max_packet_bytes"
    and "take 8 buf = be32 NMT_ADMINREQ @ be32 req"
    and "do_admins (ms_data (ud_server u)) \<noteq> {}" and "addr \<notin> do_admins (ms_data (ud_server u))"
  shows "\<exists>u'. handle_receive k rnd buf n addr ai port u = (None, u') \<and> ud_receiving u'
    \<and> ms_data (ud_server u') = ms_data (ud_server u)
    \<and> ud_sent u' = ud_sent u @ [be32 NMT_ADMINRESP @ be32 req @ be32 NMT_ADMINRESP_DENIED]"
proof -
  have "take 4 buf = take 4 (take 8 buf)" by simp
  then have t: "datagram_type buf n = NMT_ADMINREQ" unfolding assms(4) using assms(2) by (simp add: datagram_type_def)
  have "take 4 (drop 4 buf) = drop 4 (take 8 buf)" by (simp add: drop_take)
  then have h: "of_be32 (take 4 (drop 4 buf)) = req" unfolding assms(4) by simp
  show ?thesis
  proof (rule receive_ok [OF assms(1,3)])
    fix p :: packet and ms :: meta_server
    assume p: "whole p" "mp_type p = datagram_type buf n" "0 < n \<Longrightarrow> mp_payload p = buf" "mp_addr p = addr"
      "ms_data ms = ms_data (ud_server u)"
    then have "int_at p 4 = req" using h assms(2) by (simp add: int_at_def)
    with p have "dispatch_packet k rnd p packet_new ms = reply ms NMT_ADMINRESP [FInt req, FInt NMT_ADMINRESP_DENIED] packet_new"
      using assms(5,6) by (simp add: dispatch_types t process_adminreq_def with_int_whole acl_admin_check_def)
    with reply_whole(1) [of NMT_ADMINRESP "[FInt req, FInt NMT_ADMINRESP_DENIED]" ms packet_new] obtain q where
      "dispatch_packet k rnd p packet_new ms = Inr (ms, q)" "holds (be32 NMT_ADMINRESP @ be32 req @ be32 NMT_ADMINRESP_DENIED) q"
      "mp_type q = NMT_ADMINRESP" by auto
    with p(5) show "\<exists>ms' q. dispatch_packet k rnd p packet_new ms = Inr (ms', q) \<and> ms_data ms' = ms_data (ud_server u)
        \<and> [be32 NMT_ADMINRESP @ be32 req @ be32 NMT_ADMINRESP_DENIED] =
          outgoing q"
      by (intro exI [of _ ms] exI [of _ q]) (simp add: sent_holds)
  qed (simp add: t)
qed

theorem admin_denied_witness:
  "\<exists>u'. handle_receive sample_clock 0 (be32 NMT_ADMINREQ @ be32 1 @ replicate 1016 (CHR 0x00)) 16 ''6.6.6.6'' 0 80
      ((udp_init sample_clock)\<lparr>ud_server := (meta_server_init sample_clock)\<lparr>ms_data := add_admin_acl ''1.1.1.1'' data_object_init\<rparr>\<rparr>) = (None, u')
    \<and> ms_data (ud_server u') = add_admin_acl ''1.1.1.1'' data_object_init"
  using admin_denied [of "be32 NMT_ADMINREQ @ be32 1 @ replicate 1016 (CHR 0x00)" 16 1
      "(udp_init sample_clock)\<lparr>ud_server := (meta_server_init sample_clock)\<lparr>ms_data := add_admin_acl ''1.1.1.1'' data_object_init\<rparr>\<rparr>"
      "''6.6.6.6''" sample_clock 0 0 80]
  by (auto simp: add_admin_acl_def data_object_init_def)

text \<open>
  A DNS request never changes the server, whatever it contains and however it ends (the comment above
  \<open>processDNSREQ\<close>: it must never perform any change), and it finds exactly the servers whose name, or whose
  address, or either, is the one asked for, in any case of letters.
\<close>

theorem dns_reads_only:
  "handled_server (process_dnsreq inp out ms) = ms
   \<and> set (dns_matches t n d) =
      {s \<in> fst ` set (do_servers d).
         ((t = DNS_TYPE_A \<or> t = DNS_TYPE_ALL) \<and> iequals (get_server_attribute s ''name'' d) n)
         \<or> ((t = DNS_TYPE_PTR \<or> t = DNS_TYPE_ALL) \<and> iequals (get_server_attribute s ''ip'' d) n)}"
proof -
  have "set (list_merge xs ys) = set xs \<union> set ys" for xs ys
    by (induction xs ys rule: list_merge.induct) auto
  then show ?thesis
    by (auto simp: server_dnsreq dns_matches_def search_server_sessions_def)
qed

section \<open>Answers to list requests\<close>

lemma list_ints_length: "length (list_ints d room t ss) \<le> length ss"
  by (induction d room t ss rule: list_ints.induct) (auto simp: Let_def)

lemma room_enough:
  assumes "unat idx \<le> cnt" and "cnt < 2 ^ 32"
  shows "min (list_room cnt idx) (cnt - unat idx) \<le> 139"
proof -
  define i where "i = unat idx"
  have u: "uint idx = int i" by (simp add: i_def)
  have "(int cnt * 4 - int i * 4) mod 2 ^ 64 = int cnt * 4 - int i * 4"
    using assms unfolding i_def [symmetric] by (intro mod_pos_pos_trivial) simp_all
  then have "list_room cnt idx = (if 558 < int cnt * 4 - int i * 4 then 139 else cnt)"
    unfolding list_room_def u by simp
  then show ?thesis using assms(1) unfolding i_def [symmetric] by auto
qed

lemma list_length:
  assumes "get_server_session_list k i m s d = Inr (ss, d')" and "s \<noteq> ''default''" and "data_ok d"
  shows "length ss \<le> min m (get_server_session_count s d - i)" and "do_servers d' = do_servers d"
proof -
  let ?n = "get_server_session_count s d"
  show "do_servers d' = do_servers d" using assms(1,2) by (auto simp: get_server_session_list_def Let_def split: if_splits)
  show "length ss \<le> min m (?n - i)"
  proof (cases "?n = 0 \<or> ?n \<le> i")
    case True
    then show ?thesis using assms by (auto simp: get_server_session_list_def Let_def)
  next
    case False
    then obtain v where v: "smap_find s (do_listreq d) = Some v" "?n = length v"
      using assms(2) by (auto simp: get_server_session_count_def split: option.splits)
    then have "ss = remdups_adj (take m (drop i v))"
      using assms False by (auto simp: get_server_session_list_def Let_def emplace_present data_ok_def split: if_splits)
    then show ?thesis using v(2) remdups_adj_length [of "take m (drop i v)"] by simp
  qed
qed

lemma listresp_count:
  assumes "create_listresp k s d = (c, d')" and "s \<noteq> ''default''" and "data_ok d"
  shows "get_server_session_count s d' = c" and "c \<le> length (do_servers d)" and "do_servers d' = do_servers d" and "data_ok d'"
proof -
  have "data_ok (snd (create_listresp k s d))" using assms(3) by simp
  then show "data_ok d'" using assms(1) by simp
  have "length (remdups_adj (filter P (map fst (do_servers d)))) \<le> length (do_servers d)" for P
    by (metis le_trans length_filter_le length_map remdups_adj_length)
  then show "get_server_session_count s d' = c" "c \<le> length (do_servers d)" "do_servers d' = do_servers d"
    using assms by (auto simp: create_listresp_def Let_def get_server_session_count_def smap_find_put_any)
qed

lemma answer_list_fits:
  assumes "mp_addr p \<noteq> ''default''" and "data_ok d" and "cnt = get_server_session_count (mp_addr p) d" and "cnt < 2 ^ 32"
    and "m = length (do_servers d)"
  shows "\<exists>d' q ints. answer_listreq k p packet_new idx (list_room cnt idx) d ms = Inr (ms\<lparr>ms_data := d'\<rparr>, q) \<and> length ints \<le> 139
    \<and> outgoing q = [be32 NMT_LISTRESP @ be32 (if ints = [] then 0 else of_nat m) @ be32 (of_nat (length ints)) @ concat (map be32 ints)]"
proof -
  obtain ss d' where l: "get_server_session_list k (unat idx) (list_room cnt idx) (mp_addr p) d = Inr (ss, d')"
    using list_no_ub [OF assms(1,2)] by (cases "get_server_session_list k (unat idx) (list_room cnt idx) (mp_addr p) d") auto
  define ints where "ints = list_ints d' (list_room cnt idx) 0 ss"
  have "length ss \<le> min (list_room cnt idx) (cnt - unat idx)" using list_length(1) [OF l assms(1,2)] assms(3) by simp
  moreover have "min (list_room cnt idx) (cnt - unat idx) \<le> 139"
    by (cases "unat idx \<le> cnt") (use room_enough assms(4) in auto)
  ultimately have short: "length ints \<le> 139" using list_ints_length [of d' "list_room cnt idx" 0 ss]
    unfolding ints_def by linarith
  let ?fs = "if ints = [] then [FInt 0, FInt 0] else FInt (of_nat m) # FInt (of_nat (length ints)) # map FInt ints"
  have cat: "concat (map field_bytes (map FInt xs)) = concat (map be32 xs)" for xs by (simp add: comp_def)
  have fs: "concat (map field_bytes ?fs) = be32 (if ints = [] then 0 else of_nat m) @ be32 (of_nat (length ints)) @ concat (map be32 ints)"
    using cat [of ints] by (auto simp: comp_def)
  have len: "length (concat (map be32 xs)) = 4 * length xs" for xs by (induction xs) auto
  have "m = get_server_session_count ''default'' d'"
    using list_length(2) [OF l assms(1,2)] assms(5) by (simp add: get_server_session_count_def)
  then have "answer_listreq k p packet_new idx (list_room cnt idx) d ms
      = reply (ms\<lparr>ms_data := d'\<rparr>) NMT_LISTRESP ?fs (set_address (mp_addr p) (mp_addr_int p) packet_new)"
    by (simp add: answer_listreq_def l ints_def [symmetric] Let_def)
  moreover from reply_whole(1) [of NMT_LISTRESP ?fs "ms\<lparr>ms_data := d'\<rparr>"] short obtain q where
    "reply (ms\<lparr>ms_data := d'\<rparr>) NMT_LISTRESP ?fs (set_address (mp_addr p) (mp_addr_int p) packet_new) = Inr (ms\<lparr>ms_data := d'\<rparr>, q)"
    "holds (be32 NMT_LISTRESP @ concat (map field_bytes ?fs)) q" "mp_type q = NMT_LISTRESP"
    unfolding fs by (fastforce simp: len)
  ultimately show ?thesis using short unfolding fs by (auto simp: sent_holds)
qed

text \<open>
  C27: a list request is always answered, with a packet of at most 570 bytes: the number of all servers (of all, also
  when the client has set a filter; zero when the page is empty), the number of servers in the packet, at
  most 139, and that many addresses. Nothing the servers have registered can make it throw.
\<close>

theorem list_request_answered:
  assumes "length buf = max_packet_bytes" and "8 \<le> n" and "n \<le> max_packet_bytes" and "take 8 buf = be32 NMT_LISTREQ @ be32 idx"
    and "addr \<noteq> ''default''" and "data_ok (ms_data (ud_server u))" and "length (do_servers (ms_data (ud_server u))) < 2 ^ 32"
    and "get_server_session_count addr (ms_data (ud_server u)) < 2 ^ 32"
  shows "\<exists>u' ints r. handle_receive k rnd buf n addr ai port u = (None, u') \<and> ud_receiving u' \<and> ud_sent u' = ud_sent u @ [r]
    \<and> r = be32 NMT_LISTRESP @ be32 (if ints = [] then 0 else of_nat (length (do_servers (ms_data (ud_server u)))))
          @ be32 (of_nat (length ints)) @ concat (map be32 ints)
    \<and> length ints \<le> 139 \<and> length r \<le> max_udp_out_bytes"
proof -
  let ?d = "ms_data (ud_server u)"
  let ?r = "\<lambda>ints. be32 NMT_LISTRESP @ be32 (if ints = [] then 0 else of_nat (length (do_servers ?d)))
    @ be32 (of_nat (length ints)) @ concat (map be32 ints)"
  have "take 4 buf = take 4 (take 8 buf)" by simp
  then have t: "datagram_type buf n = NMT_LISTREQ" unfolding assms(4) using assms(2) by (simp add: datagram_type_def)
  have "take 4 (drop 4 buf) = drop 4 (take 8 buf)" by (simp add: drop_take)
  then have h: "of_be32 (take 4 (drop 4 buf)) = idx" unfolding assms(4) by simp
  have len: "length (concat (map be32 xs)) = 4 * length xs" for xs by (induction xs) auto
  have "\<exists>u'. handle_receive k rnd buf n addr ai port u = (None, u') \<and> ud_receiving u'
      \<and> (\<exists>s. ud_sent u' = ud_sent u @ s \<and> (\<exists>ints. length ints \<le> 139 \<and> s = [?r ints]))"
  proof (rule receive_some [OF assms(1,3)])
    fix p :: packet and ms :: meta_server
    assume p: "whole p" "mp_type p = datagram_type buf n" "0 < n \<Longrightarrow> mp_payload p = buf" "mp_addr p = addr" "ms_data ms = ?d"
    define c where "c = (if idx = 0 then create_listresp k addr ?d else (get_server_session_count addr ?d, ?d))"
    obtain cnt d1 where c: "c = (cnt, d1)" by (cases c)
    have "data_ok d1 \<and> cnt = get_server_session_count addr d1 \<and> cnt < 2 ^ 32 \<and> do_servers d1 = do_servers ?d"
    proof (cases "idx = 0")
      case True
      with c have "create_listresp k addr ?d = (cnt, d1)" by (simp add: c_def)
      from listresp_count [OF this assms(5,6)] assms(7) show ?thesis by simp
    next
      case False
      with c assms(6,8) show ?thesis by (auto simp: c_def)
    qed
    with answer_list_fits [of p d1 cnt "length (do_servers ?d)" k idx ms] assms(5) p(4) obtain d' q ints where
      q: "answer_listreq k p packet_new idx (list_room cnt idx) d1 ms = Inr (ms\<lparr>ms_data := d'\<rparr>, q)" "length ints \<le> 139"
        "outgoing q = [?r ints]" by auto
    have "int_at p 4 = idx" using p(3) h assms(2) by (simp add: int_at_def)
    with p(1,2,4,5) t c q(1) have "dispatch_packet k rnd p packet_new ms = Inr (ms\<lparr>ms_data := d'\<rparr>, q)"
      by (auto simp: dispatch_types process_listreq_def with_int_whole c_def)
    with q(2,3) show "\<exists>ms' q. dispatch_packet k rnd p packet_new ms = Inr (ms', q) \<and> (\<exists>ints. length ints \<le> 139 \<and> outgoing q = [?r ints])"
      by blast
  qed (simp add: t)
  then obtain u' ints where "handle_receive k rnd buf n addr ai port u = (None, u')" "ud_receiving u'"
    "ud_sent u' = ud_sent u @ [?r ints]" "length ints \<le> 139" by blast
  moreover have "length (?r ints) \<le> max_udp_out_bytes" using \<open>length ints \<le> 139\<close> by (simp add: len)
  ultimately show ?thesis by blast
qed

theorem list_request_answered_witness:
  "\<exists>u' r. handle_receive sample_clock 0 (be32 NMT_LISTREQ @ be32 0 @ replicate 1016 (CHR 0x00)) 8 ''1.2.3.4'' 0 80 (udp_init sample_clock)
      = (None, u') \<and> ud_sent u' = [r] \<and> length r \<le> max_udp_out_bytes"
proof -
  let ?b = "be32 NMT_LISTREQ @ be32 0 @ replicate 1016 (CHR 0x00)"
  have d: "ms_data (ud_server (udp_init sample_clock)) = data_object_init" "ud_sent (udp_init sample_clock) = []"
    by (simp_all add: udp_init_def meta_server_init_def)
  have n: "get_server_session_count s data_object_init = 0" for s
    by (simp add: get_server_session_count_def data_object_init_def)
  have s: "do_servers data_object_init = []" by (simp add: data_object_init_def)
  have "length ?b = max_packet_bytes" "(8::nat) \<le> 8" "(8::nat) \<le> max_packet_bytes" "take 8 ?b = be32 NMT_LISTREQ @ be32 0"
    "''1.2.3.4'' \<noteq> ''default''" "data_ok (ms_data (ud_server (udp_init sample_clock)))"
    "length (do_servers (ms_data (ud_server (udp_init sample_clock)))) < 2 ^ 32"
    "get_server_session_count ''1.2.3.4'' (ms_data (ud_server (udp_init sample_clock))) < 2 ^ 32"
    by (simp_all add: d n s data_ok_init)
  from list_request_answered [OF this, of sample_clock 0 0 80] show ?thesis unfolding d by auto
qed

section \<open>Addresses\<close>

lemma foldl_digits_le: "v \<le> foldl (\<lambda>a c. 10 * a + digit_val c) v ds"
proof (induction ds arbitrary: v)
  case (Cons c ds)
  have "v \<le> 10 * v + digit_val c" by simp
  also have "\<dots> \<le> foldl (\<lambda>a c. 10 * a + digit_val c) (10 * v + digit_val c) ds" by (rule Cons.IH)
  finally show ?case by simp
qed simp

lemma read_octet_run:
  assumes "\<forall>c \<in> set ds. is_digit c" and "foldl (\<lambda>a c. 10 * a + digit_val c) v ds < 256"
    and "r = [] \<or> \<not> is_digit (hd r)" and "0 < k + length ds"
  shows "read_octet v k (ds @ r) = Some (foldl (\<lambda>a c. 10 * a + digit_val c) v ds, r)"
  using assms
proof (induction ds arbitrary: v k)
  case Nil
  then show ?case by (cases r) auto
next
  case (Cons c ds)
  have "10 * v + digit_val c \<le> foldl (\<lambda>a c. 10 * a + digit_val c) (10 * v + digit_val c) ds" by (rule foldl_digits_le)
  with Cons.prems have "\<not> 255 < 10 * v + digit_val c" by simp
  with Cons show ?case by (simp add: Let_def)
qed

lemma read_octet_show:
  assumes "n < 256" and "r = [] \<or> \<not> is_digit (hd r)"
  shows "read_octet 0 0 (show_nat n @ r) = Some (n, r)"
  using read_octet_run [of "show_nat n" 0 r 0] assms show_nat_digits [of _ n] digits_val_show_nat [of n]
  by (auto simp: digits_val_def)

lemma bytes_sum:
  "q1 * 256 + r0 = n \<Longrightarrow> q2 * 256 + r1 = q1 \<Longrightarrow> q3 * 256 + r2 = q2 \<Longrightarrow>
    r0 + (r1 * 256 + (r2 * 65536 + q3 * 16777216)) = (n::nat)"
  by linarith

text \<open>
  The text of an address reads back as the same address, for every address.
\<close>

theorem address_roundtrip: "ip_ascii_to_net (ip_net_to_ascii a) = Some a"
proof -
  let ?n = "unat a"
  have dot: "\<not> is_digit (CHR ''.'')" by (simp add: is_digit_def)
  have four: "(4::nat) = Suc (Suc (Suc (Suc 0)))" by simp
  have "read_octets 0 4 (ip_net_to_ascii a) =
    Some (?n mod 256 + (?n div 256 mod 256 * 256 + (?n div 65536 mod 256 * 65536 + ?n div 16777216 mod 256 * 16777216)))"
    using dot read_octet_show [of "?n div 16777216 mod 256" "[]"]
    unfolding four by (simp add: ip_net_to_ascii_def Let_def read_octet_show power2_eq_square)
  moreover have "?n mod 256 + (?n div 256 mod 256 * 256 + (?n div 65536 mod 256 * 65536 + ?n div 16777216 mod 256 * 16777216)) = ?n"
  proof -
    have "?n < 2 ^ LENGTH(32)" by (rule unsigned_less)
    then have top: "?n div 16777216 mod 256 = ?n div 16777216" by simp
    have split: "?n div 65536 = ?n div 256 div 256" "?n div 16777216 = ?n div 256 div 256 div 256"
      by (simp_all add: div_mult2_eq [symmetric])
    show ?thesis
      unfolding top unfolding split
      by (rule bytes_sum [OF div_mult_mod_eq div_mult_mod_eq div_mult_mod_eq])
  qed
  ultimately have "read_octets 0 4 (ip_net_to_ascii a) = Some ?n" by (simp only:)
  then show ?thesis by (simp add: ip_ascii_to_net_def)
qed

text \<open>
  The two ways to register an address disagree about its integer. A server that sends its address in the shake
  is listed under the integer \<open>IpNetToAscii\<close> shows as that address; a server that leaves it to the
  metaserver to take the sender's address is listed under the host's integer of the address, whose bytes are
  in the opposite order, though both are sessions of the same name.
\<close>

theorem shake_addresses_disagree:
  assumes "whole p" and "mp_bytes p = 8 \<or> mp_bytes p = 12" and "handshake_exists (int_at p 4) (ms_data ms)"
    and "get_handshake_expiry k (int_at p 4) (ms_data ms) = Inr t1"
    and "mp_addr p = ip_net_to_ascii a" and "mp_addr_int p = of_be32 (rev (be32 a))" and "int_at p 8 = a"
  shows "\<exists>ms'. process_server_shake k p out ms = Inr (ms', out)
    \<and> server_session_exists (ip_net_to_ascii a) (ms_data ms')
    \<and> get_server_attribute (ip_net_to_ascii a) ''ip_int'' (ms_data ms')
       = show_u32 (if mp_bytes p = 8 then of_be32 (rev (be32 a)) else a)"
proof -
  have "ip_net_to_ascii a \<noteq> []" by (simp add: ip_net_to_ascii_def Let_def)
  from register_attrs [OF this] show ?thesis
    using assms by (auto simp: process_server_shake_def with_int_whole int_behind_whole)
qed

theorem shake_addresses_disagree_witness:
  "ip_net_to_ascii 0x0102007F = ''127.0.2.1'' \<and> of_be32 (rev (be32 0x0102007F)) = 0x7F000201
   \<and> ip_net_to_ascii 0x7F000201 = ''1.2.0.127''
   \<and> (\<exists>ms'. process_server_shake sample_clock
        (packet_new\<lparr>mp_bytes := 8, mp_payload := be32 NMT_SERVERSHAKE @ be32 7 @ be32 0x0102007F @ replicate 1012 (CHR 0x00),
           mp_addr := ''127.0.2.1'', mp_addr_int := 0x7F000201\<rparr>) packet_new
        ((meta_server_init sample_clock)\<lparr>ms_data := snd (add_handshake sample_clock 7 data_object_init)\<rparr>) = Inr (ms', packet_new)
      \<and> get_server_attribute ''127.0.2.1'' ''ip_int'' (ms_data ms') = show_u32 0x7F000201)"
proof -
  let ?p = "packet_new\<lparr>mp_bytes := 8, mp_payload := be32 NMT_SERVERSHAKE @ be32 7 @ be32 0x0102007F @ replicate 1012 (CHR 0x00),
           mp_addr := ''127.0.2.1'', mp_addr_int := 0x7F000201\<rparr>"
  let ?ms = "(meta_server_init sample_clock)\<lparr>ms_data := snd (add_handshake sample_clock 7 data_object_init)\<rparr>"
  have txts: "ip_net_to_ascii 0x0102007F = ''127.0.2.1''" "ip_net_to_ascii 0x7F000201 = ''1.2.0.127''"
    by (simp_all add: ip_net_to_ascii_def Let_def show_nat.simps digit_char_def char_of_def bit_Suc_0_iff)
  have host: "of_be32 (rev (be32 0x0102007F)) = 0x7F000201"
    by (simp add: of_be32_def be32_def Let_def)
  have p: "whole ?p" "int_at ?p 4 = 7" "int_at ?p 8 = 0x0102007F" by (simp_all add: whole_def int_at_def)
  have hs: "handshake_exists 7 (ms_data ?ms)" "get_handshake_expiry sample_clock 7 (ms_data ?ms) = Inr 5000000"
    by (simp_all add: add_handshake_def handshake_exists_def smap_has_iff get_handshake_expiry_def attr_get_attr_put
        now_str_def sample_clock_def)
  have "\<exists>ms'. process_server_shake sample_clock ?p packet_new ?ms = Inr (ms', packet_new)
      \<and> server_session_exists (ip_net_to_ascii 0x0102007F) (ms_data ms')
      \<and> get_server_attribute (ip_net_to_ascii 0x0102007F) ''ip_int'' (ms_data ms')
       = show_u32 (if mp_bytes ?p = 8 then of_be32 (rev (be32 0x0102007F)) else 0x0102007F)"
    by (rule shake_addresses_disagree) (use p hs txts host in simp_all)
  then show ?thesis using txts host by auto
qed

end
