(* ===== verification/Squall_Store.thy ===== *)
theory Squall_Store
  imports Prelude
begin

text \<open>
  The asset store Squall (\<open>libs/squall/src/squall/core\<close>): signatures (\<open>Signature.cpp\<close>), manifests and their text
  (\<open>Manifest.cpp\<close>), the repository on disk (\<open>Repository.cpp\<close>) and the provider that reads from another repository
  (\<open>Provider.cpp\<close>). Paths are texts, joined as \<open>std::filesystem::path\<close> joins them; the file system maps paths to
  regular files and links (to regular files); the directories that have been created are remembered.
  Whether a file can be written is a parameter of the file system; a write that begins does not fail half way, as it
  does when the disk is full.
\<close>

datatype squall_error =
    SqRuntime    \<comment> \<open>\<open>std::runtime_error\<close>\<close>
  | SqNumber     \<comment> \<open>\<open>std::invalid_argument\<close> or \<open>std::out_of_range\<close> of \<open>stoll\<close>\<close>
  | SqFilesystem \<comment> \<open>\<open>std::filesystem::filesystem_error\<close>\<close>
  | SqRange      \<comment> \<open>\<open>std::out_of_range\<close> of \<open>substr\<close>\<close>
  | SqUB         \<comment> \<open>undefined behaviour\<close>

section \<open>Signatures\<close>

record signature =
  sg_digest :: string
  sg_length :: nat

abbreviation "max_digest \<equiv> 64 :: nat"
abbreviation "min_digest \<equiv> 3 :: nat"

definition signature_none :: signature where
  "signature_none = \<lparr>sg_digest = replicate max_digest (CHR 0x00), sg_length = 0\<rparr>"

definition signature_of_array :: "string \<Rightarrow> nat \<Rightarrow> squall_error + signature" where
  "signature_of_array a n =
     (if n < min_digest then Inl SqRuntime else if max_digest < n then Inl SqRuntime
      else Inr \<lparr>sg_digest = a, sg_length = n\<rparr>)"

definition signature_of :: "string \<Rightarrow> squall_error + signature" where
  "signature_of s =
     (if length s < min_digest then Inl SqRuntime else if max_digest < length s then Inl SqRuntime
      else Inr \<lparr>sg_digest = s @ replicate (max_digest - length s) (CHR 0x00), sg_length = length s\<rparr>)"

definition signature_of_cstr :: "string \<Rightarrow> squall_error + signature" where
  "signature_of_cstr s = signature_of (takeWhile (\<lambda>c. c \<noteq> CHR 0x00) s)"

definition str_view :: "signature \<Rightarrow> string" where
  "str_view s = take (sg_length s) (sg_digest s)"

definition sig_eq :: "signature \<Rightarrow> signature \<Rightarrow> bool" where
  "sig_eq a b \<longleftrightarrow> sg_digest a = sg_digest b"

definition sig_valid :: "signature \<Rightarrow> bool" where
  "sig_valid s \<longleftrightarrow> sg_length s \<le> max_digest \<and> min_digest < sg_length s"

text \<open>What the constructors make of text without a null character.\<close>

definition sig_ok :: "signature \<Rightarrow> bool" where
  "sig_ok s \<longleftrightarrow> length (sg_digest s) = max_digest \<and> min_digest \<le> sg_length s \<and> sg_length s \<le> max_digest \<and> CHR 0x00 \<notin> set (str_view s)
     \<and> sg_digest s = str_view s @ replicate (max_digest - sg_length s) (CHR 0x00)"

section \<open>Manifests\<close>

datatype entry_type = FILE | DIRECTORY

record file_entry =
  fe_name :: string
  fe_sig :: signature
  fe_type :: entry_type
  fe_size :: i64

record manifest =
  mf_version :: string
  mf_entries :: "file_entry list"

definition fe_eq :: "file_entry \<Rightarrow> file_entry \<Rightarrow> bool" where
  "fe_eq a b \<longleftrightarrow> fe_size a = fe_size b \<and> sig_eq (fe_sig a) (fe_sig b) \<and> fe_name a = fe_name b \<and> fe_type a = fe_type b"

definition manifest_eq :: "manifest \<Rightarrow> manifest \<Rightarrow> bool" where
  "manifest_eq a b \<longleftrightarrow> list_all2 fe_eq (mf_entries a) (mf_entries b)"

abbreviation "LF \<equiv> CHR 0x0A"

definition entry_text :: "file_entry \<Rightarrow> string" where
  "entry_text e = str_view (fe_sig e) @ '' '' @ show_i64 (fe_size e) @ '' '' @ fe_name e @ [LF]"

definition manifest_text :: "manifest \<Rightarrow> string" where
  "manifest_text m = mf_version m @ [LF] @ concat (map entry_text (mf_entries m))"

text \<open>\<open>std::getline\<close>: the text up to the delimiter and the rest behind it; nothing is left to read when it fails.\<close>

definition upto_char :: "char \<Rightarrow> string \<Rightarrow> string \<times> string" where
  "upto_char d s = (takeWhile (\<lambda>c. c \<noteq> d) s, tl (dropWhile (\<lambda>c. c \<noteq> d) s))"

definition parse_entry :: "string \<Rightarrow> squall_error + file_entry" where
  "parse_entry line =
     (case upto_char (CHR '' '') line of (sg, r1) \<Rightarrow>
      case upto_char (CHR '' '') r1 of (sz, r2) \<Rightarrow>
      case upto_char LF r2 of (path, _) \<Rightarrow>
        (case stol sz of
           None \<Rightarrow> Inl SqNumber
         | Some n \<Rightarrow>
             (if path = [] then Inl SqUB
              else case signature_of sg of
                Inl e \<Rightarrow> Inl e
              | Inr s \<Rightarrow> Inr \<lparr>fe_name = path, fe_sig = s,
                    fe_type = (if last path = CHR ''/'' then DIRECTORY else FILE), fe_size = n\<rparr>)))"

lemma length_dropWhile_tl: "s \<noteq> [] \<Longrightarrow> length (tl (dropWhile P s)) < length s"
proof -
  assume "s \<noteq> []"
  then have "0 < length s" by simp
  then show ?thesis using length_dropWhile_le [of P s] by (simp only: length_tl)
qed

function parse_entries :: "string \<Rightarrow> squall_error + file_entry list" where
  "parse_entries s =
     (if s = [] then Inr []
      else case upto_char LF s of (line, rest) \<Rightarrow>
        (case parse_entry line of
           Inl e \<Rightarrow> Inl e
         | Inr x \<Rightarrow> map_sum id (\<lambda>xs. x # xs) (parse_entries rest)))"
  by pat_completeness auto
termination
  by (relation "measure length") (auto simp: upto_char_def length_dropWhile_tl simp del: length_tl)

declare parse_entries.simps [simp del]

definition parse_manifest :: "string \<Rightarrow> squall_error + manifest" where
  "parse_manifest s =
     (case upto_char LF s of (version, rest) \<Rightarrow>
        if version = ''1'' then
          (case parse_entries rest of Inl e \<Rightarrow> Inl e | Inr es \<Rightarrow> Inr \<lparr>mf_version = version, mf_entries = es\<rparr>)
        else Inl SqRuntime)"

section \<open>Paths and files\<close>

definition is_absolute :: "string \<Rightarrow> bool" where
  "is_absolute p \<longleftrightarrow> p \<noteq> [] \<and> hd p = CHR ''/''"

definition path_join :: "string \<Rightarrow> string \<Rightarrow> string" where
  "path_join p q =
     (if is_absolute q then q
      else if p = [] \<or> last p = CHR ''/'' then p @ q
      else p @ ''/'' @ q)"

datatype fnode = Regular string int | SymLink string | HardLink string

record files =
  fs_nodes :: "(string, fnode) smap"
  fs_dirs :: "string set"
  fs_writable :: "string \<Rightarrow> bool"
  fs_now :: int

definition link_target :: "files \<Rightarrow> string \<Rightarrow> string" where
  "link_target fs p = (case smap_find p (fs_nodes fs) of
      Some (SymLink q) \<Rightarrow> q | Some (HardLink q) \<Rightarrow> q | _ \<Rightarrow> p)"

definition file_at :: "files \<Rightarrow> string \<Rightarrow> (string \<times> int) option" where
  "file_at fs p = (case smap_find (link_target fs p) (fs_nodes fs) of Some (Regular d t) \<Rightarrow> Some (d, t) | _ \<Rightarrow> None)"

definition path_exists :: "files \<Rightarrow> string \<Rightarrow> bool" where
  "path_exists fs p \<longleftrightarrow> file_at fs p \<noteq> None \<or> p \<in> fs_dirs fs"

definition put_node :: "string \<Rightarrow> fnode \<Rightarrow> files \<Rightarrow> files" where
  "put_node p n fs = fs\<lparr>fs_nodes := smap_put p n (fs_nodes fs)\<rparr>"

text \<open>Writing to a path that is a link writes to the file it leads to.\<close>

definition write_file :: "string \<Rightarrow> string \<Rightarrow> files \<Rightarrow> files" where
  "write_file p d fs = put_node (link_target fs p) (Regular d (fs_now fs)) fs"

definition set_write_time :: "string \<Rightarrow> int \<Rightarrow> files \<Rightarrow> files" where
  "set_write_time p t fs = (case file_at fs p of None \<Rightarrow> fs | Some (d, _) \<Rightarrow> put_node (link_target fs p) (Regular d t) fs)"

definition remove_node :: "string \<Rightarrow> files \<Rightarrow> files" where
  "remove_node p fs = fs\<lparr>fs_nodes := smap_erase p (fs_nodes fs)\<rparr>"

text \<open>\<open>create_directories\<close>: the directory and those it is in.\<close>

definition path_prefixes :: "string \<Rightarrow> string list" where
  "path_prefixes p = p # map (\<lambda>i. take i p) (filter (\<lambda>i. 0 < i \<and> p ! i = CHR ''/'') [0..<length p])"

definition create_dirs :: "string \<Rightarrow> files \<Rightarrow> files" where
  "create_dirs p fs = fs\<lparr>fs_dirs := set (path_prefixes p) \<union> fs_dirs fs\<rparr>"

text \<open>\<open>path::parent_path\<close>\<close>

definition parent_path :: "string \<Rightarrow> string" where
  "parent_path p = rev (tl (dropWhile (\<lambda>c. c \<noteq> CHR ''/'') (rev p)))"

section \<open>The repository\<close>

text \<open>
  A repository is its path. The results with the status \<open>FAILURE\<close> are \<open>None\<close>; the local path of a success is the
  content of \<open>Some\<close>.
\<close>

definition resolve_path :: "string \<Rightarrow> signature \<Rightarrow> string" where
  "resolve_path rp s = path_join (path_join (path_join rp ''data'') (take 2 (str_view s))) (drop 2 (str_view s))"

definition store_text :: "string \<Rightarrow> signature \<Rightarrow> string \<Rightarrow> files \<Rightarrow> string option \<times> files" where
  "store_text rp s t fs =
     (let p = resolve_path rp s; fs1 = create_dirs (parent_path p) fs
      in if fs_writable fs1 p then (Some p, write_file p t fs1) else (None, fs1))"

definition store_data :: "string \<Rightarrow> signature \<Rightarrow> string \<Rightarrow> files \<Rightarrow> string option \<times> files" where
  "store_data rp s d fs = store_text rp s d fs"

definition store_manifest :: "string \<Rightarrow> signature \<Rightarrow> manifest \<Rightarrow> files \<Rightarrow> string option \<times> files" where
  "store_manifest rp s m fs = store_text rp s (manifest_text m) fs"

definition store_file :: "string \<Rightarrow> signature \<Rightarrow> string \<Rightarrow> files \<Rightarrow> squall_error + string option \<times> files" where
  "store_file rp s src fs =
     (let p = resolve_path rp s in
      if \<not> path_exists fs p then
        (case file_at fs src of
           None \<Rightarrow> Inl SqFilesystem
         | Some (d, _) \<Rightarrow>
             (let fs1 = create_dirs (parent_path p) fs
              in if fs_writable fs1 p then Inr (Some p, write_file p d fs1) else Inl SqFilesystem))
      else Inr (Some p, fs))"

definition fetch :: "string \<Rightarrow> signature \<Rightarrow> files \<Rightarrow> string option" where
  "fetch rp s fs = (let p = resolve_path rp s in if path_exists fs p then Some p else None)"

definition contains :: "string \<Rightarrow> signature \<Rightarrow> files \<Rightarrow> bool" where
  "contains rp s fs = path_exists fs (resolve_path rp s)"

text \<open>
  \<open>fetchManifest\<close>: \<open>Inr None\<close> is a failed fetch. A directory in the place of the file opens as a stream that reads
  nothing.
\<close>

definition fetch_manifest :: "string \<Rightarrow> signature \<Rightarrow> files \<Rightarrow> squall_error + (string \<times> manifest) option" where
  "fetch_manifest rp s fs = (case fetch rp s fs of
      None \<Rightarrow> Inr None
    | Some p \<Rightarrow> (case parse_manifest (case file_at fs p of None \<Rightarrow> [] | Some (d, _) \<Rightarrow> d) of
        Inl e \<Rightarrow> Inl e
      | Inr m \<Rightarrow> Inr (Some (p, m))))"

text \<open>\<open>fetch\<close> of a path in a manifest; the path comes as the list of its elements.\<close>

definition part_matches :: "string \<Rightarrow> file_entry \<Rightarrow> bool" where
  "part_matches part e \<longleftrightarrow> (case fe_type e of DIRECTORY \<Rightarrow> butlast (fe_name e) = part | FILE \<Rightarrow> fe_name e = part)"

fun fetch_path :: "string \<Rightarrow> manifest \<Rightarrow> string list \<Rightarrow> files \<Rightarrow> squall_error + string option" where
  "fetch_path rp m [] fs = Inr None"
| "fetch_path rp m (part # parts) fs =
     (case find (part_matches part) (mf_entries m) of
        None \<Rightarrow> Inr None
      | Some e \<Rightarrow> (case fe_type e of
          FILE \<Rightarrow> Inr (fetch rp (fe_sig e) fs)
        | DIRECTORY \<Rightarrow> (case fetch_manifest rp (fe_sig e) fs of
            Inl x \<Rightarrow> Inl x
          | Inr None \<Rightarrow> Inr None
          | Inr (Some (_, m')) \<Rightarrow> fetch_path rp m' parts fs)))"

section \<open>Roots\<close>

definition is_alnum :: "char \<Rightarrow> bool" where
  "is_alnum c \<longleftrightarrow> is_digit c \<or> (65 \<le> (of_char c :: nat) \<and> of_char c \<le> (90 :: nat)) \<or> (97 \<le> (of_char c :: nat) \<and> of_char c \<le> (122 :: nat))"

definition valid_root_name :: "string \<Rightarrow> bool" where
  "valid_root_name n \<longleftrightarrow> length n \<le> 32 \<and> n \<noteq> [] \<and> list_all (\<lambda>c. is_alnum c \<or> c = CHR ''_'' \<or> c = CHR ''-'') n"

definition roots_path :: "string \<Rightarrow> string" where
  "roots_path rp = path_join rp ''roots''"

definition store_root :: "string \<Rightarrow> string \<Rightarrow> signature \<Rightarrow> files \<Rightarrow> string option \<times> files" where
  "store_root rp n s fs =
     (if valid_root_name n then
        (let fs1 = create_dirs (roots_path rp) fs; p = path_join (roots_path rp) n
         in if fs_writable fs1 p then (Some p, write_file p (str_view s) fs1) else (None, fs1))
      else (None, fs))"

definition remove_root :: "string \<Rightarrow> string \<Rightarrow> files \<Rightarrow> string option \<times> files" where
  "remove_root rp n fs =
     (let p = path_join (roots_path rp) n in
      if valid_root_name n \<and> path_exists fs (roots_path rp) \<and> path_exists fs p
      then (Some p, remove_node p fs) else (None, fs))"

definition read_root :: "string \<Rightarrow> string \<Rightarrow> files \<Rightarrow> squall_error + signature option" where
  "read_root rp n fs =
     (if valid_root_name n then
        (case file_at fs (path_join (roots_path rp) n) of
           None \<Rightarrow> Inr None
         | Some (d, _) \<Rightarrow> map_sum id Some (signature_of (fst (upto_char LF d))))
      else Inr None)"

text \<open>\<open>listRoots\<close>: every file directly in the directory, whatever its name.\<close>

definition below :: "string \<Rightarrow> string \<Rightarrow> string option" where
  "below dir p = (if take (length dir + 1) p = dir @ ''/'' then Some (drop (length dir + 1) p) else None)"

fun read_roots :: "string \<Rightarrow> files \<Rightarrow> string list \<Rightarrow> squall_error + (string, signature) smap" where
  "read_roots dir fs [] = Inr []"
| "read_roots dir fs (p # ps) =
     (case below dir p of
        None \<Rightarrow> read_roots dir fs ps
      | Some n \<Rightarrow>
          (if CHR ''/'' \<in> set n \<or> file_at fs p = None then read_roots dir fs ps
           else case signature_of (case file_at fs p of None \<Rightarrow> [] | Some (d, _) \<Rightarrow> fst (upto_char LF d)) of
             Inl e \<Rightarrow> Inl e
           | Inr s \<Rightarrow> map_sum id (smap_put n s) (read_roots dir fs ps)))"

definition list_roots :: "string \<Rightarrow> files \<Rightarrow> squall_error + (string, signature) smap" where
  "list_roots rp fs =
     (if roots_path rp \<in> fs_dirs fs then read_roots (roots_path rp) fs (map fst (fs_nodes fs)) else Inl SqFilesystem)"

section \<open>The provider that reads from a repository\<close>

text \<open>The destination is a temporary file that can be written; the exception of a copy that fails is left out.\<close>

definition repository_provider :: "string \<Rightarrow> signature \<Rightarrow> string \<Rightarrow> files \<Rightarrow> nat option \<times> files" where
  "repository_provider rp s dest fs =
     (case fetch rp s fs of
        None \<Rightarrow> (None, fs)
      | Some p \<Rightarrow>
          (let d = (case file_at fs p of None \<Rightarrow> [] | Some (d, _) \<Rightarrow> d);
               fs1 = create_dirs (parent_path dest) fs
           in (Some (length d), if path_exists fs1 dest then fs1 else write_file dest d fs1)))"

section \<open>Manifests survive the disk\<close>

text \<open>What the generator writes: proper signatures, names of one line that end in a slash exactly for directories.\<close>

definition sig_plain :: "signature \<Rightarrow> bool" where
  "sig_plain s \<longleftrightarrow> sig_ok s \<and> set (str_view s) \<inter> {CHR '' '', LF, CHR ''/''} = {}"

definition entry_ok :: "file_entry \<Rightarrow> bool" where
  "entry_ok e \<longleftrightarrow> sig_plain (fe_sig e) \<and> fe_name e \<noteq> [] \<and> LF \<notin> set (fe_name e)
     \<and> (fe_type e = DIRECTORY \<longleftrightarrow> last (fe_name e) = CHR ''/'')"

definition manifest_ok :: "manifest \<Rightarrow> bool" where
  "manifest_ok m \<longleftrightarrow> mf_version m = ''1'' \<and> list_all entry_ok (mf_entries m)"

lemma upto_char_append: "d \<notin> set a \<Longrightarrow> upto_char d (a @ d # b) = (a, b)"
  by (induction a) (auto simp: upto_char_def)

lemma upto_char_all: "d \<notin> set a \<Longrightarrow> upto_char d a = (a, [])"
  by (induction a) (auto simp: upto_char_def)

lemma length_str_view: "sig_ok s \<Longrightarrow> length (str_view s) = sg_length s"
  by (simp add: sig_ok_def str_view_def)

lemma plain_length: "sig_plain s \<Longrightarrow> 3 \<le> length (str_view s)"
proof -
  assume "sig_plain s"
  then have ok: "sig_ok s" by (simp add: sig_plain_def)
  then have "3 \<le> sg_length s" by (simp add: sig_ok_def)
  with length_str_view [OF ok] show ?thesis by simp
qed

lemma signature_of_view: "sig_ok s \<Longrightarrow> signature_of (str_view s) = Inr s"
  using length_str_view [of s] by (cases s) (auto simp: signature_of_def sig_ok_def)

lemma show_i64_no: "c \<in> {CHR '' '', LF} \<Longrightarrow> c \<notin> set (show_i64 w)"
  by (auto dest!: show_i64_chars simp: is_digit_def)

lemma parse_entry_text:
  assumes "entry_ok e"
  shows "parse_entry (str_view (fe_sig e) @ '' '' @ show_i64 (fe_size e) @ '' '' @ fe_name e) = Inr e"
proof -
  have "CHR '' '' \<notin> set (str_view (fe_sig e))" "sig_ok (fe_sig e)" using assms by (auto simp: entry_ok_def sig_plain_def)
  moreover have "CHR '' '' \<notin> set (show_i64 (fe_size e))" by (rule show_i64_no) simp
  moreover have "fe_type e = (if last (fe_name e) = CHR ''/'' then DIRECTORY else FILE)"
    using assms by (cases "fe_type e") (auto simp: entry_ok_def)
  ultimately show ?thesis
    using assms by (cases e) (simp add: parse_entry_def upto_char_append upto_char_all entry_ok_def signature_of_view)
qed

lemma parse_entries_text:
  assumes "list_all entry_ok es"
  shows "parse_entries (concat (map entry_text es)) = Inr es"
  using assms
proof (induction es)
  case (Cons e es)
  let ?l = "str_view (fe_sig e) @ '' '' @ show_i64 (fe_size e) @ '' '' @ fe_name e"
  have "LF \<notin> set (show_i64 (fe_size e))" by (rule show_i64_no) simp
  with Cons.prems have "LF \<notin> set ?l" by (auto simp: entry_ok_def sig_plain_def)
  then have "upto_char LF (?l @ LF # concat (map entry_text es)) = (?l, concat (map entry_text es))"
    by (rule upto_char_append)
  moreover have "concat (map entry_text (e # es)) = ?l @ LF # concat (map entry_text es)" by (simp add: entry_text_def)
  ultimately show ?case
    using Cons parse_entry_text [of e] by (subst parse_entries.simps) simp
qed (simp add: parse_entries.simps)

lemma parse_manifest_text: "manifest_ok m \<Longrightarrow> parse_manifest (manifest_text m) = Inr m"
  using upto_char_append [of LF "''1''" "concat (map entry_text (mf_entries m))"]
  by (cases m) (simp add: parse_manifest_def manifest_text_def manifest_ok_def parse_entries_text)

section \<open>Where a signature is stored\<close>

lemma resolve_path_plain:
  assumes "sig_plain s" and "rp \<noteq> []"
  shows "resolve_path rp s = path_join rp ''data'' @ ''/'' @ take 2 (str_view s) @ ''/'' @ drop 2 (str_view s)"
proof -
  have "3 \<le> length (str_view s)" using assms(1) by (rule plain_length)
  then obtain a b c r where v: "str_view s = a # b # c # r" by (cases "str_view s" rule: remdups_adj.cases; cases "tl (tl (str_view s))") auto
  have "a \<noteq> CHR ''/''" "b \<noteq> CHR ''/''" "c \<noteq> CHR ''/''" using assms(1) v by (auto simp: sig_plain_def)
  moreover have "path_join rp ''data'' \<noteq> []" "last (path_join rp ''data'') \<noteq> CHR ''/''"
    by (auto simp: path_join_def is_absolute_def)
  ultimately show ?thesis using v by (simp add: resolve_path_def path_join_def is_absolute_def numeral_2_eq_2)
qed

lemma resolve_path_inject:
  assumes "sig_plain a" and "sig_plain b" and "rp \<noteq> []" and "resolve_path rp a = resolve_path rp b"
  shows "a = b"
proof -
  have l: "2 \<le> length (str_view s)" if "sig_plain s" for s using plain_length [OF that] by simp
  have "take 2 (str_view a) @ ''/'' @ drop 2 (str_view a) = take 2 (str_view b) @ ''/'' @ drop 2 (str_view b)"
    using assms by (simp add: resolve_path_plain)
  then have "take 2 (str_view a) = take 2 (str_view b) \<and> drop 2 (str_view a) = drop 2 (str_view b)"
    using l [OF assms(1)] l [OF assms(2)] by (subst (asm) append_eq_append_conv) auto
  then have "str_view a = str_view b" by (metis append_take_drop_id)
  moreover have "sg_length a = sg_length b" using calculation assms length_str_view [of a] length_str_view [of b]
    by (simp add: sig_plain_def)
  ultimately show ?thesis using assms(1,2) by (cases a, cases b) (auto simp: sig_plain_def sig_ok_def)
qed

section \<open>Reading and writing files\<close>

lemma find_put_node [simp]:
  "smap_ok (fs_nodes fs) \<Longrightarrow> smap_find q (fs_nodes (put_node p n fs)) = (if q = p then Some n else smap_find q (fs_nodes fs))"
  by (simp add: put_node_def smap_find_put)

lemma nodes_create_dirs [simp]: "fs_nodes (create_dirs p fs) = fs_nodes fs"
  by (simp add: create_dirs_def)

lemma file_at_create_dirs [simp]: "file_at (create_dirs p fs) q = file_at fs q"
  by (simp add: file_at_def link_target_def)

lemma dirs_put_node [simp]: "fs_dirs (put_node p n fs) = fs_dirs fs"
  by (simp add: put_node_def)

lemma file_at_write:
  assumes "smap_ok (fs_nodes fs)"
  shows "file_at (write_file p d fs) p = Some (d, fs_now fs)"
proof (cases "smap_find p (fs_nodes fs)")
  case (Some n)
  with assms show ?thesis by (cases n) (auto simp: write_file_def file_at_def link_target_def)
qed (use assms in \<open>auto simp: write_file_def file_at_def link_target_def\<close>)

lemma store_text_read:
  assumes "smap_ok (fs_nodes fs)" and "fs_writable fs (resolve_path rp s)"
  shows "\<exists>fs'. store_text rp s t fs = (Some (resolve_path rp s), fs') \<and> file_at fs' (resolve_path rp s) = Some (t, fs_now fs)"
  using assms file_at_write [of "create_dirs (parent_path (resolve_path rp s)) fs" "resolve_path rp s" t]
  by (simp add: store_text_def Let_def create_dirs_def)

text \<open>
  A manifest whose signatures are proper and whose names have one line and end in a slash exactly for
  directories survives the repository: stored under any signature, on any file system that lets it be written, it is
  fetched again as it was.
\<close>

theorem manifest_roundtrip:
  assumes "manifest_ok m" and "smap_ok (fs_nodes fs)" and "fs_writable fs (resolve_path rp s)"
  shows "\<exists>fs'. store_manifest rp s m fs = (Some (resolve_path rp s), fs')
    \<and> fetch_manifest rp s fs' = Inr (Some (resolve_path rp s, m))"
  using store_text_read [OF assms(2,3), of "manifest_text m"] assms(1)
  by (auto simp: store_manifest_def fetch_manifest_def fetch_def path_exists_def Let_def parse_manifest_text)

theorem manifest_roundtrip_witness:
  "\<exists>fs'. store_manifest ''r'' \<lparr>sg_digest = ''abcd'' @ replicate 60 (CHR 0x00), sg_length = 4\<rparr>
      \<lparr>mf_version = ''1'', mf_entries = [\<lparr>fe_name = ''sub/'', fe_sig = \<lparr>sg_digest = ''efgh'' @ replicate 60 (CHR 0x00), sg_length = 4\<rparr>,
        fe_type = DIRECTORY, fe_size = 7\<rparr>]\<rparr>
      \<lparr>fs_nodes = [], fs_dirs = {}, fs_writable = (\<lambda>p. True), fs_now = 0\<rparr> = (Some ''r/data/ab/cd'', fs')"
proof -
  let ?m = "\<lparr>mf_version = ''1'', mf_entries = [\<lparr>fe_name = ''sub/'', fe_sig = \<lparr>sg_digest = ''efgh'' @ replicate 60 (CHR 0x00), sg_length = 4\<rparr>,
        fe_type = DIRECTORY, fe_size = 7\<rparr>]\<rparr> :: manifest"
  let ?s = "\<lparr>sg_digest = ''abcd'' @ replicate 60 (CHR 0x00), sg_length = 4\<rparr> :: signature"
  have "manifest_ok ?m"
    by (simp add: manifest_ok_def entry_ok_def sig_plain_def sig_ok_def str_view_def)
  moreover have "resolve_path ''r'' ?s = ''r/data/ab/cd''"
    by (simp add: resolve_path_def path_join_def is_absolute_def str_view_def)
  ultimately show ?thesis
    using manifest_roundtrip [of ?m "\<lparr>fs_nodes = [], fs_dirs = {}, fs_writable = (\<lambda>p. True), fs_now = 0\<rparr>" "''r''" ?s] by auto
qed

end
