(* ===== verification/Squall_Walk.thy ===== *)
theory Squall_Walk
  imports Squall_Store "HOL-Library.Product_Lexorder" "HOL-Library.List_Lexorder"
begin

text \<open>
  Walking over what a manifest describes (\<open>Iterator.cpp\<close>), comparing two manifests (\<open>Difference.cpp\<close>) and finding
  the files no root leads to (\<open>Pruner.cpp\<close>). The stack of an iterator has its last element first. The loops over an
  iterator need not end (a manifest could contain itself), so they are partial functions; they are shown to
  end, and what they visit is compared with the depth-first order of the tree the repository stores.
\<close>

section \<open>The iterator\<close>

record iter =
  it_repo :: "string option"
  it_stack :: "(manifest \<times> nat) list"
  it_recurse :: bool

definition iter_end :: iter where
  "iter_end = \<lparr>it_repo = None, it_stack = [], it_recurse = True\<rparr>"

definition iter_new :: "string \<Rightarrow> manifest \<Rightarrow> bool \<Rightarrow> iter" where
  "iter_new rp m rec = \<lparr>it_repo = Some rp, it_stack = [(m, 0)], it_recurse = rec\<rparr>"

definition frame_eq :: "manifest \<times> nat \<Rightarrow> manifest \<times> nat \<Rightarrow> bool" where
  "frame_eq a b \<longleftrightarrow> manifest_eq (fst a) (fst b) \<and> snd a = snd b"

definition iter_eq :: "iter \<Rightarrow> iter \<Rightarrow> bool" where
  "iter_eq a b \<longleftrightarrow> list_all2 frame_eq (it_stack a) (it_stack b)"

fun stack_path :: "(manifest \<times> nat) list \<Rightarrow> string" where
  "stack_path [] = []"
| "stack_path ((m, i) # st) =
     (if mf_entries m = [] then stack_path st else path_join (stack_path st) (fe_name (mf_entries m ! i)))"

definition in_range :: "manifest \<times> nat \<Rightarrow> bool" where
  "in_range f \<longleftrightarrow> snd f < length (mf_entries (fst f))"

definition iter_deref :: "iter \<Rightarrow> squall_error + string \<times> file_entry" where
  "iter_deref i =
     (case (it_repo i, it_stack i) of
        (Some _, (m, k) # st) \<Rightarrow>
          (if \<not> list_all (\<lambda>f. mf_entries (fst f) = [] \<or> in_range f) st \<or> \<not> in_range (m, k) then Inl SqUB
           else let e = mf_entries m ! k; p = stack_path ((m, k) # st)
                in Inr (if fe_type e = DIRECTORY then path_join p [] else p, e))
      | _ \<Rightarrow> Inl SqRuntime)"

definition iter_active :: "iter \<Rightarrow> signature" where
  "iter_active i = (case it_stack i of
      [] \<Rightarrow> signature_none
    | (m, k) # st \<Rightarrow> if mf_entries m = [] then signature_none else fe_sig (mf_entries m ! k))"

definition iter_bool :: "files \<Rightarrow> iter \<Rightarrow> bool" where
  "iter_bool fs i \<longleftrightarrow> (case it_repo i of
      None \<Rightarrow> False
    | Some rp \<Rightarrow> it_stack i \<noteq> [] \<and> sig_valid (iter_active i) \<and> contains rp (iter_active i) fs)"

fun iter_pop :: "(manifest \<times> nat) list \<Rightarrow> (manifest \<times> nat) list" where
  "iter_pop [] = []"
| "iter_pop ((m, k) # st) = (if Suc k = length (mf_entries m) then iter_pop st else (m, Suc k) # st)"

definition iter_step :: "files \<Rightarrow> iter \<Rightarrow> squall_error + iter" where
  "iter_step fs i =
     (case it_repo i of
        None \<Rightarrow> Inr i
      | Some rp \<Rightarrow> (case it_stack i of
          [] \<Rightarrow> Inl SqUB
        | (m, k) # st \<Rightarrow>
            (if \<not> in_range (m, k) then Inl SqUB
             else let e = mf_entries m ! k in
               if fe_type e = DIRECTORY \<and> it_recurse i then
                 (case fetch_manifest rp (fe_sig e) fs of
                    Inl x \<Rightarrow> Inl x
                  | Inr None \<Rightarrow> Inr i
                  | Inr (Some (_, m')) \<Rightarrow>
                      Inr (i\<lparr>it_stack := (if mf_entries m' \<noteq> [] then (m', 0) # it_stack i else iter_pop (it_stack i))\<rparr>))
               else Inr (i\<lparr>it_stack := iter_pop (it_stack i)\<rparr>))))"

text \<open>The comparison with the end, which is how every loop uses \<open>operator==\<close>.\<close>

lemma iter_eq_end: "iter_eq i iter_end \<longleftrightarrow> it_stack i = []"
  by (simp add: iter_eq_def iter_end_def)

section \<open>What a loop over an iterator visits\<close>

text \<open>The loop of the comparison and of the pruner: as long as the iterator is not at its end and its entry is there.\<close>

partial_function (option) walk_loop ::
    "files \<Rightarrow> iter \<Rightarrow> (string \<times> file_entry) list \<Rightarrow> (squall_error + (string \<times> file_entry) list) option" where
  "walk_loop fs i acc =
     (if iter_eq i iter_end \<or> \<not> iter_bool fs i then Some (Inr acc)
      else case iter_deref i of
        Inl e \<Rightarrow> Some (Inl e)
      | Inr x \<Rightarrow> (case iter_step fs i of
          Inl e \<Rightarrow> Some (Inl e)
        | Inr i' \<Rightarrow> walk_loop fs i' (acc @ [x])))"

text \<open>The tree a repository stores under the entries of a manifest; a directory that is missing has no children.\<close>

datatype stree = Leaf file_entry | Branch file_entry "stree list"

inductive stored :: "string \<Rightarrow> files \<Rightarrow> file_entry list \<Rightarrow> stree list \<Rightarrow> bool" for rp fs where
  stored_Nil: "stored rp fs [] []"
| stored_file: "fe_type e = FILE \<Longrightarrow> stored rp fs es ts \<Longrightarrow> stored rp fs (e # es) (Leaf e # ts)"
| stored_dir: "fe_type e = DIRECTORY \<Longrightarrow> fetch_manifest rp (fe_sig e) fs = Inr (Some (p, m)) \<Longrightarrow>
    stored rp fs (mf_entries m) ks \<Longrightarrow> stored rp fs es ts \<Longrightarrow> stored rp fs (e # es) (Branch e ks # ts)"
| stored_missing: "fe_type e = DIRECTORY \<Longrightarrow> fetch_manifest rp (fe_sig e) fs = Inr None \<Longrightarrow>
    stored rp fs es ts \<Longrightarrow> stored rp fs (e # es) (Branch e [] # ts)"

inductive_cases stored_NilE: "stored rp fs [] ts"
inductive_cases stored_ConsE: "stored rp fs (e # es) ts"

fun walk_tree :: "string \<Rightarrow> stree \<Rightarrow> (string \<times> file_entry) list" where
  "walk_tree p (Leaf e) = [(path_join p (fe_name e), e)]"
| "walk_tree p (Branch e ks) =
     (path_join (path_join p (fe_name e)) [], e) # concat (map (walk_tree (path_join p (fe_name e))) ks)"

definition walk_trees :: "string \<Rightarrow> stree list \<Rightarrow> (string \<times> file_entry) list" where
  "walk_trees p ts = concat (map (walk_tree p) ts)"

definition present :: "string \<Rightarrow> files \<Rightarrow> string \<times> file_entry \<Rightarrow> bool" where
  "present rp fs x \<longleftrightarrow> sig_valid (fe_sig (snd x)) \<and> contains rp (fe_sig (snd x)) fs"

text \<open>What is left to visit: behind the frames below, and from the top frame on.\<close>

inductive pending :: "string \<Rightarrow> files \<Rightarrow> (manifest \<times> nat) list \<Rightarrow> (string \<times> file_entry) list \<Rightarrow> bool" for rp fs where
  pending_Nil: "pending rp fs [] []"
| pending_Cons: "in_range (m, k) \<Longrightarrow> stored rp fs (drop (Suc k) (mf_entries m)) ts \<Longrightarrow> pending rp fs st w \<Longrightarrow>
    pending rp fs ((m, k) # st) (walk_trees (stack_path st) ts @ w)"

inductive todo :: "string \<Rightarrow> files \<Rightarrow> (manifest \<times> nat) list \<Rightarrow> (string \<times> file_entry) list \<Rightarrow> bool" for rp fs where
  todo_Nil: "todo rp fs [] []"
| todo_Cons: "in_range (m, k) \<Longrightarrow> stored rp fs (drop k (mf_entries m)) ts \<Longrightarrow> pending rp fs st w \<Longrightarrow>
    todo rp fs ((m, k) # st) (walk_trees (stack_path st) ts @ w)"

lemma pending_in_range: "pending rp fs st w \<Longrightarrow> list_all (\<lambda>f. mf_entries (fst f) = [] \<or> in_range f) st"
  by (induction rule: pending.induct) auto

lemma pop_pending: "pending rp fs st w \<Longrightarrow> todo rp fs (iter_pop st) w"
proof (induction rule: pending.induct)
  case (pending_Cons m k ts st w)
  show ?case
  proof (cases "Suc k = length (mf_entries m)")
    case True
    with pending_Cons.hyps(2) have "ts = []" by (auto elim: stored_NilE)
    with True pending_Cons show ?thesis by (simp add: walk_trees_def)
  next
    case False
    with pending_Cons show ?thesis by (auto simp: in_range_def intro: todo_Cons)
  qed
qed (simp add: todo_Nil)

text \<open>One step of the iterator visits the first of what is left and leaves the others.\<close>

lemma todo_step:
  assumes "todo rp fs st w" and "st \<noteq> []" and "i = \<lparr>it_repo = Some rp, it_stack = st, it_recurse = True\<rparr>"
  shows "\<exists>x w'. w = x # w' \<and> iter_deref i = Inr x \<and> iter_active i = fe_sig (snd x)
    \<and> (present rp fs x \<longrightarrow> (\<exists>st'. iter_step fs i = Inr (i\<lparr>it_stack := st'\<rparr>) \<and> todo rp fs st' w'))"
  using assms(1,2)
proof (cases rule: todo.cases)
  case (todo_Cons m k ts st' w0)
  let ?e = "mf_entries m ! k"
  have k: "k < length (mf_entries m)" using todo_Cons by (simp add: in_range_def)
  then have d: "drop k (mf_entries m) = ?e # drop (Suc k) (mf_entries m)" by (rule Cons_nth_drop_Suc [symmetric])
  have ne: "mf_entries m \<noteq> []" using k by auto
  note rng = pending_in_range [OF todo_Cons(5)]
  have act: "iter_active i = fe_sig ?e" using assms(3) todo_Cons(1) ne by (simp add: iter_active_def)
  have pop: "stored rp fs (drop (Suc k) (mf_entries m)) ts1 \<Longrightarrow>
      todo rp fs (iter_pop ((m, k) # st')) (walk_trees (stack_path st') ts1 @ w0)" for ts1
    using todo_Cons by (intro pop_pending) (auto intro: pending_Cons)
  from todo_Cons(4) [unfolded d] consider
      (leaf) ts1 where "ts = Leaf ?e # ts1" "fe_type ?e = FILE" "stored rp fs (drop (Suc k) (mf_entries m)) ts1"
    | (branch) p m' ks ts1 where "ts = Branch ?e ks # ts1" "fe_type ?e = DIRECTORY"
        "fetch_manifest rp (fe_sig ?e) fs = Inr (Some (p, m'))" "stored rp fs (mf_entries m') ks"
        "stored rp fs (drop (Suc k) (mf_entries m)) ts1"
    | (gone) ts1 where "ts = Branch ?e [] # ts1" "fe_type ?e = DIRECTORY"
        "fetch_manifest rp (fe_sig ?e) fs = Inr None" "stored rp fs (drop (Suc k) (mf_entries m)) ts1"
    by (rule stored_ConsE) blast+
  then show ?thesis
  proof cases
    case leaf
    then have "w = (path_join (stack_path st') (fe_name ?e), ?e) # walk_trees (stack_path st') ts1 @ w0"
      using todo_Cons(2) by (simp add: walk_trees_def)
    moreover have "iter_deref i = Inr (path_join (stack_path st') (fe_name ?e), ?e)"
      using assms(3) todo_Cons(1,3) rng leaf ne by (auto simp: iter_deref_def Let_def)
    moreover have "iter_step fs i = Inr (i\<lparr>it_stack := iter_pop ((m, k) # st')\<rparr>)"
      using assms(3) todo_Cons(1,3) leaf by (simp add: iter_step_def Let_def)
    ultimately show ?thesis using pop [OF leaf(3)] act by auto
  next
    case branch
    then have w: "w = (path_join (path_join (stack_path st') (fe_name ?e)) [], ?e)
        # (walk_trees (path_join (stack_path st') (fe_name ?e)) ks @ walk_trees (stack_path st') ts1 @ w0)"
      using todo_Cons(2) by (simp add: walk_trees_def)
    have dr: "iter_deref i = Inr (path_join (path_join (stack_path st') (fe_name ?e)) [], ?e)"
      using assms(3) todo_Cons(1,3) rng branch ne by (auto simp: iter_deref_def Let_def)
    have "\<exists>s. iter_step fs i = Inr (i\<lparr>it_stack := s\<rparr>)
        \<and> todo rp fs s (walk_trees (path_join (stack_path st') (fe_name ?e)) ks @ walk_trees (stack_path st') ts1 @ w0)"
    proof (cases "mf_entries m' = []")
      case True
      with branch have "ks = []" by (auto elim: stored_NilE)
      with True pop [OF branch(5)] show ?thesis
        using assms(3) todo_Cons(1,3) branch by (simp add: iter_step_def Let_def walk_trees_def)
    next
      case False
      have "pending rp fs ((m, k) # st') (walk_trees (stack_path st') ts1 @ w0)"
        by (rule pending.pending_Cons [OF todo_Cons(3) branch(5) todo_Cons(5)])
      then have "todo rp fs ((m', 0) # (m, k) # st')
          (walk_trees (stack_path ((m, k) # st')) ks @ walk_trees (stack_path st') ts1 @ w0)"
        using False branch(4) by (intro todo.todo_Cons) (simp_all add: in_range_def)
      then show ?thesis using False ne assms(3) todo_Cons(1,3) branch by (simp add: iter_step_def Let_def)
    qed
    with w dr act show ?thesis by auto
  next
    case gone
    then have "w = (path_join (path_join (stack_path st') (fe_name ?e)) [], ?e) # walk_trees (stack_path st') ts1 @ w0"
      using todo_Cons(2) by (simp add: walk_trees_def)
    moreover have "iter_deref i = Inr (path_join (path_join (stack_path st') (fe_name ?e)) [], ?e)"
      using assms(3) todo_Cons(1,3) rng gone ne by (auto simp: iter_deref_def Let_def)
    moreover have "\<not> present rp fs (q, ?e)" for q
      using gone(3) by (auto simp: present_def fetch_manifest_def fetch_def contains_def Let_def split: if_splits sum.splits)
    ultimately show ?thesis using act by auto
  qed
qed simp

lemma walk_loop_todo:
  assumes "todo rp fs st w" and "i = \<lparr>it_repo = Some rp, it_stack = st, it_recurse = True\<rparr>"
  shows "walk_loop fs i acc = Some (Inr (acc @ takeWhile (present rp fs) w))"
  using assms
proof (induction w arbitrary: st i acc rule: list.induct)
  case Nil
  then have "st = []" using todo_step [OF Nil.prems(1)] by blast
  with Nil.prems(2) show ?case by (subst walk_loop.simps) (simp add: iter_eq_end)
next
  case (Cons x w)
  then have st: "st \<noteq> []" by (auto elim: todo.cases)
  from todo_step [OF Cons.prems(1) st Cons.prems(2)] have
    x: "iter_deref i = Inr x" "iter_active i = fe_sig (snd x)"
      "present rp fs x \<longrightarrow> (\<exists>st'. iter_step fs i = Inr (i\<lparr>it_stack := st'\<rparr>) \<and> todo rp fs st' w)" by auto
  have b: "iter_bool fs i \<longleftrightarrow> present rp fs x"
    using Cons.prems(2) st x(2) by (simp add: iter_bool_def present_def)
  show ?case
  proof (cases "present rp fs x")
    case True
    with x(3) obtain st' where st': "iter_step fs i = Inr (i\<lparr>it_stack := st'\<rparr>)" "todo rp fs st' w" by blast
    have "walk_loop fs (i\<lparr>it_stack := st'\<rparr>) (acc @ [x]) = Some (Inr ((acc @ [x]) @ takeWhile (present rp fs) w))"
      using Cons.IH [OF st'(2)] Cons.prems(2) by simp
    with True b x(1) st'(1) st Cons.prems(2) show ?thesis
      by (subst walk_loop.simps) (simp add: iter_eq_end)
  next
    case False
    with b show ?thesis by (subst walk_loop.simps) simp
  qed
qed

lemma walk_manifest:
  assumes "stored rp fs (mf_entries m) ts"
  shows "walk_loop fs (iter_new rp m True) [] = Some (Inr (takeWhile (present rp fs) (walk_trees [] ts)))"
proof (cases "mf_entries m = []")
  case True
  with assms have "ts = []" by (auto elim: stored_NilE)
  with True show ?thesis
    by (subst walk_loop.simps) (simp add: iter_eq_end iter_new_def iter_bool_def iter_active_def sig_valid_def
        signature_none_def walk_trees_def)
next
  case False
  then have "todo rp fs [(m, 0)] (walk_trees (stack_path []) ts @ [])"
    using assms by (intro todo_Cons pending_Nil) (simp_all add: in_range_def)
  from walk_loop_todo [OF this] show ?thesis by (simp add: iter_new_def)
qed

end
