(* ===== verification/Squall_Compare.thy ===== *)
theory Squall_Compare
  imports Squall_Walk
begin

text \<open>
  The comparison of two manifests (\<open>Difference.cpp\<close>) and the search for files that no root leads to
  (\<open>Pruner.cpp\<close>). Both loop over iterators; maps and sets of paths are ordered as \<open>std::filesystem::path\<close> compares,
  by the elements of the path.
\<close>

section \<open>The order of paths\<close>

lemma slash_shorter:
  assumes "CHR ''/'' \<in> set s"
  shows "length (dropWhile (\<lambda>c. c = CHR ''/'') (dropWhile (\<lambda>c. c \<noteq> CHR ''/'') s)) < length s"
proof -
  from split_list_first [OF assms] obtain a b where s: "s = a @ CHR ''/'' # b" "CHR ''/'' \<notin> set a" by blast
  then have "dropWhile (\<lambda>c. c \<noteq> CHR ''/'') s = CHR ''/'' # b" by (induction a arbitrary: s) auto
  with s(1) show ?thesis using length_dropWhile_le [of "\<lambda>c. c = CHR ''/''" b] by simp
qed

function path_elems :: "string \<Rightarrow> string list" where
  "path_elems s =
     (let a = takeWhile (\<lambda>c. c \<noteq> CHR ''/'') s; r = dropWhile (\<lambda>c. c \<noteq> CHR ''/'') s in
      if r = [] then (if a = [] then [] else [a])
      else let r' = dropWhile (\<lambda>c. c = CHR ''/'') r in
        if a = [] then path_elems r'
        else if r' = [] then [a, []] else a # path_elems r')"
  by pat_completeness auto
termination
  by (relation "measure length") (auto simp: slash_shorter dropWhile_eq_Nil_conv)

declare path_elems.simps [simp del]

definition path_key :: "string \<Rightarrow> bool \<times> string list" where
  "path_key p = (is_absolute p, path_elems p)"

section \<open>Differences\<close>

type_synonym path_map = "(bool \<times> string list, string \<times> file_entry) smap"

definition entries_by_path :: "(string \<times> file_entry) list \<Rightarrow> path_map" where
  "entries_by_path w = foldl (\<lambda>m x. smap_emplace (path_key (fst x)) x m) [] w"

record change_summary =
  cs_new :: "(string \<times> signature) list"
  cs_removed :: "(string \<times> signature) list"
  cs_altered :: "((string \<times> signature) \<times> signature) list"

definition summarise :: "path_map \<Rightarrow> path_map \<Rightarrow> change_summary" where
  "summarise olds news =
     \<lparr>cs_new = map (\<lambda>(k, p, e). (p, fe_sig e)) (filter (\<lambda>x. \<not> smap_has (fst x) olds) news),
      cs_removed = map (\<lambda>(k, p, e). (p, fe_sig e)) (filter (\<lambda>x. \<not> smap_has (fst x) news) olds),
      cs_altered = concat (map (\<lambda>(k, p, e). case smap_find k olds of
            None \<Rightarrow> []
          | Some (_, e') \<Rightarrow> if fe_eq e e' then [] else [((p, fe_sig e), fe_sig e')]) news)\<rparr>"

definition resolve_differences :: "string \<Rightarrow> manifest \<Rightarrow> manifest \<Rightarrow> files \<Rightarrow> (squall_error + change_summary) option" where
  "resolve_differences rp old_manifest new_manifest fs =
     (case walk_loop fs (iter_new rp old_manifest True) [] of
        None \<Rightarrow> None
      | Some (Inl e) \<Rightarrow> Some (Inl e)
      | Some (Inr wo) \<Rightarrow> (case walk_loop fs (iter_new rp new_manifest True) [] of
          None \<Rightarrow> None
        | Some (Inl e) \<Rightarrow> Some (Inl e)
        | Some (Inr wn) \<Rightarrow> Some (Inr (summarise (entries_by_path wo) (entries_by_path wn)))))"

definition keys_of :: "(string \<times> file_entry) list \<Rightarrow> (bool \<times> string list) set" where
  "keys_of w = (path_key \<circ> fst) ` set w"

lemma entries_by_path_snoc:
  "entries_by_path (w @ [x]) = smap_emplace (path_key (fst x)) x (entries_by_path w)"
  by (simp add: entries_by_path_def)

lemma entries_by_path_ok:
  "smap_ok (entries_by_path w) \<and> fst ` set (entries_by_path w) = keys_of w"
  by (induction w rule: rev_induct) (auto simp: entries_by_path_snoc keys_of_def entries_by_path_def)

lemma set_emplace_new:
  "k \<notin> fst ` set m \<Longrightarrow> set (smap_emplace k v m) = insert (k, v) (set m)"
  by (induction k v m rule: smap_emplace.induct) auto

text \<open>With distinct paths the map holds exactly what was visited.\<close>

lemma set_entries_by_path:
  assumes "distinct (map (path_key \<circ> fst) w)"
  shows "set (entries_by_path w) = (\<lambda>x. (path_key (fst x), x)) ` set w"
  using assms
proof (induction w rule: rev_induct)
  case (snoc x w)
  have "path_key (fst x) \<notin> fst ` set (entries_by_path w)"
    using snoc.prems entries_by_path_ok [of w] by (auto simp: keys_of_def)
  with snoc show ?case by (simp add: entries_by_path_snoc set_emplace_new)
qed (simp add: entries_by_path_def)

lemma smap_find_in: "smap_ok m \<Longrightarrow> smap_find k m = Some v \<longleftrightarrow> (k, v) \<in> set m"
  by (simp add: smap_find_def smap_ok_def strict_sorted_iff)

lemma altered_iff:
  "z \<in> set (cs_altered (summarise olds news)) \<longleftrightarrow>
    (\<exists>k p e p' e'. (k, p, e) \<in> set news \<and> smap_find k olds = Some (p', e') \<and> \<not> fe_eq e e'
      \<and> z = ((p, fe_sig e), fe_sig e'))"
proof -
  have 1: "z \<in> set (case smap_find k olds of None \<Rightarrow> [] | Some (_, e') \<Rightarrow> if fe_eq e e' then [] else [((p, fe_sig e), fe_sig e')])
    \<longleftrightarrow> (\<exists>p' e'. smap_find k olds = Some (p', e') \<and> \<not> fe_eq e e' \<and> z = ((p, fe_sig e), fe_sig e'))" for k p e
    by (cases "smap_find k olds") auto
  have "z \<in> set (cs_altered (summarise olds news)) \<longleftrightarrow> (\<exists>x \<in> set news. case x of (k, p, e) \<Rightarrow>
      z \<in> set (case smap_find k olds of None \<Rightarrow> [] | Some (_, e') \<Rightarrow> if fe_eq e e' then [] else [((p, fe_sig e), fe_sig e')]))"
    by (simp add: summarise_def case_prod_beta)
  then show ?thesis unfolding 1 by fastforce
qed

lemma summarise_sets:
  assumes "distinct (map (path_key \<circ> fst) wo)" and "distinct (map (path_key \<circ> fst) wn)"
  defines "s \<equiv> summarise (entries_by_path wo) (entries_by_path wn)"
  shows "set (cs_new s) = {(p, fe_sig e) |p e. (p, e) \<in> set wn \<and> path_key p \<notin> keys_of wo}"
    and "set (cs_removed s) = {(p, fe_sig e) |p e. (p, e) \<in> set wo \<and> path_key p \<notin> keys_of wn}"
    and "set (cs_altered s) = {((p, fe_sig e), fe_sig e') |p e p' e'. (p, e) \<in> set wn \<and> (p', e') \<in> set wo
      \<and> path_key p = path_key p' \<and> \<not> fe_eq e e'}"
proof -
  note so = set_entries_by_path [OF assms(1)] and sn = set_entries_by_path [OF assms(2)]
  have ho: "smap_has k (entries_by_path w) \<longleftrightarrow> k \<in> keys_of w" for k w
    using entries_by_path_ok [of w] by (auto simp: smap_has_def smap_find_def map_of_eq_None_iff)
  show "set (cs_new s) = {(p, fe_sig e) |p e. (p, e) \<in> set wn \<and> path_key p \<notin> keys_of wo}"
    by (force simp: s_def summarise_def sn ho)
  show "set (cs_removed s) = {(p, fe_sig e) |p e. (p, e) \<in> set wo \<and> path_key p \<notin> keys_of wn}"
    by (force simp: s_def summarise_def so ho)
  have mem: "(k, p, e) \<in> (\<lambda>x. (path_key (fst x), x)) ` A \<longleftrightarrow> (p, e) \<in> A \<and> k = path_key p" for k p e A
    by force
  have f: "smap_find k (entries_by_path wo) = Some (p, e) \<longleftrightarrow> (p, e) \<in> set wo \<and> k = path_key p" for k p e
    using entries_by_path_ok [of wo] by (simp add: smap_find_in so mem)
  have n: "(k, p, e) \<in> set (entries_by_path wn) \<longleftrightarrow> (p, e) \<in> set wn \<and> k = path_key p" for k p e
    by (simp add: sn mem)
  show "set (cs_altered s) = {((p, fe_sig e), fe_sig e') |p e p' e'. (p, e) \<in> set wn \<and> (p', e') \<in> set wo
      \<and> path_key p = path_key p' \<and> \<not> fe_eq e e'}"
    unfolding s_def by (rule set_eqI) (simp only: altered_iff f n mem_Collect_eq, blast)
qed

section \<open>Files that no root leads to\<close>

fun reachable_files :: "string \<Rightarrow> files \<Rightarrow> signature list \<Rightarrow> (squall_error + string list) option" where
  "reachable_files rp fs [] = Some (Inr [])"
| "reachable_files rp fs (s # ss) =
     (case fetch_manifest rp s fs of
        Inl e \<Rightarrow> Some (Inl e)
      | Inr None \<Rightarrow> reachable_files rp fs ss
      | Inr (Some (p, m)) \<Rightarrow> (case walk_loop fs (iter_new rp m True) [] of
          None \<Rightarrow> None
        | Some (Inl e) \<Rightarrow> Some (Inl e)
        | Some (Inr w) \<Rightarrow> (case reachable_files rp fs ss of
            None \<Rightarrow> None
          | Some (Inl e) \<Rightarrow> Some (Inl e)
          | Some (Inr ps) \<Rightarrow> Some (Inr (p # map (\<lambda>x. resolve_path rp (fe_sig (snd x))) w @ ps)))))"

definition find_abandoned :: "string \<Rightarrow> files \<Rightarrow> (squall_error + string list) option" where
  "find_abandoned rp fs =
     (case list_roots rp fs of
        Inl e \<Rightarrow> Some (Inl e)
      | Inr roots \<Rightarrow> (case reachable_files rp fs (map snd roots) of
          None \<Rightarrow> None
        | Some (Inl e) \<Rightarrow> Some (Inl e)
        | Some (Inr ps) \<Rightarrow>
            (if path_join rp ''data'' \<notin> fs_dirs fs then Some (Inl SqFilesystem)
             else Some (Inr (filter (\<lambda>p. below (path_join rp ''data'') p \<noteq> None \<and> file_at fs p \<noteq> None
                 \<and> path_key p \<notin> path_key ` set ps) (map fst (fs_nodes fs)))))))"

text \<open>What a root leads to, by the depth-first order of what it stores.\<close>

definition root_walk :: "string \<Rightarrow> files \<Rightarrow> signature \<Rightarrow> (string \<times> file_entry) list \<Rightarrow> bool" where
  "root_walk rp fs s w \<longleftrightarrow> (\<exists>p m ts. fetch_manifest rp s fs = Inr (Some (p, m)) \<and> stored rp fs (mf_entries m) ts
     \<and> w = walk_trees [] ts)"

lemma fetch_manifest_path: "fetch_manifest rp s fs = Inr (Some (p, m)) \<Longrightarrow> p = resolve_path rp s"
  by (auto simp: fetch_manifest_def fetch_def Let_def split: option.splits sum.splits if_splits)

lemma reachable_files_walks:
  assumes "list_all2 (root_walk rp fs) ss ws"
  shows "reachable_files rp fs ss = Some (Inr (concat (map2 (\<lambda>s w. resolve_path rp s
      # map (\<lambda>x. resolve_path rp (fe_sig (snd x))) (takeWhile (present rp fs) w)) ss ws)))"
  using assms
proof (induction rule: list_all2_induct)
  case (Cons s ss w ws)
  then obtain p m ts where m: "fetch_manifest rp s fs = Inr (Some (p, m))" "stored rp fs (mf_entries m) ts"
    "w = walk_trees [] ts" by (auto simp: root_walk_def)
  with walk_manifest [OF m(2)] fetch_manifest_path [OF m(1)] Cons.IH show ?case by simp
qed simp

section \<open>What comparison and search guarantee\<close>

text \<open>Small examples: signatures given by their text, and a repository \<open>r\<close> with two files.\<close>

definition sample_sig :: "string \<Rightarrow> signature" where
  "sample_sig s = \<lparr>sg_digest = s @ replicate (max_digest - length s) (CHR 0x00), sg_length = length s\<rparr>"

lemma sample_view [simp]: "length s \<le> max_digest \<Longrightarrow> str_view (sample_sig s) = s"
  by (simp add: sample_sig_def str_view_def)

lemma sample_valid [simp]: "sig_valid (sample_sig s) \<longleftrightarrow> 3 < length s \<and> length s \<le> max_digest"
  by (auto simp: sample_sig_def sig_valid_def)

lemma sample_ok [simp]: "sig_ok (sample_sig s) \<longleftrightarrow> 3 \<le> length s \<and> length s \<le> max_digest \<and> CHR 0x00 \<notin> set s"
  by (auto simp: sample_sig_def sig_ok_def str_view_def)

definition sample_file :: "string \<Rightarrow> string \<Rightarrow> file_entry" where
  "sample_file n s = \<lparr>fe_name = n, fe_sig = sample_sig s, fe_type = FILE, fe_size = 1\<rparr>"

definition sample_files :: "(string, fnode) smap \<Rightarrow> files" where
  "sample_files m = \<lparr>fs_nodes = m, fs_dirs = {''r/data'', ''r/roots''}, fs_writable = (\<lambda>p. True), fs_now = 0\<rparr>"

lemmas sample_paths = resolve_path_def path_join_def is_absolute_def contains_def path_exists_def file_at_def link_target_def
  sample_files_def

text \<open>
  C39: the comparison of two manifests whose trees the repository stores, with every entry present and every path
  once, ends and reports exactly the new paths, the removed paths and the paths whose entries differ, with the
  signatures of both sides.
\<close>

theorem differences_exact:
  assumes "stored rp fs (mf_entries old_m) os" and "stored rp fs (mf_entries new_m) ns"
    and "wo = walk_trees [] os" and "wn = walk_trees [] ns"
    and "list_all (present rp fs) wo" and "list_all (present rp fs) wn"
    and "distinct (map (path_key \<circ> fst) wo)" and "distinct (map (path_key \<circ> fst) wn)"
  shows "\<exists>s. resolve_differences rp old_m new_m fs = Some (Inr s)
    \<and> set (cs_new s) = {(p, fe_sig e) |p e. (p, e) \<in> set wn \<and> path_key p \<notin> keys_of wo}
    \<and> set (cs_removed s) = {(p, fe_sig e) |p e. (p, e) \<in> set wo \<and> path_key p \<notin> keys_of wn}
    \<and> set (cs_altered s) = {((p, fe_sig e), fe_sig e') |p e p' e'. (p, e) \<in> set wn \<and> (p', e') \<in> set wo
        \<and> path_key p = path_key p' \<and> \<not> fe_eq e e'}"
proof -
  have tw: "takeWhile (present rp fs) wo = wo" "takeWhile (present rp fs) wn = wn"
    using assms(5,6) by (simp_all add: takeWhile_eq_all_conv list_all_iff)
  have "resolve_differences rp old_m new_m fs = Some (Inr (summarise (entries_by_path wo) (entries_by_path wn)))"
    using walk_manifest [OF assms(1), folded assms(3)] walk_manifest [OF assms(2), folded assms(4)]
    by (simp add: resolve_differences_def tw)
  then show ?thesis using summarise_sets [OF assms(7,8)] by blast
qed

lemma set_concat_map2:
  "length ss = length ws \<Longrightarrow> set (concat (map2 (\<lambda>s w. f s # g w) ss ws)) = f ` set ss \<union> (\<Union>w \<in> set ws. set (g w))"
  by (induction ss ws rule: list_induct2) auto

lemma set_pairs_filter: "{(p, f e) |p e. (p, e) \<in> set xs \<and> P p} = (\<lambda>x. (fst x, f (snd x))) ` set (filter (\<lambda>x. P (fst x)) xs)"
  by force

theorem differences_exact_witness:
  "\<exists>s. resolve_differences ''r'' \<lparr>mf_version = ''1'', mf_entries = [sample_file ''a'' ''aaaa'']\<rparr>
      \<lparr>mf_version = ''1'', mf_entries = [sample_file ''a'' ''bbbb'', sample_file ''b'' ''aaaa'']\<rparr>
      (sample_files [(''r/data/aa/aa'', Regular ''x'' 0), (''r/data/bb/bb'', Regular ''y'' 0)]) = Some (Inr s)
    \<and> set (cs_new s) = {(''b'', sample_sig ''aaaa'')}"
proof -
  let ?fs = "sample_files [(''r/data/aa/aa'', Regular ''x'' 0), (''r/data/bb/bb'', Regular ''y'' 0)]"
  let ?o = "\<lparr>mf_version = ''1'', mf_entries = [sample_file ''a'' ''aaaa'']\<rparr>"
  let ?n = "\<lparr>mf_version = ''1'', mf_entries = [sample_file ''a'' ''bbbb'', sample_file ''b'' ''aaaa'']\<rparr>"
  let ?ot = "[Leaf (sample_file ''a'' ''aaaa'')]"
  let ?nt = "[Leaf (sample_file ''a'' ''bbbb''), Leaf (sample_file ''b'' ''aaaa'')]"
  have st: "stored ''r'' ?fs (mf_entries ?o) ?ot" "stored ''r'' ?fs (mf_entries ?n) ?nt"
    by (auto intro!: stored.intros simp: sample_file_def)
  have w: "walk_trees [] ?ot = [(''a'', sample_file ''a'' ''aaaa'')]"
    "walk_trees [] ?nt = [(''a'', sample_file ''a'' ''bbbb''), (''b'', sample_file ''b'' ''aaaa'')]"
    by (simp_all add: walk_trees_def path_join_def is_absolute_def sample_file_def)
  have pr: "present ''r'' ?fs (p, sample_file f ''aaaa'')" "present ''r'' ?fs (p, sample_file f ''bbbb'')" for p f
    by (simp_all add: present_def sample_file_def sample_paths)
  have k: "path_key ''a'' = (False, [''a''])" "path_key ''b'' = (False, [''b''])"
    by (simp_all add: path_key_def is_absolute_def path_elems.simps)
  have pa: "list_all (present ''r'' ?fs) [(''a'', sample_file ''a'' ''aaaa'')]"
    "list_all (present ''r'' ?fs) [(''a'', sample_file ''a'' ''bbbb''), (''b'', sample_file ''b'' ''aaaa'')]"
    by (simp_all only: list.pred_inject pr simp_thms)
  have di: "distinct (map (path_key \<circ> fst) [(''a'', sample_file ''a'' ''aaaa'')])"
    "distinct (map (path_key \<circ> fst) [(''a'', sample_file ''a'' ''bbbb''), (''b'', sample_file ''b'' ''aaaa'')])"
    by (simp_all add: k)
  from differences_exact [OF st w [symmetric] pa di] obtain s where
    "resolve_differences ''r'' ?o ?n ?fs = Some (Inr s)"
    "set (cs_new s) = {(p, fe_sig e) |p e. (p, e) \<in> set [(''a'', sample_file ''a'' ''bbbb''), (''b'', sample_file ''b'' ''aaaa'')]
      \<and> path_key p \<notin> keys_of [(''a'', sample_file ''a'' ''aaaa'')]}"
    by (elim exE conjE) (rule that)
  moreover have "{(p, fe_sig e) |p e. (p, e) \<in> set [(''a'', sample_file ''a'' ''bbbb''), (''b'', sample_file ''b'' ''aaaa'')]
      \<and> path_key p \<notin> keys_of [(''a'', sample_file ''a'' ''aaaa'')]} = {(''b'', sample_sig ''aaaa'')}"
    unfolding set_pairs_filter by (simp add: keys_of_def k del: set_filter) (simp add: sample_file_def)
  ultimately show ?thesis by (intro exI conjI) simp_all
qed

text \<open>
  C40: the pruner ends and reports exactly the files of the data directory that are neither the manifest of a root nor
  visited on the way from a root, where the way from a root stops at the first entry that is missing or has an
  invalid signature. When nothing is missing, this is every file no root leads to; when one file is missing, the
  files behind it are reported as abandoned although a root leads to them.
\<close>

theorem abandoned_exact:
  assumes "list_roots rp fs = Inr roots" and "list_all2 (root_walk rp fs) (map snd roots) ws"
    and "path_join rp ''data'' \<in> fs_dirs fs"
    and "kept = (\<lambda>s. path_key (resolve_path rp s)) ` (set (map snd roots) \<union>
      (\<Union>w \<in> set ws. (\<lambda>x. fe_sig (snd x)) ` set (takeWhile (present rp fs) w)))"
  shows "\<exists>l. find_abandoned rp fs = Some (Inr l)
    \<and> set l = {p \<in> fst ` set (fs_nodes fs). below (path_join rp ''data'') p \<noteq> None \<and> file_at fs p \<noteq> None \<and> path_key p \<notin> kept}
    \<and> (list_all (list_all (present rp fs)) ws \<longrightarrow>
        kept = (\<lambda>s. path_key (resolve_path rp s)) ` (set (map snd roots) \<union> (\<Union>w \<in> set ws. (\<lambda>x. fe_sig (snd x)) ` set w)))"
proof -
  let ?ps = "concat (map2 (\<lambda>s w. resolve_path rp s # map (\<lambda>x. resolve_path rp (fe_sig (snd x))) (takeWhile (present rp fs) w))
      (map snd roots) ws)"
  have len: "length (map snd roots) = length ws" using assms(2) by (rule list_all2_lengthD)
  have "path_key ` set ?ps = kept"
    unfolding assms(4) set_concat_map2 [OF len] by (simp add: image_Un image_UN image_image)
  moreover have "kept = (\<lambda>s. path_key (resolve_path rp s)) ` (set (map snd roots) \<union> (\<Union>w \<in> set ws. (\<lambda>x. fe_sig (snd x)) ` set w))"
    if "list_all (list_all (present rp fs)) ws"
  proof -
    have "takeWhile (present rp fs) w = w" if "w \<in> set ws" for w
      using that \<open>list_all (list_all (present rp fs)) ws\<close> by (simp add: takeWhile_eq_all_conv list_all_iff)
    then have "(\<Union>w \<in> set ws. (\<lambda>x. fe_sig (snd x)) ` set (takeWhile (present rp fs) w)) = (\<Union>w \<in> set ws. (\<lambda>x. fe_sig (snd x)) ` set w)"
      by (intro SUP_cong refl) (simp only:)
    then show ?thesis unfolding assms(4) by (simp only:)
  qed
  ultimately show ?thesis
    using reachable_files_walks [OF assms(2)] assms(1,3) by (simp add: find_abandoned_def)
qed

theorem abandoned_exact_witness:
  "\<exists>l. find_abandoned ''r'' (sample_files
      [(''r/data/aa/aa'', Regular ''x'' 0),
       (''r/data/mm/mm'', Regular (manifest_text \<lparr>mf_version = ''1'', mf_entries = [sample_file ''b'' ''cccc'', sample_file ''c'' ''aaaa'']\<rparr>) 0),
       (''r/roots/main'', Regular ''mmmm'' 0)]) = Some (Inr l)
    \<and> ''r/data/aa/aa'' \<in> set l"
proof -
  let ?m = "\<lparr>mf_version = ''1'', mf_entries = [sample_file ''b'' ''cccc'', sample_file ''c'' ''aaaa'']\<rparr>"
  let ?fs = "sample_files [(''r/data/aa/aa'', Regular ''x'' 0), (''r/data/mm/mm'', Regular (manifest_text ?m) 0),
       (''r/roots/main'', Regular ''mmmm'' 0)]"
  let ?w = "[(''b'', sample_file ''b'' ''cccc''), (''c'', sample_file ''c'' ''aaaa'')]"
  have "manifest_ok ?m" by (simp add: manifest_ok_def entry_ok_def sig_plain_def sample_file_def)
  then have "fetch_manifest ''r'' (sample_sig ''mmmm'') ?fs = Inr (Some (''r/data/mm/mm'', ?m))"
    by (simp add: fetch_manifest_def fetch_def sample_paths parse_manifest_text)
  moreover have "stored ''r'' ?fs (mf_entries ?m) [Leaf (sample_file ''b'' ''cccc''), Leaf (sample_file ''c'' ''aaaa'')]"
    by (auto intro!: stored.intros simp: sample_file_def)
  moreover have "walk_trees [] [Leaf (sample_file ''b'' ''cccc''), Leaf (sample_file ''c'' ''aaaa'')] = ?w"
    by (simp add: walk_trees_def path_join_def is_absolute_def sample_file_def)
  ultimately have "root_walk ''r'' ?fs (sample_sig ''mmmm'') ?w" unfolding root_walk_def by metis
  then have rw: "list_all2 (root_walk ''r'' ?fs) (map snd [(''main'', sample_sig ''mmmm'')]) [?w]" by simp
  have roots: "list_roots ''r'' ?fs = Inr [(''main'', sample_sig ''mmmm'')]"
    by (simp add: list_roots_def roots_path_def sample_paths below_def upto_char_def signature_of_def sample_sig_def)
  have dirs: "path_join ''r'' ''data'' \<in> fs_dirs ?fs" by (simp add: sample_paths)
  have gone: "takeWhile (present ''r'' ?fs) ?w = []" by (simp add: present_def sample_file_def sample_paths)
  have keys: "path_key (resolve_path ''r'' (sample_sig ''mmmm'')) \<noteq> path_key ''r/data/aa/aa''"
    by (simp add: sample_paths path_key_def path_elems.simps Let_def)
  from abandoned_exact [OF roots rw dirs refl] obtain l where
    l: "find_abandoned ''r'' ?fs = Some (Inr l)"
    "set l = {p \<in> fst ` set (fs_nodes ?fs). below (path_join ''r'' ''data'') p \<noteq> None \<and> file_at ?fs p \<noteq> None
      \<and> path_key p \<notin> (\<lambda>s. path_key (resolve_path ''r'' s)) ` (set (map snd [(''main'', sample_sig ''mmmm'')]) \<union>
        (\<Union>w \<in> set [?w]. (\<lambda>x. fe_sig (snd x)) ` set (takeWhile (present ''r'' ?fs) w)))}"
    by (elim exE conjE) (rule that)
  have "''r/data/aa/aa'' \<in> fst ` set (fs_nodes ?fs)" by (simp add: sample_files_def)
  moreover have "below (path_join ''r'' ''data'') ''r/data/aa/aa'' \<noteq> None" "file_at ?fs ''r/data/aa/aa'' \<noteq> None"
    by (simp_all add: below_def sample_paths)
  moreover have "path_key ''r/data/aa/aa'' \<notin> (\<lambda>s. path_key (resolve_path ''r'' s)) ` (set (map snd [(''main'', sample_sig ''mmmm'')]) \<union>
        (\<Union>w \<in> set [?w]. (\<lambda>x. fe_sig (snd x)) ` set (takeWhile (present ''r'' ?fs) w)))"
    using keys by (simp add: gone del: takeWhile.simps)
  ultimately have "''r/data/aa/aa'' \<in> set l" unfolding l(2) by (intro CollectI conjI)
  with l(1) show ?thesis by (intro exI conjI)
qed

end
