(* ===== verification/Squall_Hash.thy ===== *)
theory Squall_Hash
  imports Squall_Store
begin

text \<open>
  Signatures of content (\<open>Generator::generateSignature\<close> in \<open>Generator.cpp\<close>): the whole stream at once, and in pieces
  between which the caller does other work. The hash (BLAKE3, an external library) is a parameter: the state of a
  hasher with its three operations, and the law \<open>hasher_ok\<close> that the output depends on the bytes alone and has
  32 bytes.
\<close>

section \<open>Signatures of content\<close>

record 'h hasher =
  hs_init :: 'h
  hs_update :: "'h \<Rightarrow> string \<Rightarrow> 'h"
  hs_final :: "'h \<Rightarrow> 8 word list"

definition hasher_ok :: "'h hasher \<Rightarrow> (string \<Rightarrow> 8 word list) \<Rightarrow> bool" where
  "hasher_ok H f \<longleftrightarrow> (\<forall>cs. hs_final H (foldl (hs_update H) (hs_init H) cs) = f (concat cs)) \<and> (\<forall>s. length (f s) = 32)"

definition hex_char :: "nat \<Rightarrow> char" where
  "hex_char n = (if n < 10 then digit_char n else char_of (87 + n))"

definition hex_byte :: "8 word \<Rightarrow> string" where
  "hex_byte b = (if unat b < 16 then [hex_char (unat b)] else [hex_char (unat b div 16), hex_char (unat b mod 16)])"

definition hex_text :: "8 word list \<Rightarrow> string" where
  "hex_text bs = concat (map hex_byte bs)"

definition finish_signature :: "'h hasher \<Rightarrow> 'h \<Rightarrow> squall_error + signature" where
  "finish_signature H h = signature_of (hex_text (hs_final H h))"

abbreviation "chunk \<equiv> 4096 :: nat"

text \<open>A read of the whole buffer leaves the stream good; a shorter one ends it.\<close>

function hash_stream :: "'h hasher \<Rightarrow> 'h \<Rightarrow> i64 \<Rightarrow> string \<Rightarrow> 'h \<times> i64" where
  "hash_stream H h n s =
     (let c = take chunk s; h' = hs_update H h c; n' = n + word_of_nat (length c)
      in if chunk \<le> length s then hash_stream H h' n' (drop chunk s) else (h', n'))"
  by pat_completeness auto
termination by (relation "measure (\<lambda>(H, h, n, s). length s)") auto

declare hash_stream.simps [simp del]

definition stream_signature :: "'h hasher \<Rightarrow> string \<Rightarrow> squall_error + signature \<times> i64" where
  "stream_signature H s =
     (case hash_stream H (hs_init H) 0 s of (h, n) \<Rightarrow>
        (case finish_signature H h of Inl e \<Rightarrow> Inl e | Inr g \<Rightarrow> Inr (g, n)))"

text \<open>The interruptible form: a context keeps the stream, the hasher and the size between calls.\<close>

record 'h sig_context =
  sc_rest :: string
  sc_good :: bool
  sc_hasher :: 'h
  sc_size :: i64

definition context_of :: "'h hasher \<Rightarrow> string option \<Rightarrow> 'h sig_context" where
  "context_of H d = (case d of
      None \<Rightarrow> \<lparr>sc_rest = [], sc_good = False, sc_hasher = hs_init H, sc_size = 0\<rparr>
    | Some s \<Rightarrow> \<lparr>sc_rest = s, sc_good = True, sc_hasher = hs_init H, sc_size = 0\<rparr>)"

definition read_chunk :: "'h hasher \<Rightarrow> 'h sig_context \<Rightarrow> 'h sig_context" where
  "read_chunk H x = \<lparr>sc_rest = drop chunk (sc_rest x), sc_good = (chunk \<le> length (sc_rest x)),
     sc_hasher = hs_update H (sc_hasher x) (take chunk (sc_rest x)),
     sc_size = sc_size x + word_of_nat (length (take chunk (sc_rest x)))\<rparr>"

function continue_signature ::
    "'h hasher \<Rightarrow> nat \<Rightarrow> nat \<Rightarrow> 'h sig_context \<Rightarrow> (squall_error + (signature \<times> i64) option) \<times> 'h sig_context" where
  "continue_signature H max_iterations i x =
     (if sc_good x then
        (let x' = read_chunk H x in
         if max_iterations \<noteq> 0 \<and> i = max_iterations \<and> sc_good x' then (Inr None, x')
         else continue_signature H max_iterations (Suc i) x')
      else (case finish_signature H (sc_hasher x) of
          Inl e \<Rightarrow> (Inl e, x)
        | Inr g \<Rightarrow> (Inr (Some (g, sc_size x)), x)))"
  by pat_completeness auto
termination
  by (relation "measure (\<lambda>(H, m, i, x). length (sc_rest x) + (if sc_good x then 1 else 0))")
    (auto simp: read_chunk_def)

declare continue_signature.simps [simp del]

section \<open>What the signatures are\<close>

text \<open>The signature that content has, whichever way it is read.\<close>

definition content_sig :: "(string \<Rightarrow> 8 word list) \<Rightarrow> string \<Rightarrow> signature" where
  "content_sig f s = \<lparr>sg_digest = hex_text (f s) @ replicate (max_digest - length (hex_text (f s))) (CHR 0x00),
     sg_length = length (hex_text (f s))\<rparr>"

lemma hash_stream_chunks:
  "\<exists>cs. hash_stream H h n s = (foldl (hs_update H) h cs, n + word_of_nat (length s)) \<and> concat cs = s"
proof (induction H h n s rule: hash_stream.induct)
  case (1 H h n s)
  show ?case
  proof (cases "chunk \<le> length s")
    case True
    with 1 obtain cs where cs: "hash_stream H (hs_update H h (take chunk s)) (n + word_of_nat (length (take chunk s))) (drop chunk s)
      = (foldl (hs_update H) (hs_update H h (take chunk s)) cs, n + word_of_nat (length (take chunk s)) + word_of_nat (length (drop chunk s)))"
      "concat cs = drop chunk s" by blast
    have "word_of_nat (length (take chunk s)) + word_of_nat (length (drop chunk s)) = (word_of_nat (length s) :: i64)"
      using True by (metis length_append append_take_drop_id of_nat_add)
    with cs True show ?thesis
      by (subst hash_stream.simps) (intro exI [of _ "take chunk s # cs"], simp add: Let_def add.assoc)
  next
    case False
    then show ?thesis by (subst hash_stream.simps) (intro exI [of _ "[s]"], simp add: Let_def)
  qed
qed

lemma hex_byte_length: "1 \<le> length (hex_byte b)" "length (hex_byte b) \<le> 2"
  by (simp_all add: hex_byte_def)

lemma hex_text_length: "length bs \<le> length (hex_text bs)" "length (hex_text bs) \<le> 2 * length bs"
proof -
  show "length bs \<le> length (hex_text bs)"
  proof (induction bs)
    case (Cons b bs)
    then show ?case using hex_byte_length(1) [of b] by (simp add: hex_text_def)
  qed simp
  show "length (hex_text bs) \<le> 2 * length bs"
  proof (induction bs)
    case (Cons b bs)
    then show ?case using hex_byte_length(2) [of b] by (simp add: hex_text_def)
  qed (simp add: hex_text_def)
qed

lemma hex_char_range: "n < 16 \<Longrightarrow> 48 \<le> (of_char (hex_char n) :: nat)"
  by (auto simp: hex_char_def)

lemma hex_text_chars:
  assumes "c \<in> set (hex_text bs)"
  shows "48 \<le> (of_char c :: nat)"
proof -
  from assms obtain b where b: "c \<in> set (hex_byte b)" by (auto simp: hex_text_def)
  have "unat b div 16 < 16" using unsigned_less [of b, where ?'a = nat] by simp
  with b show ?thesis using hex_char_range by (auto simp: hex_byte_def split: if_splits)
qed

lemma content_sig_plain:
  assumes "length (f s) = 32"
  shows "sig_plain (content_sig f s)" and "sig_valid (content_sig f s)"
proof -
  have l: "32 \<le> length (hex_text (f s))" "length (hex_text (f s)) \<le> 64" using hex_text_length [of "f s"] assms by simp_all
  have v: "str_view (content_sig f s) = hex_text (f s)" by (simp add: content_sig_def str_view_def)
  have "(48::nat) \<le> of_char c" if "c \<in> set (hex_text (f s))" for c using hex_text_chars [OF that] .
  then have "CHR 0x00 \<notin> set (hex_text (f s))" "CHR '' '' \<notin> set (hex_text (f s))" "LF \<notin> set (hex_text (f s))" "CHR ''/'' \<notin> set (hex_text (f s))"
    by fastforce+
  with l v show "sig_plain (content_sig f s)" by (auto simp: sig_plain_def sig_ok_def content_sig_def)
  show "sig_valid (content_sig f s)" using l by (simp add: sig_valid_def content_sig_def)
qed

lemma finish_signature_ok:
  assumes "hasher_ok H f" and "concat cs = s"
  shows "finish_signature H (foldl (hs_update H) (hs_init H) cs) = Inr (content_sig f s)"
proof -
  have "length (f s) = 32" "hs_final H (foldl (hs_update H) (hs_init H) cs) = f s" using assms by (auto simp: hasher_ok_def)
  then show ?thesis using hex_text_length [of "f s"] by (simp add: finish_signature_def signature_of_def content_sig_def)
qed

lemma stream_signature_ok:
  assumes "hasher_ok H f"
  shows "stream_signature H s = Inr (content_sig f s, word_of_nat (length s))"
proof -
  from hash_stream_chunks [of H "hs_init H" 0 s] obtain cs where
    "hash_stream H (hs_init H) 0 s = (foldl (hs_update H) (hs_init H) cs, 0 + word_of_nat (length s))" "concat cs = s" by (elim exE conjE)
  then show ?thesis using finish_signature_ok [OF assms] by (simp add: stream_signature_def)
qed

section \<open>Hashing in pieces\<close>

text \<open>A context on the way through a text: what it has hashed and what is left make up the text.\<close>

definition context_for :: "'h hasher \<Rightarrow> string \<Rightarrow> 'h sig_context \<Rightarrow> bool" where
  "context_for H s x \<longleftrightarrow> (\<exists>cs. sc_hasher x = foldl (hs_update H) (hs_init H) cs \<and> concat cs @ sc_rest x = s
     \<and> sc_size x = word_of_nat (length (concat cs)) \<and> (\<not> sc_good x \<longrightarrow> sc_rest x = []))"

lemma context_for_read:
  assumes "context_for H s x" and "sc_good x"
  shows "context_for H s (read_chunk H x)"
proof -
  from assms obtain cs where cs: "sc_hasher x = foldl (hs_update H) (hs_init H) cs" "concat cs @ sc_rest x = s"
    "sc_size x = word_of_nat (length (concat cs))" by (auto simp: context_for_def)
  then show ?thesis unfolding context_for_def
    by (intro exI [of _ "cs @ [take chunk (sc_rest x)]"]) (auto simp: read_chunk_def)
qed

lemma continue_signature_steps:
  assumes "hasher_ok H f" and "context_for H s x"
  shows "(\<exists>x'. continue_signature H mx i x = (Inr (Some (content_sig f s, word_of_nat (length s))), x') \<and> context_for H s x')
    \<or> (\<exists>x'. continue_signature H mx i x = (Inr None, x') \<and> context_for H s x' \<and> sc_good x'
          \<and> length (sc_rest x') + chunk \<le> length (sc_rest x) \<and> mx \<noteq> 0)"
  using assms
proof (induction H mx i x rule: continue_signature.induct)
  case (1 H mx i x)
  show ?case
  proof (cases "sc_good x")
    case False
    with 1(3) obtain cs where "sc_hasher x = foldl (hs_update H) (hs_init H) cs" "concat cs = s" "sc_size x = word_of_nat (length s)"
      by (auto simp: context_for_def)
    with False 1(3) show ?thesis using finish_signature_ok [OF 1(2)] by (subst (1) continue_signature.simps) simp
  next
    case True
    let ?x = "read_chunk H x"
    have c: "context_for H s ?x" using context_for_read [OF 1(3) True] .
    show ?thesis
    proof (cases "mx \<noteq> 0 \<and> i = mx \<and> sc_good ?x")
      case stop: True
      then have "length (sc_rest ?x) + chunk \<le> length (sc_rest x)" by (auto simp: read_chunk_def)
      then show ?thesis using True stop c by (subst (2) continue_signature.simps) simp
    next
      case False
      have "continue_signature H mx i x = continue_signature H mx (Suc i) ?x"
        using True False by (subst continue_signature.simps) (simp only: Let_def if_True if_False)
      moreover have "length (sc_rest ?x) \<le> length (sc_rest x)" by (simp add: read_chunk_def)
      ultimately show ?thesis using 1(1) [OF True refl False 1(2) c] by fastforce
    qed
  qed
qed

text \<open>Polling the computation again and again; the number of polls it may take is the fuel.\<close>

fun poll_signature :: "'h hasher \<Rightarrow> nat \<Rightarrow> nat \<Rightarrow> 'h sig_context \<Rightarrow> (squall_error + (signature \<times> i64) option) \<times> 'h sig_context" where
  "poll_signature H mx 0 x = (Inr None, x)"
| "poll_signature H mx (Suc k) x = (case continue_signature H mx 0 x of
      (Inr None, x') \<Rightarrow> poll_signature H mx k x'
    | r \<Rightarrow> r)"

text \<open>
  C38: hashing in pieces gives the signature and the size that hashing at once gives, whatever the limit of iterations,
  after at most one poll more than the text has chunks.
\<close>

theorem signature_in_pieces:
  assumes "hasher_ok H f"
  shows "\<exists>x. poll_signature H mx (Suc (length s div chunk)) (context_of H (Some s)) = (map_sum id Some (stream_signature H s), x)"
proof -
  have "\<exists>x'. poll_signature H mx (Suc k) x = (Inr (Some (content_sig f s, word_of_nat (length s))), x')"
    if "context_for H s x" "length (sc_rest x) < Suc k * chunk" for k x
    using that
  proof (induction k arbitrary: x)
    case 0
    then show ?case using continue_signature_steps [OF assms 0(1), of mx 0] by auto
  next
    case (Suc k)
    from continue_signature_steps [OF assms Suc(2), of mx 0] show ?case
    proof (elim disjE exE conjE)
      fix x' assume x': "continue_signature H mx 0 x = (Inr None, x')" "context_for H s x'" "length (sc_rest x') + chunk \<le> length (sc_rest x)"
      then have "length (sc_rest x') < Suc k * chunk" using Suc(3) by simp
      from Suc.IH [OF x'(2) this] x'(1) show ?thesis by simp
    qed simp
  qed
  moreover have "context_for H s (context_of H (Some s))"
    unfolding context_for_def by (intro exI [of _ "[]"]) (simp add: context_of_def)
  moreover have "length s < Suc (length s div chunk) * chunk" using dividend_less_div_times [of chunk "length s"] by simp
  ultimately show ?thesis by (simp add: context_of_def stream_signature_ok [OF assms] del: poll_signature.simps)
qed

text \<open>An example of a hasher: the number of bytes, in the last of 32 bytes.\<close>

definition sample_hasher :: "8 word hasher" where
  "sample_hasher = \<lparr>hs_init = 0, hs_update = (\<lambda>h c. h + word_of_nat (length c)), hs_final = (\<lambda>h. replicate 31 0 @ [h])\<rparr>"

definition sample_hash :: "string \<Rightarrow> 8 word list" where
  "sample_hash s = replicate 31 0 @ [word_of_nat (length s)]"

lemma sample_hasher_ok [simp]: "hasher_ok sample_hasher sample_hash"
proof -
  have "foldl (\<lambda>h c. h + word_of_nat (length c)) a cs = a + word_of_nat (length (concat cs))" for a :: "8 word" and cs :: "string list"
    by (induction cs arbitrary: a) auto
  then show ?thesis by (simp add: hasher_ok_def sample_hasher_def sample_hash_def)
qed

theorem signature_in_pieces_witness:
  "\<exists>x. poll_signature sample_hasher 1 1 (context_of sample_hasher (Some ''a'')) = (map_sum id Some (stream_signature sample_hasher ''a''), x)"
  using signature_in_pieces [OF sample_hasher_ok, of 1 "''a''"] by simp

text \<open>
  The text of a digest is not injective: a byte below sixteen is written with one digit, so digests that differ
  only in how their digits are divided among the bytes have the same signature.
\<close>

theorem digest_text_ambiguous:
  "hex_text (0x1 # 0x12 # bs) = hex_text (0x11 # 0x2 # bs) \<and> hex_text (0x1 # 0x12 # bs) = CHR ''1'' # CHR ''1'' # CHR ''2'' # hex_text bs"
  by (simp add: hex_text_def hex_byte_def hex_char_def digit_char_def) (simp add: char_of_def bit_0)

end
