(* ===== verification/Squall_Generator.thy ===== *)
theory Squall_Generator
  imports Squall_Compare Squall_Hash
begin

text \<open>
  The generator of Squall (\<open>Generator.cpp\<close>), which hashes a directory of the file system into a repository. The
  directory to read is a tree of names in the order the directory iterators give them; the files' content is read from
  the file system.
\<close>

section \<open>Reading a directory\<close>

datatype src_node = SrcFile string | SrcDir string int "src_node list"

fun node_name :: "src_node \<Rightarrow> string" where
  "node_name (SrcFile n) = n"
| "node_name (SrcDir n t ks) = n"

datatype generate_status = Copied | Existed

record generate_entry =
  ge_entry :: file_entry
  ge_source :: string
  ge_stored :: string
  ge_status :: generate_status

record existing_entry =
  ex_entry :: file_entry
  ex_time :: int
  ex_stored :: string

text \<open>Regular expressions are the sets of names they match.\<close>

record gen_config =
  gc_exclude :: "(string \<Rightarrow> bool) list"
  gc_include :: "(string \<Rightarrow> bool) list"
  gc_existing :: "(bool \<times> string list, existing_entry) smap"
  gc_skip_time :: bool

text \<open>An iterator over a directory: its path, the path relative to the source, its time, and what is left of it.\<close>

record dir_iter =
  di_path :: string
  di_rel :: string
  di_time :: int
  di_rest :: "src_node list"
  di_entries :: "generate_entry list"

text \<open>The last iterator comes first.\<close>

record generator =
  gn_repo :: string
  gn_source :: string
  gn_config :: gen_config
  gn_iters :: "dir_iter list"
  gn_generated :: "generate_entry list"

definition generator_new :: "string \<Rightarrow> string \<Rightarrow> int \<Rightarrow> src_node list \<Rightarrow> gen_config \<Rightarrow> generator" where
  "generator_new rp src t ns c =
     \<lparr>gn_repo = rp, gn_source = src, gn_config = c,
      gn_iters = (if ns \<noteq> [] then [\<lparr>di_path = src, di_rel = [], di_time = t, di_rest = ns, di_entries = []\<rparr>] else []),
      gn_generated = []\<rparr>"

definition should_process :: "gen_config \<Rightarrow> string \<Rightarrow> bool" where
  "should_process c n =
     (if list_ex (\<lambda>r. r n) (gc_exclude c) then False
      else if list_ex (\<lambda>r. r n) (gc_include c) then True
      else gc_include c = [])"

definition find_existing :: "gen_config \<Rightarrow> string \<Rightarrow> int option \<Rightarrow> squall_error + existing_entry option" where
  "find_existing c rel t =
     (case smap_find (path_key rel) (gc_existing c) of
        None \<Rightarrow> Inr None
      | Some x \<Rightarrow> (case t of
          None \<Rightarrow> Inl SqFilesystem
        | Some t' \<Rightarrow> Inr (if ex_time x = t' then Some x else None)))"

definition existed :: "existing_entry \<Rightarrow> string \<Rightarrow> generate_entry" where
  "existed x p = \<lparr>ge_entry = ex_entry x, ge_source = p, ge_stored = ex_stored x, ge_status = Existed\<rparr>"

definition link_file :: "gen_config \<Rightarrow> string \<Rightarrow> string \<Rightarrow> signature \<Rightarrow> files \<Rightarrow> squall_error + string \<times> files" where
  "link_file c rp p s fs =
     (case store_file rp s p fs of
        Inl e \<Rightarrow> Inl e
      | Inr (None, fs1) \<Rightarrow> Inr ([], fs1)
      | Inr (Some lp, fs1) \<Rightarrow>
          (if gc_skip_time c then Inr (lp, fs1)
           else case file_at fs1 p of
             None \<Rightarrow> Inl SqFilesystem
           | Some (_, t) \<Rightarrow> Inr (lp, set_write_time lp t fs1)))"

text \<open>
  A file that cannot be opened gets an empty signature, and cutting its first two characters off to store it throws.
\<close>

definition process_file ::
    "'h hasher \<Rightarrow> gen_config \<Rightarrow> string \<Rightarrow> string \<Rightarrow> string \<Rightarrow> string \<Rightarrow> files \<Rightarrow> squall_error + generate_entry \<times> files" where
  "process_file H c rp p rel n fs =
     (case find_existing c rel (map_option snd (file_at fs p)) of
        Inl e \<Rightarrow> Inl e
      | Inr (Some x) \<Rightarrow> Inr (existed x p, fs)
      | Inr None \<Rightarrow> (case file_at fs p of
          None \<Rightarrow> Inl SqRange
        | Some (d, _) \<Rightarrow> (case stream_signature H d of
            Inl e \<Rightarrow> Inl e
          | Inr (g, sz) \<Rightarrow> (case link_file c rp p g fs of
              Inl e \<Rightarrow> Inl e
            | Inr (lp, fs1) \<Rightarrow> Inr (\<lparr>ge_entry = \<lparr>fe_name = n, fe_sig = g, fe_type = FILE, fe_size = sz\<rparr>,
                ge_source = p, ge_stored = lp, ge_status = Copied\<rparr>, fs1)))))"

definition relative_dir :: "string \<Rightarrow> string" where
  "relative_dir rel = path_join (if rel = [] then ''.'' else rel) []"

definition file_name :: "string \<Rightarrow> string" where
  "file_name p = rev (takeWhile (\<lambda>c. c \<noteq> CHR ''/'') (rev p))"

definition combined_size :: "manifest \<Rightarrow> i64" where
  "combined_size m = foldl (\<lambda>a e. a + fe_size e) 0 (mf_entries m)"

definition process_directory ::
    "'h hasher \<Rightarrow> gen_config \<Rightarrow> string \<Rightarrow> string \<Rightarrow> string \<Rightarrow> int \<Rightarrow> manifest \<Rightarrow> bool \<Rightarrow> files
      \<Rightarrow> squall_error + generate_entry \<times> files" where
  "process_directory H c rp p rel t m new_data fs =
     (case (if new_data then Inr None else find_existing c (relative_dir rel) (Some t)) of
        Inl e \<Rightarrow> Inl e
      | Inr (Some x) \<Rightarrow> Inr (existed x p, fs)
      | Inr None \<Rightarrow> (case stream_signature H (manifest_text m) of
          Inl e \<Rightarrow> Inl e
        | Inr (g, _) \<Rightarrow> (case store_manifest rp g m fs of (lp, fs1) \<Rightarrow>
            Inr (\<lparr>ge_entry = \<lparr>fe_name = path_join (file_name p) [], fe_sig = g, fe_type = DIRECTORY, fe_size = combined_size m\<rparr>,
                ge_source = p, ge_stored = (case lp of None \<Rightarrow> [] | Some q \<Rightarrow> q), ge_status = Copied\<rparr>,
              (case lp of None \<Rightarrow> fs1 | Some q \<Rightarrow> if gc_skip_time c then fs1 else set_write_time q t fs1)))))"

text \<open>One turn of the loop of \<open>process\<close>; the entry that was processed, if there is one.\<close>

definition gen_step ::
    "'h hasher \<Rightarrow> generator \<Rightarrow> files \<Rightarrow> (squall_error + generate_entry list) \<times> generator \<times> files" where
  "gen_step H g fs =
     (case gn_iters g of
        [] \<Rightarrow> (Inr [], g, fs)
      | d # st \<Rightarrow> (case di_rest d of
          [] \<Rightarrow>
            (let m = \<lparr>mf_version = ''1'', mf_entries = sort_key fe_name (map ge_entry (di_entries d))\<rparr>;
                 new_data = list_ex (\<lambda>x. ge_status x = Copied) (di_entries d);
                 st1 = (case st of [] \<Rightarrow> [] | u # st' \<Rightarrow> u\<lparr>di_rest := tl (di_rest u)\<rparr> # st')
             in (case process_directory H (gn_config g) (gn_repo g) (di_path d) (di_rel d) (di_time d) m new_data fs of
                  Inl e \<Rightarrow> (Inl e, g\<lparr>gn_iters := st1\<rparr>, fs)
                | Inr (x, fs1) \<Rightarrow> (Inr [x], g\<lparr>gn_generated := gn_generated g @ [x],
                    gn_iters := (case st1 of [] \<Rightarrow> [] | u # st' \<Rightarrow> u\<lparr>di_entries := di_entries u @ [x]\<rparr> # st')\<rparr>, fs1)))
        | SrcDir n t ks # r \<Rightarrow>
            (if should_process (gn_config g) n
             then (Inr [], g\<lparr>gn_iters := \<lparr>di_path = path_join (di_path d) n, di_rel = path_join (di_rel d) n, di_time = t,
                di_rest = ks, di_entries = []\<rparr> # d # st\<rparr>, fs)
             else (Inr [], g\<lparr>gn_iters := d\<lparr>di_rest := r\<rparr> # st\<rparr>, fs))
        | SrcFile n # r \<Rightarrow>
            (if should_process (gn_config g) n
             then (case process_file H (gn_config g) (gn_repo g) (path_join (di_path d) n) (path_join (di_rel d) n) n fs of
                  Inl e \<Rightarrow> (Inl e, g, fs)
                | Inr (x, fs1) \<Rightarrow> (Inr [x], g\<lparr>gn_generated := gn_generated g @ [x],
                    gn_iters := d\<lparr>di_rest := r, di_entries := di_entries d @ [x]\<rparr> # st\<rparr>, fs1))
             else (Inr [], g\<lparr>gn_iters := d\<lparr>di_rest := r\<rparr> # st\<rparr>, fs))))"

text \<open>The loop ends: what is left to read shrinks with every turn.\<close>

fun node_weight :: "src_node \<Rightarrow> nat" where
  "node_weight (SrcFile n) = 1"
| "node_weight (SrcDir n t ks) = Suc (Suc (Suc (sum_list (map node_weight ks))))"

definition weight :: "src_node list \<Rightarrow> nat" where
  "weight ns = sum_list (map node_weight ns)"

fun gen_left :: "dir_iter list \<Rightarrow> nat" where
  "gen_left [] = 0"
| "gen_left (d # st) = Suc (weight (di_rest d)) + sum_list (map (\<lambda>u. Suc (Suc (weight (tl (di_rest u))))) st)"

lemma weight_simps [simp]: "weight [] = 0" "weight (x # xs) = node_weight x + weight xs"
  "node_weight (SrcDir n t ks) = Suc (Suc (Suc (weight ks)))"
  by (simp_all add: weight_def)

declare node_weight.simps(2) [simp del]

lemma gen_step_left:
  assumes "gn_iters g \<noteq> []" and "gen_step H g fs = (Inr xs, g', fs')"
  shows "gen_left (gn_iters g') < gen_left (gn_iters g)"
proof -
  from assms(1) obtain d st where d: "gn_iters g = d # st" by (cases "gn_iters g") auto
  show ?thesis
  proof (cases "di_rest d")
    case Nil
    with assms(2) d show ?thesis by (cases st) (auto simp: gen_step_def Let_def split: sum.splits)
  next
    case (Cons x r)
    with assms(2) d show ?thesis by (cases x) (auto simp: gen_step_def split: if_splits sum.splits)
  qed
qed

function gen_loop ::
    "'h hasher \<Rightarrow> generator \<Rightarrow> files \<Rightarrow> generate_entry list \<Rightarrow> (squall_error + generate_entry list) \<times> generator \<times> files" where
  "gen_loop H g fs out =
     (if gn_iters g = [] then (Inr out, g, fs)
      else case gen_step H g fs of
        (Inl e, g', fs') \<Rightarrow> (Inl e, g', fs')
      | (Inr xs, g', fs') \<Rightarrow> gen_loop H g' fs' (out @ xs))"
  by pat_completeness auto
termination
  by (relation "measure (\<lambda>(H, g, fs, out). gen_left (gn_iters g))") (auto dest!: gen_step_left [OF _ sym])

declare gen_loop.simps [simp del]

text \<open>\<open>process\<close>: the entries it processed and whether it is complete. The limit is only compared with zero.\<close>

definition gen_process ::
    "'h hasher \<Rightarrow> nat \<Rightarrow> generator \<Rightarrow> files \<Rightarrow> (squall_error + generate_entry list \<times> bool) \<times> generator \<times> files" where
  "gen_process H files_to_process g fs =
     (if files_to_process = 0 then (Inr ([], gn_iters g = []), g, fs)
      else case gen_loop H g fs [] of
        (Inl e, g', fs') \<Rightarrow> (Inl e, g', fs')
      | (Inr xs, g', fs') \<Rightarrow> (Inr (xs, gn_iters g' = []), g', fs'))"

section \<open>The entries of a repository\<close>

partial_function (option) read_entries_loop ::
    "string \<Rightarrow> files \<Rightarrow> iter \<Rightarrow> (bool \<times> string list, existing_entry) smap
      \<Rightarrow> (squall_error + (bool \<times> string list, existing_entry) smap) option" where
  "read_entries_loop rp fs i m =
     (if iter_eq i iter_end then Some (Inr m)
      else case iter_deref i of
        Inl e \<Rightarrow> Some (Inl e)
      | Inr (p, e) \<Rightarrow> (case file_at fs (resolve_path rp (fe_sig e)) of
          None \<Rightarrow> Some (Inl SqFilesystem)
        | Some (_, t) \<Rightarrow> (case iter_step fs i of
            Inl x \<Rightarrow> Some (Inl x)
          | Inr i' \<Rightarrow> read_entries_loop rp fs i' (smap_emplace (path_key p)
              \<lparr>ex_entry = e, ex_time = t, ex_stored = resolve_path rp (fe_sig e)\<rparr> m))))"

definition read_existing_entries ::
    "string \<Rightarrow> signature \<Rightarrow> files \<Rightarrow> (squall_error + (bool \<times> string list, existing_entry) smap) option" where
  "read_existing_entries rp s fs =
     (case fetch_manifest rp s fs of
        Inl e \<Rightarrow> Some (Inl e)
      | Inr None \<Rightarrow> Some (Inr [])
      | Inr (Some (p, m)) \<Rightarrow> (case file_at fs p of
          None \<Rightarrow> Some (Inl SqFilesystem)
        | Some (_, t) \<Rightarrow> read_entries_loop rp fs (iter_new rp m True)
            [(path_key ''./'', \<lparr>ex_entry = \<lparr>fe_name = [], fe_sig = s, fe_type = DIRECTORY, fe_size = combined_size m\<rparr>,
              ex_time = t, ex_stored = p\<rparr>)]))"

end
