(* ===== verification/Squall_Sound.thy ===== *)
theory Squall_Sound
  imports Squall_Hash
begin

text \<open>
  What every writer of a repository keeps: \<open>repo_sound\<close> says that the file named by a signature has content with that
  signature, and \<open>keeps\<close> that nothing outside of the data directory changes and no content gets lost. The set \<open>D\<close>
  holds the content that is ever stored; its members are told apart by their signatures.
\<close>

section \<open>Paths of the data directory\<close>

definition data_path :: "string \<Rightarrow> string \<Rightarrow> bool" where
  "data_path rp p \<longleftrightarrow> (\<exists>s. sig_plain s \<and> p = resolve_path rp s)"

lemma data_pathI [simp, intro]: "sig_plain s \<Longrightarrow> data_path rp (resolve_path rp s)"
  by (auto simp: data_path_def)

lemma rev_parent:
  "c \<noteq> CHR ''/'' \<Longrightarrow> CHR ''/'' \<notin> set a \<Longrightarrow> parent_path (b @ ''/'' @ c # a) = b"
proof -
  assume a: "c \<noteq> CHR ''/''" "CHR ''/'' \<notin> set a"
  then have "dropWhile (\<lambda>x. x \<noteq> CHR ''/'') ((rev a @ [c]) @ CHR ''/'' # rev b) = dropWhile (\<lambda>x. x \<noteq> CHR ''/'') (CHR ''/'' # rev b)"
    by (intro dropWhile_append2) auto
  then show ?thesis by (simp add: parent_path_def)
qed

lemma parent_resolve:
  assumes "sig_plain s" and "rp \<noteq> []"
  shows "parent_path (resolve_path rp s) = path_join rp ''data'' @ ''/'' @ take 2 (str_view s)"
proof -
  have "3 \<le> length (str_view s)" using assms(1) by (rule plain_length)
  then obtain c a where ca: "drop 2 (str_view s) = c # a" by (cases "drop 2 (str_view s)") auto
  then have "set (c # a) \<subseteq> set (str_view s)" by (metis set_drop_subset)
  then have "c \<noteq> CHR ''/''" "CHR ''/'' \<notin> set a" using assms(1) by (auto simp: sig_plain_def)
  then show ?thesis
    using rev_parent [of c a "path_join rp ''data'' @ ''/'' @ take 2 (str_view s)"] assms ca by (simp add: resolve_path_plain)
qed

lemma path_prefixes_length: "q \<in> set (path_prefixes p) \<Longrightarrow> length q \<le> length p"
  by (auto simp: path_prefixes_def)

lemma resolve_not_dir:
  assumes "sig_plain s" and "sig_plain s'" and "rp \<noteq> []"
  shows "resolve_path rp s \<notin> set (path_prefixes (parent_path (resolve_path rp s')))"
proof
  assume "resolve_path rp s \<in> set (path_prefixes (parent_path (resolve_path rp s')))"
  then have "length (resolve_path rp s) \<le> length (parent_path (resolve_path rp s'))" by (rule path_prefixes_length)
  then show False
    using plain_length [OF assms(1)] plain_length [OF assms(2)]
    unfolding parent_resolve [OF assms(2,3)] resolve_path_plain [OF assms(1,3)] by simp
qed

section \<open>Sound repositories\<close>

text \<open>What \<open>P\<close> says of a signature and its content holds for every file of the data directory.\<close>

definition store_inv :: "(signature \<Rightarrow> string \<Rightarrow> bool) \<Rightarrow> string \<Rightarrow> files \<Rightarrow> bool" where
  "store_inv P rp fs \<longleftrightarrow> smap_ok (fs_nodes fs) \<and>
     (\<forall>s. sig_plain s \<longrightarrow> link_target fs (resolve_path rp s) = resolve_path rp s \<and> resolve_path rp s \<notin> fs_dirs fs
       \<and> (\<forall>d t. file_at fs (resolve_path rp s) = Some (d, t) \<longrightarrow> P s d))"

abbreviation repo_sound :: "(string \<Rightarrow> 8 word list) \<Rightarrow> string set \<Rightarrow> string \<Rightarrow> files \<Rightarrow> bool" where
  "repo_sound f D \<equiv> store_inv (\<lambda>s d. content_sig f d = s \<and> d \<in> D)"

lemmas repo_sound_def = store_inv_def

definition stored_data :: "string \<Rightarrow> files \<Rightarrow> signature \<Rightarrow> string option" where
  "stored_data rp fs s = map_option fst (file_at fs (resolve_path rp s))"

definition keeps :: "string \<Rightarrow> files \<Rightarrow> files \<Rightarrow> bool" where
  "keeps rp fs fs' \<longleftrightarrow> fs_writable fs' = fs_writable fs \<and> fs_now fs' = fs_now fs
     \<and> (\<forall>p. \<not> data_path rp p \<longrightarrow> smap_find p (fs_nodes fs') = smap_find p (fs_nodes fs))
     \<and> (\<forall>s d. sig_plain s \<longrightarrow> stored_data rp fs s = Some d \<longrightarrow> stored_data rp fs' s = Some d)"

lemma keeps_refl [simp, intro]: "keeps rp fs fs"
  by (simp add: keeps_def)

lemma keeps_trans [trans]: "keeps rp a b \<Longrightarrow> keeps rp b c \<Longrightarrow> keeps rp a c"
  by (simp add: keeps_def)

lemma keepsD: "keeps rp fs fs' \<Longrightarrow> sig_plain s \<Longrightarrow> stored_data rp fs s = Some d \<Longrightarrow> stored_data rp fs' s = Some d"
  by (simp add: keeps_def)

text \<open>A path that leads to no file of the data directory.\<close>

definition away :: "string \<Rightarrow> files \<Rightarrow> string \<Rightarrow> bool" where
  "away rp fs p \<longleftrightarrow> \<not> data_path rp p \<and> \<not> data_path rp (link_target fs p)"

lemma keeps_away:
  assumes "keeps rp fs fs'" and "away rp fs p"
  shows "file_at fs' p = file_at fs p" and "away rp fs' p"
proof -
  have "smap_find p (fs_nodes fs') = smap_find p (fs_nodes fs)" using assms by (simp add: keeps_def away_def)
  then have l: "link_target fs' p = link_target fs p" by (simp add: link_target_def)
  then show "away rp fs' p" using assms(2) by (simp add: away_def)
  show "file_at fs' p = file_at fs p" using assms l by (simp add: keeps_def away_def file_at_def)
qed

lemma stored_data_find:
  "store_inv P rp fs \<Longrightarrow> sig_plain s \<Longrightarrow> stored_data rp fs s =
    (case smap_find (resolve_path rp s) (fs_nodes fs) of Some (Regular d t) \<Rightarrow> Some d | _ \<Rightarrow> None)"
  by (auto simp: store_inv_def stored_data_def file_at_def split: option.splits fnode.splits)

lemma contains_stored: "store_inv P rp fs \<Longrightarrow> sig_plain s \<Longrightarrow> contains rp s fs \<longleftrightarrow> stored_data rp fs s \<noteq> None"
  by (simp add: contains_def path_exists_def store_inv_def stored_data_def)

lemma stored_inv: "store_inv P rp fs \<Longrightarrow> sig_plain s \<Longrightarrow> stored_data rp fs s = Some d \<Longrightarrow> P s d"
  by (auto simp: store_inv_def stored_data_def)

lemma stored_sig: "repo_sound f D rp fs \<Longrightarrow> sig_plain s \<Longrightarrow> stored_data rp fs s = Some d \<Longrightarrow> content_sig f d = s \<and> d \<in> D"
  by (rule stored_inv)

lemma fetch_manifest_data:
  "store_inv P rp fs \<Longrightarrow> sig_plain s \<Longrightarrow> fetch_manifest rp s fs = (case stored_data rp fs s of
      None \<Rightarrow> Inr None
    | Some d \<Rightarrow> (case parse_manifest d of Inl e \<Rightarrow> Inl e | Inr m \<Rightarrow> Inr (Some (resolve_path rp s, m))))"
  by (auto simp: fetch_manifest_def fetch_def path_exists_def store_inv_def stored_data_def Let_def split: option.splits)

text \<open>Putting content with its signature in its place.\<close>

lemma put_data:
  assumes "store_inv P rp fs" and "sig_plain s" and "rp \<noteq> []" and "P s d"
    and "\<And>d'. stored_data rp fs s = Some d' \<Longrightarrow> d' = d"
    and "fs' = put_node (resolve_path rp s) (Regular d t) fs \<or>
      fs' = put_node (resolve_path rp s) (Regular d t) (create_dirs (parent_path (resolve_path rp s)) fs)"
  shows "store_inv P rp fs'" and "keeps rp fs fs'" and "stored_data rp fs' s = Some d"
proof -
  let ?p = "resolve_path rp s"
  have ok: "smap_ok (fs_nodes fs)" using assms(1) by (simp add: store_inv_def)
  have n: "smap_find q (fs_nodes fs') = (if q = ?p then Some (Regular d t) else smap_find q (fs_nodes fs))" for q
    using assms(6) ok by auto
  have ok': "smap_ok (fs_nodes fs')" using assms(6) ok by (auto simp: put_node_def create_dirs_def)
  have dirs: "resolve_path rp s' \<notin> fs_dirs fs'" if "sig_plain s'" for s'
    using assms(1,6) resolve_not_dir [OF that assms(2,3)] that by (auto simp: store_inv_def create_dirs_def)
  have lt: "link_target fs' (resolve_path rp s') = resolve_path rp s'" if "sig_plain s'" for s'
    using assms(1) that n [of "resolve_path rp s'"] by (auto simp: store_inv_def link_target_def split: fnode.splits option.splits)
  have fa: "file_at fs' (resolve_path rp s') = (if s' = s then Some (d, t) else file_at fs (resolve_path rp s'))" if "sig_plain s'" for s'
  proof -
    have "s' \<noteq> s \<Longrightarrow> resolve_path rp s' \<noteq> ?p" using resolve_path_inject [OF that assms(2,3)] by blast
    moreover have "link_target fs (resolve_path rp s') = resolve_path rp s'" using assms(1) that by (simp add: store_inv_def)
    ultimately show ?thesis using lt [OF that] n by (simp add: file_at_def)
  qed
  show "store_inv P rp fs'"
    using ok' dirs lt fa assms(1,4) by (auto simp: store_inv_def split: if_splits)
  have "fs_writable fs' = fs_writable fs" "fs_now fs' = fs_now fs" using assms(6) by (auto simp: put_node_def create_dirs_def)
  moreover have "stored_data rp fs' s' = Some d'" if "sig_plain s'" "stored_data rp fs s' = Some d'" for s' d'
    using fa [OF that(1)] assms(5) that(2) by (auto simp: stored_data_def)
  ultimately show "keeps rp fs fs'" using n assms(2) by (auto simp: keeps_def)
  show "stored_data rp fs' s = Some d" using fa [OF assms(2)] by (simp add: stored_data_def)
qed

section \<open>The operations of the repository\<close>

lemma collision_free:
  assumes "repo_sound f D rp fs" and "inj_on (content_sig f) D" and "d \<in> D" and "sig_plain (content_sig f d)"
    and "stored_data rp fs (content_sig f d) = Some d'"
  shows "d' = d"
  using stored_sig [OF assms(1,4,5)] inj_onD [OF assms(2), of d' d] assms(3) by simp

lemma store_text_sound:
  assumes "repo_sound f D rp fs" and "inj_on (content_sig f) D" and "d \<in> D" and "s = content_sig f d" and "sig_plain s"
    and "rp \<noteq> []" and "\<forall>p. fs_writable fs p"
  shows "\<exists>fs'. store_text rp s d fs = (Some (resolve_path rp s), fs') \<and> repo_sound f D rp fs' \<and> keeps rp fs fs' \<and> stored_data rp fs' s = Some d"
proof -
  have "link_target fs (resolve_path rp s) = resolve_path rp s" using assms(1,5) by (simp add: repo_sound_def)
  then have "link_target (create_dirs (parent_path (resolve_path rp s)) fs) (resolve_path rp s) = resolve_path rp s"
    by (simp add: link_target_def)
  then have "store_text rp s d fs = (Some (resolve_path rp s),
      put_node (resolve_path rp s) (Regular d (fs_now fs)) (create_dirs (parent_path (resolve_path rp s)) fs))"
    using assms(7) by (simp add: store_text_def write_file_def create_dirs_def Let_def)
  moreover note put_data [OF assms(1,5,6) conjI [OF assms(4) [symmetric] assms(3)] _ disjI2 [OF refl], of "fs_now fs"]
  ultimately show ?thesis using collision_free [OF assms(1-3)] assms(4,5) by auto
qed

lemma store_file_inv:
  assumes "store_inv P rp fs" and "sig_plain s" and "rp \<noteq> []" and "file_at fs src = Some (d, t)" and "\<not> contains rp s fs" and "P s d"
    and "fs_writable fs (resolve_path rp s)"
  shows "\<exists>fs'. store_file rp s src fs = Inr (Some (resolve_path rp s), fs') \<and> store_inv P rp fs' \<and> keeps rp fs fs' \<and> stored_data rp fs' s = Some d
    \<and> fs_dirs fs' = set (path_prefixes (parent_path (resolve_path rp s))) \<union> fs_dirs fs"
proof -
  have "link_target fs (resolve_path rp s) = resolve_path rp s" using assms(1,2) by (simp add: store_inv_def)
  then have "link_target (create_dirs (parent_path (resolve_path rp s)) fs) (resolve_path rp s) = resolve_path rp s"
    by (simp add: link_target_def)
  with assms(5) have "store_file rp s src fs = Inr (Some (resolve_path rp s),
      put_node (resolve_path rp s) (Regular d (fs_now fs)) (create_dirs (parent_path (resolve_path rp s)) fs))"
    using assms(4,7) by (simp add: store_file_def contains_def write_file_def create_dirs_def Let_def)
  moreover have "stored_data rp fs s = Some d' \<Longrightarrow> d' = d" for d' using assms(5) contains_stored [OF assms(1,2)] by simp
  note put_data [OF assms(1-3) assms(6) this disjI2 [OF refl], of "fs_now fs"]
  ultimately show ?thesis by (auto simp: create_dirs_def)
qed

lemma store_file_there: "contains rp s fs \<Longrightarrow> store_file rp s src fs = Inr (Some (resolve_path rp s), fs)"
  by (simp add: store_file_def contains_def)

lemma store_file_sound:
  assumes "repo_sound f D rp fs" and "inj_on (content_sig f) D" and "d \<in> D" and "s = content_sig f d" and "sig_plain s"
    and "rp \<noteq> []" and "file_at fs src = Some (d, t)" and "fs_writable fs (resolve_path rp s)"
  shows "\<exists>fs'. store_file rp s src fs = Inr (Some (resolve_path rp s), fs') \<and> repo_sound f D rp fs' \<and> keeps rp fs fs' \<and> stored_data rp fs' s = Some d"
proof (cases "contains rp s fs")
  case True
  then obtain d' where "stored_data rp fs s = Some d'" using contains_stored [OF assms(1,5)] by auto
  then have "stored_data rp fs s = Some d" using collision_free [OF assms(1-3)] assms(4,5) by blast
  then show ?thesis using store_file_there [OF True] assms(1) by auto
next
  case False
  have "content_sig f d = s \<and> d \<in> D" using assms(3,4) by simp
  from store_file_inv [OF assms(1,5,6,7) False this assms(8)] show ?thesis by blast
qed

lemma set_write_time_sound:
  assumes "repo_sound f D rp fs" and "sig_plain s" and "rp \<noteq> []" and "stored_data rp fs s = Some d"
  shows "repo_sound f D rp (set_write_time (resolve_path rp s) t fs) \<and> keeps rp fs (set_write_time (resolve_path rp s) t fs)
    \<and> stored_data rp (set_write_time (resolve_path rp s) t fs) s = Some d"
proof -
  obtain t0 where "file_at fs (resolve_path rp s) = Some (d, t0)" using assms(4) by (auto simp: stored_data_def)
  then have e: "set_write_time (resolve_path rp s) t fs = put_node (resolve_path rp s) (Regular d t) fs"
    using assms(1,2) by (simp add: set_write_time_def repo_sound_def)
  have c: "content_sig f d = s" "d \<in> D" using stored_sig [OF assms(1,2,4)] by simp_all
  have "d' = d" if "stored_data rp fs s = Some d'" for d' using that assms(4) by simp
  note p = put_data [OF assms(1-3) conjI [OF c] this disjI1 [OF refl]]
  show ?thesis unfolding e by (intro conjI p)
qed

text \<open>A manifest in its place is fetched as it was.\<close>

lemma fetch_manifest_stored:
  assumes "stored_data rp fs s = Some (manifest_text m)" and "manifest_ok m"
  shows "fetch_manifest rp s fs = Inr (Some (resolve_path rp s, m))"
proof -
  obtain t where "file_at fs (resolve_path rp s) = Some (manifest_text m, t)" using assms(1) by (auto simp: stored_data_def)
  then show ?thesis using assms(2) by (simp add: fetch_manifest_def fetch_def path_exists_def parse_manifest_text)
qed

end
