(* ===== verification/Squall_Generate.thy ===== *)
theory Squall_Generate
  imports Squall_Generator Squall_Sound
begin

text \<open>
  What the generator leaves in the repository: \<open>digest_trees\<close> computes the signatures of a source directory by
  recursion, without a repository; the loop of the generator with its stack of directory iterators ends with exactly
  that tree stored, under the signature of its root.
\<close>

section \<open>The tree of signatures of a source\<close>

fun stree_root :: "stree \<Rightarrow> file_entry" where
  "stree_root (Leaf e) = e"
| "stree_root (Branch e ts) = e"

definition dir_manifest :: "stree list \<Rightarrow> manifest" where
  "dir_manifest ts = \<lparr>mf_version = ''1'', mf_entries = map stree_root ts\<rparr>"

definition content_at :: "files \<Rightarrow> string \<Rightarrow> string" where
  "content_at fs p = (case file_at fs p of None \<Rightarrow> [] | Some (d, _) \<Rightarrow> d)"

definition sorted_trees :: "stree list \<Rightarrow> stree list" where
  "sorted_trees = sort_key (\<lambda>t. fe_name (stree_root t))"

abbreviation included :: "gen_config \<Rightarrow> src_node list \<Rightarrow> src_node list" where
  "included c ns \<equiv> filter (\<lambda>x. should_process c (node_name x)) ns"

fun digest_tree :: "(string \<Rightarrow> 8 word list) \<Rightarrow> gen_config \<Rightarrow> files \<Rightarrow> string \<Rightarrow> src_node \<Rightarrow> stree" where
  "digest_tree f c fs p (SrcFile n) =
     (let d = content_at fs (path_join p n) in
      Leaf \<lparr>fe_name = n, fe_sig = content_sig f d, fe_type = FILE, fe_size = word_of_nat (length d)\<rparr>)"
| "digest_tree f c fs p (SrcDir n t ks) =
     (let ts = sorted_trees (map (digest_tree f c fs (path_join p n)) (included c ks)); m = dir_manifest ts in
      Branch \<lparr>fe_name = n @ ''/'', fe_sig = content_sig f (manifest_text m), fe_type = DIRECTORY, fe_size = combined_size m\<rparr> ts)"

definition digest_trees :: "(string \<Rightarrow> 8 word list) \<Rightarrow> gen_config \<Rightarrow> files \<Rightarrow> string \<Rightarrow> src_node list \<Rightarrow> stree list" where
  "digest_trees f c fs p ns = sorted_trees (map (digest_tree f c fs p) (included c ns))"

text \<open>The content the generator stores for an entry: that of the included files and the manifests of the included directories.\<close>

fun source_contents :: "(string \<Rightarrow> 8 word list) \<Rightarrow> gen_config \<Rightarrow> files \<Rightarrow> string \<Rightarrow> src_node \<Rightarrow> string set" where
  "source_contents f c fs p (SrcFile n) = {content_at fs (path_join p n)}"
| "source_contents f c fs p (SrcDir n t ks) =
     insert (manifest_text (dir_manifest (digest_trees f c fs (path_join p n) ks)))
       (\<Union>k \<in> set (included c ks). source_contents f c fs (path_join p n) k)"

definition name_ok :: "string \<Rightarrow> bool" where
  "name_ok n \<longleftrightarrow> n \<noteq> [] \<and> CHR ''/'' \<notin> set n \<and> LF \<notin> set n"

fun source_ok :: "string \<Rightarrow> files \<Rightarrow> string \<Rightarrow> src_node \<Rightarrow> bool" where
  "source_ok rp fs p (SrcFile n) \<longleftrightarrow> name_ok n \<and> away rp fs (path_join p n) \<and> file_at fs (path_join p n) \<noteq> None"
| "source_ok rp fs p (SrcDir n t ks) \<longleftrightarrow> name_ok n \<and> list_all (source_ok rp fs (path_join p n)) ks"

text \<open>A tree whose content and manifests are all in the repository.\<close>

fun held :: "string \<Rightarrow> files \<Rightarrow> stree \<Rightarrow> bool" where
  "held rp fs (Leaf e) \<longleftrightarrow> fe_type e = FILE \<and> sig_plain (fe_sig e) \<and> sig_valid (fe_sig e) \<and> stored_data rp fs (fe_sig e) \<noteq> None"
| "held rp fs (Branch e ts) \<longleftrightarrow> fe_type e = DIRECTORY \<and> sig_plain (fe_sig e) \<and> sig_valid (fe_sig e)
     \<and> stored_data rp fs (fe_sig e) = Some (manifest_text (dir_manifest ts))
     \<and> manifest_ok (dir_manifest ts) \<and> list_all (held rp fs) ts"

lemma held_keeps: "held rp fs t \<Longrightarrow> keeps rp fs fs' \<Longrightarrow> held rp fs' t"
proof (induction t)
  case (Leaf e)
  then show ?case by (auto dest: keepsD)
next
  case (Branch e ts)
  then show ?case by (auto simp: list_all_iff dest: keepsD)
qed

text \<open>Held trees are what the iterator visits, with every entry present.\<close>

lemma held_stored:
  assumes "list_all (held rp fs) ts"
  shows "stored rp fs (map stree_root ts) ts"
  using assms
proof (induction "size_list size ts" arbitrary: ts rule: less_induct)
  case less
  show ?case
  proof (cases ts)
    case Nil
    then show ?thesis by (simp add: stored_Nil)
  next
    case (Cons t us)
    have us: "stored rp fs (map stree_root us) us" using less Cons by simp
    show ?thesis
    proof (cases t)
      case (Leaf e)
      then show ?thesis using Cons less.prems us by (simp add: stored_file)
    next
      case (Branch e ks)
      have ks: "stored rp fs (map stree_root ks) ks" using less Cons Branch by simp
      have "fetch_manifest rp (fe_sig e) fs = Inr (Some (resolve_path rp (fe_sig e), dir_manifest ks))"
        using less.prems Cons Branch by (simp add: fetch_manifest_stored)
      then show ?thesis using Cons Branch less.prems us ks by (simp add: stored_dir dir_manifest_def)
    qed
  qed
qed

lemma held_present:
  assumes "repo_sound f D rp fs"
  shows "held rp fs t \<Longrightarrow> list_all (present rp fs) (walk_tree p t)"
proof (induction t arbitrary: p)
  case (Leaf e)
  then show ?case using contains_stored [OF assms] by (simp add: present_def)
next
  case (Branch e ts)
  then show ?case using contains_stored [OF assms] by (auto simp: present_def list_all_iff)
qed

lemma held_walk:
  assumes "repo_sound f D rp fs" and "list_all (held rp fs) ts"
  shows "walk_loop fs (iter_new rp (dir_manifest ts) True) [] = Some (Inr (walk_trees [] ts))"
proof -
  have "list_all (present rp fs) (walk_trees [] ts)"
    using assms(2) held_present [OF assms(1)] by (auto simp: walk_trees_def list_all_iff)
  then have "takeWhile (present rp fs) (walk_trees [] ts) = walk_trees [] ts"
    by (simp add: takeWhile_eq_all_conv list_all_iff)
  then show ?thesis using walk_manifest [of rp fs "dir_manifest ts" ts] held_stored [OF assms(2)] by (simp add: dir_manifest_def)
qed

section \<open>Facts on names and sorting\<close>

lemma insort_key_map: "map h (insort_key (\<lambda>x. g (h x)) a xs) = insort_key g (h a) (map h xs)"
  by (induction xs) auto

lemma sort_key_map: "map h (sort_key (\<lambda>x. g (h x)) xs) = sort_key g (map h xs)"
  by (induction xs) (simp_all add: insort_key_map)

lemma roots_sorted: "map stree_root (sorted_trees ts) = sort_key fe_name (map stree_root ts)"
  by (simp add: sorted_trees_def sort_key_map)

lemma set_sorted_trees [simp]: "set (sorted_trees ts) = set ts"
  by (simp add: sorted_trees_def)

lemma file_name_join:
  assumes "name_ok n"
  shows "file_name (path_join p n) = n" and "path_join n [] = n @ ''/''"
proof -
  have tw: "takeWhile (\<lambda>c. c \<noteq> CHR ''/'') (rev n @ CHR ''/'' # r) = rev n" for r
    using assms by (subst takeWhile_append2) (auto simp: name_ok_def)
  have ne0: "n \<noteq> []" using assms by (simp add: name_ok_def)
  then have ne: "n \<noteq> []" "hd n \<noteq> CHR ''/''" "last n \<noteq> CHR ''/''"
    using assms hd_in_set [OF ne0] last_in_set [OF ne0] unfolding name_ok_def by metis+
  have tw0: "takeWhile (\<lambda>c. c \<noteq> CHR ''/'') (rev n) = rev n" using assms by (auto simp: name_ok_def takeWhile_eq_all_conv)
  show "file_name (path_join p n) = n"
  proof (cases p rule: rev_cases)
    case Nil
    then show ?thesis using ne by (simp add: file_name_def path_join_def is_absolute_def tw0 del: takeWhile_eq_all_conv)
  next
    case (snoc q c)
    then show ?thesis using ne tw by (auto simp: file_name_def path_join_def is_absolute_def)
  qed
  show "path_join n [] = n @ ''/''" using ne by (simp add: path_join_def is_absolute_def)
qed

section \<open>One entry\<close>

text \<open>What the configuration takes from an earlier run has to be right: the entry it finds is the one it would compute.\<close>

fun existing_ok :: "(string \<Rightarrow> 8 word list) \<Rightarrow> gen_config \<Rightarrow> string \<Rightarrow> files \<Rightarrow> string \<Rightarrow> string \<Rightarrow> src_node \<Rightarrow> bool" where
  "existing_ok f c rp fs p rel (SrcFile n) \<longleftrightarrow>
     (case find_existing c (path_join rel n) (map_option snd (file_at fs (path_join p n))) of
        Inr (Some x) \<Rightarrow> ex_entry x = stree_root (digest_tree f c fs p (SrcFile n)) \<and> held rp fs (digest_tree f c fs p (SrcFile n))
      | _ \<Rightarrow> True)"
| "existing_ok f c rp fs p rel (SrcDir n t ks) \<longleftrightarrow>
     (case find_existing c (relative_dir (path_join rel n)) (Some t) of
        Inr (Some x) \<Rightarrow> ex_entry x = stree_root (digest_tree f c fs p (SrcDir n t ks)) \<and> held rp fs (digest_tree f c fs p (SrcDir n t ks))
      | _ \<Rightarrow> True)
     \<and> list_all (existing_ok f c rp fs (path_join p n) (path_join rel n)) ks"

lemma find_existing_total: "\<exists>r. find_existing c rel (Some t) = Inr r"
  by (simp add: find_existing_def split: option.split)

lemma link_file_ok:
  assumes "repo_sound f D rp fs" and "inj_on (content_sig f) D" and "d \<in> D" and "s = content_sig f d" and "sig_plain s"
    and "rp \<noteq> []" and "file_at fs q = Some (d, t)" and "\<forall>p. fs_writable fs p" and "away rp fs q"
  shows "\<exists>lp fs'. link_file c rp q s fs = Inr (lp, fs') \<and> repo_sound f D rp fs' \<and> keeps rp fs fs' \<and> stored_data rp fs' s = Some d"
proof -
  from store_file_sound [OF assms(1-7) assms(8) [rule_format]] obtain fs1 where
    1: "store_file rp s q fs = Inr (Some (resolve_path rp s), fs1)" "repo_sound f D rp fs1" "keeps rp fs fs1" "stored_data rp fs1 s = Some d"
    by blast
  have "file_at fs1 q = Some (d, t)" using keeps_away(1) [OF 1(3) assms(9)] assms(7) by simp
  moreover note set_write_time_sound [OF 1(2) assms(5,6) 1(4), of t]
  ultimately show ?thesis using 1 keeps_trans [OF 1(3)] by (auto simp: link_file_def)
qed

lemma process_file_ok:
  assumes "hasher_ok H f" and "inj_on (content_sig f) D" and "repo_sound f D rp fs" and "rp \<noteq> []"
    and "file_at fs q = Some (d, t)" and "away rp fs q" and "d \<in> D"
    and "E = \<lparr>fe_name = n, fe_sig = content_sig f d, fe_type = FILE, fe_size = word_of_nat (length d)\<rparr>"
    and "\<And>x. find_existing c rel (Some t) = Inr (Some x) \<Longrightarrow> ex_entry x = E \<and> held rp fs (Leaf E)"
    and "\<forall>p. fs_writable fs p"
  shows "\<exists>x fs'. process_file H c rp q rel n fs = Inr (x, fs') \<and> ge_entry x = E \<and> repo_sound f D rp fs' \<and> keeps rp fs fs'
    \<and> held rp fs' (Leaf E)"
proof -
  obtain r where r: "find_existing c rel (Some t) = Inr r" using find_existing_total by blast
  have sp: "sig_plain (content_sig f d)" "sig_valid (content_sig f d)"
    using assms(1) content_sig_plain by (auto simp: hasher_ok_def)
  show ?thesis
  proof (cases r)
    case (Some x)
    then show ?thesis using r assms(3,5,9) by (auto simp: process_file_def existed_def)
  next
    case None
    obtain lp fs' where "link_file c rp q (content_sig f d) fs = Inr (lp, fs')" "repo_sound f D rp fs'" "keeps rp fs fs'"
      "stored_data rp fs' (content_sig f d) = Some d"
      using link_file_ok [OF assms(3,2,7) refl sp(1) assms(4,5,10,6)] by blast
    then show ?thesis using None r assms(5,8) sp by (simp add: process_file_def stream_signature_ok [OF assms(1)])
  qed
qed

lemma process_directory_ok:
  assumes "hasher_ok H f" and "inj_on (content_sig f) D" and "repo_sound f D rp fs" and "rp \<noteq> []" and "\<forall>p. fs_writable fs p"
    and "m = dir_manifest ts" and "manifest_text m \<in> D" and "manifest_ok m" and "list_all (held rp fs) ts"
    and "\<And>x. find_existing c (relative_dir rel) (Some t) = Inr (Some x) \<Longrightarrow>
      fe_sig (ex_entry x) = content_sig f (manifest_text m) \<and> stored_data rp fs (content_sig f (manifest_text m)) = Some (manifest_text m)"
  shows "\<exists>x fs'. process_directory H c rp q rel t m new_data fs = Inr (x, fs')
    \<and> (ge_entry x = \<lparr>fe_name = path_join (file_name q) [], fe_sig = content_sig f (manifest_text m), fe_type = DIRECTORY, fe_size = combined_size m\<rparr>
       \<or> (\<exists>x'. find_existing c (relative_dir rel) (Some t) = Inr (Some x') \<and> ge_entry x = ex_entry x'))
    \<and> fe_sig (ge_entry x) = content_sig f (manifest_text m) \<and> repo_sound f D rp fs' \<and> keeps rp fs fs'
    \<and> stored_data rp fs' (content_sig f (manifest_text m)) = Some (manifest_text m)"
proof -
  obtain r where r: "find_existing c (relative_dir rel) (Some t) = Inr r" using find_existing_total by blast
  have sp: "sig_plain (content_sig f (manifest_text m))" using assms(1) content_sig_plain by (auto simp: hasher_ok_def)
  show ?thesis
  proof (cases "new_data \<or> r = None")
    case False
    then obtain x where "r = Some x" by auto
    then show ?thesis using False r assms(3,10) by (simp add: process_directory_def existed_def)
  next
    case True
    have "\<exists>fs1. store_manifest rp (content_sig f (manifest_text m)) m fs = (Some (resolve_path rp (content_sig f (manifest_text m))), fs1)
        \<and> repo_sound f D rp fs1 \<and> keeps rp fs fs1 \<and> stored_data rp fs1 (content_sig f (manifest_text m)) = Some (manifest_text m)"
      using store_text_sound [OF assms(3,2,7) refl sp assms(4,5)] by (simp add: store_manifest_def)
    then obtain fs1 where 1: "store_manifest rp (content_sig f (manifest_text m)) m fs = (Some (resolve_path rp (content_sig f (manifest_text m))), fs1)"
      "repo_sound f D rp fs1" "keeps rp fs fs1" "stored_data rp fs1 (content_sig f (manifest_text m)) = Some (manifest_text m)" by blast
    have 2: "(if new_data then Inr None else find_existing c (relative_dir rel) (Some t)) = Inr None" using True r by auto
    note 3 = set_write_time_sound [OF 1(2) sp assms(4) 1(4), of t]
    show ?thesis
    proof (cases "gc_skip_time c")
      case True
      then show ?thesis using 1 2 by (simp add: process_directory_def stream_signature_ok [OF assms(1)])
    next
      case False
      then show ?thesis using 1 2 3 keeps_trans [OF 1(3)]
        by (simp add: process_directory_def stream_signature_ok [OF assms(1)])
    qed
  qed
qed

section \<open>The loop\<close>

lemma digest_tree_entry:
  assumes "\<forall>s. length (f s) = 32" and "source_ok rp fs0 p x"
  shows "entry_ok (stree_root (digest_tree f c fs p x))" and "sig_valid (fe_sig (stree_root (digest_tree f c fs p x)))"
proof -
  have *: "last n \<noteq> CHR ''/''" if "name_ok n" for n
    using that last_in_set [of n] unfolding name_ok_def by metis
  show "entry_ok (stree_root (digest_tree f c fs p x))"
    using assms * content_sig_plain(1) by (cases x) (auto simp: entry_ok_def name_ok_def Let_def)
  show "sig_valid (fe_sig (stree_root (digest_tree f c fs p x)))"
    using assms(1) content_sig_plain(2) by (cases x) (auto simp: Let_def)
qed

lemma digest_trees_manifest:
  assumes "\<forall>s. length (f s) = 32" and "list_all (source_ok rp fs0 p) ns"
  shows "manifest_ok (dir_manifest (digest_trees f c fs p ns))"
  using assms(2) digest_tree_entry(1) [OF assms(1)]
  by (auto simp: manifest_ok_def dir_manifest_def digest_trees_def list_all_iff)

lemma gen_loop_turn:
  "gn_iters g \<noteq> [] \<Longrightarrow> gen_step H g fs = (Inr xs, g', fs') \<Longrightarrow> gen_loop H g fs acc = gen_loop H g' fs' (acc @ xs)"
  by (subst gen_loop.simps) simp

text \<open>The manifest the loop builds when a directory is complete.\<close>

lemma collected_manifest:
  assumes "map ge_entry es = map (stree_root \<circ> digest_tree f c fs p) (included c ns)"
  shows "\<lparr>mf_version = ''1'', mf_entries = sort_key fe_name (map ge_entry es)\<rparr> = dir_manifest (digest_trees f c fs p ns)"
  using assms by (simp add: dir_manifest_def digest_trees_def roots_sorted)

lemma gen_nodes:
  assumes H: "hasher_ok H f" and inj: "inj_on (content_sig f) D" and rp: "rp \<noteq> []"
    and "list_all (source_ok rp fs0 p) ns" and "\<forall>x \<in> set (included c ns). source_contents f c fs0 p x \<subseteq> D"
    and "list_all (existing_ok f c rp fs0 p rel) ns"
    and "repo_sound f D rp fs" and "keeps rp fs0 fs" and "\<forall>p. fs_writable fs p"
    and "gn_config g = c" and "gn_repo g = rp" and "gn_iters g = d # st" and "di_path d = p" and "di_rel d = rel" and "di_rest d = ns @ r"
  shows "\<exists>fs' xs es. gen_loop H g fs acc = gen_loop H (g\<lparr>gn_generated := gn_generated g @ xs,
        gn_iters := d\<lparr>di_rest := r, di_entries := di_entries d @ es\<rparr> # st\<rparr>) fs' (acc @ xs)
      \<and> repo_sound f D rp fs' \<and> keeps rp fs fs'
      \<and> map ge_entry es = map (stree_root \<circ> digest_tree f c fs0 p) (included c ns)
      \<and> list_all (held rp fs') (map (digest_tree f c fs0 p) (included c ns))"
  using assms(4-)
proof (induction "weight ns" arbitrary: p rel ns fs g d st r acc rule: less_induct)
  case less
  note prems = less.prems
  have f32: "\<forall>s. length (f s) = 32" using H by (simp add: hasher_ok_def)
  show ?case
  proof (cases ns)
    case Nil
    then have "g = g\<lparr>gn_generated := gn_generated g @ [], gn_iters := d\<lparr>di_rest := r, di_entries := di_entries d @ []\<rparr> # st\<rparr>"
      using prems by simp
    with Nil prems(4) show ?thesis by (intro exI [of _ fs] exI [of _ "[]"]) simp
  next
    case (Cons x ns')
    \<comment> \<open>what is left of the directory, once the first entry has been processed\<close>
    have rest: "\<exists>fs' xs es. gen_loop H g1 fs1 acc1 = gen_loop H (g1\<lparr>gn_generated := gn_generated g1 @ xs,
          gn_iters := d\<lparr>di_rest := r, di_entries := es1 @ es\<rparr> # st\<rparr>) fs' (acc1 @ xs)
        \<and> repo_sound f D rp fs' \<and> keeps rp fs1 fs'
        \<and> map ge_entry es = map (stree_root \<circ> digest_tree f c fs0 p) (included c ns')
        \<and> list_all (held rp fs') (map (digest_tree f c fs0 p) (included c ns'))"
      if "repo_sound f D rp fs1" "keeps rp fs fs1" "gn_config g1 = c" "gn_repo g1 = rp"
        "gn_iters g1 = d\<lparr>di_rest := ns' @ r, di_entries := es1\<rparr> # st" for g1 fs1 acc1 es1
    proof -
      have w: "weight ns' < weight ns" using Cons by (cases x) simp_all
      have "\<forall>p. fs_writable fs1 p" using prems(6) that(2) by (simp add: keeps_def)
      from less.hyps [OF w _ _ _ that(1) keeps_trans [OF prems(5) that(2)] this that(3-5), of p rel r acc1] Cons prems
      show ?thesis by simp
    qed
    \<comment> \<open>one processed entry and the rest\<close>
    have both: ?thesis
      if sp: "should_process c (node_name x)" and 1: "repo_sound f D rp fs1" "keeps rp fs fs1" "held rp fs1 (digest_tree f c fs0 p x)"
        and e: "ge_entry e = stree_root (digest_tree f c fs0 p x)"
        and run: "gen_loop H g fs acc = gen_loop H (g\<lparr>gn_generated := gn_generated g @ xs1,
            gn_iters := d\<lparr>di_rest := ns' @ r, di_entries := di_entries d @ [e]\<rparr> # st\<rparr>) fs1 (acc @ xs1)" for fs1 e xs1
    proof -
      from rest [OF 1(1,2), of "g\<lparr>gn_generated := gn_generated g @ xs1, gn_iters := d\<lparr>di_rest := ns' @ r, di_entries := di_entries d @ [e]\<rparr> # st\<rparr>"
          "di_entries d @ [e]" "acc @ xs1"] prems(7,8)
      obtain fs' xs es where 2: "gen_loop H g fs acc = gen_loop H (g\<lparr>gn_generated := gn_generated g @ xs1 @ xs,
            gn_iters := d\<lparr>di_rest := r, di_entries := di_entries d @ e # es\<rparr> # st\<rparr>) fs' (acc @ xs1 @ xs)"
        "repo_sound f D rp fs'" "keeps rp fs1 fs'"
        "map ge_entry es = map (stree_root \<circ> digest_tree f c fs0 p) (included c ns')"
        "list_all (held rp fs') (map (digest_tree f c fs0 p) (included c ns'))"
        unfolding run by auto
      with sp Cons e held_keeps [OF 1(3) 2(3)] keeps_trans [OF 1(2) 2(3)] show ?thesis
        by (intro exI [of _ fs'] exI [of _ "xs1 @ xs"] exI [of _ "e # es"]) simp
    qed
    show ?thesis
    proof (cases "should_process c (node_name x)")
      case False
      let ?g = "g\<lparr>gn_iters := d\<lparr>di_rest := ns' @ r\<rparr> # st\<rparr>"
      have "gen_step H g fs = (Inr [], ?g, fs)"
        using False Cons prems by (cases x) (simp_all add: gen_step_def)
      from gen_loop_turn [OF _ this, of acc] have run: "gen_loop H g fs acc = gen_loop H ?g fs acc" using prems(9) by simp
      have "d\<lparr>di_rest := ns' @ r\<rparr> = d\<lparr>di_rest := ns' @ r, di_entries := di_entries d\<rparr>" by simp
      from rest [OF prems(4) keeps_refl, of ?g "di_entries d" acc] this prems(7,8) run False Cons show ?thesis by simp
    next
      case sp: True
      show ?thesis
      proof (cases x)
        case (SrcFile n)
        let ?q = "path_join p n"
        have ok: "away rp fs0 ?q" "file_at fs0 ?q \<noteq> None" using prems(1) Cons SrcFile by simp_all
        then obtain dt t where dt: "file_at fs ?q = Some (dt, t)" "file_at fs0 ?q = Some (dt, t)"
          using keeps_away(1) [OF prems(5)] by auto
        have aw: "away rp fs ?q" using keeps_away(2) [OF prems(5) ok(1)] .
        have c: "content_at fs0 ?q = dt" using dt by (simp add: content_at_def)
        have inD: "dt \<in> D" using prems(2) Cons SrcFile c sp by auto
        let ?E = "\<lparr>fe_name = n, fe_sig = content_sig f dt, fe_type = FILE, fe_size = word_of_nat (length dt)\<rparr>"
        have t: "digest_tree f c fs0 p x = Leaf ?E" using SrcFile c by simp
        have ex: "ex_entry y = ?E \<and> held rp fs (Leaf ?E)" if "find_existing c (path_join rel n) (Some t) = Inr (Some y)" for y
        proof -
          have "ex_entry y = ?E \<and> held rp fs0 (Leaf ?E)" using prems(3) Cons SrcFile that dt c by simp
          with held_keeps [OF _ prems(5), of "Leaf ?E"] show ?thesis by blast
        qed
        from process_file_ok [OF H inj prems(4) rp dt(1) aw inD refl ex prems(6), where c = c] obtain e fs1 where
          e: "process_file H c rp ?q (path_join rel n) n fs = Inr (e, fs1)" "ge_entry e = ?E" "repo_sound f D rp fs1"
            "keeps rp fs fs1" "held rp fs1 (Leaf ?E)" by blast
        have "gen_step H g fs = (Inr [e], g\<lparr>gn_generated := gn_generated g @ [e],
            gn_iters := d\<lparr>di_rest := ns' @ r, di_entries := di_entries d @ [e]\<rparr> # st\<rparr>, fs1)"
          using sp SrcFile Cons prems e(1) by (simp add: gen_step_def)
        from gen_loop_turn [OF _ this, of acc] prems(9)
        show ?thesis by (intro both [OF sp e(3,4), of e "[e]"]) (simp_all add: t e del: held.simps)
      next
        case (SrcDir n t ks)
        let ?q = "path_join p n" and ?rel = "path_join rel n"
        let ?d1 = "\<lparr>di_path = ?q, di_rel = ?rel, di_time = t, di_rest = ks, di_entries = []\<rparr>"
        let ?g1 = "g\<lparr>gn_iters := ?d1 # d # st\<rparr>"
        have n: "name_ok n" and ok: "list_all (source_ok rp fs0 ?q) ks" using prems(1) Cons SrcDir by simp_all
        have "gen_step H g fs = (Inr [], ?g1, fs)" using sp SrcDir Cons prems by (simp add: gen_step_def)
        from gen_loop_turn [OF _ this, of acc] have run1: "gen_loop H g fs acc = gen_loop H ?g1 fs acc" using prems(9) by simp
        have w: "weight ks < weight ns" using Cons SrcDir by simp
        have cont: "\<forall>k \<in> set (included c ks). source_contents f c fs0 ?q k \<subseteq> D"
          "manifest_text (dir_manifest (digest_trees f c fs0 ?q ks)) \<in> D"
          using prems(2) Cons SrcDir sp by auto
        have exk: "list_all (existing_ok f c rp fs0 ?q ?rel) ks" using prems(3) Cons SrcDir by simp
        from less.hyps [OF w ok cont(1) exk prems(4-6), of ?g1 ?d1 "d # st" "[]" acc] prems(7,8)
        obtain fs2 xs es where 2: "gen_loop H ?g1 fs acc = gen_loop H (?g1\<lparr>gn_generated := gn_generated g @ xs,
              gn_iters := ?d1\<lparr>di_rest := [], di_entries := es\<rparr> # d # st\<rparr>) fs2 (acc @ xs)"
          "repo_sound f D rp fs2" "keeps rp fs fs2"
          "map ge_entry es = map (stree_root \<circ> digest_tree f c fs0 ?q) (included c ks)"
          "list_all (held rp fs2) (map (digest_tree f c fs0 ?q) (included c ks))" by auto
        let ?ts = "digest_trees f c fs0 ?q ks"
        let ?m = "dir_manifest ?ts"
        let ?E = "\<lparr>fe_name = n @ ''/'', fe_sig = content_sig f (manifest_text ?m), fe_type = DIRECTORY, fe_size = combined_size ?m\<rparr>"
        have t: "digest_tree f c fs0 p x = Branch ?E ?ts" using SrcDir by (simp add: digest_trees_def Let_def)
        have hts: "list_all (held rp fs2) ?ts" using 2(5) by (simp add: digest_trees_def list_all_iff)
        have mok: "manifest_ok ?m" by (rule digest_trees_manifest [OF f32 ok])
        have hE: "held rp fs' (Branch ?E ?ts)" if "keeps rp fs2 fs'" "stored_data rp fs' (content_sig f (manifest_text ?m)) = Some (manifest_text ?m)" for fs'
          using that hts mok held_keeps [OF _ that(1)] f32 content_sig_plain by (auto simp: list_all_iff)
        have ex: "ex_entry y = ?E \<and> stored_data rp fs2 (content_sig f (manifest_text ?m)) = Some (manifest_text ?m)"
          if "find_existing c (relative_dir ?rel) (Some t) = Inr (Some y)" for y
        proof -
          have "ex_entry y = ?E \<and> held rp fs0 (Branch ?E ?ts)" using prems(3) Cons SrcDir that t by simp
          with held_keeps [OF _ keeps_trans [OF prems(5) 2(3)]] show ?thesis by fastforce
        qed
        then have ex': "fe_sig (ex_entry y) = content_sig f (manifest_text ?m)
            \<and> stored_data rp fs2 (content_sig f (manifest_text ?m)) = Some (manifest_text ?m)"
          if "find_existing c (relative_dir ?rel) (Some t) = Inr (Some y)" for y using that by simp
        have wr: "\<forall>p. fs_writable fs2 p" using prems(6) 2(3) by (simp add: keeps_def)
        let ?new = "list_ex (\<lambda>x. ge_status x = Copied) es"
        from process_directory_ok [OF H inj 2(2) rp wr refl cont(2) mok hts, of c ?rel t ?q ?new, OF ex']
        obtain e fs3 where 3: "process_directory H c rp ?q ?rel t ?m ?new fs2 = Inr (e, fs3)"
          "ge_entry e = \<lparr>fe_name = path_join (file_name ?q) [], fe_sig = content_sig f (manifest_text ?m), fe_type = DIRECTORY, fe_size = combined_size ?m\<rparr>
            \<or> (\<exists>x'. find_existing c (relative_dir ?rel) (Some t) = Inr (Some x') \<and> ge_entry e = ex_entry x')"
          "repo_sound f D rp fs3" "keeps rp fs2 fs3" "stored_data rp fs3 (content_sig f (manifest_text ?m)) = Some (manifest_text ?m)" by blast
        have e: "ge_entry e = ?E" using 3(2) ex file_name_join [OF n] by auto
        let ?g2 = "?g1\<lparr>gn_generated := gn_generated g @ xs, gn_iters := ?d1\<lparr>di_rest := [], di_entries := es\<rparr> # d # st\<rparr>"
        have "gen_step H ?g2 fs2 = (Inr [e], ?g2\<lparr>gn_generated := gn_generated ?g2 @ [e],
            gn_iters := d\<lparr>di_rest := ns' @ r, di_entries := di_entries d @ [e]\<rparr> # st\<rparr>, fs3)"
          using 3(1) SrcDir Cons prems collected_manifest [OF 2(4)] by (simp add: gen_step_def)
        from gen_loop_turn [OF _ this, of "acc @ xs"] run1 2(1)
        have "gen_loop H g fs acc = gen_loop H (g\<lparr>gn_generated := gn_generated g @ (xs @ [e]),
            gn_iters := d\<lparr>di_rest := ns' @ r, di_entries := di_entries d @ [e]\<rparr> # st\<rparr>) fs3 (acc @ (xs @ [e]))" by simp
        then show ?thesis
          using hE [OF 3(4,5)] e t by (intro both [OF sp 3(3) keeps_trans [OF 2(3) 3(4)]]) (simp_all del: held.simps)
      qed
    qed
  qed
qed

section \<open>What the generator guarantees\<close>

text \<open>The run with any set of contents that do not collide.\<close>

lemma generator_stores:
  assumes "hasher_ok H f" and "inj_on (content_sig f) D" and "rp \<noteq> []" and "repo_sound f D rp fs" and "\<forall>p. fs_writable fs p"
    and "ns \<noteq> []" and "list_all (source_ok rp fs src) ns" and "\<forall>x \<in> set (included c ns). source_contents f c fs src x \<subseteq> D"
    and "list_all (existing_ok f c rp fs src []) ns" and "smap_find (path_key ''./'') (gc_existing c) = None"
    and "ts = digest_trees f c fs src ns" and "manifest_text (dir_manifest ts) \<in> D" and "0 < k"
  shows "\<exists>xs x g fs'. gen_process H k (generator_new rp src t ns c) fs = (Inr (xs @ [x], True), g, fs')
    \<and> fe_sig (ge_entry x) = content_sig f (manifest_text (dir_manifest ts))
    \<and> fetch_manifest rp (fe_sig (ge_entry x)) fs' = Inr (Some (resolve_path rp (fe_sig (ge_entry x)), dir_manifest ts))
    \<and> walk_loop fs' (iter_new rp (dir_manifest ts) True) [] = Some (Inr (walk_trees [] ts))
    \<and> repo_sound f D rp fs' \<and> keeps rp fs fs'"
proof -
  let ?g = "generator_new rp src t ns c"
  let ?d = "\<lparr>di_path = src, di_rel = [], di_time = t, di_rest = ns, di_entries = []\<rparr> :: dir_iter"
  let ?m = "dir_manifest ts"
  have g: "gn_config ?g = c" "gn_repo ?g = rp" "gn_iters ?g = [?d]" "gn_generated ?g = []" using assms(6) by (simp_all add: generator_new_def)
  have f32: "\<forall>s. length (f s) = 32" using assms(1) by (simp add: hasher_ok_def)
  from gen_nodes [OF assms(1-3,7-9,4) keeps_refl assms(5) g(1-3), of "[]" "[]"] g(4)
  obtain fs1 xs es where 1: "gen_loop H ?g fs [] = gen_loop H (?g\<lparr>gn_generated := xs,
        gn_iters := [?d\<lparr>di_rest := [], di_entries := es\<rparr>]\<rparr>) fs1 xs"
    "repo_sound f D rp fs1" "keeps rp fs fs1" "map ge_entry es = map (stree_root \<circ> digest_tree f c fs src) (included c ns)"
    "list_all (held rp fs1) (map (digest_tree f c fs src) (included c ns))" by auto
  have hts: "list_all (held rp fs1) ts" using 1(5) assms(11) by (simp add: digest_trees_def list_all_iff)
  have mok: "manifest_ok ?m" using digest_trees_manifest [OF f32 assms(7)] assms(11) by simp
  have wr: "\<forall>p. fs_writable fs1 p" using assms(5) 1(3) by (simp add: keeps_def)
  have nf: "find_existing c (relative_dir []) (Some t) = Inr None"
    using assms(10) by (simp add: find_existing_def relative_dir_def path_join_def is_absolute_def)
  let ?new = "list_ex (\<lambda>x. ge_status x = Copied) es"
  from process_directory_ok [OF assms(1,2) 1(2) assms(3) wr refl assms(12) mok hts, of c "[]" t src ?new] nf
  obtain e fs2 where 2: "process_directory H c rp src [] t ?m ?new fs1 = Inr (e, fs2)"
    "fe_sig (ge_entry e) = content_sig f (manifest_text ?m)" "repo_sound f D rp fs2" "keeps rp fs1 fs2"
    "stored_data rp fs2 (content_sig f (manifest_text ?m)) = Some (manifest_text ?m)" by auto
  let ?g1 = "?g\<lparr>gn_generated := xs, gn_iters := [?d\<lparr>di_rest := [], di_entries := es\<rparr>]\<rparr>"
  have "gen_step H ?g1 fs1 = (Inr [e], ?g1\<lparr>gn_generated := xs @ [e], gn_iters := []\<rparr>, fs2)"
    using 2(1) g collected_manifest [OF 1(4)] assms(11) by (simp add: gen_step_def)
  from gen_loop_turn [OF _ this, of xs] 1(1)
  have "gen_loop H ?g fs [] = gen_loop H (?g1\<lparr>gn_generated := xs @ [e], gn_iters := []\<rparr>) fs2 (xs @ [e])" by simp
  also have "\<dots> = (Inr (xs @ [e]), ?g1\<lparr>gn_generated := xs @ [e], gn_iters := []\<rparr>, fs2)" by (subst gen_loop.simps) simp
  finally have "gen_process H k ?g fs = (Inr (xs @ [e], True), ?g1\<lparr>gn_generated := xs @ [e], gn_iters := []\<rparr>, fs2)"
    using assms(13) by (simp add: gen_process_def)
  moreover have "list_all (held rp fs2) ts" using hts held_keeps [OF _ 2(4)] by (auto simp: list_all_iff)
  then have "walk_loop fs2 (iter_new rp ?m True) [] = Some (Inr (walk_trees [] ts))" by (rule held_walk [OF 2(3)])
  moreover have "fetch_manifest rp (fe_sig (ge_entry e)) fs2 = Inr (Some (resolve_path rp (fe_sig (ge_entry e)), ?m))"
    using fetch_manifest_stored [OF 2(5) mok] 2(2) by simp
  ultimately show ?thesis using 2(2,3) keeps_trans [OF 1(3) 2(4)] by blast
qed

text \<open>Everything the call stores: what it stores for the included entries, and the manifest of the source itself.\<close>

definition source_stores :: "(string \<Rightarrow> 8 word list) \<Rightarrow> gen_config \<Rightarrow> files \<Rightarrow> string \<Rightarrow> src_node list \<Rightarrow> string set" where
  "source_stores f c fs p ns = insert (manifest_text (dir_manifest (digest_trees f c fs p ns)))
     (\<Union>x \<in> set (included c ns). source_contents f c fs p x)"

lemma repo_sound_less:
  "repo_sound f D rp fs \<Longrightarrow> (\<And>s d. sig_plain s \<Longrightarrow> stored_data rp fs s = Some d \<Longrightarrow> d \<in> D') \<Longrightarrow> repo_sound f D' rp fs"
  by (fastforce simp: repo_sound_def stored_data_def)

lemma repo_sound_more: "repo_sound f D rp fs \<Longrightarrow> D \<subseteq> D' \<Longrightarrow> repo_sound f D' rp fs"
  by (rule repo_sound_less) (auto dest: stored_sig)


definition sample_source :: files where
  "sample_source = \<lparr>fs_nodes = [(''s/a'', Regular ''x'' 0)], fs_dirs = {''s''}, fs_writable = (\<lambda>p. True), fs_now = 0\<rparr>"

definition sample_config :: gen_config where
  "sample_config = \<lparr>gc_exclude = [], gc_include = [], gc_existing = [], gc_skip_time = False\<rparr>"

lemma sample_source_sound: "repo_sound f D ''r'' sample_source"
  by (auto simp: repo_sound_def sample_source_def resolve_path_plain path_join_def is_absolute_def link_target_def file_at_def
      smap_ok_def)

lemma sample_source_ok: "source_ok ''r'' sample_source ''s'' (SrcFile ''a'')"
  by (auto simp: away_def data_path_def resolve_path_plain sample_source_def path_join_def is_absolute_def link_target_def
      file_at_def name_ok_def)

lemma sample_trees:
  "digest_trees sample_hash sample_config sample_source ''s'' [SrcFile ''a''] =
    [Leaf \<lparr>fe_name = ''a'', fe_sig = content_sig sample_hash ''x'', fe_type = FILE, fe_size = 1\<rparr>]"
  by (simp add: digest_trees_def sorted_trees_def should_process_def sample_config_def content_at_def sample_source_def
      path_join_def is_absolute_def file_at_def link_target_def)


end
