(* ===== verification/Squall_Realizer.thy ===== *)
theory Squall_Realizer
  imports Squall_Generate
begin

text \<open>
  The realizer of Squall (\<open>Realizer.cpp\<close>), which recreates the files a manifest describes in the file system, by copies
  or links. Its iterator is advanced before an entry is realized.
\<close>

section \<open>Changing the file system\<close>

text \<open>\<open>create_directories\<close> fails where a file is in the way.\<close>

definition make_dirs :: "string \<Rightarrow> files \<Rightarrow> squall_error option \<times> files" where
  "make_dirs p fs =
     (if list_ex (\<lambda>q. file_at fs q \<noteq> None) (path_prefixes p) then (Some SqFilesystem, fs) else (None, create_dirs p fs))"

definition remove_path :: "string \<Rightarrow> files \<Rightarrow> squall_error option \<times> files" where
  "remove_path p fs =
     (if smap_has p (fs_nodes fs) then (None, remove_node p fs)
      else if p \<in> fs_dirs fs then
        (if list_ex (\<lambda>q. below p q \<noteq> None) (map fst (fs_nodes fs)) \<or> (\<exists>q \<in> fs_dirs fs. below p q \<noteq> None)
         then (Some SqFilesystem, fs) else (None, fs\<lparr>fs_dirs := fs_dirs fs - {p}\<rparr>))
      else (None, fs))"

definition make_link :: "fnode \<Rightarrow> string \<Rightarrow> files \<Rightarrow> squall_error option \<times> files" where
  "make_link n p fs =
     (if smap_has p (fs_nodes fs) \<or> p \<in> fs_dirs fs then (Some SqFilesystem, fs) else (None, put_node p n fs))"

text \<open>\<open>copy\<close> with the option to overwrite: a directory as the source copies nothing, one as the target takes the file in.\<close>

definition copy_over :: "string \<Rightarrow> string \<Rightarrow> files \<Rightarrow> squall_error option \<times> files" where
  "copy_over q p fs =
     (case file_at fs q of
        None \<Rightarrow> if q \<in> fs_dirs fs \<and> file_at fs p = None then (None, fs) else (Some SqFilesystem, fs)
      | Some (d, _) \<Rightarrow>
          (let p' = (if p \<in> fs_dirs fs then path_join p (file_name q) else p)
           in if link_target fs p' = link_target fs q then (Some SqFilesystem, fs) else (None, write_file p' d fs)))"

section \<open>Polling\<close>

datatype realize_status = COMPLETE | INPROGRESS | INCOMPLETE
datatype realize_method = COPY | HARDLINK | SYMLINK

record realizer =
  rz_repo :: string
  rz_dest :: string
  rz_iter :: iter
  rz_method :: realize_method

definition replace_link :: "fnode \<Rightarrow> string \<Rightarrow> files \<Rightarrow> squall_error option \<times> files" where
  "replace_link n p fs =
     (case (if path_exists fs p then remove_path p fs else (None, fs)) of
        (Some e, fs1) \<Rightarrow> (Some e, fs1)
      | (None, fs1) \<Rightarrow> make_link n p fs1)"

definition realize_entry ::
    "realize_method \<Rightarrow> string \<Rightarrow> string \<Rightarrow> string \<times> file_entry \<Rightarrow> files \<Rightarrow> squall_error option \<times> files" where
  "realize_entry meth rp dest x fs =
     (let p = path_join dest (fst x); q = resolve_path rp (fe_sig (snd x)) in
      case fe_type (snd x) of
        DIRECTORY \<Rightarrow> make_dirs p fs
      | FILE \<Rightarrow> (case make_dirs (parent_path p) fs of
          (Some e, fs1) \<Rightarrow> (Some e, fs1)
        | (None, fs1) \<Rightarrow> (case meth of
            SYMLINK \<Rightarrow> replace_link (SymLink q) p fs1
          | HARDLINK \<Rightarrow> (case (if path_exists fs1 p then remove_path p fs1 else (None, fs1)) of
              (Some e, fs2) \<Rightarrow> (Some e, fs2)
            | (None, fs2) \<Rightarrow> (if file_at fs2 q = None then (Some SqFilesystem, fs2) else make_link (HardLink (link_target fs2 q)) p fs2))
          | COPY \<Rightarrow> copy_over q p fs1)))"

definition realize_poll :: "realizer \<Rightarrow> files \<Rightarrow> (squall_error + realize_status) \<times> realizer \<times> files" where
  "realize_poll z fs =
     (if iter_eq (rz_iter z) iter_end then (Inr COMPLETE, z, fs)
      else if iter_bool fs (rz_iter z) then
        (case iter_step fs (rz_iter z) of
           Inl e \<Rightarrow> (Inl e, z, fs)
         | Inr i \<Rightarrow>
             (let z1 = z\<lparr>rz_iter := i\<rparr> in
              if iter_eq i iter_end then (Inr COMPLETE, z1, fs)
              else case iter_deref i of
                Inl e \<Rightarrow> (Inl e, z1, fs)
              | Inr x \<Rightarrow> (case realize_entry (rz_method z) (rz_repo z) (rz_dest z) x fs of
                  (Some e, fs1) \<Rightarrow> (Inl e, z1, fs1)
                | (None, fs1) \<Rightarrow> (Inr INPROGRESS, z1, fs1))))
      else (Inr INCOMPLETE, z, fs))"

text \<open>Polling as long as there is progress, at most \<open>n\<close> times.\<close>

fun realize_run :: "nat \<Rightarrow> realizer \<Rightarrow> files \<Rightarrow> (squall_error + realize_status) \<times> realizer \<times> files" where
  "realize_run 0 z fs = (Inr INPROGRESS, z, fs)"
| "realize_run (Suc n) z fs = (case realize_poll z fs of
      (Inr INPROGRESS, z1, fs1) \<Rightarrow> realize_run n z1 fs1
    | r \<Rightarrow> r)"

section \<open>A destination that is out of the way\<close>

text \<open>
  The destination of an entry is fresh: nothing is at a file's path, the directories to create are not files, and
  neither is in the store.
\<close>

definition dest_dirs :: "string \<Rightarrow> string \<times> file_entry \<Rightarrow> string list" where
  "dest_dirs dest x = (let p = path_join dest (fst x) in path_prefixes (case fe_type (snd x) of DIRECTORY \<Rightarrow> p | FILE \<Rightarrow> parent_path p))"

definition dest_files :: "string \<Rightarrow> (string \<times> file_entry) list \<Rightarrow> string list" where
  "dest_files dest ws = map (\<lambda>x. path_join dest (fst x)) (filter (\<lambda>x. fe_type (snd x) = FILE) ws)"

definition dest_fresh :: "string \<Rightarrow> string \<Rightarrow> (string \<times> file_entry) list \<Rightarrow> files \<Rightarrow> bool" where
  "dest_fresh rp dest ws fs \<longleftrightarrow>
     (\<forall>p \<in> set (dest_files dest ws). \<not> data_path rp p \<and> smap_find p (fs_nodes fs) = None \<and> p \<notin> fs_dirs fs)
     \<and> (\<forall>x \<in> set ws. \<forall>r \<in> set (dest_dirs dest x). \<not> data_path rp r \<and> smap_find r (fs_nodes fs) = None \<and> r \<notin> set (dest_files dest ws))"

definition same_store :: "string \<Rightarrow> files \<Rightarrow> files \<Rightarrow> bool" where
  "same_store rp fs fs' \<longleftrightarrow> (\<forall>s. sig_plain s \<longrightarrow> stored_data rp fs' s = stored_data rp fs s
     \<and> fetch_manifest rp s fs' = fetch_manifest rp s fs)"

lemma same_store_refl [simp, intro]: "same_store rp fs fs"
  by (simp add: same_store_def)

lemma same_store_trans [trans]: "same_store rp a b \<Longrightarrow> same_store rp b c \<Longrightarrow> same_store rp a c"
  by (simp add: same_store_def)

lemma same_store_put:
  assumes "store_inv P rp fs" and "smap_ok (fs_nodes fs')" and "\<And>p. data_path rp p \<Longrightarrow> smap_find p (fs_nodes fs') = smap_find p (fs_nodes fs)"
    and "\<And>p. data_path rp p \<Longrightarrow> p \<notin> fs_dirs fs'"
  shows "store_inv P rp fs' \<and> same_store rp fs fs'"
proof -
  have e: "link_target fs' (resolve_path rp s) = resolve_path rp s" "file_at fs' (resolve_path rp s) = file_at fs (resolve_path rp s)"
    "resolve_path rp s \<notin> fs_dirs fs" "resolve_path rp s \<notin> fs_dirs fs'" if "sig_plain s" for s
    using assms(1,3,4) that data_pathI [OF that] by (auto simp: store_inv_def link_target_def file_at_def)
  then have "same_store rp fs fs'"
    by (simp add: same_store_def stored_data_def fetch_manifest_def fetch_def path_exists_def Let_def)
  with e assms(1,2) show ?thesis by (simp add: store_inv_def)
qed

lemma stored_same:
  assumes "same_store rp fs fs'"
  shows "stored rp fs es ts \<Longrightarrow> list_all (\<lambda>x. sig_plain (fe_sig (snd x))) (walk_trees p ts) \<Longrightarrow> stored rp fs' es ts"
proof (induction arbitrary: p rule: stored.induct)
  case (stored_dir e q m ks es ts)
  then have "list_all (\<lambda>x. sig_plain (fe_sig (snd x))) (walk_trees (path_join p (fe_name e)) ks)" by (simp add: walk_trees_def)
  moreover have "fetch_manifest rp (fe_sig e) fs' = Inr (Some (q, m))" using stored_dir assms by (simp add: walk_trees_def same_store_def)
  ultimately show ?case using stored_dir by (intro stored.stored_dir) (auto simp: walk_trees_def)
next
  case (stored_missing e es ts)
  then have "fetch_manifest rp (fe_sig e) fs' = Inr None" using assms by (simp add: walk_trees_def same_store_def)
  then show ?case using stored_missing by (intro stored.stored_missing) (auto simp: walk_trees_def)
next
  case (stored_file e es ts)
  then show ?case by (intro stored.stored_file) (auto simp: walk_trees_def)
qed (rule stored.stored_Nil)

lemma pending_same:
  assumes "same_store rp fs fs'"
  shows "pending rp fs st w \<Longrightarrow> list_all (\<lambda>x. sig_plain (fe_sig (snd x))) w \<Longrightarrow> pending rp fs' st w"
  by (induction rule: pending.induct) (auto intro: pending.intros stored_same [OF assms])

lemma todo_same:
  assumes "same_store rp fs fs'"
  shows "todo rp fs st w \<Longrightarrow> list_all (\<lambda>x. sig_plain (fe_sig (snd x))) w \<Longrightarrow> todo rp fs' st w"
  by (induction rule: todo.induct) (auto intro: todo.intros stored_same [OF assms] pending_same [OF assms])

section \<open>Realizing entries\<close>

definition realized :: "string \<Rightarrow> string \<Rightarrow> files \<Rightarrow> string \<times> file_entry \<Rightarrow> bool" where
  "realized rp dest fs x \<longleftrightarrow> (let q = path_join dest (fst x) in case fe_type (snd x) of
      DIRECTORY \<Rightarrow> q \<in> fs_dirs fs
    | FILE \<Rightarrow> map_option fst (file_at fs q) = stored_data rp fs (fe_sig (snd x))
        \<and> smap_find q (fs_nodes fs) \<noteq> None \<and> (link_target fs q = q \<or> data_path rp (link_target fs q)))"

definition result_node :: "realize_method \<Rightarrow> string \<Rightarrow> string \<Rightarrow> int \<Rightarrow> fnode" where
  "result_node meth q d t = (case meth of COPY \<Rightarrow> Regular d t | HARDLINK \<Rightarrow> HardLink q | SYMLINK \<Rightarrow> SymLink q)"

lemma make_dirs_fresh:
  "\<forall>r \<in> set (path_prefixes p). smap_find r (fs_nodes fs) = None \<Longrightarrow> make_dirs p fs = (None, create_dirs p fs)"
  by (auto simp: make_dirs_def file_at_def link_target_def list_ex_iff)

lemma realize_file_fresh:
  assumes "repo_sound f D rp fs" and "fe_type e = FILE" and "sig_plain (fe_sig e)" and "stored_data rp fs (fe_sig e) = Some d"
    and "dest_fresh rp dest ((p, e) # ws) fs" and "q = path_join dest p"
  shows "realize_entry meth rp dest (p, e) fs
    = (None, put_node q (result_node meth (resolve_path rp (fe_sig e)) d (fs_now fs)) (create_dirs (parent_path q) fs))"
proof -
  let ?r = "resolve_path rp (fe_sig e)" and ?fs = "create_dirs (parent_path q) fs"
  have q: "\<not> data_path rp q" "smap_find q (fs_nodes fs) = None" "q \<notin> fs_dirs fs" "q \<notin> set (path_prefixes (parent_path q))"
    and pr: "\<forall>r \<in> set (path_prefixes (parent_path q)). smap_find r (fs_nodes fs) = None"
    using assms(2,5,6) by (auto simp: dest_fresh_def dest_files_def dest_dirs_def Let_def)
  then have qd: "q \<notin> fs_dirs ?fs" "file_at ?fs q = None" "link_target ?fs q = q"
    by (auto simp: create_dirs_def file_at_def link_target_def)
  have r: "link_target ?fs ?r = ?r" "\<exists>t. file_at ?fs ?r = Some (d, t)" "?r \<noteq> q"
    using assms(1,3,4) q(1) by (auto simp: repo_sound_def link_target_def stored_data_def)
  have now: "fs_now ?fs = fs_now fs" by (simp add: create_dirs_def)
  have cd: "make_dirs (parent_path q) fs = (None, ?fs)" by (rule make_dirs_fresh [OF pr])
  show ?thesis
    using assms(2,6) cd qd r q now
    by (cases meth) (auto simp: realize_entry_def Let_def replace_link_def path_exists_def make_link_def copy_over_def smap_has_def
        write_file_def result_node_def)
qed

lemma realize_dir_fresh:
  assumes "fe_type e = DIRECTORY" and "dest_fresh rp dest ((p, e) # ws) fs"
  shows "realize_entry meth rp dest (p, e) fs = (None, create_dirs (path_join dest p) fs)"
  using assms by (auto simp: realize_entry_def dest_fresh_def dest_dirs_def Let_def intro!: make_dirs_fresh)

lemma realized_other:
  assumes "realized rp dest fs x" and "same_store rp fs fs'" and "sig_plain (fe_sig (snd x))" and "fs_dirs fs \<subseteq> fs_dirs fs'"
    and "\<And>r. r \<noteq> q \<Longrightarrow> smap_find r (fs_nodes fs') = smap_find r (fs_nodes fs)" and "\<not> data_path rp q"
    and "smap_find q (fs_nodes fs) = None"
  shows "realized rp dest fs' x"
proof (cases "fe_type (snd x)")
  case FILE
  let ?p = "path_join dest (fst x)"
  have "smap_find ?p (fs_nodes fs) \<noteq> None" and t: "link_target fs ?p = ?p \<or> data_path rp (link_target fs ?p)"
    and c: "map_option fst (file_at fs ?p) = stored_data rp fs (fe_sig (snd x))"
    using assms(1) FILE by (simp_all add: realized_def Let_def)
  then have n: "?p \<noteq> q" using assms(7) by auto
  then have lt: "link_target fs' ?p = link_target fs ?p" using assms(5) by (simp add: link_target_def)
  have "link_target fs ?p \<noteq> q" using n t assms(6) by auto
  then have "file_at fs' ?p = file_at fs ?p" using assms(5) lt by (simp add: file_at_def)
  then show ?thesis using assms(1-3) n lt assms(5) FILE by (simp add: realized_def Let_def same_store_def)
qed (use assms(1,4) in \<open>auto simp: realized_def Let_def\<close>)

lemma self_prefix: "p \<in> set (path_prefixes p)"
  by (simp add: path_prefixes_def)

text \<open>One entry with a fresh destination is realized, and those behind it stay fresh.\<close>

lemma realize_entry_fresh:
  assumes "repo_sound f D rp fs" and "sig_plain (fe_sig (snd x))" and "stored_data rp fs (fe_sig (snd x)) \<noteq> None"
    and "dest_fresh rp dest (x # ws) fs" and "distinct (dest_files dest (x # ws))"
  shows "\<exists>fs'. realize_entry meth rp dest x fs = (None, fs') \<and> repo_sound f D rp fs' \<and> same_store rp fs fs' \<and> dest_fresh rp dest ws fs'
    \<and> realized rp dest fs' x
    \<and> (\<forall>y. realized rp dest fs y \<longrightarrow> sig_plain (fe_sig (snd y)) \<longrightarrow> realized rp dest fs' y)
    \<and> (\<forall>q. q \<notin> set (dest_files dest (x # ws)) \<longrightarrow> smap_find q (fs_nodes fs') = smap_find q (fs_nodes fs))"
proof -
  obtain p e where x: "x = (p, e)" by (cases x)
  let ?q = "path_join dest p"
  have ok: "smap_ok (fs_nodes fs)" using assms(1) by (simp add: repo_sound_def)
  have dd: "\<And>r. data_path rp r \<Longrightarrow> r \<notin> fs_dirs fs" using assms(1) by (auto simp: repo_sound_def data_path_def)
  have fresh: "\<forall>r \<in> set (dest_dirs dest x). \<not> data_path rp r \<and> smap_find r (fs_nodes fs) = None \<and> r \<notin> set (dest_files dest (x # ws))"
    using assms(4) by (simp add: dest_fresh_def)
  show ?thesis
  proof (cases "fe_type e")
    case FILE
    obtain d where d: "stored_data rp fs (fe_sig e) = Some d" using assms(3) x by auto
    let ?n = "result_node meth (resolve_path rp (fe_sig e)) d (fs_now fs)"
    let ?fs = "put_node ?q ?n (create_dirs (parent_path ?q) fs)"
    have run: "realize_entry meth rp dest x fs = (None, ?fs)"
      unfolding x using assms(2,4) x by (intro realize_file_fresh [OF assms(1) FILE _ d _ refl]) simp_all
    have q: "\<not> data_path rp ?q" "smap_find ?q (fs_nodes fs) = None" "?q \<notin> fs_dirs fs" "?q \<notin> set (dest_files dest ws)"
      using assms(4,5) FILE x by (simp_all add: dest_fresh_def dest_files_def)
    have n: "smap_find r (fs_nodes ?fs) = (if r = ?q then Some ?n else smap_find r (fs_nodes fs))" for r using ok by simp
    have dirs: "fs_dirs ?fs = set (dest_dirs dest x) \<union> fs_dirs fs" using FILE x by (simp add: create_dirs_def dest_dirs_def Let_def)
    have "\<And>r. data_path rp r \<Longrightarrow> r \<notin> fs_dirs ?fs" using dirs fresh dd by auto
    with q(1) n ok have ss: "repo_sound f D rp ?fs \<and> same_store rp fs ?fs"
      by (intro same_store_put [OF assms(1)]) (auto simp: put_node_def)
    have df: "dest_files dest (x # ws) = ?q # dest_files dest ws" using FILE x by (simp add: dest_files_def)
    note old = assms(4) [unfolded dest_fresh_def df]
    have fr: "dest_fresh rp dest ws ?fs" unfolding dest_fresh_def
    proof (intro conjI ballI)
      fix r assume "r \<in> set (dest_files dest ws)"
      with old q(4) n dirs fresh df show "\<not> data_path rp r" "smap_find r (fs_nodes ?fs) = None" "r \<notin> fs_dirs ?fs" by auto
    next
      fix y r assume "y \<in> set ws" "r \<in> set (dest_dirs dest y)"
      with old n show "\<not> data_path rp r" "smap_find r (fs_nodes ?fs) = None" "r \<notin> set (dest_files dest ws)" by auto
    qed
    have "resolve_path rp (fe_sig e) \<noteq> ?q" using q(1) data_pathI [of "fe_sig e" rp] assms(2) x by (metis snd_conv)
    then have r: "smap_find (resolve_path rp (fe_sig e)) (fs_nodes ?fs) = smap_find (resolve_path rp (fe_sig e)) (fs_nodes fs)"
      "link_target fs (resolve_path rp (fe_sig e)) = resolve_path rp (fe_sig e)"
      using n q(1) assms(1,2) x by (auto simp: repo_sound_def)
    then have lf: "file_at ?fs ?q = (case meth of COPY \<Rightarrow> Some (d, fs_now fs) | _ \<Rightarrow> file_at fs (resolve_path rp (fe_sig e)))"
      using n [of ?q] by (cases meth) (simp_all add: file_at_def link_target_def result_node_def)
    have lt: "link_target ?fs ?q = (case meth of COPY \<Rightarrow> ?q | _ \<Rightarrow> resolve_path rp (fe_sig e))"
      using n [of ?q] by (cases meth) (simp_all add: link_target_def result_node_def)
    have "stored_data rp ?fs (fe_sig e) = Some d" using ss d assms(2) x by (simp add: same_store_def)
    then have "realized rp dest ?fs x"
      using FILE x lf lt n [of ?q] d assms(2) by (cases meth) (auto simp: realized_def Let_def stored_data_def)
    moreover have "realized rp dest ?fs y" if "realized rp dest fs y" "sig_plain (fe_sig (snd y))" for y
      using that ss q(1,2) n dirs by (intro realized_other [of rp dest fs y ?fs ?q]) auto
    ultimately show ?thesis using run ss fr n FILE x by (intro exI [of _ ?fs]) (auto simp: dest_files_def)
  next
    case DIRECTORY
    let ?fs = "create_dirs ?q fs"
    have run: "realize_entry meth rp dest x fs = (None, ?fs)" unfolding x using assms(4) x by (intro realize_dir_fresh [OF DIRECTORY]) simp
    have dirs: "fs_dirs ?fs = set (dest_dirs dest x) \<union> fs_dirs fs" using DIRECTORY x by (simp add: create_dirs_def dest_dirs_def Let_def)
    have "\<And>r. data_path rp r \<Longrightarrow> r \<notin> fs_dirs ?fs" using dirs fresh dd by auto
    with ok have ss: "repo_sound f D rp ?fs \<and> same_store rp fs ?fs" by (intro same_store_put [OF assms(1)]) auto
    have df: "dest_files dest (x # ws) = dest_files dest ws" using DIRECTORY x by (simp add: dest_files_def)
    have fr: "dest_fresh rp dest ws ?fs" using assms(4) fresh dirs unfolding dest_fresh_def df by auto
    have "realized rp dest ?fs x" using DIRECTORY x self_prefix by (auto simp: realized_def Let_def create_dirs_def)
    moreover have "realized rp dest ?fs y" if "realized rp dest fs y" "sig_plain (fe_sig (snd y))" for y
    proof -
      have "link_target ?fs r = link_target fs r" for r by (simp add: link_target_def)
      then show ?thesis using that ss dirs by (cases "fe_type (snd y)") (auto simp: realized_def Let_def same_store_def)
    qed
    ultimately show ?thesis using run ss fr by (intro exI [of _ ?fs]) simp
  qed
qed

section \<open>Realizing a whole tree\<close>

definition usable :: "string \<Rightarrow> files \<Rightarrow> string \<times> file_entry \<Rightarrow> bool" where
  "usable rp fs x \<longleftrightarrow> sig_plain (fe_sig (snd x)) \<and> sig_valid (fe_sig (snd x)) \<and> stored_data rp fs (fe_sig (snd x)) \<noteq> None"

lemma usable_same: "usable rp fs x \<Longrightarrow> same_store rp fs fs' \<Longrightarrow> usable rp fs' x"
  by (simp add: usable_def same_store_def)

lemma held_usable: "held rp fs t \<Longrightarrow> list_all (usable rp fs) (walk_tree p t)"
proof (induction t arbitrary: p)
  case (Branch e ts)
  then show ?case by (auto simp: usable_def list_all_iff)
qed (simp add: usable_def)

lemma todo_Nil_stack: "todo rp fs st [] \<Longrightarrow> st = []"
  using todo_step by blast

lemma realize_run_todo:
  assumes "todo rp fs st (x # ws)" and "list_all (usable rp fs) (x # ws)" and "repo_sound f D rp fs"
    and "dest_fresh rp dest ws fs" and "distinct (dest_files dest ws)"
  shows "\<exists>z fs'. realize_run (Suc (length ws))
        \<lparr>rz_repo = rp, rz_dest = dest, rz_iter = \<lparr>it_repo = Some rp, it_stack = st, it_recurse = True\<rparr>, rz_method = meth\<rparr> fs = (Inr COMPLETE, z, fs')
      \<and> repo_sound f D rp fs' \<and> same_store rp fs fs' \<and> list_all (realized rp dest fs') ws
      \<and> (\<forall>y. realized rp dest fs y \<longrightarrow> sig_plain (fe_sig (snd y)) \<longrightarrow> realized rp dest fs' y)
      \<and> (\<forall>q. q \<notin> set (dest_files dest ws) \<longrightarrow> smap_find q (fs_nodes fs') = smap_find q (fs_nodes fs))"
  using assms
proof (induction ws arbitrary: x st fs rule: list.induct)
  case Nil
  let ?i = "\<lparr>it_repo = Some rp, it_stack = st, it_recurse = True\<rparr>"
  have st: "st \<noteq> []" using Nil.prems(1) by (auto elim: todo.cases)
  have pr: "present rp fs x" using Nil.prems(2) contains_stored [OF Nil.prems(3)] by (simp add: usable_def present_def)
  from todo_step [OF Nil.prems(1) st refl] pr obtain st' where
    1: "iter_active ?i = fe_sig (snd x)" "iter_step fs ?i = Inr (?i\<lparr>it_stack := st'\<rparr>)" "todo rp fs st' []" by auto
  then have "st' = []" using todo_Nil_stack by blast
  then show ?case using 1 st pr Nil.prems(3) by (simp add: realize_poll_def iter_eq_end iter_bool_def present_def)
next
  case (Cons y ws)
  let ?i = "\<lparr>it_repo = Some rp, it_stack = st, it_recurse = True\<rparr>"
  let ?z = "\<lparr>rz_repo = rp, rz_dest = dest, rz_iter = ?i, rz_method = meth\<rparr>"
  have st: "st \<noteq> []" using Cons.prems(1) by (auto elim: todo.cases)
  have pr: "present rp fs x" using Cons.prems(2) contains_stored [OF Cons.prems(3)] by (simp add: usable_def present_def)
  from todo_step [OF Cons.prems(1) st refl] pr obtain st' where
    1: "iter_active ?i = fe_sig (snd x)" "iter_step fs ?i = Inr (?i\<lparr>it_stack := st'\<rparr>)" "todo rp fs st' (y # ws)" by auto
  then have st': "st' \<noteq> []" by (auto elim: todo.cases)
  from todo_step [OF 1(3) st' refl] have dr: "iter_deref (?i\<lparr>it_stack := st'\<rparr>) = Inr y" by auto
  from Cons.prems(2) have y: "sig_plain (fe_sig (snd y))" "stored_data rp fs (fe_sig (snd y)) \<noteq> None" by (simp_all add: usable_def)
  from realize_entry_fresh [OF Cons.prems(3) y Cons.prems(4,5), of meth] obtain fs1 where
    2: "realize_entry meth rp dest y fs = (None, fs1)" "repo_sound f D rp fs1" "same_store rp fs fs1" "dest_fresh rp dest ws fs1"
      "realized rp dest fs1 y" "\<forall>y. realized rp dest fs y \<longrightarrow> sig_plain (fe_sig (snd y)) \<longrightarrow> realized rp dest fs1 y"
      "\<forall>q. q \<notin> set (dest_files dest (y # ws)) \<longrightarrow> smap_find q (fs_nodes fs1) = smap_find q (fs_nodes fs)" by (elim exE conjE)
  have us: "list_all (usable rp fs1) (y # ws)" using Cons.prems(2) usable_same [OF _ 2(3)] by (auto simp: list_all_iff)
  have td: "todo rp fs1 st' (y # ws)"
    by (rule todo_same [OF 2(3) 1(3)]) (use Cons.prems(2) in \<open>auto simp: list_all_iff usable_def\<close>)
  have ds: "distinct (dest_files dest ws)" "set (dest_files dest ws) \<subseteq> set (dest_files dest (y # ws))"
    using Cons.prems(5) by (auto simp: dest_files_def split: if_splits)
  let ?z1 = "?z\<lparr>rz_iter := ?i\<lparr>it_stack := st'\<rparr>\<rparr>"
  have poll: "realize_poll ?z fs = (Inr INPROGRESS, ?z1, fs1)"
    using 1 2(1) dr st st' pr by (simp add: realize_poll_def iter_eq_end iter_bool_def present_def)
  from Cons.IH [OF td us 2(2,4) ds(1)] obtain z fs' where
    3: "realize_run (Suc (length ws)) ?z1 fs1 = (Inr COMPLETE, z, fs')" "repo_sound f D rp fs'" "same_store rp fs1 fs'"
      "list_all (realized rp dest fs') ws" "\<forall>y. realized rp dest fs1 y \<longrightarrow> sig_plain (fe_sig (snd y)) \<longrightarrow> realized rp dest fs' y"
      "\<forall>q. q \<notin> set (dest_files dest ws) \<longrightarrow> smap_find q (fs_nodes fs') = smap_find q (fs_nodes fs1)" by auto
  have "realize_run (Suc (length (y # ws))) ?z fs = (Inr COMPLETE, z, fs')"
    using poll 3(1) by (simp del: realize_run.simps) (simp add: realize_run.simps(2) [of _ ?z])
  moreover have "realized rp dest fs' y" using 3(5) 2(5) y(1) by blast
  then have "list_all (realized rp dest fs') (y # ws)" using 3(4) by simp
  moreover have "\<forall>v. realized rp dest fs v \<longrightarrow> sig_plain (fe_sig (snd v)) \<longrightarrow> realized rp dest fs' v" using 2(6) 3(5) by blast
  moreover have "\<forall>q. q \<notin> set (dest_files dest (y # ws)) \<longrightarrow> smap_find q (fs_nodes fs') = smap_find q (fs_nodes fs)"
    using 2(7) 3(6) ds(2) by (metis subsetD)
  ultimately show ?case using 3(2) same_store_trans [OF 2(3) 3(3)] by (intro exI conjI)
qed

text \<open>
  Realizing a complete tree into a fresh destination ends after one poll for each entry, keeps the repository, and
  recreates every file and directory the iterator visits but the first: at its path there is nothing afterwards that
  was not there before, as at every other path that is not a file of the rest.
\<close>

theorem realizer_skips_first:
  assumes "repo_sound f D rp fs" and "list_all (held rp fs) ts" and "walk_trees [] ts = x # ws"
    and "dest_fresh rp dest ws fs" and "distinct (dest_files dest ws)"
  shows "\<exists>z fs'. realize_run (length (walk_trees [] ts))
        \<lparr>rz_repo = rp, rz_dest = dest, rz_iter = iter_new rp (dir_manifest ts) True, rz_method = meth\<rparr> fs = (Inr COMPLETE, z, fs')
      \<and> repo_sound f D rp fs' \<and> same_store rp fs fs' \<and> list_all (realized rp dest fs') ws
      \<and> (\<forall>q. q \<notin> set (dest_files dest ws) \<longrightarrow> smap_find q (fs_nodes fs') = smap_find q (fs_nodes fs))"
proof -
  have "ts \<noteq> []" using assms(3) by (auto simp: walk_trees_def)
  moreover have "stored rp fs (drop 0 (mf_entries (dir_manifest ts))) ts" using held_stored [OF assms(2)] by (simp add: dir_manifest_def)
  ultimately have "todo rp fs [(dir_manifest ts, 0)] (walk_trees (stack_path []) ts @ [])"
    by (intro todo_Cons pending_Nil) (simp_all add: in_range_def dir_manifest_def)
  then have td: "todo rp fs [(dir_manifest ts, 0)] (x # ws)" using assms(3) by simp
  have "list_all (usable rp fs) (walk_trees [] ts)"
    using assms(2) held_usable by (auto simp: walk_trees_def list_all_iff)
  then have us: "list_all (usable rp fs) (x # ws)" using assms(3) by simp
  from realize_run_todo [OF td us assms(1,4,5), of meth] show ?thesis
    unfolding assms(3) iter_new_def by (simp del: realize_run.simps) blast
qed

text \<open>An example: a repository \<open>r\<close> with two files, beside a source directory.\<close>

abbreviation "sig_x \<equiv> content_sig sample_hash ''x''"
abbreviation "sig_y \<equiv> content_sig sample_hash ''yy''"

definition sample_two :: files where
  "sample_two = put_node (resolve_path ''r'' sig_y) (Regular ''yy'' 0) (put_node (resolve_path ''r'' sig_x) (Regular ''x'' 0) sample_source)"

lemma sample_sigs: "sig_plain sig_x" "sig_plain sig_y" "sig_valid sig_x" "sig_valid sig_y" "sig_x \<noteq> sig_y"
proof -
  show "sig_plain sig_x" "sig_plain sig_y" "sig_valid sig_x" "sig_valid sig_y"
    by (intro content_sig_plain; simp add: sample_hash_def)+
  have "digit_char (Suc 0) \<noteq> digit_char 2"
  proof
    assume "digit_char (Suc 0) = digit_char 2"
    then have "(of_char (digit_char (Suc 0)) :: nat) = of_char (digit_char 2)" by (simp only:)
    then show False by simp
  qed
  then show "sig_x \<noteq> sig_y" by (simp add: content_sig_def sample_hash_def hex_text_def hex_byte_def hex_char_def)
qed

lemma ok_put_node [simp]: "smap_ok (fs_nodes fs) \<Longrightarrow> smap_ok (fs_nodes (put_node p n fs))"
  by (simp add: put_node_def)

lemma not_data_path: "take 2 p \<noteq> ''r/'' \<Longrightarrow> \<not> data_path ''r'' p"
  by (auto simp: data_path_def resolve_path_plain path_join_def is_absolute_def)

lemma sample_two_sound:
  "repo_sound sample_hash UNIV ''r'' sample_two" "stored_data ''r'' sample_two sig_x = Some ''x''" "stored_data ''r'' sample_two sig_y = Some ''yy''"
proof -
  let ?f1 = "put_node (resolve_path ''r'' sig_x) (Regular ''x'' 0) sample_source"
  have none: "stored_data ''r'' sample_source s = None" if "sig_plain s" for s
    using that by (simp add: stored_data_def sample_source_def resolve_path_plain file_at_def link_target_def path_join_def is_absolute_def)
  note 1 = put_data [OF sample_source_sound sample_sigs(1) _ conjI [OF refl UNIV_I] _ disjI1 [OF refl], of 0]
  have s1: "repo_sound sample_hash UNIV ''r'' ?f1" "stored_data ''r'' ?f1 sig_x = Some ''x''"
    by (rule 1; simp add: none [OF sample_sigs(1)])+
  have ne: "resolve_path ''r'' sig_y \<noteq> resolve_path ''r'' sig_x"
    using resolve_path_inject [OF sample_sigs(2,1), of "''r''"] sample_sigs(5) by auto
  have "smap_find (resolve_path ''r'' sig_y) (fs_nodes sample_source) = None"
    using sample_sigs(2) by (simp add: sample_source_def resolve_path_plain path_join_def is_absolute_def)
  then have "stored_data ''r'' ?f1 sig_y = None"
    using stored_data_find [OF s1(1) sample_sigs(2)] ne by (simp add: sample_source_def smap_ok_def)
  then have n2: "stored_data ''r'' ?f1 sig_y = Some d' \<Longrightarrow> d' = ''yy''" for d' by simp
  note 2 = put_data [OF s1(1) sample_sigs(2) _ conjI [OF refl UNIV_I] n2 disjI1 [OF refl], of 0, folded sample_two_def]
  show "repo_sound sample_hash UNIV ''r'' sample_two" "stored_data ''r'' sample_two sig_y = Some ''yy''"
    by (rule 2(1,3); simp)+
  show "stored_data ''r'' sample_two sig_x = Some ''x''" using keepsD [OF 2(2) sample_sigs(1) s1(2)] by simp
qed

lemma sample_two_fresh:
  assumes "take 2 p \<noteq> ''r/''" and "p \<noteq> ''s/a''"
  shows "smap_find p (fs_nodes sample_two) = None"
proof -
  have "p \<noteq> resolve_path ''r'' sig_x" "p \<noteq> resolve_path ''r'' sig_y"
    using not_data_path [OF assms(1)] sample_sigs(1,2) by auto
  moreover have "smap_ok (fs_nodes sample_source)" "smap_find p (fs_nodes sample_source) = None"
    using assms(2) by (simp_all add: sample_source_def smap_ok_def)
  ultimately show ?thesis by (simp add: sample_two_def)
qed

theorem realizer_skips_first_witness:
  "\<exists>z fs'. realize_run 2 \<lparr>rz_repo = ''r'', rz_dest = ''d'', rz_iter = iter_new ''r'' (dir_manifest
      [Leaf \<lparr>fe_name = ''a'', fe_sig = sig_x, fe_type = FILE, fe_size = 1\<rparr>, Leaf \<lparr>fe_name = ''b'', fe_sig = sig_y, fe_type = FILE, fe_size = 2\<rparr>]) True,
      rz_method = COPY\<rparr> sample_two = (Inr COMPLETE, z, fs')
    \<and> smap_find ''d/a'' (fs_nodes fs') = None \<and> map_option fst (file_at fs' ''d/b'') = Some ''yy''"
proof -
  let ?a = "\<lparr>fe_name = ''a'', fe_sig = sig_x, fe_type = FILE, fe_size = 1\<rparr>"
  let ?b = "\<lparr>fe_name = ''b'', fe_sig = sig_y, fe_type = FILE, fe_size = 2\<rparr>"
  have w: "walk_trees [] [Leaf ?a, Leaf ?b] = (''a'', ?a) # [(''b'', ?b)]" by (simp add: walk_trees_def path_join_def is_absolute_def)
  have h: "list_all (held ''r'' sample_two) [Leaf ?a, Leaf ?b]" using sample_sigs sample_two_sound by simp
  have p: "path_join ''d'' ''b'' = ''d/b''" by (simp add: path_join_def is_absolute_def)
  then have df: "dest_files ''d'' [(''b'', ?b)] = [''d/b'']" by (simp add: dest_files_def)
  have pp: "path_prefixes ''d'' = [''d'']" "parent_path ''d/b'' = ''d''" by (simp_all add: path_prefixes_def parent_path_def)
  then have "dest_dirs ''d'' (''b'', ?b) = [''d'']" by (simp add: dest_dirs_def p)
  then have fr: "dest_fresh ''r'' ''d'' [(''b'', ?b)] sample_two"
    unfolding dest_fresh_def df by (simp add: not_data_path sample_two_fresh) (simp add: sample_two_def sample_source_def)
  from realizer_skips_first [OF sample_two_sound(1) h w fr, of COPY] df obtain z fs' where
    1: "realize_run 2 \<lparr>rz_repo = ''r'', rz_dest = ''d'', rz_iter = iter_new ''r'' (dir_manifest [Leaf ?a, Leaf ?b]) True, rz_method = COPY\<rparr> sample_two
        = (Inr COMPLETE, z, fs')"
      "same_store ''r'' sample_two fs'" "list_all (realized ''r'' ''d'' fs') [(''b'', ?b)]"
      "\<forall>q. q \<notin> {''d/b''} \<longrightarrow> smap_find q (fs_nodes fs') = smap_find q (fs_nodes sample_two)"
    unfolding w by (auto simp: numeral_2_eq_2 simp del: realize_run.simps)
  have "smap_find ''d/a'' (fs_nodes fs') = None" using 1(4) sample_two_fresh [of "''d/a''"] by simp
  moreover have "stored_data ''r'' fs' sig_y = Some ''yy''" using 1(2) sample_two_sound(3) sample_sigs(2) by (simp add: same_store_def)
  then have "map_option fst (file_at fs' ''d/b'') = Some ''yy''" using 1(3) by (simp add: realized_def p Let_def)
  ultimately show ?thesis using 1(1) by blast
qed

section \<open>Copying over a link\<close>

text \<open>
  Copying an entry over a link into the repository, left by an earlier realization with links, writes the new
  content into the file the repository keeps under the old signature, so that the repository is no longer sound.
\<close>

theorem copy_overwrites_store:
  assumes "repo_sound f D rp fs" and "sig_plain s" and "stored_data rp fs s \<noteq> None" and "fe_type e = FILE" and "sig_plain (fe_sig e)"
    and "stored_data rp fs (fe_sig e) = Some d" and "fe_sig e \<noteq> s" and "rp \<noteq> []" and "q = path_join dest p" and "q \<notin> fs_dirs fs"
    and "smap_find q (fs_nodes fs) \<in> {Some (SymLink (resolve_path rp s)), Some (HardLink (resolve_path rp s))}"
    and "list_all (\<lambda>r. file_at fs r = None) (path_prefixes (parent_path q))" and "q \<notin> set (path_prefixes (parent_path q))"
  shows "\<exists>fs'. realize_entry COPY rp dest (p, e) fs = (None, fs') \<and> map_option fst (file_at fs' (resolve_path rp s)) = Some d
    \<and> \<not> repo_sound f D rp fs'"
proof -
  let ?fs = "create_dirs (parent_path q) fs" and ?r = "resolve_path rp s" and ?e = "resolve_path rp (fe_sig e)"
  have ok: "smap_ok (fs_nodes fs)" using assms(1) by (simp add: repo_sound_def)
  have lt: "link_target ?fs q = ?r" using assms(11) by (auto simp: link_target_def)
  have le: "link_target ?fs ?e = ?e" using assms(1,5) by (simp add: repo_sound_def link_target_def)
  have ne: "?e \<noteq> ?r" using resolve_path_inject [OF assms(5,2,8)] assms(7) by blast
  have dirs: "q \<notin> fs_dirs ?fs" using assms(10,13) by (simp add: create_dirs_def)
  obtain t where t: "file_at ?fs ?e = Some (d, t)" using assms(6) by (auto simp: stored_data_def)
  have md: "make_dirs (parent_path q) fs = (None, ?fs)" using assms(12) by (auto simp: make_dirs_def list_ex_iff list_all_iff)
  let ?fs' = "put_node ?r (Regular d (fs_now ?fs)) ?fs"
  have run: "realize_entry COPY rp dest (p, e) fs = (None, ?fs')"
    using assms(4,9) md t lt le ne dirs by (auto simp: realize_entry_def Let_def copy_over_def write_file_def)
  have c: "file_at ?fs' ?r = Some (d, fs_now ?fs)" using ok by (simp add: file_at_def link_target_def)
  have "content_sig f d = fe_sig e" using stored_sig [OF assms(1,5,6)] by simp
  then have "\<not> repo_sound f D rp ?fs'" using c assms(2,7) by (auto simp: repo_sound_def)
  with run c show ?thesis by (intro exI [of _ ?fs']) simp
qed

theorem copy_overwrites_store_witness:
  "\<exists>fs'. realize_entry COPY ''r'' ''d'' (''b'', \<lparr>fe_name = ''b'', fe_sig = sig_y, fe_type = FILE, fe_size = 2\<rparr>)
      (put_node ''d/b'' (SymLink (resolve_path ''r'' sig_x)) sample_two) = (None, fs') \<and> \<not> repo_sound sample_hash UNIV ''r'' fs'"
proof -
  let ?fs = "put_node ''d/b'' (SymLink (resolve_path ''r'' sig_x)) sample_two"
  have ok: "smap_ok (fs_nodes sample_two)" using sample_two_sound(1) by (simp add: repo_sound_def)
  have nd: "\<not> data_path ''r'' ''d/b''" by (simp add: not_data_path)
  have dirs: "fs_dirs ?fs = {''s''}" by (simp add: sample_two_def sample_source_def)
  have "repo_sound sample_hash UNIV ''r'' ?fs \<and> same_store ''r'' sample_two ?fs"
    using ok nd by (intro same_store_put [OF sample_two_sound(1)]) (auto simp: put_node_def smap_find_put sample_two_def sample_source_def not_data_path)
  then have s: "repo_sound sample_hash UNIV ''r'' ?fs" "stored_data ''r'' ?fs sig_x \<noteq> None" "stored_data ''r'' ?fs sig_y = Some ''yy''"
    using sample_two_sound(2,3) sample_sigs(1,2) by (simp_all add: same_store_def)
  have p: "''d/b'' = path_join ''d'' ''b''" by (simp add: path_join_def is_absolute_def)
  have pp: "path_prefixes (parent_path ''d/b'') = [''d'']" by (simp add: path_prefixes_def parent_path_def)
  have "smap_find ''d'' (fs_nodes ?fs) = None" using ok sample_two_fresh [of "''d''"] by simp
  then have "file_at ?fs ''d'' = None" by (simp add: file_at_def link_target_def)
  with copy_overwrites_store [OF s(1) sample_sigs(1) s(2) _ _ _ _ _ p, of "\<lparr>fe_name = ''b'', fe_sig = sig_y, fe_type = FILE, fe_size = 2\<rparr>" "''yy''"]
    s(3) sample_sigs dirs ok pp show ?thesis by (auto simp: p [symmetric])
qed

end
