(* ===== verification/Squall_Resolver.thy ===== *)
theory Squall_Resolver
  imports Squall_Realizer
begin

text \<open>
  The resolver of Squall (\<open>Resolver.cpp\<close>), which fetches what a root leads to into a local repository. A provider
  writes the data of a signature to a temporary path and answers through a future. The future is the answer, once
  there is one: at once for a provider that reads from another repository, later for others, by the step \<open>arrive\<close> of
  the transition system below, in which the provider may answer and write what it likes.
\<close>

section \<open>State\<close>

text \<open>The answer of a provider: the bytes copied, or a failure.\<close>

type_synonym answer = "nat option"
type_synonym provider = "signature \<Rightarrow> string \<Rightarrow> files \<Rightarrow> answer option \<times> files"

record 'h pending_fetch =
  pf_expected :: signature
  pf_temp :: string
  pf_path :: string
  pf_future :: "answer option"
  pf_result :: "answer option"
  pf_context :: "'h sig_context option"

datatype resolve_status = ONGOING | COMPLETED | HAD_ERROR
datatype entry_status = COPIED | ALREADY_EXISTS

record resolve_entry =
  re_sig :: signature
  re_status :: entry_status
  re_bytes :: nat
  re_path :: string

record resolve_result =
  rr_status :: resolve_status
  rr_pending :: nat
  rr_completed :: "resolve_entry list"

record 'h resolver =
  rs_repo :: string
  rs_root :: signature
  rs_iter :: iter
  rs_pending :: "'h pending_fetch list"
  rs_manifest :: "manifest option"

type_synonym 'h polled = "(squall_error + resolve_result) \<times> 'h resolver \<times> files"

definition resolver_new :: "string \<Rightarrow> signature \<Rightarrow> squall_error + 'h resolver" where
  "resolver_new rp s =
     (if \<not> sig_valid s then Inl SqRuntime
      else Inr \<lparr>rs_repo = rp, rs_root = s, rs_iter = iter_end, rs_pending = [], rs_manifest = None\<rparr>)"

definition temp_path :: "string \<Rightarrow> signature \<Rightarrow> string" where
  "temp_path rp s = path_join (path_join rp ''temp'') (str_view s)"

section \<open>Polling\<close>

definition ongoing :: "'h resolver \<Rightarrow> resolve_entry list \<Rightarrow> resolve_result" where
  "ongoing r es = \<lparr>rr_status = ONGOING, rr_pending = length (rs_pending r), rr_completed = es\<rparr>"

text \<open>A request for a signature, which the root and the entries of a manifest make alike.\<close>

definition request :: "provider \<Rightarrow> signature \<Rightarrow> string \<Rightarrow> 'h resolver \<Rightarrow> files \<Rightarrow> 'h resolver \<times> files" where
  "request prov s path r fs =
     (case prov s (temp_path (rs_repo r) s) fs of (fut, fs1) \<Rightarrow>
        (r\<lparr>rs_pending := rs_pending r @ [\<lparr>pf_expected = s, pf_temp = temp_path (rs_repo r) s, pf_path = path,
            pf_future = fut, pf_result = None, pf_context = None\<rparr>]\<rparr>, fs1))"

definition load_root :: "resolve_entry \<Rightarrow> 'h resolver \<Rightarrow> files \<Rightarrow> 'h polled" where
  "load_root e r fs =
     (case fetch_manifest (rs_repo r) (rs_root r) fs of
        Inl x \<Rightarrow> (Inl x, r, fs)
      | Inr None \<Rightarrow> (Inl SqUB, r, fs)
      | Inr (Some (_, m)) \<Rightarrow>
          (let r1 = r\<lparr>rs_manifest := Some m, rs_iter := iter_new (rs_repo r) m True\<rparr> in (Inr (ongoing r1 [e]), r1, fs)))"

definition poll_root_future :: "'h resolver \<Rightarrow> files \<Rightarrow> 'h polled" where
  "poll_root_future r fs =
     (let p = last (rs_pending r) in
      case pf_future p of
        None \<Rightarrow> (Inr (ongoing r []), r, fs)
      | Some ans \<Rightarrow>
          (let r1 = r\<lparr>rs_pending := butlast (rs_pending r)\<rparr> in
           case ans of
             None \<Rightarrow> (Inr \<lparr>rr_status = HAD_ERROR, rr_pending = 0, rr_completed = []\<rparr>, r1, fs)
           | Some n \<Rightarrow> (case store_file (rs_repo r) (pf_expected p) (pf_temp p) fs of
               Inl x \<Rightarrow> (Inl x, r1, fs)
             | Inr (_, fs1) \<Rightarrow>
                 (case load_root \<lparr>re_sig = rs_root r, re_status = COPIED, re_bytes = n, re_path = []\<rparr> r1 fs1 of
                    (Inl x, r2, fs2) \<Rightarrow> (Inl x, r2, fs2)
                  | (Inr res, r2, fs2) \<Rightarrow> (Inr res, r2, snd (remove_path (pf_temp p) fs2))))))"

definition poll_root :: "provider \<Rightarrow> 'h resolver \<Rightarrow> files \<Rightarrow> 'h polled" where
  "poll_root prov r fs =
     (if rs_pending r = [] then
        (if contains (rs_repo r) (rs_root r) fs
         then load_root \<lparr>re_sig = rs_root r, re_status = ALREADY_EXISTS, re_bytes = 0, re_path = []\<rparr> r fs
         else case request prov (rs_root r) [] r fs of (r1, fs1) \<Rightarrow> poll_root_future r1 fs1)
      else poll_root_future r fs)"

text \<open>The future is read once; then the answer is kept.\<close>

definition take_answer :: "'h pending_fetch \<Rightarrow> 'h pending_fetch" where
  "take_answer p = (case pf_future p of None \<Rightarrow> p | Some a \<Rightarrow> p\<lparr>pf_result := Some a, pf_future := None\<rparr>)"

definition start_context :: "'h hasher \<Rightarrow> 'h pending_fetch \<Rightarrow> files \<Rightarrow> 'h sig_context" where
  "start_context H p fs = (case pf_context p of
      Some x \<Rightarrow> x
    | None \<Rightarrow> context_of H (map_option fst (file_at fs (pf_temp p))))"

text \<open>
  What one answered request does: the result, the request if it is kept, and the files.
\<close>

datatype 'h outcome = Outcome "squall_error + resolve_status" "'h pending_fetch option" "resolve_entry list" files

definition process_answer :: "'h hasher \<Rightarrow> nat \<Rightarrow> string \<Rightarrow> 'h pending_fetch \<Rightarrow> answer \<Rightarrow> files \<Rightarrow> 'h outcome" where
  "process_answer H mx rp p ans fs =
     (if pf_context p = None \<and> ans = None then Outcome (Inr HAD_ERROR) (Some p) [] fs
      else case continue_signature H mx 0 (start_context H p fs) of
        (Inl e, x) \<Rightarrow> Outcome (Inl e) (Some (p\<lparr>pf_context := Some x\<rparr>)) [] fs
      | (Inr None, x) \<Rightarrow> Outcome (Inr ONGOING) (Some (p\<lparr>pf_context := Some x\<rparr>)) [] fs
      | (Inr (Some (g, _)), x) \<Rightarrow>
          (let e = \<lparr>re_sig = g, re_status = COPIED, re_bytes = (case ans of None \<Rightarrow> 0 | Some n \<Rightarrow> n), re_path = pf_path p\<rparr>;
               kept = Some (p\<lparr>pf_context := Some x\<rparr>)
           in if \<not> sig_valid g \<or> \<not> sig_eq g (pf_expected p) then
                (case remove_path (pf_temp p) fs of
                   (Some err, fs1) \<Rightarrow> Outcome (Inl err) kept [] fs1
                 | (None, fs1) \<Rightarrow> Outcome (Inr HAD_ERROR) None [e] fs1)
              else (case store_file rp g (pf_temp p) fs of
                  Inl err \<Rightarrow> Outcome (Inl err) kept [] fs
                | Inr (_, fs1) \<Rightarrow> Outcome (Inr ONGOING) None [e] (snd (remove_path (pf_temp p) fs1)))))"

text \<open>The loop over the requests ends at the first one that is answered.\<close>

fun process_pending ::
    "'h hasher \<Rightarrow> nat \<Rightarrow> string \<Rightarrow> 'h pending_fetch list \<Rightarrow> 'h pending_fetch list \<Rightarrow> resolve_entry list \<Rightarrow> files
      \<Rightarrow> (squall_error + resolve_result) option \<times> 'h pending_fetch list \<times> files" where
  "process_pending H mx rp before [] es fs = (None, before, fs)"
| "process_pending H mx rp before (p # ps) es fs =
     (let p1 = take_answer p in
      case pf_result p1 of
        None \<Rightarrow> process_pending H mx rp (before @ [p1]) ps es fs
      | Some ans \<Rightarrow> (case process_answer H mx rp p1 ans fs of
          Outcome res kept new fs1 \<Rightarrow>
            (let l = before @ (case kept of None \<Rightarrow> [] | Some p2 \<Rightarrow> [p2]) @ ps
             in (Some (map_sum id (\<lambda>st. \<lparr>rr_status = st, rr_pending = length l, rr_completed = es @ new\<rparr>) res), l, fs1))))"

definition poll_pending :: "'h hasher \<Rightarrow> nat \<Rightarrow> resolve_entry list \<Rightarrow> 'h resolver \<Rightarrow> files \<Rightarrow> 'h polled" where
  "poll_pending H mx es r fs =
     (case process_pending H mx (rs_repo r) [] (rs_pending r) es fs of
        (None, l, fs1) \<Rightarrow> (let r1 = r\<lparr>rs_pending := l\<rparr> in (Inr (ongoing r1 []), r1, fs1))
      | (Some res, l, fs1) \<Rightarrow> (res, r\<lparr>rs_pending := l\<rparr>, fs1))"

definition poll_entry :: "'h hasher \<Rightarrow> provider \<Rightarrow> nat \<Rightarrow> 'h resolver \<Rightarrow> files \<Rightarrow> 'h polled" where
  "poll_entry H prov mx r fs =
     (if iter_eq (rs_iter r) iter_end then (Inr \<lparr>rr_status = COMPLETED, rr_pending = 0, rr_completed = []\<rparr>, r, fs)
      else if iter_bool fs (rs_iter r) then
        (case iter_deref (rs_iter r) of
           Inl e \<Rightarrow> (Inl e, r, fs)
         | Inr (p, e) \<Rightarrow> (case iter_step fs (rs_iter r) of
             Inl x \<Rightarrow> (Inl x, r, fs)
           | Inr i \<Rightarrow> poll_pending H mx [\<lparr>re_sig = fe_sig e, re_status = ALREADY_EXISTS, re_bytes = 0, re_path = p\<rparr>] (r\<lparr>rs_iter := i\<rparr>) fs))
      else if rs_pending r = [] then
        (case iter_deref (rs_iter r) of
           Inl e \<Rightarrow> (Inl e, r, fs)
         | Inr (p, e) \<Rightarrow> (case request prov (fe_sig e) p r fs of (r1, fs1) \<Rightarrow> poll_pending H mx [] r1 fs1))
      else poll_pending H mx [] r fs)"

text \<open>Exceptions are caught, undefined behaviour is not.\<close>

definition catch_errors :: "'h polled \<Rightarrow> 'h polled" where
  "catch_errors x = (case x of
      (Inl e, r, fs) \<Rightarrow> (if e = SqUB then Inl SqUB
        else Inr \<lparr>rr_status = HAD_ERROR, rr_pending = length (rs_pending r), rr_completed = []\<rparr>, r, fs)
    | (Inr res, r, fs) \<Rightarrow> (Inr res, r, fs))"

definition resolver_poll :: "'h hasher \<Rightarrow> provider \<Rightarrow> nat \<Rightarrow> 'h resolver \<Rightarrow> files \<Rightarrow> 'h polled" where
  "resolver_poll H prov mx r fs =
     catch_errors (if rs_manifest r = None then poll_root prov r fs else poll_entry H prov mx r fs)"

text \<open>A provider that answers at once from another repository.\<close>

definition local_provider :: "string \<Rightarrow> provider" where
  "local_provider src s p fs = (case repository_provider src s p fs of (ans, fs1) \<Rightarrow> (Some ans, fs1))"

text \<open>
  The provider that downloads (\<open>CurlProvider.cpp\<close>), first into a file beside the one it is asked for, which it leaves
  behind when the transfer fails. \<open>transfer\<close> is what the library makes of the request for a signature: nothing, if it
  cannot be used, or else the data that it has handed over and whether it reports success. That the renaming
  fails is left out.
\<close>

definition rename_node :: "string \<Rightarrow> string \<Rightarrow> files \<Rightarrow> files" where
  "rename_node p q fs = (case smap_find p (fs_nodes fs) of None \<Rightarrow> fs | Some n \<Rightarrow> put_node q n (remove_node p fs))"

definition curl_provider :: "(signature \<Rightarrow> (string \<times> bool) option) \<Rightarrow> provider" where
  "curl_provider transfer s dest fs = (case transfer s of
     None \<Rightarrow> (Some None, fs)
   | Some (d, ok) \<Rightarrow>
      (let partial = dest @ ''.partial''; fs1 = create_dirs (parent_path partial) fs in
       if \<not> fs_writable fs1 partial then (Some None, fs1)
       else let fs2 = write_file partial d fs1 in
         if ok then (Some (Some (length d)), rename_node partial dest fs2) else (Some None, fs2)))"

end
