(* ===== verification/Squall_Resolve.thy ===== *)
theory Squall_Resolve
  imports Squall_Resolver
begin

text \<open>
  What the resolver guarantees, whatever its provider answers and writes: in every state it reaches, the content of
  the repository has been verified, except for the root, and when it reports completion everything the root leads to
  is there. Against the interface \<open>answering\<close> of a provider; with the provider that reads from another repository,
  it does complete.
\<close>

section \<open>What a provider may change\<close>

lemma repo_base:
  assumes "rp \<noteq> []"
  shows "\<exists>b. path_join rp ''data'' = b @ ''data'' \<and> path_join rp ''temp'' = b @ ''temp''"
proof (cases "last rp = CHR ''/''")
  case True
  then show ?thesis by (intro exI [of _ rp]) (simp add: path_join_def is_absolute_def)
next
  case False
  then show ?thesis using assms by (intro exI [of _ "rp @ ''/''"]) (simp add: path_join_def is_absolute_def)
qed

lemma plain_relative: "sig_plain s \<Longrightarrow> \<not> is_absolute (str_view s)"
  using hd_in_set [of "str_view s"] by (auto simp: is_absolute_def sig_plain_def simp del: hd_in_set)

lemma temp_more:
  assumes "sig_plain s" and "rp \<noteq> []"
  obtains b c a where "path_join rp ''data'' = b @ ''data''" "str_view s = c # a" "c \<noteq> CHR ''/''" "CHR ''/'' \<notin> set a"
    "temp_path rp s = (b @ ''temp'') @ ''/'' @ c # a"
proof -
  obtain b where b: "path_join rp ''data'' = b @ ''data''" "path_join rp ''temp'' = b @ ''temp''"
    using repo_base [OF assms(2)] by blast
  have v: "\<not> is_absolute (str_view s)" "CHR ''/'' \<notin> set (str_view s)" using assms(1) plain_relative by (auto simp: sig_plain_def)
  have "3 \<le> length (str_view s)" using assms(1) by (rule plain_length)
  then obtain c a where ca: "str_view s = c # a" by (cases "str_view s") auto
  have "temp_path rp s = (b @ ''temp'') @ ''/'' @ c # a" using b v(1) ca by (simp add: temp_path_def path_join_def)
  with that b ca v(2) show thesis by auto
qed

lemma temp_more_not_data:
  assumes "sig_plain s" "rp \<noteq> []" shows "\<not> data_path rp (temp_path rp s @ x)"
proof
  assume "data_path rp (temp_path rp s @ x)"
  then obtain s' where s': "sig_plain s'" "temp_path rp s @ x = resolve_path rp s'" by (auto simp: data_path_def)
  obtain b c a where b: "path_join rp ''data'' = b @ ''data''" "temp_path rp s = (b @ ''temp'') @ ''/'' @ c # a"
    by (rule temp_more [OF assms])
  show False using s' assms(2) b by (simp add: resolve_path_plain)
qed

lemma temp_not_data: "sig_plain s \<Longrightarrow> rp \<noteq> [] \<Longrightarrow> \<not> data_path rp (temp_path rp s)"
  using temp_more_not_data [of s rp "[]"] by simp

lemma prefixes_temp:
  assumes "sig_plain s" and "rp \<noteq> []" and "data_path rp p" and "CHR ''/'' \<notin> set x"
  shows "p \<notin> set (path_prefixes (parent_path (temp_path rp s @ x)))"
proof
  assume p: "p \<in> set (path_prefixes (parent_path (temp_path rp s @ x)))"
  obtain s' where s': "sig_plain s'" "p = resolve_path rp s'" using assms(3) by (auto simp: data_path_def)
  obtain b c a where b: "path_join rp ''data'' = b @ ''data''" "c \<noteq> CHR ''/''" "CHR ''/'' \<notin> set a"
    "temp_path rp s = (b @ ''temp'') @ ''/'' @ c # a" by (rule temp_more [OF assms(1,2)])
  have "CHR ''/'' \<notin> set (a @ x)" using b(3) assms(4) by simp
  then have "parent_path ((b @ ''temp'') @ ''/'' @ c # a @ x) = b @ ''temp''" by (rule rev_parent [OF b(2)])
  then have "length p \<le> length (b @ ''temp'')" using path_prefixes_length [OF p] b(4) by simp
  then show False using s' b assms(2) plain_length [OF s'(1)] by (simp add: resolve_path_plain)
qed

text \<open>No temporary file, nor one whose name begins like that of a temporary file, is a link.\<close>

definition temps_plain :: "string \<Rightarrow> files \<Rightarrow> bool" where
  "temps_plain rp fs \<longleftrightarrow> (\<forall>s x. sig_plain s \<longrightarrow> link_target fs (temp_path rp s @ x) = temp_path rp s @ x)"

lemma temps_plainD: "temps_plain rp fs \<Longrightarrow> sig_plain s \<Longrightarrow> link_target fs (temp_path rp s) = temp_path rp s"
  by (metis temps_plain_def append_Nil2)

lemma temps_plain_other:
  assumes "temps_plain rp fs" and "\<And>p. p \<noteq> q \<Longrightarrow> smap_find p (fs_nodes fs') = smap_find p (fs_nodes fs)" and "link_target fs' q = q"
  shows "temps_plain rp fs'"
proof -
  have "link_target fs' p = link_target fs p" if "p \<noteq> q" for p using assms(2) [OF that] by (simp add: link_target_def)
  then show ?thesis using assms(1,3) unfolding temps_plain_def by metis
qed

text \<open>What spares a repository: no file in which it keeps content is written or removed, and the temporary files do not
  become links. All other files may be written.\<close>

definition spares :: "string \<Rightarrow> files \<Rightarrow> files \<Rightarrow> bool" where
  "spares rp fs fs' \<longleftrightarrow> smap_ok (fs_nodes fs') \<and> temps_plain rp fs'
     \<and> (\<forall>p. data_path rp p \<longrightarrow> smap_find p (fs_nodes fs') = smap_find p (fs_nodes fs) \<and> (p \<in> fs_dirs fs' \<longrightarrow> p \<in> fs_dirs fs))"

text \<open>A provider that spares the repository that asks it.\<close>

locale answering =
  fixes rp :: string and prov :: provider
  assumes writes_beside: "rp \<noteq> [] \<Longrightarrow> sig_plain s \<Longrightarrow> smap_ok (fs_nodes fs) \<Longrightarrow> temps_plain rp fs \<Longrightarrow>
    prov s (temp_path rp s) fs = (ans, fs') \<Longrightarrow> spares rp fs fs'"

lemma spares_refl: "smap_ok (fs_nodes fs) \<Longrightarrow> temps_plain rp fs \<Longrightarrow> spares rp fs fs"
  by (simp add: spares_def)

lemma spares_dirs:
  "spares rp fs fs1 \<Longrightarrow> sig_plain s \<Longrightarrow> rp \<noteq> [] \<Longrightarrow> CHR ''/'' \<notin> set x
    \<Longrightarrow> spares rp fs (create_dirs (parent_path (temp_path rp s @ x)) fs1)"
  using prefixes_temp [of s rp _ x] by (auto simp: spares_def temps_plain_def link_target_def) (auto simp: create_dirs_def)

lemma spares_write:
  assumes "spares rp fs fs1" "\<not> data_path rp p" shows "spares rp fs (put_node p (Regular d t) fs1)"
proof -
  have n: "smap_find q (fs_nodes (put_node p (Regular d t) fs1)) = (if q = p then Some (Regular d t) else smap_find q (fs_nodes fs1))" for q
    using assms(1) by (simp add: spares_def)
  have "temps_plain rp fs1" "smap_ok (fs_nodes (put_node p (Regular d t) fs1))" using assms(1) by (simp_all add: spares_def)
  moreover have "link_target (put_node p (Regular d t) fs1) p = p" unfolding link_target_def n by simp
  moreover have "fs_dirs (put_node p (Regular d t) fs1) = fs_dirs fs1" by (simp add: put_node_def)
  ultimately show ?thesis using assms temps_plain_other [of rp fs1 p "put_node p (Regular d t) fs1"] unfolding spares_def n by auto
qed

lemma spares_remove:
  assumes "spares rp fs fs1" "\<not> data_path rp p" shows "spares rp fs (remove_node p fs1)"
proof -
  have n: "smap_find q (fs_nodes (remove_node p fs1)) = (if q = p then None else smap_find q (fs_nodes fs1))" for q
    using assms(1) by (simp add: spares_def remove_node_def smap_find_erase)
  have "temps_plain rp fs1" "smap_ok (fs_nodes (remove_node p fs1))" using assms(1) by (simp_all add: spares_def remove_node_def)
  moreover have "link_target (remove_node p fs1) p = p" unfolding link_target_def n by simp
  moreover have "fs_dirs (remove_node p fs1) = fs_dirs fs1" by (simp add: remove_node_def)
  ultimately show ?thesis using assms temps_plain_other [of rp fs1 p "remove_node p fs1"] unfolding spares_def n by auto
qed

interpretation local: answering rp "local_provider src" for rp src
proof unfold_locales
  fix s fs ans fs'
  assume a: "rp \<noteq> []" "sig_plain s" "smap_ok (fs_nodes fs)" "temps_plain rp fs" "local_provider src s (temp_path rp s) fs = (ans, fs')"
  let ?q = "temp_path rp s"
  let ?fs = "create_dirs (parent_path ?q) fs"
  note 0 = spares_refl [OF a(3,4)]
  have 1: "spares rp fs ?fs" using spares_dirs [OF 0 a(2,1), of "[]"] by simp
  have lt: "link_target ?fs ?q = ?q" using 1 a(2) by (simp add: spares_def temps_plainD)
  show "spares rp fs fs'"
    using a(5) 0 1 lt spares_write [OF 1 temp_not_data [OF a(2,1)]]
    by (auto simp: local_provider_def repository_provider_def Let_def write_file_def split: option.splits if_splits)
qed

interpretation curl: answering rp "curl_provider transfer" for rp transfer
proof unfold_locales
  fix s fs ans fs'
  assume a: "rp \<noteq> []" "sig_plain s" "smap_ok (fs_nodes fs)" "temps_plain rp fs" "curl_provider transfer s (temp_path rp s) fs = (ans, fs')"
  let ?q = "temp_path rp s" and ?p = "temp_path rp s @ ''.partial''"
  let ?fs = "create_dirs (parent_path ?p) fs"
  note 0 = spares_refl [OF a(3,4)] and np = temp_more_not_data [OF a(2,1), of "''.partial''"] and nq = temp_not_data [OF a(2,1)]
  have 1: "spares rp fs ?fs" using spares_dirs [OF 0 a(2,1), of "''.partial''"] by simp
  have lt: "link_target ?fs ?p = ?p" using 1 a(2) by (simp add: spares_def temps_plain_def)
  show "spares rp fs fs'"
  proof (cases "transfer s")
    case None with a(5) 0 show ?thesis by (simp add: curl_provider_def)
  next
    case (Some y)
    obtain d ok where y: "y = (d, ok)" by (cases y)
    let ?w = "put_node ?p (Regular d (fs_now ?fs)) ?fs"
    have 2: "spares rp fs ?w" by (rule spares_write [OF 1 np])
    have "smap_find ?p (fs_nodes ?w) = Some (Regular d (fs_now ?fs))" using 1 by (simp add: spares_def)
    then have "rename_node ?p ?q ?w = put_node ?q (Regular d (fs_now ?fs)) (remove_node ?p ?w)" by (simp add: rename_node_def)
    moreover have "spares rp fs (put_node ?q (Regular d (fs_now ?fs)) (remove_node ?p ?w))"
      by (rule spares_write [OF spares_remove [OF 2 np] nq])
    ultimately show ?thesis using a(5) Some y 1 2 lt
      by (auto simp: curl_provider_def Let_def write_file_def split: if_splits)
  qed
qed

section \<open>What files keep\<close>

text \<open>The content of a repository only grows.\<close>

definition grows :: "string \<Rightarrow> files \<Rightarrow> files \<Rightarrow> bool" where
  "grows rp fs fs' \<longleftrightarrow> (\<forall>s d. sig_plain s \<longrightarrow> stored_data rp fs s = Some d \<longrightarrow> stored_data rp fs' s = Some d)"

lemma grows_refl [simp, intro]: "grows rp fs fs"
  by (simp add: grows_def)

lemma grows_trans [trans]: "grows rp a b \<Longrightarrow> grows rp b c \<Longrightarrow> grows rp a c"
  by (simp add: grows_def)

lemma same_grows: "same_store rp fs fs' \<Longrightarrow> grows rp fs fs'"
  by (simp add: same_store_def grows_def)

lemma keeps_grows: "keeps rp fs fs' \<Longrightarrow> grows rp fs fs'"
  by (simp add: keeps_def grows_def)

lemma spares_store:
  assumes "store_inv P rp fs" and "spares rp fs fs'"
  shows "store_inv P rp fs' \<and> same_store rp fs fs' \<and> temps_plain rp fs'"
proof -
  have "\<And>p. data_path rp p \<Longrightarrow> p \<notin> fs_dirs fs" using assms(1) by (auto simp: store_inv_def data_path_def)
  then have "store_inv P rp fs' \<and> same_store rp fs fs'"
    using assms(2) by (intro same_store_put [OF assms(1)]) (auto simp: spares_def)
  then show ?thesis using assms(2) by (simp add: spares_def)
qed

lemma remove_path_store:
  assumes "store_inv P rp fs" and "temps_plain rp fs" and "remove_path q fs = (err, fs')" and "\<not> data_path rp q"
  shows "store_inv P rp fs' \<and> same_store rp fs fs' \<and> temps_plain rp fs'"
proof -
  have ok: "smap_ok (fs_nodes fs)" using assms(1) by (simp add: store_inv_def)
  have dirs: "\<And>p. data_path rp p \<Longrightarrow> p \<notin> fs_dirs fs" using assms(1) by (auto simp: store_inv_def data_path_def)
  have n: "smap_find p (fs_nodes fs') = smap_find p (fs_nodes fs)" if "p \<noteq> q" for p
    using assms(3) that by (auto simp: remove_path_def remove_node_def smap_find_erase split: if_splits)
  have "link_target fs' q = q"
    using assms(3) by (auto simp: remove_path_def remove_node_def smap_find_erase smap_has_def link_target_def split: if_splits)
  moreover have "smap_ok (fs_nodes fs')" "fs_dirs fs' \<subseteq> fs_dirs fs"
    using assms(3) ok by (auto simp: remove_path_def remove_node_def split: if_splits)
  moreover have "smap_find p (fs_nodes fs') = smap_find p (fs_nodes fs)" if "data_path rp p" for p
    using n assms(4) that by metis
  moreover have "store_inv P rp fs' \<and> same_store rp fs fs'"
    using calculation dirs by (intro same_store_put [OF assms(1)]) auto
  ultimately show ?thesis using n temps_plain_other [OF assms(2), of q] by blast
qed

text \<open>Storing what a temporary file holds.\<close>

lemma store_file_grows:
  assumes "store_inv P rp fs" and "temps_plain rp fs" and "sig_plain s" and "rp \<noteq> []" and "store_file rp s src fs = Inr (r, fs')"
    and "\<And>d t. file_at fs src = Some (d, t) \<Longrightarrow> P s d"
  shows "store_inv P rp fs' \<and> keeps rp fs fs' \<and> temps_plain rp fs' \<and> stored_data rp fs' s \<noteq> None"
proof (cases "contains rp s fs")
  case True
  then show ?thesis using store_file_there [OF True] contains_stored [OF assms(1,3)] assms(1,2,5) by simp
next
  case False
  then obtain d t where d: "file_at fs src = Some (d, t)" "fs_writable fs (resolve_path rp s)"
    using assms(5) by (auto simp: store_file_def contains_def create_dirs_def Let_def split: option.splits if_splits)
  from store_file_inv [OF assms(1,3,4) d(1) False assms(6) [OF d(1)] d(2)] assms(5)
  have 1: "store_inv P rp fs'" "keeps rp fs fs'" "stored_data rp fs' s = Some d" by auto
  have "temps_plain rp fs'" unfolding temps_plain_def
  proof (intro allI impI)
    fix s' x assume s': "sig_plain s'"
    then have "smap_find (temp_path rp s' @ x) (fs_nodes fs') = smap_find (temp_path rp s' @ x) (fs_nodes fs)"
      using 1(2) temp_more_not_data [OF s' assms(4)] by (simp add: keeps_def)
    then show "link_target fs' (temp_path rp s' @ x) = temp_path rp s' @ x" using assms(2) s' by (simp add: temps_plain_def link_target_def)
  qed
  with 1 show ?thesis by simp
qed

section \<open>How far the iterator has come\<close>

text \<open>An entry that is there with everything below it.\<close>

inductive reached :: "string \<Rightarrow> files \<Rightarrow> file_entry \<Rightarrow> bool" for rp fs where
  reached_file: "fe_type e = FILE \<Longrightarrow> sig_plain (fe_sig e) \<Longrightarrow> sig_valid (fe_sig e) \<Longrightarrow> stored_data rp fs (fe_sig e) \<noteq> None \<Longrightarrow> reached rp fs e"
| reached_dir: "fe_type e = DIRECTORY \<Longrightarrow> sig_plain (fe_sig e) \<Longrightarrow> sig_valid (fe_sig e) \<Longrightarrow> stored_data rp fs (fe_sig e) = Some d \<Longrightarrow>
    parse_manifest d = Inr m \<Longrightarrow> \<forall>x \<in> set (mf_entries m). reached rp fs x \<Longrightarrow> reached rp fs e"

lemma reached_grows: "reached rp fs e \<Longrightarrow> grows rp fs fs' \<Longrightarrow> reached rp fs' e"
proof (induction rule: reached.induct)
  case (reached_file e)
  then show ?case by (auto intro!: reached.reached_file simp: grows_def)
next
  case (reached_dir e d m)
  then have "stored_data rp fs' (fe_sig e) = Some d" by (simp add: grows_def)
  with reached_dir show ?case by (intro reached.reached_dir) auto
qed

lemma entries_trees:
  assumes "\<forall>x \<in> set es. \<exists>t. stored rp fs [x] [t] \<and> (\<forall>p. list_all (present rp fs) (walk_tree p t))"
  shows "\<exists>ts. stored rp fs es ts \<and> (\<forall>p. list_all (present rp fs) (walk_trees p ts))"
  using assms
proof (induction es)
  case Nil
  then show ?case by (intro exI [of _ "[]"]) (simp add: stored_Nil walk_trees_def)
next
  case (Cons x xs)
  then obtain t ts where t: "stored rp fs [x] [t]" "\<forall>p. list_all (present rp fs) (walk_tree p t)"
    and ts: "stored rp fs xs ts" "\<forall>p. list_all (present rp fs) (walk_trees p ts)" by auto
  from t(1) ts(1) have "stored rp fs (x # xs) (t # ts)" by (auto elim!: stored_ConsE stored_NilE intro: stored.intros)
  with t(2) ts(2) show ?case by (intro exI [of _ "t # ts"]) (simp add: walk_trees_def)
qed

lemma reached_tree:
  assumes "store_inv P rp fs"
  shows "reached rp fs e \<Longrightarrow> \<exists>t. stored rp fs [e] [t] \<and> (\<forall>p. list_all (present rp fs) (walk_tree p t))"
proof (induction rule: reached.induct)
  case (reached_file e)
  then show ?case using contains_stored [OF assms]
    by (intro exI [of _ "Leaf e"]) (auto intro: stored.intros simp: present_def)
next
  case (reached_dir e d m)
  from entries_trees [of "mf_entries m"] reached_dir(6) obtain ts where ts: "stored rp fs (mf_entries m) ts" "\<forall>p. list_all (present rp fs) (walk_trees p ts)" by blast
  have "fetch_manifest rp (fe_sig e) fs = Inr (Some (resolve_path rp (fe_sig e), m))"
    using reached_dir by (simp add: fetch_manifest_data [OF assms])
  then have "stored rp fs [e] [Branch e ts]" using reached_dir(1) ts(1) by (auto intro: stored.intros)
  moreover have pr: "present rp fs (p, e)" for p using reached_dir contains_stored [OF assms] by (simp add: present_def)
  ultimately show ?case using ts(2) by (intro exI [of _ "Branch e ts"]) (simp add: walk_trees_def)
qed

text \<open>The frames below lead to the manifest of the frame above; the entries before each index are complete.\<close>

fun below_ok :: "string \<Rightarrow> files \<Rightarrow> manifest \<Rightarrow> (manifest \<times> nat) list \<Rightarrow> manifest \<Rightarrow> bool" where
  "below_ok rp fs m0 [] m \<longleftrightarrow> m = m0"
| "below_ok rp fs m0 ((m', k) # st) m \<longleftrightarrow> k < length (mf_entries m') \<and> list_all (reached rp fs) (take k (mf_entries m'))
     \<and> fe_type (mf_entries m' ! k) = DIRECTORY \<and> sig_plain (fe_sig (mf_entries m' ! k)) \<and> sig_valid (fe_sig (mf_entries m' ! k))
     \<and> (\<exists>d. stored_data rp fs (fe_sig (mf_entries m' ! k)) = Some d \<and> parse_manifest d = Inr m)
     \<and> below_ok rp fs m0 st m'"

definition climbed :: "string \<Rightarrow> files \<Rightarrow> manifest \<Rightarrow> (manifest \<times> nat) list \<Rightarrow> bool" where
  "climbed rp fs m0 st \<longleftrightarrow> (case st of
      [] \<Rightarrow> list_all (reached rp fs) (mf_entries m0)
    | (m, k) # st' \<Rightarrow> list_all (reached rp fs) (take k (mf_entries m)) \<and> (k < length (mf_entries m) \<or> k = 0) \<and> below_ok rp fs m0 st' m)"

lemma below_ok_grows: "below_ok rp fs m0 st m \<Longrightarrow> grows rp fs fs' \<Longrightarrow> below_ok rp fs' m0 st m"
proof (induction rp fs m0 st m rule: below_ok.induct)
  case (2 rp fs m0 m' k st m)
  then have "list_all (reached rp fs') (take k (mf_entries m'))" using reached_grows by (auto simp: list_all_iff)
  with 2 show ?case by (auto simp: grows_def)
qed simp

lemma climbed_grows: "climbed rp fs m0 st \<Longrightarrow> grows rp fs fs' \<Longrightarrow> climbed rp fs' m0 st"
  using reached_grows below_ok_grows by (fastforce simp: climbed_def list_all_iff split: list.splits)

lemma climbed_pop:
  assumes "below_ok rp fs m0 st m" and "k < length (mf_entries m)" and "list_all (reached rp fs) (take (Suc k) (mf_entries m))"
  shows "climbed rp fs m0 (iter_pop ((m, k) # st))"
  using assms
proof (induction st arbitrary: m k)
  case Nil
  then show ?case by (auto simp: climbed_def)
next
  case (Cons f st)
  obtain m' k' where f: "f = (m', k')" by (cases f)
  show ?case
  proof (cases "Suc k = length (mf_entries m)")
    case False
    with Cons.prems show ?thesis by (simp add: climbed_def)
  next
    case True
    let ?e = "mf_entries m' ! k'"
    from Cons.prems(1) f obtain d where
      1: "k' < length (mf_entries m')" "list_all (reached rp fs) (take k' (mf_entries m'))" "fe_type ?e = DIRECTORY"
        "sig_plain (fe_sig ?e)" "sig_valid (fe_sig ?e)" "stored_data rp fs (fe_sig ?e) = Some d" "parse_manifest d = Inr m"
        "below_ok rp fs m0 st m'" by auto
    have "\<forall>x \<in> set (mf_entries m). reached rp fs x" using Cons.prems(3) True by (simp add: list_all_iff)
    from reached_dir [OF 1(3-7) this] have "list_all (reached rp fs) (take (Suc k') (mf_entries m'))"
      using 1(1,2) by (simp add: take_Suc_conv_app_nth)
    from Cons.IH [OF 1(8,1) this] show ?thesis using True f by simp
  qed
qed

definition clean_stack :: "(manifest \<times> nat) list \<Rightarrow> bool" where
  "clean_stack st \<longleftrightarrow> list_all (\<lambda>f. list_all (\<lambda>e. sig_plain (fe_sig e)) (mf_entries (fst f))) st"

text \<open>Advancing the iterator over an entry that is there.\<close>

lemma climbed_step:
  assumes "store_inv P rp fs" and "climbed rp fs m0 (it_stack i)" and "clean_stack (it_stack i)" and "it_repo i = Some rp" and "it_recurse i"
    and "iter_bool fs i" and "iter_step fs i = Inr i'"
  shows "climbed rp fs m0 (it_stack i') \<and> it_repo i' = Some rp \<and> it_recurse i'"
proof -
  obtain m k st where st: "it_stack i = (m, k) # st" using assms(4,7) by (cases "it_stack i") (auto simp: iter_step_def)
  have k: "k < length (mf_entries m)" using assms(4,7) st by (auto simp: iter_step_def in_range_def split: if_splits)
  let ?e = "mf_entries m ! k"
  have "iter_active i = fe_sig ?e" using st k by (auto simp: iter_active_def)
  then have v: "sig_valid (fe_sig ?e)" "contains rp (fe_sig ?e) fs" using assms(4,6) by (simp_all add: iter_bool_def)
  have pl: "sig_plain (fe_sig ?e)" using assms(3) st k by (auto simp: clean_stack_def list_all_iff)
  have sd: "stored_data rp fs (fe_sig ?e) \<noteq> None" using contains_stored [OF assms(1) pl] v(2) by simp
  have c: "list_all (reached rp fs) (take k (mf_entries m))" "below_ok rp fs m0 st m" using assms(2) st by (simp_all add: climbed_def)
  have pop: "climbed rp fs m0 (iter_pop ((m, k) # st))" if "reached rp fs ?e"
    using climbed_pop [OF c(2) k] c(1) that k by (simp add: take_Suc_conv_app_nth)
  show ?thesis
  proof (cases "fe_type ?e")
    case FILE
    then have "reached rp fs ?e" using pl v sd by (intro reached_file) simp_all
    with FILE pop assms(4,5,7) st k show ?thesis by (auto simp: iter_step_def in_range_def)
  next
    case DIRECTORY
    obtain d where d: "stored_data rp fs (fe_sig ?e) = Some d" using sd by auto
    from assms(4,5,7) st k DIRECTORY obtain q m' where
      f: "fetch_manifest rp (fe_sig ?e) fs = Inr (Some (q, m'))"
        "i' = i\<lparr>it_stack := (if mf_entries m' \<noteq> [] then (m', 0) # it_stack i else iter_pop (it_stack i))\<rparr>"
      using d by (auto simp: iter_step_def in_range_def Let_def fetch_manifest_data [OF assms(1) pl] split: sum.splits option.splits)
    have m': "parse_manifest d = Inr m'" using f(1) d by (auto simp: fetch_manifest_data [OF assms(1) pl] split: sum.splits)
    show ?thesis
    proof (cases "mf_entries m' = []")
      case True
      then have "reached rp fs ?e" using DIRECTORY pl v d m' by (intro reached_dir) auto
      with True pop f(2) st assms(4,5) show ?thesis by simp
    next
      case False
      then show ?thesis using f(2) st c k DIRECTORY pl v d m' assms(4,5) by (simp add: climbed_def)
    qed
  qed
qed

section \<open>The invariant\<close>

text \<open>The content of every signature but the root's has been verified.\<close>

definition verified :: "(string \<Rightarrow> 8 word list) \<Rightarrow> signature \<Rightarrow> signature \<Rightarrow> string \<Rightarrow> bool" where
  "verified f root s d \<longleftrightarrow> s = root \<or> content_sig f d = s"

definition pending_ok :: "'h hasher \<Rightarrow> string \<Rightarrow> files \<Rightarrow> 'h pending_fetch \<Rightarrow> bool" where
  "pending_ok H rp fs p \<longleftrightarrow> sig_plain (pf_expected p) \<and> pf_temp p = temp_path rp (pf_expected p)
     \<and> (\<forall>x. pf_context p = Some x \<longrightarrow> pf_result p \<noteq> None \<and> context_for H (content_at fs (pf_temp p)) x)"

definition store_ok :: "(string \<Rightarrow> 8 word list) \<Rightarrow> signature \<Rightarrow> string \<Rightarrow> files \<Rightarrow> bool" where
  "store_ok f root rp fs \<longleftrightarrow> store_inv (verified f root) rp fs \<and> temps_plain rp fs"

definition resolver_inv :: "'h hasher \<Rightarrow> (string \<Rightarrow> 8 word list) \<Rightarrow> 'h resolver \<Rightarrow> files \<Rightarrow> bool" where
  "resolver_inv H f r fs \<longleftrightarrow> rs_repo r \<noteq> [] \<and> sig_plain (rs_root r) \<and> store_ok f (rs_root r) (rs_repo r) fs
     \<and> length (rs_pending r) \<le> 1 \<and> list_all (pending_ok H (rs_repo r) fs) (rs_pending r)
     \<and> (\<forall>m. rs_manifest r = Some m \<longrightarrow> it_repo (rs_iter r) = Some (rs_repo r) \<and> it_recurse (rs_iter r)
          \<and> climbed (rs_repo r) fs m (it_stack (rs_iter r))
          \<and> (\<exists>d. stored_data (rs_repo r) fs (rs_root r) = Some d \<and> parse_manifest d = Inr m))"

text \<open>A change of the files that keeps the invariant of the rest.\<close>

lemma manifest_part_grows:
  assumes "resolver_inv H f r fs" and "grows (rs_repo r) fs fs'" and "rs_manifest r = Some m"
  shows "climbed (rs_repo r) fs' m (it_stack (rs_iter r)) \<and> (\<exists>d. stored_data (rs_repo r) fs' (rs_root r) = Some d \<and> parse_manifest d = Inr m)"
  using assms climbed_grows by (auto simp: resolver_inv_def grows_def)

lemma resolver_inv_files:
  assumes "resolver_inv H f r fs" and "grows (rs_repo r) fs fs'" and "store_ok f (rs_root r) (rs_repo r) fs'"
    and "length l \<le> 1" and "list_all (pending_ok H (rs_repo r) fs') l"
  shows "resolver_inv H f (r\<lparr>rs_pending := l\<rparr>) fs'"
  using assms manifest_part_grows [OF assms(1,2)] by (simp add: resolver_inv_def)

lemma sig_eq_plain:
  assumes "sig_plain a" and "sig_plain b" and "sig_eq a b"
  shows "a = b"
proof -
  have l: "sg_length s = length (takeWhile (\<lambda>c. c \<noteq> CHR 0x00) (sg_digest s))" if "sig_plain s" for s
  proof -
    have ok: "sig_ok s" using that by (simp add: sig_plain_def)
    then have d: "sg_digest s = str_view s @ replicate (max_digest - sg_length s) (CHR 0x00)" "CHR 0x00 \<notin> set (str_view s)"
      by (auto simp: sig_ok_def)
    have "takeWhile (\<lambda>c. c \<noteq> CHR 0x00) (str_view s @ replicate n (CHR 0x00)) = str_view s" for n
      using d(2) by (subst takeWhile_append2) (auto intro: takeWhile_eq_Nil_iff [THEN iffD2])
    then show ?thesis using d(1) length_str_view [OF ok] by metis
  qed
  show ?thesis using l [OF assms(1)] l [OF assms(2)] assms(3) by (cases a, cases b) (simp add: sig_eq_def)
qed

text \<open>One answered request: what is kept of it, and what it does to the repository.\<close>

lemma process_answer_ok:
  assumes H: "hasher_ok H f" and "rp \<noteq> []" and "store_ok f root rp fs" and "pending_ok H rp fs p" and "pf_result p = Some ans"
    and "process_answer H mx rp p ans fs = Outcome res kept new fs'"
  shows "store_ok f root rp fs' \<and> grows rp fs fs' \<and> (\<forall>p'. kept = Some p' \<longrightarrow> pending_ok H rp fs' p') \<and> res \<noteq> Inl SqUB"
proof -
  let ?d = "content_at fs (pf_temp p)" and ?x = "start_context H p fs"
  have inv: "store_inv (verified f root) rp fs" "temps_plain rp fs" using assms(3) by (simp_all add: store_ok_def)
  have pe: "sig_plain (pf_expected p)" "pf_temp p = temp_path rp (pf_expected p)" using assms(4) by (simp_all add: pending_ok_def)
  have nd: "\<not> data_path rp (pf_temp p)" using temp_not_data [OF pe(1) assms(2)] pe(2) by simp
  have cx: "context_for H ?d ?x"
  proof (cases "pf_context p")
    case None
    have "context_for H (case o' of None \<Rightarrow> [] | Some s \<Rightarrow> s) (context_of H o')" for o'
      by (cases o') (auto simp: context_for_def context_of_def intro!: exI [of _ "[]"])
    from this [of "map_option fst (file_at fs (pf_temp p))"] None show ?thesis
      by (cases "file_at fs (pf_temp p)") (auto simp: start_context_def content_at_def)
  next
    case (Some x)
    then have "context_for H ?d x" using assms(4) unfolding pending_ok_def by blast
    with Some show ?thesis by (simp add: start_context_def)
  qed
  show ?thesis
  proof (cases "pf_context p = None \<and> ans = None")
    case True
    then show ?thesis using assms(3,4,6) by (auto simp: process_answer_def)
  next
    case False
    from continue_signature_steps [OF H cx, of mx 0] show ?thesis
    proof (elim disjE exE conjE)
      fix x assume "continue_signature H mx 0 ?x = (Inr None, x)" "context_for H ?d x"
      then show ?thesis using False assms(3,4,5,6) by (auto simp: process_answer_def pending_ok_def)
    next
      fix x assume x: "continue_signature H mx 0 ?x = (Inr (Some (content_sig f ?d, word_of_nat (length ?d))), x)"
        and cx': "context_for H ?d x"
      have keep: "pending_ok H rp fs (p\<lparr>pf_context := Some x\<rparr>)" using assms(4,5) cx' by (simp add: pending_ok_def)
      let ?g = "content_sig f ?d"
      have g: "sig_plain ?g" "sig_valid ?g" using H content_sig_plain by (auto simp: hasher_ok_def)
      show ?thesis
      proof (cases "sig_eq ?g (pf_expected p)")
        case mism: False
        obtain err fs1 where rm: "remove_path (pf_temp p) fs = (err, fs1)" by (cases "remove_path (pf_temp p) fs")
        from remove_path_store [OF inv rm nd] have ok: "store_ok f root rp fs1" "grows rp fs fs1"
          by (auto simp: store_ok_def same_grows)
        have "err = None \<or> err = Some SqFilesystem \<and> fs1 = fs" using rm by (auto simp: remove_path_def split: if_splits)
        with mism False x rm ok g keep assms(6) show ?thesis by (auto simp: process_answer_def)
      next
        case True
        then have ge: "?g = pf_expected p" using sig_eq_plain [OF g(1) pe(1)] by simp
        show ?thesis
        proof (cases "store_file rp ?g (pf_temp p) fs")
          case (Inl e)
          then have "e = SqFilesystem" by (auto simp: store_file_def Let_def split: if_splits option.splits)
          with Inl True False x g keep assms(3,6) show ?thesis by (auto simp: process_answer_def)
        next
          case (Inr y)
          obtain q fs1 where y: "y = (q, fs1)" by (cases y)
          have "verified f root ?g d" if "file_at fs (pf_temp p) = Some (d, t)" for d t
            using that by (simp add: verified_def content_at_def)
          from store_file_grows [OF inv g(1) assms(2) Inr [unfolded y] this] have
            1: "store_inv (verified f root) rp fs1" "keeps rp fs fs1" "temps_plain rp fs1" by auto
          obtain err fs2 where rm: "remove_path (pf_temp p) fs1 = (err, fs2)" by (cases "remove_path (pf_temp p) fs1")
          from remove_path_store [OF 1(1,3) rm nd] have "store_ok f root rp fs2" "grows rp fs fs2"
            using grows_trans [OF keeps_grows [OF 1(2)] same_grows] by (auto simp: store_ok_def)
          with Inr y rm True False x g assms(6) show ?thesis by (auto simp: process_answer_def)
        qed
      qed
    qed
  qed
qed

section \<open>Polls keep the invariant\<close>

lemma poll_pending_inv:
  assumes H: "hasher_ok H f" and inv: "resolver_inv H f r fs" and run: "poll_pending H mx es r fs = (res, r', fs')"
  shows "resolver_inv H f r' fs' \<and> grows (rs_repo r) fs fs' \<and> res \<noteq> Inl SqUB \<and> r' = r\<lparr>rs_pending := rs_pending r'\<rparr>
    \<and> (\<forall>x. res = Inr x \<longrightarrow> rr_status x \<noteq> COMPLETED)"
proof -
  have st: "store_ok f (rs_root r) (rs_repo r) fs" and ne: "rs_repo r \<noteq> []" using inv by (simp_all add: resolver_inv_def)
  consider (none) "rs_pending r = []" | (one) p where "rs_pending r = [p]" "pending_ok H (rs_repo r) fs p"
    using inv by (cases "rs_pending r"; cases "tl (rs_pending r)") (auto simp: resolver_inv_def)
  then show ?thesis
  proof cases
    case none
    then have "r\<lparr>rs_pending := []\<rparr> = r" by (cases r) simp
    with none run inv show ?thesis by (auto simp: poll_pending_def ongoing_def)
  next
    case one
    let ?p = "take_answer p"
    have p: "pending_ok H (rs_repo r) fs ?p"
      using one(2) by (auto simp: take_answer_def pending_ok_def split: option.splits)
    show ?thesis
    proof (cases "pf_result ?p")
      case None
      from resolver_inv_files [OF inv grows_refl st, of "[?p]"] p
      show ?thesis using None one(1) run by (auto simp: poll_pending_def ongoing_def Let_def)
    next
      case (Some ans)
      obtain re kept new fs1 where o: "process_answer H mx (rs_repo r) ?p ans fs = Outcome re kept new fs1"
        by (cases "process_answer H mx (rs_repo r) ?p ans fs")
      from process_answer_ok [OF H ne st p Some o] have
        1: "store_ok f (rs_root r) (rs_repo r) fs1" "grows (rs_repo r) fs fs1" "\<forall>p'. kept = Some p' \<longrightarrow> pending_ok H (rs_repo r) fs1 p'" "re \<noteq> Inl SqUB"
        by auto
      let ?l = "case kept of None \<Rightarrow> [] | Some p' \<Rightarrow> [p']"
      have "length ?l \<le> 1" "list_all (pending_ok H (rs_repo r) fs1) ?l" using 1(3) by (auto split: option.splits)
      from resolver_inv_files [OF inv 1(2,1) this] have inv': "resolver_inv H f (r\<lparr>rs_pending := ?l\<rparr>) fs1" .
      have out: "re \<noteq> Inr COMPLETED"
        using o by (auto simp: process_answer_def Let_def split: if_splits prod.splits sum.splits option.splits)
      have r': "r' = r\<lparr>rs_pending := ?l\<rparr>" "fs' = fs1"
        "res = map_sum id (\<lambda>st. \<lparr>rr_status = st, rr_pending = length ?l, rr_completed = es @ new\<rparr>) re"
        using run one(1) Some o by (auto simp: poll_pending_def Let_def)
      with inv' 1 out show ?thesis by (cases re) auto
    qed
  qed
qed

lemma request_inv:
  assumes prov: "answering (rs_repo r) prov" and inv: "resolver_inv H f r fs" and none: "rs_pending r = []" and s: "sig_plain s"
    and run: "request prov s path r fs = (r', fs')"
  shows "resolver_inv H f r' fs' \<and> grows (rs_repo r) fs fs' \<and> (\<exists>p. r' = r\<lparr>rs_pending := [p]\<rparr> \<and> pf_expected p = s)"
proof -
  let ?q = "temp_path (rs_repo r) s"
  have st: "store_inv (verified f (rs_root r)) (rs_repo r) fs" "temps_plain (rs_repo r) fs" and ne: "rs_repo r \<noteq> []"
    using inv by (simp_all add: resolver_inv_def store_ok_def)
  obtain fut fs1 where f: "prov s ?q fs = (fut, fs1)" by (cases "prov s ?q fs")
  have "smap_ok (fs_nodes fs)" using st by (simp add: store_inv_def)
  from answering.writes_beside [OF prov ne s this st(2) f] have t: "spares (rs_repo r) fs fs1" .
  from spares_store [OF st(1) t] have
    1: "store_ok f (rs_root r) (rs_repo r) fs1" "grows (rs_repo r) fs fs1" by (auto simp: store_ok_def same_grows)
  let ?p = "\<lparr>pf_expected = s, pf_temp = ?q, pf_path = path, pf_future = fut, pf_result = None, pf_context = None\<rparr>"
  have "list_all (pending_ok H (rs_repo r) fs1) [?p]" using s by (simp add: pending_ok_def)
  from resolver_inv_files [OF inv 1(2,1) _ this] have "resolver_inv H f (r\<lparr>rs_pending := [?p]\<rparr>) fs1" by simp
  with run f none 1(2) show ?thesis by (auto simp: request_def)
qed

lemma load_root_inv:
  assumes inv: "resolver_inv H f r fs" and run: "load_root e r fs = (res, r', fs')" and there: "stored_data (rs_repo r) fs (rs_root r) \<noteq> None"
  shows "resolver_inv H f r' fs' \<and> fs' = fs \<and> rs_repo r' = rs_repo r \<and> rs_root r' = rs_root r \<and> rs_pending r' = rs_pending r
    \<and> (\<forall>x. res = Inr x \<longrightarrow> rr_status x = ONGOING)"
proof -
  have st: "store_inv (verified f (rs_root r)) (rs_repo r) fs" "sig_plain (rs_root r)" using inv by (simp_all add: resolver_inv_def store_ok_def)
  obtain d where d: "stored_data (rs_repo r) fs (rs_root r) = Some d" using there by auto
  show ?thesis
  proof (cases "parse_manifest d")
    case (Inl x)
    then have "load_root e r fs = (Inl x, r, fs)" using d by (simp add: load_root_def fetch_manifest_data [OF st])
    with run inv show ?thesis by auto
  next
    case (Inr m)
    then have "load_root e r fs = (let r1 = r\<lparr>rs_manifest := Some m, rs_iter := iter_new (rs_repo r) m True\<rparr> in (Inr (ongoing r1 [e]), r1, fs))"
      using d by (simp add: load_root_def fetch_manifest_data [OF st])
    with run inv d Inr show ?thesis by (auto simp: Let_def resolver_inv_def ongoing_def iter_new_def climbed_def)
  qed
qed

lemma poll_root_future_inv:
  assumes inv: "resolver_inv H f r fs" and none: "rs_manifest r = None" and one: "rs_pending r = [p]" and exp: "pf_expected p = rs_root r"
    and run: "poll_root_future r fs = (res, r', fs')"
  shows "resolver_inv H f r' fs' \<and> rs_repo r' = rs_repo r \<and> rs_root r' = rs_root r
    \<and> (rs_pending r' = [] \<or> r' = r) \<and> (rs_manifest r' \<noteq> None \<longrightarrow> rs_pending r' = []) \<and> (\<forall>x. res = Inr x \<longrightarrow> rr_status x \<noteq> COMPLETED)"
proof -
  let ?rp = "rs_repo r" and ?r1 = "r\<lparr>rs_pending := []\<rparr>"
  have st: "store_inv (verified f (rs_root r)) ?rp fs" "temps_plain ?rp fs" and ne: "?rp \<noteq> []" and s: "sig_plain (rs_root r)"
    and pt: "pf_temp p = temp_path ?rp (rs_root r)"
    using inv one exp by (simp_all add: resolver_inv_def store_ok_def pending_ok_def)
  have nd: "\<not> data_path ?rp (pf_temp p)" using temp_not_data [OF s ne] pt by simp
  have so: "store_ok f (rs_root r) ?rp fs" using st by (simp add: store_ok_def)
  from resolver_inv_files [OF inv grows_refl so, of "[]"] have inv1: "resolver_inv H f ?r1 fs" by simp
  show ?thesis
  proof (cases "\<exists>n fs1 q. pf_future p = Some (Some n) \<and> store_file ?rp (rs_root r) (pf_temp p) fs = Inr (q, fs1)")
    case False
    then show ?thesis using run one exp inv inv1 none
      by (auto simp: poll_root_future_def ongoing_def Let_def split: option.splits sum.splits)
  next
    case True
    then obtain n fs1 q where n: "pf_future p = Some (Some n)" "store_file ?rp (rs_root r) (pf_temp p) fs = Inr (q, fs1)" by blast
    from store_file_grows [OF st s ne n(2)] have
      1: "store_inv (verified f (rs_root r)) ?rp fs1" "keeps ?rp fs fs1" "temps_plain ?rp fs1" "stored_data ?rp fs1 (rs_root r) \<noteq> None"
      by (auto simp: verified_def)
    have so1: "store_ok f (rs_root r) ?rp fs1" using 1 by (simp add: store_ok_def)
    from resolver_inv_files [OF inv keeps_grows [OF 1(2)] so1, of "[]"] have inv2: "resolver_inv H f ?r1 fs1" by simp
    let ?e = "\<lparr>re_sig = rs_root r, re_status = COPIED, re_bytes = n, re_path = []\<rparr>"
    obtain res1 r2 fs2 where l: "load_root ?e ?r1 fs1 = (res1, r2, fs2)" by (cases "load_root ?e ?r1 fs1")
    have th: "stored_data (rs_repo ?r1) fs1 (rs_root ?r1) \<noteq> None" using 1(4) by simp
    from load_root_inv [OF inv2 l th] have
      2: "resolver_inv H f r2 fs1" "fs2 = fs1" "rs_repo r2 = ?rp" "rs_root r2 = rs_root r" "rs_pending r2 = []"
        "\<forall>x. res1 = Inr x \<longrightarrow> rr_status x = ONGOING" by auto
    obtain err fs3 where rm: "remove_path (pf_temp p) fs1 = (err, fs3)" by (cases "remove_path (pf_temp p) fs1")
    from remove_path_store [OF 1(1,3) rm nd] have 3: "store_ok f (rs_root r) ?rp fs3" "grows ?rp fs1 fs3"
      by (auto simp: store_ok_def same_grows)
    have r2: "r2\<lparr>rs_pending := []\<rparr> = r2" using 2(5) by (cases r2) simp
    from resolver_inv_files [OF 2(1), of fs3 "[]"] 2(3,4) 3 r2 have inv3: "resolver_inv H f r2 fs3" by simp
    have "poll_root_future r fs = (case res1 of Inl x \<Rightarrow> (Inl x, r2, fs1) | Inr x \<Rightarrow> (Inr x, r2, fs3))"
      using n one exp l 2(2) rm by (simp add: poll_root_future_def Let_def split: sum.splits)
    with run 2 inv3 show ?thesis by (auto split: sum.splits)
  qed
qed

text \<open>In the first phase the only request is the one for the root.\<close>

definition root_phase :: "'h resolver \<Rightarrow> bool" where
  "root_phase r \<longleftrightarrow> (rs_manifest r = None \<longrightarrow> list_all (\<lambda>p. pf_expected p = rs_root r) (rs_pending r))"

lemma poll_root_inv:
  assumes prov: "answering (rs_repo r) prov" and inv: "resolver_inv H f r fs" and none: "rs_manifest r = None" and ph: "root_phase r"
    and run: "poll_root prov r fs = (res, r', fs')"
  shows "resolver_inv H f r' fs' \<and> root_phase r' \<and> rs_repo r' = rs_repo r \<and> rs_root r' = rs_root r \<and> (\<forall>x. res = Inr x \<longrightarrow> rr_status x \<noteq> COMPLETED)"
proof -
  have s: "sig_plain (rs_root r)" and st: "store_inv (verified f (rs_root r)) (rs_repo r) fs" using inv by (simp_all add: resolver_inv_def store_ok_def)
  consider (there) "rs_pending r = []" "contains (rs_repo r) (rs_root r) fs" | (ask) "rs_pending r = []" "\<not> contains (rs_repo r) (rs_root r) fs"
    | (wait) p where "rs_pending r = [p]" "pf_expected p = rs_root r"
    using inv ph none by (cases "rs_pending r"; cases "tl (rs_pending r)") (auto simp: resolver_inv_def root_phase_def)
  then show ?thesis
  proof cases
    case there
    let ?e = "\<lparr>re_sig = rs_root r, re_status = ALREADY_EXISTS, re_bytes = 0, re_path = []\<rparr>"
    have "stored_data (rs_repo r) fs (rs_root r) \<noteq> None" using contains_stored [OF st s] there(2) by simp
    moreover have l: "load_root ?e r fs = (res, r', fs')" using run there by (simp add: poll_root_def)
    ultimately have "resolver_inv H f r' fs' \<and> fs' = fs \<and> rs_repo r' = rs_repo r \<and> rs_root r' = rs_root r \<and> rs_pending r' = rs_pending r
        \<and> (\<forall>x. res = Inr x \<longrightarrow> rr_status x = ONGOING)" using load_root_inv [OF inv] by blast
    with there show ?thesis by (auto simp: root_phase_def)
  next
    case ask
    obtain r1 fs1 where q: "request prov (rs_root r) [] r fs = (r1, fs1)" by (cases "request prov (rs_root r) [] r fs")
    from request_inv [OF prov inv ask(1) s q] obtain p where
      1: "resolver_inv H f r1 fs1" "r1 = r\<lparr>rs_pending := [p]\<rparr>" "pf_expected p = rs_root r" by blast
    have "poll_root_future r1 fs1 = (res, r', fs')" using run ask q by (simp add: poll_root_def)
    from poll_root_future_inv [OF 1(1) _ _ _ this, of p] 1 none show ?thesis by (auto simp: root_phase_def)
  next
    case wait
    then have "poll_root_future r fs = (res, r', fs')" using run by (simp add: poll_root_def)
    from poll_root_future_inv [OF inv none wait this] wait show ?thesis by (auto simp: root_phase_def)
  qed
qed

text \<open>When a poll reports completion, everything the root leads to is there.\<close>

definition all_there :: "'h resolver \<Rightarrow> files \<Rightarrow> bool" where
  "all_there r fs \<longleftrightarrow> (\<exists>m. fetch_manifest (rs_repo r) (rs_root r) fs = Inr (Some (resolve_path (rs_repo r) (rs_root r), m))
     \<and> list_all (reached (rs_repo r) fs) (mf_entries m))"

lemma poll_entry_inv:
  assumes H: "hasher_ok H f" and prov: "answering (rs_repo r) prov" and inv: "resolver_inv H f r fs" and some: "rs_manifest r \<noteq> None"
    and clean: "clean_stack (it_stack (rs_iter r))" and run: "poll_entry H prov mx r fs = (res, r', fs')"
  shows "resolver_inv H f r' fs' \<and> rs_manifest r' = rs_manifest r \<and> rs_repo r' = rs_repo r \<and> rs_root r' = rs_root r
    \<and> (\<forall>x. res = Inr x \<longrightarrow> rr_status x = COMPLETED \<longrightarrow> all_there r' fs')"
proof -
  let ?rp = "rs_repo r"
  obtain m where m: "rs_manifest r = Some m" using some by auto
  have st: "store_inv (verified f (rs_root r)) ?rp fs" and s: "sig_plain (rs_root r)" using inv by (simp_all add: resolver_inv_def store_ok_def)
  from inv m obtain d where it: "it_repo (rs_iter r) = Some ?rp" "it_recurse (rs_iter r)" "climbed ?rp fs m (it_stack (rs_iter r))"
    "stored_data ?rp fs (rs_root r) = Some d" "parse_manifest d = Inr m" by (auto simp: resolver_inv_def)
  have pend: "resolver_inv H f r' fs' \<and> rs_manifest r' = rs_manifest r \<and> rs_repo r' = rs_repo r \<and> rs_root r' = rs_root r
      \<and> (\<forall>x. res = Inr x \<longrightarrow> rr_status x = COMPLETED \<longrightarrow> all_there r' fs')"
    if "resolver_inv H f r1 fs1" "poll_pending H mx es r1 fs1 = (res, r', fs')" "rs_manifest r1 = rs_manifest r" "rs_repo r1 = ?rp" "rs_root r1 = rs_root r"
    for r1 fs1 es
  proof -
    from poll_pending_inv [OF H that(1,2)] have p: "resolver_inv H f r' fs'" "r' = r1\<lparr>rs_pending := rs_pending r'\<rparr>"
      "\<forall>x. res = Inr x \<longrightarrow> rr_status x \<noteq> COMPLETED" by auto
    have "rs_manifest r' = rs_manifest r1" "rs_repo r' = rs_repo r1" "rs_root r' = rs_root r1" by (subst p(2), simp)+
    with p that(3-5) show ?thesis by auto
  qed
  consider (fin) "iter_eq (rs_iter r) iter_end" | (adv) "\<not> iter_eq (rs_iter r) iter_end" "iter_bool fs (rs_iter r)"
    | (ask) "\<not> iter_eq (rs_iter r) iter_end" "\<not> iter_bool fs (rs_iter r)" "rs_pending r = []"
    | (wait) "\<not> iter_eq (rs_iter r) iter_end" "\<not> iter_bool fs (rs_iter r)" "rs_pending r \<noteq> []" by blast
  then show ?thesis
  proof cases
    case fin
    then have "it_stack (rs_iter r) = []" by (simp add: iter_eq_end)
    then have "list_all (reached ?rp fs) (mf_entries m)" using it(3) by (simp add: climbed_def)
    moreover have "fetch_manifest ?rp (rs_root r) fs = Inr (Some (resolve_path ?rp (rs_root r), m))"
      using it(4,5) by (simp add: fetch_manifest_data [OF st s])
    ultimately have "all_there r fs" by (simp add: all_there_def)
    with fin run inv show ?thesis by (auto simp: poll_entry_def)
  next
    case adv
    show ?thesis
    proof (cases "iter_deref (rs_iter r)")
      case (Inl e)
      with adv run inv show ?thesis by (auto simp: poll_entry_def)
    next
      case (Inr x)
      obtain p e where x: "x = (p, e)" by (cases x)
      show ?thesis
      proof (cases "iter_step fs (rs_iter r)")
        case Inl': (Inl e)
        with adv Inr x run inv show ?thesis by (auto simp: poll_entry_def)
      next
        case Inr': (Inr i)
        from climbed_step [OF st it(3) clean it(1,2) adv(2) Inr'] inv m
        have "resolver_inv H f (r\<lparr>rs_iter := i\<rparr>) fs" by (simp add: resolver_inv_def)
        moreover have "poll_pending H mx [\<lparr>re_sig = fe_sig e, re_status = ALREADY_EXISTS, re_bytes = 0, re_path = p\<rparr>]
            (r\<lparr>rs_iter := i\<rparr>) fs = (res, r', fs')" using adv Inr x Inr' run by (simp add: poll_entry_def)
        ultimately show ?thesis by (rule pend) simp_all
      qed
    qed
  next
    case ask
    show ?thesis
    proof (cases "iter_deref (rs_iter r)")
      case (Inl e)
      with ask run inv show ?thesis by (auto simp: poll_entry_def)
    next
      case (Inr x)
      obtain p e where x: "x = (p, e)" by (cases x)
      obtain r1 fs1 where q: "request prov (fe_sig e) p r fs = (r1, fs1)" by (cases "request prov (fe_sig e) p r fs")
      have "sig_plain (fe_sig e)"
      proof -
        obtain m' k st' where f: "it_stack (rs_iter r) = (m', k) # st'" "k < length (mf_entries m')" "e = mf_entries m' ! k"
          using Inr x it(1) by (auto simp: iter_deref_def in_range_def Let_def split: list.splits if_splits)
        then show ?thesis using clean by (auto simp: clean_stack_def list_all_iff)
      qed
      from request_inv [OF prov inv ask(3) this q] obtain pp where
        1: "resolver_inv H f r1 fs1" "r1 = r\<lparr>rs_pending := [pp]\<rparr>" by blast
      have "poll_pending H mx [] r1 fs1 = (res, r', fs')" using ask Inr x q run by (simp add: poll_entry_def)
      with 1(1) show ?thesis by (rule pend) (simp_all add: 1(2))
    qed
  next
    case wait
    then have "poll_pending H mx [] r fs = (res, r', fs')" using run by (simp add: poll_entry_def)
    with inv show ?thesis by (rule pend) simp_all
  qed
qed

section \<open>The runs of a resolver\<close>

text \<open>
  Polls with any limit, and answers of the provider, which may come at any time and write any files, but spare the
  repository. The polls are over manifests whose signatures have no slash, space or line feed; the code does not test
  this.
\<close>

inductive resolver_reach :: "'h hasher \<Rightarrow> provider \<Rightarrow> string \<Rightarrow> signature \<Rightarrow> files \<Rightarrow> 'h resolver \<Rightarrow> files \<Rightarrow> bool"
  for H prov rp root fs0 where
  start: "resolver_new rp root = Inr r \<Longrightarrow> resolver_reach H prov rp root fs0 r fs0"
| polled: "resolver_reach H prov rp root fs0 r fs \<Longrightarrow> clean_stack (it_stack (rs_iter r)) \<Longrightarrow>
    resolver_poll H prov mx r fs = (Inr res, r', fs') \<Longrightarrow> resolver_reach H prov rp root fs0 r' fs'"
| arrived: "resolver_reach H prov rp root fs0 r fs \<Longrightarrow> rs_pending r = [p] \<Longrightarrow> pf_future p = None \<Longrightarrow> pf_result p = None \<Longrightarrow>
    spares rp fs fs' \<Longrightarrow> resolver_reach H prov rp root fs0 (r\<lparr>rs_pending := [p\<lparr>pf_future := Some ans\<rparr>]\<rparr>) fs'"

lemma catch_errors_state: "catch_errors x = (Inr res, r, fs) \<Longrightarrow> \<exists>y. x = (y, r, fs) \<and> (rr_status res = COMPLETED \<longrightarrow> y = Inr res)"
  by (auto simp: catch_errors_def split: sum.splits prod.splits if_splits)

lemma resolver_poll_inv:
  assumes H: "hasher_ok H f" and prov: "answering (rs_repo r) prov" and inv: "resolver_inv H f r fs" and ph: "root_phase r"
    and clean: "clean_stack (it_stack (rs_iter r))" and run: "resolver_poll H prov mx r fs = (Inr res, r', fs')"
  shows "resolver_inv H f r' fs' \<and> root_phase r' \<and> rs_repo r' = rs_repo r \<and> rs_root r' = rs_root r
    \<and> (rr_status res = COMPLETED \<longrightarrow> all_there r' fs')"
proof (cases "rs_manifest r = None")
  case True
  then obtain y where y: "poll_root prov r fs = (y, r', fs')" "rr_status res = COMPLETED \<longrightarrow> y = Inr res"
    using catch_errors_state [OF run [unfolded resolver_poll_def]] by auto
  from poll_root_inv [OF prov inv True ph y(1)] y(2) show ?thesis by blast
next
  case False
  then obtain y where y: "poll_entry H prov mx r fs = (y, r', fs')" "rr_status res = COMPLETED \<longrightarrow> y = Inr res"
    using catch_errors_state [OF run [unfolded resolver_poll_def]] by auto
  from poll_entry_inv [OF H prov inv False clean y(1)] y(2) False show ?thesis by (auto simp: root_phase_def)
qed

lemma resolver_reach_inv:
  assumes "resolver_reach H prov rp root fs0 r fs" and H: "hasher_ok H f" and prov: "answering rp prov" and rp: "rp \<noteq> []"
    and "sig_plain root" and "store_ok f root rp fs0"
  shows "resolver_inv H f r fs \<and> root_phase r \<and> rs_repo r = rp \<and> rs_root r = root"
  using assms(1)
proof (induction rule: resolver_reach.induct)
  case (start r)
  then show ?case using assms(4-6) by (auto simp: resolver_new_def resolver_inv_def root_phase_def split: if_splits)
next
  case (polled r fs mx res r' fs')
  then show ?case using resolver_poll_inv [OF H _ _ _ polled.hyps(2,3)] prov by simp
next
  case (arrived r fs p fs' ans)
  have inv: "resolver_inv H f r fs" and r: "root_phase r" "rs_repo r = rp" "rs_root r = root" using arrived.IH by simp_all
  have po: "pending_ok H rp fs p" using inv r arrived.hyps(2) by (simp add: resolver_inv_def)
  have st: "store_inv (verified f root) rp fs" using inv r by (simp_all add: resolver_inv_def store_ok_def)
  from spares_store [OF st arrived.hyps(5)] have 1: "store_ok f root rp fs'" "grows rp fs fs'" by (auto simp: store_ok_def same_grows)
  have "pending_ok H rp fs' (p\<lparr>pf_future := Some ans\<rparr>)" using po arrived.hyps(4) by (auto simp: pending_ok_def)
  with resolver_inv_files [OF inv, of fs' "[p\<lparr>pf_future := Some ans\<rparr>]"] 1 r arrived.hyps(2) show ?case
    by (auto simp: root_phase_def)
qed

section \<open>Guarantees\<close>

text \<open>
  C6: whatever the provider answers, whenever it does, and whatever it writes besides the files in which the repository
  keeps its content (as the providers that copy and that download do): as long as the manifests that are walked name
  signatures without slashes, every file of a repository that was so at the start holds content with the signature it is named by,
  except the file of the root, which is stored as it came. (A slash in a signature, which the code does not
  test, lets a request write outside of the temporary directory.)
\<close>

theorem resolver_verifies:
  assumes "hasher_ok H f" and "answering rp prov" and "rp \<noteq> []" and "sig_plain root" and "store_ok f root rp fs0"
    and "resolver_reach H prov rp root fs0 r fs" and "sig_plain s" and "s \<noteq> root" and "stored_data rp fs s = Some d"
  shows "content_sig f d = s"
proof -
  have "resolver_inv H f r fs \<and> rs_repo r = rp \<and> rs_root r = root" using resolver_reach_inv [OF assms(6,1-5)] by simp
  then have "store_inv (verified f root) rp fs" by (auto simp: resolver_inv_def store_ok_def)
  from stored_inv [OF this assms(7,9)] assms(8) show ?thesis by (simp add: verified_def)
qed

text \<open>
  C5: when a poll reports completion, the manifest of the root is in the repository, and everything an iterator over it
  visits is there - for every provider that writes no file in which the repository keeps its content, as long as the
  root and the manifests that are walked name signatures without slashes, which the code does not test, and if every
  file but the root had content with its signature at the start.
\<close>

theorem resolver_complete:
  assumes "hasher_ok H f" and "answering rp prov" and "rp \<noteq> []" and "sig_plain root" and "store_ok f root rp fs0"
    and "resolver_reach H prov rp root fs0 r fs" and "clean_stack (it_stack (rs_iter r))"
    and "resolver_poll H prov mx r fs = (Inr res, r', fs')" and "rr_status res = COMPLETED"
  shows "\<exists>m ts. fetch_manifest rp root fs' = Inr (Some (resolve_path rp root, m)) \<and> stored rp fs' (mf_entries m) ts
    \<and> list_all (present rp fs') (walk_trees [] ts) \<and> walk_loop fs' (iter_new rp m True) [] = Some (Inr (walk_trees [] ts))"
proof -
  have r: "resolver_inv H f r fs" "root_phase r" "rs_repo r = rp" "rs_root r = root" using resolver_reach_inv [OF assms(6,1-5)] by simp_all
  from resolver_poll_inv [OF assms(1) _ r(1,2) assms(7,8)] assms(2,9) r(3,4)
  have 1: "resolver_inv H f r' fs'" "all_there r' fs'" "rs_repo r' = rp" "rs_root r' = root" by simp_all
  then obtain m where m: "fetch_manifest rp root fs' = Inr (Some (resolve_path rp root, m))" "list_all (reached rp fs') (mf_entries m)"
    by (auto simp: all_there_def)
  have st: "store_inv (verified f root) rp fs'" using 1 by (auto simp: resolver_inv_def store_ok_def)
  have "\<forall>x \<in> set (mf_entries m). \<exists>t. stored rp fs' [x] [t] \<and> (\<forall>p. list_all (present rp fs') (walk_tree p t))"
    using m(2) reached_tree [OF st] by (auto simp: list_all_iff)
  from entries_trees [OF this] obtain ts where ts: "stored rp fs' (mf_entries m) ts" "list_all (present rp fs') (walk_trees [] ts)" by blast
  then have "takeWhile (present rp fs') (walk_trees [] ts) = walk_trees [] ts" by (simp add: takeWhile_eq_all_conv list_all_iff)
  with walk_manifest [OF ts(1)] m(1) ts show ?thesis by auto
qed

end
