(* ===== verification/Squall_Sync.thy ===== *)
theory Squall_Sync
  imports Squall_Resolve "HOL-Library.Sublist"
begin

text \<open>
  The resolver with the provider that reads from another repository: it ends, and its repository then holds the tree
  the other one has. And what it does with a root that is not what it should be.
\<close>

section \<open>Two repositories\<close>

definition apart :: "string \<Rightarrow> string \<Rightarrow> bool" where
  "apart a b \<longleftrightarrow> a \<noteq> [] \<and> b \<noteq> [] \<and> \<not> prefix a b \<and> \<not> prefix b a"

lemma path_join_prefix: "\<not> is_absolute q \<Longrightarrow> prefix p (path_join p q)"
  by (simp add: path_join_def)

lemma data_path_prefix: "data_path rp p \<Longrightarrow> rp \<noteq> [] \<Longrightarrow> prefix rp p"
  using path_join_prefix [of "''data''" rp] by (auto simp: data_path_def resolve_path_plain is_absolute_def)

lemma temp_path_prefix: "sig_plain s \<Longrightarrow> prefix rp (temp_path rp s)"
  using path_join_prefix [OF plain_relative, of s "path_join rp ''temp''"] path_join_prefix [of "''temp''" rp]
  by (auto simp: temp_path_def is_absolute_def intro: prefix_order.trans)

lemma path_prefixes_prefix: "q \<in> set (path_prefixes p) \<Longrightarrow> prefix q p"
  by (auto simp: path_prefixes_def take_is_prefix)

lemma parent_prefix: "prefix (parent_path p) p"
proof -
  have "suffix (tl (dropWhile (\<lambda>c. c \<noteq> CHR ''/'') (rev p))) (rev p)"
    by (rule suffix_order.trans [OF suffix_tl suffix_dropWhile])
  then show ?thesis by (simp add: parent_path_def suffix_to_prefix)
qed

lemma apart_paths:
  assumes "apart a b" and "prefix a p" and "prefix b q"
  shows "p \<noteq> q" and "p \<notin> set (path_prefixes (parent_path q))"
proof -
  have no: "\<not> prefix p q"
    using assms prefix_order.trans [OF assms(2)] prefix_same_cases [of a q b] by (auto simp: apart_def)
  then show "p \<noteq> q" by auto
  show "p \<notin> set (path_prefixes (parent_path q))"
    using no prefix_order.trans [OF path_prefixes_prefix parent_prefix] by blast
qed

lemma apart_data:
  assumes "apart a b" and "data_path a p"
  shows "\<not> data_path b p" and "sig_plain s \<Longrightarrow> p \<noteq> temp_path b s" and "sig_plain s \<Longrightarrow> p \<notin> set (path_prefixes (parent_path (temp_path b s)))"
    and "sig_plain s \<Longrightarrow> p \<notin> set (path_prefixes (parent_path (resolve_path b s)))"
proof -
  have ne: "a \<noteq> []" "b \<noteq> []" using assms(1) by (simp_all add: apart_def)
  note p = data_path_prefix [OF assms(2) ne(1)]
  show "\<not> data_path b p" using apart_paths(1) [OF assms(1) p, of p] data_path_prefix [OF _ ne(2)] by blast
  show "p \<noteq> temp_path b s" if "sig_plain s" using apart_paths(1) [OF assms(1) p] temp_path_prefix [OF that] by blast
  show "p \<notin> set (path_prefixes (parent_path (temp_path b s)))" if "sig_plain s"
    using apart_paths(2) [OF assms(1) p] temp_path_prefix [OF that] by blast
  show "p \<notin> set (path_prefixes (parent_path (resolve_path b s)))" if "sig_plain s"
    using apart_paths(2) [OF assms(1) p] data_path_prefix [OF data_pathI [OF that] ne(2)] by blast
qed

section \<open>Fetching one file\<close>

definition temps_fresh :: "string \<Rightarrow> files \<Rightarrow> bool" where
  "temps_fresh rp fs \<longleftrightarrow> (\<forall>s. sig_plain s \<longrightarrow> temp_path rp s \<notin> fs_dirs fs
     \<and> (\<forall>x. smap_find (temp_path rp s @ x) (fs_nodes fs) = None))"

lemma temps_freshD: "temps_fresh rp fs \<Longrightarrow> sig_plain s \<Longrightarrow> smap_find (temp_path rp s) (fs_nodes fs) = None \<and> temp_path rp s \<notin> fs_dirs fs"
  by (metis temps_fresh_def append_Nil2)

definition sync_ok :: "(string \<Rightarrow> 8 word list) \<Rightarrow> string set \<Rightarrow> string \<Rightarrow> string \<Rightarrow> files \<Rightarrow> bool" where
  "sync_ok f D ra rp fs \<longleftrightarrow> repo_sound f D ra fs \<and> repo_sound f D rp fs \<and> temps_fresh rp fs \<and> (\<forall>p. fs_writable fs p)"

lemma temps_fresh_plain: "temps_fresh rp fs \<Longrightarrow> temps_plain rp fs"
  by (simp add: temps_fresh_def temps_plain_def link_target_def)

lemma temp_path_base:
  assumes "rp \<noteq> []"
  shows "\<exists>b. \<forall>s. sig_plain s \<longrightarrow> temp_path rp s = b @ ''temp/'' @ str_view s \<and> parent_path (temp_path rp s) = b @ ''temp''
    \<and> parent_path (resolve_path rp s) = b @ ''data/'' @ take 2 (str_view s)"
proof -
  obtain b where b: "path_join rp ''data'' = b @ ''data''" "path_join rp ''temp'' = b @ ''temp''"
    using repo_base [OF assms] by blast
  have t: "temp_path rp s = b @ ''temp/'' @ str_view s" if "sig_plain s" for s
    using b plain_relative [OF that] by (simp add: temp_path_def path_join_def)
  have p: "parent_path (temp_path rp s) = b @ ''temp''" if s: "sig_plain s" for s
  proof -
    have "3 \<le> length (str_view s)" using s by (rule plain_length)
    then obtain c a where ca: "str_view s = c # a" by (cases "str_view s") auto
    then have "c \<noteq> CHR ''/''" "CHR ''/'' \<notin> set a" using s by (auto simp: sig_plain_def)
    then have "parent_path ((b @ ''temp'') @ ''/'' @ c # a) = b @ ''temp''" by (rule rev_parent)
    then show ?thesis using t [OF s] ca by simp
  qed
  have "parent_path (resolve_path rp s) = b @ ''data/'' @ take 2 (str_view s)" if "sig_plain s" for s
    using parent_resolve [OF that assms] b by simp
  with t p show ?thesis by blast
qed

lemma temp_not_prefix:
  assumes "sig_plain s" and "sig_plain s'" and "rp \<noteq> []"
  shows "temp_path rp s \<notin> set (path_prefixes (parent_path (temp_path rp s')))"
    and "temp_path rp s \<notin> set (path_prefixes (parent_path (resolve_path rp s')))"
proof -
  from temp_path_base [OF assms(3)] obtain b where b: "temp_path rp s = b @ ''temp/'' @ str_view s"
    "parent_path (temp_path rp s') = b @ ''temp''" "parent_path (resolve_path rp s') = b @ ''data/'' @ take 2 (str_view s')"
    using assms(1,2) by blast
  show "temp_path rp s \<notin> set (path_prefixes (parent_path (temp_path rp s')))"
    using path_prefixes_length [of "temp_path rp s" "parent_path (temp_path rp s')"] b by auto
  show "temp_path rp s \<notin> set (path_prefixes (parent_path (resolve_path rp s')))"
    using path_prefixes_prefix [of "temp_path rp s" "parent_path (resolve_path rp s')"] b by auto
qed

lemma other_store:
  assumes "repo_sound f D ra fs" and "apart ra rp" and "smap_ok (fs_nodes fs')" and "sig_plain s"
    and "\<And>p. \<not> data_path rp p \<Longrightarrow> p \<noteq> temp_path rp s \<Longrightarrow> smap_find p (fs_nodes fs') = smap_find p (fs_nodes fs)"
    and "fs_dirs fs' \<subseteq> set (path_prefixes (parent_path (temp_path rp s))) \<union> set (path_prefixes (parent_path (resolve_path rp s))) \<union> fs_dirs fs"
  shows "repo_sound f D ra fs' \<and> same_store ra fs fs'"
proof (rule same_store_put [OF assms(1,3)])
  fix p assume p: "data_path ra p"
  show "smap_find p (fs_nodes fs') = smap_find p (fs_nodes fs)"
    using apart_data(1,2) [OF assms(2) p] assms(4,5) by blast
  have "p \<notin> fs_dirs fs" using assms(1) p by (auto simp: store_inv_def data_path_def)
  then show "p \<notin> fs_dirs fs'" using apart_data(3,4) [OF assms(2) p assms(4)] assms(6) by blast
qed

lemma local_provider_new:
  assumes "file_at fs (resolve_path ra s) = Some (d, t)" and "sig_plain s" and "rp \<noteq> []" and "q = temp_path rp s"
    and "smap_find q (fs_nodes fs) = None" and "q \<notin> fs_dirs fs"
  shows "local_provider ra s q fs = (Some (Some (length d)), put_node q (Regular d (fs_now fs)) (create_dirs (parent_path q) fs))"
proof -
  let ?fs0 = "create_dirs (parent_path q) fs"
  have nq: "\<not> path_exists ?fs0 q" using assms(5,6) temp_not_prefix(1) [OF assms(2,2,3)] assms(4)
    by (simp add: path_exists_def file_at_def link_target_def) (simp add: create_dirs_def)
  have lq: "link_target ?fs0 q = q" using assms(5) by (simp add: link_target_def)
  show ?thesis
    using assms(1) nq lq by (simp add: local_provider_def repository_provider_def fetch_def path_exists_def [of fs] Let_def write_file_def)
      (simp add: create_dirs_def)
qed

lemma sync_fetch:
  assumes ap: "apart ra rp" and ok: "sync_ok f D ra rp fs" and s: "sig_plain s" and d: "stored_data ra fs s = Some d" and n: "\<not> contains rp s fs"
  shows "\<exists>fs1 fs2 fs3. local_provider ra s (temp_path rp s) fs = (Some (Some (length d)), fs1) \<and> \<not> contains rp s fs1
    \<and> (\<exists>t. file_at fs1 (temp_path rp s) = Some (d, t)) \<and> store_file rp s (temp_path rp s) fs1 = Inr (Some (resolve_path rp s), fs2)
    \<and> repo_sound f D rp fs2 \<and> stored_data rp fs2 s = Some d
    \<and> remove_path (temp_path rp s) fs2 = (None, fs3) \<and> sync_ok f D ra rp fs3 \<and> same_store ra fs fs3 \<and> grows rp fs fs3 \<and> stored_data rp fs3 s = Some d"
proof -
  let ?q = "temp_path rp s"
  have ne: "ra \<noteq> []" "rp \<noteq> []" using ap by (simp_all add: apart_def)
  have ra: "repo_sound f D ra fs" and rp: "repo_sound f D rp fs" and tf: "temps_fresh rp fs" and wr: "\<forall>p. fs_writable fs p"
    using ok by (simp_all add: sync_ok_def)
  note tp = temps_fresh_plain [OF tf] and sok = ra [unfolded store_inv_def, THEN conjunct1]
  let ?fs0 = "create_dirs (parent_path ?q) fs"
  let ?fs1 = "put_node ?q (Regular d (fs_now fs)) ?fs0"
  have q: "smap_find ?q (fs_nodes fs) = None" "?q \<notin> fs_dirs fs" "\<not> data_path rp ?q"
    using temps_freshD [OF tf s] temp_not_data [OF s ne(2)] by simp_all
  obtain t where t: "file_at fs (resolve_path ra s) = Some (d, t)" using d by (auto simp: stored_data_def)
  note 1 = local_provider_new [OF t s ne(2) refl q(1,2)]
  have n1: "smap_find p (fs_nodes ?fs1) = (if p = ?q then Some (Regular d (fs_now fs)) else smap_find p (fs_nodes fs))" for p
    using sok by simp
  have f1: "file_at ?fs1 ?q = Some (d, fs_now fs)" using n1 [of ?q] by (simp add: file_at_def link_target_def)
  from spares_store [OF rp local.writes_beside [OF ne(2) s sok tp 1]] have B1: "repo_sound f D rp ?fs1" "same_store rp fs ?fs1" "temps_plain rp ?fs1" by auto
  have n1c: "\<not> contains rp s ?fs1" using n contains_stored [OF rp s] contains_stored [OF B1(1) s] B1(2) s by (simp add: same_store_def)
  have "content_sig f d = s \<and> d \<in> D" using stored_sig [OF ra s d] .
  moreover have w1: "\<forall>p. fs_writable ?fs1 p" using wr by (simp add: put_node_def create_dirs_def)
  ultimately obtain fs2 where
    2: "store_file rp s ?q ?fs1 = Inr (Some (resolve_path rp s), fs2)" "repo_sound f D rp fs2" "keeps rp ?fs1 fs2" "stored_data rp fs2 s = Some d"
      "fs_dirs fs2 = set (path_prefixes (parent_path (resolve_path rp s))) \<union> fs_dirs ?fs1"
    using store_file_inv [OF B1(1) s ne(2) f1 n1c] by blast
  let ?fs3 = "remove_node ?q fs2"
  have "smap_find ?q (fs_nodes fs2) = smap_find ?q (fs_nodes ?fs1)" using 2(3) q(3) by (simp add: keeps_def)
  then have rm: "remove_path ?q fs2 = (None, ?fs3)" using n1 [of ?q] by (simp add: remove_path_def smap_has_def)
  have n3: "smap_find p (fs_nodes ?fs3) = (if p = ?q then None else smap_find p (fs_nodes fs2))" for p
    by (simp add: remove_node_def smap_find_erase)
  have tp2: "temps_plain rp fs2" unfolding temps_plain_def
  proof (intro allI impI)
    fix s' x assume s': "sig_plain s'"
    then have "smap_find (temp_path rp s' @ x) (fs_nodes fs2) = smap_find (temp_path rp s' @ x) (fs_nodes ?fs1)"
      using 2(3) temp_more_not_data [OF s' ne(2)] by (simp add: keeps_def)
    then show "link_target fs2 (temp_path rp s' @ x) = temp_path rp s' @ x" using B1(3) s' by (simp add: temps_plain_def link_target_def)
  qed
  from remove_path_store [OF 2(2) tp2 rm q(3)] have B3: "repo_sound f D rp ?fs3" "same_store rp fs2 ?fs3" by auto
  have dirs: "fs_dirs ?fs3 = set (path_prefixes (parent_path (resolve_path rp s))) \<union> set (path_prefixes (parent_path ?q)) \<union> fs_dirs fs"
    using 2(5) by (simp add: remove_node_def create_dirs_def Un_assoc)
  have out: "smap_find p (fs_nodes ?fs3) = smap_find p (fs_nodes fs)" if "\<not> data_path rp p" "p \<noteq> ?q" for p
    using that n3 n1 2(3) by (simp add: keeps_def)
  have "smap_ok (fs_nodes ?fs3)" using B3(1) by (simp add: store_inv_def)
  from other_store [OF ra ap this s] out dirs have A: "repo_sound f D ra ?fs3 \<and> same_store ra fs ?fs3" by blast
  have "temps_fresh rp ?fs3" unfolding temps_fresh_def
  proof (intro allI impI conjI)
    fix s' assume s': "sig_plain s'"
    show "smap_find (temp_path rp s' @ x) (fs_nodes ?fs3) = None" for x
      using out [OF temp_more_not_data [OF s' ne(2)]] n3 [of ?q] tf s' by (cases "temp_path rp s' @ x = ?q") (auto simp: temps_fresh_def)
    show "temp_path rp s' \<notin> fs_dirs ?fs3"
      using dirs temp_not_prefix [OF s' s ne(2)] tf s' by (simp add: temps_fresh_def)
  qed
  moreover have "\<forall>p. fs_writable ?fs3 p" using w1 2(3) by (simp add: keeps_def remove_node_def)
  ultimately have "sync_ok f D ra rp ?fs3" using A B3(1) by (simp add: sync_ok_def)
  moreover have "grows rp fs ?fs3"
    using grows_trans [OF same_grows [OF B1(2)] grows_trans [OF keeps_grows [OF 2(3)] same_grows [OF B3(2)]]] .
  moreover have "stored_data rp ?fs3 s = Some d" using B3(2) 2(4) s by (simp add: same_store_def)
  ultimately show ?thesis using 1 n1c f1 2 rm A by blast
qed

section \<open>Polling until the end\<close>

fun resolver_run :: "'h hasher \<Rightarrow> provider \<Rightarrow> nat \<Rightarrow> nat \<Rightarrow> 'h resolver \<Rightarrow> files \<Rightarrow> 'h polled" where
  "resolver_run H prov mx 0 r fs = (Inr (ongoing r []), r, fs)"
| "resolver_run H prov mx (Suc n) r fs = (case resolver_poll H prov mx r fs of
      (Inr res, r1, fs1) \<Rightarrow> if rr_status res = ONGOING then resolver_run H prov mx n r1 fs1 else (Inr res, r1, fs1)
    | (Inl e, r1, fs1) \<Rightarrow> (Inl e, r1, fs1))"

lemma sync_same:
  assumes "sync_ok f D ra rp fs" and "inj_on (content_sig f) D" and "sig_plain s" and "stored_data ra fs s = Some d" and "contains rp s fs"
  shows "stored_data rp fs s = Some d"
proof -
  have ok: "repo_sound f D ra fs" "repo_sound f D rp fs" using assms(1) by (simp_all add: sync_ok_def)
  obtain d' where d': "stored_data rp fs s = Some d'" using contains_stored [OF ok(2) assms(3)] assms(5) by auto
  have "d' = d" using stored_sig [OF ok(1) assms(3,4)] stored_sig [OF ok(2) assms(3) d'] inj_onD [OF assms(2)] by metis
  with d' show ?thesis by simp
qed

lemma sync_manifest:
  assumes "sync_ok f D ra rp fs" and "inj_on (content_sig f) D" and "sig_plain s" and "contains rp s fs" and "fetch_manifest ra s fs = Inr (Some (q, m))"
  shows "fetch_manifest rp s fs = Inr (Some (resolve_path rp s, m))"
proof -
  have ok: "repo_sound f D ra fs" "repo_sound f D rp fs" using assms(1) by (simp_all add: sync_ok_def)
  obtain d where d: "stored_data ra fs s = Some d" "parse_manifest d = Inr m"
    using assms(5) by (auto simp: fetch_manifest_data [OF ok(1) assms(3)] split: option.splits sum.splits)
  with sync_same [OF assms(1-3) d(1) assms(4)] show ?thesis by (simp add: fetch_manifest_data [OF ok(2) assms(3)])
qed

lemma ongoing_status [simp]: "rr_status (ongoing r es) = ONGOING"
  by (simp add: ongoing_def)

text \<open>The polls in which a file that has arrived is hashed: one without a limit of iterations, otherwise at most one more
  than it has chunks.\<close>

definition hash_polls :: "nat \<Rightarrow> string \<Rightarrow> nat" where
  "hash_polls mx d = (if mx = 0 then 1 else Suc (length d div chunk))"

text \<open>What one poll makes of an answered request: the file is stored, or there is less of it left to hash.\<close>

lemma process_sync:
  assumes H: "hasher_ok H f" and x: "context_for H d (start_context H p fs1)" and s: "content_sig f d = pf_expected p" "sig_valid (pf_expected p)"
    and "store_file rp (pf_expected p) (pf_temp p) fs1 = Inr (q, fs2)" and "remove_path (pf_temp p) fs2 = (None, fs3)"
  shows "(\<exists>e. process_answer H mx rp p (Some n) fs1 = Outcome (Inr ONGOING) None [e] fs3)
    \<or> (\<exists>x'. process_answer H mx rp p (Some n) fs1 = Outcome (Inr ONGOING) (Some (p\<lparr>pf_context := Some x'\<rparr>)) [] fs1 \<and> context_for H d x'
        \<and> length (sc_rest x') + chunk \<le> length (sc_rest (start_context H p fs1)) \<and> mx \<noteq> 0)"
  using continue_signature_steps [OF H x, of mx 0]
proof (elim disjE exE conjE)
  fix x' assume "continue_signature H mx 0 (start_context H p fs1) = (Inr (Some (content_sig f d, word_of_nat (length d))), x')"
  then have "\<exists>e. process_answer H mx rp p (Some n) fs1 = Outcome (Inr ONGOING) None [e] fs3"
    using s assms(5,6) by (simp add: process_answer_def sig_eq_def)
  then show ?thesis by blast
next
  fix x' assume "continue_signature H mx 0 (start_context H p fs1) = (Inr None, x')" "context_for H d x'"
    "length (sc_rest x') + chunk \<le> length (sc_rest (start_context H p fs1))" "mx \<noteq> 0"
  then show ?thesis by (intro disjI2 exI [of _ x']) (simp add: process_answer_def)
qed

lemma pending_one:
  assumes "rs_pending r = []" and "take_answer p = p1" and "pf_result p1 = Some ans"
    and "process_answer H mx (rs_repo r) p1 ans fs1 = Outcome (Inr ONGOING) kept new fs3"
  shows "\<exists>res. catch_errors (poll_pending H mx [] (r\<lparr>rs_pending := [p]\<rparr>) fs1)
      = (Inr res, r\<lparr>rs_pending := (case kept of None \<Rightarrow> [] | Some p2 \<Rightarrow> [p2])\<rparr>, fs3) \<and> rr_status res = ONGOING"
  using assms by (auto simp: poll_pending_def catch_errors_def Let_def split: option.splits)

lemma hash_run:
  assumes H: "hasher_ok H f" and r: "rs_pending r = []"
    and again: "\<And>p. resolver_poll H prov mx (r\<lparr>rs_pending := [p]\<rparr>) fs1 = catch_errors (poll_pending H mx [] (r\<lparr>rs_pending := [p]\<rparr>) fs1)"
    and s: "content_sig f d = s" "sig_valid s"
    and st: "store_file (rs_repo r) s q fs1 = Inr (q', fs2)" "remove_path q fs2 = (None, fs3)"
  shows "resolver_poll H prov mx r0 fs0 = catch_errors (poll_pending H mx [] (r\<lparr>rs_pending := [p]\<rparr>) fs1) \<Longrightarrow>
    take_answer p = p1 \<Longrightarrow> pf_result p1 = Some (Some n) \<Longrightarrow> pf_future p1 = None \<Longrightarrow> pf_expected p1 = s \<Longrightarrow> pf_temp p1 = q \<Longrightarrow>
    context_for H d (start_context H p1 fs1) \<Longrightarrow> mx = 0 \<or> length (sc_rest (start_context H p1 fs1)) < Suc k * chunk \<Longrightarrow>
    \<exists>j \<le> Suc k. \<forall>m. resolver_run H prov mx (j + m) r0 fs0 = resolver_run H prov mx m r fs3"
proof (induction k arbitrary: p p1 r0 fs0)
  have rr: "r\<lparr>rs_pending := []\<rparr> = r" using r by (cases r) simp
  case (0 p p1 r0 fs0)
  from process_sync [OF H 0(7), of "rs_repo r" q' fs2 fs3 mx n] 0 s st obtain e where
    "process_answer H mx (rs_repo r) p1 (Some n) fs1 = Outcome (Inr ONGOING) None [e] fs3" by auto
  from pending_one [OF r 0(2,3) this] rr obtain res where "resolver_poll H prov mx r0 fs0 = (Inr res, r, fs3)" "rr_status res = ONGOING"
    using 0(1) by auto
  then show ?case by (intro exI [of _ 1]) simp
next
  have rr: "r\<lparr>rs_pending := []\<rparr> = r" using r by (cases r) simp
  case (Suc k p p1 r0 fs0)
  from process_sync [OF H Suc.prems(7), of "rs_repo r" q' fs2 fs3 mx n] Suc.prems(5,6) s st
  have "(\<exists>e. process_answer H mx (rs_repo r) p1 (Some n) fs1 = Outcome (Inr ONGOING) None [e] fs3)
    \<or> (\<exists>x'. process_answer H mx (rs_repo r) p1 (Some n) fs1 = Outcome (Inr ONGOING) (Some (p1\<lparr>pf_context := Some x'\<rparr>)) [] fs1
        \<and> context_for H d x' \<and> length (sc_rest x') + chunk \<le> length (sc_rest (start_context H p1 fs1)) \<and> mx \<noteq> 0)" by simp
  then show ?case
  proof (elim disjE exE conjE)
    fix e assume "process_answer H mx (rs_repo r) p1 (Some n) fs1 = Outcome (Inr ONGOING) None [e] fs3"
    from pending_one [OF r Suc.prems(2,3) this] rr obtain res where
      "resolver_poll H prov mx r0 fs0 = (Inr res, r, fs3)" "rr_status res = ONGOING" using Suc.prems(1) by auto
    then show ?thesis by (intro exI [of _ 1]) simp
  next
    fix x' assume o: "process_answer H mx (rs_repo r) p1 (Some n) fs1 = Outcome (Inr ONGOING) (Some (p1\<lparr>pf_context := Some x'\<rparr>)) [] fs1"
      and x': "context_for H d x'" "length (sc_rest x') + chunk \<le> length (sc_rest (start_context H p1 fs1))" "mx \<noteq> 0"
    let ?p = "p1\<lparr>pf_context := Some x'\<rparr>"
    from pending_one [OF r Suc.prems(2,3) o] obtain res where
      1: "resolver_poll H prov mx r0 fs0 = (Inr res, r\<lparr>rs_pending := [?p]\<rparr>, fs1)" "rr_status res = ONGOING" using Suc.prems(1) by auto
    have sc: "start_context H ?p fs1 = x'" by (simp add: start_context_def)
    have tk: "take_answer ?p = ?p" using Suc.prems(4) by (simp add: take_answer_def)
    have "\<exists>j \<le> Suc k. \<forall>m. resolver_run H prov mx (j + m) (r\<lparr>rs_pending := [?p]\<rparr>) fs1 = resolver_run H prov mx m r fs3"
      by (rule Suc.IH [OF again tk]) (use Suc.prems x' sc in auto)
    then obtain j where "j \<le> Suc k" "\<forall>m. resolver_run H prov mx (j + m) (r\<lparr>rs_pending := [?p]\<rparr>) fs1 = resolver_run H prov mx m r fs3" by blast
    with 1 show ?thesis by (intro exI [of _ "Suc j"]) simp
  qed
qed

abbreviation sync_state :: "string \<Rightarrow> signature \<Rightarrow> manifest \<Rightarrow> (manifest \<times> nat) list \<Rightarrow> 'h resolver" where
  "sync_state rp root m st \<equiv> \<lparr>rs_repo = rp, rs_root = root, rs_iter = \<lparr>it_repo = Some rp, it_stack = st, it_recurse = True\<rparr>,
     rs_pending = [], rs_manifest = Some m\<rparr>"

text \<open>A request for a missing file is answered at once; then it is hashed, verified and stored.\<close>

lemma sync_request:
  fixes H :: "'h hasher"
  assumes H: "hasher_ok H f" and ap: "apart ra rp" and ok: "sync_ok f D ra rp fs" and s: "sig_plain (fe_sig (snd x))" "sig_valid (fe_sig (snd x))"
    and d: "stored_data ra fs (fe_sig (snd x)) = Some d" and n: "\<not> contains rp (fe_sig (snd x)) fs" and st: "st \<noteq> []"
    and it: "iter_deref \<lparr>it_repo = Some rp, it_stack = st, it_recurse = True\<rparr> = Inr x"
      "iter_active \<lparr>it_repo = Some rp, it_stack = st, it_recurse = True\<rparr> = fe_sig (snd x)"
  shows "\<exists>j fs'. j \<le> hash_polls mx d
    \<and> (\<forall>m. resolver_run H (local_provider ra) mx (j + m) (sync_state rp root mf st) fs = resolver_run H (local_provider ra) mx m (sync_state rp root mf st) fs')
    \<and> sync_ok f D ra rp fs' \<and> same_store ra fs fs' \<and> grows rp fs fs' \<and> stored_data rp fs' (fe_sig (snd x)) = Some d"
proof -
  let ?s = "fe_sig (snd x)" and ?r = "sync_state rp root mf st :: 'h resolver" and ?i = "\<lparr>it_repo = Some rp, it_stack = st, it_recurse = True\<rparr>"
  from sync_fetch [OF ap ok s(1) d n] obtain fs1 fs2 fs3 t where
    1: "local_provider ra ?s (temp_path rp ?s) fs = (Some (Some (length d)), fs1)" "\<not> contains rp ?s fs1" "file_at fs1 (temp_path rp ?s) = Some (d, t)"
      "store_file rp ?s (temp_path rp ?s) fs1 = Inr (Some (resolve_path rp ?s), fs2)"
      "remove_path (temp_path rp ?s) fs2 = (None, fs3)" "sync_ok f D ra rp fs3" "same_store ra fs fs3" "grows rp fs fs3" "stored_data rp fs3 ?s = Some d"
    by blast
  have "repo_sound f D ra fs" using ok by (simp add: sync_ok_def)
  then have c: "content_sig f d = ?s" using stored_sig [OF _ s(1) d] by blast
  obtain path e where x: "x = (path, e)" by (cases x)
  let ?p = "\<lparr>pf_expected = ?s, pf_temp = temp_path rp ?s, pf_path = path, pf_future = Some (Some (length d)), pf_result = None, pf_context = None\<rparr>
      :: 'h pending_fetch"
  have nb: "\<not> iter_bool fs ?i" "\<not> iter_bool fs1 ?i" using it(2) n 1(2) by (simp_all add: iter_bool_def)
  have again: "resolver_poll H (local_provider ra) mx (?r\<lparr>rs_pending := [p]\<rparr>) fs1 = catch_errors (poll_pending H mx [] (?r\<lparr>rs_pending := [p]\<rparr>) fs1)" for p
    using nb(2) st by (simp add: resolver_poll_def poll_entry_def iter_eq_end)
  have first: "resolver_poll H (local_provider ra) mx ?r fs = catch_errors (poll_pending H mx [] (?r\<lparr>rs_pending := [?p]\<rparr>) fs1)"
    using 1(1) nb(1) st it(1) x by (simp add: resolver_poll_def poll_entry_def iter_eq_end request_def)
  have cx: "start_context H (take_answer ?p) fs1 = context_of H (Some d)" using 1(3) by (simp add: take_answer_def start_context_def)
  have cf: "context_for H d (context_of H (Some d))"
    unfolding context_for_def by (intro exI [of _ "[]"]) (simp add: context_of_def)
  let ?k = "hash_polls mx d - 1"
  have k: "mx = 0 \<or> length (sc_rest (context_of H (Some d))) < Suc ?k * chunk"
    using dividend_less_div_times [of chunk "length d"] by (simp add: hash_polls_def context_of_def)
  have rp: "rs_repo ?r = rp" by simp
  have "\<exists>j \<le> Suc ?k. \<forall>m. resolver_run H (local_provider ra) mx (j + m) ?r fs = resolver_run H (local_provider ra) mx m ?r fs3"
  proof (rule hash_run [where r = ?r and s = ?s and q = "temp_path rp ?s" and d = d and ?fs1.0 = fs1 and p = ?p
        and ?p1.0 = "take_answer ?p" and n = "length d"])
    show "hasher_ok H f" by (rule H)
    show "rs_pending ?r = []" by simp
    show "resolver_poll H (local_provider ra) mx (?r\<lparr>rs_pending := [p]\<rparr>) fs1 = catch_errors (poll_pending H mx [] (?r\<lparr>rs_pending := [p]\<rparr>) fs1)" for p
      by (rule again)
    show "content_sig f d = ?s" "sig_valid ?s" by (rule c, rule s)
    show "store_file (rs_repo ?r) ?s (temp_path rp ?s) fs1 = Inr (Some (resolve_path rp ?s), fs2)" unfolding rp by (rule 1(4))
    show "remove_path (temp_path rp ?s) fs2 = (None, fs3)" by (rule 1(5))
    show "resolver_poll H (local_provider ra) mx ?r fs = catch_errors (poll_pending H mx [] (?r\<lparr>rs_pending := [?p]\<rparr>) fs1)" by (rule first)
    show "take_answer ?p = take_answer ?p" by (rule refl)
    show "pf_result (take_answer ?p) = Some (Some (length d))" "pf_future (take_answer ?p) = None" "pf_expected (take_answer ?p) = ?s"
      "pf_temp (take_answer ?p) = temp_path rp ?s" by (simp_all add: take_answer_def)
    show "context_for H d (start_context H (take_answer ?p) fs1)" unfolding cx by (rule cf)
    show "mx = 0 \<or> length (sc_rest (start_context H (take_answer ?p) fs1)) < Suc ?k * chunk" unfolding cx by (rule k)
  qed
  then obtain j where j: "j \<le> Suc ?k" "\<forall>m. resolver_run H (local_provider ra) mx (j + m) ?r fs = resolver_run H (local_provider ra) mx m ?r fs3"
    by blast
  have "Suc ?k = hash_polls mx d" by (simp add: hash_polls_def)
  with j 1(6-9) show ?thesis by (intro exI [of _ j] exI [of _ fs3]) simp
qed

lemma sync_advance:
  fixes H :: "'h hasher"
  assumes ok: "sync_ok f D ra rp fs" and inj: "inj_on (content_sig f) D" and td: "todo ra fs st (x # w)" and us: "usable ra fs x"
    and there: "contains rp (fe_sig (snd x)) fs"
  shows "\<exists>st' res. resolver_poll H prov mx (sync_state rp root m st) fs = (Inr res, sync_state rp root m st', fs) \<and> rr_status res = ONGOING \<and> todo ra fs st' w"
proof -
  let ?ia = "\<lparr>it_repo = Some ra, it_stack = st, it_recurse = True\<rparr>" and ?ip = "\<lparr>it_repo = Some rp, it_stack = st, it_recurse = True\<rparr>"
  have st: "st \<noteq> []" using td by (auto elim: todo.cases)
  have pl: "sig_plain (fe_sig (snd x))" "sig_valid (fe_sig (snd x))" using us by (simp_all add: usable_def)
  have "present ra fs x" using us contains_stored [of _ ra fs] ok by (auto simp: usable_def present_def sync_ok_def)
  with todo_step [OF td st refl] obtain st' where
    1: "iter_deref ?ia = Inr x" "iter_active ?ia = fe_sig (snd x)" "iter_step fs ?ia = Inr (?ia\<lparr>it_stack := st'\<rparr>)" "todo ra fs st' w" by auto
  obtain mm k st0 where f: "st = (mm, k) # st0" using st by (cases st) auto
  have k: "in_range (mm, k)" using 1(3) f by (auto simp: iter_step_def split: if_splits)
  then have e: "fe_sig (mf_entries mm ! k) = fe_sig (snd x)" using 1(2) f by (auto simp: iter_active_def in_range_def split: if_splits)
  have dr: "iter_deref ?ip = Inr x" using 1(1) f by (simp add: iter_deref_def)
  have ac: "iter_active ?ip = fe_sig (snd x)" using 1(2) by (simp add: iter_active_def)
  have b: "iter_bool fs ?ip" using ac st pl(2) there by (simp add: iter_bool_def)
  have step: "iter_step fs ?ip = Inr (?ip\<lparr>it_stack := st'\<rparr>)"
  proof (cases "fe_type (mf_entries mm ! k)")
    case FILE
    then show ?thesis using 1(3) f k by (auto simp: iter_step_def)
  next
    case DIRECTORY
    have ca: "contains ra (fe_sig (snd x)) fs" using \<open>present ra fs x\<close> by (simp add: present_def)
    have "fetch_manifest ra (fe_sig (snd x)) fs \<noteq> Inr None"
      using ca by (auto simp: fetch_manifest_def fetch_def contains_def Let_def split: sum.splits)
    with 1(3) f k DIRECTORY e obtain q m' where q: "fetch_manifest ra (fe_sig (snd x)) fs = Inr (Some (q, m'))"
      "st' = (if mf_entries m' \<noteq> [] then (m', 0) # st else iter_pop st)"
      by (auto simp: iter_step_def Let_def split: sum.splits option.splits)
    with sync_manifest [OF ok inj pl(1) there q(1)] f k DIRECTORY e show ?thesis by (simp add: iter_step_def Let_def)
  qed
  let ?r = "sync_state rp root m st :: 'h resolver" and ?r' = "sync_state rp root m st' :: 'h resolver"
  obtain p en where x: "x = (p, en)" by (cases x)
  have "resolver_poll H prov mx ?r fs = (Inr (ongoing ?r' []), ?r', fs)"
    using b st dr step x by (simp add: resolver_poll_def poll_entry_def iter_eq_end poll_pending_def catch_errors_def Let_def)
  with 1(4) show ?thesis using ongoing_status by blast
qed

text \<open>The polls for the entries of a tree: one for each that passes it, and those that hash it.\<close>

definition sync_polls :: "nat \<Rightarrow> string \<Rightarrow> files \<Rightarrow> (string \<times> file_entry) list \<Rightarrow> nat" where
  "sync_polls mx ra fs w = sum_list (map (\<lambda>x. 1 + hash_polls mx (the (stored_data ra fs (fe_sig (snd x))))) w)"

lemma sync_polls_Cons [simp]:
  "sync_polls mx ra fs (x # w) = 1 + hash_polls mx (the (stored_data ra fs (fe_sig (snd x)))) + sync_polls mx ra fs w"
  by (simp add: sync_polls_def)

lemma sync_polls_same:
  "same_store ra fs fs' \<Longrightarrow> list_all (\<lambda>y. sig_plain (fe_sig (snd y))) w \<Longrightarrow> sync_polls mx ra fs' w = sync_polls mx ra fs w"
  unfolding sync_polls_def by (rule arg_cong [where f = sum_list], rule map_cong) (auto simp: same_store_def list_all_iff)

lemma sync_run:
  fixes H :: "'h hasher"
  assumes H: "hasher_ok H f" and ap: "apart ra rp" and inj: "inj_on (content_sig f) D" and "sync_ok f D ra rp fs" and "todo ra fs st w"
    and "list_all (usable ra fs) w"
  shows "\<exists>n r' fs'. n \<le> sync_polls mx ra fs w + 1
    \<and> resolver_run H (local_provider ra) mx n (sync_state rp root m st) fs = (Inr \<lparr>rr_status = COMPLETED, rr_pending = 0, rr_completed = []\<rparr>, r', fs')
    \<and> sync_ok f D ra rp fs' \<and> grows rp fs fs' \<and> (\<forall>x \<in> set w. stored_data rp fs' (fe_sig (snd x)) = stored_data ra fs (fe_sig (snd x)))"
  using assms(4-)
proof (induction w arbitrary: st fs rule: list.induct)
  case Nil
  then have "st = []" using todo_Nil_stack by blast
  then have "resolver_run H (local_provider ra) mx 1 (sync_state rp root m st) fs
      = (Inr \<lparr>rr_status = COMPLETED, rr_pending = 0, rr_completed = []\<rparr>, sync_state rp root m st, fs)"
    by (simp add: resolver_poll_def poll_entry_def iter_eq_end catch_errors_def)
  with Nil.prems(1) show ?case by (intro exI [of _ 1]) auto
next
  case (Cons x w)
  note prov = local_provider_def
  have us: "usable ra fs x" and usw: "list_all (usable ra fs) w" using Cons.prems(3) by simp_all
  then obtain d where d: "stored_data ra fs (fe_sig (snd x)) = Some d" and s: "sig_plain (fe_sig (snd x))" "sig_valid (fe_sig (snd x))"
    by (auto simp: usable_def)
  \<comment> \<open>once the entry is there, one poll passes it\<close>
  have pass: "\<exists>n r' fs'. n \<le> sync_polls mx ra fs w + 2
      \<and> resolver_run H (local_provider ra) mx n (sync_state rp root m st) fs1 = (Inr \<lparr>rr_status = COMPLETED, rr_pending = 0, rr_completed = []\<rparr>, r', fs')
      \<and> sync_ok f D ra rp fs' \<and> grows rp fs1 fs' \<and> (\<forall>x \<in> set (x # w). stored_data rp fs' (fe_sig (snd x)) = stored_data ra fs (fe_sig (snd x)))"
    if ok1: "sync_ok f D ra rp fs1" and same: "same_store ra fs fs1" and there: "contains rp (fe_sig (snd x)) fs1" for fs1
  proof -
    have pl: "list_all (\<lambda>y. sig_plain (fe_sig (snd y))) (x # w)" using Cons.prems(3) by (auto simp: list_all_iff usable_def)
    have td: "todo ra fs1 st (x # w)" by (rule todo_same [OF same Cons.prems(2) pl])
    from sync_advance [OF ok1 inj td usable_same [OF us same] there, where H = H and prov = "local_provider ra" and mx = mx and root = root and m = m] obtain st' res where
      1: "resolver_poll H (local_provider ra) mx (sync_state rp root m st) fs1 = (Inr res, sync_state rp root m st', fs1)" "rr_status res = ONGOING"
        "todo ra fs1 st' w" by blast
    have "list_all (usable ra fs1) w" using usw usable_same [OF _ same] by (auto simp: list_all_iff)
    from Cons.IH [OF ok1 1(3) this] obtain n r' fs' where
      2: "n \<le> sync_polls mx ra fs1 w + 1" "resolver_run H (local_provider ra) mx n (sync_state rp root m st') fs1 = (Inr \<lparr>rr_status = COMPLETED, rr_pending = 0, rr_completed = []\<rparr>, r', fs')"
        "sync_ok f D ra rp fs'" "grows rp fs1 fs'" "\<forall>x \<in> set w. stored_data rp fs' (fe_sig (snd x)) = stored_data ra fs1 (fe_sig (snd x))" by blast
    have "stored_data ra fs1 (fe_sig (snd x)) = Some d" using same s(1) d by (simp add: same_store_def)
    from sync_same [OF ok1 inj s(1) this there] 2(4) s(1) d have "stored_data rp fs' (fe_sig (snd x)) = stored_data ra fs (fe_sig (snd x))"
      by (simp add: grows_def)
    moreover have "\<forall>y \<in> set w. stored_data rp fs' (fe_sig (snd y)) = stored_data ra fs (fe_sig (snd y))"
      using 2(5) same pl by (auto simp: same_store_def list_all_iff)
    moreover have "sync_polls mx ra fs1 w = sync_polls mx ra fs w" using pl by (intro sync_polls_same [OF same]) simp
    ultimately show ?thesis using 1 2 by (intro exI [of _ "Suc n"] exI [of _ r'] exI [of _ fs']) simp
  qed
  show ?case
  proof (cases "contains rp (fe_sig (snd x)) fs")
    case True
    from pass [OF Cons.prems(1) same_store_refl True] obtain n r' fs' where
      2: "n \<le> sync_polls mx ra fs w + 2"
        "resolver_run H (local_provider ra) mx n (sync_state rp root m st) fs = (Inr \<lparr>rr_status = COMPLETED, rr_pending = 0, rr_completed = []\<rparr>, r', fs')"
        "sync_ok f D ra rp fs'" "grows rp fs fs'" "\<forall>x \<in> set (x # w). stored_data rp fs' (fe_sig (snd x)) = stored_data ra fs (fe_sig (snd x))" by blast
    moreover have "sync_polls mx ra fs w + 2 \<le> sync_polls mx ra fs (x # w) + 1" by (simp add: hash_polls_def)
    ultimately show ?thesis by (intro exI [of _ n] exI [of _ r'] exI [of _ fs']) simp
  next
    case False
    let ?r = "sync_state rp root m st :: 'h resolver" and ?i = "\<lparr>it_repo = Some rp, it_stack = st, it_recurse = True\<rparr>"
    have st: "st \<noteq> []" using Cons.prems(2) by (auto elim: todo.cases)
    from todo_step [OF Cons.prems(2) st refl] have dr: "iter_deref ?i = Inr x" "iter_active ?i = fe_sig (snd x)"
      using st by (auto simp: iter_deref_def iter_active_def split: list.splits)
    from sync_request [OF H ap Cons.prems(1) s d False st dr, where mx = mx and root = root and mf = m] obtain j fs2 where
      1: "j \<le> hash_polls mx d" "\<forall>n. resolver_run H (local_provider ra) mx (j + n) ?r fs = resolver_run H (local_provider ra) mx n ?r fs2"
        "sync_ok f D ra rp fs2" "same_store ra fs fs2" "grows rp fs fs2" "stored_data rp fs2 (fe_sig (snd x)) = Some d" by blast
    have "contains rp (fe_sig (snd x)) fs2" using 1(3,6) contains_stored [OF _ s(1)] by (auto simp: sync_ok_def)
    from pass [OF 1(3,4) this] obtain n r' fs' where
      2: "n \<le> sync_polls mx ra fs w + 2" "resolver_run H (local_provider ra) mx n ?r fs2 = (Inr \<lparr>rr_status = COMPLETED, rr_pending = 0, rr_completed = []\<rparr>, r', fs')"
        "sync_ok f D ra rp fs'" "grows rp fs2 fs'" "\<forall>x \<in> set (x # w). stored_data rp fs' (fe_sig (snd x)) = stored_data ra fs (fe_sig (snd x))" by blast
    have "resolver_run H (local_provider ra) mx (j + n) ?r fs = (Inr \<lparr>rr_status = COMPLETED, rr_pending = 0, rr_completed = []\<rparr>, r', fs')"
      using 1(2) 2(2) by simp
    moreover have "j + n \<le> sync_polls mx ra fs (x # w) + 1" using 1(1) 2(1) d by simp
    ultimately show ?thesis using 2(3,5) grows_trans [OF 1(5) 2(4)] by blast
  qed
qed

section \<open>What synchronising guarantees\<close>

lemma held_copy:
  "held ra fs t \<Longrightarrow> \<forall>x \<in> set (walk_tree p t). stored_data rp fs' (fe_sig (snd x)) = stored_data ra fs (fe_sig (snd x)) \<Longrightarrow> held rp fs' t"
proof (induction t arbitrary: p)
  case (Branch e ts)
  then show ?case by (fastforce simp: list_all_iff)
qed simp

lemma sync_root:
  assumes H: "hasher_ok H f" and ap: "apart ra rp" and inj: "inj_on (content_sig f) D" and ok: "sync_ok f D ra rp fs"
    and s: "sig_plain root" "sig_valid root" and d: "stored_data ra fs root = Some (manifest_text m)" and m: "manifest_ok m"
    and r: "r = \<lparr>rs_repo = rp, rs_root = root, rs_iter = iter_end, rs_pending = [], rs_manifest = None\<rparr>"
  shows "\<exists>res fs'. resolver_poll H (local_provider ra) mx r fs = (Inr res, sync_state rp root m [(m, 0)], fs') \<and> rr_status res = ONGOING
    \<and> sync_ok f D ra rp fs' \<and> same_store ra fs fs' \<and> stored_data rp fs' root = Some (manifest_text m)"
proof -
  have fm: "fetch_manifest rp root fs1 = Inr (Some (resolve_path rp root, m))"
    if "repo_sound f D rp fs1" "stored_data rp fs1 root = Some (manifest_text m)" for fs1
    using fetch_manifest_stored [OF that(2) m] .
  show ?thesis
  proof (cases "contains rp root fs")
    case True
    have sd: "stored_data rp fs root = Some (manifest_text m)" by (rule sync_same [OF ok inj s(1) d True])
    have "repo_sound f D rp fs" using ok by (simp add: sync_ok_def)
    from fm [OF this sd] True r ok sd show ?thesis
      by (simp add: resolver_poll_def poll_root_def load_root_def catch_errors_def Let_def ongoing_def iter_new_def)
  next
    case False
    from sync_fetch [OF ap ok s(1) d False] obtain fs1 fs2 fs3 t where
      1: "local_provider ra root (temp_path rp root) fs = (Some (Some (length (manifest_text m))), fs1)"
        "store_file rp root (temp_path rp root) fs1 = Inr (Some (resolve_path rp root), fs2)" "repo_sound f D rp fs2"
        "stored_data rp fs2 root = Some (manifest_text m)" "remove_path (temp_path rp root) fs2 = (None, fs3)"
        "sync_ok f D ra rp fs3" "same_store ra fs fs3" "stored_data rp fs3 root = Some (manifest_text m)" by blast
    from fm [OF 1(3,4)] 1(1,2,5-8) False r show ?thesis
      by (simp add: resolver_poll_def poll_root_def poll_root_future_def request_def load_root_def catch_errors_def Let_def
          ongoing_def iter_new_def)
  qed
qed

text \<open>
  C8: resolving a root whose manifest has entries from another repository that holds its whole tree ends, with any
  limit of iterations - if in both repositories every file has content with the signature that it is named by, no
  two contents have the same signature, neither repository is inside of the other, files can be written, and no file of
  an earlier run is left in the temporary directory: after two polls, and for each entry one that passes it and those
  that hash it (one without a limit, with a limit at most one more than its content has chunks). Then an iterator over the root manifest
  in the own repository visits the same tree, with everything there.
\<close>

theorem resolver_syncs:
  assumes "hasher_ok H f" and "inj_on (content_sig f) D" and "apart ra rp" and "sync_ok f D ra rp fs"
    and "list_all (held ra fs) ts" and "ts \<noteq> []" and "sig_plain root" and "manifest_ok (dir_manifest ts)"
    and "stored_data ra fs root = Some (manifest_text (dir_manifest ts))" and "resolver_new rp root = Inr r"
  shows "\<exists>n res r' fs'. n \<le> sync_polls mx ra fs (walk_trees [] ts) + 2 \<and> resolver_run H (local_provider ra) mx n r fs = (Inr res, r', fs')
    \<and> rr_status res = COMPLETED \<and> fetch_manifest rp root fs' = Inr (Some (resolve_path rp root, dir_manifest ts))
    \<and> walk_loop fs' (iter_new rp (dir_manifest ts) True) [] = Some (Inr (walk_trees [] ts))"
proof -
  let ?m = "dir_manifest ts" and ?w = "walk_trees [] ts"
  have r: "sig_valid root" "r = \<lparr>rs_repo = rp, rs_root = root, rs_iter = iter_end, rs_pending = [], rs_manifest = None\<rparr>"
    using assms(10) by (auto simp: resolver_new_def split: if_splits)
  from sync_root [OF assms(1,3,2,4,7) r(1) assms(9,8) r(2), of mx] obtain res1 fs1 where
    1: "resolver_poll H (local_provider ra) mx r fs = (Inr res1, sync_state rp root ?m [(?m, 0)], fs1)" "rr_status res1 = ONGOING"
      "sync_ok f D ra rp fs1" "same_store ra fs fs1" "stored_data rp fs1 root = Some (manifest_text ?m)" by blast
  have h1: "list_all (held ra fs1) ts"
  proof -
    have "held ra fs1 t" if "held ra fs t" for t
    proof (rule held_copy [OF that, of "[]"])
      have "list_all (usable ra fs) (walk_tree [] t)" using held_usable [OF that] .
      then show "\<forall>x \<in> set (walk_tree [] t). stored_data ra fs1 (fe_sig (snd x)) = stored_data ra fs (fe_sig (snd x))"
        using 1(4) by (auto simp: list_all_iff usable_def same_store_def)
    qed
    then show ?thesis using assms(5) by (simp add: list_all_iff)
  qed
  have "stored ra fs1 (drop 0 (mf_entries ?m)) ts" using held_stored [OF h1] by (simp add: dir_manifest_def)
  then have "todo ra fs1 [(?m, 0)] (walk_trees (stack_path []) ts @ [])"
    using assms(6) by (intro todo_Cons pending_Nil) (simp_all add: in_range_def dir_manifest_def)
  then have td: "todo ra fs1 [(?m, 0)] ?w" by simp
  have us: "list_all (usable ra fs1) ?w" using h1 held_usable by (auto simp: walk_trees_def list_all_iff)
  from sync_run [OF assms(1,3,2) 1(3) td us, of mx root ?m] obtain n r' fs' where
    2: "n \<le> sync_polls mx ra fs1 ?w + 1"
      "resolver_run H (local_provider ra) mx n (sync_state rp root ?m [(?m, 0)]) fs1 = (Inr \<lparr>rr_status = COMPLETED, rr_pending = 0, rr_completed = []\<rparr>, r', fs')"
      "sync_ok f D ra rp fs'" "grows rp fs1 fs'" "\<forall>x \<in> set ?w. stored_data rp fs' (fe_sig (snd x)) = stored_data ra fs1 (fe_sig (snd x))" by blast
  have run: "resolver_run H (local_provider ra) mx (Suc n) r fs = (Inr \<lparr>rr_status = COMPLETED, rr_pending = 0, rr_completed = []\<rparr>, r', fs')"
    using 1(1,2) 2(2) by simp
  have "list_all (usable ra fs) ?w" using assms(5) held_usable by (auto simp: walk_trees_def list_all_iff)
  then have "list_all (\<lambda>y. sig_plain (fe_sig (snd y))) ?w" by (auto simp: list_all_iff usable_def)
  from sync_polls_same [OF 1(4) this, of mx] 2(1) have b: "Suc n \<le> sync_polls mx ra fs ?w + 2" by simp
  have so: "repo_sound f D rp fs'" using 2(3) by (simp add: sync_ok_def)
  have "held rp fs' t" if "t \<in> set ts" for t
  proof (rule held_copy [of ra fs1 t "[]"])
    show "held ra fs1 t" using h1 that by (simp add: list_all_iff)
    show "\<forall>x \<in> set (walk_tree [] t). stored_data rp fs' (fe_sig (snd x)) = stored_data ra fs1 (fe_sig (snd x))"
      using 2(5) that by (auto simp: walk_trees_def)
  qed
  then have h: "list_all (held rp fs') ts" by (simp add: list_all_iff)
  have "stored_data rp fs' root = Some (manifest_text ?m)" using 2(4) 1(5) assms(7) by (simp add: grows_def)
  from fetch_manifest_stored [OF this assms(8)] held_walk [OF so h] run b show ?thesis
    by (intro exI [of _ "Suc n"]) auto
qed

text \<open>
  The root is not verified: if the provider answers the request for it at once with any content that reads as a
  manifest, the first poll stores that content under the signature of the root and goes on with it.
\<close>

theorem root_not_verified:
  assumes "answering rp prov" and "rp \<noteq> []" and "sig_plain root" and "store_ok f root rp fs" and "resolver_new rp root = Inr r"
    and "\<not> contains rp root fs" and "prov root (temp_path rp root) fs = (Some (Some n), fs1)"
    and "file_at fs1 (temp_path rp root) = Some (d, t)" and "parse_manifest d = Inr m" and "fs_writable fs1 (resolve_path rp root)"
  shows "\<exists>res r' fs'. resolver_poll H prov mx r fs = (Inr res, r', fs') \<and> rr_status res = ONGOING \<and> rs_manifest r' = Some m
    \<and> stored_data rp fs' root = Some d"
proof -
  let ?q = "temp_path rp root"
  have r: "r = \<lparr>rs_repo = rp, rs_root = root, rs_iter = iter_end, rs_pending = [], rs_manifest = None\<rparr>"
    using assms(5) by (auto simp: resolver_new_def split: if_splits)
  have st: "store_inv (verified f root) rp fs" "temps_plain rp fs" using assms(4) by (simp_all add: store_ok_def)
  have nd: "\<not> data_path rp ?q" by (rule temp_not_data [OF assms(3,2)])
  have "smap_ok (fs_nodes fs)" using st by (simp add: store_inv_def)
  from spares_store [OF st(1) answering.writes_beside [OF assms(1-3) this st(2) assms(7)]] have 1: "store_inv (verified f root) rp fs1" "same_store rp fs fs1" "temps_plain rp fs1" by auto
  have nc: "\<not> contains rp root fs1" using assms(3,6) contains_stored [OF st(1)] contains_stored [OF 1(1)] 1(2) by (simp add: same_store_def)
  have "verified f root root d" by (simp add: verified_def)
  from store_file_inv [OF 1(1) assms(3,2,8) nc this assms(10)] obtain fs2 where
    2: "store_file rp root ?q fs1 = Inr (Some (resolve_path rp root), fs2)" "store_inv (verified f root) rp fs2" "keeps rp fs1 fs2"
      "stored_data rp fs2 root = Some d" by blast
  have fm: "fetch_manifest rp root fs2 = Inr (Some (resolve_path rp root, m))"
    using 2(4) assms(9) by (simp add: fetch_manifest_data [OF 2(2) assms(3)])
  have "verified f root root d'" for d' by (simp add: verified_def)
  from store_file_grows [OF 1(1,3) assms(3,2) 2(1) this] have tp2: "temps_plain rp fs2" by simp
  obtain err fs3 where rm: "remove_path ?q fs2 = (err, fs3)" by (cases "remove_path ?q fs2")
  from remove_path_store [OF 2(2) tp2 rm nd] have "stored_data rp fs3 root = Some d" using 2(4) assms(3) by (simp add: same_store_def)
  then show ?thesis using r assms(6,7) 2(1) fm rm
    by (simp add: resolver_poll_def poll_root_def poll_root_future_def request_def load_root_def catch_errors_def Let_def)
qed

text \<open>
  A root whose manifest has no entries is undefined behaviour: the second poll reads the first entry of an empty
  vector.
\<close>

theorem empty_root_undefined:
  assumes "resolver_new rp root = Inr r" and "contains rp root fs" and "fetch_manifest rp root fs = Inr (Some (q, m))" and "mf_entries m = []"
  shows "\<exists>r'. resolver_run H prov mx 2 r fs = (Inl SqUB, r', fs)"
proof -
  have r: "r = \<lparr>rs_repo = rp, rs_root = root, rs_iter = iter_end, rs_pending = [], rs_manifest = None\<rparr>"
    using assms(1) by (auto simp: resolver_new_def split: if_splits)
  let ?r1 = "r\<lparr>rs_manifest := Some m, rs_iter := iter_new rp m True\<rparr>"
  have "\<exists>res. resolver_poll H prov mx r fs = (Inr res, ?r1, fs) \<and> rr_status res = ONGOING"
    using assms(2,3) r by (simp add: resolver_poll_def poll_root_def load_root_def catch_errors_def Let_def)
  moreover have "resolver_poll H prov mx ?r1 fs = (Inl SqUB, ?r1, fs)"
    using r assms(4) by (simp add: resolver_poll_def poll_entry_def iter_new_def iter_eq_end iter_bool_def iter_active_def
        sig_valid_def signature_none_def iter_deref_def in_range_def catch_errors_def)
  ultimately show ?thesis by (auto simp: numeral_2_eq_2)
qed

section \<open>Examples\<close>

text \<open>A repository \<open>r\<close> with a tree of one file, and an empty repository \<open>q\<close>.\<close>

lemma fresh_repo:
  assumes "smap_ok (fs_nodes fs)" and "rp \<noteq> []" and "\<forall>p \<in> fst ` set (fs_nodes fs) \<union> fs_dirs fs. \<not> prefix rp p"
  shows "store_inv P rp fs" and "temps_fresh rp fs" and "sig_plain s \<Longrightarrow> \<not> contains rp s fs"
proof -
  have n: "smap_find p (fs_nodes fs) = None \<and> p \<notin> fs_dirs fs" if "prefix rp p" for p
    using assms(3) that by (auto simp: smap_find_def map_of_eq_None_iff)
  have d: "prefix rp (resolve_path rp s)" if "sig_plain s" for s using data_path_prefix [OF data_pathI [OF that] assms(2)] .
  show "store_inv P rp fs" using assms(1) n [OF d] by (auto simp: store_inv_def link_target_def file_at_def)
  show "temps_fresh rp fs" using n [OF temp_path_prefix] n [OF prefix_prefix [OF temp_path_prefix]] by (auto simp: temps_fresh_def)
  show "\<not> contains rp s fs" if "sig_plain s" using n [OF d [OF that]] by (simp add: contains_def path_exists_def file_at_def link_target_def)
qed

definition sample_tree :: "stree list" where
  "sample_tree = [Leaf \<lparr>fe_name = ''a'', fe_sig = sig_x, fe_type = FILE, fe_size = 1\<rparr>]"

definition sample_text :: string where
  "sample_text = manifest_text (dir_manifest sample_tree)"

definition sample_root :: signature where
  "sample_root = content_sig sample_hash sample_text"

definition sample_store :: files where
  "sample_store = put_node (resolve_path ''r'' sample_root) (Regular sample_text 0) (put_node (resolve_path ''r'' sig_x) (Regular ''x'' 0) sample_source)"

lemma sample_root_facts: "sig_plain sample_root" "sig_valid sample_root" "sample_root \<noteq> sig_x" "inj_on (content_sig sample_hash) {''x'', sample_text}"
proof -
  show "sig_plain sample_root" "sig_valid sample_root" unfolding sample_root_def by (intro content_sig_plain; simp add: sample_hash_def)+
  have v: "length (str_view sig_x) = 32"
    by (simp add: content_sig_def str_view_def sample_hash_def hex_text_def hex_byte_def)
  have n: "length (show_i64 1) = 1" by (simp add: show_i64_def show_int_def show_nat.simps)
  have "length sample_text = 39" using v n by (simp add: sample_text_def sample_tree_def dir_manifest_def manifest_text_def entry_text_def)
  then show ne: "sample_root \<noteq> sig_x"
    by (simp add: sample_root_def content_sig_def sample_hash_def hex_text_def hex_byte_def hex_char_def)
  then show "inj_on (content_sig sample_hash) {''x'', sample_text}" by (auto simp: sample_root_def)
qed

lemma sample_store_sound:
  "repo_sound sample_hash {''x'', sample_text} ''r'' sample_store" "stored_data ''r'' sample_store sig_x = Some ''x''"
  "stored_data ''r'' sample_store sample_root = Some sample_text"
proof -
  let ?D = "{''x'', sample_text}" and ?f1 = "put_node (resolve_path ''r'' sig_x) (Regular ''x'' 0) sample_source"
  have none: "stored_data ''r'' sample_source s = None" if "sig_plain s" for s
    using that by (simp add: stored_data_def sample_source_def resolve_path_plain file_at_def link_target_def path_join_def is_absolute_def)
  have c1: "content_sig sample_hash ''x'' = sig_x \<and> ''x'' \<in> ?D" and c2: "content_sig sample_hash sample_text = sample_root \<and> sample_text \<in> ?D"
    by (simp_all add: sample_root_def)
  note 1 = put_data [OF sample_source_sound sample_sigs(1) _ c1 _ disjI1 [OF refl], of 0]
  have s1: "repo_sound sample_hash ?D ''r'' ?f1" "stored_data ''r'' ?f1 sig_x = Some ''x''"
    by (rule 1; simp add: none [OF sample_sigs(1)])+
  have ne: "resolve_path ''r'' sample_root \<noteq> resolve_path ''r'' sig_x"
    using resolve_path_inject [OF sample_root_facts(1) sample_sigs(1), of "''r''"] sample_root_facts(3) by auto
  have "smap_find (resolve_path ''r'' sample_root) (fs_nodes sample_source) = None"
    using sample_root_facts(1) by (simp add: sample_source_def resolve_path_plain path_join_def is_absolute_def)
  then have "stored_data ''r'' ?f1 sample_root = None"
    using stored_data_find [OF s1(1) sample_root_facts(1)] ne by (simp add: sample_source_def smap_ok_def)
  then have n2: "stored_data ''r'' ?f1 sample_root = Some d' \<Longrightarrow> d' = sample_text" for d' by simp
  note 2 = put_data [OF s1(1) sample_root_facts(1) _ c2 n2 disjI1 [OF refl], of 0, folded sample_store_def]
  show "repo_sound sample_hash ?D ''r'' sample_store" "stored_data ''r'' sample_store sample_root = Some sample_text"
    by (rule 2(1,3); simp)+
  show "stored_data ''r'' sample_store sig_x = Some ''x''" using keepsD [OF 2(2) sample_sigs(1) s1(2)] by simp
qed

lemma sample_nodes: "fst ` set (fs_nodes sample_store) = {''s/a'', resolve_path ''r'' sig_x, resolve_path ''r'' sample_root}"
  "fs_dirs sample_store = {''s''}"
  by (auto simp: sample_store_def put_node_def sample_source_def)

lemma sample_fresh:
  "store_inv P ''q'' sample_store" "temps_fresh ''q'' sample_store" "sig_plain s \<Longrightarrow> \<not> contains ''q'' s sample_store"
proof -
  have "smap_ok (fs_nodes sample_store)" using sample_store_sound(1) by (simp add: store_inv_def)
  moreover have "\<not> prefix ''q'' (resolve_path ''r'' s)" if "sig_plain s" for s
    using that by (simp add: resolve_path_plain path_join_def is_absolute_def)
  then have "\<forall>p \<in> fst ` set (fs_nodes sample_store) \<union> fs_dirs sample_store. \<not> prefix ''q'' p"
    using sample_sigs(1) sample_root_facts(1) by (simp add: sample_nodes)
  ultimately show "store_inv P ''q'' sample_store" "temps_fresh ''q'' sample_store" "sig_plain s \<Longrightarrow> \<not> contains ''q'' s sample_store"
    by (intro fresh_repo; simp)+
qed

lemma sample_sync_ok: "sync_ok sample_hash {''x'', sample_text} ''r'' ''q'' sample_store"
  using sample_store_sound(1) sample_fresh by (simp add: sync_ok_def sample_store_def put_node_def sample_source_def)

lemma sample_held: "list_all (held ''r'' sample_store) sample_tree" "manifest_ok (dir_manifest sample_tree)"
  using sample_sigs sample_store_sound(2) by (simp_all add: sample_tree_def dir_manifest_def manifest_ok_def entry_ok_def)

lemma sample_resolver: "resolver_new rp sample_root = Inr \<lparr>rs_repo = rp, rs_root = sample_root, rs_iter = iter_end, rs_pending = [], rs_manifest = None\<rparr>"
  using sample_root_facts(2) by (simp add: resolver_new_def)

theorem resolver_syncs_witness:
  "\<exists>n res r' fs'. n \<le> 4 \<and> resolver_run sample_hasher (local_provider ''r'') 1 n
      \<lparr>rs_repo = ''q'', rs_root = sample_root, rs_iter = iter_end, rs_pending = [], rs_manifest = None\<rparr> sample_store = (Inr res, r', fs')
    \<and> rr_status res = COMPLETED \<and> fetch_manifest ''q'' sample_root fs' = Inr (Some (resolve_path ''q'' sample_root, dir_manifest sample_tree))"
proof -
  have ap: "apart ''r'' ''q''" by (simp add: apart_def)
  have ne: "sample_tree \<noteq> []" by (simp add: sample_tree_def)
  have w: "sync_polls 1 ''r'' sample_store (walk_trees [] sample_tree) + 2 = 4"
    using sample_store_sound(2) by (simp add: sample_tree_def walk_trees_def sync_polls_def hash_polls_def)
  from resolver_syncs [OF sample_hasher_ok sample_root_facts(4) ap sample_sync_ok sample_held(1) ne sample_root_facts(1) sample_held(2)
      sample_store_sound(3) [unfolded sample_text_def] sample_resolver, of 1]
  show ?thesis unfolding w by (elim exE conjE) (intro exI conjI, assumption?, simp_all)
qed

text \<open>The resolver that finds everything in its own repository.\<close>

abbreviation sample_frames :: "(manifest \<times> nat) list \<Rightarrow> 8 word resolver" where
  "sample_frames st \<equiv> sync_state ''r'' sample_root (dir_manifest sample_tree) st"

lemma sample_polls:
  fixes prov :: provider
  shows "\<exists>res. resolver_poll sample_hasher prov 0 \<lparr>rs_repo = ''r'', rs_root = sample_root, rs_iter = iter_end, rs_pending = [], rs_manifest = None\<rparr> sample_store
    = (Inr res, sample_frames [(dir_manifest sample_tree, 0)], sample_store)"
    and "\<exists>res. resolver_poll sample_hasher prov 0 (sample_frames [(dir_manifest sample_tree, 0)]) sample_store = (Inr res, sample_frames [], sample_store)"
    and "resolver_poll sample_hasher prov 0 (sample_frames []) sample_store
      = (Inr \<lparr>rr_status = COMPLETED, rr_pending = 0, rr_completed = []\<rparr>, sample_frames [], sample_store)"
proof -
  have f: "fetch_manifest ''r'' sample_root sample_store = Inr (Some (resolve_path ''r'' sample_root, dir_manifest sample_tree))"
    using fetch_manifest_stored [OF sample_store_sound(3) [unfolded sample_text_def] sample_held(2)] .
  have c: "contains ''r'' sample_root sample_store" "contains ''r'' sig_x sample_store"
    using contains_stored [OF sample_store_sound(1)] sample_root_facts(1) sample_sigs(1) sample_store_sound(2,3) by simp_all
  show "\<exists>res. resolver_poll sample_hasher prov 0 \<lparr>rs_repo = ''r'', rs_root = sample_root, rs_iter = iter_end, rs_pending = [], rs_manifest = None\<rparr> sample_store
      = (Inr res, sample_frames [(dir_manifest sample_tree, 0)], sample_store)"
    using f c(1) by (simp add: resolver_poll_def poll_root_def load_root_def catch_errors_def Let_def iter_new_def)
  have m: "mf_entries (dir_manifest sample_tree) = [\<lparr>fe_name = ''a'', fe_sig = sig_x, fe_type = FILE, fe_size = 1\<rparr>]"
    by (simp add: dir_manifest_def sample_tree_def)
  show "\<exists>res. resolver_poll sample_hasher prov 0 (sample_frames [(dir_manifest sample_tree, 0)]) sample_store = (Inr res, sample_frames [], sample_store)"
    using c(2) sample_sigs(3) m by (simp add: resolver_poll_def poll_entry_def iter_eq_end iter_bool_def iter_active_def iter_deref_def
        in_range_def iter_step_def poll_pending_def catch_errors_def Let_def)
  show "resolver_poll sample_hasher prov 0 (sample_frames []) sample_store
      = (Inr \<lparr>rr_status = COMPLETED, rr_pending = 0, rr_completed = []\<rparr>, sample_frames [], sample_store)"
    by (simp add: resolver_poll_def poll_entry_def iter_eq_end catch_errors_def)
qed

lemma sample_reach: "resolver_reach sample_hasher (local_provider ''s'') ''r'' sample_root sample_store (sample_frames []) sample_store"
proof -
  obtain res1 res2 where p: "resolver_poll sample_hasher (local_provider ''s'') 0
      \<lparr>rs_repo = ''r'', rs_root = sample_root, rs_iter = iter_end, rs_pending = [], rs_manifest = None\<rparr> sample_store
        = (Inr res1, sample_frames [(dir_manifest sample_tree, 0)], sample_store)"
    "resolver_poll sample_hasher (local_provider ''s'') 0 (sample_frames [(dir_manifest sample_tree, 0)]) sample_store = (Inr res2, sample_frames [], sample_store)"
    using sample_polls(1,2) by blast
  note 1 = resolver_reach.start [OF sample_resolver, of sample_hasher "local_provider ''s''" "''r''" sample_store]
  note 2 = resolver_reach.polled [OF 1 _ p(1)]
  have c: "clean_stack (it_stack (rs_iter (sample_frames [(dir_manifest sample_tree, 0)])))"
    using sample_sigs(1) by (simp add: clean_stack_def dir_manifest_def sample_tree_def)
  show ?thesis by (rule resolver_reach.polled [OF 2 c p(2)]) (simp add: iter_end_def clean_stack_def)
qed

lemma sample_store_ok: "store_ok sample_hash sample_root ''r'' sample_store"
proof -
  have "store_inv (verified sample_hash sample_root) ''r'' sample_store"
    using sample_store_sound(1) by (auto simp: store_inv_def verified_def)
  moreover have "smap_find (temp_path ''r'' s @ x) (fs_nodes sample_store) = None" if "sig_plain s" for s x
  proof -
    have "temp_path ''r'' s @ x \<notin> fst ` set (fs_nodes sample_store)"
      using temp_more_not_data [OF that, of "''r''" x] sample_sigs(1) sample_root_facts(1)
        prefix_prefix [OF temp_path_prefix [OF that, of "''r''"], of x]
      by (auto simp: sample_nodes)
    then show ?thesis by (simp add: smap_find_def map_of_eq_None_iff)
  qed
  then have "temps_plain ''r'' sample_store" by (simp add: temps_plain_def link_target_def)
  ultimately show ?thesis by (simp add: store_ok_def)
qed

theorem resolver_verifies_witness:
  "resolver_reach sample_hasher (local_provider ''s'') ''r'' sample_root sample_store (sample_frames []) sample_store
    \<and> stored_data ''r'' sample_store sig_x = Some ''x'' \<and> content_sig sample_hash ''x'' = sig_x"
  using resolver_verifies [OF sample_hasher_ok local.answering_axioms _ sample_root_facts(1) sample_store_ok sample_reach sample_sigs(1)
      _ sample_store_sound(2)] sample_root_facts(3) sample_reach sample_store_sound(2) by simp

theorem resolver_complete_witness:
  "\<exists>m ts. fetch_manifest ''r'' sample_root sample_store = Inr (Some (resolve_path ''r'' sample_root, m))
    \<and> walk_loop sample_store (iter_new ''r'' m True) [] = Some (Inr (walk_trees [] ts))"
proof -
  have c: "clean_stack (it_stack (rs_iter (sample_frames [])))" by (simp add: clean_stack_def)
  from resolver_complete [OF sample_hasher_ok local.answering_axioms _ sample_root_facts(1) sample_store_ok sample_reach c sample_polls(3)]
  show ?thesis by (simp del: dir_manifest_def) blast
qed

text \<open>A repository \<open>r\<close> whose file for a signature is an empty manifest.\<close>

definition sample_bad :: files where
  "sample_bad = put_node (resolve_path ''r'' sig_x) (Regular (''1'' @ [LF]) 0) sample_source"

lemma sample_bad_file: "file_at sample_bad (resolve_path ''r'' sig_x) = Some (''1'' @ [LF], 0)"
proof -
  have "smap_ok (fs_nodes sample_source)" by (simp add: sample_source_def smap_ok_def)
  then show ?thesis by (simp add: sample_bad_def file_at_def link_target_def)
qed

lemma sample_bad_parse: "parse_manifest (''1'' @ [LF]) = Inr \<lparr>mf_version = ''1'', mf_entries = []\<rparr>"
  by (simp add: parse_manifest_def upto_char_def parse_entries.simps)

theorem root_not_verified_witness:
  "\<exists>res r' fs'. resolver_poll sample_hasher (local_provider ''r'') 0
      \<lparr>rs_repo = ''q'', rs_root = sig_x, rs_iter = iter_end, rs_pending = [], rs_manifest = None\<rparr> sample_bad = (Inr res, r', fs')
    \<and> stored_data ''q'' fs' sig_x = Some (''1'' @ [LF]) \<and> content_sig sample_hash (''1'' @ [LF]) \<noteq> sig_x"
proof -
  have "\<not> prefix ''q'' (resolve_path ''r'' sig_x)"
    using sample_sigs(1) by (simp add: resolve_path_plain path_join_def is_absolute_def)
  moreover have "smap_ok (fs_nodes sample_source)" by (simp add: sample_source_def smap_ok_def)
  then have ok: "smap_ok (fs_nodes sample_bad)" by (simp add: sample_bad_def)
  moreover have "fst ` set (fs_nodes sample_bad) \<union> fs_dirs sample_bad = {''s/a'', resolve_path ''r'' sig_x, ''s''}"
    by (auto simp: sample_bad_def put_node_def sample_source_def)
  ultimately have fr: "store_inv P ''q'' sample_bad" "temps_fresh ''q'' sample_bad" "\<not> contains ''q'' sig_x sample_bad" for P
    using fresh_repo [of sample_bad "''q''"] sample_sigs(1) by simp_all
  have so: "store_ok sample_hash sig_x ''q'' sample_bad" using fr(1,2) temps_fresh_plain by (simp add: store_ok_def)
  have nw: "resolver_new ''q'' sig_x = Inr \<lparr>rs_repo = ''q'', rs_root = sig_x, rs_iter = iter_end, rs_pending = [], rs_manifest = None\<rparr>"
    using sample_sigs(3) by (simp add: resolver_new_def)
  let ?q = "temp_path ''q'' sig_x"
  have q: "smap_find ?q (fs_nodes sample_bad) = None" "?q \<notin> fs_dirs sample_bad" using temps_freshD [OF fr(2)] sample_sigs(1) by simp_all
  note pr = local_provider_new [OF sample_bad_file sample_sigs(1) _ refl q]
  have at: "file_at (put_node ?q (Regular (''1'' @ [LF]) (fs_now sample_bad)) (create_dirs (parent_path ?q) sample_bad)) ?q
      = Some (''1'' @ [LF], fs_now sample_bad)" using ok by (simp add: file_at_def link_target_def)
  have "sig_y \<noteq> sig_x" using sample_sigs(5) by simp
  then have ne: "content_sig sample_hash (''1'' @ [LF]) \<noteq> sig_x" by (simp add: content_sig_def sample_hash_def)
  have q0: "''q'' \<noteq> []" by simp
  have "fs_writable (put_node ?q (Regular (''1'' @ [LF]) (fs_now sample_bad)) (create_dirs (parent_path ?q) sample_bad)) (resolve_path ''q'' sig_x)"
    by (simp add: sample_bad_def sample_source_def put_node_def create_dirs_def)
  from root_not_verified [OF local.answering_axioms q0 sample_sigs(1) so nw fr(3) pr [OF q0] at sample_bad_parse this, of sample_hasher 0]
  show ?thesis using ne by (elim exE conjE) (intro exI conjI)
qed

theorem empty_root_undefined_witness:
  "\<exists>r'. resolver_run sample_hasher (local_provider ''q'') 0 2
      \<lparr>rs_repo = ''r'', rs_root = sig_x, rs_iter = iter_end, rs_pending = [], rs_manifest = None\<rparr> sample_bad = (Inl SqUB, r', sample_bad)"
proof -
  have nw: "resolver_new ''r'' sig_x = Inr \<lparr>rs_repo = ''r'', rs_root = sig_x, rs_iter = iter_end, rs_pending = [], rs_manifest = None\<rparr>"
    using sample_sigs(3) by (simp add: resolver_new_def)
  have c: "contains ''r'' sig_x sample_bad" using sample_bad_file by (simp add: contains_def path_exists_def)
  have "fetch_manifest ''r'' sig_x sample_bad = Inr (Some (resolve_path ''r'' sig_x, \<lparr>mf_version = ''1'', mf_entries = []\<rparr>))"
    using sample_bad_file sample_bad_parse by (simp add: fetch_manifest_def fetch_def path_exists_def)
  from empty_root_undefined [OF nw c this] show ?thesis by simp
qed

end
