(* ===== verification/Varconf_Variable.thy ===== *)
theory Varconf_Variable
  imports Doubles
begin

unbundle bit_operations_syntax

text \<open>
  The typeless values of the configuration library (\<open>libs/varconf/src/varconf/variable.cpp\<close>). A
  \<open>VarBase\<close> keeps its text and caches of the conversions; a \<open>Variable\<close> is a shared pointer to a
  \<open>VarBase\<close>, here an index into the list of all \<open>VarBase\<close> objects ever made. Reference counts only
  decide when memory is given back and are left out. Characters are classified as in the classic
  locale, and \<open>int\<close> has 32 bits.
\<close>

type_synonym i32 = "32 word"
type_synonym scope = "32 word"

abbreviation scope_global :: scope where "scope_global \<equiv> 1"
abbreviation scope_user :: scope where "scope_user \<equiv> 2"
abbreviation scope_instance :: scope where "scope_instance \<equiv> 4"

record var_base =
  vb_have_bool :: bool
  vb_have_int :: bool
  vb_have_double :: bool
  vb_have_string :: bool
  vb_bool :: bool
  vb_int :: i32
  vb_double :: f64
  vb_val :: string
  vb_scope :: scope

datatype conv_error = InvalidArgument | OutOfRange

section \<open>Conversions of the standard library\<close>

text \<open>\<open>std::to_string(double)\<close> is the conversion \<open>%f\<close>: six digits behind the point.\<close>

definition show_fixed6 :: "nat \<Rightarrow> nat \<Rightarrow> string" where
  "show_fixed6 n d =
     (let s = round_half_even (n * 10 ^ 6) d; fp = show_nat (s mod 10 ^ 6)
      in show_nat (s div 10 ^ 6) @ ''.'' @ replicate (6 - length fp) (CHR ''0'') @ fp)"

definition to_string_f64 :: "f64 \<Rightarrow> string" where
  "to_string_f64 w = (if f64_neg w then ''-'' else []) @
     (if f64_exp w = 2047 then (if f64_man w = 0 then ''inf'' else ''nan'')
      else (let m = (if f64_exp w = 0 then f64_man w else 2 ^ 52 + f64_man w);
                e = int (max 1 (f64_exp w)) - 1075
            in if 0 \<le> e then show_fixed6 (m * 2 ^ nat e) 1 else show_fixed6 m (2 ^ nat (- e))))"

text \<open>\<open>std::stoi\<close> with base 10.\<close>

definition stoi :: "string \<Rightarrow> conv_error + i32" where
  "stoi s = (case split_sign (dropWhile is_space s) of (neg, r) \<Rightarrow>
     (let ds = takeWhile is_digit r;
          v = (if neg then - int (digits_val ds) else int (digits_val ds))
      in if ds = [] then Inl InvalidArgument
         else if - (2 ^ 31) \<le> v \<and> v < 2 ^ 31 then Inr (word_of_int v) else Inl OutOfRange))"

text \<open>
  What \<open>strtod\<close> leaves unread. A text with no number is left whole, and an exponent without
  digits is left.
\<close>

definition exponent_rest :: "char \<Rightarrow> char \<Rightarrow> string \<Rightarrow> string" where
  "exponent_rest lo up r = (case r of [] \<Rightarrow> []
     | c # t \<Rightarrow> (let t' = snd (split_sign t) in
         if (c = lo \<or> c = up) \<and> takeWhile is_digit t' \<noteq> [] then dropWhile is_digit t' else r))"

definition is_word_char :: "char \<Rightarrow> bool" where
  "is_word_char c \<longleftrightarrow> is_digit c \<or> c = CHR ''_'' \<or>
     (97 \<le> (of_char (lower c) :: nat) \<and> (of_char (lower c) :: nat) \<le> 122)"

definition nan_rest :: "string \<Rightarrow> string" where
  "nan_rest r = (case r of [] \<Rightarrow> []
     | c # t \<Rightarrow> (case dropWhile is_word_char t of [] \<Rightarrow> r
         | d # t' \<Rightarrow> if c = CHR ''('' \<and> d = CHR '')'' then t' else r))"

definition strtod_rest :: "string \<Rightarrow> string" where
  "strtod_rest s = (let r = snd (split_sign (dropWhile is_space s)) in
     if map lower (take 8 r) = ''infinity'' then drop 8 r
     else if map lower (take 3 r) = ''inf'' then drop 3 r
     else if map lower (take 3 r) = ''nan'' then nan_rest (drop 3 r)
     else if map lower (take 2 r) = ''0x'' then
       (case split_point is_hex_digit (drop 2 r) of (ip, fp, t) \<Rightarrow>
          if ip @ fp = [] then drop 1 r else exponent_rest (CHR ''p'') (CHR ''P'') t)
     else (case split_point is_digit r of (ip, fp, t) \<Rightarrow>
          if ip @ fp = [] then s else exponent_rest (CHR ''e'') (CHR ''E'') t))"

text \<open>\<open>std::stod\<close> throws \<open>invalid_argument\<close> when \<open>strtod\<close> reads nothing.\<close>

definition std_stod :: "string \<Rightarrow> conv_error + f64" where
  "std_stod s = (case stod s of Some w \<Rightarrow> Inr w
     | None \<Rightarrow> Inl (if strtod_rest s = s then InvalidArgument else OutOfRange))"

text \<open>A C string ends before the first zero byte.\<close>

definition c_str :: "string \<Rightarrow> string" where
  "c_str s = takeWhile (\<lambda>c. c \<noteq> CHR 0x00) s"

section \<open>Construction\<close>

definition var_blank :: var_base where
  "var_blank = \<lparr>vb_have_bool = False, vb_have_int = False, vb_have_double = False,
     vb_have_string = False, vb_bool = False, vb_int = 0, vb_double = 0, vb_val = [],
     vb_scope = scope_global\<rparr>"

definition var_bool :: "bool \<Rightarrow> var_base" where
  "var_bool b = var_blank\<lparr>vb_have_bool := True, vb_have_string := True, vb_bool := b,
     vb_val := (if b then ''true'' else ''false'')\<rparr>"

definition var_int :: "i32 \<Rightarrow> var_base" where
  "var_int i = var_blank\<lparr>vb_have_int := True, vb_have_string := True, vb_int := i,
     vb_val := show_int (sint i)\<rparr>"

definition var_double :: "f64 \<Rightarrow> var_base" where
  "var_double d = var_blank\<lparr>vb_have_double := True, vb_have_string := True, vb_double := d,
     vb_val := to_string_f64 d\<rparr>"

definition var_string :: "string \<Rightarrow> var_base" where
  "var_string s = var_blank\<lparr>vb_have_string := True, vb_val := s\<rparr>"

definition var_copy :: "var_base \<Rightarrow> var_base" where
  "var_copy c = c\<lparr>vb_scope := scope_global\<rparr>"

text \<open>The assignments: all fields but the scope as in the constructors.\<close>

definition assign_bool :: "bool \<Rightarrow> var_base \<Rightarrow> var_base" where
  "assign_bool b v = (var_bool b)\<lparr>vb_scope := scope_instance\<rparr>"

definition assign_int :: "i32 \<Rightarrow> var_base \<Rightarrow> var_base" where
  "assign_int i v = (var_int i)\<lparr>vb_scope := scope_instance\<rparr>"

definition assign_double :: "f64 \<Rightarrow> var_base \<Rightarrow> var_base" where
  "assign_double d v = (var_double d)\<lparr>vb_scope := scope_instance\<rparr>"

definition assign_string :: "string \<Rightarrow> var_base \<Rightarrow> var_base" where
  "assign_string s v = (var_string s)\<lparr>vb_scope := scope_instance\<rparr>"

definition assign_var :: "var_base \<Rightarrow> var_base \<Rightarrow> var_base" where
  "assign_var c v = c"

definition var_eq :: "var_base \<Rightarrow> var_base \<Rightarrow> bool" where
  "var_eq one two \<longleftrightarrow> vb_val one = vb_val two"

text \<open>\<open>operator<<\<close> puts a backslash before every quote and backslash.\<close>

definition show_var :: "var_base \<Rightarrow> string" where
  "show_var v = concat (map (\<lambda>c. if c = CHR 0x22 \<or> c = CHR 0x5C then [CHR 0x5C, c] else [c]) (vb_val v))"

section \<open>Conversion\<close>

definition is_trimmed :: "char \<Rightarrow> bool" where
  "is_trimmed c \<longleftrightarrow> c \<in> {CHR '' '', CHR 0x09, CHR 0x0A, CHR 0x0D, CHR 0x0C, CHR 0x0B}"

definition trim_ascii_whitespace :: "string \<Rightarrow> string" where
  "trim_ascii_whitespace s = rev (dropWhile is_trimmed (rev (dropWhile is_trimmed s)))"

definition ascii_lower_copy :: "string \<Rightarrow> string" where
  "ascii_lower_copy s = map lower s"

definition try_parse_bool :: "string \<Rightarrow> bool option" where
  "try_parse_bool s =
     (let trimmed = trim_ascii_whitespace s; n = ascii_lower_copy trimmed
      in if trimmed = [] then None
         else if n \<in> {''on'', ''1'', ''true'', ''yes'', ''y''} then Some True
         else if n \<in> {''off'', ''0'', ''false'', ''no'', ''n''} then Some False
         else None)"

text \<open>The conversions fill the caches, and a cached value is not parsed again.\<close>

definition to_bool :: "var_base \<Rightarrow> bool \<times> var_base" where
  "to_bool v =
     (if vb_have_bool v then (vb_bool v, v)
      else let b = (case try_parse_bool (vb_val v) of Some b \<Rightarrow> b | None \<Rightarrow> False)
           in (b, v\<lparr>vb_bool := b, vb_have_bool := True\<rparr>))"

definition to_int :: "var_base \<Rightarrow> conv_error + i32 \<times> var_base" where
  "to_int v =
     (if vb_have_int v then Inr (vb_int v, v)
      else case stoi (vb_val v) of Inl e \<Rightarrow> Inl e
           | Inr i \<Rightarrow> Inr (i, v\<lparr>vb_int := i, vb_have_int := True\<rparr>))"

definition to_double :: "var_base \<Rightarrow> conv_error + f64 \<times> var_base" where
  "to_double v =
     (if vb_have_double v then Inr (vb_double v, v)
      else case std_stod (vb_val v) of Inl e \<Rightarrow> Inl e
           | Inr d \<Rightarrow> Inr (d, v\<lparr>vb_double := d, vb_have_double := True\<rparr>))"

definition to_text :: "var_base \<Rightarrow> string" where
  "to_text v = vb_val v"

definition is_bool :: "var_base \<Rightarrow> bool" where
  "is_bool v \<longleftrightarrow> vb_have_string v \<and> try_parse_bool (vb_val v) \<noteq> None"

definition is_int :: "var_base \<Rightarrow> bool" where
  "is_int v \<longleftrightarrow> vb_have_string v \<and>
     (case vb_val v of [] \<Rightarrow> False
      | c # r \<Rightarrow> if c = CHR ''+'' \<or> c = CHR ''-'' then r \<noteq> [] \<and> list_all is_digit r
                 else list_all is_digit (c # r))"

definition is_double :: "var_base \<Rightarrow> bool" where
  "is_double v \<longleftrightarrow> vb_have_string v \<and>
     length (c_str (vb_val v)) - length (strtod_rest (c_str (vb_val v))) = length (vb_val v)"

section \<open>Shared values\<close>

type_synonym var_heap = "var_base list"

definition new_var :: "var_base \<Rightarrow> var_heap \<Rightarrow> nat \<times> var_heap" where
  "new_var v h = (length h, h @ [v])"

definition set_scope :: "nat \<Rightarrow> scope \<Rightarrow> var_heap \<Rightarrow> var_heap" where
  "set_scope a s h = h[a := (h ! a)\<lparr>vb_scope := s\<rparr>]"

lemma length_set_scope [simp]: "length (set_scope a s h) = length h"
  by (simp add: set_scope_def)

lemma val_set_scope [simp]: "vb_val (set_scope a s h ! b) = vb_val (h ! b)"
  by (cases "a = b") (auto simp: set_scope_def nth_list_update list_update_beyond nth_list_update_neq,
      metis list_update_beyond not_le nth_list_update_eq var_base.select_convs(8) var_base.surjective
      var_base.update_convs(9))

lemma set_scope_nth:
  "a < length h \<Longrightarrow> set_scope a s h ! b = (if a = b then (h ! b)\<lparr>vb_scope := s\<rparr> else h ! b)"
  by (auto simp: set_scope_def)

section \<open>What the conversions promise\<close>

lemma var_val [simp]:
  "vb_val (var_string s) = s" "vb_val (var_int i) = show_int (sint i)"
  "vb_val (var_bool b) = (if b then ''true'' else ''false'')" "vb_scope (var_string s) = scope_global"
  by (simp_all add: var_string_def var_int_def var_bool_def var_blank_def)

lemma stoi_show_int: "stoi (show_int (sint (i :: i32))) = Inr i"
proof -
  obtain c r where c: "show_nat (nat (sint i)) = c # r" "is_digit c" using show_nat_Cons by blast
  have "split_sign (dropWhile is_space (show_int (sint i))) =
      (if sint i < 0 then (True, show_nat (nat (- sint i))) else (False, show_nat (nat (sint i))))"
    using c is_digit_facts [OF c(2)] by (auto simp: show_int_def split_sign_def is_space_def)
  moreover have "- (2 ^ 31) \<le> sint i" and "sint i < 2 ^ 31"
    using sint_ge [of i] sint_lt [of i] by simp_all
  ultimately show ?thesis by (auto simp: stoi_def Let_def)
qed

text \<open>A text that passes \<open>is_int\<close> is a number for \<open>stoi\<close>, but not always one that fits.\<close>

lemma takeWhile_digits: "list_all is_digit r \<Longrightarrow> takeWhile is_digit r = r"
  by (simp add: takeWhile_eq_all_conv list_all_iff)

lemma is_int_stoi:
  assumes "is_int v"
  shows "stoi (vb_val v) \<noteq> Inl InvalidArgument"
proof -
  obtain c r where v: "vb_val v = c # r"
    and d: "if c = CHR ''+'' \<or> c = CHR ''-'' then r \<noteq> [] \<and> list_all is_digit r
            else list_all is_digit (c # r)"
    using assms by (auto simp: is_int_def split: list.splits)
  have space: "\<not> is_space c"
    using d is_digit_facts(1) by (auto simp: is_space_def split: if_splits)
  show ?thesis
  proof (cases "c = CHR ''+'' \<or> c = CHR ''-''")
    case True
    then show ?thesis using d space v
      by (auto simp: stoi_def split_sign_def Let_def takeWhile_digits)
  next
    case False
    then show ?thesis using d space v
      by (auto simp: stoi_def split_sign_def Let_def takeWhile_digits)
  qed
qed

lemma try_parse_bool_text: "try_parse_bool (if b then ''true'' else ''false'') = Some b"
proof -
  have "try_parse_bool ''true'' = Some True" by code_simp
  moreover have "try_parse_bool ''false'' = Some False" by code_simp
  ultimately show ?thesis by simp
qed

end
