(* ===== verification/Varconf_Config.thy ===== *)
theory Varconf_Config
  imports Varconf_Variable
begin

text \<open>
  The configuration (\<open>libs/varconf/src/varconf/config.cpp\<close>): sections of items, set by the program, by
  a file, by the command line and by the environment. The items are shared pointers, so every operation
  works on the heap of values and on one configuration. The signals the configuration emits are kept in
  the order they are emitted; what listens to them is not part of the library and is taken not to
  change the configuration. A file is its bytes, and \<open>None\<close> if it cannot be opened.
\<close>

datatype vc_event = Sig | SigV string string | SigSV string string | SigE string

record config =
  m_conf :: "(string, (string, nat) smap) smap"
  m_par_lookup :: "(char, string \<times> bool) smap"
  cfg_emitted :: "vc_event list"

type_synonym store = "var_heap \<times> config"

definition config_new :: config where
  "config_new = \<lparr>m_conf = [], m_par_lookup = [], cfg_emitted = []\<rparr>"

text \<open>The copy constructor copies the maps, and with them the pointers.\<close>

definition config_copy :: "config \<Rightarrow> config" where
  "config_copy c = \<lparr>m_conf = m_conf c, m_par_lookup = m_par_lookup c, cfg_emitted = []\<rparr>"

text \<open>
  The singleton: which object \<open>m_instance\<close> points to, and the name of the next new object. The
  destructor of an object clears the pointer to it.
\<close>

definition config_inst :: "nat option \<times> nat \<Rightarrow> nat \<times> nat option \<times> nat" where
  "config_inst m = (case m of (Some i, n) \<Rightarrow> (i, Some i, n) | (None, n) \<Rightarrow> (n, Some n, Suc n))"

definition config_destroy :: "nat \<Rightarrow> nat option \<times> nat \<Rightarrow> nat option \<times> nat" where
  "config_destroy i m = (if fst m = Some i then None else fst m, snd m)"

definition emit :: "vc_event \<Rightarrow> config \<Rightarrow> config" where
  "emit e c = c\<lparr>cfg_emitted := cfg_emitted c @ [e]\<rparr>"

section \<open>Classes of characters\<close>

datatype char_class = C_SPACE | C_NUMERIC | C_ALPHA | C_DASH | C_EQ | C_QUOTE | C_SQUARE_OPEN
  | C_SQUARE_CLOSE | C_HASH | C_ESCAPE | C_EOL | C_OTHER

definition is_letter :: "char \<Rightarrow> bool" where
  "is_letter c \<longleftrightarrow> (let n = of_char c :: nat in (97 \<le> n \<and> n \<le> 122) \<or> (65 \<le> n \<and> n \<le> 90))"

definition ctype :: "char \<Rightarrow> char_class" where
  "ctype c =
     (if c = CHR 0x0A then C_EOL
      else if is_space c then C_SPACE
      else if is_letter c then C_ALPHA
      else if is_digit c then C_NUMERIC
      else if c = CHR ''-'' \<or> c = CHR ''_'' then C_DASH
      else if c = CHR ''='' then C_EQ
      else if c = CHR 0x22 then C_QUOTE
      else if c = CHR ''['' then C_SQUARE_OPEN
      else if c = CHR '']'' then C_SQUARE_CLOSE
      else if c = CHR ''#'' then C_HASH
      else if c = CHR 0x5C then C_ESCAPE
      else C_OTHER)"

abbreviation cfg_char :: "char \<Rightarrow> bool" where
  "cfg_char c \<equiv> ctype c = C_ALPHA \<or> ctype c = C_NUMERIC \<or> ctype c = C_DASH"

definition clean_char :: "char \<Rightarrow> char" where
  "clean_char c = (if ctype c \<noteq> C_NUMERIC \<and> ctype c \<noteq> C_ALPHA \<and> ctype c \<noteq> C_DASH then CHR ''_'' else lower c)"

definition clean :: "string \<Rightarrow> string" where
  "clean s = map clean_char s"

section \<open>Items\<close>

definition cfg_find :: "string \<Rightarrow> string \<Rightarrow> config \<Rightarrow> bool" where
  "cfg_find sec key c = (case smap_find sec (m_conf c) of None \<Rightarrow> False
     | Some row \<Rightarrow> key = [] \<or> smap_find key row \<noteq> None)"

definition findSection :: "string \<Rightarrow> config \<Rightarrow> bool" where
  "findSection sec c = cfg_find sec [] c"

definition findItem :: "string \<Rightarrow> string \<Rightarrow> config \<Rightarrow> bool" where
  "findItem sec key c = cfg_find sec key c"

definition cfg_row :: "string \<Rightarrow> config \<Rightarrow> (string, nat) smap" where
  "cfg_row sec c = (case smap_find sec (m_conf c) of None \<Rightarrow> [] | Some row \<Rightarrow> row)"

definition cfg_erase :: "string \<Rightarrow> string \<Rightarrow> config \<Rightarrow> bool \<times> config" where
  "cfg_erase sec key c =
     (if cfg_find sec [] c then
        (if key = [] then (True, c\<lparr>m_conf := smap_erase sec (m_conf c)\<rparr>)
         else if cfg_find sec key c then
           (True, c\<lparr>m_conf := smap_put sec (smap_erase key (cfg_row sec c)) (m_conf c)\<rparr>)
         else (False, c))
      else (False, c))"

definition getSection :: "string \<Rightarrow> config \<Rightarrow> (string, nat) smap option" where
  "getSection sec c = smap_find sec (m_conf c)"

text \<open>\<open>getItem\<close> makes a fresh value when there is no item.\<close>

definition getItem :: "string \<Rightarrow> string \<Rightarrow> store \<Rightarrow> nat \<times> store" where
  "getItem sec key st = (case st of (h, c) \<Rightarrow>
     (case smap_find key (cfg_row sec c) of Some a \<Rightarrow> (a, st)
      | None \<Rightarrow> (case new_var var_blank h of (a, h') \<Rightarrow> (a, (h', c)))))"

definition setItem :: "string \<Rightarrow> string \<Rightarrow> nat \<Rightarrow> scope \<Rightarrow> store \<Rightarrow> store" where
  "setItem sec key a sc st = (case st of (h, c) \<Rightarrow>
     if key = [] then
       (h, emit (SigE (''Varconf Warning: blank key under section '' @ [CHR 0x22] @ sec @ [CHR 0x22] @
                  '' sent to setItem() method.'')) c)
     else
       let s = clean sec; k = clean key; h' = set_scope a sc h; row = cfg_row s c;
           row' = (case smap_find k row of None \<Rightarrow> smap_put k a row
                   | Some b \<Rightarrow> if \<not> var_eq (h' ! b) (h' ! a) then smap_put k a row else row)
       in (h', emit (SigSV s k) (emit (SigV s k) (emit Sig
             (c\<lparr>m_conf := smap_put s row' (m_conf c)\<rparr>)))))"

text \<open>A text is turned into a new \<open>Variable\<close> by the call.\<close>

definition set_text :: "string \<Rightarrow> string \<Rightarrow> string \<Rightarrow> scope \<Rightarrow> store \<Rightarrow> store" where
  "set_text sec key v sc st = (case st of (h, c) \<Rightarrow>
     (case new_var (var_string v) h of (a, h') \<Rightarrow> setItem sec key a sc (h', c)))"

definition setParameterLookup :: "char \<Rightarrow> string \<Rightarrow> bool \<Rightarrow> config \<Rightarrow> config" where
  "setParameterLookup s l v c = c\<lparr>m_par_lookup := smap_put s (l, v) (m_par_lookup c)\<rparr>"

definition row_eq :: "var_heap \<Rightarrow> (string, nat) smap \<Rightarrow> (string, nat) smap \<Rightarrow> bool" where
  "row_eq h r q = list_all2 (\<lambda>x y. fst x = fst y \<and> var_eq (h ! snd x) (h ! snd y)) r q"

definition config_eq :: "var_heap \<Rightarrow> config \<Rightarrow> config \<Rightarrow> bool" where
  "config_eq h one two \<longleftrightarrow>
     list_all2 (\<lambda>x y. fst x = fst y \<and> row_eq h (snd x) (snd y)) (m_conf one) (m_conf two) \<and>
     m_par_lookup one = m_par_lookup two"

section \<open>The command line and the environment\<close>

text \<open>
  The scan of a long argument from position \<open>j\<close> on, where \<open>cs\<close> are the characters left. The result is
  the section, the mark, and name and value if an equal sign ended the scan.
\<close>

fun scan_long :: "string \<Rightarrow> nat \<Rightarrow> string \<Rightarrow> bool \<Rightarrow> nat \<Rightarrow> string \<Rightarrow> string \<times> nat \<times> (string \<times> string) option" where
  "scan_long arg mark sec fnd j [] = (sec, mark, None)"
| "scan_long arg mark sec fnd j (c # cs) =
     (if c = CHR '':'' \<and> \<not> fnd then
        (if cs \<noteq> [] then scan_long arg (j + 1) (take (j - mark) (drop mark arg)) True (j + 1) cs
         else scan_long arg mark sec fnd (j + 1) cs)
      else if c = CHR ''='' \<and> 1 < j - mark then (sec, mark, Some (take (j - mark) (drop mark arg), cs))
      else scan_long arg mark sec fnd (j + 1) cs)"

definition long_arg :: "string \<Rightarrow> string \<times> string \<times> string" where
  "long_arg arg = (case scan_long arg 2 [] False 2 (drop 2 arg) of
     (sec, mark, Some (n, v)) \<Rightarrow> (sec, n, v)
   | (sec, mark, None) \<Rightarrow> (sec, if length arg \<noteq> mark then drop mark arg else [], []))"

definition no_value_warning :: "string \<Rightarrow> string" where
  "no_value_warning arg = ''Varconf Warning: short argument '' @ [CHR 0x22] @ arg @ [CHR 0x22] @
     '' given on command-line expects a value but none was given.''"

definition no_lookup_warning :: "string \<Rightarrow> string" where
  "no_lookup_warning arg = ''Varconf Warning: short argument '' @ [CHR 0x22] @ arg @ [CHR 0x22] @
     '' given on command-line does not exist in the lookup table.''"

text \<open>A short argument: its name and value, the arguments left and how many more were used.\<close>

definition short_arg ::
  "string \<Rightarrow> string list \<Rightarrow> config \<Rightarrow> string \<times> string \<times> string list \<times> nat \<times> config" where
  "short_arg arg rest c = (case smap_find (arg ! 1) (m_par_lookup c) of
     None \<Rightarrow> ([], [], rest, 0, emit (SigE (no_lookup_warning arg)) c)
   | Some (n, needs_value) \<Rightarrow>
       if \<not> needs_value then (n, [], rest, 0, c)
       else (case rest of
           [] \<Rightarrow> (n, [], rest, 0, emit (SigE (no_value_warning arg)) c)
         | v # rest' \<Rightarrow>
             if v \<noteq> [] \<and> hd v \<noteq> CHR ''-'' then (n, v, rest', 1, c)
             else (n, [], rest, 0, emit (SigE (no_value_warning arg)) c)))"

text \<open>
  One argument at position \<open>i\<close>; a C string holds no zero byte, so a position behind its end is
  where the code sees the terminating zero.
\<close>

definition cmdline_arg ::
  "scope \<Rightarrow> nat \<Rightarrow> string \<Rightarrow> string list \<Rightarrow> store \<Rightarrow> nat option \<times> string list \<times> nat \<times> store" where
  "cmdline_arg sc i arg rest st = (case st of (h, c) \<Rightarrow>
     if arg = [] \<or> hd arg \<noteq> CHR ''-'' then (None, rest, i + 1, st)
     else
       (case (if 2 < length arg \<and> arg ! 1 = CHR ''-''
              then (case long_arg arg of (s, n, v) \<Rightarrow> (s, n, v, rest, 0, c))
              else if 1 < length arg \<and> arg ! 1 \<noteq> CHR ''-''
              then (case short_arg arg rest c of (n, v, rest', k, c') \<Rightarrow> ([], n, v, rest', k, c'))
              else ([], [], [], rest, 0, c)) of (s, n, v, rest', k, c') \<Rightarrow>
          if n \<noteq> [] then (Some (i + k + 1), rest', i + k + 1, set_text s n v sc (h, c'))
          else (None, rest', i + k + 1, (h, c'))))"

lemma short_arg_rest: "short_arg arg rest c = (n, v, rest', k, c') \<Longrightarrow> length rest' \<le> length rest"
  by (auto simp: short_arg_def split: option.splits prod.splits if_splits list.splits)

lemma cmdline_arg_rest: "cmdline_arg sc i arg rest st = (r, rest', j, st') \<Longrightarrow> length rest' \<le> length rest"
  by (auto simp: cmdline_arg_def split: prod.splits if_splits dest: short_arg_rest)

function cmdline_from ::
  "scope \<Rightarrow> nat \<Rightarrow> nat \<Rightarrow> string list \<Rightarrow> store \<Rightarrow> nat \<times> store" where
  "cmdline_from sc optind i [] st = (optind, st)"
| "cmdline_from sc optind i (arg # rest) st = (case cmdline_arg sc i arg rest st of
     (r, rest', i', st') \<Rightarrow>
       cmdline_from sc (case r of Some n \<Rightarrow> n | None \<Rightarrow> optind) i' rest' st')"
  by pat_completeness auto
termination
  by (relation "measure (\<lambda>(sc, optind, i, args, st). length args)")
     (auto dest!: cmdline_arg_rest [OF sym])

definition getCmdline :: "string list \<Rightarrow> scope \<Rightarrow> store \<Rightarrow> nat \<times> store" where
  "getCmdline argv sc st = cmdline_from sc 1 1 (drop 1 argv) st"

text \<open>\<open>eq_pos - prefix.size()\<close> is unsigned: when the sign lies inside the prefix the rest is taken whole.\<close>

definition env_item :: "string \<Rightarrow> string \<Rightarrow> string \<times> string" where
  "env_item prefix env =
     (if CHR ''='' \<in> set env then
        (let eq = length (takeWhile (\<lambda>c. c \<noteq> CHR ''='') env)
         in (if length prefix \<le> eq then take (eq - length prefix) (drop (length prefix) env)
             else drop (length prefix) env, drop (eq + 1) env))
      else (drop (length prefix) env, []))"

definition env_step :: "string \<Rightarrow> scope \<Rightarrow> string \<Rightarrow> store \<Rightarrow> store" where
  "env_step prefix sc env st =
     (if take (length prefix) env = prefix
      then (case env_item prefix env of (n, v) \<Rightarrow> set_text [] n v sc st) else st)"

definition getEnv :: "string \<Rightarrow> scope \<Rightarrow> string list \<Rightarrow> store \<Rightarrow> store" where
  "getEnv prefix sc environ st = fold (env_step prefix sc) environ st"

section \<open>Files\<close>

datatype pstate = S_EXPECT_NAME | S_SECTION | S_NAME | S_COMMENT | S_EXPECT_EQ | S_EXPECT_VALUE
  | S_VALUE | S_QUOTED_VALUE | S_EXPECT_EOL

record parser =
  ps_state :: pstate
  ps_escaped :: bool
  ps_line :: nat
  ps_col :: nat
  ps_name :: string
  ps_value :: string
  ps_section :: string
  ps_store :: store

datatype parse_error = ParseError (pe_exp: string) (pe_line: nat) (pe_col: nat)

definition parser_init :: "store \<Rightarrow> parser" where
  "parser_init st = \<lparr>ps_state = S_EXPECT_NAME, ps_escaped = False, ps_line = 1, ps_col = 0,
     ps_name = [], ps_value = [], ps_section = [], ps_store = st\<rparr>"

definition ps_set :: "string \<Rightarrow> scope \<Rightarrow> parser \<Rightarrow> parser" where
  "ps_set v sc p = p\<lparr>ps_store := set_text (ps_section p) (ps_name p) v sc (ps_store p)\<rparr>"

text \<open>One character in each state; \<open>Inl\<close> is what the exception says was expected.\<close>

definition expect_name_step :: "char \<Rightarrow> parser \<Rightarrow> string + parser" where
  "expect_name_step c p = (case ctype c of
     C_ALPHA \<Rightarrow> Inr (p\<lparr>ps_state := S_NAME, ps_name := [c]\<rparr>)
   | C_NUMERIC \<Rightarrow> Inr (p\<lparr>ps_state := S_NAME, ps_name := [c]\<rparr>)
   | C_DASH \<Rightarrow> Inr (p\<lparr>ps_state := S_NAME, ps_name := [c]\<rparr>)
   | C_SQUARE_OPEN \<Rightarrow> Inr (p\<lparr>ps_section := [], ps_state := S_SECTION\<rparr>)
   | C_SPACE \<Rightarrow> Inr p
   | C_EOL \<Rightarrow> Inr p
   | C_HASH \<Rightarrow> Inr (p\<lparr>ps_state := S_COMMENT\<rparr>)
   | _ \<Rightarrow> Inl ''item name'')"

definition section_step :: "char \<Rightarrow> parser \<Rightarrow> string + parser" where
  "section_step c p = (case ctype c of
     C_ALPHA \<Rightarrow> Inr (p\<lparr>ps_section := ps_section p @ [c]\<rparr>)
   | C_NUMERIC \<Rightarrow> Inr (p\<lparr>ps_section := ps_section p @ [c]\<rparr>)
   | C_DASH \<Rightarrow> Inr (p\<lparr>ps_section := ps_section p @ [c]\<rparr>)
   | C_SQUARE_CLOSE \<Rightarrow> Inr (p\<lparr>ps_state := S_EXPECT_EOL\<rparr>)
   | _ \<Rightarrow> Inl [CHR 0x27, CHR '']'', CHR 0x27])"

definition name_step :: "char \<Rightarrow> parser \<Rightarrow> string + parser" where
  "name_step c p = (case ctype c of
     C_ALPHA \<Rightarrow> Inr (p\<lparr>ps_name := ps_name p @ [c]\<rparr>)
   | C_NUMERIC \<Rightarrow> Inr (p\<lparr>ps_name := ps_name p @ [c]\<rparr>)
   | C_DASH \<Rightarrow> Inr (p\<lparr>ps_name := ps_name p @ [c]\<rparr>)
   | C_EQ \<Rightarrow> Inr (p\<lparr>ps_state := S_EXPECT_VALUE\<rparr>)
   | C_SPACE \<Rightarrow> Inr (p\<lparr>ps_state := S_EXPECT_EQ\<rparr>)
   | _ \<Rightarrow> Inl [CHR 0x27, CHR ''='', CHR 0x27])"

definition comment_step :: "char \<Rightarrow> parser \<Rightarrow> string + parser" where
  "comment_step c p = (case ctype c of C_EOL \<Rightarrow> Inr (p\<lparr>ps_state := S_EXPECT_NAME\<rparr>) | _ \<Rightarrow> Inr p)"

definition expect_eq_step :: "char \<Rightarrow> parser \<Rightarrow> string + parser" where
  "expect_eq_step c p = (case ctype c of
     C_SPACE \<Rightarrow> Inr p
   | C_EQ \<Rightarrow> Inr (p\<lparr>ps_state := S_EXPECT_VALUE\<rparr>)
   | _ \<Rightarrow> Inl [CHR 0x27, CHR ''='', CHR 0x27])"

definition expect_value_step :: "scope \<Rightarrow> char \<Rightarrow> parser \<Rightarrow> string + parser" where
  "expect_value_step sc c p = (case ctype c of
     C_ALPHA \<Rightarrow> Inr (p\<lparr>ps_state := S_VALUE, ps_value := [c]\<rparr>)
   | C_NUMERIC \<Rightarrow> Inr (p\<lparr>ps_state := S_VALUE, ps_value := [c]\<rparr>)
   | C_DASH \<Rightarrow> Inr (p\<lparr>ps_state := S_VALUE, ps_value := [c]\<rparr>)
   | C_QUOTE \<Rightarrow> Inr (p\<lparr>ps_value := [], ps_state := S_QUOTED_VALUE\<rparr>)
   | C_EOL \<Rightarrow> Inr (ps_set [] sc (p\<lparr>ps_value := [], ps_state := S_EXPECT_NAME\<rparr>))
   | C_SPACE \<Rightarrow> Inr p
   | _ \<Rightarrow> Inl ''value'')"

definition value_step :: "scope \<Rightarrow> char \<Rightarrow> parser \<Rightarrow> string + parser" where
  "value_step sc c p = (case ctype c of
     C_QUOTE \<Rightarrow> Inl ''value''
   | C_SPACE \<Rightarrow> Inr (ps_set (ps_value p) sc (p\<lparr>ps_state := S_EXPECT_EOL\<rparr>))
   | C_EOL \<Rightarrow> Inr (ps_set (ps_value p) sc (p\<lparr>ps_state := S_EXPECT_NAME\<rparr>))
   | C_HASH \<Rightarrow> Inr (ps_set (ps_value p) sc (p\<lparr>ps_state := S_COMMENT\<rparr>))
   | _ \<Rightarrow> Inr (p\<lparr>ps_value := ps_value p @ [c]\<rparr>))"

definition quoted_value_step :: "scope \<Rightarrow> char \<Rightarrow> parser \<Rightarrow> string + parser" where
  "quoted_value_step sc c p =
     (if ps_escaped p then Inr (p\<lparr>ps_value := ps_value p @ [c], ps_escaped := False\<rparr>)
      else case ctype c of
        C_QUOTE \<Rightarrow> Inr (ps_set (ps_value p) sc (p\<lparr>ps_state := S_EXPECT_EOL\<rparr>))
      | C_ESCAPE \<Rightarrow> Inr (p\<lparr>ps_escaped := True\<rparr>)
      | _ \<Rightarrow> Inr (p\<lparr>ps_value := ps_value p @ [c]\<rparr>))"

definition expect_eol_step :: "char \<Rightarrow> parser \<Rightarrow> string + parser" where
  "expect_eol_step c p = (case ctype c of
     C_HASH \<Rightarrow> Inr (p\<lparr>ps_state := S_COMMENT\<rparr>)
   | C_EOL \<Rightarrow> Inr (p\<lparr>ps_state := S_EXPECT_NAME\<rparr>)
   | C_SPACE \<Rightarrow> Inr p
   | _ \<Rightarrow> Inl ''end of line'')"

definition state_step :: "scope \<Rightarrow> char \<Rightarrow> parser \<Rightarrow> string + parser" where
  "state_step sc c p = (case ps_state p of
     S_EXPECT_NAME \<Rightarrow> expect_name_step c p
   | S_SECTION \<Rightarrow> section_step c p
   | S_NAME \<Rightarrow> name_step c p
   | S_COMMENT \<Rightarrow> comment_step c p
   | S_EXPECT_EQ \<Rightarrow> expect_eq_step c p
   | S_EXPECT_VALUE \<Rightarrow> expect_value_step sc c p
   | S_VALUE \<Rightarrow> value_step sc c p
   | S_QUOTED_VALUE \<Rightarrow> quoted_value_step sc c p
   | S_EXPECT_EOL \<Rightarrow> expect_eol_step c p)"

text \<open>The loop body. What was set before an exception stays set.\<close>

definition parse_char :: "scope \<Rightarrow> parser \<Rightarrow> char \<Rightarrow> parse_error \<times> store + parser" where
  "parse_char sc p c = (let p1 = p\<lparr>ps_col := ps_col p + 1\<rparr> in
     case state_step sc c p1 of
       Inl e \<Rightarrow> Inl (ParseError e (ps_line p1) (ps_col p1), ps_store p1)
     | Inr p2 \<Rightarrow> Inr (if c = CHR 0x0A then p2\<lparr>ps_line := ps_line p2 + 1, ps_col := 0\<rparr> else p2))"

definition parse_end :: "scope \<Rightarrow> parser \<Rightarrow> parse_error \<times> store + store" where
  "parse_end sc p =
     (if ps_state p = S_QUOTED_VALUE then Inl (ParseError [CHR 0x22] (ps_line p) (ps_col p), ps_store p)
      else if ps_state p = S_VALUE then Inr (ps_store (ps_set (ps_value p) sc p))
      else if ps_state p = S_EXPECT_VALUE then Inr (ps_store (ps_set [] sc p))
      else Inr (ps_store p))"

definition parseStream :: "string \<Rightarrow> scope \<Rightarrow> store \<Rightarrow> parse_error \<times> store + store" where
  "parseStream inp sc st = (case run_steps (parse_char sc) (parser_init st) inp of
     Inl e \<Rightarrow> Inl e | Inr p \<Rightarrow> parse_end sc p)"

text \<open>The text of the exception; the positions are cast to \<open>int\<close>.\<close>

definition as_int :: "nat \<Rightarrow> int" where
  "as_int n = sint (word_of_nat n :: i32)"

definition compose :: "parse_error \<Rightarrow> string" where
  "compose e = ''ParseError: Expected '' @ pe_exp e @ '' at line '' @ show_int (as_int (pe_line e)) @
     '', column '' @ show_int (as_int (pe_col e)) @ ''.''"

definition readFromFile :: "string \<Rightarrow> string option \<Rightarrow> scope \<Rightarrow> store \<Rightarrow> bool \<times> store" where
  "readFromFile filename contents sc st = (case contents of
     None \<Rightarrow> (False, (fst st, emit (SigE (''Varconf Error: could not open configuration file '' @
         [CHR 0x22] @ filename @ [CHR 0x22] @ '' for input.'')) (snd st)))
   | Some inp \<Rightarrow> (case parseStream inp sc st of
       Inl (e, st') \<Rightarrow> (False, (fst st', emit (SigE (''Varconf Error: parsing exception thrown while parsing '' @
         [CHR 0x22] @ filename @ [CHR 0x22] @ ''.'' @ [CHR 0x0A] @ compose e)) (snd st')))
     | Inr st' \<Rightarrow> (True, st')))"

definition read_stream :: "string \<Rightarrow> store \<Rightarrow> store" where
  "read_stream inp st = (case parseStream inp scope_user st of
     Inl (e, st') \<Rightarrow> (fst st', emit (SigE (''Varconf Error: parser exception throw while parsing input stream.'' @
         [CHR 0x0A] @ compose e)) (snd st'))
   | Inr st' \<Rightarrow> st')"

definition write_setting :: "var_heap \<Rightarrow> scope \<Rightarrow> string \<times> nat \<Rightarrow> string" where
  "write_setting h msk j =
     (if vb_scope (h ! snd j) AND msk \<noteq> 0
      then fst j @ '' = '' @ [CHR 0x22] @ show_var (h ! snd j) @ [CHR 0x22, CHR 0x0A] else [])"

definition write_section :: "var_heap \<Rightarrow> scope \<Rightarrow> string \<times> (string, nat) smap \<Rightarrow> string" where
  "write_section h msk i = [CHR 0x0A] @ ''['' @ fst i @ '']'' @ [CHR 0x0A, CHR 0x0A] @
     concat (map (write_setting h msk) (snd i))"

definition writeToStream :: "scope \<Rightarrow> store \<Rightarrow> string" where
  "writeToStream msk st = concat (map (write_section (fst st) msk) (m_conf (snd st)))"

text \<open>The file after the call (\<open>None\<close> if it could not be opened), and the result.\<close>

definition writeToFile :: "string \<Rightarrow> bool \<Rightarrow> scope \<Rightarrow> store \<Rightarrow> string option \<times> bool \<times> store" where
  "writeToFile filename opens msk st =
     (if opens then (Some (writeToStream msk st), True, st)
      else (None, False, (fst st, emit (SigE (''Varconf Error: could not open configuration file '' @
         [CHR 0x22] @ filename @ [CHR 0x22] @ '' for output.'')) (snd st))))"

text \<open>\<open>operator<<\<close> on a configuration: only the items of the user are written.\<close>

definition write_stream :: "store \<Rightarrow> string" where
  "write_stream st = writeToStream scope_user st"

section \<open>What the operations keep\<close>

text \<open>Names are clean and not empty, maps are ordered, and every item has a value.\<close>

definition row_ok :: "var_heap \<Rightarrow> (string, nat) smap \<Rightarrow> bool" where
  "row_ok h row \<longleftrightarrow> smap_ok row \<and>
     (\<forall>j \<in> set row. fst j \<noteq> [] \<and> clean (fst j) = fst j \<and> snd j < length h)"

definition vc_ok :: "store \<Rightarrow> bool" where
  "vc_ok st \<longleftrightarrow> smap_ok (m_conf (snd st)) \<and>
     (\<forall>i \<in> set (m_conf (snd st)). clean (fst i) = fst i \<and> row_ok (fst st) (snd i))"

text \<open>The text and the scope of an item.\<close>

definition item_at :: "store \<Rightarrow> string \<Rightarrow> string \<Rightarrow> (string \<times> scope) option" where
  "item_at st sec key = map_option (\<lambda>a. (vb_val (fst st ! a), vb_scope (fst st ! a)))
     (smap_find key (cfg_row sec (snd st)))"

lemma vc_ok_new: "vc_ok ([], config_new)"
  by (simp add: vc_ok_def config_new_def)

lemma emit_fields [simp]:
  "m_conf (emit e c) = m_conf c" "m_par_lookup (emit e c) = m_par_lookup c"
  by (simp_all add: emit_def)

lemma vc_ok_emit [simp]: "vc_ok (h, emit e c) = vc_ok (h, c)"
  by (simp add: vc_ok_def)

lemma item_at_emit [simp]: "item_at (h, emit e c) = item_at (h, c)"
  by (simp add: item_at_def cfg_row_def fun_eq_iff)

lemma of_char_lower: "(of_char (lower c) :: nat) =
    (let n = of_char c in if 65 \<le> n \<and> n \<le> 90 then n + 32 else n)"
  by (simp add: lower_def Let_def)

lemma cfg_char_iff: "cfg_char c \<longleftrightarrow> is_letter c \<or> is_digit c \<or> c = CHR ''-'' \<or> c = CHR ''_''"
proof -
  have "is_letter c \<or> is_digit c \<or> c = CHR ''-'' \<or> c = CHR ''_'' \<Longrightarrow> c \<noteq> CHR 0x0A \<and> \<not> is_space c"
    by (auto simp: is_letter_def is_digit_def is_space_def Let_def)
  then show ?thesis by (auto simp: ctype_def)
qed

lemma clean_char_id: "clean_char c = (if cfg_char c then lower c else CHR ''_'')"
  by (auto simp: clean_char_def)

lemma cfg_char_clean: "cfg_char (clean_char c)"
proof (cases "cfg_char c")
  case True
  have "is_letter c \<Longrightarrow> is_letter (lower c)"
    by (auto simp: is_letter_def of_char_lower Let_def)
  moreover have "is_digit c \<Longrightarrow> is_digit (lower c)"
    by (auto simp: is_digit_def of_char_lower Let_def)
  moreover have "lower (CHR ''-'') = CHR ''-''" and "lower (CHR ''_'') = CHR ''_''"
    by (simp_all add: lower_def)
  ultimately show ?thesis using True by (auto simp: clean_char_id cfg_char_iff)
next
  case False
  then show ?thesis by (simp add: clean_char_id cfg_char_iff)
qed

lemma lower_lower [simp]: "lower (lower c) = lower c"
proof -
  have "(of_char (lower (lower c)) :: nat) = of_char (lower c)"
    by (simp add: of_char_lower Let_def)
  then show ?thesis by simp
qed

lemma lower_underscore [simp]: "lower (CHR ''_'') = CHR ''_''"
  by (simp add: lower_def)

lemma clean_clean [simp]: "clean (clean s) = clean s"
proof -
  have "clean_char (clean_char c) = clean_char c" for c
    using cfg_char_clean [of c] by (simp add: clean_char_id split: if_splits)
  then show ?thesis by (simp add: clean_def)
qed

lemma clean_Nil [simp]: "clean s = [] \<longleftrightarrow> s = []" "([] = clean s) = (s = [])"
  by (auto simp: clean_def)

lemma clean_name_chars: "clean s = s \<Longrightarrow> c \<in> set s \<Longrightarrow> cfg_char c"
proof -
  assume "clean s = s" and "c \<in> set s"
  then have "c \<in> clean_char ` set s" by (metis clean_def list.set_map)
  then show "cfg_char c" using cfg_char_clean by fast
qed

end
