(* ===== verification/Varconf_Guarantees.thy ===== *)
theory Varconf_Guarantees
  imports Varconf_Config
begin

text \<open>
  What the configuration promises: every operation keeps names clean, what is written to a file is
  read back from it whatever the values contain, an exception of the parser names the place of the
  offending character, and how long options are read.
\<close>

section \<open>Setting an item\<close>

lemma cfg_row_put: "smap_ok (m_conf c) \<Longrightarrow>
    cfg_row s (c\<lparr>m_conf := smap_put t row (m_conf c)\<rparr>) = (if s = t then row else cfg_row s c)"
  by (simp add: cfg_row_def smap_find_put)

lemma cfg_row_emit [simp]: "cfg_row s (emit e c) = cfg_row s c"
  by (simp add: cfg_row_def)

lemma set_put: "x \<in> set (smap_put k v m) \<Longrightarrow> x = (k, v) \<or> x \<in> set m"
  by (induction k v m rule: smap_put.induct) (auto split: if_splits)

lemma row_ok_mono: "row_ok h row \<Longrightarrow> length h \<le> length h' \<Longrightarrow> row_ok h' row"
  by (auto simp: row_ok_def)

lemma vc_ok_row: "vc_ok (h, c) \<Longrightarrow> row_ok h (cfg_row s c)"
  by (force simp: vc_ok_def cfg_row_def smap_find_def row_ok_def split: option.splits
      dest: map_of_SomeD)

lemma vc_ok_heap: "vc_ok (h, c) \<Longrightarrow> length h \<le> length h' \<Longrightarrow> vc_ok (h', c)"
  by (auto simp: vc_ok_def intro: row_ok_mono)

lemma vc_ok_put:
  "vc_ok (h, c) \<Longrightarrow> clean s = s \<Longrightarrow> row_ok h row \<Longrightarrow>
    vc_ok (h, c\<lparr>m_conf := smap_put s row (m_conf c)\<rparr>)"
  by (auto simp: vc_ok_def dest!: set_put)

lemma row_ok_put:
  "row_ok h row \<Longrightarrow> k \<noteq> [] \<Longrightarrow> clean k = k \<Longrightarrow> a < length h \<Longrightarrow> row_ok h (smap_put k a row)"
  by (auto simp: row_ok_def dest!: set_put)

lemma vc_ok_setItem:
  assumes ok: "vc_ok (h, c)" and a: "a < length h"
  shows "vc_ok (setItem sec key a sc (h, c))"
proof (cases "key = []")
  case True
  then show ?thesis using ok by (simp add: setItem_def)
next
  case False
  have ok': "vc_ok (set_scope a sc h, c)" using ok by (rule vc_ok_heap) simp
  have row: "row_ok (set_scope a sc h) (cfg_row (clean sec) c)" using ok' by (rule vc_ok_row)
  have put: "row_ok (set_scope a sc h) (smap_put (clean key) a (cfg_row (clean sec) c))"
    using row False a by (intro row_ok_put) auto
  show ?thesis
    using False ok' row put
    by (auto simp: setItem_def Let_def intro!: vc_ok_put split: option.splits)
qed

lemma vc_ok_set_text: "vc_ok st \<Longrightarrow> vc_ok (set_text sec key v sc st)"
  by (cases st) (auto simp: set_text_def new_var_def intro!: vc_ok_setItem
      elim: vc_ok_heap)

lemma length_setItem [simp]: "length (fst (setItem sec key a sc (h, c))) = length h"
  by (simp add: setItem_def Let_def)

lemma row_bound: "row_ok h row \<Longrightarrow> smap_find k row = Some a \<Longrightarrow> a < length h"
  by (force simp: row_ok_def smap_find_def dest: map_of_SomeD)

text \<open>What a text set under a name becomes, and what happens to the other items.\<close>

lemma item_at_heap:
  assumes "vc_ok (h, c)" and "\<And>a. a < length h \<Longrightarrow> h' ! a = h ! a"
  shows "item_at (h', c) s k = item_at (h, c) s k"
proof -
  have "row_ok h (cfg_row s c)" using assms(1) by (rule vc_ok_row)
  then have "smap_find k (cfg_row s c) = Some a \<Longrightarrow> a < length h" for a by (rule row_bound)
  then show ?thesis using assms(2) by (cases "smap_find k (cfg_row s c)") (simp_all add: item_at_def)
qed

lemma item_at_put:
  assumes "smap_ok (m_conf c)" and "smap_ok (cfg_row s c)"
  shows "item_at (h, c\<lparr>m_conf := smap_put s (smap_put k a (cfg_row s c)) (m_conf c)\<rparr>) s' k' =
    (if s' = s \<and> k' = k then Some (vb_val (h ! a), vb_scope (h ! a)) else item_at (h, c) s' k')"
  using assms by (auto simp: item_at_def cfg_row_put smap_find_put)

lemma item_at_same_row:
  assumes "smap_ok (m_conf c)"
  shows "item_at (h, c\<lparr>m_conf := smap_put s (cfg_row s c) (m_conf c)\<rparr>) s' k' = item_at (h, c) s' k'"
  using assms by (auto simp: item_at_def cfg_row_put)

definition merge_item :: "string \<Rightarrow> scope \<Rightarrow> (string \<times> scope) option \<Rightarrow> string \<times> scope" where
  "merge_item v sc old = (case old of Some (w, t) \<Rightarrow> if w = v then (w, t) else (v, sc) | None \<Rightarrow> (v, sc))"

lemma item_at_set_text:
  assumes ok: "vc_ok st" and key: "key \<noteq> []"
  shows "item_at (set_text sec key v sc st) s k =
    (if s = clean sec \<and> k = clean key then Some (merge_item v sc (item_at st s k)) else item_at st s k)"
proof -
  obtain h c where st: "st = (h, c)" by (cases st)
  let ?row = "cfg_row (clean sec) c"
  have heap: "set_scope (length h) sc (h @ [var_string v]) = h @ [(var_string v)\<lparr>vb_scope := sc\<rparr>]"
    by (simp add: set_scope_def list_update_append)
  have old: "item_at (h @ [(var_string v)\<lparr>vb_scope := sc\<rparr>], c) s' k' = item_at (h, c) s' k'" for s' k'
    using ok unfolding st by (rule item_at_heap) (simp add: nth_append)
  have maps: "smap_ok (m_conf c)" "smap_ok ?row" "row_ok h ?row"
    using ok vc_ok_row [of h c "clean sec"] unfolding st by (auto simp: vc_ok_def row_ok_def)
  have bound: "smap_find k' ?row = Some b \<Longrightarrow> b < length h" for b k'
    by (rule row_bound [OF maps(3)])
  show ?thesis
    using key maps(1,2) bound [of "clean key"]
    by (auto simp: st set_text_def new_var_def setItem_def Let_def heap item_at_put item_at_same_row old
        var_eq_def nth_append split: option.splits)
       (auto simp: item_at_def merge_item_def)
qed

section \<open>The parser without positions\<close>

text \<open>
  Line and column are only used by exceptions. \<open>view\<close> forgets them, and the run of the steps alone says
  what the parser does with a text.
\<close>

definition view :: "parser \<Rightarrow> parser" where
  "view p = p\<lparr>ps_line := 0, ps_col := 0\<rparr>"

lemmas state_step_defs = state_step_def expect_name_step_def section_step_def name_step_def
  comment_step_def expect_eq_step_def expect_value_step_def value_step_def quoted_value_step_def
  expect_eol_step_def ps_set_def

definition cfg_step :: "scope \<Rightarrow> parser \<Rightarrow> char \<Rightarrow> string + parser" where
  "cfg_step sc p c = state_step sc c p"

lemma state_step_view:
  "state_step sc c (p\<lparr>ps_line := l, ps_col := n\<rparr>) =
    map_sum id (\<lambda>q. q\<lparr>ps_line := l, ps_col := n\<rparr>) (state_step sc c p)"
  by (cases "ps_state p"; cases "ctype c") (simp_all add: state_step_defs)

lemma state_step_pos:
  "state_step sc c (p :: parser) = Inr q \<Longrightarrow> ps_line q = ps_line p \<and> ps_col q = ps_col p"
  by (cases "ps_state p"; cases "ctype c") (auto simp: state_step_defs split: if_splits)

lemma parse_char_plain:
  assumes "cfg_step sc (view p) c = Inr q"
  shows "\<exists>p'. parse_char sc p c = Inr p' \<and> view p' = q"
proof -
  have "state_step sc c (view p) = map_sum id (\<lambda>q. q\<lparr>ps_line := 0, ps_col := 0\<rparr>) (state_step sc c p)"
    unfolding view_def by (rule state_step_view)
  then obtain p2 where p2: "state_step sc c p = Inr p2" and q: "q = view p2"
    using assms by (cases "state_step sc c p") (auto simp: cfg_step_def view_def)
  have "state_step sc c (p\<lparr>ps_col := ps_col p + 1\<rparr>) = Inr (p2\<lparr>ps_line := ps_line p, ps_col := ps_col p + 1\<rparr>)"
    using state_step_view [where p = p and l = "ps_line p" and n = "ps_col p + 1"] p2 by simp
  then show ?thesis by (auto simp: parse_char_def Let_def q view_def)
qed

lemma parse_run_plain:
  "run_steps (cfg_step sc) (view p) cs = Inr q \<Longrightarrow>
    \<exists>p'. run_steps (parse_char sc) p cs = Inr p' \<and> view p' = q"
proof (induction cs arbitrary: p)
  case (Cons c cs)
  then obtain q1 where q1: "cfg_step sc (view p) c = Inr q1" "run_steps (cfg_step sc) q1 cs = Inr q"
    by (auto split: sum.splits)
  from parse_char_plain [OF q1(1)] obtain p1 where "parse_char sc p c = Inr p1" "view p1 = q1" by blast
  with Cons.IH [of p1] q1(2) show ?case by simp
qed simp

section \<open>Reading what was written\<close>

lemma ctype_chars:
  "ctype (CHR 0x0A) = C_EOL" "ctype (CHR ''['') = C_SQUARE_OPEN" "ctype (CHR '']'') = C_SQUARE_CLOSE"
  "ctype (CHR ''='') = C_EQ" "ctype (CHR 0x22) = C_QUOTE" "ctype (CHR '' '') = C_SPACE"
  "ctype (CHR 0x5C) = C_ESCAPE" "ctype (CHR ''#'') = C_HASH"
  by (simp_all add: ctype_def is_space_def is_letter_def is_digit_def)

lemma ctype_quote: "ctype c = C_QUOTE \<longleftrightarrow> c = CHR 0x22" "ctype c = C_ESCAPE \<longleftrightarrow> c = CHR 0x5C"
  by (auto simp: ctype_chars) (auto simp: ctype_def split: if_splits)

lemma cfg_char_not: "cfg_char c \<Longrightarrow> ctype c \<noteq> C_EOL"
  by auto

lemma run_section_name:
  "list_all cfg_char s \<Longrightarrow> ps_state p = S_SECTION \<Longrightarrow>
    run_steps (cfg_step sc) p s = Inr (p\<lparr>ps_section := ps_section p @ s\<rparr>)"
  by (induction s arbitrary: p) (auto simp: cfg_step_def state_step_defs)

lemma run_item_name:
  "list_all cfg_char s \<Longrightarrow> ps_state p = S_NAME \<Longrightarrow>
    run_steps (cfg_step sc) p s = Inr (p\<lparr>ps_name := ps_name p @ s\<rparr>)"
  by (induction s arbitrary: p) (auto simp: cfg_step_def state_step_defs)

definition escape_text :: "string \<Rightarrow> string" where
  "escape_text s = concat (map (\<lambda>c. if c = CHR 0x22 \<or> c = CHR 0x5C then [CHR 0x5C, c] else [c]) s)"

lemma run_quoted:
  "ps_state p = S_QUOTED_VALUE \<Longrightarrow> \<not> ps_escaped p \<Longrightarrow>
    run_steps (cfg_step sc) p (escape_text s) = Inr (p\<lparr>ps_value := ps_value p @ s\<rparr>)"
proof (induction s arbitrary: p)
  case Nil
  then show ?case by (simp add: escape_text_def)
next
  case (Cons c s)
  have "run_steps (cfg_step sc) p (if c = CHR 0x22 \<or> c = CHR 0x5C then [CHR 0x5C, c] else [c]) =
      Inr (p\<lparr>ps_value := ps_value p @ [c]\<rparr>)"
  proof (cases "c = CHR 0x22 \<or> c = CHR 0x5C")
    case True
    then show ?thesis using Cons.prems
      by (auto simp: cfg_step_def state_step_def quoted_value_step_def ctype_chars)
  next
    case False
    then have "ctype c \<noteq> C_QUOTE" "ctype c \<noteq> C_ESCAPE" by (simp_all add: ctype_quote)
    then show ?thesis using False Cons.prems
      by (cases "ctype c") (simp_all add: cfg_step_def state_step_def quoted_value_step_def)
  qed
  then show ?case using Cons.IH [of "p\<lparr>ps_value := ps_value p @ [c]\<rparr>"] Cons.prems
    by (simp add: escape_text_def run_steps_append)
qed

text \<open>Between the items: nothing is begun.\<close>

lemma run_trans:
  "run_steps f p xs = Inr q \<Longrightarrow> run_steps f q ys = r \<Longrightarrow> run_steps f p (xs @ ys) = r"
  by (simp add: run_steps_append)

definition between :: "string \<Rightarrow> store \<Rightarrow> parser \<Rightarrow> bool" where
  "between sec st p \<longleftrightarrow> ps_state p = S_EXPECT_NAME \<and> \<not> ps_escaped p \<and> ps_section p = sec \<and> ps_store p = st"

lemma run_item:
  assumes p: "between sec st p" and k: "k \<noteq> []" "list_all cfg_char k"
  shows "\<exists>q. run_steps (cfg_step sc) p (k @ '' = '' @ [CHR 0x22] @ escape_text v @ [CHR 0x22, CHR 0x0A]) = Inr q
    \<and> between sec (set_text sec k v sc st) q"
proof -
  obtain c cs where k': "k = c # cs" "cfg_char c" "list_all cfg_char cs"
    using k by (cases k) auto
  have "run_steps (cfg_step sc) p [c] = Inr (p\<lparr>ps_state := S_NAME, ps_name := [c]\<rparr>)"
    using k'(2) p by (auto simp: cfg_step_def state_step_def expect_name_step_def between_def)
  then have name: "run_steps (cfg_step sc) p k = Inr (p\<lparr>ps_state := S_NAME, ps_name := k\<rparr>)"
    using k' run_item_name [OF k'(3), of "p\<lparr>ps_state := S_NAME, ps_name := [c]\<rparr>"]
    by (simp split: sum.splits)
  have eq: "run_steps (cfg_step sc) (p\<lparr>ps_state := S_NAME, ps_name := k\<rparr>) ('' = '' @ [CHR 0x22]) =
      Inr (p\<lparr>ps_state := S_QUOTED_VALUE, ps_name := k, ps_value := []\<rparr>)"
    by (simp add: cfg_step_def state_step_defs ctype_chars)
  have val: "run_steps (cfg_step sc) (p\<lparr>ps_state := S_QUOTED_VALUE, ps_name := k, ps_value := []\<rparr>) (escape_text v) =
      Inr (p\<lparr>ps_state := S_QUOTED_VALUE, ps_name := k, ps_value := v\<rparr>)"
    using p run_quoted [of "p\<lparr>ps_state := S_QUOTED_VALUE, ps_name := k, ps_value := []\<rparr>"]
    by (simp add: between_def)
  have "run_steps (cfg_step sc) (p\<lparr>ps_state := S_QUOTED_VALUE, ps_name := k, ps_value := v\<rparr>) [CHR 0x22, CHR 0x0A] =
      Inr (p\<lparr>ps_state := S_EXPECT_NAME, ps_name := k, ps_value := v,
             ps_store := set_text sec k v sc st\<rparr>)"
    using p by (simp add: cfg_step_def state_step_defs ctype_chars between_def)
  note run_trans [OF name run_trans [OF eq run_trans [OF val this]]]
  then show ?thesis using p by (auto simp: between_def)
qed

text \<open>The items of a section, and of all sections, that a mask selects, with their texts.\<close>

definition written_row :: "var_heap \<Rightarrow> scope \<Rightarrow> (string, nat) smap \<Rightarrow> (string \<times> string) list" where
  "written_row h m row = map (\<lambda>j. (fst j, vb_val (h ! snd j)))
     (filter (\<lambda>j. vb_scope (h ! snd j) AND m \<noteq> 0) row)"

definition restore_row :: "string \<Rightarrow> scope \<Rightarrow> (string \<times> string) list \<Rightarrow> store \<Rightarrow> store" where
  "restore_row sec sc js st = fold (\<lambda>j. set_text sec (fst j) (snd j) sc) js st"

definition restore_all :: "scope \<Rightarrow> (string \<times> (string \<times> string) list) list \<Rightarrow> store \<Rightarrow> store" where
  "restore_all sc is st = fold (\<lambda>i. restore_row (fst i) sc (snd i)) is st"

definition written :: "scope \<Rightarrow> store \<Rightarrow> (string \<times> (string \<times> string) list) list" where
  "written m st = map (\<lambda>i. (fst i, written_row (fst st) m (snd i))) (m_conf (snd st))"

lemma clean_list_all: "clean s = s \<Longrightarrow> list_all cfg_char s"
  by (auto simp: list_all_iff dest: clean_name_chars)

lemma run_row:
  assumes "row_ok h row" and "between sec st p"
  shows "\<exists>q. run_steps (cfg_step sc) p (concat (map (write_setting h m) row)) = Inr q \<and>
    between sec (restore_row sec sc (written_row h m row) st) q"
  using assms
proof (induction row arbitrary: p st)
  case Nil
  then show ?case by (simp add: written_row_def restore_row_def)
next
  case (Cons j row)
  have row: "row_ok h row" and j: "fst j \<noteq> []" "clean (fst j) = fst j"
    using Cons.prems(1) by (auto simp: row_ok_def smap_ok_Cons)
  show ?case
  proof (cases "vb_scope (h ! snd j) AND m \<noteq> 0")
    case True
    let ?st = "set_text sec (fst j) (vb_val (h ! snd j)) sc st"
    from run_item [OF Cons.prems(2) j(1) clean_list_all [OF j(2)], of sc "vb_val (h ! snd j)"]
    obtain p1 where p1: "run_steps (cfg_step sc) p (write_setting h m j) = Inr p1" "between sec ?st p1"
      using True by (auto simp: write_setting_def show_var_def escape_text_def)
    from Cons.IH [OF row p1(2)] obtain q where
      "run_steps (cfg_step sc) p1 (concat (map (write_setting h m) row)) = Inr q"
      and "between sec (restore_row sec sc (written_row h m row) ?st) q" by (elim exE conjE) (rule that)
    then show ?thesis using True run_trans [OF p1(1)]
      by (auto simp: written_row_def restore_row_def)
  next
    case False
    then show ?thesis using Cons.IH [OF row Cons.prems(2)]
      by (simp add: write_setting_def written_row_def)
  qed
qed

lemma run_section:
  assumes p: "between sec st p" and s: "clean s = s" and row: "row_ok h row"
  shows "\<exists>q. run_steps (cfg_step sc) p (write_section h m (s, row)) = Inr q \<and>
    between s (restore_row s sc (written_row h m row) st) q"
proof -
  let ?p1 = "p\<lparr>ps_section := [], ps_state := S_SECTION\<rparr>"
  let ?p2 = "p\<lparr>ps_section := s, ps_state := S_EXPECT_NAME\<rparr>"
  have a: "run_steps (cfg_step sc) p ([CHR 0x0A] @ ''['') = Inr ?p1"
    using p by (simp add: cfg_step_def state_step_defs ctype_chars between_def)
  have b: "run_steps (cfg_step sc) ?p1 s = Inr (?p1\<lparr>ps_section := s\<rparr>)"
    using run_section_name [OF clean_list_all [OF s], of ?p1] by simp
  have c: "run_steps (cfg_step sc) (?p1\<lparr>ps_section := s\<rparr>) ('']'' @ [CHR 0x0A, CHR 0x0A]) = Inr ?p2"
    by (simp add: cfg_step_def state_step_defs ctype_chars)
  have "between s st ?p2" using p by (simp add: between_def)
  from run_row [OF row this, of sc m] obtain q where
    "run_steps (cfg_step sc) ?p2 (concat (map (write_setting h m) row)) = Inr q"
    and "between s (restore_row s sc (written_row h m row) st) q" by (elim exE conjE) (rule that)
  with run_trans [OF a run_trans [OF b run_trans [OF c this(1)]]]
  show ?thesis by (auto simp: write_section_def)
qed

lemma run_sections:
  assumes "\<forall>i \<in> set is. clean (fst i) = fst i \<and> row_ok h (snd i)" and "between sec st p"
  shows "\<exists>q sec'. run_steps (cfg_step sc) p (concat (map (write_section h m) is)) = Inr q \<and>
    between sec' (restore_all sc (map (\<lambda>i. (fst i, written_row h m (snd i))) is) st) q"
  using assms
proof (induction "is" arbitrary: p sec st)
  case Nil
  then show ?case by (auto simp: restore_all_def)
next
  case (Cons i "is")
  from run_section [OF Cons.prems(2), of "fst i" h "snd i" sc m] Cons.prems(1)
  obtain p1 where p1: "run_steps (cfg_step sc) p (write_section h m i) = Inr p1"
    "between (fst i) (restore_row (fst i) sc (written_row h m (snd i)) st) p1" by auto
  from Cons.IH [OF _ p1(2)] Cons.prems(1) run_trans [OF p1(1)]
  show ?case by (force simp: restore_all_def)
qed

lemma parse_written:
  assumes ok: "vc_ok st"
  shows "parseStream (writeToStream m st) sc st0 = Inr (restore_all sc (written m st) st0)"
proof -
  let ?p = "view (parser_init st0)"
  have "between [] st0 ?p" by (simp add: between_def view_def parser_init_def)
  moreover have "\<forall>i \<in> set (m_conf (snd st)). clean (fst i) = fst i \<and> row_ok (fst st) (snd i)"
    using ok by (simp add: vc_ok_def)
  ultimately obtain q sec where q: "run_steps (cfg_step sc) ?p (writeToStream m st) = Inr q"
    "between sec (restore_all sc (written m st) st0) q"
    unfolding writeToStream_def written_def using run_sections by meson
  from parse_run_plain [OF q(1)] obtain p' where
    p': "run_steps (parse_char sc) (parser_init st0) (writeToStream m st) = Inr p'" "view p' = q" by blast
  have "ps_state p' = ps_state q" and "ps_store p' = ps_store q" using p'(2) by (auto simp: view_def)
  with p'(1) q(2) show ?thesis by (simp add: parseStream_def parse_end_def between_def)
qed

text \<open>What the restored items are.\<close>

definition selected :: "scope \<Rightarrow> (string \<times> scope) option \<Rightarrow> string option" where
  "selected m x = (case x of None \<Rightarrow> None | Some (v, t) \<Rightarrow> if t AND m \<noteq> 0 then Some v else None)"

lemma vc_ok_restore_row: "vc_ok st \<Longrightarrow> vc_ok (restore_row sec sc js st)"
  unfolding restore_row_def by (induction js arbitrary: st) (simp_all add: vc_ok_set_text)

lemma vc_ok_restore_all: "vc_ok st \<Longrightarrow> vc_ok (restore_all sc is st)"
  unfolding restore_all_def by (induction "is" arbitrary: st) (simp_all add: vc_ok_restore_row)

lemma item_restore_row:
  assumes "vc_ok st" and "clean sec = sec" and "distinct (map fst js)"
    and "\<forall>j \<in> set js. fst j \<noteq> [] \<and> clean (fst j) = fst j"
  shows "item_at (restore_row sec sc js st) s k =
    (if s = sec then (case map_of js k of Some v \<Rightarrow> Some (merge_item v sc (item_at st s k))
                      | None \<Rightarrow> item_at st s k)
     else item_at st s k)"
  using assms
proof (induction js arbitrary: st)
  case Nil
  then show ?case by (simp add: restore_row_def)
next
  case (Cons j js)
  let ?st = "set_text sec (fst j) (snd j) sc st"
  have ok: "vc_ok ?st" using Cons.prems(1) by (rule vc_ok_set_text)
  have step: "item_at ?st s k = (if s = sec \<and> k = fst j then Some (merge_item (snd j) sc (item_at st s k))
      else item_at st s k)"
    using item_at_set_text [OF Cons.prems(1), of "fst j" sec "snd j" sc s k] Cons.prems by simp
  have "fst j \<notin> fst ` set js" using Cons.prems(3) by simp
  then have fresh: "map_of js (fst j) = None" by (simp add: map_of_eq_None_iff)
  have "restore_row sec sc (j # js) st = restore_row sec sc js ?st" by (simp add: restore_row_def)
  then show ?case using Cons.IH [OF ok Cons.prems(2)] Cons.prems(3,4) step fresh
    by (cases j) (auto split: option.splits)
qed

lemma map_of_written_row:
  "distinct (map fst row) \<Longrightarrow>
    map_of (written_row h m row) k = selected m (map_option (\<lambda>a. (vb_val (h ! a), vb_scope (h ! a))) (smap_find k row))"
proof (induction row)
  case (Cons j row)
  have "fst j \<notin> fst ` set row" using Cons.prems by simp
  moreover have "fst ` set (written_row h m row) \<subseteq> fst ` set row"
    by (auto simp: written_row_def intro: rev_image_eqI)
  ultimately have "map_of (written_row h m row) (fst j) = None"
    unfolding map_of_eq_None_iff by blast
  then show ?case using Cons by (auto simp: written_row_def selected_def)
qed (simp add: written_row_def selected_def)

lemma row_ok_written:
  assumes "row_ok h row"
  shows "distinct (map fst (written_row h m row))"
    and "\<forall>j \<in> set (written_row h m row). fst j \<noteq> [] \<and> clean (fst j) = fst j"
proof -
  have "distinct (map fst row)" using assms smap_ok_distinct by (auto simp: row_ok_def)
  then show "distinct (map fst (written_row h m row))"
    by (simp add: written_row_def o_def distinct_map_filter)
  show "\<forall>j \<in> set (written_row h m row). fst j \<noteq> [] \<and> clean (fst j) = fst j"
    using assms by (auto simp: written_row_def row_ok_def)
qed

lemma item_restore_all:
  assumes "vc_ok st" and "distinct (map fst is)"
    and "\<forall>i \<in> set is. clean (fst i) = fst i \<and> row_ok h (snd i)"
  shows "item_at (restore_all sc (map (\<lambda>i. (fst i, written_row h m (snd i))) is) st) s k =
    (case smap_find s is of None \<Rightarrow> item_at st s k
     | Some row \<Rightarrow> (case map_of (written_row h m row) k of
         Some v \<Rightarrow> Some (merge_item v sc (item_at st s k)) | None \<Rightarrow> item_at st s k))"
  using assms
proof (induction "is" arbitrary: st)
  case Nil
  then show ?case by (simp add: restore_all_def)
next
  case (Cons i "is")
  let ?w = "written_row h m (snd i)"
  let ?st = "restore_row (fst i) sc ?w st"
  have ok: "vc_ok ?st" using Cons.prems(1) by (rule vc_ok_restore_row)
  have row: "row_ok h (snd i)" and i: "clean (fst i) = fst i" using Cons.prems(3) by simp_all
  have step: "item_at ?st s k = (if s = fst i then (case map_of ?w k of
      Some v \<Rightarrow> Some (merge_item v sc (item_at st s k)) | None \<Rightarrow> item_at st s k) else item_at st s k)"
    by (rule item_restore_row [OF Cons.prems(1) i row_ok_written [OF row]])
  have "fst i \<notin> fst ` set is" using Cons.prems(2) by simp
  then have fresh: "smap_find (fst i) is = None" by (simp add: smap_find_def map_of_eq_None_iff)
  have "item_at (restore_all sc (map (\<lambda>i. (fst i, written_row h m (snd i))) is) ?st) s k =
      (case smap_find s is of None \<Rightarrow> item_at ?st s k
       | Some row \<Rightarrow> (case map_of (written_row h m row) k of
           Some v \<Rightarrow> Some (merge_item v sc (item_at ?st s k)) | None \<Rightarrow> item_at ?st s k))"
    using Cons.IH [OF ok] Cons.prems(2,3) by simp
  then show ?case using step fresh
    by (cases "s = fst i") (simp_all add: restore_all_def split: option.splits)
qed

lemma item_at_row: "item_at st s k = (case smap_find s (m_conf (snd st)) of None \<Rightarrow> None
    | Some row \<Rightarrow> map_option (\<lambda>a. (vb_val (fst st ! a), vb_scope (fst st ! a))) (smap_find k row))"
  by (simp add: item_at_def cfg_row_def split: option.splits)

lemma read_back_item:
  assumes st: "vc_ok st" and st0: "vc_ok st0"
  shows "item_at (restore_all sc (written m st) st0) s k =
    (case selected m (item_at st s k) of
       Some v \<Rightarrow> Some (merge_item v sc (item_at st0 s k)) | None \<Rightarrow> item_at st0 s k)"
proof -
  obtain h c where hc: "st = (h, c)" by (cases st)
  have "distinct (map fst (m_conf c))" and "\<forall>i \<in> set (m_conf c). clean (fst i) = fst i \<and> row_ok h (snd i)"
    using st smap_ok_distinct unfolding hc by (auto simp: vc_ok_def)
  note all = item_restore_all [OF st0 this, of sc m s k]
  show ?thesis
  proof (cases "smap_find s (m_conf c)")
    case None
    then show ?thesis using all by (simp add: hc written_def item_at_row selected_def)
  next
    case (Some row)
    have "row_ok h row" using st Some unfolding hc
      by (auto simp: vc_ok_def smap_find_def dest!: map_of_SomeD)
    then have "distinct (map fst row)" using smap_ok_distinct by (auto simp: row_ok_def)
    from map_of_written_row [OF this] all Some show ?thesis
      by (simp add: hc written_def item_at_row)
  qed
qed

section \<open>Where the parser fails\<close>

lemma run_steps_Inl:
  "run_steps f s cs = Inl e \<Longrightarrow>
    \<exists>pre c post s'. cs = pre @ c # post \<and> run_steps f s pre = Inr s' \<and> f s' c = Inl e"
proof (induction cs arbitrary: s)
  case (Cons c cs)
  show ?case
  proof (cases "f s c")
    case (Inl x)
    then have "c # cs = [] @ c # cs \<and> run_steps f s [] = Inr s \<and> f s c = Inl e" using Cons.prems by simp
    then show ?thesis by blast
  next
    case (Inr s1)
    then have "run_steps f s1 cs = Inl e" using Cons.prems by simp
    from Cons.IH [OF this] obtain pre d post s' where
      "cs = pre @ d # post" "run_steps f s1 pre = Inr s'" "f s' d = Inl e" by blast
    then have "c # cs = (c # pre) @ d # post \<and> run_steps f s (c # pre) = Inr s' \<and> f s' d = Inl e"
      using Inr by simp
    then show ?thesis by blast
  qed
qed simp

definition last_line :: "string \<Rightarrow> string" where
  "last_line s = rev (takeWhile (\<lambda>c. c \<noteq> CHR 0x0A) (rev s))"

lemma parse_char_pos:
  assumes "parse_char sc p c = Inr q"
  shows "ps_line q = (if c = CHR 0x0A then ps_line p + 1 else ps_line p)"
    and "ps_col q = (if c = CHR 0x0A then 0 else ps_col p + 1)"
  using assms by (auto simp: parse_char_def Let_def split: sum.splits if_splits dest!: state_step_pos)

lemma parse_run_pos:
  "run_steps (parse_char sc) (parser_init st) pre = Inr p \<Longrightarrow>
    ps_line p = 1 + count_list pre (CHR 0x0A) \<and> ps_col p = length (last_line pre)"
proof (induction pre arbitrary: p rule: rev_induct)
  case Nil
  then show ?case by (auto simp: parser_init_def last_line_def)
next
  case (snoc c pre)
  then obtain q where q: "run_steps (parse_char sc) (parser_init st) pre = Inr q" "parse_char sc q c = Inr p"
    by (auto simp: run_steps_append split: sum.splits)
  show ?case using snoc.IH [OF q(1)] parse_char_pos [OF q(2)] by (simp add: last_line_def)
qed

section \<open>Every operation keeps the invariant\<close>

lemma vc_ok_ps_set: "vc_ok (ps_store p) \<Longrightarrow> vc_ok (ps_store (ps_set v sc p))"
  by (simp add: ps_set_def vc_ok_set_text)

lemma vc_ok_state_step:
  "vc_ok (ps_store p) \<Longrightarrow> state_step sc c p = Inr q \<Longrightarrow> vc_ok (ps_store q)"
  by (cases "ps_state p"; cases "ctype c")
     (auto simp: state_step_defs vc_ok_set_text split: if_splits)

lemma vc_ok_parse_char:
  "vc_ok (ps_store p) \<Longrightarrow> parse_char sc p c = Inr q \<Longrightarrow> vc_ok (ps_store q)"
  by (auto simp: parse_char_def Let_def split: sum.splits if_splits dest!: vc_ok_state_step [rotated])

lemma vc_ok_parse_run:
  "run_steps (parse_char sc) p cs = Inr q \<Longrightarrow> vc_ok (ps_store p) \<Longrightarrow> vc_ok (ps_store q)"
  by (rule run_steps_invariant [where P = "\<lambda>p. vc_ok (ps_store p)"]) (auto intro: vc_ok_parse_char)

text \<open>What may come next in a state, and what the exception says could have come.\<close>

fun can_follow :: "pstate \<Rightarrow> char_class \<Rightarrow> bool" where
  "can_follow S_EXPECT_NAME x \<longleftrightarrow> x \<in> {C_ALPHA, C_NUMERIC, C_DASH, C_SQUARE_OPEN, C_SPACE, C_EOL, C_HASH}"
| "can_follow S_SECTION x \<longleftrightarrow> x \<in> {C_ALPHA, C_NUMERIC, C_DASH, C_SQUARE_CLOSE}"
| "can_follow S_NAME x \<longleftrightarrow> x \<in> {C_ALPHA, C_NUMERIC, C_DASH, C_EQ, C_SPACE}"
| "can_follow S_EXPECT_EQ x \<longleftrightarrow> x \<in> {C_SPACE, C_EQ}"
| "can_follow S_EXPECT_VALUE x \<longleftrightarrow> x \<in> {C_ALPHA, C_NUMERIC, C_DASH, C_QUOTE, C_EOL, C_SPACE}"
| "can_follow S_VALUE x \<longleftrightarrow> x \<noteq> C_QUOTE"
| "can_follow S_EXPECT_EOL x \<longleftrightarrow> x \<in> {C_HASH, C_EOL, C_SPACE}"
| "can_follow S_COMMENT x \<longleftrightarrow> True"
| "can_follow S_QUOTED_VALUE x \<longleftrightarrow> True"

definition expected :: "pstate \<Rightarrow> string" where
  "expected s = (case s of
     S_EXPECT_NAME \<Rightarrow> ''item name''
   | S_SECTION \<Rightarrow> [CHR 0x27, CHR '']'', CHR 0x27]
   | S_EXPECT_VALUE \<Rightarrow> ''value''
   | S_VALUE \<Rightarrow> ''value''
   | S_QUOTED_VALUE \<Rightarrow> [CHR 0x22]
   | S_EXPECT_EOL \<Rightarrow> ''end of line''
   | _ \<Rightarrow> [CHR 0x27, CHR ''='', CHR 0x27])"

lemma state_step_Inl: "state_step sc c p = Inl x \<longleftrightarrow> \<not> can_follow (ps_state p) (ctype c) \<and> x = expected (ps_state p)"
  by (cases "ps_state p"; cases "ctype c") (auto simp: state_step_defs expected_def)

lemma parse_char_Inl: "parse_char sc p c = Inl (e, st') \<longleftrightarrow> \<not> can_follow (ps_state p) (ctype c) \<and> st' = ps_store p
    \<and> e = ParseError (expected (ps_state p)) (ps_line p) (ps_col p + 1)"
proof (cases "state_step sc c (p\<lparr>ps_col := ps_col p + 1\<rparr>)")
  case (Inl x)
  with state_step_Inl [of sc c "p\<lparr>ps_col := ps_col p + 1\<rparr>" x] show ?thesis by (auto simp: parse_char_def)
next
  case (Inr q)
  with state_step_Inl [of sc c "p\<lparr>ps_col := ps_col p + 1\<rparr>"] show ?thesis by (auto simp: parse_char_def)
qed

lemma parse_end_Inl: "parse_end sc p = Inl (e, st') \<longleftrightarrow> ps_state p = S_QUOTED_VALUE \<and> st' = ps_store p
    \<and> e = ParseError (expected (ps_state p)) (ps_line p) (ps_col p)"
  by (auto simp: parse_end_def expected_def)

lemma parse_fails_at:
  assumes "parseStream inp sc st = Inl (e, st')"
  shows "\<exists>pre rest p. inp = pre @ rest \<and> run_steps (parse_char sc) (parser_init st) pre = Inr p \<and> ps_store p = st'
    \<and> (case rest of [] \<Rightarrow> parse_end sc p = Inl (e, st') | c # _ \<Rightarrow> parse_char sc p c = Inl (e, st'))"
proof (cases "run_steps (parse_char sc) (parser_init st) inp")
  case (Inl x)
  then have x: "x = (e, st')" using assms by (simp add: parseStream_def)
  from run_steps_Inl [OF Inl] obtain pre c post p where
    p: "inp = pre @ c # post" "run_steps (parse_char sc) (parser_init st) pre = Inr p"
    and c: "parse_char sc p c = Inl (e, st')" unfolding x by (elim exE conjE) (rule that)
  from c have "ps_store p = st'" by (simp add: parse_char_Inl)
  then show ?thesis using p c
    by (intro exI [of _ pre] exI [of _ "c # post"] exI [of _ p]) simp
next
  case (Inr p)
  then have e: "parse_end sc p = Inl (e, st')" using assms by (simp add: parseStream_def)
  then have "ps_store p = st'" by (simp add: parse_end_Inl)
  then show ?thesis using Inr e by (intro exI [of _ inp] exI [of _ "[]"] exI [of _ p]) simp
qed

lemma parse_store_ok:
  assumes "vc_ok st"
  shows "parseStream inp sc st = Inr st' \<Longrightarrow> vc_ok st'"
    and "parseStream inp sc st = Inl (e, st') \<Longrightarrow> vc_ok st'"
proof -
  have init: "vc_ok (ps_store (parser_init st))" using assms by (simp add: parser_init_def)
  show "parseStream inp sc st = Inr st' \<Longrightarrow> vc_ok st'"
    using vc_ok_parse_run [OF _ init]
    by (auto simp: parseStream_def parse_end_def split: sum.splits if_splits intro!: vc_ok_ps_set)
  show "parseStream inp sc st = Inl (e, st') \<Longrightarrow> vc_ok st'"
    using vc_ok_parse_run [OF _ init] by (blast dest: parse_fails_at)
qed

lemma vc_ok_short_arg:
  "short_arg arg rest c = (n, v, rest', k, c') \<Longrightarrow> vc_ok (h, c) \<Longrightarrow> vc_ok (h, c')"
  by (auto simp: short_arg_def split: option.splits prod.splits if_splits list.splits)

lemma vc_ok_cmdline_arg:
  "cmdline_arg sc i arg rest st = (r, rest', j, st') \<Longrightarrow> vc_ok st \<Longrightarrow> vc_ok st'"
  by (auto simp: cmdline_arg_def split: prod.splits if_splits
      intro!: vc_ok_set_text dest: vc_ok_short_arg)

lemma vc_ok_cmdline_from:
  "vc_ok st \<Longrightarrow> vc_ok (snd (cmdline_from sc opt i args st))"
proof (induction sc opt i args st rule: cmdline_from.induct)
  case (2 sc opt i arg rest st)
  obtain r rest' i' st' where arg: "cmdline_arg sc i arg rest st = (r, rest', i', st')"
    by (metis prod_cases4)
  show ?case using "2.IH" [OF arg [symmetric] refl refl vc_ok_cmdline_arg [OF arg "2.prems"]] arg
    by simp
qed simp

lemma vc_ok_env:
  "vc_ok st \<Longrightarrow> vc_ok (getEnv prefix sc env st)"
  unfolding getEnv_def
  by (induction env arbitrary: st) (simp_all add: env_step_def vc_ok_set_text split: prod.splits)

lemma set_erase: "x \<in> set (smap_erase k m) \<Longrightarrow> x \<in> set m"
  by (simp add: smap_erase_def)

lemma vc_ok_erase:
  assumes "vc_ok (h, c)"
  shows "vc_ok (h, snd (cfg_erase sec key c))"
proof -
  have row: "row_ok h (smap_erase key (cfg_row sec c))"
    using vc_ok_row [OF assms, of sec] by (auto simp: row_ok_def dest: set_erase)
  have "cfg_find sec [] c \<Longrightarrow> clean sec = sec"
    using assms by (force simp: vc_ok_def cfg_find_def smap_find_def split: option.splits dest: map_of_SomeD)
  moreover have "vc_ok (h, c\<lparr>m_conf := smap_erase sec (m_conf c)\<rparr>)"
    using assms by (auto simp: vc_ok_def dest: set_erase)
  ultimately show ?thesis
    using assms row by (auto simp: cfg_erase_def intro!: vc_ok_put)
qed

text \<open>
  What a program can do with its configurations: make values and change them through their pointers, and
  call the operations on any configuration. A call that throws leaves the store it has reached.
\<close>

inductive vc_reach :: "store \<Rightarrow> bool" where
  vc_new: "vc_reach ([], config_new)"
| vc_copy: "vc_reach (h, c) \<Longrightarrow> vc_reach (h, config_copy c)"
| vc_value: "vc_reach (h, c) \<Longrightarrow> vc_reach (snd (new_var v h), c)"
| vc_assign: "vc_reach (h, c) \<Longrightarrow> vc_reach (h[a := v], c)"
| vc_set: "vc_reach (h, c) \<Longrightarrow> a < length h \<Longrightarrow> vc_reach (setItem sec key a sc (h, c))"
| vc_set_text: "vc_reach st \<Longrightarrow> vc_reach (set_text sec key v sc st)"
| vc_get: "vc_reach st \<Longrightarrow> vc_reach (snd (getItem sec key st))"
| vc_erase: "vc_reach (h, c) \<Longrightarrow> vc_reach (h, snd (cfg_erase sec key c))"
| vc_lookup: "vc_reach (h, c) \<Longrightarrow> vc_reach (h, setParameterLookup x l needs c)"
| vc_cmdline: "vc_reach st \<Longrightarrow> vc_reach (snd (getCmdline argv sc st))"
| vc_env: "vc_reach st \<Longrightarrow> vc_reach (getEnv prefix sc env st)"
| vc_parse: "vc_reach st \<Longrightarrow> parseStream inp sc st = Inr st' \<Longrightarrow> vc_reach st'"
| vc_parse_throws: "vc_reach st \<Longrightarrow> parseStream inp sc st = Inl (e, st') \<Longrightarrow> vc_reach st'"
| vc_read: "vc_reach st \<Longrightarrow> vc_reach (snd (readFromFile name contents sc st))"
| vc_stream: "vc_reach st \<Longrightarrow> vc_reach (read_stream inp st)"
| vc_write: "vc_reach st \<Longrightarrow> vc_reach (snd (snd (writeToFile name opens m st)))"

lemma vc_ok_get: "vc_ok st \<Longrightarrow> vc_ok (snd (getItem sec key st))"
  by (cases st) (auto simp: getItem_def new_var_def split: option.splits elim: vc_ok_heap)

lemma vc_ok_conf: "m_conf c' = m_conf c \<Longrightarrow> vc_ok (h, c') = vc_ok (h, c)"
  by (simp add: vc_ok_def)

lemma vc_ok_fst_emit: "vc_ok st \<Longrightarrow> vc_ok (fst st, emit e (snd st))"
  by (cases st) simp

lemma parse_keeps_ok:
  "vc_ok st \<Longrightarrow> (case parseStream inp sc st of Inl x \<Rightarrow> vc_ok (snd x) | Inr st' \<Rightarrow> vc_ok st')"
proof (cases "parseStream inp sc st")
  case (Inl x)
  obtain e st' where x: "x = (e, st')" by (cases x)
  show "vc_ok st \<Longrightarrow> ?thesis" using parse_store_ok(2) Inl unfolding x by simp
next
  case (Inr st')
  show "vc_ok st \<Longrightarrow> ?thesis" using parse_store_ok(1) Inr by simp
qed

lemma vc_ok_read: "vc_ok st \<Longrightarrow> vc_ok (snd (readFromFile name contents sc st))"
proof (cases contents)
  case None
  then show "vc_ok st \<Longrightarrow> ?thesis" by (simp add: readFromFile_def vc_ok_fst_emit)
next
  case (Some inp)
  then show "vc_ok st \<Longrightarrow> ?thesis" using parse_keeps_ok [of st inp sc]
    by (auto simp: readFromFile_def vc_ok_fst_emit split: sum.splits)
qed

lemma vc_ok_stream: "vc_ok st \<Longrightarrow> vc_ok (read_stream inp st)"
  using parse_keeps_ok [of st inp scope_user]
  by (auto simp: read_stream_def vc_ok_fst_emit split: sum.splits)

lemma vc_ok_write: "vc_ok st \<Longrightarrow> vc_ok (snd (snd (writeToFile name opens m st)))"
  by (simp add: writeToFile_def vc_ok_fst_emit)

lemma vc_reach_ok: "vc_reach st \<Longrightarrow> vc_ok st"
proof (induction rule: vc_reach.induct)
  case vc_new
  show ?case by (rule vc_ok_new)
next
  case (vc_copy h c)
  then show ?case using vc_ok_conf [of "config_copy c" c h] by (simp add: config_copy_def)
next
  case (vc_lookup h c x l needs)
  then show ?case using vc_ok_conf [of "setParameterLookup x l needs c" c h]
    by (simp add: setParameterLookup_def)
next
  case (vc_value h c v)
  then show ?case by (auto simp: new_var_def elim: vc_ok_heap)
next
  case (vc_assign h c a v)
  then show ?case by (auto elim: vc_ok_heap)
next
  case (vc_parse st inp sc st')
  show ?case by (rule parse_store_ok(1) [OF vc_parse.IH vc_parse.hyps(2)])
next
  case (vc_parse_throws st inp sc e st')
  show ?case by (rule parse_store_ok(2) [OF vc_parse_throws.IH vc_parse_throws.hyps(2)])
qed (simp_all add: vc_ok_setItem vc_ok_set_text vc_ok_get vc_ok_erase getCmdline_def
      vc_ok_cmdline_from vc_ok_env vc_ok_read vc_ok_stream vc_ok_write)

section \<open>Long options\<close>

lemma scan_long_skip:
  "\<forall>c \<in> set xs. c \<noteq> CHR ''='' \<and> (fnd \<or> c \<noteq> CHR '':'') \<Longrightarrow>
    scan_long arg mark sec fnd j (xs @ ys) = scan_long arg mark sec fnd (j + length xs) ys"
  by (induction xs arbitrary: j) auto

lemma scan_long_section:
  assumes s: "CHR '':'' \<notin> set s" "CHR ''='' \<notin> set s" and n: "CHR ''='' \<notin> set n" "n \<noteq> []"
  shows "scan_long (''--'' @ s @ '':'' @ n @ r) 2 [] False 2 (s @ '':'' @ n @ r) =
    scan_long (''--'' @ s @ '':'' @ n @ r) (3 + length s) s True (3 + length s + length n) r"
proof -
  let ?arg = "''--'' @ s @ '':'' @ n @ r"
  have "scan_long ?arg 2 [] False 2 (s @ '':'' @ n @ r) =
      scan_long ?arg 2 [] False (2 + length s) ('':'' @ n @ r)"
    using s by (intro scan_long_skip) auto
  also have "\<dots> = scan_long ?arg (3 + length s) s True (3 + length s) (n @ r)"
    using n(2) by (simp add: numeral_3_eq_3)
  also have "\<dots> = scan_long ?arg (3 + length s) s True (3 + length s + length n) r"
    using n(1) by (intro scan_long_skip) auto
  finally show ?thesis .
qed

lemma long_arg_item:
  assumes "CHR '':'' \<notin> set s" "CHR ''='' \<notin> set s" "CHR ''='' \<notin> set n"
  shows "1 < length n \<Longrightarrow> long_arg (''--'' @ s @ '':'' @ n @ ''='' @ v) = (s, n, v)"
    and "length n = 1 \<Longrightarrow> CHR ''='' \<notin> set v \<Longrightarrow>
      long_arg (''--'' @ s @ '':'' @ n @ ''='' @ v) = (s, n @ ''='' @ v, [])"
proof -
  let ?arg = "''--'' @ s @ '':'' @ n @ ''='' @ v"
  have start: "n \<noteq> [] \<Longrightarrow> scan_long ?arg 2 [] False 2 (drop 2 ?arg) =
      scan_long ?arg (3 + length s) s True (3 + length s + length n) (''='' @ v)"
    using scan_long_section [OF assms, of "''='' @ v"] by simp
  show "1 < length n \<Longrightarrow> long_arg ?arg = (s, n, v)"
  proof -
    assume n: "1 < length n"
    then have "n \<noteq> []" by auto
    from start [OF this] n show ?thesis by (simp add: long_arg_def numeral_3_eq_3)
  qed
  show "length n = 1 \<Longrightarrow> CHR ''='' \<notin> set v \<Longrightarrow> long_arg ?arg = (s, n @ ''='' @ v, [])"
  proof -
    assume n: "length n = 1" and v: "CHR ''='' \<notin> set v"
    have "scan_long ?arg (3 + length s) s True (4 + length s) (''='' @ v) =
        scan_long ?arg (3 + length s) s True (5 + length s) (v @ [])"
      by simp
    also have "\<dots> = (s, 3 + length s, None)"
      using v by (subst scan_long_skip) auto
    finally have "scan_long ?arg (3 + length s) s True (4 + length s) (''='' @ v) = (s, 3 + length s, None)" .
    moreover have "n \<noteq> []" using n by auto
    ultimately show ?thesis using start n by (simp add: long_arg_def numeral_3_eq_3 numeral_Bit0)
  qed
qed

section \<open>Properties\<close>

text \<open>C30: config_names_clean: in every store a program can reach, the maps of a configuration are in
  order, every section name and item name consists of lower-case letters, digits, dashes and
  underscores, no item name is empty, and every item points to a value.\<close>

theorem config_names_clean:
  assumes "vc_reach (h, c)" and "smap_find s (m_conf c) = Some row" and "smap_find k row = Some a"
  shows "k \<noteq> [] \<and> list_all cfg_char (s @ k) \<and> clean s = s \<and> clean k = k \<and> a < length h"
proof -
  have row: "row_ok h row" and s: "clean s = s"
    using vc_reach_ok [OF assms(1)] assms(2) by (auto simp: vc_ok_def smap_find_def dest!: map_of_SomeD)
  then have k: "k \<noteq> [] \<and> clean k = k \<and> a < length h"
    using assms(3) by (auto simp: row_ok_def smap_find_def dest!: map_of_SomeD)
  then show ?thesis using s clean_list_all by (simp only: list_all_append) blast
qed

definition vc_sample :: store where
  "vc_sample = set_text ''Net'' ''Port'' [CHR ''6'', CHR 0x22, CHR 0x0A, CHR 0x5C] scope_user ([], config_new)"

lemma vc_sample_reach: "vc_reach vc_sample"
  unfolding vc_sample_def by (intro vc_set_text vc_new)

lemma vc_sample_ok: "vc_ok vc_sample"
  using vc_sample_reach by (rule vc_reach_ok)

theorem config_names_clean_witness:
  "clean ''net'' = ''net'' \<and> (0::nat) < length (fst vc_sample)"
proof -
  have "vc_reach (fst vc_sample, snd vc_sample)" using vc_sample_reach by simp
  moreover have "smap_find ''net'' (m_conf (snd vc_sample)) = Some [(''port'', 0)]" by code_simp
  moreover have "smap_find ''port'' [(''port'', 0::nat)] = Some 0" by simp
  ultimately show ?thesis using config_names_clean [of "fst vc_sample" "snd vc_sample"] by blast
qed

text \<open>Item_set: setting an item puts the text under the cleaned names and leaves every other item
  as it was; but when the item already has that very text, it keeps the scope it had.\<close>

theorem item_set:
  assumes "vc_reach st" and "key \<noteq> []"
  shows "item_at (set_text sec key v sc st) s k =
    (if s = clean sec \<and> k = clean key
     then (case item_at st s k of Some (w, t) \<Rightarrow> if w = v then Some (v, t) else Some (v, sc)
           | None \<Rightarrow> Some (v, sc))
     else item_at st s k)"
  using item_at_set_text [OF vc_reach_ok [OF assms(1)] assms(2)]
  by (auto simp: merge_item_def split: option.splits prod.splits)

theorem item_set_witness:
  "item_at (set_text ''NET'' ''port'' ''6767'' scope_global vc_sample) ''net'' ''port'' = Some (''6767'', scope_global)"
proof -
  have "item_at vc_sample ''net'' ''port'' = Some ([CHR ''6'', CHR 0x22, CHR 0x0A, CHR 0x5C], scope_user)"
    by code_simp
  moreover have "clean ''NET'' = ''net''" and "clean ''port'' = ''port''" by code_simp+
  ultimately show ?thesis
    using item_set [OF vc_sample_reach, of "''port''" "''NET''" "''6767''" scope_global "''net''" "''port''"]
    by simp
qed

text \<open>C29: config_roundtrip: what is written to a file with a mask is read back by the parser without an
  error, into any configuration and whatever the values contain: exactly the items whose scope the mask
  selects are set, every other item stays.\<close>

theorem config_roundtrip:
  assumes "vc_reach st" and "vc_reach st0"
  shows "\<exists>st'. parseStream (writeToStream m st) sc st0 = Inr st' \<and>
    (\<forall>s k. item_at st' s k = (case selected m (item_at st s k) of
        Some v \<Rightarrow> Some (merge_item v sc (item_at st0 s k)) | None \<Rightarrow> item_at st0 s k))"
  using parse_written read_back_item vc_reach_ok [OF assms(1)] vc_reach_ok [OF assms(2)] by blast

theorem config_roundtrip_witness:
  "\<exists>st'. parseStream (writeToStream scope_user vc_sample) scope_instance ([], config_new) = Inr st' \<and>
    item_at st' ''net'' ''port'' = Some ([CHR ''6'', CHR 0x22, CHR 0x0A, CHR 0x5C], scope_instance)"
proof -
  let ?v = "[CHR ''6'', CHR 0x22, CHR 0x0A, CHR 0x5C]"
  from config_roundtrip [OF vc_sample_reach vc_new, of scope_user scope_instance] obtain st' where
    st': "parseStream (writeToStream scope_user vc_sample) scope_instance ([], config_new) = Inr st'"
      "\<forall>s k. item_at st' s k = (case selected scope_user (item_at vc_sample s k) of
        Some v \<Rightarrow> Some (merge_item v scope_instance (item_at ([], config_new) s k))
      | None \<Rightarrow> item_at ([], config_new) s k)" by (elim exE conjE) (rule that)
  have "selected scope_user (item_at vc_sample ''net'' ''port'') = Some ?v"
    and "item_at ([], config_new) ''net'' ''port'' = None" by code_simp+
  then show ?thesis using st' by (auto simp: merge_item_def)
qed

text \<open>C31: parse_error_place: the parser throws exactly if, after a part of the text that it takes without error, there is
  a character that cannot come next, or the text ends in a quoted value. The exception names what could have come, the line
  in which that part ends, and the column of the offending character in this line - of the last character, at the end of
  the text. The items set by that part stay set.\<close>

theorem parse_error_place:
  "parseStream inp sc st = Inl (e, st') \<longleftrightarrow>
    (\<exists>pre rest p. inp = pre @ rest \<and> run_steps (parse_char sc) (parser_init st) pre = Inr p \<and> ps_store p = st' \<and>
      (case rest of
         [] \<Rightarrow> ps_state p = S_QUOTED_VALUE
       | c # _ \<Rightarrow> \<not> can_follow (ps_state p) (ctype c)) \<and>
      e = ParseError (expected (ps_state p)) (1 + count_list pre (CHR 0x0A))
            (length (last_line pre) + (if rest = [] then 0 else 1)))"
  (is "?l \<longleftrightarrow> (\<exists>pre rest p. ?r pre rest p)")
proof
  assume ?l
  from parse_fails_at [OF this] obtain pre rest p where
    p: "inp = pre @ rest" "run_steps (parse_char sc) (parser_init st) pre = Inr p" "ps_store p = st'"
      "case rest of [] \<Rightarrow> parse_end sc p = Inl (e, st') | c # _ \<Rightarrow> parse_char sc p c = Inl (e, st')"
    by (elim exE conjE) (rule that)
  have "?r pre rest p" using p parse_run_pos [OF p(2)]
    by (cases rest) (auto simp: parse_end_Inl parse_char_Inl)
  then show "\<exists>pre rest p. ?r pre rest p" by blast
next
  assume "\<exists>pre rest p. ?r pre rest p"
  then obtain pre rest p where p: "?r pre rest p" by blast
  then have r: "run_steps (parse_char sc) (parser_init st) pre = Inr p" by simp
  show ?l
  proof (cases rest)
    case Nil
    then have "parse_end sc p = Inl (e, st')" using p parse_run_pos [OF r] by (simp add: parse_end_Inl)
    then show ?thesis using Nil p r by (simp add: parseStream_def)
  next
    case (Cons c more)
    then have "parse_char sc p c = Inl (e, st')" using p parse_run_pos [OF r] by (simp add: parse_char_Inl)
    then show ?thesis using Cons p r by (simp add: parseStream_def run_steps_append)
  qed
qed

definition bad_input :: string where
  "bad_input = ''a=1'' @ [CHR 0x0A] @ ''b c''"

theorem parse_error_place_witness:
  "\<exists>st'. parseStream bad_input scope_user ([], config_new) = Inl (ParseError [CHR 0x27, CHR ''='', CHR 0x27] 2 3, st')"
proof -
  let ?pre = "''a=1'' @ [CHR 0x0A] @ ''b ''"
  have i: "bad_input = ?pre @ ''c''" by (simp add: bad_input_def)
  have "case run_steps (parse_char scope_user) (parser_init ([], config_new)) ?pre of
      Inl x \<Rightarrow> False | Inr p \<Rightarrow> ps_state p = S_EXPECT_EQ"
    by code_simp
  then obtain p where p: "run_steps (parse_char scope_user) (parser_init ([], config_new)) ?pre = Inr p" "ps_state p = S_EXPECT_EQ"
    by (cases "run_steps (parse_char scope_user) (parser_init ([], config_new)) ?pre") (auto split: sum.splits)
  have c: "\<not> can_follow S_EXPECT_EQ (ctype (CHR ''c''))" "1 + count_list ?pre (CHR 0x0A) = 2" "length (last_line ?pre) = 2"
    by code_simp+
  have "parseStream bad_input scope_user ([], config_new) = Inl (ParseError [CHR 0x27, CHR ''='', CHR 0x27] 2 3, ps_store p)"
    unfolding parse_error_place
    by (rule exI [of _ ?pre], rule exI [of _ "''c''"], rule exI [of _ p], unfold p c)
      (use i p c in \<open>simp add: expected_def del: append_assoc\<close>)
  then show ?thesis by blast
qed

text \<open>Long_option: a long option with a section, a name of more than one letter and a value sets that
  item. With a name of one letter the equal sign is not seen: the item whose name is the cleaned text of
  name, equal sign and value is set to the empty text.\<close>

theorem long_option:
  assumes "CHR '':'' \<notin> set s" "CHR ''='' \<notin> set s" "CHR ''='' \<notin> set n" "n \<noteq> []"
    and "1 < length n \<or> CHR ''='' \<notin> set v"
  shows "getCmdline [prog, ''--'' @ s @ '':'' @ n @ ''='' @ v] sc st =
    (2, if 1 < length n then set_text s n v sc st else set_text s (n @ ''='' @ v) [] sc st)"
proof -
  have len: "length n = 1" if "\<not> 1 < length n" using that assms(4) by (cases n) auto
  show ?thesis
    using long_arg_item [OF assms(1-3), of v] len assms(4,5)
    by (cases "1 < length n"; cases st) (simp_all add: getCmdline_def cmdline_arg_def)
qed

theorem long_option_witness:
  "getCmdline [''cyphesis'', ''--net:p=67''] scope_instance ([], config_new) =
    (2, set_text ''net'' ''p=67'' [] scope_instance ([], config_new)) \<and>
   getCmdline [''cyphesis'', ''--net:port=67''] scope_instance ([], config_new) =
    (2, set_text ''net'' ''port'' ''67'' scope_instance ([], config_new))"
  using long_option [of "''net''" "''p''" "''67''" "''cyphesis''" scope_instance "([], config_new)"]
    long_option [of "''net''" "''port''" "''67''" "''cyphesis''" scope_instance "([], config_new)"]
  by simp

text \<open>Copy_shares_values: a copy of a configuration shares its values: setting an item of the copy to
  its own value with another scope changes the scope of the item in the original.\<close>

theorem copy_shares_values:
  assumes "vc_reach (h, c)" and "smap_find s (m_conf c) = Some row" and "smap_find k row = Some a"
  shows "item_at (fst (setItem s k a sc (h, config_copy c)), c) s k = Some (vb_val (h ! a), sc)"
proof -
  have row: "row_ok h row" using vc_reach_ok [OF assms(1)] assms(2)
    by (auto simp: vc_ok_def smap_find_def dest!: map_of_SomeD)
  then have "k \<noteq> []" and a: "a < length h"
    using assms(3) by (auto simp: row_ok_def smap_find_def dest!: map_of_SomeD)
  then have "fst (setItem s k a sc (h, config_copy c)) = set_scope a sc h"
    by (simp add: setItem_def Let_def)
  then show ?thesis using assms(2,3) a by (simp add: item_at_row set_scope_nth)
qed

theorem copy_shares_values_witness:
  "item_at (fst (setItem ''net'' ''port'' 0 scope_global (fst vc_sample, config_copy (snd vc_sample))),
      snd vc_sample) ''net'' ''port'' = Some (vb_val (fst vc_sample ! 0), scope_global)"
proof -
  have "vc_reach (fst vc_sample, snd vc_sample)" using vc_sample_reach by simp
  moreover have "smap_find ''net'' (m_conf (snd vc_sample)) = Some [(''port'', 0)]" by code_simp
  ultimately show ?thesis by (rule copy_shares_values) simp
qed

text \<open>Number_checks: a text that passes \<open>is_int\<close> never makes the conversion fail for not being a
  number, but it may be out of range; the empty text passes \<open>is_double\<close>, and the conversion throws.\<close>

theorem number_checks:
  assumes "is_int v" and "\<not> vb_have_int v"
  shows "to_int v \<noteq> Inl InvalidArgument \<and>
    is_int (var_string ''2147483648'') \<and> to_int (var_string ''2147483648'') = Inl OutOfRange \<and>
    is_double (var_string []) \<and> to_double (var_string []) = Inl InvalidArgument"
proof -
  have "to_int v \<noteq> Inl InvalidArgument"
    using is_int_stoi [OF assms(1)] assms(2) by (auto simp: to_int_def split: sum.splits)
  moreover have "is_int (var_string ''2147483648'')" by code_simp
  moreover have "to_int (var_string ''2147483648'') = Inl OutOfRange"
    by (simp add: to_int_def var_string_def var_blank_def stoi_def split_sign_def is_space_def
        is_digit_def digits_val_def digit_val_def)
  moreover have "is_double (var_string [])" by code_simp
  moreover have "to_double (var_string []) = Inl InvalidArgument"
    by (simp add: to_double_def var_string_def var_blank_def std_stod_def stod_def split_sign_def
        read_decimal_def split_point_def strtod_rest_def)
  ultimately show ?thesis by blast
qed

theorem number_checks_witness: "to_int (var_string ''-12'') \<noteq> Inl InvalidArgument"
proof -
  have "is_int (var_string ''-12'')" by code_simp
  moreover have "\<not> vb_have_int (var_string ''-12'')" by code_simp
  ultimately show ?thesis using number_checks by blast
qed

end
