(* ===== verification/Float64.thy ===== *)
theory Float64
  imports Doubles
begin

text \<open>
  Arithmetic on IEEE-754 doubles in the default rounding mode, as far as the code uses it: a double is its
  64 bits (\<open>Doubles\<close>), and every operation rounds the exact result, a fraction of natural numbers with a
  sign. Beside it the comparison \<open>Atlas::Equal\<close> of \<open>libs/atlas/src/Atlas/float.cpp\<close>, which is how two
  float elements are compared.
\<close>

section \<open>Rounding\<close>

text \<open>
  The nearest multiple of a power of two that has at most \<open>prec\<close> bits behind the leading one and whose
  exponent is at least \<open>emin\<close>: its integer and its exponent.
\<close>

definition round_dyadic :: "int \<Rightarrow> int \<Rightarrow> nat \<Rightarrow> nat \<Rightarrow> nat \<times> int" where
  "round_dyadic prec emin n d =
     (let k = int (bit_length n) - int (bit_length d);
          lg = (if (if 0 \<le> k then d * 2 ^ nat k \<le> n else d \<le> n * 2 ^ nat (- k)) then k else k - 1);
          e = max (lg - prec) emin
      in (scale2 n d e, e))"

definition f64_inf :: "bool \<Rightarrow> f64" where
  "f64_inf neg = f64_make neg (2047 * 2 ^ 52)"

definition f64_nan :: f64 where
  "f64_nan = f64_make True (2047 * 2 ^ 52 + 2 ^ 51)"

definition round_f64 :: "bool \<Rightarrow> nat \<Rightarrow> nat \<Rightarrow> f64" where
  "round_f64 neg n d =
     (if n = 0 then f64_make neg 0
      else case round_dyadic 52 (-1074) n d of (m, e) \<Rightarrow>
        if m < 2 ^ 52 then f64_make neg m
        else let b = (if m = 2 ^ 53 then e + 1076 else e + 1075);
                 f = (if m = 2 ^ 53 then 0 else m - 2 ^ 52)
             in if 2047 \<le> b then f64_inf neg else f64_make neg (nat b * 2 ^ 52 + f))"

section \<open>The value of a double\<close>

definition f64_is_nan :: "f64 \<Rightarrow> bool" where
  "f64_is_nan w \<longleftrightarrow> f64_exp w = 2047 \<and> f64_man w \<noteq> 0"

definition f64_is_inf :: "f64 \<Rightarrow> bool" where
  "f64_is_inf w \<longleftrightarrow> f64_exp w = 2047 \<and> f64_man w = 0"

text \<open>A finite double is an integer times \<open>2 ^ (-1074)\<close>.\<close>

definition f64_scaled :: "f64 \<Rightarrow> int" where
  "f64_scaled w =
     (let m = (if f64_exp w = 0 then f64_man w else (2 ^ 52 + f64_man w) * 2 ^ (f64_exp w - 1))
      in if f64_neg w then - int m else int m)"

definition f64_of_scaled :: "int \<Rightarrow> f64" where
  "f64_of_scaled i = round_f64 (i < 0) (nat \<bar>i\<bar>) (2 ^ 1074)"

section \<open>Operations\<close>

definition f64_of_int :: "i64 \<Rightarrow> f64" where
  "f64_of_int i = round_f64 (sint i < 0) (nat \<bar>sint i\<bar>) 1"

definition f64_negate :: "f64 \<Rightarrow> f64" where
  "f64_negate w = f64_make (\<not> f64_neg w) (unat w mod 2 ^ 63)"

definition f64_abs :: "f64 \<Rightarrow> f64" where
  "f64_abs w = f64_make False (unat w mod 2 ^ 63)"

text \<open>An exact zero is positive, unless both operands are negative zeros.\<close>

definition f64_add :: "f64 \<Rightarrow> f64 \<Rightarrow> f64" where
  "f64_add a b =
     (if f64_is_nan a \<or> f64_is_nan b then f64_nan
      else if f64_is_inf a \<and> f64_is_inf b then (if f64_neg a = f64_neg b then a else f64_nan)
      else if f64_is_inf a then a
      else if f64_is_inf b then b
      else let s = f64_scaled a + f64_scaled b
           in if s = 0 then f64_make (f64_neg a \<and> f64_neg b) 0 else f64_of_scaled s)"

definition f64_sub :: "f64 \<Rightarrow> f64 \<Rightarrow> f64" where
  "f64_sub a b = f64_add a (f64_negate b)"

definition f64_mul :: "f64 \<Rightarrow> f64 \<Rightarrow> f64" where
  "f64_mul a b =
     (let neg = (f64_neg a \<noteq> f64_neg b) in
      if f64_is_nan a \<or> f64_is_nan b then f64_nan
      else if f64_is_inf a \<or> f64_is_inf b then
        (if f64_scaled a = 0 \<and> \<not> f64_is_inf a \<or> f64_scaled b = 0 \<and> \<not> f64_is_inf b then f64_nan
         else f64_inf neg)
      else round_f64 neg (nat \<bar>f64_scaled a * f64_scaled b\<bar>) (2 ^ 2148))"

definition f64_less :: "f64 \<Rightarrow> f64 \<Rightarrow> bool" where
  "f64_less a b \<longleftrightarrow> \<not> f64_is_nan a \<and> \<not> f64_is_nan b \<and> f64_scaled a < f64_scaled b"

definition f64_less_eq :: "f64 \<Rightarrow> f64 \<Rightarrow> bool" where
  "f64_less_eq a b \<longleftrightarrow> \<not> f64_is_nan a \<and> \<not> f64_is_nan b \<and> f64_scaled a \<le> f64_scaled b"

text \<open>The conversion to \<open>float\<close>, whose values are doubles too.\<close>

definition f64_narrow :: "f64 \<Rightarrow> f64" where
  "f64_narrow w =
     (if f64_is_nan w \<or> f64_is_inf w then w
      else let n = nat \<bar>f64_scaled w\<bar> in
        if n = 0 then w
        else case round_dyadic 23 (-149) n (2 ^ 1074) of (m, e) \<Rightarrow>
          (let v = (if 0 \<le> e then round_f64 (f64_neg w) (m * 2 ^ nat e) 1
                    else round_f64 (f64_neg w) m (2 ^ nat (- e)))
           in if 2 ^ 24 * 2 ^ 104 * 2 ^ 1074 \<le> \<bar>f64_scaled v\<bar> then f64_inf (f64_neg w) else v))"

section \<open>Comparison with a tolerance\<close>

text \<open>The exponent \<open>frexp\<close> gives: the number lies between \<open>2 ^ (x - 1)\<close> and \<open>2 ^ x\<close>.\<close>

definition frexp_exponent :: "f64 \<Rightarrow> int" where
  "frexp_exponent w = (if \<not> f64_finite w \<or> f64_scaled w = 0 then 0
     else int (bit_length (nat \<bar>f64_scaled w\<bar>)) - 1074)"

definition f64_epsilon :: f64 where
  "f64_epsilon = round_f64 False 1 (2 ^ 52)"

definition ldexp_epsilon :: "int \<Rightarrow> f64" where
  "ldexp_epsilon x = (if 52 \<le> x then round_f64 False (2 ^ nat (x - 52)) 1
     else round_f64 False 1 (2 ^ nat (52 - x)))"

definition scale_epsilon :: "f64 \<Rightarrow> f64 \<Rightarrow> f64" where
  "scale_epsilon a b =
     ldexp_epsilon (frexp_exponent (if f64_less (f64_abs a) (f64_abs b) then a else b))"

definition f64_equal :: "f64 \<Rightarrow> f64 \<Rightarrow> bool" where
  "f64_equal a b \<longleftrightarrow> f64_less_eq (f64_abs (f64_sub a b)) (scale_epsilon a b)"

end
