(* ===== verification/Filter_Values.thy ===== *)
theory Filter_Values
  imports Atlas_Message Float64
begin

text \<open>
  What an entity filter works on (\<open>apps/cyphesis/src/rules/entityfilter/Providers.h\<close>). The filter is a template
  over the class of entities; the operations it uses of that class and of its types are the fields of a
  \<open>world\<close>. Entities, types and containers are objects at addresses, the null pointer is 0, and a pointer
  element of \<open>Atlas::Message::Element\<close> holds an address without saying what is there.
\<close>

section \<open>Elements\<close>

text \<open>\<open>Element::operator==\<close>: elements of different types differ; floats are compared with \<open>Atlas::Equal\<close>.\<close>

fun elem_equal :: "elem \<Rightarrow> elem \<Rightarrow> bool"
  and map_equal :: "map_type \<Rightarrow> map_type \<Rightarrow> bool"
  and list_equal :: "list_type \<Rightarrow> list_type \<Rightarrow> bool"
where
  "elem_equal ENone ENone = True"
| "elem_equal (EInt i) (EInt j) = (i = j)"
| "elem_equal (EFloat f) (EFloat g) = f64_equal f g"
| "elem_equal (EPtr p) (EPtr q) = (p = q)"
| "elem_equal (EString s) (EString t) = (s = t)"
| "elem_equal (EMap m) (EMap n) = map_equal m n"
| "elem_equal (EList l) (EList r) = list_equal l r"
| "elem_equal _ _ = False"
| "map_equal [] [] = True"
| "map_equal ((k, x) # m) ((k', y) # n) = (k = k' \<and> elem_equal x y \<and> map_equal m n)"
| "map_equal _ _ = False"
| "list_equal [] [] = True"
| "list_equal (x # l) (y # r) = (elem_equal x y \<and> list_equal l r)"
| "list_equal _ _ = False"

definition is_num :: "elem \<Rightarrow> bool" where
  "is_num v = (case v of EInt i \<Rightarrow> True | EFloat f \<Rightarrow> True | _ \<Rightarrow> False)"

definition as_num :: "elem \<Rightarrow> f64" where
  "as_num v = (case v of EInt i \<Rightarrow> f64_of_int i | EFloat f \<Rightarrow> f | _ \<Rightarrow> 0)"

definition elem_is_ptr :: "elem \<Rightarrow> bool" where
  "elem_is_ptr v = (case v of EPtr p \<Rightarrow> True | _ \<Rightarrow> False)"

section \<open>Effects of an evaluation\<close>

text \<open>
  What ends an evaluation: a member call through a null pointer, a cast of a pointer to a class its object does
  not have, reading the pointer of an element that holds none (the member of the union is not
  initialised), the exception of a bounding box that does not parse, and a recursion that does not end.
\<close>

datatype fault = NullDereference | WrongCast | NoPointer | BadParse | EndlessRecursion

text \<open>A result comes with the descriptions that were reported until then.\<close>

type_synonym 'a outcome = "fault + 'a \<times> string list"

definition ret :: "'a \<Rightarrow> 'a outcome" where
  "ret x = Inr (x, [])"

definition fail_with :: "fault \<Rightarrow> 'a outcome" where
  "fail_with e = Inl e"

definition report_to :: "string list \<Rightarrow> 'a \<Rightarrow> 'a outcome" where
  "report_to rs x = Inr (x, rs)"

definition and_then :: "'a outcome \<Rightarrow> ('a \<Rightarrow> 'b outcome) \<Rightarrow> 'b outcome" where
  "and_then m f = (case m of Inl e \<Rightarrow> Inl e
     | Inr (x, rs) \<Rightarrow> (case f x of Inl e \<Rightarrow> Inl e | Inr (y, qs) \<Rightarrow> Inr (y, rs @ qs)))"

lemma and_then_simps [simp]:
  "and_then (Inl e) f = Inl e"
  "and_then (ret x) f = f x"
  "and_then (fail_with e) f = fail_with e"
  by (auto simp: and_then_def ret_def fail_with_def split: sum.splits)

lemma and_then_Inr:
  "and_then m f = Inr (y, rs) \<longleftrightarrow>
    (\<exists>x ps qs. m = Inr (x, ps) \<and> f x = Inr (y, qs) \<and> rs = ps @ qs)"
  by (auto simp: and_then_def split: sum.splits prod.splits)

lemma and_then_Inl:
  "and_then m f = Inl e \<longleftrightarrow> m = Inl e \<or> (\<exists>x ps. m = Inr (x, ps) \<and> f x = Inl e)"
  by (auto simp: and_then_def split: sum.splits prod.splits)

lemma and_then_cong [fundef_cong]:
  "m = m' \<Longrightarrow> (\<And>x ps. m' = Inr (x, ps) \<Longrightarrow> f x = g x) \<Longrightarrow> and_then m f = and_then m' g"
  by (auto simp: and_then_def split: sum.splits prod.splits)

section \<open>The world\<close>

type_synonym addr = "64 word"

datatype kind = KEntity | KType | KContainer | KLocation

datatype measurement = HEIGHT | WIDTH | DEPTH | VOLUME | AREA

text \<open>
  \<open>w_kind\<close> is what is at an address. The other fields are the member functions of the entity class
  (\<open>getType\<close>, \<open>getIdAsInt\<close>, \<open>getIdAsString\<close>, \<open>getAttr\<close>, \<open>getProperty\<close>, \<open>containsAsPtr\<close>, the \<open>reach\<close> property,
  \<open>canReach\<close>), the elements of a container, and the name and the parent of a type. The last two bound the
  number of types and of entities.
\<close>

record 'p world =
  w_kind :: "addr \<Rightarrow> kind option"
  w_type :: "addr \<Rightarrow> addr"
  w_id :: "addr \<Rightarrow> i64"
  w_id_text :: "addr \<Rightarrow> string"
  w_attr :: "addr \<Rightarrow> string \<Rightarrow> elem option"
  w_prop :: "addr \<Rightarrow> string \<Rightarrow> elem option"
  w_contains :: "addr \<Rightarrow> addr"
  w_items :: "addr \<Rightarrow> addr list"
  w_reach :: "addr \<Rightarrow> f64 option"
  w_can_reach :: "addr \<Rightarrow> addr \<Rightarrow> 'p option \<Rightarrow> f64 \<Rightarrow> bool"
  w_type_name :: "addr \<Rightarrow> string"
  w_type_parent :: "addr \<Rightarrow> addr"
  w_types :: nat
  w_entities :: nat

record 'p query_context =
  qc_entity :: addr
  qc_location :: addr
  qc_pos :: "'p option"
  qc_actor :: addr
  qc_tool :: addr
  qc_child :: addr
  qc_memory :: "(string \<Rightarrow> map_type) option"
  qc_self :: addr
  qc_find_entity :: "(string \<Rightarrow> addr) option"
  qc_find_type :: "(string \<Rightarrow> addr) option"
  qc_report :: bool

text \<open>
  \<open>TypeNode::isTypeOf\<close> follows the parents. A walk that is longer than the number of types has come back to a
  type it has seen and does not end.
\<close>

fun is_type_of :: "'p world \<Rightarrow> nat \<Rightarrow> addr \<Rightarrow> addr \<Rightarrow> bool outcome" where
  "is_type_of w 0 t base = fail_with EndlessRecursion"
| "is_type_of w (Suc n) t base =
     (if t = base then ret True
      else if w_type_parent w t = 0 then ret False
      else is_type_of w n (w_type_parent w t) base)"

section \<open>Bounding boxes\<close>

text \<open>\<open>AxisBox<3>::fromAtlas\<close> of \<open>libs/wfmath/src/wfmath/atlasconv.h\<close> with the low and the high corner as lists.\<close>

definition num_of :: "elem \<Rightarrow> f64 option" where
  "num_of v = (if is_num v then Some (as_num v) else None)"

text \<open>
  The six numbers of a box, the low and the high one for each axis. A number that is not finite ends the
  reading, and then the corners are not ordered.
\<close>

fun six_corners :: "nat \<Rightarrow> (elem \<times> elem) list \<Rightarrow> f64 list \<times> f64 list \<Rightarrow> (bool \<times> f64 list \<times> f64 list) option" where
  "six_corners i [] c = Some (True, c)"
| "six_corners i ((a, b) # r) (lo, hi) = (case num_of a of None \<Rightarrow> None | Some x \<Rightarrow>
     if \<not> f64_finite x then Some (False, lo[i := x], hi)
     else (case num_of b of None \<Rightarrow> None | Some y \<Rightarrow>
       if \<not> f64_finite y then Some (False, lo[i := x], hi[i := y])
       else six_corners (i + 1) r (lo[i := x], hi[i := y])))"

definition box_corners :: "elem \<Rightarrow> (bool \<times> f64 list \<times> f64 list) option" where
  "box_corners v = (case v of
     EList l \<Rightarrow>
       (if length l = 3 then
          (if list_all is_num l then Some (True, [0, 0, 0], map as_num l) else None)
        else if length l = 6 then six_corners 0 (zip (take 3 l) (drop 3 l)) ([0, 0, 0], [0, 0, 0])
        else None)
   | _ \<Rightarrow> None)"

definition ordered_corners :: "f64 list \<times> f64 list \<Rightarrow> f64 list \<times> f64 list" where
  "ordered_corners c = (case c of (lo, hi) \<Rightarrow>
     (map2 (\<lambda>a b. if f64_less b a then b else a) lo hi, map2 (\<lambda>a b. if f64_less b a then a else b) lo hi))"

definition box_from_atlas :: "elem \<Rightarrow> (f64 list \<times> f64 list) option" where
  "box_from_atlas v = (case box_corners v of None \<Rightarrow> None
     | Some (ordered, c) \<Rightarrow> Some (if ordered then ordered_corners c else c))"

definition measure_box :: "measurement \<Rightarrow> f64 list \<times> f64 list \<Rightarrow> f64" where
  "measure_box m c = (case c of (lo, hi) \<Rightarrow>
     let x = f64_sub (hi ! 0) (lo ! 0); y = f64_sub (hi ! 1) (lo ! 1); z = f64_sub (hi ! 2) (lo ! 2)
     in case m of WIDTH \<Rightarrow> x | DEPTH \<Rightarrow> z | HEIGHT \<Rightarrow> y
        | VOLUME \<Rightarrow> f64_mul (f64_mul x y) z | AREA \<Rightarrow> f64_mul x z)"

end
