(* ===== verification/Filter_Predicate.thy ===== *)
theory Filter_Predicate
  imports Filter_Values
begin

text \<open>
  Providers and predicates of an entity filter (\<open>Providers_impl.h\<close> and \<open>Predicates_impl.h\<close> in
  \<open>apps/cyphesis/src/rules/entityfilter\<close>). A provider writes a value into an element it is given, and
  may leave it alone; a missing next provider is \<open>None\<close>. A provider also says which pointer it gives, if that
  can be told; the predicates cast pointers on the strength of that.
\<close>

datatype comparator = EQUALS | NOT_EQUALS | INSTANCE_OF | IN_LIST | INCLUDES | GREATER | GREATER_EQUAL
  | LESS | LESS_EQUAL | CAN_REACH

datatype type_provider = TypeNodeProvider string

datatype map_provider = MapProvider "map_provider option" string

datatype entity_provider =
    EntityTypeProvider "type_provider option"
  | EntityIdProvider
  | BBoxProvider "map_provider option" measurement
  | SoftPropertyProvider "map_provider option" string
  | ContainsProvider

datatype provider =
    FixedElement elem
  | FixedTypeNode "type_provider option" addr
  | DynamicTypeNode "type_provider option" string
  | MemoryProvider "map_provider option"
  | EntityProvider "entity_provider option"
  | EntityLocationProvider "entity_provider option"
  | ActorProvider "entity_provider option"
  | ToolProvider "entity_provider option"
  | ChildProvider "entity_provider option"
  | SelfEntityProvider "entity_provider option"
  | ContainsFunction provider predicate bool
  | GetEntityFunction "provider option" "entity_provider option"
and predicate =
    ComparePredicate provider provider comparator "provider option"
  | DescribePredicate string predicate
  | AndPredicate predicate predicate
  | OrPredicate predicate predicate
  | NotPredicate predicate
  | BoolPredicate "provider option"

section \<open>The type of a pointer\<close>

text \<open>\<open>getType\<close>: \<open>None\<close> is the null pointer.\<close>

definition type_provider_type :: "type_provider \<Rightarrow> kind option" where
  "type_provider_type c = None"

primrec map_provider_type :: "map_provider \<Rightarrow> kind option" where
  "map_provider_type (MapProvider c n) = (case map_option map_provider_type c of None \<Rightarrow> None | Some t \<Rightarrow> t)"

definition next_type :: "('c \<Rightarrow> kind option) \<Rightarrow> kind option \<Rightarrow> 'c option \<Rightarrow> kind option" where
  "next_type f own c = (case c of None \<Rightarrow> own | Some c' \<Rightarrow> f c')"

fun entity_provider_type :: "entity_provider \<Rightarrow> kind option" where
  "entity_provider_type (EntityTypeProvider c) = next_type type_provider_type (Some KType) c"
| "entity_provider_type EntityIdProvider = None"
| "entity_provider_type (BBoxProvider c m) = next_type map_provider_type None c"
| "entity_provider_type (SoftPropertyProvider c n) = next_type map_provider_type None c"
| "entity_provider_type ContainsProvider = Some KContainer"

fun get_type :: "provider \<Rightarrow> kind option" where
  "get_type (FixedElement v) = None"
| "get_type (FixedTypeNode c t) = next_type type_provider_type (Some KType) c"
| "get_type (DynamicTypeNode c t) = next_type type_provider_type (Some KType) c"
| "get_type (MemoryProvider c) = next_type map_provider_type None c"
| "get_type (EntityProvider c) = next_type entity_provider_type (Some KEntity) c"
| "get_type (EntityLocationProvider c) = next_type entity_provider_type (Some KLocation) c"
| "get_type (ActorProvider c) = next_type entity_provider_type (Some KEntity) c"
| "get_type (ToolProvider c) = next_type entity_provider_type (Some KEntity) c"
| "get_type (ChildProvider c) = next_type entity_provider_type (Some KEntity) c"
| "get_type (SelfEntityProvider c) = next_type entity_provider_type (Some KEntity) c"
| "get_type (ContainsFunction c p r) = None"
| "get_type (GetEntityFunction e c) = next_type entity_provider_type (Some KEntity) c"

definition is_type :: "kind \<Rightarrow> provider \<Rightarrow> bool" where
  "is_type t c \<longleftrightarrow> get_type c = Some t"

section \<open>Values\<close>

definition type_value :: "'p world \<Rightarrow> type_provider \<Rightarrow> elem \<Rightarrow> addr \<Rightarrow> elem" where
  "type_value w c v t = (case c of TypeNodeProvider n \<Rightarrow>
     if n = ''name'' then EString (w_type_name w t) else v)"

fun map_value :: "map_provider \<Rightarrow> elem \<Rightarrow> elem \<Rightarrow> elem" where
  "map_value (MapProvider c n) v parent = (case parent of
     EMap m \<Rightarrow> (case smap_find n m of None \<Rightarrow> v
       | Some x \<Rightarrow> (case c of None \<Rightarrow> x | Some c' \<Rightarrow> map_value c' v x))
   | _ \<Rightarrow> v)"

definition bbox_value :: "'p world \<Rightarrow> measurement \<Rightarrow> elem \<Rightarrow> addr \<Rightarrow> elem outcome" where
  "bbox_value w m v a = (case w_attr w a ''bbox'' of None \<Rightarrow> ret v
     | Some d \<Rightarrow> (case box_from_atlas d of None \<Rightarrow> fail_with BadParse
         | Some c \<Rightarrow> ret (EFloat (measure_box m c))))"

definition entity_value :: "'p world \<Rightarrow> entity_provider \<Rightarrow> elem \<Rightarrow> addr \<Rightarrow> elem outcome" where
  "entity_value w c v a = (case c of
     EntityTypeProvider c' \<Rightarrow>
       ret (if w_type w a = 0 then v
            else (case c' of None \<Rightarrow> EPtr (w_type w a) | Some t \<Rightarrow> type_value w t v (w_type w a)))
   | EntityIdProvider \<Rightarrow> ret (EInt (w_id w a))
   | BBoxProvider c' m \<Rightarrow> bbox_value w m v a
   | SoftPropertyProvider c' n \<Rightarrow>
       ret (case w_prop w a n of None \<Rightarrow> v
            | Some x \<Rightarrow> (case c' of None \<Rightarrow> x | Some m \<Rightarrow> map_value m v x))
   | ContainsProvider \<Rightarrow> ret (EPtr (w_contains w a)))"

text \<open>A provider of an entity that is there gives its pointer, or asks the next provider about it.\<close>

definition direct_value :: "'p world \<Rightarrow> entity_provider option \<Rightarrow> elem \<Rightarrow> addr \<Rightarrow> elem outcome" where
  "direct_value w n v a = (case n of None \<Rightarrow> ret (EPtr a) | Some e \<Rightarrow> entity_value w e v a)"

text \<open>
  A provider of an entity that may be missing: with a next provider and an entity that provider is asked,
  in every other case the pointer itself is the value.
\<close>

definition maybe_entity_value :: "'p world \<Rightarrow> entity_provider option \<Rightarrow> elem \<Rightarrow> addr \<Rightarrow> elem outcome" where
  "maybe_entity_value w c v a = (case c of
     Some c' \<Rightarrow> if a \<noteq> 0 then entity_value w c' v a else ret (EPtr a)
   | None \<Rightarrow> ret (EPtr a))"

text \<open>
  \<open>checkContainer\<close> over the items of a container; \<open>ok\<close> is the condition with the item as the child.
  A search that is nested deeper than there are entities has come back into a container it is searching.
\<close>

fun check_items :: "'p world \<Rightarrow> (addr \<Rightarrow> bool outcome) \<Rightarrow> bool \<Rightarrow> nat \<Rightarrow> addr list \<Rightarrow> bool outcome" where
  "check_items w ok recursive n [] = ret False"
| "check_items w ok recursive n (a # as) = and_then (ok a) (\<lambda>found.
     if found then ret True
     else if recursive \<and> w_contains w a \<noteq> 0 \<and> w_items w (w_contains w a) \<noteq> [] then
       (case n of
          0 \<Rightarrow> fail_with EndlessRecursion
        | Suc m \<Rightarrow> and_then (check_items w ok recursive m (w_items w (w_contains w a))) (\<lambda>inner.
            if inner then ret True else check_items w ok recursive n as))
     else check_items w ok recursive n as)"

definition check_container :: "'p world \<Rightarrow> (addr \<Rightarrow> bool outcome) \<Rightarrow> bool \<Rightarrow> addr \<Rightarrow> bool outcome" where
  "check_container w ok recursive s =
     (if s = 0 then ret False
      else if w_kind w s \<noteq> Some KContainer then fail_with WrongCast
      else check_items w ok recursive (w_entities w) (w_items w s))"

text \<open>The pointer of an element, cast to a class. Null may be cast to every class.\<close>

definition cast_ptr :: "'p world \<Rightarrow> kind \<Rightarrow> elem \<Rightarrow> addr outcome" where
  "cast_ptr w k v = (case v of
     EPtr p \<Rightarrow> if p = 0 \<or> w_kind w p = Some k then ret p else fail_with WrongCast
   | _ \<Rightarrow> fail_with NoPointer)"

definition elem_of_bool :: "bool \<Rightarrow> elem" where
  "elem_of_bool b = EInt (if b then 1 else 0)"

section \<open>Comparing\<close>

definition compare_nums :: "comparator \<Rightarrow> f64 \<Rightarrow> f64 \<Rightarrow> bool" where
  "compare_nums c a b = (case c of
     LESS \<Rightarrow> f64_less a b | LESS_EQUAL \<Rightarrow> f64_less_eq a b
   | GREATER \<Rightarrow> f64_less b a | GREATER_EQUAL \<Rightarrow> f64_less_eq b a | _ \<Rightarrow> False)"

text \<open>The right side is only asked when the left side has the right form.\<close>

definition instance_of_match :: "'p world \<Rightarrow> elem \<Rightarrow> elem outcome \<Rightarrow> bool outcome" where
  "instance_of_match w left right =
     (if elem_is_ptr left then and_then (cast_ptr w KEntity left) (\<lambda>a.
        if a = 0 then fail_with NullDereference
        else if w_type w a = 0 then ret False
        else and_then right (\<lambda>r.
          if elem_is_ptr r then and_then (cast_ptr w KType r) (\<lambda>t.
            if t = 0 then ret False else is_type_of w (Suc (w_types w)) (w_type w a) t)
          else ret False))
      else ret False)"

definition in_match :: "elem \<Rightarrow> elem outcome \<Rightarrow> bool outcome" where
  "in_match left right =
     (if left = ENone then ret False
      else and_then right (\<lambda>r. case r of EList l \<Rightarrow> ret (list_ex (\<lambda>x. elem_equal x left) l) | _ \<Rightarrow> ret False))"

definition includes_match :: "elem \<Rightarrow> elem outcome \<Rightarrow> bool outcome" where
  "includes_match left right = (case left of
     EList l \<Rightarrow> and_then right (\<lambda>r.
       if r = ENone then ret False else ret (list_ex (\<lambda>x. elem_equal x r) l))
   | _ \<Rightarrow> ret False)"

text \<open>
  \<open>can_reach\<close>: the right side is an entity, or a place in an entity, whose pointer is followed; \<open>located\<close>
  says which. The pointer of \<open>with\<close> is followed without a test.
\<close>

definition reach_target :: "'p world \<Rightarrow> 'p query_context \<Rightarrow> bool \<Rightarrow> elem \<Rightarrow> (addr \<times> 'p option) outcome" where
  "reach_target w c located right =
     (if located then and_then (cast_ptr w KLocation right) (\<lambda>l.
        if l = 0 then fail_with NullDereference else ret (qc_entity c, qc_pos c))
      else and_then (cast_ptr w KEntity right) (\<lambda>a. ret (a, None)))"

definition extra_reach :: "'p world \<Rightarrow> elem outcome option \<Rightarrow> f64 outcome" where
  "extra_reach w with_value = (case with_value of None \<Rightarrow> ret 0
     | Some m \<Rightarrow> and_then m (\<lambda>v. and_then (cast_ptr w KEntity v) (\<lambda>a.
         if a = 0 then fail_with NullDereference
         else ret (case w_reach w a of None \<Rightarrow> 0 | Some d \<Rightarrow> f64_narrow d))))"

definition can_reach_match ::
  "'p world \<Rightarrow> 'p query_context \<Rightarrow> bool \<Rightarrow> elem \<Rightarrow> elem outcome \<Rightarrow> elem outcome option \<Rightarrow> bool outcome" where
  "can_reach_match w c located left right with_value =
     and_then (cast_ptr w KEntity left) (\<lambda>a. and_then right (\<lambda>r.
       and_then (reach_target w c located r) (\<lambda>t. and_then (extra_reach w with_value) (\<lambda>d.
         ret (a \<noteq> 0 \<and> fst t \<noteq> 0 \<and> w_can_reach w a (fst t) (snd t) d)))))"

definition compare_match ::
  "'p world \<Rightarrow> 'p query_context \<Rightarrow> comparator \<Rightarrow> bool \<Rightarrow> elem outcome \<Rightarrow> elem outcome \<Rightarrow> elem outcome option \<Rightarrow> bool outcome" where
  "compare_match w c op located lhs rhs with_value = and_then lhs (\<lambda>left. case op of
     EQUALS \<Rightarrow> and_then rhs (\<lambda>right. ret (elem_equal left right))
   | NOT_EQUALS \<Rightarrow> and_then rhs (\<lambda>right. ret (\<not> elem_equal left right))
   | INSTANCE_OF \<Rightarrow> instance_of_match w left rhs
   | IN_LIST \<Rightarrow> in_match left rhs
   | INCLUDES \<Rightarrow> includes_match left rhs
   | CAN_REACH \<Rightarrow> can_reach_match w c located left rhs with_value
   | _ \<Rightarrow> (if is_num left then and_then rhs (\<lambda>right.
            ret (is_num right \<and> compare_nums op (as_num left) (as_num right))) else ret False))"

section \<open>Providers and predicates\<close>

definition find_reference :: "elem \<Rightarrow> string option" where
  "find_reference v = (case v of
     EMap m \<Rightarrow> (case smap_find ''$eid'' m of Some (EString s) \<Rightarrow> Some s | _ \<Rightarrow> None)
   | _ \<Rightarrow> None)"

definition follow_reference ::
  "'p world \<Rightarrow> (string \<Rightarrow> addr) \<Rightarrow> entity_provider option \<Rightarrow> elem \<Rightarrow> elem \<Rightarrow> elem outcome" where
  "follow_reference w look n v x = (case find_reference x of None \<Rightarrow> ret v
     | Some s \<Rightarrow> if look s = 0 then ret v else direct_value w n v (look s))"

fun provider_value :: "'p world \<Rightarrow> provider \<Rightarrow> 'p query_context \<Rightarrow> elem \<Rightarrow> elem outcome"
  and is_match :: "'p world \<Rightarrow> predicate \<Rightarrow> 'p query_context \<Rightarrow> bool outcome"
where
  "provider_value w (FixedElement e) c v = ret e"
| "provider_value w (FixedTypeNode n t) c v =
     ret (case n of None \<Rightarrow> EPtr t | Some n' \<Rightarrow> type_value w n' v t)"
| "provider_value w (DynamicTypeNode n s) c v = (case qc_find_type c of None \<Rightarrow> ret v
     | Some look \<Rightarrow> ret (case n of
         Some n' \<Rightarrow> if look s \<noteq> 0 then type_value w n' v (look s) else EPtr (look s)
       | None \<Rightarrow> EPtr (look s)))"
| "provider_value w (MemoryProvider n) c v = (case qc_memory c of None \<Rightarrow> ret v
     | Some memory \<Rightarrow> (let m = EMap (memory (w_id_text w (qc_entity c)))
         in ret (case n of None \<Rightarrow> m | Some n' \<Rightarrow> map_value n' v m)))"
| "provider_value w (EntityProvider n) c v =
     direct_value w n v (qc_entity c)"
| "provider_value w (EntityLocationProvider n) c v =
     (case n of None \<Rightarrow> ret (EPtr (qc_location c)) | Some n' \<Rightarrow> entity_value w n' v (qc_entity c))"
| "provider_value w (ActorProvider n) c v = maybe_entity_value w n v (qc_actor c)"
| "provider_value w (ToolProvider n) c v = maybe_entity_value w n v (qc_tool c)"
| "provider_value w (ChildProvider n) c v = maybe_entity_value w n v (qc_child c)"
| "provider_value w (SelfEntityProvider n) c v =
     (if qc_self c = 0 then ret v else direct_value w n v (qc_self c))"
| "provider_value w (ContainsFunction e p recursive) c v =
     and_then (provider_value w e c ENone) (\<lambda>s. case s of
       EPtr a \<Rightarrow> and_then (check_container w (\<lambda>i. is_match w p (c\<lparr>qc_child := i\<rparr>)) recursive a)
                   (\<lambda>b. ret (elem_of_bool b))
     | _ \<Rightarrow> ret (elem_of_bool False))"
| "provider_value w (GetEntityFunction e n) c v = (case e of None \<Rightarrow> ret v
     | Some e' \<Rightarrow> (case qc_find_entity c of None \<Rightarrow> ret v
         | Some look \<Rightarrow> and_then (provider_value w e' c ENone) (follow_reference w look n v)))"
| "is_match w (ComparePredicate l r op wi) c =
     compare_match w c op (is_type KLocation r) (provider_value w l c ENone) (provider_value w r c ENone)
       (map_option (\<lambda>x. provider_value w x c ENone) wi)"
| "is_match w (DescribePredicate d p) c = and_then (is_match w p c) (\<lambda>b.
     if b then ret True else report_to (if qc_report c then [d] else []) False)"
| "is_match w (AndPredicate p q) c = and_then (is_match w p c) (\<lambda>b. if b then is_match w q c else ret False)"
| "is_match w (OrPredicate p q) c = and_then (is_match w p c) (\<lambda>b. if b then ret True else is_match w q c)"
| "is_match w (NotPredicate p) c = and_then (is_match w p c) (\<lambda>b. ret (\<not> b))"
| "is_match w (BoolPredicate e) c = (case e of None \<Rightarrow> ret False
     | Some e' \<Rightarrow> and_then (provider_value w e' c ENone) (\<lambda>v.
         ret (case v of EInt i \<Rightarrow> i \<noteq> 0 | _ \<Rightarrow> False)))"

end
