(* ===== verification/Filter_Factory.thy ===== *)
theory Filter_Factory
  imports Filter_Predicate
begin

text \<open>
  How filters are put together: the factory that turns a path of segments, as in \<open>entity.type.name\<close>, into
  providers (\<open>ProviderFactory_impl.h\<close>), and the constructors that check their arguments
  (\<open>Predicates_impl.h\<close>, \<open>Providers_impl.h\<close>). \<open>Invalid\<close> is the exception \<open>std::invalid_argument\<close>, and
  \<open>NullProvider\<close> a member call on a missing provider, which is undefined.
\<close>

record segment =
  sg_delimiter :: string
  sg_attribute :: string

datatype build_error = Invalid string | NullProvider

section \<open>The factory\<close>

fun createMapProvider :: "segment list \<Rightarrow> map_provider option" where
  "createMapProvider [] = None"
| "createMapProvider (s # r) = Some (MapProvider (createMapProvider r) (sg_attribute s))"

definition createTypeNodeProvider :: "segment list \<Rightarrow> type_provider option" where
  "createTypeNodeProvider segs = (case segs of [] \<Rightarrow> None | s # r \<Rightarrow> Some (TypeNodeProvider (sg_attribute s)))"

definition measurement_of :: "string \<Rightarrow> measurement option" where
  "measurement_of a =
     (if a = ''width'' then Some WIDTH else if a = ''depth'' then Some DEPTH
      else if a = ''height'' then Some HEIGHT else if a = ''volume'' then Some VOLUME
      else if a = ''area'' then Some AREA else None)"

definition bad_measurement :: "string \<Rightarrow> string" where
  "bad_measurement a = ''Could not compile query as '' @ [CHR 0x27] @ a @ [CHR 0x27] @
     '' isn'' @ [CHR 0x27] @ ''t a valid measurement for a Bounding Box.''"

definition createBBoxProvider :: "segment list \<Rightarrow> build_error + entity_provider option" where
  "createBBoxProvider segs = (case segs of [] \<Rightarrow> Inr None
     | s # r \<Rightarrow> (case measurement_of (sg_attribute s) of
         Some m \<Rightarrow> Inr (Some (BBoxProvider (createMapProvider r) m))
       | None \<Rightarrow> Inl (Invalid (bad_measurement (sg_attribute s)))))"

definition createPropertyProvider :: "segment list \<Rightarrow> build_error + entity_provider option" where
  "createPropertyProvider segs = (case segs of [] \<Rightarrow> Inr None
     | s # r \<Rightarrow> (let attr = sg_attribute s in
         if sg_delimiter s = '':'' then Inr (Some (SoftPropertyProvider (createMapProvider r) attr))
         else if attr = ''type'' then Inr (Some (EntityTypeProvider (createTypeNodeProvider r)))
         else if attr = ''id'' then Inr (Some EntityIdProvider)
         else if attr = ''bbox'' then createBBoxProvider r
         else if attr = ''contains'' then Inr (Some ContainsProvider)
         else Inr (Some (SoftPropertyProvider (createMapProvider r) attr))))"

definition with_property ::
  "(entity_provider option \<Rightarrow> provider) \<Rightarrow> segment list \<Rightarrow> build_error + provider option" where
  "with_property f segs = (case createPropertyProvider segs of Inl e \<Rightarrow> Inl e | Inr c \<Rightarrow> Inr (Some (f c)))"

definition createEntityProvider ::
  "(entity_provider option \<Rightarrow> provider) \<Rightarrow> segment list \<Rightarrow> build_error + provider option" where
  "createEntityProvider f segs = (case segs of [] \<Rightarrow> Inr None
     | s # r \<Rightarrow> if r = [] then Inr (Some (f None)) else with_property f r)"

definition createSelfEntityProvider :: "segment list \<Rightarrow> build_error + provider option" where
  "createSelfEntityProvider segs = (case segs of [] \<Rightarrow> Inr None | s # r \<Rightarrow> with_property SelfEntityProvider r)"

definition createDynamicTypeNodeProvider :: "segment list \<Rightarrow> provider option" where
  "createDynamicTypeNodeProvider segs = (case segs of
     s # t # r \<Rightarrow> Some (DynamicTypeNode (createTypeNodeProvider r) (sg_attribute t))
   | _ \<Rightarrow> None)"

definition createMemoryProvider :: "segment list \<Rightarrow> provider option" where
  "createMemoryProvider segs = (case segs of [] \<Rightarrow> None | s # r \<Rightarrow> Some (MemoryProvider (createMapProvider r)))"

definition createProviders :: "segment list \<Rightarrow> build_error + provider option" where
  "createProviders segs = (case segs of [] \<Rightarrow> Inr None
     | s # r \<Rightarrow> (let attr = sg_attribute s in
         if attr = ''entity'' then createEntityProvider EntityProvider segs
         else if attr = ''self'' then createSelfEntityProvider segs
         else if attr = ''types'' then Inr (createDynamicTypeNodeProvider segs)
         else if attr = ''actor'' then createEntityProvider ActorProvider segs
         else if attr = ''tool'' then createEntityProvider ToolProvider segs
         else if attr = ''child'' then createEntityProvider ChildProvider segs
         else if attr = ''memory'' then Inr (createMemoryProvider segs)
         else if attr = ''entity_location'' then createEntityProvider EntityLocationProvider segs
         else Inr None))"

definition createProvider :: "segment \<Rightarrow> build_error + provider option" where
  "createProvider s = createProviders [s]"

definition createGetEntityFunctionProvider ::
  "provider option \<Rightarrow> segment list \<Rightarrow> build_error + provider option" where
  "createGetEntityFunctionProvider e segs =
     (if segs = [] then Inr (Some (GetEntityFunction e None)) else with_property (GetEntityFunction e) segs)"

definition createSimpleGetEntityFunctionProvider :: "provider option \<Rightarrow> provider option" where
  "createSimpleGetEntityFunctionProvider e = Some (GetEntityFunction e None)"

section \<open>Constructors that check\<close>

definition contains_function :: "provider option \<Rightarrow> predicate \<Rightarrow> bool \<Rightarrow> build_error + provider" where
  "contains_function c p recursive = (case c of None \<Rightarrow> Inl NullProvider
     | Some c' \<Rightarrow> if is_type KContainer c' then Inr (ContainsFunction c' p recursive)
         else Inl (Invalid ''first argument of contains_recursive must return a valid entity container''))"

definition check_instance_of :: "provider \<Rightarrow> provider \<Rightarrow> string option" where
  "check_instance_of l r =
     (if \<not> is_type KEntity l then Some (''When using the '' @ [CHR 0x27] @ ''instanceof'' @ [CHR 0x27] @
        '' comparator, left statement must return an entity. For example, '' @ [CHR 0x27] @
        ''entity instance_of types.world'' @ [CHR 0x27] @ ''.'')
      else if \<not> is_type KType r then Some (''When using the '' @ [CHR 0x27] @ ''instanceof'' @ [CHR 0x27] @
        '' comparator, right statement must return a TypeNode. For example, '' @ [CHR 0x27] @
        ''entity instance_of types.world'' @ [CHR 0x27] @ ''.'')
      else None)"

definition check_can_reach :: "provider \<Rightarrow> provider \<Rightarrow> provider option \<Rightarrow> string option" where
  "check_can_reach l r wi =
     (if \<not> is_type KEntity l \<or> (\<not> is_type KEntity r \<and> \<not> is_type KLocation r) then
        Some (''When using the '' @ [CHR 0x27] @ ''can_reach'' @ [CHR 0x27] @
        '' comparator, both sides must return an entity. For example, '' @ [CHR 0x27] @
        ''actor can_reach entity'' @ [CHR 0x27] @ ''.'')
      else (case wi of None \<Rightarrow> None
        | Some x \<Rightarrow> if \<not> is_type KEntity x then
            Some (''When using the '' @ [CHR 0x27] @ ''can_reach ... with'' @ [CHR 0x27] @
            '' comparator, all three inputs must return an entity. For example, '' @ [CHR 0x27] @
            ''actor can_reach entity with tool'' @ [CHR 0x27] @ ''.'')
          else None))"

definition compare_predicate ::
  "provider option \<Rightarrow> provider option \<Rightarrow> comparator \<Rightarrow> provider option \<Rightarrow> build_error + predicate" where
  "compare_predicate l r op wi = (case l of None \<Rightarrow> Inl (Invalid ''Left side statement is invalid'')
     | Some l' \<Rightarrow> (case r of None \<Rightarrow> Inl (Invalid ''Right side statement is invalid'')
         | Some r' \<Rightarrow>
             (case (if op = INSTANCE_OF then check_instance_of l' r'
                    else if op = CAN_REACH then check_can_reach l' r' wi else None) of
                Some e \<Rightarrow> Inl (Invalid e)
              | None \<Rightarrow> Inr (ComparePredicate l' r' op wi))))"

section \<open>What can be built\<close>

text \<open>
  The providers and predicates that the factory and the constructors make of values without pointers. A
  provider may be missing, as it is for a path the factory does not know.
\<close>

fun no_pointer :: "elem \<Rightarrow> bool" and no_pointer_map :: "map_type \<Rightarrow> bool" and no_pointer_list :: "list_type \<Rightarrow> bool"
where
  "no_pointer (EPtr p) = False"
| "no_pointer (EMap m) = no_pointer_map m"
| "no_pointer (EList l) = no_pointer_list l"
| "no_pointer _ = True"
| "no_pointer_map [] = True"
| "no_pointer_map ((k, v) # m) = (no_pointer v \<and> no_pointer_map m)"
| "no_pointer_list [] = True"
| "no_pointer_list (v # l) = (no_pointer v \<and> no_pointer_list l)"

inductive built :: "provider option \<Rightarrow> bool" and built_predicate :: "predicate \<Rightarrow> bool" where
  built_fixed: "no_pointer v \<Longrightarrow> built (Some (FixedElement v))"
| built_path: "createProviders segs = Inr c \<Longrightarrow> built c"
| built_contains: "built c \<Longrightarrow> built_predicate p \<Longrightarrow> contains_function c p r = Inr c' \<Longrightarrow> built (Some c')"
| built_get_entity: "built e \<Longrightarrow> createGetEntityFunctionProvider e segs = Inr c \<Longrightarrow> built c"
| built_simple_get: "built e \<Longrightarrow> built (createSimpleGetEntityFunctionProvider e)"
| built_compare: "built l \<Longrightarrow> built r \<Longrightarrow> built wi \<Longrightarrow> compare_predicate l r op wi = Inr p \<Longrightarrow> built_predicate p"
| built_describe: "built_predicate p \<Longrightarrow> built_predicate (DescribePredicate d p)"
| built_and: "built_predicate p \<Longrightarrow> built_predicate q \<Longrightarrow> built_predicate (AndPredicate p q)"
| built_or: "built_predicate p \<Longrightarrow> built_predicate q \<Longrightarrow> built_predicate (OrPredicate p q)"
| built_not: "built_predicate p \<Longrightarrow> built_predicate (NotPredicate p)"
| built_bool: "built e \<Longrightarrow> built_predicate (BoolPredicate e)"

end
