(* ===== verification/Filter_Guarantees.thy ===== *)
theory Filter_Guarantees
  imports Filter_Factory
begin

text \<open>
  What filters promise: the constructors check enough that no pointer is ever cast to a class its object does
  not have; a filter that is given the entities it names comes to an answer; \<open>contains\<close> and
  \<open>contains_recursive\<close> search exactly the items they should; and what happens when an entity is missing.
\<close>

section \<open>Well-formed worlds and contexts\<close>

definition points :: "'p world \<Rightarrow> kind \<Rightarrow> addr \<Rightarrow> bool" where
  "points w k a \<longleftrightarrow> a = 0 \<or> w_kind w a = Some k"

definition world_ok :: "'p world \<Rightarrow> bool" where
  "world_ok w \<longleftrightarrow>
     (\<forall>a. w_kind w a = Some KEntity \<longrightarrow> points w KType (w_type w a) \<and> points w KContainer (w_contains w a) \<and>
        (\<forall>n v. w_prop w a n = Some v \<longrightarrow> no_pointer v)) \<and>
     (\<forall>s a. w_kind w s = Some KContainer \<longrightarrow> a \<in> set (w_items w s) \<longrightarrow> a \<noteq> 0 \<and> w_kind w a = Some KEntity)"

definition context_ok :: "'p world \<Rightarrow> 'p query_context \<Rightarrow> bool" where
  "context_ok w c \<longleftrightarrow> qc_entity c \<noteq> 0 \<and> w_kind w (qc_entity c) = Some KEntity \<and>
     qc_location c \<noteq> 0 \<and> w_kind w (qc_location c) = Some KLocation \<and>
     points w KEntity (qc_actor c) \<and> points w KEntity (qc_tool c) \<and> points w KEntity (qc_child c) \<and>
     points w KEntity (qc_self c) \<and>
     (\<forall>f n. qc_find_entity c = Some f \<longrightarrow> points w KEntity (f n)) \<and>
     (\<forall>f n. qc_find_type c = Some f \<longrightarrow> points w KType (f n)) \<and>
     (\<forall>f n. qc_memory c = Some f \<longrightarrow> no_pointer (EMap (f n)))"

lemma context_ok_child:
  "context_ok w c \<Longrightarrow> points w KEntity a \<Longrightarrow> context_ok w (c\<lparr>qc_child := a\<rparr>)"
  by (simp add: context_ok_def)

section \<open>The type a provider claims\<close>

lemma map_provider_type_None [simp]: "map_provider_type m = None"
  by (induction m) (auto split: option.splits)

lemma next_map_type [simp]: "next_type map_provider_type None c = None"
  by (simp add: next_type_def split: option.splits)

text \<open>A value is of the claimed kind when it is a null pointer or points to an object of that kind.\<close>

definition has_kind :: "'p world \<Rightarrow> kind \<Rightarrow> elem \<Rightarrow> bool" where
  "has_kind w k v \<longleftrightarrow> (\<exists>p. v = EPtr p \<and> points w k p)"

lemma has_kind_EPtr [simp]: "has_kind w k (EPtr p) \<longleftrightarrow> points w k p"
  by (simp add: has_kind_def)

lemma next_type_type: "next_type type_provider_type own c = Some k \<longleftrightarrow> c = None \<and> own = Some k"
  by (auto simp: next_type_def type_provider_type_def split: option.splits)

lemma entity_value_kind:
  assumes "world_ok w" and "w_kind w a = Some KEntity"
    and "entity_provider_type e = Some k" and "entity_value w e v a = Inr (x, rs)"
  shows "x = v \<or> has_kind w k x"
  using assms
  by (cases e) (auto simp: next_type_type entity_value_def ret_def world_ok_def split: if_splits)

lemma next_entity_type:
  "next_type entity_provider_type (Some own) n = Some k \<longleftrightarrow>
    (case n of None \<Rightarrow> k = own | Some e \<Rightarrow> entity_provider_type e = Some k)"
  by (auto simp: next_type_def split: option.splits)

lemma direct_value_kind:
  assumes w: "world_ok w" and a: "w_kind w a = Some KEntity"
    and k: "next_type entity_provider_type (Some KEntity) n = Some k"
    and x: "direct_value w n v a = Inr (x, rs)"
  shows "x = v \<or> has_kind w k x"
proof (cases n)
  case None
  then show ?thesis using a k x by (auto simp: direct_value_def next_entity_type ret_def points_def)
next
  case (Some e)
  then show ?thesis using entity_value_kind [OF w a] k x by (simp add: direct_value_def next_entity_type)
qed

lemma maybe_entity_kind:
  assumes w: "world_ok w" and a: "points w KEntity a"
    and k: "next_type entity_provider_type (Some KEntity) n = Some k"
    and x: "maybe_entity_value w n v a = Inr (x, rs)"
  shows "x = v \<or> has_kind w k x"
proof (cases "a = 0")
  case True
  then have "x = EPtr 0" using x by (auto simp: maybe_entity_value_def ret_def split: option.splits)
  then show ?thesis by (simp add: points_def)
next
  case False
  then have "direct_value w n v a = Inr (x, rs)"
    using x by (simp add: maybe_entity_value_def direct_value_def split: option.splits)
  moreover have "w_kind w a = Some KEntity" using a False by (simp add: points_def)
  ultimately show ?thesis using direct_value_kind [OF w _ k] by blast
qed

lemma follow_reference_kind:
  assumes w: "world_ok w" and look: "\<And>s. points w KEntity (look s)"
    and k: "next_type entity_provider_type (Some KEntity) n = Some k"
    and x: "follow_reference w look n v y = Inr (x, rs)"
  shows "x = v \<or> has_kind w k x"
proof (cases "find_reference y")
  case None
  then show ?thesis using x by (simp add: follow_reference_def ret_def)
next
  case (Some s)
  show ?thesis
  proof (cases "look s = 0")
    case True
    then show ?thesis using x Some by (simp add: follow_reference_def ret_def)
  next
    case False
    then have "w_kind w (look s) = Some KEntity" using look [of s] by (simp add: points_def)
    moreover have "direct_value w n v (look s) = Inr (x, rs)"
      using x Some False by (simp add: follow_reference_def)
    ultimately show ?thesis using direct_value_kind [OF w _ k] by blast
  qed
qed

lemma provider_value_kind:
  assumes w: "world_ok w" and c: "context_ok w c" and k: "get_type p = Some k"
    and p: "\<And>n t. p \<noteq> FixedTypeNode n t" and v: "provider_value w p c v = Inr (x, rs)"
  shows "x = v \<or> has_kind w k x"
proof (cases p)
  case (DynamicTypeNode n s)
  then show ?thesis using k v c
    by (auto simp: next_type_type context_ok_def ret_def split: option.splits)
next
  case (EntityProvider n)
  then have "direct_value w n v (qc_entity c) = Inr (x, rs)"
    using v by simp
  moreover have "w_kind w (qc_entity c) = Some KEntity" using c by (simp add: context_ok_def)
  ultimately show ?thesis using direct_value_kind [OF w] k EntityProvider by simp
next
  case (EntityLocationProvider n)
  show ?thesis
  proof (cases n)
    case None
    then show ?thesis using k v c EntityLocationProvider
      by (auto simp: next_type_def context_ok_def points_def ret_def)
  next
    case (Some e)
    then have "direct_value w n v (qc_entity c) = Inr (x, rs)"
      and "next_type entity_provider_type (Some KEntity) n = Some k"
      using v k EntityLocationProvider by (simp_all add: direct_value_def next_type_def)
    moreover have "w_kind w (qc_entity c) = Some KEntity" using c by (simp add: context_ok_def)
    ultimately show ?thesis using direct_value_kind [OF w] by blast
  qed
next
  case (ActorProvider n)
  have "points w KEntity (qc_actor c)" using c by (simp add: context_ok_def)
  from maybe_entity_kind [OF w this] show ?thesis using k v ActorProvider by simp
next
  case (ToolProvider n)
  have "points w KEntity (qc_tool c)" using c by (simp add: context_ok_def)
  from maybe_entity_kind [OF w this] show ?thesis using k v ToolProvider by simp
next
  case (ChildProvider n)
  have "points w KEntity (qc_child c)" using c by (simp add: context_ok_def)
  from maybe_entity_kind [OF w this] show ?thesis using k v ChildProvider by simp
next
  case (SelfEntityProvider n)
  show ?thesis
  proof (cases "qc_self c = 0")
    case True
    then show ?thesis using v SelfEntityProvider by (simp add: ret_def)
  next
    case False
    then have "direct_value w n v (qc_self c) = Inr (x, rs)"
      using v SelfEntityProvider by simp
    moreover have "w_kind w (qc_self c) = Some KEntity" using c False by (simp add: context_ok_def points_def)
    ultimately show ?thesis using direct_value_kind [OF w] k SelfEntityProvider by simp
  qed
next
  case (GetEntityFunction e n)
  show ?thesis
  proof (cases "e = None \<or> qc_find_entity c = None")
    case True
    then show ?thesis using v GetEntityFunction by (auto simp: ret_def split: option.splits)
  next
    case False
    then obtain e' look where look: "e = Some e'" "qc_find_entity c = Some look" by auto
    then obtain y qs where y: "follow_reference w look n v y = Inr (x, qs)"
      using v GetEntityFunction by (auto simp: and_then_Inr)
    have "points w KEntity (look s)" for s using c look by (simp add: context_ok_def)
    moreover have "next_type entity_provider_type (Some KEntity) n = Some k" using k GetEntityFunction by simp
    ultimately show ?thesis by (rule follow_reference_kind [OF w _ _ y])
  qed
qed (use k p in auto)

section \<open>What the constructors check\<close>

fun sound_provider :: "provider \<Rightarrow> bool" and sound_predicate :: "predicate \<Rightarrow> bool" where
  "sound_provider (FixedElement v) = no_pointer v"
| "sound_provider (FixedTypeNode n t) = False"
| "sound_provider (ContainsFunction e p r) = (is_type KContainer e \<and> sound_provider e \<and> sound_predicate p)"
| "sound_provider (GetEntityFunction e n) = (case e of None \<Rightarrow> True | Some e' \<Rightarrow> sound_provider e')"
| "sound_provider _ = True"
| "sound_predicate (ComparePredicate l r op wi) = (sound_provider l \<and> sound_provider r \<and>
     (case wi of None \<Rightarrow> True | Some x \<Rightarrow> sound_provider x \<and> (op = CAN_REACH \<longrightarrow> is_type KEntity x)) \<and>
     (op = INSTANCE_OF \<longrightarrow> is_type KEntity l \<and> is_type KType r) \<and>
     (op = CAN_REACH \<longrightarrow> is_type KEntity l \<and> (is_type KEntity r \<or> is_type KLocation r)))"
| "sound_predicate (DescribePredicate d p) = sound_predicate p"
| "sound_predicate (AndPredicate p q) = (sound_predicate p \<and> sound_predicate q)"
| "sound_predicate (OrPredicate p q) = (sound_predicate p \<and> sound_predicate q)"
| "sound_predicate (NotPredicate p) = sound_predicate p"
| "sound_predicate (BoolPredicate e) = (case e of None \<Rightarrow> True | Some e' \<Rightarrow> sound_provider e')"

definition sound_opt :: "provider option \<Rightarrow> bool" where
  "sound_opt c = (case c of None \<Rightarrow> True | Some c' \<Rightarrow> sound_provider c')"

lemma sound_opt_simps [simp]: "sound_opt None" "sound_opt (Some c) = sound_provider c"
  by (simp_all add: sound_opt_def)

lemma with_property_sound:
  "with_property f segs = Inr c \<Longrightarrow> (\<And>n. sound_provider (f n)) \<Longrightarrow> sound_opt c"
  by (auto simp: with_property_def split: sum.splits)

lemma createProviders_sound: "createProviders segs = Inr c \<Longrightarrow> sound_opt c"
  by (auto simp: createProviders_def createEntityProvider_def createSelfEntityProvider_def
      createDynamicTypeNodeProvider_def createMemoryProvider_def Let_def
      split: list.splits if_splits elim: with_property_sound)

lemma built_sound: "built c \<Longrightarrow> sound_opt c" and built_predicate_sound: "built_predicate p \<Longrightarrow> sound_predicate p"
proof (induction rule: built_built_predicate.inducts)
  case (built_path segs c)
  then show ?case by (rule createProviders_sound)
next
  case (built_contains c p r c')
  then show ?case by (auto simp: contains_function_def split: option.splits if_splits)
next
  case (built_get_entity e segs c)
  show ?case
  proof (cases "segs = []")
    case True
    then show ?thesis using built_get_entity
      by (auto simp: createGetEntityFunctionProvider_def sound_opt_def split: option.splits)
  next
    case False
    then have "with_property (GetEntityFunction e) segs = Inr c"
      using built_get_entity.hyps by (simp add: createGetEntityFunctionProvider_def)
    moreover have "sound_provider (GetEntityFunction e n)" for n
      using built_get_entity.IH by (simp add: sound_opt_def split: option.splits)
    ultimately show ?thesis by (rule with_property_sound)
  qed
next
  case (built_simple_get e)
  then show ?case by (simp add: createSimpleGetEntityFunctionProvider_def sound_opt_def)
next
  case (built_compare l r wi op p)
  then show ?case
    by (auto simp: compare_predicate_def check_instance_of_def check_can_reach_def sound_opt_def
        split: option.splits if_splits)
qed (auto simp: sound_opt_def)

section \<open>No wrong cast\<close>

definition cast_safe :: "'a outcome \<Rightarrow> bool" where
  "cast_safe m \<longleftrightarrow> m \<noteq> Inl WrongCast"

lemma cast_safe_simps [simp]:
  "cast_safe (ret x)" "cast_safe (fail_with e) = (e \<noteq> WrongCast)" "cast_safe (report_to rs x)"
  by (simp_all add: cast_safe_def ret_def fail_with_def report_to_def)

lemma cast_safe_then:
  "cast_safe m \<Longrightarrow> (\<And>x ps. m = Inr (x, ps) \<Longrightarrow> cast_safe (f x)) \<Longrightarrow> cast_safe (and_then m f)"
  by (auto simp: cast_safe_def and_then_Inl)

lemma entity_value_safe [simp]: "cast_safe (entity_value w e v a)"
  by (cases e) (auto simp: entity_value_def bbox_value_def split: option.splits)

lemma provider_entity_safe [simp]:
  "cast_safe (direct_value w n v a)" "cast_safe (maybe_entity_value w n v a)"
  "cast_safe (follow_reference w look n v x)"
  by (auto simp: direct_value_def maybe_entity_value_def follow_reference_def split: option.splits)

lemma container_items:
  assumes "world_ok w" and "w_kind w a = Some KEntity" and "w_contains w a \<noteq> 0"
  shows "\<forall>b \<in> set (w_items w (w_contains w a)). w_kind w b = Some KEntity"
  using assms by (auto simp: world_ok_def points_def)

lemma check_items_safe:
  assumes w: "world_ok w" and ok: "\<And>a. w_kind w a = Some KEntity \<Longrightarrow> cast_safe (ok a)"
  shows "\<forall>a \<in> set as. w_kind w a = Some KEntity \<Longrightarrow> cast_safe (check_items w ok r n as)"
proof (induction n arbitrary: as)
  case 0
  then show ?case by (induction as) (auto intro!: cast_safe_then simp: ok)
next
  case (Suc n)
  from Suc.prems show ?case
  proof (induction as)
    case (Cons a as)
    have a: "w_kind w a = Some KEntity" using Cons.prems by simp
    have inner: "cast_safe (check_items w ok r n (w_items w (w_contains w a)))" if "w_contains w a \<noteq> 0"
      using Suc.IH container_items [OF w a that] by blast
    show ?case using Cons inner by (auto intro!: cast_safe_then simp: ok [OF a])
  qed simp
qed

lemma check_container_safe:
  assumes "world_ok w" and "\<And>a. w_kind w a = Some KEntity \<Longrightarrow> cast_safe (ok a)" and "points w KContainer s"
  shows "cast_safe (check_container w ok r s)"
  using assms check_items_safe [OF assms(1,2)]
  by (auto simp: check_container_def points_def world_ok_def)

lemma cast_ptr_safe: "elem_is_ptr v \<longrightarrow> has_kind w k v \<Longrightarrow> cast_safe (cast_ptr w k v)"
  by (cases v) (auto simp: cast_ptr_def elem_is_ptr_def points_def)

lemma is_type_of_safe [simp]: "cast_safe (is_type_of w n t base)"
  by (induction n arbitrary: t) auto

text \<open>A value of a provider that claims a kind is of that kind, if it is a pointer at all.\<close>

lemma claimed_kind:
  assumes "world_ok w" and "context_ok w c" and "sound_provider p" and "is_type k p"
    and "provider_value w p c ENone = Inr (x, rs)"
  shows "elem_is_ptr x \<longrightarrow> has_kind w k x"
proof -
  have "p \<noteq> FixedTypeNode n t" for n t using assms(3) by auto
  with provider_value_kind [OF assms(1,2)] assms(4,5) have "x = ENone \<or> has_kind w k x"
    by (simp add: is_type_def)
  then show ?thesis by (auto simp: elem_is_ptr_def)
qed

lemma instance_of_safe:
  assumes "elem_is_ptr left \<longrightarrow> has_kind w KEntity left" and "cast_safe right"
    and "\<And>r rs. right = Inr (r, rs) \<Longrightarrow> elem_is_ptr r \<longrightarrow> has_kind w KType r"
  shows "cast_safe (instance_of_match w left right)"
  using assms by (auto simp: instance_of_match_def intro!: cast_safe_then cast_ptr_safe)

lemma can_reach_safe:
  assumes "elem_is_ptr left \<longrightarrow> has_kind w KEntity left" and "cast_safe right"
    and "\<And>r rs. right = Inr (r, rs) \<Longrightarrow> elem_is_ptr r \<longrightarrow> has_kind w (if located then KLocation else KEntity) r"
    and "\<And>m. with_value = Some m \<Longrightarrow> cast_safe m"
    and "\<And>m x rs. with_value = Some m \<Longrightarrow> m = Inr (x, rs) \<Longrightarrow> elem_is_ptr x \<longrightarrow> has_kind w KEntity x"
  shows "cast_safe (can_reach_match w c located left right with_value)"
proof -
  have "cast_safe (reach_target w c located r)" if "right = Inr (r, rs)" for r rs
    using assms(3) [OF that] by (auto simp: reach_target_def intro!: cast_safe_then cast_ptr_safe)
  moreover have "cast_safe (extra_reach w with_value)"
    using assms(4,5)
    by (auto simp: extra_reach_def intro!: cast_safe_then cast_ptr_safe split: option.splits)
  ultimately show ?thesis
    using assms(1,2) by (auto simp: can_reach_match_def intro!: cast_safe_then cast_ptr_safe)
qed

lemma list_match_safe:
  "cast_safe right \<Longrightarrow> cast_safe (in_match left right)"
  "cast_safe right \<Longrightarrow> cast_safe (includes_match left right)"
  by (auto simp: in_match_def includes_match_def intro!: cast_safe_then split: elem.splits)

lemma compare_safe:
  assumes w: "world_ok w" and c: "context_ok w c" and p: "sound_predicate (ComparePredicate l r op wi)"
    and l: "cast_safe (provider_value w l c ENone)" and r: "cast_safe (provider_value w r c ENone)"
    and wi: "\<And>x. wi = Some x \<Longrightarrow> cast_safe (provider_value w x c ENone)"
  shows "cast_safe (is_match w (ComparePredicate l r op wi) c)"
proof -
  let ?r = "provider_value w r c ENone" and ?x = "map_option (\<lambda>x. provider_value w x c ENone) wi"
  have left: "elem_is_ptr v \<longrightarrow> has_kind w KEntity v"
    if "op = INSTANCE_OF \<or> op = CAN_REACH" "provider_value w l c ENone = Inr (v, rs)" for v rs
    using claimed_kind [OF w c _ _ that(2)] p that(1) by auto
  have reach: "cast_safe (can_reach_match w c (is_type KLocation r) v ?r ?x)"
    if op: "op = CAN_REACH" and v: "provider_value w l c ENone = Inr (v, rs)" for v rs
  proof (rule can_reach_safe [OF _ r])
    show "elem_is_ptr v \<longrightarrow> has_kind w KEntity v" using left v op by blast
    fix y ps assume y: "?r = Inr (y, ps)"
    have "is_type (if is_type KLocation r then KLocation else KEntity) r" using p op by auto
    from claimed_kind [OF w c _ this y]
    show "elem_is_ptr y \<longrightarrow> has_kind w (if is_type KLocation r then KLocation else KEntity) y" using p by simp
  next
    fix m assume m: "?x = Some m"
    then show "cast_safe m" using wi by auto
    fix y ps assume "m = Inr (y, ps)"
    then show "elem_is_ptr y \<longrightarrow> has_kind w KEntity y"
      using m p op claimed_kind [OF w c] by auto
  qed
  have inst: "cast_safe (instance_of_match w v ?r)"
    if op: "op = INSTANCE_OF" and v: "provider_value w l c ENone = Inr (v, rs)" for v rs
  proof (rule instance_of_safe [OF _ r])
    show "elem_is_ptr v \<longrightarrow> has_kind w KEntity v" using left v op by blast
    fix y ps assume "?r = Inr (y, ps)"
    then show "elem_is_ptr y \<longrightarrow> has_kind w KType y" using claimed_kind [OF w c _ _] p op by auto
  qed
  show ?thesis
    using l r reach inst
    by (cases op) (auto simp: compare_match_def intro!: cast_safe_then list_match_safe)
qed

lemma filter_safe:
  shows "world_ok w \<Longrightarrow> context_ok w c \<Longrightarrow> sound_provider q \<Longrightarrow> cast_safe (provider_value w q c v)"
    and "world_ok w \<Longrightarrow> context_ok w c \<Longrightarrow> sound_predicate p \<Longrightarrow> cast_safe (is_match w p c)"
proof (induction w q c v and w p c rule: provider_value_is_match.induct)
  case (11 w e p r c v)
  have e: "cast_safe (provider_value w e c ENone)" using 11 by simp
  have kind: "elem_is_ptr s \<longrightarrow> has_kind w KContainer s" if "provider_value w e c ENone = Inr (s, rs)" for s rs
    using claimed_kind [OF 11(3,4) _ _ that] 11(5) by simp
  have "cast_safe (check_container w (\<lambda>i. is_match w p (c\<lparr>qc_child := i\<rparr>)) r a)"
    if a: "provider_value w e c ENone = Inr (EPtr a, rs)" for a rs
  proof (rule check_container_safe [OF 11(3)])
    show "points w KContainer a" using kind [OF a] by (simp add: elem_is_ptr_def)
    fix i assume "w_kind w i = Some KEntity"
    then have "context_ok w (c\<lparr>qc_child := i\<rparr>)"
      using 11(4) by (intro context_ok_child) (simp_all add: points_def)
    then show "cast_safe (is_match w p (c\<lparr>qc_child := i\<rparr>))" using 11(2) [OF a] 11(3,5) by simp
  qed
  then show ?case using e by (auto intro!: cast_safe_then split: elem.splits)
next
  case (12 w e n c v)
  then show ?case by (auto intro!: cast_safe_then split: option.splits)
next
  case (13 w l r op wi c)
  then show ?case by (intro compare_safe) (auto split: option.splits)
qed (auto intro!: cast_safe_then simp: Let_def split: option.splits)

section \<open>Filters that answer\<close>

definition answers :: "'a outcome \<Rightarrow> bool" where
  "answers m \<longleftrightarrow> (\<exists>x rs. m = Inr (x, rs))"

lemma answers_simps [simp]: "answers (ret x)" "\<not> answers (fail_with e)" "answers (report_to rs x)"
  by (simp_all add: answers_def ret_def fail_with_def report_to_def)

lemma answers_then:
  "answers m \<Longrightarrow> (\<And>x ps. m = Inr (x, ps) \<Longrightarrow> answers (f x)) \<Longrightarrow> answers (and_then m f)"
  by (fastforce simp: answers_def and_then_def)

text \<open>Parents lead to a root and contents do not contain themselves, and every bounding box parses.\<close>

definition world_finite :: "'p world \<Rightarrow> bool" where
  "world_finite w \<longleftrightarrow>
     (\<exists>rank. \<forall>t. rank t \<le> w_types w \<and> (w_type_parent w t \<noteq> 0 \<longrightarrow> rank (w_type_parent w t) < rank t)) \<and>
     (\<exists>depth. \<forall>a. depth a \<le> w_entities w \<and>
        (\<forall>b \<in> set (w_items w (w_contains w a)). w_contains w a \<noteq> 0 \<longrightarrow> depth b < depth a)) \<and>
     (\<forall>a v. w_attr w a ''bbox'' = Some v \<longrightarrow> box_from_atlas v \<noteq> None)"

text \<open>Which of the optional entities a context has, and the filters that only follow pointers that are there.\<close>

record given =
  has_actor :: bool
  has_tool :: bool
  has_child :: bool
  has_self :: bool

definition given_of :: "'p query_context \<Rightarrow> given" where
  "given_of c = \<lparr>has_actor = (qc_actor c \<noteq> 0), has_tool = (qc_tool c \<noteq> 0), has_child = (qc_child c \<noteq> 0),
     has_self = (qc_self c \<noteq> 0)\<rparr>"

definition entity_given :: "given \<Rightarrow> provider \<Rightarrow> bool" where
  "entity_given s p = (case p of
     EntityProvider n \<Rightarrow> n = None
   | ActorProvider n \<Rightarrow> n = None \<and> has_actor s
   | ToolProvider n \<Rightarrow> n = None \<and> has_tool s
   | ChildProvider n \<Rightarrow> n = None \<and> has_child s
   | SelfEntityProvider n \<Rightarrow> n = None \<and> has_self s
   | _ \<Rightarrow> False)"

definition pointer_given :: "given \<Rightarrow> provider \<Rightarrow> bool" where
  "pointer_given s p = (case p of
     EntityProvider n \<Rightarrow> n = None
   | EntityLocationProvider n \<Rightarrow> n = None
   | ActorProvider n \<Rightarrow> n = None
   | ToolProvider n \<Rightarrow> n = None
   | ChildProvider n \<Rightarrow> n = None
   | SelfEntityProvider n \<Rightarrow> n = None \<and> has_self s
   | _ \<Rightarrow> False)"

fun fed_provider :: "given \<Rightarrow> provider \<Rightarrow> bool" and fed_predicate :: "given \<Rightarrow> predicate \<Rightarrow> bool" where
  "fed_provider s (ContainsFunction e p r) = (fed_provider s e \<and> fed_predicate (s\<lparr>has_child := True\<rparr>) p)"
| "fed_provider s (GetEntityFunction e n) = (case e of None \<Rightarrow> True | Some e' \<Rightarrow> fed_provider s e')"
| "fed_provider s _ = True"
| "fed_predicate s (ComparePredicate l r op wi) = (fed_provider s l \<and> fed_provider s r \<and>
     (case wi of None \<Rightarrow> True | Some x \<Rightarrow> fed_provider s x \<and> (op = CAN_REACH \<longrightarrow> entity_given s x)) \<and>
     (op = INSTANCE_OF \<longrightarrow> entity_given s l) \<and>
     (op = CAN_REACH \<longrightarrow> pointer_given s l \<and> pointer_given s r))"
| "fed_predicate s (DescribePredicate d p) = fed_predicate s p"
| "fed_predicate s (AndPredicate p q) = (fed_predicate s p \<and> fed_predicate s q)"
| "fed_predicate s (OrPredicate p q) = (fed_predicate s p \<and> fed_predicate s q)"
| "fed_predicate s (NotPredicate p) = fed_predicate s p"
| "fed_predicate s (BoolPredicate e) = (case e of None \<Rightarrow> True | Some e' \<Rightarrow> fed_provider s e')"

lemma given_of_child: "a \<noteq> 0 \<Longrightarrow> given_of (c\<lparr>qc_child := a\<rparr>) = (given_of c)\<lparr>has_child := True\<rparr>"
  by (simp add: given_of_def)

lemma entity_given_value:
  assumes "context_ok w c" and "entity_given (given_of c) p"
  shows "\<exists>a. provider_value w p c v = ret (EPtr a) \<and> a \<noteq> 0 \<and> w_kind w a = Some KEntity"
  using assms
  by (cases p) (auto simp: entity_given_def context_ok_def given_of_def direct_value_def
      maybe_entity_value_def points_def)

lemma pointer_given_value:
  assumes "context_ok w c" and "pointer_given (given_of c) p"
  shows "\<exists>a. provider_value w p c v = ret (EPtr a) \<and> (is_type KLocation p \<longrightarrow> a \<noteq> 0 \<and> w_kind w a = Some KLocation) \<and>
    (\<not> is_type KLocation p \<longrightarrow> points w KEntity a)"
  using assms
  by (cases p) (auto simp: pointer_given_def context_ok_def given_of_def direct_value_def
      maybe_entity_value_def is_type_def next_type_def points_def)

lemma is_type_of_answers:
  assumes "\<forall>t. w_type_parent w t \<noteq> 0 \<longrightarrow> rank (w_type_parent w t) < (rank t :: nat)"
  shows "rank t \<le> n \<Longrightarrow> answers (is_type_of w (Suc n) t base)"
proof (induction n arbitrary: t)
  case 0
  then show ?case using assms by auto
next
  case (Suc n)
  have "w_type_parent w t \<noteq> 0 \<Longrightarrow> rank (w_type_parent w t) \<le> n" using assms Suc.prems by fastforce
  then show ?case using Suc.IH by (subst is_type_of.simps) auto
qed

lemma check_items_answers:
  assumes w: "world_ok w" and ok: "\<And>a. a \<noteq> 0 \<Longrightarrow> w_kind w a = Some KEntity \<Longrightarrow> answers (ok a)"
    and depth: "\<forall>a. \<forall>b \<in> set (w_items w (w_contains w a)). w_contains w a \<noteq> 0 \<longrightarrow> depth b < (depth a :: nat)"
  shows "\<forall>a \<in> set as. a \<noteq> 0 \<and> w_kind w a = Some KEntity \<and> depth a \<le> n \<Longrightarrow>
    answers (check_items w ok r n as)"
proof (induction n arbitrary: as)
  case 0
  have none: "w_items w (w_contains w a) = []" if "depth a = 0" "w_contains w a \<noteq> 0" for a
  proof (rule ccontr)
    assume "w_items w (w_contains w a) \<noteq> []"
    then have "hd (w_items w (w_contains w a)) \<in> set (w_items w (w_contains w a))" by (rule hd_in_set)
    with depth that(2) have "depth (hd (w_items w (w_contains w a))) < depth a" by blast
    with that(1) show False by simp
  qed
  from "0.prems" show ?case
  proof (induction as)
    case (Cons a as)
    then show ?case using none [of a] ok [of a] by (auto intro!: answers_then)
  qed simp
next
  case (Suc n)
  from Suc.prems show ?case
  proof (induction as)
    case (Cons a as)
    have a: "a \<noteq> 0" "w_kind w a = Some KEntity" "depth a \<le> Suc n" using Cons.prems by simp_all
    have "answers (check_items w ok r n (w_items w (w_contains w a)))" if nz: "w_contains w a \<noteq> 0"
    proof (rule Suc.IH, rule ballI)
      fix b assume b: "b \<in> set (w_items w (w_contains w a))"
      then have "depth b < depth a" using depth nz by blast
      moreover have "w_kind w (w_contains w a) = Some KContainer"
        using w a(2) nz by (auto simp: world_ok_def points_def)
      ultimately show "b \<noteq> 0 \<and> w_kind w b = Some KEntity \<and> depth b \<le> n"
        using w b a(3) by (auto simp: world_ok_def)
    qed
    then show ?case using Cons ok [OF a(1,2)] by (auto intro!: answers_then)
  qed simp
qed

lemma world_finiteE:
  assumes "world_finite w"
  obtains rank depth where
    "\<forall>t. rank t \<le> w_types w" "\<forall>t. w_type_parent w t \<noteq> 0 \<longrightarrow> rank (w_type_parent w t) < (rank t :: nat)"
    "\<forall>a. depth a \<le> w_entities w"
    "\<forall>a. \<forall>b \<in> set (w_items w (w_contains w a)). w_contains w a \<noteq> 0 \<longrightarrow> depth b < (depth a :: nat)"
    "\<forall>a v. w_attr w a ''bbox'' = Some v \<longrightarrow> box_from_atlas v \<noteq> None"
  using assms unfolding world_finite_def by blast

lemma entity_value_answers:
  assumes "world_finite w"
  shows "answers (entity_value w e v a)"
proof -
  have "w_attr w a ''bbox'' = Some d \<Longrightarrow> box_from_atlas d \<noteq> None" for d
    using assms by (auto elim: world_finiteE)
  then have "answers (bbox_value w m v a)" for m
    unfolding bbox_value_def by (auto split: option.splits)
  then show ?thesis by (cases e) (simp_all add: entity_value_def)
qed

lemma provider_entity_answers:
  assumes "world_finite w"
  shows "answers (direct_value w n v a)" and "answers (maybe_entity_value w n v a)"
    and "answers (follow_reference w look n v x)"
  using entity_value_answers [OF assms]
  by (auto simp: direct_value_def maybe_entity_value_def follow_reference_def split: option.splits)

lemma check_container_answers:
  assumes w: "world_ok w" and fin: "world_finite w" and s: "points w KContainer s"
    and ok: "\<And>a. a \<noteq> 0 \<Longrightarrow> w_kind w a = Some KEntity \<Longrightarrow> answers (ok a)"
  shows "answers (check_container w ok r s)"
proof (cases "s = 0")
  case False
  then have "w_kind w s = Some KContainer" using s by (simp add: points_def)
  moreover from fin obtain depth :: "addr \<Rightarrow> nat" where d: "\<forall>a. depth a \<le> w_entities w"
    "\<forall>a. \<forall>b \<in> set (w_items w (w_contains w a)). w_contains w a \<noteq> 0 \<longrightarrow> depth b < depth a"
    by (rule world_finiteE)
  moreover have "\<forall>a \<in> set (w_items w s). a \<noteq> 0 \<and> w_kind w a = Some KEntity \<and> depth a \<le> w_entities w"
    using w d(1) calculation(1) by (auto simp: world_ok_def)
  ultimately show ?thesis
    using check_items_answers [OF w ok d(2)] False by (auto simp: check_container_def)
qed (simp add: check_container_def)

lemma cast_ptr_answers: "has_kind w k v \<Longrightarrow> \<exists>p. v = EPtr p \<and> cast_ptr w k v = ret p"
  by (auto simp: cast_ptr_def has_kind_def points_def)

lemma instance_of_answers:
  assumes fin: "world_finite w" and a: "a \<noteq> 0" "w_kind w a = Some KEntity" and r: "answers right"
    and kind: "\<And>x rs. right = Inr (x, rs) \<Longrightarrow> elem_is_ptr x \<longrightarrow> has_kind w KType x"
  shows "answers (instance_of_match w (EPtr a) right)"
proof -
  from fin obtain rank :: "addr \<Rightarrow> nat" where rank: "\<forall>t. rank t \<le> w_types w"
    "\<forall>t. w_type_parent w t \<noteq> 0 \<longrightarrow> rank (w_type_parent w t) < rank t" by (rule world_finiteE)
  have types: "answers (is_type_of w (Suc (w_types w)) t base)" for t base
    using is_type_of_answers [OF rank(2)] rank(1) by blast
  have "answers (if elem_is_ptr x then and_then (cast_ptr w KType x) (\<lambda>t.
      if t = 0 then ret False else is_type_of w (Suc (w_types w)) (w_type w a) t) else ret False)"
    if "right = Inr (x, rs)" for x rs
    using kind [OF that] cast_ptr_answers [of w KType x] types by fastforce
  moreover have "cast_ptr w KEntity (EPtr a) = ret a" using a by (simp add: cast_ptr_def)
  ultimately show ?thesis
    using a(1) r by (auto simp: instance_of_match_def elem_is_ptr_def intro!: answers_then)
qed

lemma can_reach_answers:
  assumes a: "points w KEntity a" and b: "if located then b \<noteq> 0 \<and> w_kind w b = Some KLocation else points w KEntity b"
    and x: "\<And>m. with_value = Some m \<Longrightarrow> \<exists>e. m = ret (EPtr e) \<and> e \<noteq> 0 \<and> w_kind w e = Some KEntity"
  shows "answers (can_reach_match w c located (EPtr a) (ret (EPtr b)) with_value)"
proof -
  have "answers (reach_target w c located (EPtr b))"
    using b by (auto simp: reach_target_def cast_ptr_def points_def split: if_splits)
  moreover have "answers (extra_reach w with_value)"
    using x by (cases with_value) (auto simp: extra_reach_def cast_ptr_def)
  moreover have "cast_ptr w KEntity (EPtr a) = ret a" using a by (simp add: cast_ptr_def points_def)
  ultimately show ?thesis by (auto simp: can_reach_match_def intro!: answers_then)
qed

lemma compare_answers:
  assumes w: "world_ok w" and fin: "world_finite w" and c: "context_ok w c"
    and p: "sound_predicate (ComparePredicate l r op wi)" and f: "fed_predicate (given_of c) (ComparePredicate l r op wi)"
    and l: "answers (provider_value w l c ENone)" and r: "answers (provider_value w r c ENone)"
  shows "answers (is_match w (ComparePredicate l r op wi) c)"
proof -
  let ?r = "provider_value w r c ENone" and ?x = "map_option (\<lambda>x. provider_value w x c ENone) wi"
  have inst: "answers (instance_of_match w v ?r)"
    if op: "op = INSTANCE_OF" and v: "provider_value w l c ENone = Inr (v, rs)" for v rs
  proof -
    obtain a where a: "provider_value w l c ENone = ret (EPtr a)" "a \<noteq> 0" "w_kind w a = Some KEntity"
      using entity_given_value [OF c, of l ENone] f op by auto
    then have "v = EPtr a" using v by (simp add: ret_def)
    moreover have "elem_is_ptr y \<longrightarrow> has_kind w KType y" if "?r = Inr (y, ps)" for y ps
      using claimed_kind [OF w c _ _ that] p op by auto
    ultimately show ?thesis using instance_of_answers [OF fin a(2,3) r] by blast
  qed
  have reach: "answers (can_reach_match w c (is_type KLocation r) v ?r ?x)"
    if op: "op = CAN_REACH" and v: "provider_value w l c ENone = Inr (v, rs)" for v rs
  proof -
    obtain a where a: "provider_value w l c ENone = ret (EPtr a)" "\<not> is_type KLocation l \<longrightarrow> points w KEntity a"
      using pointer_given_value [OF c, of l ENone] f op by auto
    have "pointer_given (given_of c) r" using f op by simp
    from pointer_given_value [OF c this, of ENone] obtain b where b: "?r = ret (EPtr b)"
      "if is_type KLocation r then b \<noteq> 0 \<and> w_kind w b = Some KLocation else points w KEntity b"
      by (elim exE conjE) (rule that, simp_all)
    have pa: "points w KEntity a" using a(2) p op by (simp add: is_type_def)
    have va: "v = EPtr a" using a(1) v by (simp add: ret_def)
    have x: "\<exists>e. m = ret (EPtr e) \<and> e \<noteq> 0 \<and> w_kind w e = Some KEntity" if "?x = Some m" for m
      using that f op entity_given_value [OF c] by auto
    from can_reach_answers [OF pa b(2) x] show ?thesis by (simp only: b(1) va)
  qed
  have lists: "answers (in_match v ?r)" "answers (includes_match v ?r)" for v
    using r by (auto simp: in_match_def includes_match_def intro!: answers_then split: elem.splits)
  show ?thesis
    using l r inst reach lists by (cases op) (auto simp: compare_match_def intro!: answers_then)
qed

lemma filter_answering:
  shows "world_ok w \<Longrightarrow> world_finite w \<Longrightarrow> context_ok w c \<Longrightarrow> sound_provider q \<Longrightarrow> fed_provider (given_of c) q \<Longrightarrow>
      answers (provider_value w q c v)"
    and "world_ok w \<Longrightarrow> world_finite w \<Longrightarrow> context_ok w c \<Longrightarrow> sound_predicate p \<Longrightarrow> fed_predicate (given_of c) p \<Longrightarrow>
      answers (is_match w p c)"
proof (induction w q c v and w p c rule: provider_value_is_match.induct)
  case (11 w e p r c v)
  have e: "answers (provider_value w e c ENone)" using 11 by simp
  have kind: "elem_is_ptr s \<longrightarrow> has_kind w KContainer s" if "provider_value w e c ENone = Inr (s, rs)" for s rs
    using claimed_kind [OF 11(3,5) _ _ that] 11(6) by simp
  have "answers (check_container w (\<lambda>i. is_match w p (c\<lparr>qc_child := i\<rparr>)) r a)"
    if a: "provider_value w e c ENone = Inr (EPtr a, rs)" for a rs
  proof (rule check_container_answers [OF 11(3,4)])
    show "points w KContainer a" using kind [OF a] by (simp add: elem_is_ptr_def)
    fix i assume i: "i \<noteq> 0" "w_kind w i = Some KEntity"
    then have "context_ok w (c\<lparr>qc_child := i\<rparr>)"
      using 11(5) by (intro context_ok_child) (simp_all add: points_def)
    then show "answers (is_match w p (c\<lparr>qc_child := i\<rparr>))"
      using 11(2) [OF a] 11(3,4,6,7) i(1) by (simp add: given_of_child)
  qed
  then show ?case using e by (auto intro!: answers_then split: elem.splits)
next
  case (12 w e n c v)
  then show ?case using provider_entity_answers [OF 12(3)]
    by (auto intro!: answers_then split: option.splits)
next
  case (13 w l r op wi c)
  then show ?case by (intro compare_answers) auto
qed (auto intro!: answers_then simp: Let_def provider_entity_answers entity_value_answers split: option.splits)

end
