(* ===== verification/Filter_Properties.thy ===== *)
theory Filter_Properties
  imports Filter_Guarantees
begin

text \<open>
  The properties of entity filters: pointers are cast soundly, filters that are given their entities answer,
  \<open>contains\<close> searches exactly the right items, paths look up nested maps, and the filters that read a pointer that
  is not there.
\<close>

section \<open>Searching containers\<close>

text \<open>The entities in a container, at any depth if \<open>r\<close>.\<close>

inductive inside :: "'p world \<Rightarrow> bool \<Rightarrow> addr \<Rightarrow> addr \<Rightarrow> bool" for w r where
  inside_item: "a \<in> set (w_items w s) \<Longrightarrow> inside w r s a"
| inside_nested: "r \<Longrightarrow> a \<in> set (w_items w s) \<Longrightarrow> w_contains w a \<noteq> 0 \<Longrightarrow> inside w r (w_contains w a) b \<Longrightarrow>
    inside w r s b"

inductive_cases inside_cases: "inside w r s a"

definition accepts :: "(addr \<Rightarrow> bool outcome) \<Rightarrow> addr \<Rightarrow> bool" where
  "accepts ok a \<longleftrightarrow> (\<exists>rs. ok a = Inr (True, rs))"

lemma check_items_true:
  "check_items w ok r n as = Inr (True, rs) \<Longrightarrow>
    \<exists>a \<in> set as. accepts ok a \<or> (r \<and> w_contains w a \<noteq> 0 \<and> (\<exists>x. inside w r (w_contains w a) x \<and> accepts ok x))"
proof (induction w ok r n as arbitrary: rs rule: check_items.induct)
  case (1 w ok r n)
  then show ?case by (simp add: ret_def)
next
  case (2 w ok r n a as)
  from 2(4) obtain found ps qs where found: "ok a = Inr (found, ps)"
    and rest: "(if found then ret True
      else if r \<and> w_contains w a \<noteq> 0 \<and> w_items w (w_contains w a) \<noteq> [] then
        (case n of 0 \<Rightarrow> fail_with EndlessRecursion
         | Suc m \<Rightarrow> and_then (check_items w ok r m (w_items w (w_contains w a))) (\<lambda>inner.
             if inner then ret True else check_items w ok r n as))
      else check_items w ok r n as) = Inr (True, qs)"
    by (auto simp: and_then_Inr)
  show ?case
  proof (cases found)
    case True
    then show ?thesis using found by (auto simp: accepts_def)
  next
    case False
    show ?thesis
    proof (cases "r \<and> w_contains w a \<noteq> 0 \<and> w_items w (w_contains w a) \<noteq> []")
      case nest: True
      then obtain m where m: "n = Suc m" using rest False by (cases n) (auto simp: fail_with_def)
      then obtain inner us vs where
        inner: "check_items w ok r m (w_items w (w_contains w a)) = Inr (inner, us)"
        and tl: "(if inner then ret True else check_items w ok r n as) = Inr (True, vs)"
        using rest False nest by (auto simp: and_then_Inr)
      show ?thesis
      proof (cases inner)
        case True
        then have "check_items w ok r m (w_items w (w_contains w a)) = Inr (True, us)" using inner by simp
        from "2.IH"(1) [OF found False nest m this] obtain b where
          b: "b \<in> set (w_items w (w_contains w a))"
          "accepts ok b \<or> (r \<and> w_contains w b \<noteq> 0 \<and> (\<exists>x. inside w r (w_contains w b) x \<and> accepts ok x))" by blast
        then have "\<exists>x. inside w r (w_contains w a) x \<and> accepts ok x"
          using inside_item [OF b(1)] inside_nested [OF _ b(1)] by blast
        then show ?thesis using nest by auto
      next
        case inner': False
        then show ?thesis using "2.IH"(2) [OF found _ nest m inner] tl False by auto
      qed
    next
      case nest: False
      then show ?thesis using "2.IH"(3) [OF found _ nest] rest False by auto
    qed
  qed
qed

lemma check_items_false:
  "check_items w ok r n as = Inr (False, rs) \<Longrightarrow>
    \<forall>a \<in> set as. \<not> accepts ok a \<and> (r \<and> w_contains w a \<noteq> 0 \<longrightarrow> (\<forall>x. inside w r (w_contains w a) x \<longrightarrow> \<not> accepts ok x))"
proof (induction w ok r n as arbitrary: rs rule: check_items.induct)
  case (1 w ok r n)
  then show ?case by simp
next
  case (2 w ok r n a as)
  let ?items = "w_items w (w_contains w a)"
  from 2(4) obtain found ps qs where found: "ok a = Inr (found, ps)"
    and rest: "(if found then ret True
      else if r \<and> w_contains w a \<noteq> 0 \<and> ?items \<noteq> [] then
        (case n of 0 \<Rightarrow> fail_with EndlessRecursion
         | Suc m \<Rightarrow> and_then (check_items w ok r m ?items) (\<lambda>inner.
             if inner then ret True else check_items w ok r n as))
      else check_items w ok r n as) = Inr (False, qs)"
    by (auto simp: and_then_Inr)
  have False': "\<not> found" using rest by (auto simp: ret_def)
  then have a: "\<not> accepts ok a" using found by (simp add: accepts_def)
  show ?case
  proof (cases "r \<and> w_contains w a \<noteq> 0 \<and> ?items \<noteq> []")
    case nest: True
    then obtain m where m: "n = Suc m" using rest False' by (cases n) (auto simp: fail_with_def)
    then obtain inner us vs where
      inner: "check_items w ok r m ?items = Inr (inner, us)"
      and tl: "(if inner then ret True else check_items w ok r n as) = Inr (False, vs)"
      using rest False' nest by (auto simp: and_then_Inr)
    have ni: "\<not> inner" using tl by (auto simp: ret_def)
    with inner have "check_items w ok r m ?items = Inr (False, us)" by simp
    from "2.IH"(1) [OF found False' nest m this]
    have items: "\<forall>b \<in> set ?items. \<not> accepts ok b \<and>
        (r \<and> w_contains w b \<noteq> 0 \<longrightarrow> (\<forall>x. inside w r (w_contains w b) x \<longrightarrow> \<not> accepts ok x))" .
    have "\<not> accepts ok x" if "inside w r (w_contains w a) x" for x
      using that items by (auto elim: inside_cases)
    moreover have "\<forall>b \<in> set as. \<not> accepts ok b \<and>
        (r \<and> w_contains w b \<noteq> 0 \<longrightarrow> (\<forall>x. inside w r (w_contains w b) x \<longrightarrow> \<not> accepts ok x))"
      using "2.IH"(2) [OF found False' nest m inner ni] tl ni by simp
    ultimately show ?thesis using a by auto
  next
    case nest: False
    have "\<forall>b \<in> set as. \<not> accepts ok b \<and>
        (r \<and> w_contains w b \<noteq> 0 \<longrightarrow> (\<forall>x. inside w r (w_contains w b) x \<longrightarrow> \<not> accepts ok x))"
      using "2.IH"(3) [OF found False' nest] rest False' nest by simp
    moreover have "\<not> inside w r (w_contains w a) x" if "r \<and> w_contains w a \<noteq> 0" for x
      using nest that by (auto elim: inside_cases)
    ultimately show ?thesis using a by auto
  qed
qed

lemma check_container_exact:
  assumes "w_kind w s = Some KContainer" and "s \<noteq> 0" and "check_container w ok r s = Inr (b, rs)"
  shows "b \<longleftrightarrow> (\<exists>a. inside w r s a \<and> accepts ok a)"
proof -
  have b: "check_items w ok r (w_entities w) (w_items w s) = Inr (b, rs)"
    using assms by (simp add: check_container_def)
  show ?thesis
  proof (cases b)
    case True
    then have "check_items w ok r (w_entities w) (w_items w s) = Inr (True, rs)" using b by simp
    from check_items_true [OF this] obtain a where a: "a \<in> set (w_items w s)"
      "accepts ok a \<or> (r \<and> w_contains w a \<noteq> 0 \<and> (\<exists>x. inside w r (w_contains w a) x \<and> accepts ok x))"
      by blast
    then have "\<exists>x. inside w r s x \<and> accepts ok x"
      using inside_item [OF a(1)] inside_nested [OF _ a(1)] a(2) by blast
    then show ?thesis using True by simp
  next
    case False
    then have "check_items w ok r (w_entities w) (w_items w s) = Inr (False, rs)" using b by simp
    note none = check_items_false [OF this]
    have "\<not> accepts ok a" if "inside w r s a" for a
      using that
    proof (cases rule: inside.cases)
      case inside_item
      from bspec [OF none this] show ?thesis by simp
    next
      case (inside_nested d)
      from bspec [OF none inside_nested(2)] inside_nested(1,3,4) show ?thesis by simp
    qed
    then have "\<not> (\<exists>a. inside w r s a \<and> accepts ok a)" by blast
    then show ?thesis using False by simp
  qed
qed

section \<open>A sample world\<close>

text \<open>
  Entity 1 of type 10 contains entity 2 in the container 20, and has the property \<open>status\<close>, a map.
\<close>

definition sample_world :: "nat world" where
  "sample_world = \<lparr>
     w_kind = (\<lambda>a. if a = 1 \<or> a = 2 then Some KEntity else if a = 10 then Some KType
       else if a = 20 then Some KContainer else if a = 30 then Some KLocation else None),
     w_type = (\<lambda>a. 10), w_id = (\<lambda>a. a), w_id_text = (\<lambda>a. ''1''), w_attr = (\<lambda>a n. None),
     w_prop = (\<lambda>a n. if n = ''status'' then Some (EMap [(''health'', EInt 3)]) else None),
     w_contains = (\<lambda>a. if a = 1 then 20 else 0), w_items = (\<lambda>s. if s = 20 then [2] else []),
     w_reach = (\<lambda>a. None), w_can_reach = (\<lambda>a b p d. True),
     w_type_name = (\<lambda>t. ''oak''), w_type_parent = (\<lambda>t. 0), w_types = 1, w_entities = 2\<rparr>"

definition sample_context :: "nat query_context" where
  "sample_context = \<lparr>qc_entity = 1, qc_location = 30, qc_pos = None, qc_actor = 0, qc_tool = 0, qc_child = 0,
     qc_memory = None, qc_self = 0, qc_find_entity = None, qc_find_type = Some (\<lambda>n. 10), qc_report = True\<rparr>"

lemma sample_world_ok: "world_ok sample_world"
  by (auto simp: world_ok_def sample_world_def points_def split: if_splits)

lemma sample_context_ok: "context_ok sample_world sample_context"
  by (simp add: context_ok_def sample_world_def sample_context_def points_def)

lemma sample_world_finite: "world_finite sample_world"
proof -
  have "\<exists>rank :: addr \<Rightarrow> nat. \<forall>t. rank t \<le> w_types sample_world \<and>
      (w_type_parent sample_world t \<noteq> 0 \<longrightarrow> rank (w_type_parent sample_world t) < rank t)"
    by (intro exI [of _ "\<lambda>t. 0"]) (simp add: sample_world_def)
  moreover have "\<exists>depth :: addr \<Rightarrow> nat. \<forall>a. depth a \<le> w_entities sample_world \<and>
      (\<forall>b \<in> set (w_items sample_world (w_contains sample_world a)).
         w_contains sample_world a \<noteq> 0 \<longrightarrow> depth b < depth a)"
    by (intro exI [of _ "\<lambda>a. if a = 1 then 1 else 0"]) (simp add: sample_world_def)
  moreover have "\<forall>a v. w_attr sample_world a ''bbox'' = Some v \<longrightarrow> box_from_atlas v \<noteq> None"
    by (simp add: sample_world_def)
  ultimately show ?thesis unfolding world_finite_def by blast
qed

text \<open>A path of segments as the parser makes it: only the first has no delimiter.\<close>

definition dotted :: "string list \<Rightarrow> segment list" where
  "dotted ns = (case ns of [] \<Rightarrow> [] | n # r \<Rightarrow>
     \<lparr>sg_delimiter = [], sg_attribute = n\<rparr> # map (\<lambda>a. \<lparr>sg_delimiter = ''.'', sg_attribute = a\<rparr>) r)"

definition path_provider :: "string list \<Rightarrow> provider option" where
  "path_provider ns = (case createProviders (dotted ns) of Inr c \<Rightarrow> c | Inl e \<Rightarrow> None)"

definition sample_filter :: predicate where
  "sample_filter = AndPredicate
     (ComparePredicate (EntityProvider None) (DynamicTypeNode None ''oak'') INSTANCE_OF None)
     (BoolPredicate (Some (ContainsFunction (EntityProvider (Some ContainsProvider))
        (ComparePredicate (ChildProvider None) (DynamicTypeNode None ''oak'') INSTANCE_OF None) True)))"

lemma sample_paths:
  "createProviders (dotted [''entity'']) = Inr (Some (EntityProvider None))"
  "createProviders (dotted [''child'']) = Inr (Some (ChildProvider None))"
  "createProviders (dotted [''types'', ''oak'']) = Inr (Some (DynamicTypeNode None ''oak''))"
  "createProviders (dotted [''entity'', ''contains'']) = Inr (Some (EntityProvider (Some ContainsProvider)))"
  by code_simp+

lemma sample_compares:
  "compare_predicate (Some (EntityProvider None)) (Some (DynamicTypeNode None ''oak'')) INSTANCE_OF None =
    Inr (ComparePredicate (EntityProvider None) (DynamicTypeNode None ''oak'') INSTANCE_OF None)"
  "compare_predicate (Some (ChildProvider None)) (Some (DynamicTypeNode None ''oak'')) INSTANCE_OF None =
    Inr (ComparePredicate (ChildProvider None) (DynamicTypeNode None ''oak'') INSTANCE_OF None)"
  "contains_function (Some (EntityProvider (Some ContainsProvider))) p True =
    Inr (ContainsFunction (EntityProvider (Some ContainsProvider)) p True)"
  by (simp_all add: compare_predicate_def contains_function_def check_instance_of_def is_type_def next_type_def)

lemma no_with: "built None"
  using built_path [of "[]" None] by (simp add: createProviders_def)

lemma sample_filter_built: "built_predicate sample_filter"
  unfolding sample_filter_def
  by (intro built_and built_bool
      built_contains [OF built_path [OF sample_paths(4)] _ sample_compares(3)]
      built_compare [OF built_path [OF sample_paths(1)] built_path [OF sample_paths(3)] no_with sample_compares(1)]
      built_compare [OF built_path [OF sample_paths(2)] built_path [OF sample_paths(3)] no_with sample_compares(2)])

section \<open>Properties\<close>

text \<open>C35: filter_casts_sound: whatever the factory and the constructors let through never casts a pointer to
  a class its object does not have, in every world and context whose pointers are what they should be.\<close>

theorem filter_casts_sound:
  assumes "built_predicate p" and "world_ok w" and "context_ok w c"
  shows "is_match w p c \<noteq> Inl WrongCast"
  using filter_safe(2) [OF assms(2,3) built_predicate_sound [OF assms(1)]] by (simp add: cast_safe_def)

theorem filter_casts_sound_witness: "is_match sample_world sample_filter sample_context \<noteq> Inl WrongCast"
  by (rule filter_casts_sound [OF sample_filter_built sample_world_ok sample_context_ok])

text \<open>C36: filter_answers: a filter that only follows pointers its context has (\<open>fed_predicate\<close>) comes to an
  answer in every world (\<open>world_finite\<close>) in which the parents of every type lead to a root, no entity contains itself at
  any depth, and the attribute \<open>bbox\<close> of every entity, where there is one, is a bounding box.\<close>

theorem filter_answers:
  assumes "built_predicate p" and "world_ok w" and "world_finite w" and "context_ok w c"
    and "fed_predicate (given_of c) p"
  shows "\<exists>b reports. is_match w p c = Inr (b, reports)"
  using filter_answering(2) [OF assms(2-4) built_predicate_sound [OF assms(1)] assms(5)]
  by (simp add: answers_def)

theorem filter_answers_witness:
  "\<exists>b reports. is_match sample_world sample_filter sample_context = Inr (b, reports)"
proof -
  have "fed_predicate (given_of sample_context) sample_filter" by code_simp
  with filter_answers [OF sample_filter_built sample_world_ok sample_world_finite sample_context_ok]
  show ?thesis by blast
qed

text \<open>C37: contains_exact: when \<open>contains\<close> or \<open>contains_recursive\<close> answers, the answer is whether an entity in the
  container, at any depth for the latter, matches the condition as the child.\<close>

theorem contains_exact:
  assumes "provider_value w e c ENone = Inr (EPtr s, ps)" and "s \<noteq> 0" and "w_kind w s = Some KContainer"
    and "provider_value w (ContainsFunction e p recursive) c v = Inr (x, rs)"
  shows "x = elem_of_bool (\<exists>a. inside w recursive s a \<and> (\<exists>qs. is_match w p (c\<lparr>qc_child := a\<rparr>) = Inr (True, qs)))"
proof -
  from assms(1,4) obtain b qs where
    "check_container w (\<lambda>i. is_match w p (c\<lparr>qc_child := i\<rparr>)) recursive s = Inr (b, qs)"
    and "x = elem_of_bool b" by (auto simp: and_then_Inr ret_def)
  with check_container_exact [OF assms(3,2)] show ?thesis by (simp add: accepts_def)
qed

theorem contains_exact_witness:
  "EInt 1 = elem_of_bool (\<exists>a. inside sample_world True 20 a \<and> (\<exists>qs. is_match sample_world
     (ComparePredicate (ChildProvider None) (DynamicTypeNode None ''oak'') INSTANCE_OF None)
     (sample_context\<lparr>qc_child := a\<rparr>) = Inr (True, qs)))"
proof (rule contains_exact [where e = "EntityProvider (Some ContainsProvider)" and v = ENone])
  show "provider_value sample_world (EntityProvider (Some ContainsProvider)) sample_context ENone = Inr (EPtr 20, [])"
    by code_simp
  show "(20 :: addr) \<noteq> 0" by simp
  show "w_kind sample_world 20 = Some KContainer" by (simp add: sample_world_def)
  show "provider_value sample_world (ContainsFunction (EntityProvider (Some ContainsProvider))
      (ComparePredicate (ChildProvider None) (DynamicTypeNode None ''oak'') INSTANCE_OF None) True)
      sample_context ENone = Inr (EInt 1, [])" by code_simp
qed

text \<open>Without an actor, \<open>actor instance_of types.n\<close> calls a member through the null
  pointer; without an entity for it, \<open>self can_reach entity\<close> reads the pointer of an element that holds none;
  without a tool, \<open>entity can_reach entity with tool\<close> calls a member through the null pointer; and
  \<open>contains\<close> of a path the factory does not know calls a member of a missing provider while it is parsed.\<close>

theorem missing_entity_undefined:
  assumes "context_ok w c" and "qc_actor c = 0" and "qc_self c = 0" and "qc_tool c = 0"
  shows "(\<exists>p. compare_predicate (path_provider [''actor'']) (path_provider [''types'', n]) INSTANCE_OF None = Inr p \<and>
      is_match w p c = Inl NullDereference) \<and>
    (\<exists>p. compare_predicate (path_provider [''self'']) (path_provider [''entity'']) CAN_REACH None = Inr p \<and>
      is_match w p c = Inl NoPointer) \<and>
    (\<exists>p. compare_predicate (path_provider [''entity'']) (path_provider [''entity'']) CAN_REACH
        (path_provider [''tool'']) = Inr p \<and> is_match w p c = Inl NullDereference) \<and>
    contains_function (path_provider [''actors'']) q recursive = Inl NullProvider"
proof -
  have paths: "path_provider [''actor''] = Some (ActorProvider None)"
    "path_provider [''types'', n] = Some (DynamicTypeNode None n)"
    "path_provider [''self''] = Some (SelfEntityProvider None)"
    "path_provider [''entity''] = Some (EntityProvider None)"
    "path_provider [''tool''] = Some (ToolProvider None)" "path_provider [''actors''] = None"
    by (simp_all add: path_provider_def dotted_def createProviders_def createEntityProvider_def
        createSelfEntityProvider_def createDynamicTypeNodeProvider_def createTypeNodeProvider_def
        with_property_def createPropertyProvider_def Let_def)
  have "cast_ptr w KEntity (EPtr (qc_entity c)) = ret (qc_entity c)"
    using assms(1) by (simp add: cast_ptr_def context_ok_def)
  then show ?thesis
    using assms(2-4)
    by (simp add: paths compare_predicate_def check_instance_of_def check_can_reach_def is_type_def
        next_type_def contains_function_def compare_match_def instance_of_match_def can_reach_match_def
        reach_target_def extra_reach_def maybe_entity_value_def direct_value_def elem_is_ptr_def
        cast_ptr_def fail_with_def)
qed

theorem missing_entity_undefined_witness:
  "\<exists>p. compare_predicate (path_provider [''actor'']) (path_provider [''types'', ''oak'']) INSTANCE_OF None = Inr p \<and>
    is_match sample_world p sample_context = Inl NullDereference"
proof -
  have "qc_actor sample_context = 0" "qc_self sample_context = 0" "qc_tool sample_context = 0"
    by (simp_all add: sample_context_def)
  from missing_entity_undefined [OF sample_context_ok this, of "''oak''"] show ?thesis by blast
qed

text \<open>A path from the entity into a property looks its names up in the nested maps of
  the value; where a name or a map is missing, the value is left as it was.\<close>

fun lookup_path :: "string list \<Rightarrow> elem \<Rightarrow> elem \<Rightarrow> elem" where
  "lookup_path [] x v = x"
| "lookup_path (k # ks) x v = (case x of
     EMap m \<Rightarrow> (case smap_find k m of None \<Rightarrow> v | Some y \<Rightarrow> lookup_path ks y v) | _ \<Rightarrow> v)"

lemma map_provider_path:
  "(case createMapProvider (map (\<lambda>a. \<lparr>sg_delimiter = ''.'', sg_attribute = a\<rparr>) ks) of
      None \<Rightarrow> x | Some m \<Rightarrow> map_value m v x) = lookup_path ks x v"
  by (induction ks arbitrary: x) (auto split: elem.splits option.splits)

theorem property_path_value:
  assumes "n \<notin> {''type'', ''id'', ''bbox'', ''contains''}"
  shows "\<exists>p. createProviders (dotted (''entity'' # n # ks)) = Inr (Some p) \<and>
    provider_value w p c v =
      ret (case w_prop w (qc_entity c) n of None \<Rightarrow> v | Some x \<Rightarrow> lookup_path ks x v)"
proof -
  have "createProviders (dotted (''entity'' # n # ks)) = Inr (Some (EntityProvider (Some
      (SoftPropertyProvider (createMapProvider (map (\<lambda>a. \<lparr>sg_delimiter = ''.'', sg_attribute = a\<rparr>) ks)) n))))"
    using assms by (simp add: dotted_def createProviders_def createEntityProvider_def with_property_def
        createPropertyProvider_def Let_def)
  then show ?thesis using map_provider_path [where ks = ks and v = v]
    by (auto simp: direct_value_def entity_value_def split: option.splits)
qed

theorem property_path_value_witness:
  "\<exists>p. createProviders (dotted [''entity'', ''status'', ''health'']) = Inr (Some p) \<and>
    provider_value sample_world p sample_context ENone = ret (EInt 3)"
proof -
  have "''status'' \<notin> {''type'', ''id'', ''bbox'', ''contains''}" by simp
  from property_path_value [OF this, of "[''health'']" sample_world sample_context ENone] show ?thesis
    by (simp add: sample_world_def)
qed

text \<open>An integer and a float of the same value are neither less nor greater than
  each other, but \<open>=\<close> says that they differ.\<close>

theorem equality_needs_same_type:
  assumes "f64_scaled (f64_of_int i) = f64_scaled d" and "\<not> f64_is_nan d" and "\<not> f64_is_nan (f64_of_int i)"
  shows "is_match w (ComparePredicate (FixedElement (EInt i)) (FixedElement (EFloat d)) LESS_EQUAL None) c = ret True \<and>
    is_match w (ComparePredicate (FixedElement (EInt i)) (FixedElement (EFloat d)) GREATER_EQUAL None) c = ret True \<and>
    is_match w (ComparePredicate (FixedElement (EInt i)) (FixedElement (EFloat d)) EQUALS None) c = ret False"
  using assms by (simp add: compare_match_def compare_nums_def is_num_def as_num_def f64_less_eq_def)

theorem equality_needs_same_type_witness:
  "is_match sample_world (ComparePredicate (FixedElement (EInt 0)) (FixedElement (EFloat 0)) EQUALS None) sample_context =
    ret False"
proof -
  have zero: "f64_of_int 0 = 0" by (simp add: f64_of_int_def round_f64_def f64_make_def)
  have "\<not> f64_is_nan 0" by (simp add: f64_is_nan_def f64_exp_def)
  with equality_needs_same_type [of 0 0 sample_world sample_context] show ?thesis by (simp add: zero)
qed

end
