(* ===== verification/Entity_Modifier.thy ===== *)
theory Entity_Modifier
  imports Filter_Values
begin

text \<open>
  Modifiers of property values (\<open>apps/cyphesis/src/rules/Modifier.cpp\<close>) and the names that ask for them
  (\<open>apps/cyphesis/src/common/PropertyUtil.cpp\<close>). An arithmetic overflow of integers and a conversion of a
  float that no integer can hold are undefined, so they end the computation.
\<close>

datatype entity_fault = IntegerOverflow | FloatOutOfRange | FreedModifier | MissingProperty | FreedProperty
  | EndlessUpdates

datatype modifier_type = DefaultModifier | PrependModifier | AppendModifier | SubtractModifier
  | AddFractionModifier

record modifier =
  md_type :: modifier_type
  md_value :: elem

definition createModifier :: "modifier_type \<Rightarrow> elem \<Rightarrow> modifier" where
  "createModifier t v = \<lparr>md_type = t, md_value = v\<rparr>"

section \<open>Arithmetic\<close>

definition int_result :: "int \<Rightarrow> entity_fault + elem" where
  "int_result i = (if - (2 ^ 63) \<le> i \<and> i < 2 ^ 63 then Inr (EInt (word_of_int i)) else Inl IntegerOverflow)"

definition add_int_elems :: "i64 \<Rightarrow> i64 \<Rightarrow> entity_fault + elem" where
  "add_int_elems a b = int_result (sint a + sint b)"

definition sub_int_elems :: "i64 \<Rightarrow> i64 \<Rightarrow> entity_fault + elem" where
  "sub_int_elems a b = int_result (sint a - sint b)"

text \<open>The conversion of a float to an integer cuts off its fraction.\<close>

definition f64_truncate :: "f64 \<Rightarrow> entity_fault + elem" where
  "f64_truncate f =
     (if \<not> f64_finite f then Inl FloatOutOfRange
      else let n = \<bar>f64_scaled f\<bar> div 2 ^ 1074; i = (if f64_neg f then - n else n)
           in if - (2 ^ 63) \<le> i \<and> i < 2 ^ 63 then Inr (EInt (word_of_int i)) else Inl FloatOutOfRange)"

section \<open>Processing a value\<close>

datatype elem_type = TYPE_NONE | TYPE_INT | TYPE_FLOAT | TYPE_PTR | TYPE_STRING | TYPE_MAP | TYPE_LIST

fun getType :: "elem \<Rightarrow> elem_type" where
  "getType ENone = TYPE_NONE"
| "getType (EInt i) = TYPE_INT"
| "getType (EFloat f) = TYPE_FLOAT"
| "getType (EPtr p) = TYPE_PTR"
| "getType (EString s) = TYPE_STRING"
| "getType (EMap m) = TYPE_MAP"
| "getType (EList l) = TYPE_LIST"

definition put_all :: "map_type \<Rightarrow> map_type \<Rightarrow> map_type" where
  "put_all entries m = foldl (\<lambda>n e. smap_put (fst e) (snd e) n) m entries"

definition erase_all :: "map_type \<Rightarrow> map_type \<Rightarrow> map_type" where
  "erase_all entries m = foldl (\<lambda>n e. smap_erase (fst e) n) m entries"

text \<open>\<open>std::find\<close> followed by \<open>erase\<close>: the list without its first element equal to \<open>x\<close>, if there is one.\<close>

fun erase_first :: "elem \<Rightarrow> list_type \<Rightarrow> list_type option" where
  "erase_first x [] = None"
| "erase_first x (y # l) = (if elem_equal y x then Some l else map_option ((#) y) (erase_first x l))"

lemma erase_first_shorter: "erase_first x l = Some r \<Longrightarrow> length r < length l"
  by (induction l arbitrary: r) (auto split: if_splits)

function erase_found :: "elem \<Rightarrow> list_type \<Rightarrow> list_type" where
  "erase_found x l = (case erase_first x l of None \<Rightarrow> l | Some r \<Rightarrow> erase_found x r)"
  by auto

termination by (relation "measure (\<lambda>(x, l). length l)") (auto dest: erase_first_shorter)

declare erase_found.simps [simp del]

definition prepend_value :: "elem \<Rightarrow> elem \<Rightarrow> entity_fault + elem" where
  "prepend_value v e = (case (v, e) of
     (EInt i, EInt j) \<Rightarrow> add_int_elems i j
   | (EFloat f, EFloat g) \<Rightarrow> Inr (EFloat (f64_add f g))
   | (EString s, EString t) \<Rightarrow> Inr (EString (s @ t))
   | (EMap m, EMap n) \<Rightarrow> Inr (EMap (put_all m n))
   | (EList l, EList r) \<Rightarrow> Inr (EList (l @ r))
   | _ \<Rightarrow> Inr e)"

definition append_value :: "elem \<Rightarrow> elem \<Rightarrow> entity_fault + elem" where
  "append_value v e = (case (v, e) of
     (EInt i, EInt j) \<Rightarrow> add_int_elems j i
   | (EFloat f, EFloat g) \<Rightarrow> Inr (EFloat (f64_add g f))
   | (EString s, EString t) \<Rightarrow> Inr (EString (t @ s))
   | (EMap m, EMap n) \<Rightarrow> Inr (EMap (put_all m n))
   | (EList l, EList r) \<Rightarrow> Inr (EList (r @ l))
   | _ \<Rightarrow> Inr e)"

definition subtract_value :: "elem \<Rightarrow> elem \<Rightarrow> entity_fault + elem" where
  "subtract_value v e = (case v of
     EInt i \<Rightarrow> (case e of ENone \<Rightarrow> sub_int_elems 0 i | EInt j \<Rightarrow> sub_int_elems j i | _ \<Rightarrow> Inr e)
   | EFloat f \<Rightarrow> (case e of ENone \<Rightarrow> Inr (EFloat (f64_sub 0 f)) | EFloat g \<Rightarrow> Inr (EFloat (f64_sub g f)) | _ \<Rightarrow> Inr e)
   | EString s \<Rightarrow> (case e of ENone \<Rightarrow> Inr (EString []) | _ \<Rightarrow> Inr e)
   | EMap m \<Rightarrow> (case e of ENone \<Rightarrow> Inr (EMap []) | EMap n \<Rightarrow> Inr (EMap (erase_all m n)) | _ \<Rightarrow> Inr e)
   | EList l \<Rightarrow> (case e of ENone \<Rightarrow> Inr (EList [])
       | EList r \<Rightarrow> Inr (EList (foldl (\<lambda>k x. erase_found x k) r l)) | _ \<Rightarrow> Inr e)
   | _ \<Rightarrow> Inr e)"

definition add_fraction_value :: "elem \<Rightarrow> elem \<Rightarrow> elem \<Rightarrow> entity_fault + elem" where
  "add_fraction_value v base e =
     (if is_num v \<and> is_num e then
        (let sum = f64_add (as_num e) (f64_mul (as_num base) (as_num v)) in
         case base of EInt i \<Rightarrow> f64_truncate sum | EFloat f \<Rightarrow> Inr (EFloat sum) | _ \<Rightarrow> Inr e)
      else Inr e)"

text \<open>\<open>process\<close>: the value behind a modifier, from the value before it and the base value.\<close>

definition process :: "modifier \<Rightarrow> elem \<Rightarrow> elem \<Rightarrow> entity_fault + elem" where
  "process m base e = (let v = md_value m in case md_type m of
     DefaultModifier \<Rightarrow> Inr v
   | PrependModifier \<Rightarrow> if e = ENone then Inr v else if getType e = getType v then prepend_value v e else Inr e
   | AppendModifier \<Rightarrow> if e = ENone then Inr v else if getType e = getType v then append_value v e else Inr e
   | SubtractModifier \<Rightarrow> subtract_value v e
   | AddFractionModifier \<Rightarrow> add_fraction_value v base e)"

section \<open>Names of properties\<close>

definition name_alnum :: "char \<Rightarrow> bool" where
  "name_alnum c \<longleftrightarrow> (let n = (of_char c :: nat) in is_digit c \<or> 65 \<le> n \<and> n \<le> 90 \<or> 97 \<le> n \<and> n \<le> 122)"

definition isValidName :: "string \<Rightarrow> bool" where
  "isValidName name \<longleftrightarrow> name \<noteq> [] \<and> length name \<le> 32 \<and>
     list_all (\<lambda>c. name_alnum c \<or> c = CHR ''_'' \<or> c = CHR ''$'' \<or> c = CHR ''-'') name"

definition parsePropertyModification :: "string \<Rightarrow> modifier_type \<times> string" where
  "parsePropertyModification name = (case dropWhile (\<lambda>c. c \<noteq> CHR ''!'') name of
     [] \<Rightarrow> (DefaultModifier, name)
   | b # m \<Rightarrow> (let clean = takeWhile (\<lambda>c. c \<noteq> CHR ''!'') name in
       if m = ''default'' then (DefaultModifier, clean)
       else if m = ''append'' then (AppendModifier, clean)
       else if m = ''prepend'' then (PrependModifier, clean)
       else if m = ''subtract'' then (SubtractModifier, clean)
       else if m = ''add-fraction'' then (AddFractionModifier, clean)
       else (DefaultModifier, name)))"

section \<open>Facts\<close>

lemma erase_first_filter:
  "erase_first x l = Some r \<Longrightarrow> filter (\<lambda>y. \<not> elem_equal y x) r = filter (\<lambda>y. \<not> elem_equal y x) l"
  by (induction l arbitrary: r) (auto split: if_splits)

lemma erase_first_None: "erase_first x l = None \<Longrightarrow> filter (\<lambda>y. \<not> elem_equal y x) l = l"
  by (induction l) (auto split: if_splits)

lemma erase_found_filter: "erase_found x l = filter (\<lambda>y. \<not> elem_equal y x) l"
proof (induction x l rule: erase_found.induct)
  case (1 x l)
  then show ?case
    by (subst erase_found.simps) (auto split: option.splits simp: erase_first_None dest: erase_first_filter)
qed

lemma valid_name_no_bang: "isValidName name \<Longrightarrow> parsePropertyModification name = (DefaultModifier, name)"
proof -
  assume "isValidName name"
  then have "\<forall>c \<in> set name. c \<noteq> CHR ''!''"
    by (auto simp: isValidName_def list_all_iff name_alnum_def is_digit_def Let_def)
  then have none: "dropWhile (\<lambda>c. c \<noteq> CHR ''!'') name = []" by simp
  show ?thesis unfolding parsePropertyModification_def none by simp
qed

end
