(* ===== verification/Entity_Attr.thy ===== *)
theory Entity_Attr
  imports Entity_Modifier "HOL-Library.Product_Lexorder"
begin

text \<open>
  The properties of an entity and the modifiers that other entities put on them
  (\<open>apps/cyphesis/src/rules/simulation/LocatedEntity.cpp\<close>), with the property classes of
  \<open>apps/cyphesis/src/common/Property_impl.h\<close>. Modifiers are owned by whoever adds them and are referred to by
  pointers into a heap. Whoever listens to the signal \<open>propertyApplied\<close> of the entity is a parameter: it gets
  the name of the property and the entity, which it may change.
\<close>

section \<open>Flags\<close>

definition has_flags :: "32 word \<Rightarrow> 32 word \<Rightarrow> bool" where
  "has_flags flags f \<longleftrightarrow> and flags f \<noteq> 0"

definition add_flags :: "32 word \<Rightarrow> 32 word \<Rightarrow> 32 word" where
  "add_flags f flags = or flags f"

definition remove_flags :: "32 word \<Rightarrow> 32 word \<Rightarrow> 32 word" where
  "remove_flags f flags = and flags (not f)"

definition prop_flag_persistence_clean :: "32 word" where "prop_flag_persistence_clean = 1"
definition prop_flag_persistence_ephem :: "32 word" where "prop_flag_persistence_ephem = 2"
definition prop_flag_visibility_private :: "32 word" where "prop_flag_visibility_private = 8"
definition prop_flag_visibility_protected :: "32 word" where "prop_flag_visibility_protected = 16"
definition prop_flag_class :: "32 word" where "prop_flag_class = 32"
definition prop_flag_bool :: "32 word" where "prop_flag_bool = 64"
definition prop_flag_unsent :: "32 word" where "prop_flag_unsent = 128"
definition prop_flag_instance :: "32 word" where "prop_flag_instance = 256"
definition prop_flag_modifiers_not_allowed :: "32 word" where "prop_flag_modifiers_not_allowed = 512"
definition entity_clean :: "32 word" where "entity_clean = 1"
definition entity_modifiers_not_allowed :: "32 word" where "entity_modifiers_not_allowed = 32768"
definition entity_update_broadcast_queued :: "32 word" where "entity_update_broadcast_queued = 262144"

definition flagsForPropertyName :: "string \<Rightarrow> 32 word" where
  "flagsForPropertyName name = (case name of
     a # b # r \<Rightarrow> if a = CHR ''_'' \<and> b = CHR ''_'' then prop_flag_visibility_private
       else if a = CHR ''_'' then prop_flag_visibility_protected else 0
   | [a] \<Rightarrow> if a = CHR ''_'' then prop_flag_visibility_protected else 0
   | [] \<Rightarrow> 0)"

section \<open>State\<close>

datatype prop_class = SoftProperty | BoolProperty | IntProperty | LongProperty | FloatProperty
  | DoubleProperty | StringProperty | ListProperty | MapProperty | ModifiersProperty

text \<open>\<open>pr_installed\<close> is whether a modifiers property knows its entity.\<close>

record property =
  pr_class :: prop_class
  pr_data :: elem
  pr_flags :: "32 word"
  pr_installed :: bool

type_synonym modifier_ptr = nat
type_synonym heap = "modifier_ptr \<Rightarrow> modifier option"

record modifiable =
  mp_property :: "property option"
  mp_base :: elem
  mp_modifiers :: "(modifier_ptr \<times> i64) list"

record located =
  le_id :: i64
  le_flags :: "32 word"
  le_props :: "(string, modifiable) smap"
  le_active :: "(i64, (string \<times> modifier_ptr) list) smap"
  le_defaults :: "(string, property) smap option"
  le_updates :: nat

type_synonym 'a checked = "entity_fault + 'a"
type_synonym listener = "string \<Rightarrow> located \<Rightarrow> located checked"

definition bind_ok :: "'a checked \<Rightarrow> ('a \<Rightarrow> 'b checked) \<Rightarrow> 'b checked" where
  "bind_ok m f = (case m of Inl e \<Rightarrow> Inl e | Inr x \<Rightarrow> f x)"

lemma bind_ok_simps [simp]: "bind_ok (Inl e) f = Inl e" "bind_ok (Inr x) f = f x"
  by (simp_all add: bind_ok_def)

lemma bind_ok_Inr: "bind_ok m f = Inr y \<longleftrightarrow> (\<exists>x. m = Inr x \<and> f x = Inr y)"
  by (auto simp: bind_ok_def split: sum.splits)

section \<open>Values of properties\<close>

definition modifier_name :: "modifier_type \<Rightarrow> string" where
  "modifier_name t = (case t of DefaultModifier \<Rightarrow> ''default'' | PrependModifier \<Rightarrow> ''prepend''
     | AppendModifier \<Rightarrow> ''append'' | SubtractModifier \<Rightarrow> ''subtract'' | AddFractionModifier \<Rightarrow> ''add_fraction'')"

definition modifier_entry :: "heap \<Rightarrow> string \<Rightarrow> modifier_ptr \<times> i64 \<Rightarrow> elem checked" where
  "modifier_entry h name x = (case h (fst x) of None \<Rightarrow> Inl FreedModifier
     | Some m \<Rightarrow> Inr (EMap [(''$eid'', EString (show_i64 (snd x))),
         (''modifier'', EMap [(name, EMap [(modifier_name (md_type m), md_value m)])])]))"

definition modifiers_list :: "heap \<Rightarrow> located \<Rightarrow> elem list checked" where
  "modifiers_list h e = run_steps (\<lambda>l (name, x). bind_ok (modifier_entry h name x) (\<lambda>v. Inr (l @ [v]))) []
     (concat (map (\<lambda>(name, mp). map (Pair name) (mp_modifiers mp)) (le_props e)))"

definition prop_get :: "heap \<Rightarrow> located \<Rightarrow> property \<Rightarrow> elem checked" where
  "prop_get h e p = (case pr_class p of
     BoolProperty \<Rightarrow> Inr (EInt (if has_flags (pr_flags p) prop_flag_bool then 1 else 0))
   | ModifiersProperty \<Rightarrow> if pr_installed p then bind_ok (modifiers_list h e) (\<lambda>l. Inr (EList l)) else Inr (EList [])
   | _ \<Rightarrow> Inr (pr_data p))"

definition prop_set :: "elem \<Rightarrow> property \<Rightarrow> property" where
  "prop_set v p = (case pr_class p of
     SoftProperty \<Rightarrow> p\<lparr>pr_data := v\<rparr>
   | BoolProperty \<Rightarrow> (case v of EInt i \<Rightarrow>
       p\<lparr>pr_flags := if i = 0 then remove_flags prop_flag_bool (pr_flags p) else add_flags prop_flag_bool (pr_flags p)\<rparr>
     | _ \<Rightarrow> p)
   | IntProperty \<Rightarrow> (case v of EInt i \<Rightarrow> p\<lparr>pr_data := EInt (scast (ucast i :: 32 word))\<rparr> | _ \<Rightarrow> p)
   | LongProperty \<Rightarrow> (case v of EInt i \<Rightarrow> p\<lparr>pr_data := EInt i\<rparr> | _ \<Rightarrow> p)
   | FloatProperty \<Rightarrow> if is_num v then p\<lparr>pr_data := EFloat (f64_narrow (as_num v))\<rparr> else p
   | DoubleProperty \<Rightarrow> if is_num v then p\<lparr>pr_data := EFloat (as_num v)\<rparr> else p
   | StringProperty \<Rightarrow> (case v of EString s \<Rightarrow> p\<lparr>pr_data := EString s\<rparr> | _ \<Rightarrow> p)
   | ListProperty \<Rightarrow> (case v of EList l \<Rightarrow> p\<lparr>pr_data := EList l\<rparr> | _ \<Rightarrow> p)
   | MapProperty \<Rightarrow> (case v of EMap m \<Rightarrow> p\<lparr>pr_data := EMap m\<rparr> | _ \<Rightarrow> p)
   | ModifiersProperty \<Rightarrow> p)"

definition prop_install :: "property \<Rightarrow> property" where
  "prop_install p = (if pr_class p = ModifiersProperty then p\<lparr>pr_installed := True\<rparr> else p)"

text \<open>A new property comes from the factory of its name, or stores any value.\<close>

definition addProperty :: "(string \<Rightarrow> property option) \<Rightarrow> string \<Rightarrow> property" where
  "addProperty factories name =
     (let p = (case factories name of Some q \<Rightarrow> q
        | None \<Rightarrow> \<lparr>pr_class = SoftProperty, pr_data = ENone, pr_flags = 0, pr_installed = False\<rparr>)
      in p\<lparr>pr_flags := add_flags (flagsForPropertyName name) (pr_flags p)\<rparr>)"

section \<open>Looking at an entity\<close>

definition type_default :: "string \<Rightarrow> located \<Rightarrow> property option" where
  "type_default name e = (case le_defaults e of None \<Rightarrow> None | Some ds \<Rightarrow> smap_find name ds)"

definition hasAttr :: "string \<Rightarrow> located \<Rightarrow> bool" where
  "hasAttr name e \<longleftrightarrow> smap_has name (le_props e) \<or> type_default name e \<noteq> None"

definition getAttr :: "heap \<Rightarrow> string \<Rightarrow> located \<Rightarrow> elem option checked" where
  "getAttr h name e = (case smap_find name (le_props e) of
     Some mp \<Rightarrow> (case mp_property mp of None \<Rightarrow> Inl MissingProperty
       | Some p \<Rightarrow> bind_ok (prop_get h e p) (\<lambda>v. Inr (Some v)))
   | None \<Rightarrow> (case type_default name e of None \<Rightarrow> Inr None
       | Some p \<Rightarrow> bind_ok (prop_get h e p) (\<lambda>v. Inr (Some v))))"

definition getAttrType :: "heap \<Rightarrow> string \<Rightarrow> elem_type \<Rightarrow> located \<Rightarrow> elem option checked" where
  "getAttrType h name t e = bind_ok (getAttr h name e) (\<lambda>r. case r of
     Some v \<Rightarrow> Inr (if getType v = t then Some v else None) | None \<Rightarrow> Inr None)"

definition getProperty :: "string \<Rightarrow> located \<Rightarrow> property option" where
  "getProperty name e = (case smap_find name (le_props e) of
     Some mp \<Rightarrow> mp_property mp | None \<Rightarrow> type_default name e)"

section \<open>Changing an entity\<close>

definition put_modifiable :: "string \<Rightarrow> modifiable \<Rightarrow> located \<Rightarrow> located" where
  "put_modifiable name mp e = e\<lparr>le_props := smap_put name mp (le_props e)\<rparr>"

definition mark_unsent :: "property \<Rightarrow> property" where
  "mark_unsent p = p\<lparr>pr_flags := add_flags prop_flag_unsent (pr_flags p)\<rparr>"

definition applyProperty :: "listener \<Rightarrow> string \<Rightarrow> modifiable \<Rightarrow> property \<Rightarrow> located \<Rightarrow> located checked" where
  "applyProperty listen name mp p e =
     bind_ok (listen name (put_modifiable name
       (mp\<lparr>mp_property := Some (mark_unsent p)\<rparr>) e))
     (\<lambda>e'. Inr (e'\<lparr>le_flags := remove_flags entity_clean (le_flags e')\<rparr>))"

definition apply_modifiers :: "heap \<Rightarrow> elem \<Rightarrow> (modifier_ptr \<times> i64) list \<Rightarrow> elem \<Rightarrow> elem checked" where
  "apply_modifiers h base ms v = run_steps (\<lambda>a x. case h (fst x) of None \<Rightarrow> Inl FreedModifier
     | Some m \<Rightarrow> process m base a) v ms"

text \<open>What \<open>setAttr\<close> computes: the property with its new base value, and the value to set.\<close>

definition new_value :: "heap \<Rightarrow> located \<Rightarrow> modifier option \<Rightarrow> modifiable \<Rightarrow> property \<Rightarrow> (modifiable \<times> elem) checked" where
  "new_value h e m mp p =
     (if mp_modifiers mp \<noteq> [] then
        bind_ok (case m of None \<Rightarrow> Inr (mp, ENone)
          | Some x \<Rightarrow> if md_type x = DefaultModifier then Inr (mp\<lparr>mp_base := md_value x\<rparr>, md_value x)
              else bind_ok (process x (mp_base mp) (mp_base mp)) (\<lambda>v. Inr (mp, v)))
        (\<lambda>(mp', v). bind_ok (apply_modifiers h (mp_base mp') (mp_modifiers mp') v) (\<lambda>u. Inr (mp', u)))
      else (case m of None \<Rightarrow> Inr (mp, ENone)
          | Some x \<Rightarrow> if md_type x = DefaultModifier then Inr (mp, md_value x)
              else bind_ok (prop_get h e p) (\<lambda>v. bind_ok (process x v v) (\<lambda>u. Inr (mp, u)))))"

definition empty_modifiable :: modifiable where
  "empty_modifiable = \<lparr>mp_property = None, mp_base = ENone, mp_modifiers = []\<rparr>"

text \<open>\<open>m_properties[name]\<close> with a property, and whether that is new to the entity.\<close>

definition required_property ::
  "(string \<Rightarrow> property) \<Rightarrow> string \<Rightarrow> located \<Rightarrow> modifiable \<times> property \<times> bool" where
  "required_property create name e =
     (let mp = (case smap_find name (le_props e) of None \<Rightarrow> empty_modifiable | Some mp \<Rightarrow> mp) in
      case mp_property mp of Some p \<Rightarrow> (mp, p, False)
      | None \<Rightarrow> (case type_default name e of Some p \<Rightarrow> (mp, p, False) | None \<Rightarrow> (mp, create name, True)))"

definition setAttr ::
  "(string \<Rightarrow> property) \<Rightarrow> heap \<Rightarrow> listener \<Rightarrow> string \<Rightarrow> modifier option \<Rightarrow> located \<Rightarrow> located checked" where
  "setAttr create h listen name m e =
     (if \<not> isValidName name then Inr e
      else (case required_property create name e of (mp, p, fresh) \<Rightarrow>
        bind_ok (new_value h (put_modifiable name (mp\<lparr>mp_property := Some p\<rparr>) e) m mp p) (\<lambda>(mp', v).
          let p1 = prop_set v (p\<lparr>pr_flags := remove_flags prop_flag_persistence_clean (pr_flags p)\<rparr>);
              p2 = (if fresh then prop_install p1 else p1)
          in applyProperty listen name mp' p2 e)))"

definition setAttrValue ::
  "(string \<Rightarrow> property) \<Rightarrow> heap \<Rightarrow> listener \<Rightarrow> string \<Rightarrow> elem \<Rightarrow> located \<Rightarrow> located checked" where
  "setAttrValue create h listen name v e = (case parsePropertyModification name of (t, clean) \<Rightarrow>
     setAttr create h listen clean (Some (createModifier t v)) e)"

definition enqueueUpdateOp :: "located \<Rightarrow> located" where
  "enqueueUpdateOp e = (if has_flags (le_flags e) entity_update_broadcast_queued then e
     else e\<lparr>le_updates := le_updates e + 1, le_flags := add_flags entity_update_broadcast_queued (le_flags e)\<rparr>)"

section \<open>Modifiers\<close>

definition set_insert :: "'a::linorder \<Rightarrow> 'a list \<Rightarrow> 'a list" where
  "set_insert x l = (if x \<in> set l then l else insort x l)"

lemma set_set_insert [simp]: "set (set_insert x l) = insert x (set l)"
  by (auto simp: set_insert_def set_insort_key)

lemma distinct_set_insert: "distinct l \<Longrightarrow> distinct (set_insert x l)"
  by (simp add: set_insert_def distinct_insort)

lemma sorted_set_insert: "sorted l \<Longrightarrow> sorted (set_insert x l)"
  by (simp add: set_insert_def sorted_insort)

definition active_of :: "i64 \<Rightarrow> located \<Rightarrow> (string \<times> modifier_ptr) list" where
  "active_of i e = (case smap_find i (le_active e) of None \<Rightarrow> [] | Some l \<Rightarrow> l)"

definition activate :: "i64 \<Rightarrow> string \<Rightarrow> modifier_ptr \<Rightarrow> located \<Rightarrow> located" where
  "activate i name q e = e\<lparr>le_active := smap_put i (set_insert (name, q) (active_of i e)) (le_active e)\<rparr>"

definition addModifier ::
  "(string \<Rightarrow> property) \<Rightarrow> heap \<Rightarrow> listener \<Rightarrow> string \<Rightarrow> modifier_ptr \<Rightarrow> i64 \<Rightarrow> located \<Rightarrow> located checked" where
  "addModifier create h listen name q i e0 =
     (if has_flags (le_flags e0) entity_modifiers_not_allowed \<or> \<not> isValidName name then Inr e0
      else let e = activate i name q e0 in
      (case smap_find name (le_props e) of
         Some mp \<Rightarrow>
           (case mp_property mp of
              None \<Rightarrow>
                (if mp_modifiers mp = [] then Inl MissingProperty
                 else bind_ok (setAttr create h listen name (Some (createModifier DefaultModifier (mp_base mp)))
                   (put_modifiable name (mp\<lparr>mp_modifiers := mp_modifiers mp @ [(q, i)]\<rparr>) e))
                   (\<lambda>e'. Inr (enqueueUpdateOp e')))
            | Some p \<Rightarrow>
                if has_flags (pr_flags p) prop_flag_modifiers_not_allowed then Inr e
                else bind_ok (if mp_modifiers mp = [] then prop_get h e p else Inr (mp_base mp)) (\<lambda>base.
                  bind_ok (setAttr create h listen name (Some (createModifier DefaultModifier base))
                    (put_modifiable name (mp\<lparr>mp_base := base, mp_modifiers := mp_modifiers mp @ [(q, i)]\<rparr>) e))
                  (\<lambda>e'. Inr (enqueueUpdateOp e'))))
       | None \<Rightarrow>
           (case type_default name e of
              Some p \<Rightarrow>
                if has_flags (pr_flags p) entity_modifiers_not_allowed then Inr e
                else bind_ok (prop_get h e p) (\<lambda>base.
                  bind_ok (setAttr create h listen name (Some (createModifier DefaultModifier base))
                    (put_modifiable name \<lparr>mp_property = None, mp_base = base, mp_modifiers = [(q, i)]\<rparr> e))
                  (\<lambda>e'. Inr (enqueueUpdateOp e')))
            | None \<Rightarrow>
                bind_ok (setAttr create h listen name None
                  (put_modifiable name \<lparr>mp_property = None, mp_base = ENone, mp_modifiers = [(q, i)]\<rparr> e))
                (\<lambda>e'. Inr (enqueueUpdateOp e')))))"

text \<open>The first entity, in the order of the map, that has the modifier active loses it.\<close>

fun deactivate :: "string \<times> modifier_ptr \<Rightarrow> (i64, (string \<times> modifier_ptr) list) smap \<Rightarrow>
    (i64, (string \<times> modifier_ptr) list) smap" where
  "deactivate x [] = []"
| "deactivate x ((i, l) # r) = (if x \<in> set l then (i, remove1 x l) # r else (i, l) # deactivate x r)"

fun drop_modifier :: "modifier_ptr \<Rightarrow> (modifier_ptr \<times> i64) list \<Rightarrow> (modifier_ptr \<times> i64) list option" where
  "drop_modifier q [] = None"
| "drop_modifier q (x # r) = (if fst x = q then Some r else map_option ((#) x) (drop_modifier q r))"

definition removeModifier ::
  "(string \<Rightarrow> property) \<Rightarrow> heap \<Rightarrow> listener \<Rightarrow> string \<Rightarrow> modifier_ptr \<Rightarrow> located \<Rightarrow> located checked" where
  "removeModifier create h listen name q e0 =
     (let e = e0\<lparr>le_active := deactivate (name, q) (le_active e0)\<rparr> in
      case smap_find name (le_props e) of None \<Rightarrow> Inr e
      | Some mp \<Rightarrow> (case drop_modifier q (mp_modifiers mp) of None \<Rightarrow> Inr e
          | Some ms \<Rightarrow> bind_ok (setAttrValue create h listen name (mp_base mp)
                (put_modifiable name (mp\<lparr>mp_modifiers := ms\<rparr>) e))
              (\<lambda>e'. Inr (enqueueUpdateOp e'))))"

section \<open>Other ways to change properties\<close>

definition modProperty ::
  "listener \<Rightarrow> string \<Rightarrow> elem \<Rightarrow> located \<Rightarrow> located checked" where
  "modProperty listen name def_val e = (if smap_has name (le_props e) then Inr e
     else (case type_default name e of None \<Rightarrow> Inr e
       | Some p \<Rightarrow> (let p1 = (if def_val = ENone then p else prop_set def_val p);
             p2 = prop_install (p1\<lparr>pr_flags := remove_flags prop_flag_class (pr_flags p1)\<rparr>)
           in applyProperty listen name empty_modifiable p2 e)))"

definition setProperty :: "string \<Rightarrow> property \<Rightarrow> located \<Rightarrow> located" where
  "setProperty name p e = (let mp = (case smap_find name (le_props e) of None \<Rightarrow> empty_modifiable | Some mp \<Rightarrow> mp)
     in put_modifiable name (mp\<lparr>mp_property := Some (prop_install p)\<rparr>) e)"

text \<open>\<open>requirePropertyClassFixed<ModifiersProperty>().addFlags(prop_flag_unsent)\<close>.\<close>

definition fresh_modifiers :: property where
  "fresh_modifiers = prop_install \<lparr>pr_class = ModifiersProperty, pr_data = ENone,
     pr_flags = add_flags (flagsForPropertyName ''_modifiers'') (or prop_flag_instance prop_flag_persistence_ephem),
     pr_installed = False\<rparr>"

definition mark_modifiers :: "listener \<Rightarrow> located \<Rightarrow> located checked" where
  "mark_modifiers listen e0 = bind_ok (modProperty listen ''_modifiers'' ENone e0) (\<lambda>e.
     let mp = (case smap_find ''_modifiers'' (le_props e) of None \<Rightarrow> empty_modifiable | Some mp \<Rightarrow> mp)
     in case mp_property mp of
          None \<Rightarrow> Inr (put_modifiable ''_modifiers'' (mp\<lparr>mp_property := Some (mark_unsent fresh_modifiers)\<rparr>) e)
        | Some p \<Rightarrow> if pr_class p = ModifiersProperty
            then Inr (put_modifiable ''_modifiers'' (mp\<lparr>mp_property := Some (mark_unsent p)\<rparr>) e)
            else Inl FreedProperty)"

definition s_immutable :: "string list" where
  "s_immutable = [''id'', ''parent'', ''loc'', ''contains'', ''objtype'']"

text \<open>\<open>merge\<close>: the values first, and behind them what modifies values.\<close>

definition merge_later :: "map_type \<Rightarrow> (string \<times> modifier) list" where
  "merge_later m = concat (map (\<lambda>(key, v). case parsePropertyModification key of (t, name) \<Rightarrow>
     if key = [] \<or> name \<in> set s_immutable \<or> t = DefaultModifier then [] else [(name, createModifier t v)]) m)"

definition merge_now :: "map_type \<Rightarrow> (string \<times> modifier) list" where
  "merge_now m = concat (map (\<lambda>(key, v). case parsePropertyModification key of (t, name) \<Rightarrow>
     if key = [] \<or> name \<in> set s_immutable \<or> t \<noteq> DefaultModifier then [] else [(key, createModifier t v)]) m)"

definition merge :: "(string \<Rightarrow> property) \<Rightarrow> heap \<Rightarrow> listener \<Rightarrow> map_type \<Rightarrow> located \<Rightarrow> located checked" where
  "merge create h listen m e = run_steps (\<lambda>a (name, x). setAttr create h listen name (Some x) a) e
     (merge_now m @ merge_later m)"

end
