(* ===== verification/Entity_Modify.thy ===== *)
theory Entity_Modify
  imports Entity_Attr
begin

text \<open>
  The property with which an entity modifies the one it is inside of
  (\<open>apps/cyphesis/src/rules/simulation/ModifyProperty.cpp\<close>). It owns its modifiers; while its owner has a parent
  it listens to changes of the parent's properties. Since adding and removing a modifier changes a property of
  the parent, the listener can be called from within itself: \<open>notify\<close> bounds the depth of these calls, and
  \<open>EndlessUpdates\<close> is the exhausted stack. Constraints are entity filters; their parser and what they say of the
  parent are parameters.
\<close>

record 'f modify_entry =
  me_constraint :: "'f option"
  me_modifiers :: "(string, modifier_ptr) smap"
  me_observed :: "string list"

text \<open>Memory of modifiers: the cells in use and the next address, which is never used again.\<close>

record memory =
  mem_cells :: heap
  mem_next :: modifier_ptr

text \<open>\<open>mo_parent\<close> is whether there is a parent entity, \<open>mo_listening\<close> whether its signal is connected.\<close>

record 'f modify =
  mo_owner :: i64
  mo_data :: elem
  mo_entries :: "'f modify_entry list"
  mo_parent :: bool
  mo_listening :: bool

section \<open>Reading the data\<close>

definition first_modifier :: "map_type \<Rightarrow> modifier option" where
  "first_modifier m = (case smap_find ''default'' m of Some v \<Rightarrow> Some (createModifier DefaultModifier v)
   | None \<Rightarrow> (case smap_find ''append'' m of Some v \<Rightarrow> Some (createModifier AppendModifier v)
   | None \<Rightarrow> (case smap_find ''prepend'' m of Some v \<Rightarrow> Some (createModifier PrependModifier v)
   | None \<Rightarrow> (case smap_find ''subtract'' m of Some v \<Rightarrow> Some (createModifier SubtractModifier v)
   | None \<Rightarrow> map_option (createModifier AddFractionModifier) (smap_find ''add_fraction'' m)))))"

definition allocate :: "modifier \<Rightarrow> memory \<Rightarrow> modifier_ptr \<times> memory" where
  "allocate m mem = (mem_next mem, mem\<lparr>mem_cells := (mem_cells mem)(mem_next mem := Some m), mem_next := mem_next mem + 1\<rparr>)"

definition parse_modifier ::
  "(string, modifier_ptr) smap \<times> memory \<Rightarrow> string \<times> elem \<Rightarrow> (string, modifier_ptr) smap \<times> memory" where
  "parse_modifier s x = (case s of (ms, mem) \<Rightarrow> (case snd x of
     EMap m \<Rightarrow> (case first_modifier m of None \<Rightarrow> (ms, mem)
       | Some md \<Rightarrow> (case allocate md mem of (q, mem') \<Rightarrow> (smap_emplace (fst x) q ms, mem')))
   | _ \<Rightarrow> (ms, mem)))"

definition observed_names :: "map_type \<Rightarrow> string list" where
  "observed_names m = (case smap_find ''observed_properties'' m of
     Some (EList l) \<Rightarrow> foldl (\<lambda>s v. case v of EString n \<Rightarrow> set_insert n s | _ \<Rightarrow> s) [] l
   | _ \<Rightarrow> [])"

text \<open>\<open>parseEntry\<close>; \<open>None\<close> is the exception of a constraint that does not parse.\<close>

definition parseEntry ::
  "(string \<Rightarrow> 'f option) \<Rightarrow> map_type \<Rightarrow> memory \<Rightarrow> ('f modify_entry \<times> memory) option" where
  "parseEntry parse_filter m mem =
     (let rest = (\<lambda>c. case (case smap_find ''modifiers'' m of
              Some (EMap ms) \<Rightarrow> foldl parse_modifier ([], mem) ms | _ \<Rightarrow> ([], mem)) of
            (ms, mem') \<Rightarrow> (\<lparr>me_constraint = c, me_modifiers = ms, me_observed = observed_names m\<rparr>, mem'))
      in case smap_find ''constraint'' m of
           Some (EString t) \<Rightarrow> (case parse_filter t of None \<Rightarrow> None | Some f \<Rightarrow> Some (rest (Some f)))
         | _ \<Rightarrow> Some (rest None))"

fun parse_modify_entries ::
  "(string \<Rightarrow> 'f option) \<Rightarrow> elem list \<Rightarrow> 'f modify \<Rightarrow> memory \<Rightarrow> bool \<times> 'f modify \<times> memory" where
  "parse_modify_entries parse_filter [] mo mem = (True, mo, mem)"
| "parse_modify_entries parse_filter (v # l) mo mem = (case v of
     EMap m \<Rightarrow> (case parseEntry parse_filter m mem of None \<Rightarrow> (False, mo, mem)
       | Some (en, mem') \<Rightarrow> parse_modify_entries parse_filter l
           (if me_modifiers en = [] then mo else mo\<lparr>mo_entries := mo_entries mo @ [en]\<rparr>) mem')
   | _ \<Rightarrow> parse_modify_entries parse_filter l mo mem)"

definition owned_modifiers :: "'f modify \<Rightarrow> modifier_ptr list" where
  "owned_modifiers mo = concat (map (\<lambda>en. map snd (me_modifiers en)) (mo_entries mo))"

text \<open>\<open>setData\<close>: the old modifiers are freed. The first component is whether no constraint threw.\<close>

definition setData ::
  "(string \<Rightarrow> 'f option) \<Rightarrow> elem \<Rightarrow> 'f modify \<Rightarrow> memory \<Rightarrow> bool \<times> 'f modify \<times> memory" where
  "setData parse_filter v mo mem =
     (let mem1 = mem\<lparr>mem_cells := (\<lambda>q. if q \<in> set (owned_modifiers mo) then None else mem_cells mem q)\<rparr>;
          mo1 = mo\<lparr>mo_data := v, mo_entries := []\<rparr>
      in case v of EList l \<Rightarrow> parse_modify_entries parse_filter l mo1 mem1 | _ \<Rightarrow> (True, mo1, mem1))"

section \<open>Activating modifiers\<close>

definition entry_active :: "('f \<Rightarrow> located \<Rightarrow> bool) \<Rightarrow> located \<Rightarrow> 'f modify_entry \<Rightarrow> bool" where
  "entry_active matches e en = (case me_constraint en of None \<Rightarrow> True | Some f \<Rightarrow> matches f e)"

definition activated ::
  "('f \<Rightarrow> located \<Rightarrow> bool) \<Rightarrow> 'f modify \<Rightarrow> located \<Rightarrow> (string \<times> modifier_ptr) list" where
  "activated matches mo e = foldl (\<lambda>s en. if entry_active matches e en
     then foldl (\<lambda>s' x. set_insert x s') s (me_modifiers en) else s) [] (mo_entries mo)"

text \<open>The loop over what should be active; the second component is what was active and has not been met yet.\<close>

definition activate_step ::
  "(string \<Rightarrow> property) \<Rightarrow> heap \<Rightarrow> listener \<Rightarrow> i64 \<Rightarrow> located \<times> (string \<times> modifier_ptr) list \<Rightarrow>
   string \<times> modifier_ptr \<Rightarrow> (located \<times> (string \<times> modifier_ptr) list) checked" where
  "activate_step create h listen i s x = (case s of (e, old) \<Rightarrow>
     if x \<in> set old then Inr (e, remove1 x old)
     else bind_ok (addModifier create h listen (fst x) (snd x) i e) (\<lambda>e1.
       bind_ok (mark_modifiers listen e1) (\<lambda>e2. Inr (e2, old))))"

definition remove_all_modifiers ::
  "(string \<Rightarrow> property) \<Rightarrow> heap \<Rightarrow> listener \<Rightarrow> (string \<times> modifier_ptr) list \<Rightarrow> located \<Rightarrow> located checked" where
  "remove_all_modifiers create h listen l e = run_steps (\<lambda>a x. removeModifier create h listen (fst x) (snd x) a) e l"

definition checkIfActive ::
  "('f \<Rightarrow> located \<Rightarrow> bool) \<Rightarrow> (string \<Rightarrow> property) \<Rightarrow> heap \<Rightarrow> listener \<Rightarrow> 'f modify \<Rightarrow> located \<Rightarrow> located checked" where
  "checkIfActive matches create h listen mo e =
     (if \<not> mo_parent mo then Inr e
      else let new = activated matches mo e in
      (case smap_find (mo_owner mo) (le_active e) of
         Some old \<Rightarrow>
           bind_ok (run_steps (activate_step create h listen (mo_owner mo)) (e, old) new) (\<lambda>(e1, left).
             remove_all_modifiers create h listen left e1)
       | None \<Rightarrow>
           if new = [] then Inr e
           else bind_ok (run_steps (\<lambda>a x. addModifier create h listen (fst x) (snd x) (mo_owner mo) a) e new)
             (mark_modifiers listen)))"

text \<open>The signal \<open>propertyApplied\<close> of the parent, with the listeners in the order they connected.\<close>

definition observes :: "'f modify \<Rightarrow> string \<Rightarrow> bool" where
  "observes mo name \<longleftrightarrow> mo_listening mo \<and> list_ex (\<lambda>en. name \<in> set (me_observed en)) (mo_entries mo)"

primrec notify ::
  "nat \<Rightarrow> ('f \<Rightarrow> located \<Rightarrow> bool) \<Rightarrow> (string \<Rightarrow> property) \<Rightarrow> heap \<Rightarrow> 'f modify list \<Rightarrow> listener" where
  "notify 0 matches create h mos name e =
     (if list_ex (\<lambda>mo. observes mo name) mos then Inl EndlessUpdates else Inr e)"
| "notify (Suc n) matches create h mos name e =
     run_steps (\<lambda>a mo. if observes mo name then checkIfActive matches create h (notify n matches create h mos) mo a
       else Inr a) e mos"

section \<open>Following the owner\<close>

definition leave_parent ::
  "(string \<Rightarrow> property) \<Rightarrow> heap \<Rightarrow> listener \<Rightarrow> 'f modify \<Rightarrow> located \<Rightarrow> located checked" where
  "leave_parent create h listen mo e =
     (if \<not> mo_parent mo then Inr e
      else (case smap_find (mo_owner mo) (le_active e) of
         None \<Rightarrow> Inr e
       | Some l \<Rightarrow> if l = [] then Inr e
           else bind_ok (remove_all_modifiers create h listen l e) (mark_modifiers listen)))"

text \<open>\<open>newLocation\<close>; \<open>e\<close> is the entity that was the parent.\<close>

definition newLocation ::
  "(string \<Rightarrow> property) \<Rightarrow> heap \<Rightarrow> listener \<Rightarrow> bool \<Rightarrow> 'f modify \<Rightarrow> located \<Rightarrow> ('f modify \<times> located) checked" where
  "newLocation create h listen has_parent mo e = bind_ok (leave_parent create h listen mo e) (\<lambda>e'.
     Inr (mo\<lparr>mo_parent := has_parent, mo_listening := has_parent\<rparr>, e'))"

text \<open>What is called when the owner has been put into another entity.\<close>

definition containered ::
  "('f \<Rightarrow> located \<Rightarrow> bool) \<Rightarrow> (string \<Rightarrow> property) \<Rightarrow> heap \<Rightarrow> listener \<Rightarrow> listener \<Rightarrow> 'f modify \<Rightarrow>
   located \<Rightarrow> located \<Rightarrow> ('f modify \<times> located \<times> located) checked" where
  "containered matches create h listen listen' mo old new =
     bind_ok (newLocation create h listen True mo old) (\<lambda>(mo', old').
       bind_ok (checkIfActive matches create h listen' mo' new) (\<lambda>new'. Inr (mo', old', new')))"

definition install ::
  "(string \<Rightarrow> property) \<Rightarrow> heap \<Rightarrow> listener \<Rightarrow> bool \<Rightarrow> 'f modify \<Rightarrow> located \<Rightarrow> ('f modify \<times> located) checked" where
  "install create h listen has_parent mo e =
     (let mo1 = mo\<lparr>mo_parent := has_parent, mo_listening := False\<rparr>
      in if has_parent then newLocation create h listen True mo1 e else Inr (mo1, e))"

definition remove_property ::
  "(string \<Rightarrow> property) \<Rightarrow> heap \<Rightarrow> listener \<Rightarrow> 'f modify \<Rightarrow> located \<Rightarrow> ('f modify \<times> located) checked" where
  "remove_property create h listen mo e = newLocation create h listen False mo e"

text \<open>\<open>apply\<close>, behind \<open>set\<close>: the pointers that are active belong to modifiers that have been freed.\<close>

definition apply_modify ::
  "('f \<Rightarrow> located \<Rightarrow> bool) \<Rightarrow> (string \<Rightarrow> property) \<Rightarrow> heap \<Rightarrow> listener \<Rightarrow> 'f modify \<Rightarrow> located \<Rightarrow> located checked" where
  "apply_modify matches create h listen mo e = bind_ok
     (if \<not> mo_parent mo then Inr e
      else (case smap_find (mo_owner mo) (le_active e) of None \<Rightarrow> Inr e
        | Some l \<Rightarrow> remove_all_modifiers create h listen l e))
     (checkIfActive matches create h listen mo)"

end
