(* ===== verification/Entity_Guarantees.thy ===== *)
theory Entity_Guarantees
  imports Entity_Modify
begin

text \<open>
  What holds of modified properties: their values are what the modifiers make of the base value, in every
  state, however the listeners of the signal change the entity again.
\<close>

section \<open>Values that are settled\<close>

definition holds_value :: "elem \<Rightarrow> property \<Rightarrow> bool" where
  "holds_value v p \<longleftrightarrow> prop_set v p = p"

definition settled_entry :: "heap \<Rightarrow> string \<Rightarrow> modifiable \<Rightarrow> bool" where
  "settled_entry h name mp \<longleftrightarrow> (mp_modifiers mp \<noteq> [] \<longrightarrow> isValidName name \<and>
     (\<exists>p v. mp_property mp = Some p \<and>
       apply_modifiers h (mp_base mp) (mp_modifiers mp) (mp_base mp) = Inr v \<and> holds_value v p))"

definition settled_but :: "string set \<Rightarrow> heap \<Rightarrow> located \<Rightarrow> bool" where
  "settled_but X h e \<longleftrightarrow> smap_ok (le_props e) \<and>
     (\<forall>name mp. smap_find name (le_props e) = Some mp \<longrightarrow> name \<notin> X \<longrightarrow> settled_entry h name mp)"

abbreviation settled :: "heap \<Rightarrow> located \<Rightarrow> bool" where
  "settled \<equiv> settled_but {}"

lemma flag_bits:
  "bit prop_flag_bool n \<longleftrightarrow> n = 6" "bit prop_flag_unsent n \<longleftrightarrow> n = 7"
proof -
  have 6: "prop_flag_bool = 2 ^ 6" and 7: "prop_flag_unsent = 2 ^ 7"
    by (simp_all add: prop_flag_bool_def prop_flag_unsent_def)
  show "bit prop_flag_bool n \<longleftrightarrow> n = 6"
    unfolding 6 bit_exp_iff by auto
  show "bit prop_flag_unsent n \<longleftrightarrow> n = 7"
    unfolding 7 bit_exp_iff by auto
qed

lemma flags_commute [simp]:
  "add_flags prop_flag_bool (add_flags prop_flag_unsent (add_flags prop_flag_bool f)) =
    add_flags prop_flag_unsent (add_flags prop_flag_bool f)"
  "remove_flags prop_flag_bool (add_flags prop_flag_unsent (remove_flags prop_flag_bool f)) =
    add_flags prop_flag_unsent (remove_flags prop_flag_bool f)"
  by (auto simp: add_flags_def remove_flags_def bit_simps flag_bits intro!: bit_word_eqI)

lemma holds_value_set:
  fixes p v
  defines "p1 \<equiv> prop_set v p"
  shows "holds_value v (mark_unsent p1)"
    and "holds_value v (mark_unsent (prop_install p1))"
  unfolding p1_def
  by (cases "pr_class p"; cases v; simp add: holds_value_def mark_unsent_def prop_set_def prop_install_def is_num_def as_num_def f64_narrow_def)+

lemma settled_but_all: "settled_but X h e \<Longrightarrow> smap_ok (le_props e)"
  by (simp add: settled_but_def)

lemma settled_but_weaker: "settled h e \<Longrightarrow> settled_but X h e"
  by (simp add: settled_but_def)

lemma settled_but_put:
  "settled_but X h e \<Longrightarrow> settled_but (insert name X) h (put_modifiable name mp e)"
  by (auto simp: settled_but_def put_modifiable_def smap_find_put)

lemma settled_put:
  "settled_but {name} h e \<Longrightarrow> settled_entry h name mp \<Longrightarrow> settled h (put_modifiable name mp e)"
  by (auto simp: settled_but_def put_modifiable_def smap_find_put)

lemma settled_but_cong:
  "le_props e = le_props e' \<Longrightarrow> settled_but X h e = settled_but X h e'"
  by (simp add: settled_but_def)

lemma settled_untouched [simp]:
  "settled_but X h (e\<lparr>le_active := a\<rparr>) = settled_but X h e"
  "settled_but X h (e\<lparr>le_flags := f\<rparr>) = settled_but X h e"
  "settled_but X h (enqueueUpdateOp e) = settled_but X h e"
  "settled_but X h (activate i name q e) = settled_but X h e"
  by (simp_all add: settled_but_def enqueueUpdateOp_def activate_def)

lemma find_put [simp]:
  "smap_ok (le_props e) \<Longrightarrow> smap_find name (le_props (put_modifiable n mp e)) =
    (if name = n then Some mp else smap_find name (le_props e))"
  by (simp add: put_modifiable_def smap_find_put)

lemma put_put [simp]: "put_modifiable n b (put_modifiable n a e) = put_modifiable n b e"
proof -
  have "smap_put n b (smap_put n a m) = smap_put n b m" for m :: "(string, modifiable) smap"
    by (induction n a m rule: smap_put.induct) auto
  then show ?thesis by (simp add: put_modifiable_def)
qed

text \<open>What a computed value has to do with the modifiers.\<close>

lemma new_value_folds:
  assumes "new_value h e m mp p = Inr (mp', v)" and "mp_modifiers mp \<noteq> []"
    and "(\<exists>x. m = Some (createModifier DefaultModifier x)) \<or> (m = None \<and> mp_base mp = ENone)"
  shows "apply_modifiers h (mp_base mp') (mp_modifiers mp') (mp_base mp') = Inr v"
  using assms by (auto simp: new_value_def bind_ok_Inr createModifier_def split: if_splits)

lemma new_value_keeps: "new_value h e m mp p = Inr (mp', v) \<Longrightarrow> mp_modifiers mp' = mp_modifiers mp"
  by (auto simp: new_value_def bind_ok_Inr split: if_splits option.splits)

lemma mark_modifiers_cases:
  assumes run: "mark_modifiers listen e = Inr e'"
  obtains e1 mp p where "modProperty listen ''_modifiers'' ENone e = Inr e1"
    and "mp = (case smap_find ''_modifiers'' (le_props e1) of None \<Rightarrow> empty_modifiable | Some mp \<Rightarrow> mp)"
    and "pr_class p = ModifiersProperty"
    and "e' = put_modifiable ''_modifiers'' (mp\<lparr>mp_property := Some (mark_unsent p)\<rparr>) e1"
proof -
  from run obtain e1 where m: "modProperty listen ''_modifiers'' ENone e = Inr e1"
    by (auto simp: mark_modifiers_def bind_ok_Inr)
  define mp where "mp = (case smap_find ''_modifiers'' (le_props e1) of None \<Rightarrow> empty_modifiable | Some mp \<Rightarrow> mp)"
  show ?thesis
  proof (cases "mp_property mp")
    case None
    with run m show ?thesis
      by (intro that [OF m mp_def, of fresh_modifiers])
        (simp_all add: mark_modifiers_def mp_def Let_def fresh_modifiers_def prop_install_def)
  next
    case (Some p)
    with run m show ?thesis
      by (intro that [OF m mp_def, of p]) (auto simp: mark_modifiers_def mp_def [symmetric] Let_def split: if_splits)
  qed
qed

section \<open>Operations keep values settled\<close>

text \<open>
  The contract of whoever listens to the signal of the entity: called in a settled state, it leaves a settled
  state.
\<close>

locale settling =
  fixes h :: heap and listen :: listener
  assumes listen_keeps: "settled h e \<Longrightarrow> listen name e = Inr e' \<Longrightarrow> settled h e'"
begin

lemma applyProperty_settled:
  assumes "settled_but {name} h e" and "isValidName name"
    and "mp_modifiers mp \<noteq> [] \<Longrightarrow> apply_modifiers h (mp_base mp) (mp_modifiers mp) (mp_base mp) = Inr v"
    and "holds_value v (mark_unsent p)"
    and "applyProperty listen name mp p e = Inr e'"
  shows "settled h e'"
proof -
  let ?mp = "mp\<lparr>mp_property := Some (mark_unsent p)\<rparr>"
  have "settled_entry h name ?mp" using assms(2-4) by (auto simp: settled_entry_def)
  with assms(1) have "settled h (put_modifiable name ?mp e)" by (rule settled_put)
  with assms(5) show ?thesis by (auto simp: applyProperty_def bind_ok_Inr dest: listen_keeps)
qed

lemma setAttr_settled:
  assumes ok: "settled_but {name} h e" and valid: "isValidName name"
    and m: "(\<exists>x. m = Some (createModifier DefaultModifier x)) \<or>
      (m = None \<and> (\<forall>mp. smap_find name (le_props e) = Some mp \<longrightarrow> mp_base mp = ENone))"
    and run: "setAttr create h listen name m e = Inr e'"
  shows "settled h e'"
proof -
  obtain mp p fresh where req: "required_property create name e = (mp, p, fresh)"
    by (cases "required_property create name e") auto
  from run req valid obtain mp' v where
    new: "new_value h (put_modifiable name (mp\<lparr>mp_property := Some p\<rparr>) e) m mp p = Inr (mp', v)"
    and ap: "applyProperty listen name mp' (if fresh
        then prop_install (prop_set v (p\<lparr>pr_flags := remove_flags prop_flag_persistence_clean (pr_flags p)\<rparr>))
        else prop_set v (p\<lparr>pr_flags := remove_flags prop_flag_persistence_clean (pr_flags p)\<rparr>)) e = Inr e'"
    by (auto simp: setAttr_def bind_ok_Inr Let_def)
  have base: "m = None \<Longrightarrow> mp_base mp = ENone"
    using m req by (auto simp: required_property_def empty_modifiable_def Let_def split: option.splits)
  show ?thesis
  proof (rule applyProperty_settled [OF ok valid _ _ ap])
    show "mp_modifiers mp' \<noteq> [] \<Longrightarrow> apply_modifiers h (mp_base mp') (mp_modifiers mp') (mp_base mp') = Inr v"
      using new_value_folds [OF new] new_value_keeps [OF new] m base by auto
  qed (use holds_value_set in \<open>simp split: if_splits\<close>)
qed

lemma setAttr_base_settled:
  assumes "settled_but {name} h e" and "isValidName name"
    and "setAttr create h listen name (Some (createModifier DefaultModifier x)) e = Inr e'"
  shows "settled h e'"
  by (rule setAttr_settled [OF assms(1,2) _ assms(3)]) auto

lemma setAttr_default_settled:
  "settled h e \<Longrightarrow> setAttr create h listen name (Some (createModifier DefaultModifier x)) e = Inr e' \<Longrightarrow>
    settled h e'"
  by (cases "isValidName name")
    (auto intro: setAttr_base_settled settled_but_weaker simp: setAttr_def)

lemma addModifier_settled:
  assumes ok: "settled h e" and run: "addModifier create h listen name q i e = Inr e'"
  shows "settled h e'"
proof (cases "has_flags (le_flags e) entity_modifiers_not_allowed \<or> \<not> isValidName name")
  case True
  with ok run show ?thesis by (auto simp: addModifier_def)
next
  case False
  have ok': "settled_but {name} h (put_modifiable name mp (activate i name q e))" for mp
    using settled_but_put [of "{}" h "activate i name q e" name mp] ok by simp
  have keys: "smap_ok (le_props (activate i name q e))" using ok by (simp add: settled_but_def activate_def)
  have put_default: "settled h e1"
    if "setAttr create h listen name (Some (createModifier DefaultModifier x))
      (put_modifiable name mp (activate i name q e)) = Inr e1" for mp x e1
    using that False by (auto intro: setAttr_base_settled [OF ok'])
  have put_none: "settled h e1"
    if "setAttr create h listen name None (put_modifiable name mp (activate i name q e)) = Inr e1"
      and "mp_base mp = ENone" for mp e1
    using that False keys by (intro setAttr_settled [OF ok' _ _ that(1)]) auto
  from run False ok show ?thesis
    by (auto simp: addModifier_def Let_def bind_ok_Inr split: option.splits if_splits
        dest: put_default put_none)
qed

lemma removeModifier_settled:
  assumes ok: "settled h e" and run: "removeModifier create h listen name q e = Inr e'"
  shows "settled h e'"
proof -
  let ?e = "e\<lparr>le_active := deactivate (name, q) (le_active e)\<rparr>"
  have ok': "settled_but {name} h (put_modifiable name mp ?e)" for mp
    using settled_but_put [of "{}" h ?e name mp] ok by simp
  show ?thesis
  proof (cases "smap_find name (le_props e)")
    case None
    with ok run show ?thesis by (auto simp: removeModifier_def)
  next
    case (Some mp)
    show ?thesis
    proof (cases "drop_modifier q (mp_modifiers mp)")
      case None
      with Some ok run show ?thesis by (auto simp: removeModifier_def)
    next
      case drop: (Some ms)
      then have "mp_modifiers mp \<noteq> []" by auto
      with ok Some have valid: "isValidName name" by (auto simp: settled_but_def settled_entry_def)
      from run Some drop valid obtain e1 where
        "setAttr create h listen name (Some (createModifier DefaultModifier (mp_base mp)))
          (put_modifiable name (mp\<lparr>mp_modifiers := ms\<rparr>) ?e) = Inr e1" and "e' = enqueueUpdateOp e1"
        by (auto simp: removeModifier_def setAttrValue_def valid_name_no_bang bind_ok_Inr)
      with setAttr_base_settled [OF ok' valid] show ?thesis by auto
    qed
  qed
qed

lemma modProperty_settled:
  assumes ok: "settled h e" and run: "modProperty listen name v e = Inr e'"
  shows "settled h e'"
proof (cases "smap_has name (le_props e) \<or> type_default name e = None")
  case True
  with ok run show ?thesis by (auto simp: modProperty_def split: if_splits)
next
  case False
  then obtain p where ap: "applyProperty listen name empty_modifiable p e = Inr e'"
    using run by (auto simp: modProperty_def Let_def split: if_splits option.splits)
  let ?mp = "empty_modifiable\<lparr>mp_property := Some (mark_unsent p)\<rparr>"
  have "settled h (put_modifiable name ?mp e)"
    by (rule settled_put [OF settled_but_weaker [OF ok]]) (simp add: settled_entry_def empty_modifiable_def)
  with ap show ?thesis by (auto simp: applyProperty_def bind_ok_Inr dest: listen_keeps)
qed

lemma mark_modifiers_settled:
  assumes ok: "settled h e" and run: "mark_modifiers listen e = Inr e'"
  shows "settled h e'"
proof -
  obtain e1 mp p where m: "modProperty listen ''_modifiers'' ENone e = Inr e1"
    and mp: "mp = (case smap_find ''_modifiers'' (le_props e1) of None \<Rightarrow> empty_modifiable | Some mp \<Rightarrow> mp)"
    and p: "pr_class p = ModifiersProperty"
    and e': "e' = put_modifiable ''_modifiers'' (mp\<lparr>mp_property := Some (mark_unsent p)\<rparr>) e1"
    using run by (rule mark_modifiers_cases)
  have e1: "settled h e1" by (rule modProperty_settled [OF ok m])
  have "settled_entry h ''_modifiers'' (mp\<lparr>mp_property := Some (mark_unsent p)\<rparr>)"
  proof (cases "mp_modifiers mp = []")
    case False
    then have "smap_find ''_modifiers'' (le_props e1) = Some mp"
      using mp by (auto simp: empty_modifiable_def split: option.splits)
    with e1 False show ?thesis
      using p by (auto simp: settled_but_def settled_entry_def holds_value_def mark_unsent_def prop_set_def)
  qed (simp add: settled_entry_def)
  then show ?thesis unfolding e' by (rule settled_put [OF settled_but_weaker [OF e1]])
qed

lemma remove_all_settled:
  "settled h e \<Longrightarrow> remove_all_modifiers create h listen l e = Inr e' \<Longrightarrow> settled h e'"
  unfolding remove_all_modifiers_def
  by (rule run_steps_invariant [where P = "settled h"]) (auto dest: removeModifier_settled)

lemma activate_step_settled:
  "settled h (fst s) \<Longrightarrow> activate_step create h listen i s x = Inr s' \<Longrightarrow> settled h (fst s')"
  by (auto simp: activate_step_def bind_ok_Inr split: prod.splits if_splits
      intro: mark_modifiers_settled [OF addModifier_settled])

lemma checkIfActive_settled:
  assumes ok: "settled h e" and run: "checkIfActive matches create h listen mo e = Inr e'"
  shows "settled h e'"
proof -
  have steps: "settled h (fst s')"
    if "run_steps (activate_step create h listen i) (e, old) new = Inr s'" for i old new s'
    using run_steps_invariant [where P = "\<lambda>s. settled h (fst s)", OF _ that] activate_step_settled ok by auto
  have adds: "settled h e1"
    if "run_steps (\<lambda>a x. addModifier create h listen (fst x) (snd x) i a) e new = Inr e1" for i new e1
    using run_steps_invariant [where P = "settled h", OF _ that] addModifier_settled ok by auto
  from run ok show ?thesis
    by (auto simp: checkIfActive_def Let_def bind_ok_Inr split: option.splits if_splits
        dest!: steps adds dest: remove_all_settled mark_modifiers_settled)
qed

lemma leave_parent_settled:
  "settled h e \<Longrightarrow> leave_parent create h listen mo e = Inr e' \<Longrightarrow> settled h e'"
  by (auto simp: leave_parent_def bind_ok_Inr split: option.splits if_splits
      dest: remove_all_settled mark_modifiers_settled)

lemma newLocation_settled:
  "settled h e \<Longrightarrow> newLocation create h listen b mo e = Inr (mo', e') \<Longrightarrow> settled h e'"
  by (auto simp: newLocation_def bind_ok_Inr dest: leave_parent_settled)

lemma apply_modify_settled:
  "settled h e \<Longrightarrow> apply_modify matches create h listen mo e = Inr e' \<Longrightarrow> settled h e'"
  by (auto simp: apply_modify_def bind_ok_Inr split: option.splits if_splits
      dest: remove_all_settled checkIfActive_settled)

end

text \<open>Nobody listens; and the modify properties listen, to any depth.\<close>

interpretation quiet: settling h "\<lambda>name. Inr" for h
  by unfold_locales simp

lemma notify_settles: "settling h (notify n matches create h mos)"
proof (induction n)
  case 0
  show ?case by unfold_locales (auto split: if_splits)
next
  case (Suc n)
  then have check: "settled h e \<Longrightarrow> checkIfActive matches create h (notify n matches create h mos) mo e = Inr e' \<Longrightarrow>
      settled h e'" for mo e e'
    by (rule settling.checkIfActive_settled)
  show ?case
  proof
    fix e name e'
    assume ok: "settled h e" and "notify (Suc n) matches create h mos name e = Inr e'"
    then have "run_steps (\<lambda>a mo. if observes mo name then checkIfActive matches create h
        (notify n matches create h mos) mo a else Inr a) e mos = Inr e'" by simp
    then show "settled h e'"
      by (rule run_steps_invariant [where P = "settled h", rotated]) (auto simp: ok split: if_splits dest: check)
  qed
qed

interpretation notified: settling h "notify n matches create h mos" for h n matches create mos
  by (rule notify_settles)

end
