(* ===== verification/Entity_Sync.thy ===== *)
theory Entity_Sync
  imports Entity_Guarantees
begin

text \<open>
  Which modifiers are active. The contract \<open>silent\<close> is that of listeners that do not activate or remove
  modifiers themselves; under it a check of a modify property makes active what its constraints ask for, and
  nothing else.
\<close>

section \<open>The table of active modifiers\<close>

definition same_active :: "located \<Rightarrow> located \<Rightarrow> bool" where
  "same_active e e' \<longleftrightarrow> le_active e' = le_active e \<and>
     has_flags (le_flags e') entity_modifiers_not_allowed = has_flags (le_flags e) entity_modifiers_not_allowed"

lemma same_active_refl [simp]: "same_active e e"
  by (simp add: same_active_def)

lemma same_active_trans: "same_active a b \<Longrightarrow> same_active b c \<Longrightarrow> same_active a c"
  by (simp add: same_active_def)

lemma same_active_put [simp]: "same_active (put_modifiable n mp e) e' = same_active e e'"
  "same_active e (put_modifiable n mp e') = same_active e e'"
  by (simp_all add: same_active_def put_modifiable_def)

lemma forbidden_bit: "has_flags f entity_modifiers_not_allowed \<longleftrightarrow> bit f 15"
proof -
  have m: "entity_modifiers_not_allowed = 2 ^ 15" by (simp add: entity_modifiers_not_allowed_def)
  have "bit (and f entity_modifiers_not_allowed) n \<longleftrightarrow> n = 15 \<and> bit f n" for n
    unfolding m bit_and_iff bit_exp_iff by auto
  then show ?thesis unfolding has_flags_def
    by (metis bit_eqI bit_0_eq bot_apply bot_bool_def)
qed

lemma other_bits: "bit entity_clean n \<longleftrightarrow> n = 0" "bit entity_update_broadcast_queued n \<longleftrightarrow> n = 18"
proof -
  have 0: "entity_clean = 2 ^ 0" and 18: "entity_update_broadcast_queued = 2 ^ 18"
    by (simp_all add: entity_clean_def entity_update_broadcast_queued_def)
  show "bit entity_clean n \<longleftrightarrow> n = 0" unfolding 0 bit_exp_iff by auto
  show "bit entity_update_broadcast_queued n \<longleftrightarrow> n = 18" unfolding 18 bit_exp_iff by auto
qed

lemma same_active_flags [simp]:
  "same_active e (e'\<lparr>le_flags := remove_flags entity_clean (le_flags e')\<rparr>) = same_active e e'"
  "same_active e (enqueueUpdateOp e') = same_active e e'"
  by (auto simp: same_active_def enqueueUpdateOp_def forbidden_bit remove_flags_def add_flags_def bit_simps other_bits)

lemma active_of_activate:
  "smap_ok (le_active e) \<Longrightarrow> active_of j (activate i name q e) =
    (if j = i then set_insert (name, q) (active_of i e) else active_of j e)"
  by (simp add: active_of_def activate_def smap_find_put)

lemma deactivate_ok: "smap_ok m \<Longrightarrow> smap_ok (deactivate x m)"
proof -
  have "map fst (deactivate x m) = map fst m" by (induction x m rule: deactivate.induct) auto
  then show "smap_ok m \<Longrightarrow> smap_ok (deactivate x m)" by (simp add: smap_ok_def)
qed

lemma find_deactivate:
  assumes "smap_ok m" and "smap_find i m = Some l" and "x \<in> set l"
    and "\<And>j k. j \<noteq> i \<Longrightarrow> smap_find j m = Some k \<Longrightarrow> x \<notin> set k"
  shows "smap_find j (deactivate x m) = (if j = i then Some (remove1 x l) else smap_find j m)"
  using assms
proof (induction x m rule: deactivate.induct)
  case (2 x i' l' r)
  show ?case
  proof (cases "i' = i")
    case True
    with 2 show ?thesis by simp
  next
    case False
    with 2(5) [of i' l'] have "x \<notin> set l'" by simp
    moreover have "smap_find j r = Some k \<Longrightarrow> j \<noteq> i \<Longrightarrow> x \<notin> set k" for j k
    proof -
      assume j: "smap_find j r = Some k" "j \<noteq> i"
      then have "(j, k) \<in> set r" by (simp add: smap_find_def map_of_SomeD)
      then have "i' < j" using 2(2) by (force simp: smap_ok_Cons)
      then have "i' \<noteq> j" by auto
      with j show "x \<notin> set k" using 2(5) [of j k] by simp
    qed
    ultimately show ?thesis using 2 False by (auto simp: smap_ok_Cons)
  qed
qed simp

text \<open>The state a check walks through: \<open>l\<close> is active for the owner, the other owners have what they had.\<close>

definition owner_active :: "i64 \<Rightarrow> located \<Rightarrow> (string \<times> modifier_ptr) set \<Rightarrow> located \<Rightarrow> bool" where
  "owner_active i e0 l e \<longleftrightarrow> \<not> has_flags (le_flags e) entity_modifiers_not_allowed \<and> smap_ok (le_active e) \<and>
     set (active_of i e) = l \<and> distinct (active_of i e) \<and> (\<forall>j. j \<noteq> i \<longrightarrow> active_of j e = active_of j e0)"

lemma owner_active_same: "owner_active i e0 l e \<Longrightarrow> same_active e e' \<Longrightarrow> owner_active i e0 l e'"
  by (simp add: owner_active_def same_active_def active_of_def)

section \<open>Listeners that leave modifiers alone\<close>

locale silent =
  fixes listen :: listener
  assumes listen_silent: "listen name e = Inr e' \<Longrightarrow> same_active e e'"
begin

lemma applyProperty_active: "applyProperty listen name mp p e = Inr e' \<Longrightarrow> same_active e e'"
  by (auto simp: applyProperty_def bind_ok_Inr dest: listen_silent)

lemma setAttr_active: "setAttr create h listen name m e = Inr e' \<Longrightarrow> same_active e e'"
  by (auto simp: setAttr_def bind_ok_Inr Let_def split: if_splits prod.splits dest: applyProperty_active)

lemma set_put_active: "setAttr create h listen name m (put_modifiable n mp e) = Inr e' \<Longrightarrow> same_active e e'"
  by (drule setAttr_active) simp

lemma modProperty_active: "modProperty listen name v e = Inr e' \<Longrightarrow> same_active e e'"
  by (auto simp: modProperty_def Let_def split: if_splits option.splits dest: applyProperty_active)

lemma mark_modifiers_active: "mark_modifiers listen e = Inr e' \<Longrightarrow> same_active e e'"
  by (erule mark_modifiers_cases) (simp add: modProperty_active)

lemma addModifier_active:
  assumes "\<not> has_flags (le_flags e) entity_modifiers_not_allowed" and "isValidName name"
    and "addModifier create h listen name q i e = Inr e'"
  shows "same_active (activate i name q e) e'"
  using assms
  by (auto simp: addModifier_def Let_def bind_ok_Inr split: option.splits if_splits dest: set_put_active)

lemma removeModifier_active:
  "removeModifier create h listen name q e = Inr e' \<Longrightarrow>
    same_active (e\<lparr>le_active := deactivate (name, q) (le_active e)\<rparr>) e'"
  by (auto simp: removeModifier_def setAttrValue_def Let_def bind_ok_Inr split: option.splits prod.splits
      dest: set_put_active)

lemma add_owner_active:
  assumes "owner_active i e0 l e" and "isValidName (fst x)"
    and "addModifier create h listen (fst x) (snd x) i e = Inr e'"
  shows "owner_active i e0 (insert x l) e'"
proof (rule owner_active_same)
  show "owner_active i e0 (insert x l) (activate i (fst x) (snd x) e)"
    using assms(1) by (auto simp: owner_active_def active_of_activate distinct_set_insert) (simp_all add: activate_def)
  show "same_active (activate i (fst x) (snd x) e) e'"
    using assms by (intro addModifier_active) (auto simp: owner_active_def)
qed

lemma remove_owner_active:
  assumes "owner_active i e0 l e" and "x \<in> l" and "\<forall>j. j \<noteq> i \<longrightarrow> x \<notin> set (active_of j e0)"
    and "removeModifier create h listen (fst x) (snd x) e = Inr e'"
  shows "owner_active i e0 (l - {x}) e'"
proof (rule owner_active_same)
  let ?e = "e\<lparr>le_active := deactivate x (le_active e)\<rparr>"
  obtain k where k: "smap_find i (le_active e) = Some k" "x \<in> set k"
    using assms(1,2) by (auto simp: owner_active_def active_of_def split: option.splits)
  have "x \<notin> set k'" if "j \<noteq> i" "smap_find j (le_active e) = Some k'" for j k'
  proof -
    have "active_of j e = active_of j e0" using that(1) assms(1) by (simp add: owner_active_def)
    moreover have "active_of j e = k'" using that(2) by (simp add: active_of_def)
    ultimately show ?thesis using that(1) assms(3) by auto
  qed
  then have find: "smap_find j (deactivate x (le_active e)) = (if j = i then Some (remove1 x k) else smap_find j (le_active e))" for j
    using assms(1) k by (simp add: owner_active_def find_deactivate)
  have "active_of j ?e = (if j = i then remove1 x k else active_of j e)" for j
    by (simp add: active_of_def find)
  moreover have "active_of i e = k" using k(1) by (simp add: active_of_def)
  moreover have "smap_ok (le_active ?e)" using assms(1) by (simp add: owner_active_def deactivate_ok)
  ultimately show "owner_active i e0 (l - {x}) ?e"
    using assms(1) by (simp add: owner_active_def)
  show "same_active ?e e'" using removeModifier_active [OF assms(4)] by simp
qed

lemma remove_all_owner_active:
  "owner_active i e0 l e \<Longrightarrow> set k \<subseteq> l \<Longrightarrow> distinct k \<Longrightarrow>
    \<forall>j x. j \<noteq> i \<longrightarrow> x \<in> set k \<longrightarrow> x \<notin> set (active_of j e0) \<Longrightarrow>
    remove_all_modifiers create h listen k e = Inr e' \<Longrightarrow> owner_active i e0 (l - set k) e'"
proof (induction k arbitrary: l e)
  case Nil
  then show ?case by (simp add: remove_all_modifiers_def)
next
  case (Cons x k)
  from Cons.prems(5) obtain e1 where r: "removeModifier create h listen (fst x) (snd x) e = Inr e1"
    and rest: "remove_all_modifiers create h listen k e1 = Inr e'"
    by (auto simp: remove_all_modifiers_def split: sum.splits)
  have "owner_active i e0 (l - {x}) e1"
    using remove_owner_active [OF Cons.prems(1) _ _ r] Cons.prems(2,4) by auto
  from Cons.IH [OF this _ _ _ rest] Cons.prems(2-4) have "owner_active i e0 (l - {x} - set k) e'" by auto
  moreover have "l - {x} - set k = l - set (x # k)" by auto
  ultimately show ?case by simp
qed

lemma activate_steps:
  "owner_active i e0 l e \<Longrightarrow> distinct old \<Longrightarrow> \<forall>x \<in> set new. isValidName (fst x) \<Longrightarrow>
    run_steps (activate_step create h listen i) (e, old) new = Inr (e', left) \<Longrightarrow>
    set left = set old - set new \<and> distinct left \<and>
    (\<exists>k. owner_active i e0 k e' \<and> l \<subseteq> k \<and> k \<subseteq> l \<union> set new \<and> (set new - set old) \<subseteq> k)"
proof (induction new arbitrary: l e old)
  case Nil
  then show ?case by auto
next
  case (Cons x new)
  show ?case
  proof (cases "x \<in> set old")
    case True
    then have "activate_step create h listen i (e, old) x = Inr (e, remove1 x old)" by (simp add: activate_step_def)
    with Cons.prems(4) have "run_steps (activate_step create h listen i) (e, remove1 x old) new = Inr (e', left)" by simp
    from Cons.IH [OF Cons.prems(1) _ _ this] Cons.prems(2,3)
    show ?thesis by (auto simp: True)
  next
    case False
    from Cons.prems(4) obtain s where step: "activate_step create h listen i (e, old) x = Inr s"
      and more: "run_steps (activate_step create h listen i) s new = Inr (e', left)" by (auto split: sum.splits)
    from step False obtain e1 e2 where
      a: "addModifier create h listen (fst x) (snd x) i e = Inr e1" "mark_modifiers listen e1 = Inr e2" "s = (e2, old)"
      by (auto simp: activate_step_def bind_ok_Inr)
    note rest = more [unfolded a(3)]
    have "owner_active i e0 (insert x l) e2"
      using add_owner_active [OF Cons.prems(1) _ a(1)] Cons.prems(3) mark_modifiers_active [OF a(2)]
      by (auto intro: owner_active_same)
    from Cons.IH [OF this Cons.prems(2) _ rest] Cons.prems(3)
    show ?thesis using False by auto
  qed
qed

lemma adds_owner_active:
  "owner_active i e0 l e \<Longrightarrow> \<forall>x \<in> set new. isValidName (fst x) \<Longrightarrow>
    run_steps (\<lambda>a x. addModifier create h listen (fst x) (snd x) i a) e new = Inr e' \<Longrightarrow>
    owner_active i e0 (l \<union> set new) e'"
proof (induction new arbitrary: l e)
  case (Cons x new)
  from Cons.prems obtain e1 where a: "addModifier create h listen (fst x) (snd x) i e = Inr e1"
    and rest: "run_steps (\<lambda>a x. addModifier create h listen (fst x) (snd x) i a) e1 new = Inr e'"
    by (auto split: sum.splits)
  from add_owner_active [OF Cons.prems(1) _ a] Cons.prems(2) have "owner_active i e0 (insert x l) e1" by simp
  from Cons.IH [OF this _ rest] Cons.prems(2) show ?case by simp
qed simp

lemma check_owner_active:
  assumes run: "checkIfActive matches create h listen mo e = Inr e'" and parent: "mo_parent mo"
    and init: "owner_active (mo_owner mo) e l e"
    and valid: "\<forall>x \<in> set (activated matches mo e). isValidName (fst x)"
    and own: "\<forall>j x. j \<noteq> mo_owner mo \<longrightarrow> x \<in> l \<longrightarrow> x \<notin> set (active_of j e)"
  shows "owner_active (mo_owner mo) e (set (activated matches mo e)) e'"
proof (cases "smap_find (mo_owner mo) (le_active e)")
  case None
  then have "l = {}" using init by (simp add: owner_active_def active_of_def)
  show ?thesis
  proof (cases "activated matches mo e = []")
    case True
    with None run parent init \<open>l = {}\<close> show ?thesis by (simp add: checkIfActive_def)
  next
    case False
    with None run parent obtain e1 where
      adds: "run_steps (\<lambda>a x. addModifier create h listen (fst x) (snd x) (mo_owner mo) a) e (activated matches mo e) = Inr e1"
      and mark: "mark_modifiers listen e1 = Inr e'"
      by (auto simp: checkIfActive_def bind_ok_Inr Let_def)
    show ?thesis
      using owner_active_same [OF adds_owner_active [OF init valid adds] mark_modifiers_active [OF mark]] \<open>l = {}\<close>
      by simp
  qed
next
  case (Some old)
  then have old: "set old = l" "distinct old" using init by (auto simp: owner_active_def active_of_def)
  from run parent Some obtain e1 left where
    steps: "run_steps (activate_step create h listen (mo_owner mo)) (e, old) (activated matches mo e) = Inr (e1, left)"
    and rm: "remove_all_modifiers create h listen left e1 = Inr e'"
    by (auto simp: checkIfActive_def bind_ok_Inr Let_def)
  from activate_steps [OF init old(2) valid steps] obtain k where
    left: "set left = l - set (activated matches mo e)" "distinct left"
    and k: "owner_active (mo_owner mo) e k e1" "l \<subseteq> k" "k \<subseteq> l \<union> set (activated matches mo e)"
      "set (activated matches mo e) - l \<subseteq> k" using old by auto
  from k(1) left have "owner_active (mo_owner mo) e (k - set left) e'"
    using remove_all_owner_active [OF k(1) _ left(2) _ rm] k(2) own by auto
  moreover have "k - set left = set (activated matches mo e)" using k(2-4) left by auto
  ultimately show ?thesis by simp
qed

end

interpretation unobserved: silent "notify n matches create h []" for n matches create h
  by unfold_locales (cases n; simp)

end
