(* ===== verification/Entity_Properties.thy ===== *)
theory Entity_Properties
  imports Entity_Sync
begin

text \<open>
  The properties of modified entities: what every sequence of changes keeps, adding a modifier and taking it
  away again, which modifiers are active behind a check; and what goes wrong when a modify property observes
  what it modifies, or is changed while its modifiers are active.
\<close>

section \<open>Adding and removing\<close>

definition well_typed :: "property \<Rightarrow> bool" where
  "well_typed p = (case pr_class p of
     SoftProperty \<Rightarrow> True | BoolProperty \<Rightarrow> True | ModifiersProperty \<Rightarrow> False
   | IntProperty \<Rightarrow> (case pr_data p of EInt i \<Rightarrow> scast (ucast i :: 32 word) = i | _ \<Rightarrow> False)
   | LongProperty \<Rightarrow> (case pr_data p of EInt i \<Rightarrow> True | _ \<Rightarrow> False)
   | FloatProperty \<Rightarrow> (case pr_data p of EFloat f \<Rightarrow> f64_narrow f = f | _ \<Rightarrow> False)
   | DoubleProperty \<Rightarrow> (case pr_data p of EFloat f \<Rightarrow> True | _ \<Rightarrow> False)
   | StringProperty \<Rightarrow> (case pr_data p of EString s \<Rightarrow> True | _ \<Rightarrow> False)
   | ListProperty \<Rightarrow> (case pr_data p of EList l \<Rightarrow> True | _ \<Rightarrow> False)
   | MapProperty \<Rightarrow> (case pr_data p of EMap m \<Rightarrow> True | _ \<Rightarrow> False))"

lemma flag_bool_bits [simp]:
  "has_flags (add_flags prop_flag_unsent f) prop_flag_bool = has_flags f prop_flag_bool"
  "has_flags (add_flags prop_flag_bool f) prop_flag_bool"
  "\<not> has_flags (remove_flags prop_flag_bool f) prop_flag_bool"
proof -
  have iff: "has_flags g prop_flag_bool \<longleftrightarrow> bit g 6" for g :: "32 word"
  proof
    assume "has_flags g prop_flag_bool"
    then obtain n where "bit (and g prop_flag_bool) n"
      unfolding has_flags_def bit_eq_iff by auto
    then show "bit g 6" by (auto simp: bit_simps flag_bits)
  next
    assume "bit g 6"
    then have "bit (and g prop_flag_bool) 6" by (simp add: bit_simps flag_bits)
    then show "has_flags g prop_flag_bool" unfolding has_flags_def by (metis bit_0_eq bot_apply bot_bool_def)
  qed
  show "has_flags (add_flags prop_flag_unsent f) prop_flag_bool = has_flags f prop_flag_bool"
    "has_flags (add_flags prop_flag_bool f) prop_flag_bool"
    "\<not> has_flags (remove_flags prop_flag_bool f) prop_flag_bool"
    unfolding iff by (auto simp: add_flags_def remove_flags_def bit_simps flag_bits)
qed

text \<open>Setting the value a well-typed property has, in any property of its class, gives that value.\<close>

lemma get_set:
  assumes "well_typed p" and "prop_get h e p = Inr v" and "pr_class p' = pr_class p"
  shows "prop_get h' e' (mark_unsent (prop_set v p')) = Inr v"
    and "prop_get h' e' (mark_unsent (prop_install (prop_set v p'))) = Inr v"
  using assms
  by (cases "pr_class p"; cases v;
      auto simp: well_typed_def prop_get_def prop_set_def mark_unsent_def prop_install_def is_num_def as_num_def
        split: elem.splits if_splits)+

text \<open>The modifiers and the base value a property has now.\<close>

definition modifiers_of :: "string \<Rightarrow> located \<Rightarrow> (modifier_ptr \<times> i64) list" where
  "modifiers_of name e = (case smap_find name (le_props e) of None \<Rightarrow> [] | Some mp \<Rightarrow> mp_modifiers mp)"

definition base_of :: "string \<Rightarrow> located \<Rightarrow> elem" where
  "base_of name e = (case smap_find name (le_props e) of None \<Rightarrow> ENone | Some mp \<Rightarrow> mp_base mp)"

text \<open>Without listeners, setting a value changes one property and leaves the rest of the entity.\<close>

definition only_changes :: "string \<Rightarrow> modifiable \<Rightarrow> located \<Rightarrow> located \<Rightarrow> bool" where
  "only_changes name mp e e' \<longleftrightarrow> le_defaults e' = le_defaults e \<and> le_active e' = le_active e \<and>
     smap_ok (le_props e') \<and>
     (\<forall>n. smap_find n (le_props e') = (if n = name then Some mp else smap_find n (le_props e)))"

lemma setAttr_quiet:
  assumes ok: "smap_ok (le_props e)" and valid: "isValidName name"
    and run: "setAttr create h (\<lambda>name. Inr) name (Some (createModifier DefaultModifier x)) e = Inr e'"
    and req: "required_property create name e = (mp, p, fresh)"
  obtains v p' q where "if mp_modifiers mp = [] then v = x else apply_modifiers h x (mp_modifiers mp) x = Inr v"
    and "pr_class p' = pr_class p"
    and "q = mark_unsent (prop_set v p') \<or> q = mark_unsent (prop_install (prop_set v p'))"
    and "only_changes name (mp\<lparr>mp_base := if mp_modifiers mp = [] then mp_base mp else x, mp_property := Some q\<rparr>) e e'"
proof -
  let ?p = "p\<lparr>pr_flags := remove_flags prop_flag_persistence_clean (pr_flags p)\<rparr>"
  from run req valid obtain mp' v where
    new: "new_value h (put_modifiable name (mp\<lparr>mp_property := Some p\<rparr>) e) (Some (createModifier DefaultModifier x)) mp p
      = Inr (mp', v)"
    and ap: "applyProperty (\<lambda>name. Inr) name mp' (if fresh then prop_install (prop_set v ?p) else prop_set v ?p) e = Inr e'"
    by (auto simp: setAttr_def bind_ok_Inr Let_def)
  have mp': "mp' = mp\<lparr>mp_base := if mp_modifiers mp = [] then mp_base mp else x\<rparr>"
    and v: "if mp_modifiers mp = [] then v = x else apply_modifiers h x (mp_modifiers mp) x = Inr v"
    using new by (auto simp: new_value_def createModifier_def bind_ok_Inr split: if_splits)
  show ?thesis
    by (rule that [OF v, of ?p "mark_unsent (if fresh then prop_install (prop_set v ?p) else prop_set v ?p)"])
      (use ap ok mp' in \<open>auto simp: applyProperty_def only_changes_def put_modifiable_def smap_find_put\<close>)
qed

lemma required_local:
  "smap_find name (le_props e) = Some mp \<Longrightarrow> mp_property mp = Some p \<Longrightarrow>
    required_property create name e = (mp, p, False)"
  by (simp add: required_property_def Let_def)

lemma required_default:
  "smap_find name (le_props e) = Some mp \<Longrightarrow> mp_property mp = None \<Longrightarrow> type_default name e = Some p \<Longrightarrow>
    required_property create name e = (mp, p, False)"
  by (simp add: required_property_def Let_def)

lemma prop_class_set [simp]: "pr_class (prop_set v p) = pr_class p" "pr_class (mark_unsent p) = pr_class p"
  "pr_class (prop_install p) = pr_class p"
  by (auto simp: prop_set_def mark_unsent_def prop_install_def split: prop_class.splits elem.splits)

lemma only_changes_trans:
  "only_changes name mp (put_modifiable name mp0 e) e' \<Longrightarrow> smap_ok (le_props e) \<Longrightarrow>
    only_changes name mp e e'"
  by (auto simp: only_changes_def put_modifiable_def smap_find_put)

lemma only_changes_enqueue [simp]: "only_changes name mp e (enqueueUpdateOp e') = only_changes name mp e e'"
  by (simp add: only_changes_def enqueueUpdateOp_def)

lemma set_put_quiet:
  assumes ok: "smap_ok (le_props e)" and valid: "isValidName name"
    and run: "setAttr create h (\<lambda>name. Inr) name (Some (createModifier DefaultModifier x)) (put_modifiable name mp e) = Inr e'"
    and p: "mp_property mp = Some p \<or> mp_property mp = None \<and> type_default name e = Some p"
  obtains v p' q where "if mp_modifiers mp = [] then v = x else apply_modifiers h x (mp_modifiers mp) x = Inr v"
    and "pr_class p' = pr_class p"
    and "q = mark_unsent (prop_set v p') \<or> q = mark_unsent (prop_install (prop_set v p'))"
    and "only_changes name (mp\<lparr>mp_base := if mp_modifiers mp = [] then mp_base mp else x, mp_property := Some q\<rparr>) e e'"
proof -
  have req: "required_property create name (put_modifiable name mp e) = (mp, p, False)"
    using p
  proof
    assume "mp_property mp = Some p"
    then show ?thesis using ok by (intro required_local) simp_all
  next
    assume "mp_property mp = None \<and> type_default name e = Some p"
    then show ?thesis using ok
      by (intro required_default) (simp_all add: type_default_def put_modifiable_def smap_find_put)
  qed
  have "smap_ok (le_props (put_modifiable name mp e))" using ok by (simp add: put_modifiable_def)
  from setAttr_quiet [OF this valid run req] show ?thesis
    by (metis only_changes_trans [OF _ ok] that)
qed

lemma addModifier_quiet:
  assumes ok: "smap_ok (le_props e)" and run: "addModifier create h (\<lambda>name. Inr) name q i e = Inr e'"
    and p: "getProperty name e = Some p" and v: "prop_get h e p = Inr v" and typed: "well_typed p"
  shows "(le_props e' = le_props e \<and> le_defaults e' = le_defaults e) \<or>
    (isValidName name \<and> (\<exists>mp p'. only_changes name mp (activate i name q e) e' \<and> mp_property mp = Some p' \<and>
      pr_class p' = pr_class p \<and> mp_modifiers mp = modifiers_of name e @ [(q, i)] \<and>
      mp_base mp = (if modifiers_of name e = [] then v else base_of name e)))"
proof (cases "has_flags (le_flags e) entity_modifiers_not_allowed \<or> \<not> isValidName name")
  case True
  with run show ?thesis by (auto simp: addModifier_def)
next
  case False
  let ?e = "activate i name q e"
  have same: "le_props ?e = le_props e" "le_defaults ?e = le_defaults e" "type_default name ?e = type_default name e"
    by (simp_all add: activate_def type_default_def)
  have get: "prop_get h ?e p = Inr v" using v typed by (auto simp: prop_get_def well_typed_def split: prop_class.splits)
  have changed: ?thesis
    if set: "setAttr create h (\<lambda>name. Inr) name (Some (createModifier DefaultModifier b)) (put_modifiable name mp ?e) = Inr e1"
      and e': "e' = enqueueUpdateOp e1"
      and own: "mp_property mp = Some p \<or> mp_property mp = None \<and> type_default name e = Some p"
      and mods: "mp_modifiers mp = modifiers_of name e @ [(q, i)]"
      and base: "mp_base mp = b" "b = (if modifiers_of name e = [] then v else base_of name e)"
    for b mp e1
  proof -
    from set_put_quiet [OF _ _ set, of p] False own ok same
    obtain u p1 r where "pr_class p1 = pr_class p"
      "r = mark_unsent (prop_set u p1) \<or> r = mark_unsent (prop_install (prop_set u p1))"
      "only_changes name (mp\<lparr>mp_base := if mp_modifiers mp = [] then mp_base mp else b, mp_property := Some r\<rparr>) ?e e1"
      by metis
    with False mods base show ?thesis unfolding e' by auto
  qed
  show ?thesis
  proof (cases "smap_find name (le_props e)")
    case None
    with p have d: "type_default name e = Some p" by (simp add: getProperty_def)
    show ?thesis
    proof (cases "has_flags (pr_flags p) entity_modifiers_not_allowed")
      case True
      with run False None d same show ?thesis by (auto simp: addModifier_def)
    next
      case allowed: False
      with run False None d same get obtain e1 where
        "setAttr create h (\<lambda>name. Inr) name (Some (createModifier DefaultModifier v))
          (put_modifiable name \<lparr>mp_property = None, mp_base = v, mp_modifiers = [(q, i)]\<rparr> ?e) = Inr e1"
        "e' = enqueueUpdateOp e1"
        by (auto simp: addModifier_def bind_ok_Inr)
      then show ?thesis by (rule changed) (simp_all add: d None modifiers_of_def)
    qed
  next
    case (Some mp)
    with p have mp: "mp_property mp = Some p" by (simp add: getProperty_def)
    show ?thesis
    proof (cases "has_flags (pr_flags p) prop_flag_modifiers_not_allowed")
      case True
      with run False Some mp same show ?thesis by (auto simp: addModifier_def)
    next
      case allowed: False
      define b where "b = (if mp_modifiers mp = [] then v else mp_base mp)"
      have "(if mp_modifiers mp = [] then prop_get h ?e p else Inr (mp_base mp)) = Inr b"
        by (simp add: b_def get)
      with run False Some mp same allowed obtain e1 where
        "setAttr create h (\<lambda>name. Inr) name (Some (createModifier DefaultModifier b))
          (put_modifiable name (mp\<lparr>mp_base := b, mp_modifiers := mp_modifiers mp @ [(q, i)]\<rparr>) ?e) = Inr e1"
        "e' = enqueueUpdateOp e1"
        by (auto simp: addModifier_def bind_ok_Inr Let_def)
      then show ?thesis
        by (rule changed) (simp_all add: mp Some modifiers_of_def base_of_def b_def)
    qed
  qed
qed

lemma drop_modifier_last:
  "q \<notin> fst ` set l \<Longrightarrow> drop_modifier q (l @ [(q, i)]) = Some l"
  by (induction l) auto

lemma drop_modifier_none: "q \<notin> fst ` set l \<Longrightarrow> drop_modifier q l = None"
  by (induction l) auto

text \<open>C33: modifier_undone: as long as nobody listens to the changes of the entity, adding a modifier that a property does not
  have yet and removing it again restores the value and the modifiers of that property, whatever the modifier is -
  if the property has no modifiers before, or stores values of any type (\<open>SoftProperty\<close>); every other property stays as it
  is. (With listeners, modify properties that observe the property may change others.)\<close>

theorem modifier_undone:
  assumes "settled h e" and "getProperty name e = Some p" and "well_typed p"
    and "prop_get h e p = Inr v" and "q \<notin> fst ` set (modifiers_of name e)"
    and "modifiers_of name e = [] \<or> pr_class p = SoftProperty"
    and "addModifier create h (\<lambda>name. Inr) name q i e = Inr e1"
    and "removeModifier create h (\<lambda>name. Inr) name q e1 = Inr e2"
  shows "getAttr h name e2 = Inr (Some v) \<and> modifiers_of name e2 = modifiers_of name e \<and>
    (\<forall>n. n \<noteq> name \<longrightarrow> getProperty n e2 = getProperty n e)"
proof -
  have keys: "smap_ok (le_props e)" using assms(1) by (rule settled_but_all)
  have get: "prop_get h x p = Inr v" for x
    using assms(3,4) by (auto simp: prop_get_def well_typed_def split: prop_class.splits)
  from addModifier_quiet [OF keys assms(7,2,4,3)] show ?thesis
  proof
    assume same: "le_props e1 = le_props e \<and> le_defaults e1 = le_defaults e"
    then have "le_props e2 = le_props e \<and> le_defaults e2 = le_defaults e"
      using assms(5,8) by (cases "smap_find name (le_props e)")
        (auto simp: removeModifier_def modifiers_of_def drop_modifier_none Let_def)
    with assms(2) get show ?thesis
      by (auto simp: getAttr_def getProperty_def type_default_def modifiers_of_def split: option.splits)
  next
    assume "isValidName name \<and> (\<exists>mp p'. only_changes name mp (activate i name q e) e1 \<and> mp_property mp = Some p' \<and>
      pr_class p' = pr_class p \<and> mp_modifiers mp = modifiers_of name e @ [(q, i)] \<and>
      mp_base mp = (if modifiers_of name e = [] then v else base_of name e))"
    then obtain mp p1 where valid: "isValidName name" and ch: "only_changes name mp (activate i name q e) e1"
      and mp: "mp_property mp = Some p1" "pr_class p1 = pr_class p" "mp_modifiers mp = modifiers_of name e @ [(q, i)]"
        "mp_base mp = (if modifiers_of name e = [] then v else base_of name e)" by blast
    let ?e = "e1\<lparr>le_active := deactivate (name, q) (le_active e1)\<rparr>"
    let ?b = "mp_base mp"
    from ch have find: "smap_find name (le_props e1) = Some mp" and ok1: "smap_ok (le_props ?e)"
      by (simp_all add: only_changes_def)
    from assms(8) find mp(3) drop_modifier_last [OF assms(5)] valid obtain e3 where
      set: "setAttr create h (\<lambda>name. Inr) name (Some (createModifier DefaultModifier ?b))
        (put_modifiable name (mp\<lparr>mp_modifiers := modifiers_of name e\<rparr>) ?e) = Inr e3" and e2: "e2 = enqueueUpdateOp e3"
      by (auto simp: removeModifier_def setAttrValue_def valid_name_no_bang bind_ok_Inr)
    obtain u p' r where u: "if modifiers_of name e = [] then u = ?b else apply_modifiers h ?b (modifiers_of name e) ?b = Inr u"
      and p': "pr_class p' = pr_class p1"
      and r: "r = mark_unsent (prop_set u p') \<or> r = mark_unsent (prop_install (prop_set u p'))"
      and ch2: "only_changes name (mp\<lparr>mp_modifiers := modifiers_of name e,
        mp_base := if modifiers_of name e = [] then ?b else ?b, mp_property := Some r\<rparr>) ?e e3"
      by (rule set_put_quiet [OF ok1 valid set, of p1]; cases "modifiers_of name e = []"; simp add: mp(1))
    have "u = v"
    proof (cases "modifiers_of name e = []")
      case False
      then obtain mp0 where mp0: "smap_find name (le_props e) = Some mp0" "mp_modifiers mp0 \<noteq> []"
        by (auto simp: modifiers_of_def split: option.splits)
      with assms(1) have "settled_entry h name mp0" by (simp add: settled_but_def)
      with mp0 assms(2) obtain w where
        "apply_modifiers h (mp_base mp0) (mp_modifiers mp0) (mp_base mp0) = Inr w" "holds_value w p"
        by (auto simp: settled_entry_def getProperty_def)
      with False mp0 u mp(4) have "holds_value u p" by (simp add: modifiers_of_def base_of_def)
      with False assms(4,6) show ?thesis
        by (cases p) (auto simp: holds_value_def prop_set_def prop_get_def)
    qed (use u mp(4) in simp)
    with r p' mp(2) have "prop_get h e2 r = Inr v"
      using get_set [OF assms(3,4), of p'] by auto
    moreover have "le_props e2 = le_props e3" "type_default n e2 = type_default n e" for n
      using ch ch2 by (simp_all add: e2 only_changes_def enqueueUpdateOp_def activate_def type_default_def)
    moreover have "smap_find n (le_props e3) = (if n = name
        then Some (mp\<lparr>mp_modifiers := modifiers_of name e, mp_property := Some r\<rparr>)
        else smap_find n (le_props e))" for n
      using ch ch2 by (simp add: only_changes_def activate_def)
    ultimately show ?thesis
      by (simp add: getAttr_def getProperty_def modifiers_of_def split: option.split)
  qed
qed

section \<open>Sequences of changes\<close>

text \<open>What can happen to an entity while its modifiers stay in memory. Values are set without a modification.\<close>

datatype 'f entity_op =
    SetValue string elem
  | AddModifier string modifier_ptr i64
  | RemoveModifier string modifier_ptr
  | Check "'f modify"
  | Reapply "'f modify"
  | Leave "'f modify"

definition run_op ::
  "nat \<Rightarrow> ('f \<Rightarrow> located \<Rightarrow> bool) \<Rightarrow> (string \<Rightarrow> property) \<Rightarrow> heap \<Rightarrow> 'f modify list \<Rightarrow> located \<Rightarrow> 'f entity_op \<Rightarrow>
   located checked" where
  "run_op n matches create h mos e op = (let listen = notify n matches create h mos in case op of
     SetValue name v \<Rightarrow> setAttr create h listen name (Some (createModifier DefaultModifier v)) e
   | AddModifier name q i \<Rightarrow> addModifier create h listen name q i e
   | RemoveModifier name q \<Rightarrow> removeModifier create h listen name q e
   | Check mo \<Rightarrow> checkIfActive matches create h listen mo e
   | Reapply mo \<Rightarrow> apply_modify matches create h listen mo e
   | Leave mo \<Rightarrow> leave_parent create h listen mo e)"

lemma run_op_settled:
  "settled h e \<Longrightarrow> run_op n matches create h mos e op = Inr e' \<Longrightarrow> settled h e'"
  by (cases op) (auto simp: run_op_def Let_def intro: notified.setAttr_default_settled
      notified.addModifier_settled notified.removeModifier_settled notified.checkIfActive_settled
      notified.apply_modify_settled notified.leave_parent_settled)

text \<open>A sample: an entity with the properties \<open>a\<close> and \<open>b\<close>, and two modifiers that add to integers.\<close>

definition soft_value :: "elem \<Rightarrow> modifiable" where
  "soft_value v = \<lparr>mp_property = Some \<lparr>pr_class = SoftProperty, pr_data = v, pr_flags = 0, pr_installed = False\<rparr>,
     mp_base = ENone, mp_modifiers = []\<rparr>"

definition sample_entity :: located where
  "sample_entity = \<lparr>le_id = 1, le_flags = 0,
     le_props = [(''a'', soft_value (EInt 1)), (''b'', soft_value (EInt 2))],
     le_active = [], le_defaults = None, le_updates = 0\<rparr>"

definition sample_heap :: heap where
  "sample_heap = (\<lambda>q. if q = 1 then Some (createModifier AppendModifier (EInt 5))
     else if q = 2 then Some (createModifier AppendModifier (EInt 7)) else None)"

text \<open>A modify property whose only entry modifies the given properties and observes \<open>a\<close>.\<close>

definition sample_modify :: "unit option \<Rightarrow> (string, modifier_ptr) smap \<Rightarrow> string list \<Rightarrow> unit modify" where
  "sample_modify c ms obs = \<lparr>mo_owner = 9, mo_data = ENone,
     mo_entries = [\<lparr>me_constraint = c, me_modifiers = ms, me_observed = obs\<rparr>],
     mo_parent = True, mo_listening = True\<rparr>"

definition always :: "unit \<Rightarrow> located \<Rightarrow> bool" where
  "always f e = True"

lemma sample_entity_settled: "settled sample_heap sample_entity"
  by (auto simp: settled_but_def sample_entity_def settled_entry_def soft_value_def smap_ok_def split: if_splits)

text \<open>C32: modified_values_fold: after values were set without a modification, modifiers added and removed, and modify
  properties checked, applied again or taken away, in any order, while the modifiers stay in memory and however deep the
  modify properties that listen to the entity call each other, a property with modifiers has the value these make of its
  base value, in the order they were added, if that was so before. (A value that is set with a modification, as in
  \<open>name!append\<close>, changes the value but not the base value: \<open>appended_value_lost\<close>.)\<close>

theorem modified_values_fold:
  assumes "settled h e" and "run_steps (run_op n matches create h mos) e ops = Inr e'"
    and "smap_find name (le_props e') = Some mp" and "mp_modifiers mp \<noteq> []"
  shows "\<exists>p v. mp_property mp = Some p \<and>
    apply_modifiers h (mp_base mp) (mp_modifiers mp) (mp_base mp) = Inr v \<and> prop_set v p = p"
proof -
  have "settled h e'"
    by (rule run_steps_invariant [where P = "settled h", OF _ assms(2,1)]) (rule run_op_settled)
  with assms(3,4) show ?thesis by (auto simp: settled_but_def settled_entry_def holds_value_def)
qed

theorem modified_values_fold_witness:
  "\<exists>e' mp p v. run_steps (run_op 1 always (addProperty (\<lambda>n. None)) sample_heap [sample_modify None [(''a'', 1)] [''b'']])
      sample_entity [Check (sample_modify None [(''a'', 1)] [''b'']), SetValue ''b'' (EInt 4)] = Inr e' \<and>
    smap_find ''a'' (le_props e') = Some mp \<and> mp_property mp = Some p \<and>
    apply_modifiers sample_heap (mp_base mp) (mp_modifiers mp) (mp_base mp) = Inr v \<and> prop_set v p = p"
proof -
  let ?ops = "[Check (sample_modify None [(''a'', 1)] [''b'']), SetValue ''b'' (EInt 4)]"
  let ?run = "run_steps (run_op 1 always (addProperty (\<lambda>n. None)) sample_heap [sample_modify None [(''a'', 1)] [''b'']])
      sample_entity ?ops"
  have "case ?run of Inl f \<Rightarrow> False | Inr e' \<Rightarrow> (case smap_find ''a'' (le_props e') of None \<Rightarrow> False
      | Some mp \<Rightarrow> mp_modifiers mp \<noteq> [])" by code_simp
  then obtain e' mp where "?run = Inr e'" "smap_find ''a'' (le_props e') = Some mp" "mp_modifiers mp \<noteq> []"
    by (auto split: sum.splits option.splits)
  with modified_values_fold [OF sample_entity_settled this] show ?thesis by blast
qed

theorem modifier_undone_witness:
  "\<exists>e1 e2. addModifier (addProperty (\<lambda>n. None)) sample_heap (\<lambda>name. Inr) ''a'' 1 9 sample_entity = Inr e1 \<and>
    removeModifier (addProperty (\<lambda>n. None)) sample_heap (\<lambda>name. Inr) ''a'' 1 e1 = Inr e2 \<and>
    getAttr sample_heap ''a'' e2 = Inr (Some (EInt 1))"
proof -
  let ?add = "addModifier (addProperty (\<lambda>n. None)) sample_heap (\<lambda>name. Inr) ''a'' 1 9 sample_entity"
  let ?remove = "removeModifier (addProperty (\<lambda>n. None)) sample_heap (\<lambda>name. Inr) ''a'' 1"
  let ?p = "\<lparr>pr_class = SoftProperty, pr_data = EInt 1, pr_flags = 0, pr_installed = False\<rparr>"
  have "case ?add of Inl f \<Rightarrow> False | Inr e1 \<Rightarrow> (case ?remove e1 of Inl f \<Rightarrow> False | Inr e2 \<Rightarrow> True)" by code_simp
  then obtain e1 e2 where run: "?add = Inr e1" "?remove e1 = Inr e2" by (auto split: sum.splits)
  have "getProperty ''a'' sample_entity = Some ?p" "well_typed ?p" "prop_get sample_heap sample_entity ?p = Inr (EInt 1)"
    "1 \<notin> fst ` set (modifiers_of ''a'' sample_entity)" "modifiers_of ''a'' sample_entity = []"
    by (simp_all add: sample_entity_def soft_value_def getProperty_def well_typed_def prop_get_def modifiers_of_def)
  with modifier_undone [OF sample_entity_settled _ _ _ _ _ run] run show ?thesis by blast
qed

section \<open>Checks\<close>

lemma set_foldl_insert: "set (foldl (\<lambda>s' x. set_insert x s') s l) = set s \<union> set l"
  by (induction l arbitrary: s) auto

lemma set_activated:
  "set (activated matches mo e) =
    {x. \<exists>en \<in> set (mo_entries mo). entry_active matches e en \<and> x \<in> set (me_modifiers en)}"
proof -
  have "set (foldl (\<lambda>s en. if entry_active matches e en then foldl (\<lambda>s' x. set_insert x s') s (me_modifiers en) else s) s l) =
      set s \<union> {x. \<exists>en \<in> set l. entry_active matches e en \<and> x \<in> set (me_modifiers en)}" for s l
    by (induction l arbitrary: s) (auto simp: set_foldl_insert)
  then show ?thesis by (simp add: activated_def)
qed

lemma notify_unobserved:
  assumes "\<forall>mo \<in> set mos. \<forall>en \<in> set (mo_entries mo). me_observed en = []"
  shows "notify n matches create h mos name e = Inr e"
proof -
  have "\<forall>mo \<in> set mos. \<not> observes mo name" using assms by (auto simp: observes_def list_ex_iff)
  then show ?thesis
  proof (cases n)
    case (Suc m)
    have "run_steps (\<lambda>a mo. if observes mo name then checkIfActive matches create h (notify m matches create h mos) mo a
        else Inr a) e l = Inr e" if "\<forall>mo \<in> set l. \<not> observes mo name" for l
      using that by (induction l) auto
    with \<open>\<forall>mo \<in> set mos. \<not> observes mo name\<close> show ?thesis by (simp add: Suc)
  qed (auto simp: list_ex_iff)
qed

text \<open>C34: check_activates: a check makes exactly those modifiers of the owner active whose entry has no constraint or one
  that holds, and the modifiers of other owners stay as they are - for an entity that allows modifiers, modifiers of
  properties with valid names, owners whose active modifiers have nothing in common, and as long as no modify property
  observes a property (if one does, \<open>observed_modifier_stays\<close> shows that the code does not keep this).\<close>

theorem check_activates:
  assumes "checkIfActive matches create h (notify n matches create h mos) mo e = Inr e'" and "mo_parent mo"
    and "\<forall>mo' \<in> set mos. \<forall>en \<in> set (mo_entries mo'). me_observed en = []"
    and "\<not> has_flags (le_flags e) entity_modifiers_not_allowed" and "smap_ok (le_active e)"
    and "distinct (active_of (mo_owner mo) e)"
    and "\<forall>j. j \<noteq> mo_owner mo \<longrightarrow> set (active_of j e) \<inter> set (active_of (mo_owner mo) e) = {}"
    and "\<forall>en \<in> set (mo_entries mo). \<forall>x \<in> set (me_modifiers en). isValidName (fst x)"
  shows "set (active_of (mo_owner mo) e') =
      {x. \<exists>en \<in> set (mo_entries mo). entry_active matches e en \<and> x \<in> set (me_modifiers en)} \<and>
    (\<forall>j. j \<noteq> mo_owner mo \<longrightarrow> active_of j e' = active_of j e)"
proof -
  have silent: "silent (notify n matches create h mos)"
    by unfold_locales (simp add: notify_unobserved [OF assms(3)])
  have "owner_active (mo_owner mo) e (set (activated matches mo e)) e'"
    by (rule silent.check_owner_active [OF silent assms(1,2), of "set (active_of (mo_owner mo) e)"])
      (use assms(4-8) in \<open>auto 4 4 simp: owner_active_def set_activated\<close>)
  then show ?thesis by (simp add: owner_active_def set_activated)
qed

theorem check_activates_witness:
  "\<exists>e'. checkIfActive always (addProperty (\<lambda>n. None)) sample_heap
      (notify 0 always (addProperty (\<lambda>n. None)) sample_heap []) (sample_modify None [(''a'', 1), (''b'', 2)] [])
      sample_entity = Inr e' \<and> set (active_of 9 e') = {(''a'', 1), (''b'', 2)}"
proof -
  let ?mo = "sample_modify None [(''a'', 1), (''b'', 2)] []"
  let ?check = "checkIfActive always (addProperty (\<lambda>n. None)) sample_heap
      (notify 0 always (addProperty (\<lambda>n. None)) sample_heap []) ?mo sample_entity"
  have "case ?check of Inl f \<Rightarrow> False | Inr e' \<Rightarrow> True" by code_simp
  then obtain e' where run: "?check = Inr e'" by (auto split: sum.splits)
  have "mo_parent ?mo" "\<not> has_flags (le_flags sample_entity) entity_modifiers_not_allowed"
    "smap_ok (le_active sample_entity)" "distinct (active_of (mo_owner ?mo) sample_entity)"
    "\<forall>j. j \<noteq> mo_owner ?mo \<longrightarrow> set (active_of j sample_entity) \<inter> set (active_of (mo_owner ?mo) sample_entity) = {}"
    by (simp_all add: sample_modify_def sample_entity_def has_flags_def active_of_def)
  moreover have "\<forall>en \<in> set (mo_entries ?mo). \<forall>x \<in> set (me_modifiers en). isValidName (fst x)"
    by code_simp
  ultimately have "set (active_of 9 e') =
      {x. \<exists>en \<in> set (mo_entries ?mo). entry_active always sample_entity en \<and> x \<in> set (me_modifiers en)}"
    using check_activates [OF run] by (simp add: sample_modify_def)
  with run show ?thesis by (auto simp: sample_modify_def entry_active_def)
qed

section \<open>Modifying what is observed\<close>

text \<open>Observed_modifier_stays: a modify property that modifies two properties and observes the first of them
  adds the second modifier twice, since it is called within itself; and when its owner leaves, the modifier it
  takes away is added again while the signal is still connected: the parent stays modified for good.\<close>

theorem observed_modifier_stays:
  "let create = addProperty (\<lambda>n. None); mo = sample_modify None [(''a'', 1), (''b'', 2)] [''a''];
       listen = notify 2 always create sample_heap [mo]
   in \<exists>e1 e2. checkIfActive always create sample_heap listen mo sample_entity = Inr e1 \<and>
     modifiers_of ''b'' e1 = [(2, 9), (2, 9)] \<and> getAttr sample_heap ''b'' e1 = Inr (Some (EInt 16)) \<and>
     newLocation create sample_heap listen False mo e1 = Inr (mo\<lparr>mo_parent := False, mo_listening := False\<rparr>, e2) \<and>
     modifiers_of ''a'' e2 = [(1, 9)] \<and> getAttr sample_heap ''a'' e2 = Inr (Some (EInt 6)) \<and>
     modifiers_of ''b'' e2 = [(2, 9)] \<and> getAttr sample_heap ''b'' e2 = Inr (Some (EInt 9))"
proof -
  let ?create = "addProperty (\<lambda>n. None)" and ?mo = "sample_modify None [(''a'', 1), (''b'', 2)] [''a'']"
  let ?listen = "notify 2 always ?create sample_heap [?mo]"
  have "case checkIfActive always ?create sample_heap ?listen ?mo sample_entity of Inl f \<Rightarrow> False
    | Inr e1 \<Rightarrow> modifiers_of ''b'' e1 = [(2, 9), (2, 9)] \<and> getAttr sample_heap ''b'' e1 = Inr (Some (EInt 16)) \<and>
      (case newLocation ?create sample_heap ?listen False ?mo e1 of Inl f \<Rightarrow> False
       | Inr (mo', e2) \<Rightarrow> mo' = ?mo\<lparr>mo_parent := False, mo_listening := False\<rparr> \<and>
         modifiers_of ''a'' e2 = [(1, 9)] \<and> getAttr sample_heap ''a'' e2 = Inr (Some (EInt 6)) \<and>
         modifiers_of ''b'' e2 = [(2, 9)] \<and> getAttr sample_heap ''b'' e2 = Inr (Some (EInt 9)))"
    by code_simp
  then show ?thesis by (auto simp: Let_def split: sum.splits prod.splits)
qed

text \<open>A constraint on the value of \<open>a\<close>, and the states of the sample while its modifier comes and goes.\<close>

definition below_four :: "unit \<Rightarrow> located \<Rightarrow> bool" where
  "below_four f e = (case getAttr sample_heap ''a'' e of Inr (Some (EInt i)) \<Rightarrow> sint i < 4 | _ \<Rightarrow> False)"

definition sample_touched :: "i64 \<Rightarrow> (modifier_ptr \<times> i64) list \<Rightarrow> (string \<times> modifier_ptr) list \<Rightarrow> located" where
  "sample_touched v ms act = \<lparr>le_id = 1, le_flags = 0,
     le_props = [(''a'', \<lparr>mp_property = Some \<lparr>pr_class = SoftProperty, pr_data = EInt v,
         pr_flags = prop_flag_unsent, pr_installed = False\<rparr>, mp_base = EInt 1, mp_modifiers = ms\<rparr>),
       (''b'', soft_value (EInt 2))],
     le_active = [(9, act)], le_defaults = None, le_updates = 0\<rparr>"

abbreviation "self_modify \<equiv> sample_modify (Some ()) [(''a'', 1)] [''a'']"
abbreviation "check_self listen \<equiv> checkIfActive below_four (addProperty (\<lambda>n. None)) sample_heap listen self_modify"

lemma check_self_steps:
  "listen ''a'' (sample_touched 6 [(1, 9)] [(''a'', 1)]) = Inl f \<Longrightarrow> check_self listen sample_entity = Inl f"
  "listen ''a'' (sample_touched 1 [] []) = Inl f \<Longrightarrow>
    check_self listen (sample_touched 6 [(1, 9)] [(''a'', 1)]) = Inl f"
  "listen ''a'' (sample_touched 6 [(1, 9)] [(''a'', 1)]) = Inl f \<Longrightarrow>
    check_self listen (sample_touched 1 [] []) = Inl f"
  by (code_simp, simp)+

text \<open>Self_modifier_endless: a modifier whose constraint it makes false, and which observes the property
  it modifies, is added and removed in calls that never return: no depth of the stack is enough.\<close>

theorem self_modifier_endless:
  "check_self (notify n below_four (addProperty (\<lambda>n. None)) sample_heap [self_modify]) sample_entity = Inl EndlessUpdates"
proof -
  let ?listen = "\<lambda>n. notify n below_four (addProperty (\<lambda>n. None)) sample_heap [self_modify]"
  have step: "?listen (Suc n) ''a'' e = check_self (?listen n) e" for n e
    by (simp add: observes_def sample_modify_def split: sum.split)
  have "?listen n ''a'' (sample_touched 6 [(1, 9)] [(''a'', 1)]) = Inl EndlessUpdates \<and>
      ?listen n ''a'' (sample_touched 1 [] []) = Inl EndlessUpdates"
  proof (induction n)
    case 0
    show ?case by (simp add: observes_def sample_modify_def)
  next
    case (Suc n)
    then show ?case unfolding step by (blast intro: check_self_steps)
  qed
  then show ?thesis by (blast intro: check_self_steps(1))
qed

section \<open>Changing a modify property\<close>

lemma find_put_same: "smap_find k (smap_put k v m) = Some v"
  by (induction k v m rule: smap_put.induct) auto

lemma parse_modifier_keeps:
  "parse_modifier s x = s' \<Longrightarrow> q < mem_next (snd s) \<Longrightarrow>
    q < mem_next (snd s') \<and> mem_cells (snd s') q = mem_cells (snd s) q"
  by (auto simp: parse_modifier_def allocate_def split: prod.splits elem.splits option.splits)

lemma parse_modifiers_keep:
  "foldl parse_modifier s l = s' \<Longrightarrow> q < mem_next (snd s) \<Longrightarrow>
    q < mem_next (snd s') \<and> mem_cells (snd s') q = mem_cells (snd s) q"
  by (induction l arbitrary: s) (auto simp: parse_modifier_keeps)

lemma parseEntry_keeps:
  "parseEntry parse_filter m mem = Some (en, mem') \<Longrightarrow> q < mem_next mem \<Longrightarrow>
    q < mem_next mem' \<and> mem_cells mem' q = mem_cells mem q"
  by (auto simp: parseEntry_def Let_def split: option.splits elem.splits prod.splits dest!: parse_modifiers_keep)

lemma parse_modify_entries_keep:
  "parse_modify_entries parse_filter l mo mem = (ok, mo', mem') \<Longrightarrow> q < mem_next mem \<Longrightarrow>
    mem_cells mem' q = mem_cells mem q"
proof (induction l arbitrary: mo mem)
  case (Cons v l)
  then show ?case by (auto split: elem.splits option.splits if_splits dest: parseEntry_keeps)
qed simp

lemma setData_frees:
  assumes "setData parse_filter v mo mem = (ok, mo', mem')" and "q \<in> set (owned_modifiers mo)"
    and "q < mem_next mem"
  shows "mem_cells mem' q = None"
  using assms by (auto simp: setData_def Let_def split: elem.splits dest: parse_modify_entries_keep)

text \<open>Replaced_modifiers_freed: when the data of a modify property is set while two of its modifiers are
  active on the same property, the first is taken away while the second has been freed, and the value of the
  property is computed with it.\<close>

theorem replaced_modifiers_freed:
  assumes "setData parse_filter v mo0 mem = (True, mo, mem')" and "mo_parent mo"
    and "smap_find (mo_owner mo) (le_active e) = Some ((name, q) # l)" and "isValidName name"
    and "smap_find name (le_props e) = Some mp" and "mp_property mp = Some p"
    and "drop_modifier q (mp_modifiers mp) = Some ((q', i) # ms)"
    and "q' \<in> set (owned_modifiers mo0)" and "q' < mem_next mem"
  shows "apply_modify matches create (mem_cells mem') listen mo e = Inl FreedModifier"
proof -
  have freed: "mem_cells mem' q' = None" using setData_frees [OF assms(1,8,9)] .
  let ?mp = "mp\<lparr>mp_modifiers := (q', i) # ms\<rparr>"
  let ?e = "put_modifiable name ?mp (e\<lparr>le_active := deactivate (name, q) (le_active e)\<rparr>)"
  have "smap_find name (le_props ?e) = Some ?mp" by (simp add: put_modifiable_def find_put_same)
  then have req: "required_property create name ?e = (?mp, p, False)"
    by (rule required_local) (simp add: assms(6))
  have "new_value (mem_cells mem') e' (Some (createModifier DefaultModifier b)) ?mp p = Inl FreedModifier" for e' b
    by (simp add: new_value_def createModifier_def apply_modifiers_def freed)
  then have "setAttrValue create (mem_cells mem') listen name (mp_base mp) ?e = Inl FreedModifier"
    using assms(4) by (simp add: setAttrValue_def valid_name_no_bang setAttr_def req)
  then have "removeModifier create (mem_cells mem') listen name q e = Inl FreedModifier"
    using assms(5,7) by (simp add: removeModifier_def)
  with assms(2,3) show ?thesis by (simp add: apply_modify_def remove_all_modifiers_def)
qed

definition two_entries :: "unit modify" where
  "two_entries = \<lparr>mo_owner = 9, mo_data = ENone,
     mo_entries = [\<lparr>me_constraint = None, me_modifiers = [(''a'', 1)], me_observed = []\<rparr>,
       \<lparr>me_constraint = None, me_modifiers = [(''a'', 2)], me_observed = []\<rparr>],
     mo_parent = True, mo_listening = True\<rparr>"

theorem replaced_modifiers_freed_witness:
  "\<exists>e mo mem'. checkIfActive always (addProperty (\<lambda>n. None)) sample_heap (\<lambda>name. Inr) two_entries sample_entity = Inr e \<and>
    setData (\<lambda>t. None) (EList []) two_entries \<lparr>mem_cells = sample_heap, mem_next = 3\<rparr> = (True, mo, mem') \<and>
    apply_modify always (addProperty (\<lambda>n. None)) (mem_cells mem') (\<lambda>name. Inr) mo e = Inl FreedModifier"
proof -
  let ?check = "checkIfActive always (addProperty (\<lambda>n. None)) sample_heap (\<lambda>name. Inr) two_entries sample_entity"
  let ?mp = "\<lparr>mp_property = Some \<lparr>pr_class = SoftProperty, pr_data = EInt 13, pr_flags = 128, pr_installed = False\<rparr>,
    mp_base = EInt 1, mp_modifiers = [(1, 9), (2, 9)]\<rparr>"
  have "case ?check of Inl f \<Rightarrow> False | Inr e \<Rightarrow> smap_find 9 (le_active e) = Some [(''a'', 1), (''a'', 2)] \<and>
      smap_find ''a'' (le_props e) = Some ?mp" by code_simp
  then obtain e where run: "?check = Inr e" and act: "smap_find 9 (le_active e) = Some [(''a'', 1), (''a'', 2)]"
    and mp: "smap_find ''a'' (le_props e) = Some ?mp" by (auto split: sum.splits)
  obtain mo mem' where set:
    "setData (\<lambda>t. None) (EList []) two_entries \<lparr>mem_cells = sample_heap, mem_next = 3\<rparr> = (True, mo, mem')"
    and "mo_parent mo" "mo_owner mo = 9"
    by (simp add: setData_def Let_def two_entries_def)
  moreover have "isValidName ''a''" by code_simp
  moreover have "drop_modifier 1 (mp_modifiers ?mp) = Some [(2, 9)]" by simp
  moreover have "2 \<in> set (owned_modifiers two_entries)" by (simp add: owned_modifiers_def two_entries_def)
  ultimately have "apply_modify always (addProperty (\<lambda>n. None)) (mem_cells mem') (\<lambda>name. Inr) mo e = Inl FreedModifier"
    using replaced_modifiers_freed [OF set, of e "''a''" 1 "[(''a'', 2)]" ?mp] act mp by simp
  with run set show ?thesis by blast
qed

section \<open>Values that get lost\<close>

text \<open>While a property has modifiers, a value that is set with a modification is forgotten
  as soon as one of the modifiers is removed or another is added, since it never becomes the base value; and an
  attribute that asks for the modification \<open>default\<close> is not set at all.\<close>

theorem appended_value_lost:
  assumes "smap_ok (le_props e)" and "isValidName name" and "smap_find name (le_props e) = Some mp"
    and "mp_property mp = Some p" and "pr_class p = SoftProperty" and "mp_modifiers mp = [(q, i)]"
    and "md_type m \<noteq> DefaultModifier"
    and "setAttr create h (\<lambda>name. Inr) name (Some m) e = Inr e1"
    and "removeModifier create h (\<lambda>name. Inr) name q e1 = Inr e2"
  shows "getAttr h name e2 = Inr (Some (mp_base mp)) \<and>
    merge create h listen [(x @ ''!default'', v)] e = Inr e"
proof
  from assms(3,4) have "required_property create name e = (mp, p, False)" by (rule required_local)
  with assms(2,6-8) obtain b where
    e1': "e1 = (put_modifiable name (mp\<lparr>mp_property := Some (mark_unsent (prop_set b
      (p\<lparr>pr_flags := remove_flags prop_flag_persistence_clean (pr_flags p)\<rparr>)))\<rparr>) e)\<lparr>le_flags :=
      remove_flags entity_clean (le_flags e)\<rparr>"
    by (auto simp: setAttr_def new_value_def bind_ok_Inr applyProperty_def Let_def put_modifiable_def)
  define r where "r = mark_unsent (prop_set b (p\<lparr>pr_flags := remove_flags prop_flag_persistence_clean (pr_flags p)\<rparr>))"
  have r: "pr_class r = SoftProperty"
    and e1: "smap_find name (le_props e1) = Some (mp\<lparr>mp_property := Some r\<rparr>)" and ok: "smap_ok (le_props e1)"
    using assms(1,5) e1' by (simp_all add: r_def put_modifiable_def smap_find_put)
  let ?e = "e1\<lparr>le_active := deactivate (name, q) (le_active e1)\<rparr>"
  let ?mp = "mp\<lparr>mp_property := Some r, mp_modifiers := []\<rparr>"
  have ok': "smap_ok (le_props ?e)" using ok by simp
  from assms(2,6,9) e1 obtain e3 where set: "setAttr create h (\<lambda>name. Inr) name
      (Some (createModifier DefaultModifier (mp_base mp))) (put_modifiable name ?mp ?e) = Inr e3"
    and e2: "e2 = enqueueUpdateOp e3"
    by (auto simp: removeModifier_def setAttrValue_def valid_name_no_bang bind_ok_Inr)
  obtain p' s where "pr_class p' = SoftProperty"
    and "s = mark_unsent (prop_set (mp_base mp) p') \<or> s = mark_unsent (prop_install (prop_set (mp_base mp) p'))"
    and "only_changes name (?mp\<lparr>mp_property := Some s\<rparr>) ?e e3"
    by (rule set_put_quiet [OF ok' assms(2) set, of r]) (auto simp: r)
  then show "getAttr h name e2 = Inr (Some (mp_base mp))"
    by (auto simp: e2 getAttr_def only_changes_def enqueueUpdateOp_def prop_get_def prop_set_def mark_unsent_def
        prop_install_def)
next
  have key: "\<not> isValidName (x @ ''!default'')"
    by (auto simp: isValidName_def name_alnum_def is_digit_def Let_def)
  let ?key = "x @ ''!default''"
  have "\<exists>m. dropWhile (\<lambda>c. c \<noteq> CHR ''!'') ?key = CHR ''!'' # m \<and> (m = ''default'' \<or> CHR ''!'' \<in> set m)"
    by (induction x) auto
  then obtain m where m: "dropWhile (\<lambda>c. c \<noteq> CHR ''!'') ?key = CHR ''!'' # m"
    and bang: "m = ''default'' \<or> CHR ''!'' \<in> set m" by blast
  have "m = ''default'' \<or> m \<noteq> ''append'' \<and> m \<noteq> ''prepend'' \<and> m \<noteq> ''subtract'' \<and> m \<noteq> ''add-fraction''"
    using bang by auto
  then have "\<exists>clean. parsePropertyModification ?key = (DefaultModifier, clean)"
    unfolding parsePropertyModification_def m list.case Let_def by (elim disjE conjE) simp_all
  then obtain clean where "parsePropertyModification ?key = (DefaultModifier, clean)" ..
  then show "merge create h listen [(?key, v)] e = Inr e"
    unfolding merge_def merge_now_def merge_later_def by (simp add: setAttr_def key)
qed

theorem appended_value_lost_witness:
  "\<exists>e e1 e2. addModifier (addProperty (\<lambda>n. None)) sample_heap (\<lambda>name. Inr) ''a'' 1 9 sample_entity = Inr e \<and>
    setAttr (addProperty (\<lambda>n. None)) sample_heap (\<lambda>name. Inr) ''a'' (Some (createModifier AppendModifier (EInt 100))) e = Inr e1 \<and>
    getAttr sample_heap ''a'' e1 = Inr (Some (EInt 106)) \<and>
    removeModifier (addProperty (\<lambda>n. None)) sample_heap (\<lambda>name. Inr) ''a'' 1 e1 = Inr e2 \<and>
    getAttr sample_heap ''a'' e2 = Inr (Some (EInt 1))"
proof -
  let ?create = "addProperty (\<lambda>n. None)" and ?m = "createModifier AppendModifier (EInt 100)"
  let ?p = "\<lparr>pr_class = SoftProperty, pr_data = EInt 6, pr_flags = 128, pr_installed = False\<rparr>"
  let ?mp = "\<lparr>mp_property = Some ?p, mp_base = EInt 1, mp_modifiers = [(1, 9)]\<rparr>"
  have "case addModifier ?create sample_heap (\<lambda>name. Inr) ''a'' 1 9 sample_entity of Inl f \<Rightarrow> False
    | Inr e \<Rightarrow> smap_find ''a'' (le_props e) = Some ?mp \<and> smap_ok (le_props e) \<and>
      (case setAttr ?create sample_heap (\<lambda>name. Inr) ''a'' (Some ?m) e of Inl f \<Rightarrow> False
       | Inr e1 \<Rightarrow> getAttr sample_heap ''a'' e1 = Inr (Some (EInt 106)) \<and>
         (case removeModifier ?create sample_heap (\<lambda>name. Inr) ''a'' 1 e1 of Inl f \<Rightarrow> False | Inr e2 \<Rightarrow> True))"
    by code_simp
  then obtain e e1 e2 where run: "addModifier ?create sample_heap (\<lambda>name. Inr) ''a'' 1 9 sample_entity = Inr e"
    and e: "smap_find ''a'' (le_props e) = Some ?mp" "smap_ok (le_props e)"
    and set: "setAttr ?create sample_heap (\<lambda>name. Inr) ''a'' (Some ?m) e = Inr e1"
    and get: "getAttr sample_heap ''a'' e1 = Inr (Some (EInt 106))"
    and remove: "removeModifier ?create sample_heap (\<lambda>name. Inr) ''a'' 1 e1 = Inr e2"
    by (auto split: sum.splits)
  have "isValidName ''a''" by code_simp
  moreover have "md_type ?m \<noteq> DefaultModifier" by (simp add: createModifier_def)
  ultimately have "getAttr sample_heap ''a'' e2 = Inr (Some (EInt 1))"
    using appended_value_lost [OF e(2) _ e(1) _ _ _ _ set remove, of ?p 9] by simp
  with run set get remove show ?thesis by blast
qed

end
