(* ===== verification/World_Op.thy ===== *)
theory World_Op
  imports Entity_Attr
begin

text \<open>
  Operations, as the entities of Cyphesis and its world send them
  (\<open>libs/atlas/src/Atlas/Objects/RootOperation.h\<close>), with the errors that a router replies with
  (\<open>apps/cyphesis/src/common/Router.cpp\<close>). An attribute that has its default value is \<open>None\<close>. The time of an
  operation is in milliseconds. An operation is a value: nobody changes one after having sent it.
\<close>

section \<open>Loops that may fail\<close>

text \<open>\<open>None\<close> is undefined behaviour, such as the use of a freed object.\<close>

primrec fold_opt :: "('a \<Rightarrow> 's \<Rightarrow> 's option) \<Rightarrow> 'a list \<Rightarrow> 's \<Rightarrow> 's option" where
  "fold_opt f [] s = Some s"
| "fold_opt f (x # xs) s = (case f x s of None \<Rightarrow> None | Some s' \<Rightarrow> fold_opt f xs s')"

lemma fold_opt_invariant:
  "fold_opt f xs s = Some s' \<Longrightarrow> P s \<Longrightarrow> (\<And>x t t'. x \<in> set xs \<Longrightarrow> P t \<Longrightarrow> f x t = Some t' \<Longrightarrow> P t') \<Longrightarrow> P s'"
proof (induction xs arbitrary: s)
  case (Cons x xs)
  from Cons.prems(1) obtain t where t: "f x s = Some t" "fold_opt f xs t = Some s'" by (auto split: option.splits)
  have "P t" using Cons.prems(2, 3) t(1) by (meson list.set_intros(1))
  then show ?case using Cons.IH [OF t(2)] Cons.prems(3) by (meson list.set_intros(2))
qed simp

lemma fold_opt_defined:
  "P s \<Longrightarrow> (\<And>x t. x \<in> set xs \<Longrightarrow> P t \<Longrightarrow> \<exists>t'. f x t = Some t' \<and> P t') \<Longrightarrow> \<exists>s'. fold_opt f xs s = Some s' \<and> P s'"
proof (induction xs arbitrary: s)
  case (Cons x xs)
  from Cons.prems(2) [of x s] Cons.prems(1) obtain t where t: "f x s = Some t" "P t" by auto
  from Cons.IH [OF t(2) Cons.prems(2)] t(1) show ?case by simp
qed simp

lemma fold_opt_append:
  "fold_opt f (xs @ ys) s = (case fold_opt f xs s of None \<Rightarrow> None | Some t \<Rightarrow> fold_opt f ys t)"
  by (induction xs arbitrary: s) (auto split: option.splits)

section \<open>Classes\<close>

text \<open>The classes that the code of the server asks for; any other class has its number.\<close>

datatype op_class = Delete | Imaginary | Look | Move | Set | Talk | Create | Info | Error | Update | Tick | Thought
  | Perception | Unseen | Sight | Appearance | Disappearance | Sound | Smell | Feel | OtherClass nat

definition is_perception :: "op_class \<Rightarrow> bool" where
  "is_perception c \<longleftrightarrow> c \<in> {Perception, Unseen, Sight, Appearance, Disappearance, Sound, Smell, Feel}"

definition parent_name :: "op_class \<Rightarrow> string" where
  "parent_name c = (case c of Delete \<Rightarrow> ''delete'' | Imaginary \<Rightarrow> ''imaginary'' | Look \<Rightarrow> ''look'' | Move \<Rightarrow> ''move''
     | Set \<Rightarrow> ''set'' | Talk \<Rightarrow> ''talk'' | Create \<Rightarrow> ''create'' | Info \<Rightarrow> ''info'' | Error \<Rightarrow> ''error''
     | Update \<Rightarrow> ''update'' | Tick \<Rightarrow> ''tick'' | Thought \<Rightarrow> ''thought'' | Perception \<Rightarrow> ''perception''
     | Unseen \<Rightarrow> ''unseen'' | Sight \<Rightarrow> ''sight'' | Appearance \<Rightarrow> ''appearance''
     | Disappearance \<Rightarrow> ''disappearance'' | Sound \<Rightarrow> ''sound'' | Smell \<Rightarrow> ''smell'' | Feel \<Rightarrow> ''feel''
     | OtherClass n \<Rightarrow> ''root_operation'')"

section \<open>Operations\<close>

datatype oper =
    Oper (op_class: op_class) (op_parent: string) (to_attr: "string option") (from_attr: "string option")
      (stamp_attr: "i64 option") (future_attr: "i64 option") (serialno_attr: "i64 option") (refno_attr: "i64 option")
      (op_args: "root list")
and root =
    EntityArg (arg_id: "string option") (arg_parent: "string option") (arg_loc: "string option")
      (arg_stamp: "i64 option") (arg_attrs: map_type)
  | OperArg oper

definition new_op :: "op_class \<Rightarrow> oper" where
  "new_op c = Oper c (parent_name c) None None None None None None []"

fun set_to :: "string \<Rightarrow> oper \<Rightarrow> oper" where
  "set_to v (Oper c p t f s u n r a) = Oper c p (Some v) f s u n r a"

fun set_from :: "string \<Rightarrow> oper \<Rightarrow> oper" where
  "set_from v (Oper c p t f s u n r a) = Oper c p t (Some v) s u n r a"

fun set_stamp :: "i64 \<Rightarrow> oper \<Rightarrow> oper" where
  "set_stamp v (Oper c p t f s u n r a) = Oper c p t f (Some v) u n r a"

fun clear_future :: "oper \<Rightarrow> oper" where
  "clear_future (Oper c p t f s u n r a) = Oper c p t f s None n r a"

fun set_refno :: "i64 \<Rightarrow> oper \<Rightarrow> oper" where
  "set_refno v (Oper c p t f s u n r a) = Oper c p t f s u n (Some v) a"

fun set_args :: "root list \<Rightarrow> oper \<Rightarrow> oper" where
  "set_args v (Oper c p t f s u n r a) = Oper c p t f s u n r v"

text \<open>What the getters return for a default.\<close>

definition getTo :: "oper \<Rightarrow> string" where
  "getTo p = (case to_attr p of None \<Rightarrow> [] | Some v \<Rightarrow> v)"

definition getFrom :: "oper \<Rightarrow> string" where
  "getFrom p = (case from_attr p of None \<Rightarrow> [] | Some v \<Rightarrow> v)"

definition getStamp :: "oper \<Rightarrow> i64" where
  "getStamp p = (case stamp_attr p of None \<Rightarrow> 0 | Some v \<Rightarrow> v)"

definition getSerialno :: "oper \<Rightarrow> i64" where
  "getSerialno p = (case serialno_attr p of None \<Rightarrow> 0 | Some v \<Rightarrow> v)"

text \<open>An anonymous entity as argument.\<close>

definition anonymous :: "string \<Rightarrow> root" where
  "anonymous i = EntityArg (Some i) None None None []"

section \<open>Setters and getters\<close>

lemma set_to_simps [simp]: "op_class (set_to v p) = op_class p" "op_parent (set_to v p) = op_parent p"
  "to_attr (set_to v p) = Some v" "from_attr (set_to v p) = from_attr p" "stamp_attr (set_to v p) = stamp_attr p"
  "future_attr (set_to v p) = future_attr p" "serialno_attr (set_to v p) = serialno_attr p"
  "refno_attr (set_to v p) = refno_attr p" "op_args (set_to v p) = op_args p"
  by (cases p; simp)+

lemma set_from_simps [simp]: "op_class (set_from v p) = op_class p" "op_parent (set_from v p) = op_parent p"
  "to_attr (set_from v p) = to_attr p" "from_attr (set_from v p) = Some v" "stamp_attr (set_from v p) = stamp_attr p"
  "future_attr (set_from v p) = future_attr p" "serialno_attr (set_from v p) = serialno_attr p"
  "refno_attr (set_from v p) = refno_attr p" "op_args (set_from v p) = op_args p"
  by (cases p; simp)+

lemma set_stamp_simps [simp]: "op_class (set_stamp v p) = op_class p" "op_parent (set_stamp v p) = op_parent p"
  "to_attr (set_stamp v p) = to_attr p" "from_attr (set_stamp v p) = from_attr p" "stamp_attr (set_stamp v p) = Some v"
  "future_attr (set_stamp v p) = future_attr p" "serialno_attr (set_stamp v p) = serialno_attr p"
  "refno_attr (set_stamp v p) = refno_attr p" "op_args (set_stamp v p) = op_args p"
  by (cases p; simp)+

lemma clear_future_simps [simp]: "op_class (clear_future p) = op_class p" "op_parent (clear_future p) = op_parent p"
  "to_attr (clear_future p) = to_attr p" "from_attr (clear_future p) = from_attr p"
  "stamp_attr (clear_future p) = stamp_attr p" "future_attr (clear_future p) = None"
  "serialno_attr (clear_future p) = serialno_attr p" "refno_attr (clear_future p) = refno_attr p"
  "op_args (clear_future p) = op_args p"
  by (cases p; simp)+

lemma set_refno_simps [simp]: "op_class (set_refno v p) = op_class p" "op_parent (set_refno v p) = op_parent p"
  "to_attr (set_refno v p) = to_attr p" "from_attr (set_refno v p) = from_attr p"
  "stamp_attr (set_refno v p) = stamp_attr p" "future_attr (set_refno v p) = future_attr p"
  "serialno_attr (set_refno v p) = serialno_attr p" "refno_attr (set_refno v p) = Some v"
  "op_args (set_refno v p) = op_args p"
  by (cases p; simp)+

lemma set_args_simps [simp]: "op_class (set_args v p) = op_class p" "op_parent (set_args v p) = op_parent p"
  "to_attr (set_args v p) = to_attr p" "from_attr (set_args v p) = from_attr p" "stamp_attr (set_args v p) = stamp_attr p"
  "future_attr (set_args v p) = future_attr p" "serialno_attr (set_args v p) = serialno_attr p"
  "refno_attr (set_args v p) = refno_attr p" "op_args (set_args v p) = v"
  by (cases p; simp)+

lemma new_op_simps [simp]: "op_class (new_op c) = c" "to_attr (new_op c) = None" "from_attr (new_op c) = None"
  "stamp_attr (new_op c) = None" "future_attr (new_op c) = None" "serialno_attr (new_op c) = None"
  "refno_attr (new_op c) = None" "op_args (new_op c) = []" "op_parent (new_op c) = parent_name c"
  by (simp_all add: new_op_def)

lemma parent_name_not_empty [simp]: "parent_name c \<noteq> []"
  by (cases c) (simp_all add: parent_name_def)

lemma set_from_twice [simp]: "set_from v (set_from w p) = set_from v p"
  by (cases p) simp

lemma set_from_same: "from_attr p = Some v \<Longrightarrow> set_from v p = p"
  by (cases p) simp

lemma getter_simps [simp]: "getTo (set_to v p) = v" "getFrom (set_from v p) = v" "getStamp (set_stamp w p) = w"
  "getTo (set_from v p) = getTo p" "getTo (set_stamp w p) = getTo p" "getFrom (set_stamp w p) = getFrom p"
  "getFrom (set_to v p) = getFrom p" "getStamp (set_from v p) = getStamp p" "getTo (set_refno w p) = getTo p"
  "getTo (clear_future p) = getTo p"
  by (simp_all add: getTo_def getFrom_def getStamp_def)

section \<open>Errors\<close>

text \<open>\<open>Router::buildError\<close>: the reply has a message and the operation that it answers.\<close>

definition buildError :: "oper \<Rightarrow> string \<Rightarrow> oper \<Rightarrow> string \<Rightarrow> oper" where
  "buildError p message e target =
     (let e1 = set_args (op_args e @ [EntityArg None None None None [(''message'', EString message)], OperArg p]) e
      in if target = [] then e1
         else set_to target (case serialno_attr p of None \<Rightarrow> e1 | Some n \<Rightarrow> set_refno n e1))"

definition client_error :: "oper \<Rightarrow> string \<Rightarrow> string \<Rightarrow> oper" where
  "client_error p message target = buildError p message (new_op Error) target"

end
