(* ===== verification/Domain_Physical.thy ===== *)
theory Domain_Physical
  imports World_Op Filter_Values
begin

text \<open>
  Who perceives whom in a physical domain
  (\<open>apps/cyphesis/src/rules/simulation/PhysicalDomain.cpp\<close>). Every child of the domain has an entry, with the
  entries that it observes and the entries that observe it. The physics engine calls back when the sphere of
  sight of one entry and the sphere of visibility of another begin or cease to overlap; which calls it makes is a
  parameter. Entries live in a heap; \<open>None\<close> as the result of a step is the use of an entry that has been freed.
\<close>

section \<open>State\<close>

type_synonym eptr = nat

datatype change = Add | Remove

text \<open>\<open>bl_view\<close> and \<open>bl_visibility\<close> are the collision objects of the entry, \<open>bl_viewShape\<close> is whether it owns the
  shape of the first one.\<close>

record bullet =
  bl_entity :: addr
  bl_view :: "nat option"
  bl_viewShape :: bool
  bl_visibility :: "nat option"
  bl_observedByThis :: "eptr list"
  bl_observedByThisChanges :: "(eptr \<times> change) list"
  bl_observingThis :: "eptr list"
  bl_observingThisChanges :: "(eptr \<times> change) list"
  bl_marked :: bool

type_synonym bullet_heap = "eptr \<Rightarrow> bullet option"

record physical =
  ph_entries :: "(i64, eptr) smap"
  ph_heap :: bullet_heap
  ph_containing :: eptr
  ph_queue :: "eptr list"

definition update_entry :: "eptr \<Rightarrow> (bullet \<Rightarrow> bullet) \<Rightarrow> bullet_heap \<Rightarrow> bullet_heap" where
  "update_entry q f h = h(q := map_option f (h q))"

section \<open>Overlapping spheres\<close>

definition visibility_mask_observer :: "32 word" where "visibility_mask_observer = 2"
definition visibility_mask_observable :: "32 word" where "visibility_mask_observable = 4"
definition visibility_mask_observable_private :: "32 word" where "visibility_mask_observable_private = 8"

record proxy =
  px_group :: "32 word"
  px_mask :: "32 word"
  px_object :: nat
  px_entry :: eptr

definition visibility_proxy :: "bool \<Rightarrow> nat \<Rightarrow> eptr \<Rightarrow> proxy" where
  "visibility_proxy hidden ob q = \<lparr>px_group = visibility_mask_observer,
     px_mask = if hidden then visibility_mask_observable_private else visibility_mask_observable,
     px_object = ob, px_entry = q\<rparr>"

definition view_proxy :: "bool \<Rightarrow> nat \<Rightarrow> eptr \<Rightarrow> proxy" where
  "view_proxy admin ob q = \<lparr>px_group = if admin then or visibility_mask_observable visibility_mask_observable_private
       else visibility_mask_observable,
     px_mask = visibility_mask_observer, px_object = ob, px_entry = q\<rparr>"

definition collides :: "proxy \<Rightarrow> proxy \<Rightarrow> bool" where
  "collides p0 p1 \<longleftrightarrow> and (px_group p0) (px_mask p1) \<noteq> 0 \<and> and (px_group p1) (px_mask p0) \<noteq> 0"

definition note_change :: "nat \<Rightarrow> eptr \<times> change \<Rightarrow> bullet \<Rightarrow> bullet" where
  "note_change ob x b = (if bl_view b = Some ob
     then b\<lparr>bl_observedByThisChanges := bl_observedByThisChanges b @ [x]\<rparr>
     else b\<lparr>bl_observingThisChanges := bl_observingThisChanges b @ [x]\<rparr>)"

text \<open>\<open>VisibilityPairCallback\<close>: the first proxy is the one that has moved.\<close>

definition pair_callback :: "change \<times> proxy \<times> proxy \<Rightarrow> bullet_heap \<Rightarrow> bullet_heap option" where
  "pair_callback c h = (case c of (k, p0, p1) \<Rightarrow>
     if \<not> collides p0 p1 \<or> px_entry p0 = px_entry p1 then Some h
     else case h (px_entry p0) of None \<Rightarrow> None
       | Some b \<Rightarrow> Some (h(px_entry p0 := Some (note_change (px_object p0) (px_entry p1, k) b))))"

type_synonym engine_calls = "(change \<times> proxy \<times> proxy) list"

definition engine :: "engine_calls \<Rightarrow> bullet_heap \<Rightarrow> bullet_heap option" where
  "engine calls h = fold_opt pair_callback calls h"

section \<open>Processing the changes\<close>

text \<open>The argument that stands for an entity: \<open>who\<close> is its id and its sequence number.\<close>

definition about :: "(addr \<Rightarrow> i64 \<times> i64) \<Rightarrow> addr \<Rightarrow> root" where
  "about who a = EntityArg (Some (show_i64 (fst (who a)))) None None (Some (snd (who a))) []"

definition name_of :: "(addr \<Rightarrow> i64 \<times> i64) \<Rightarrow> addr \<Rightarrow> string" where
  "name_of who a = show_i64 (fst (who a))"

definition see :: "eptr \<Rightarrow> eptr \<Rightarrow> bullet_heap \<Rightarrow> bullet_heap" where
  "see q r h = update_entry q (\<lambda>b. b\<lparr>bl_observedByThis := set_insert r (bl_observedByThis b)\<rparr>)
     (update_entry r (\<lambda>b. b\<lparr>bl_observingThis := set_insert q (bl_observingThis b)\<rparr>) h)"

definition unsee :: "eptr \<Rightarrow> eptr \<Rightarrow> bullet_heap \<Rightarrow> bullet_heap" where
  "unsee q r h = update_entry q (\<lambda>b. b\<lparr>bl_observedByThis := remove1 r (bl_observedByThis b)\<rparr>)
     (update_entry r (\<lambda>b. b\<lparr>bl_observingThis := remove1 q (bl_observingThis b)\<rparr>) h)"

definition observer_step ::
  "(addr \<Rightarrow> i64 \<times> i64) \<Rightarrow> eptr \<Rightarrow> eptr \<times> change \<Rightarrow> bullet_heap \<times> root list \<times> root list
     \<Rightarrow> (bullet_heap \<times> root list \<times> root list) option" where
  "observer_step who q x s = (case x of (r, k) \<Rightarrow> case s of (h, appear, disappear) \<Rightarrow>
     (case h r of None \<Rightarrow> None
      | Some e \<Rightarrow> (case k of
           Add \<Rightarrow> Some (see q r h, appear @ [about who (bl_entity e)], disappear)
         | Remove \<Rightarrow> Some (unsee q r h, appear, disappear @ [about who (bl_entity e)]))))"

definition batch :: "op_class \<Rightarrow> string \<Rightarrow> root list \<Rightarrow> oper list" where
  "batch c target args = (if args = [] then [] else [set_args args (set_to target (new_op c))])"

definition updateObserverEntry ::
  "(addr \<Rightarrow> i64 \<times> i64) \<Rightarrow> engine_calls \<Rightarrow> eptr \<Rightarrow> bullet_heap \<Rightarrow> (bullet_heap \<times> oper list) option" where
  "updateObserverEntry who calls q h = (case h q of None \<Rightarrow> None
     | Some b0 \<Rightarrow> if bl_view b0 = None then Some (h, [])
       else (case engine calls h of None \<Rightarrow> None
       | Some h1 \<Rightarrow> (case h1 q of None \<Rightarrow> None
       | Some b \<Rightarrow> (case fold_opt (observer_step who q) (bl_observedByThisChanges b) (h1, [], []) of None \<Rightarrow> None
         | Some (h2, appear, disappear) \<Rightarrow>
             Some (update_entry q (\<lambda>b. b\<lparr>bl_observedByThisChanges := []\<rparr>) h2,
                   batch Appearance (name_of who (bl_entity b)) appear
                   @ batch Disappearance (name_of who (bl_entity b)) disappear)))))"

definition observed_step ::
  "(addr \<Rightarrow> i64 \<times> i64) \<Rightarrow> bool \<Rightarrow> eptr \<Rightarrow> root \<Rightarrow> eptr \<times> change \<Rightarrow> bullet_heap \<times> oper list
     \<Rightarrow> (bullet_heap \<times> oper list) option" where
  "observed_step who generate q arg x s = (case x of (r, k) \<Rightarrow> case s of (h, res) \<Rightarrow>
     (case h r of None \<Rightarrow> None
      | Some e \<Rightarrow> (case k of
           Add \<Rightarrow> Some (see r q h,
             if generate then res @ [set_to (name_of who (bl_entity e)) (set_args [arg] (new_op Appearance))] else res)
         | Remove \<Rightarrow> Some (unsee r q h,
             if generate then res @ [set_to (name_of who (bl_entity e)) (set_args [arg] (new_op Disappearance))] else res))))"

definition updateObservedEntry ::
  "(addr \<Rightarrow> i64 \<times> i64) \<Rightarrow> bool \<Rightarrow> engine_calls \<Rightarrow> eptr \<Rightarrow> bullet_heap \<Rightarrow> (bullet_heap \<times> oper list) option" where
  "updateObservedEntry who generate calls q h = (case h q of None \<Rightarrow> None
     | Some b0 \<Rightarrow> if bl_visibility b0 = None then Some (h, [])
       else (case engine calls h of None \<Rightarrow> None
       | Some h1 \<Rightarrow> (case h1 q of None \<Rightarrow> None
       | Some b \<Rightarrow> (case fold_opt (observed_step who generate q (about who (bl_entity b))) (bl_observingThisChanges b) (h1, [])
           of None \<Rightarrow> None
         | Some (h2, res) \<Rightarrow> Some (update_entry q (\<lambda>b. b\<lparr>bl_observingThisChanges := []\<rparr>) h2, res)))))"

text \<open>An entry that has moved waits to be brought up to date.\<close>

definition mark_dirty :: "eptr \<Rightarrow> physical \<Rightarrow> physical option" where
  "mark_dirty q d = (case ph_heap d q of None \<Rightarrow> None
     | Some b \<Rightarrow> Some (if bl_marked b then d
         else d\<lparr>ph_heap := update_entry q (\<lambda>b. b\<lparr>bl_marked := True\<rparr>) (ph_heap d), ph_queue := ph_queue d @ [q]\<rparr>))"

text \<open>At most twenty entries are brought up to date at a time. That \<open>onUpdated\<close> then tells the listeners of the entity is
  left out: it changes nothing in the domain by itself. \<open>calls\<close> are the calls of the engine for an entry
  whose sphere of visibility is moved, and for one whose sphere of sight is.\<close>

definition visibility_check_max_entries :: nat where "visibility_check_max_entries = 20"

definition dirty_step ::
  "(addr \<Rightarrow> i64 \<times> i64) \<Rightarrow> (eptr \<Rightarrow> engine_calls \<times> engine_calls) \<Rightarrow> eptr \<Rightarrow> bullet_heap \<times> oper list
     \<Rightarrow> (bullet_heap \<times> oper list) option" where
  "dirty_step who calls q s = (case s of (h, res) \<Rightarrow>
     (case updateObservedEntry who True (fst (calls q)) q h of None \<Rightarrow> None
      | Some (h1, r1) \<Rightarrow> (case updateObserverEntry who (snd (calls q)) q h1 of None \<Rightarrow> None
        | Some (h2, r2) \<Rightarrow> Some (update_entry q (\<lambda>b. b\<lparr>bl_marked := False\<rparr>) h2, res @ r1 @ r2))))"

definition updateVisibilityOfDirtyEntities ::
  "(addr \<Rightarrow> i64 \<times> i64) \<Rightarrow> (eptr \<Rightarrow> engine_calls \<times> engine_calls) \<Rightarrow> physical \<Rightarrow> (physical \<times> oper list) option" where
  "updateVisibilityOfDirtyEntities who calls d =
     (case fold_opt (dirty_step who calls) (take visibility_check_max_entries (ph_queue d)) (ph_heap d, []) of
        None \<Rightarrow> None
      | Some (h, res) \<Rightarrow> Some (d\<lparr>ph_heap := h, ph_queue := drop visibility_check_max_entries (ph_queue d)\<rparr>, res))"

section \<open>Children come and go\<close>

definition new_bullet :: "addr \<Rightarrow> nat \<Rightarrow> bullet" where
  "new_bullet a vis = \<lparr>bl_entity = a, bl_view = None, bl_viewShape = False, bl_visibility = Some vis,
     bl_observedByThis = [], bl_observedByThisChanges = [], bl_observingThis = [], bl_observingThisChanges = [],
     bl_marked = False\<rparr>"

text \<open>
  The part of \<open>addEntity\<close> that concerns perception. The child has a valid position. \<open>q\<close> is its new entry, \<open>vis\<close> and
  \<open>view\<close> are its collision objects, and \<open>c1\<close> to \<open>c4\<close> the calls of the engine, as the two objects are added and as
  they are moved.
\<close>

definition perceptive_entry :: "nat \<Rightarrow> eptr \<Rightarrow> bullet \<Rightarrow> bullet" where
  "perceptive_entry view c b = b\<lparr>bl_view := Some view, bl_viewShape := True,
     bl_observedByThisChanges := bl_observedByThisChanges b @ [(c, Add)]\<rparr>"

definition observes_itself :: "eptr \<Rightarrow> bullet_heap \<Rightarrow> bullet_heap" where
  "observes_itself q = update_entry q (\<lambda>b. b\<lparr>bl_observedByThis := set_insert q (bl_observedByThis b),
     bl_observingThis := set_insert q (bl_observingThis b)\<rparr>)"

definition add_view :: "nat \<Rightarrow> eptr \<Rightarrow> engine_calls \<Rightarrow> eptr \<Rightarrow> bullet_heap \<Rightarrow> bullet_heap option" where
  "add_view view c calls q h = map_option
     (\<lambda>h1. observes_itself q (update_entry c (\<lambda>b. b\<lparr>bl_observingThis := set_insert q (bl_observingThis b)\<rparr>) h1))
     (engine calls (update_entry q (perceptive_entry view c) h))"

definition add_owner :: "eptr \<Rightarrow> eptr \<Rightarrow> bullet_heap \<Rightarrow> bullet_heap" where
  "add_owner c q h = update_entry c (\<lambda>b. b\<lparr>bl_observedByThis := set_insert q (bl_observedByThis b)\<rparr>)
     (update_entry q (\<lambda>b. b\<lparr>bl_observingThis := set_insert c (bl_observingThis b)\<rparr>) h)"

definition addEntity ::
  "(addr \<Rightarrow> i64 \<times> i64) \<Rightarrow> bool \<Rightarrow> bool \<Rightarrow> engine_calls \<times> engine_calls \<times> engine_calls \<times> engine_calls \<Rightarrow> nat \<Rightarrow> nat
     \<Rightarrow> eptr \<Rightarrow> addr \<Rightarrow> physical \<Rightarrow> (physical \<times> oper list) option" where
  "addEntity who perceptive owner_perceptive calls vis view q a d = (case calls of (c1, c2, c3, c4) \<Rightarrow>
     if smap_has (fst (who a)) (ph_entries d) then None
     else
       Option.bind (engine c1 ((ph_heap d)(q := Some (new_bullet a vis)))) (\<lambda>h1.
       Option.bind (if perceptive then add_view view (ph_containing d) c2 q h1 else Some h1) (\<lambda>h2.
       let h3 = (if owner_perceptive then add_owner (ph_containing d) q h2 else h2) in
       Option.bind (updateObserverEntry who c3 q h3) (\<lambda>(h4, res).
       Option.bind (updateObservedEntry who False c4 q h4) (\<lambda>(h5, _).
       Some (d\<lparr>ph_heap := h5, ph_entries := smap_emplace (fst (who a)) q (ph_entries d)\<rparr>, res))))))"

text \<open>\<open>toggleChildPerception\<close>: the shape of the new object is freed at the end of the block that makes it.\<close>

definition toggleChildPerception ::
  "(addr \<Rightarrow> i64 \<times> i64) \<Rightarrow> bool \<Rightarrow> engine_calls \<times> engine_calls \<Rightarrow> nat \<Rightarrow> i64 \<Rightarrow> physical \<Rightarrow> (physical \<times> oper list) option" where
  "toggleChildPerception who perceptive calls view i d = (case smap_find i (ph_entries d) of
       None \<Rightarrow> Some (d, [])
     | Some q \<Rightarrow> (case ph_heap d q of None \<Rightarrow> None
       | Some b \<Rightarrow>
         if perceptive then
           (if bl_view b \<noteq> None then Some (d, [])
            else
              let h0 = update_entry (ph_containing d) (\<lambda>b. b\<lparr>bl_observingThis := set_insert q (bl_observingThis b)\<rparr>) (ph_heap d) in
              Option.bind (engine (fst calls) h0) (\<lambda>h1.
              Option.bind (updateObserverEntry who (snd calls) q
                 (observes_itself q (update_entry q (\<lambda>b. b\<lparr>bl_view := Some view\<rparr>) h1))) (\<lambda>(h2, res).
              Some (d\<lparr>ph_heap := h2\<rparr>, res))))
         else
           (if bl_view b = None then Some (d, [])
            else Option.bind (engine (fst calls) (ph_heap d)) (\<lambda>h1.
              Some (d\<lparr>ph_heap := update_entry (ph_containing d)
                  (\<lambda>b. b\<lparr>bl_observingThis := remove1 q (bl_observingThis b)\<rparr>)
                  (update_entry q (\<lambda>b. b\<lparr>bl_view := None, bl_viewShape := False\<rparr>) h1)\<rparr>, [])))))"

text \<open>A vector forgets one element: the last one takes its place.\<close>

fun removeAndShift :: "'a \<Rightarrow> 'a list \<Rightarrow> 'a list" where
  "removeAndShift x [] = []"
| "removeAndShift x (y # ys) = (if y = x then (if ys = [] then [] else last ys # butlast ys) else y # removeAndShift x ys)"

text \<open>The part of \<open>removeEntity\<close> that concerns perception.\<close>

definition each_entry :: "(bullet \<Rightarrow> bullet) \<Rightarrow> eptr list \<Rightarrow> bullet_heap \<Rightarrow> bullet_heap option" where
  "each_entry f l h = fold_opt (\<lambda>r h. case h r of None \<Rightarrow> None | Some b \<Rightarrow> Some (h(r := Some (f b)))) l h"

definition forget_observed :: "eptr \<Rightarrow> bullet \<Rightarrow> bullet" where
  "forget_observed q b = b\<lparr>bl_observedByThis := remove1 q (bl_observedByThis b)\<rparr>"

definition forget_observing :: "eptr \<Rightarrow> bullet \<Rightarrow> bullet" where
  "forget_observing q b = b\<lparr>bl_observingThis := remove1 q (bl_observingThis b)\<rparr>"

definition removeEntity :: "bool \<Rightarrow> engine_calls \<Rightarrow> i64 \<Rightarrow> physical \<Rightarrow> physical option" where
  "removeEntity owner_perceptive calls i d = (case smap_find i (ph_entries d) of
       None \<Rightarrow> Some d
     | Some q \<Rightarrow>
       Option.bind (engine calls (ph_heap d)) (\<lambda>h1.
       Option.bind (h1 q) (\<lambda>b1.
       Option.bind (each_entry (forget_observed q) (bl_observingThis b1) h1) (\<lambda>h2.
       Option.bind (h2 q) (\<lambda>b2.
       Option.bind (each_entry (forget_observing q) (bl_observedByThis b2) h2) (\<lambda>h3.
       let h4 = update_entry (ph_containing d) (forget_observing q) h3;
           h5 = (if owner_perceptive
                 then update_entry (ph_containing d) (\<lambda>b. b\<lparr>bl_observedByThis := set_insert q (bl_observedByThis b)\<rparr>) h4
                 else h4)
       in Some (d\<lparr>ph_heap := h5(q := None), ph_entries := smap_erase i (ph_entries d),
                 ph_queue := (if bl_marked b1 then removeAndShift q (ph_queue d) else ph_queue d)\<rparr>)))))))"

section \<open>Looking\<close>

definition physical_visible :: "addr \<Rightarrow> i64 \<Rightarrow> i64 \<Rightarrow> addr \<Rightarrow> addr \<Rightarrow> physical \<Rightarrow> bool" where
  "physical_visible owner observing_id observed_id observing observed d \<longleftrightarrow>
     observed = owner \<or> observing = observed \<or> observing = owner
     \<or> (case smap_find observing_id (ph_entries d) of None \<Rightarrow> False
        | Some q \<Rightarrow> (case smap_find observed_id (ph_entries d) of None \<Rightarrow> False
          | Some r \<Rightarrow> (case ph_heap d r of None \<Rightarrow> False | Some e \<Rightarrow> q \<in> set (bl_observingThis e))))"

text \<open>\<open>getVisibleEntitiesFor\<close> and \<open>getObservingEntitiesFor\<close>: \<open>None\<close> is the use of a freed entry.\<close>

definition entities_of :: "physical \<Rightarrow> eptr list \<Rightarrow> addr list option" where
  "entities_of d l = (if list_all (\<lambda>r. ph_heap d r \<noteq> None) l then Some (map (\<lambda>r. bl_entity (the (ph_heap d r))) l) else None)"

definition physical_sees :: "i64 \<Rightarrow> physical \<Rightarrow> addr list option" where
  "physical_sees i d = (case smap_find i (ph_entries d) of None \<Rightarrow> Some []
     | Some q \<Rightarrow> (case ph_heap d q of None \<Rightarrow> None | Some b \<Rightarrow> entities_of d (bl_observedByThis b)))"

definition physical_observers :: "i64 \<Rightarrow> physical \<Rightarrow> addr list option" where
  "physical_observers i d = (case smap_find i (ph_entries d) of None \<Rightarrow> Some []
     | Some q \<Rightarrow> (case ph_heap d q of None \<Rightarrow> None | Some b \<Rightarrow> entities_of d (bl_observingThis b)))"

end
