(* ===== verification/Physical_Guarantees.thy ===== *)
theory Physical_Guarantees
  imports Domain_Physical
begin

text \<open>
  What holds of perception in a physical domain: an entry observes another exactly when the other one knows it as an
  observer, through every step that the code makes, whatever the engine reports about entries that live.
\<close>

section \<open>Who observes whom\<close>

definition sees :: "bullet_heap \<Rightarrow> eptr \<Rightarrow> eptr \<Rightarrow> bool" where
  "sees h a b \<longleftrightarrow> (case h a of None \<Rightarrow> False | Some e \<Rightarrow> b \<in> set (bl_observedByThis e))"

definition seen :: "bullet_heap \<Rightarrow> eptr \<Rightarrow> eptr \<Rightarrow> bool" where
  "seen h a b \<longleftrightarrow> (case h b of None \<Rightarrow> False | Some e \<Rightarrow> a \<in> set (bl_observingThis e))"

definition change_refs :: "bullet \<Rightarrow> eptr set" where
  "change_refs b = fst ` set (bl_observedByThisChanges b) \<union> fst ` set (bl_observingThisChanges b)"

text \<open>
  \<open>s\<close> is whether the changes that entries wait for are only about entries that live: the code does not see to it
  when an entry is removed.
\<close>

definition tidy :: "bool \<Rightarrow> bullet_heap \<Rightarrow> bool" where
  "tidy s h \<longleftrightarrow> (\<forall>a e. h a = Some e \<longrightarrow> distinct (bl_observedByThis e) \<and> distinct (bl_observingThis e)
     \<and> (s \<longrightarrow> change_refs e \<subseteq> dom h))"

text \<open>The entries agree, but for the pairs in \<open>X\<close>.\<close>

definition agree :: "bool \<Rightarrow> (eptr \<times> eptr) set \<Rightarrow> bullet_heap \<Rightarrow> bool" where
  "agree s X h \<longleftrightarrow> (\<forall>a b. (a, b) \<notin> X \<longrightarrow> sees h a b = seen h a b) \<and> tidy s h"

lemma agree_pair: "agree s X h \<Longrightarrow> (a, b) \<notin> X \<Longrightarrow> sees h a b = seen h a b"
  by (simp add: agree_def)

lemma sees_dom: "sees h a b \<Longrightarrow> a \<in> dom h"
  by (auto simp: sees_def split: option.splits)

lemma seen_dom: "seen h a b \<Longrightarrow> b \<in> dom h"
  by (auto simp: seen_def split: option.splits)

lemma dom_update_entry [simp]: "dom (update_entry q f h) = dom h"
  by (auto simp: update_entry_def domIff)

lemma update_entry_apply: "update_entry q f h a = (if a = q then map_option f (h q) else h a)"
  by (simp add: update_entry_def)

lemma dom_see [simp]: "dom (see q r h) = dom h" "dom (unsee q r h) = dom h"
  by (simp_all add: see_def unsee_def)

lemma sees_see [simp]: "sees (see q r h) a b \<longleftrightarrow> sees h a b \<or> (a = q \<and> b = r \<and> q \<in> dom h)"
  "seen (see q r h) a b \<longleftrightarrow> seen h a b \<or> (a = q \<and> b = r \<and> r \<in> dom h)"
  by (auto simp: sees_def seen_def see_def update_entry_apply split: option.splits)

lemma tidy_update:
  assumes "tidy s h" "\<And>e. h q = Some e \<Longrightarrow> distinct (bl_observedByThis (f e)) \<and> distinct (bl_observingThis (f e))
    \<and> (s \<longrightarrow> change_refs (f e) \<subseteq> dom h)"
  shows "tidy s (update_entry q f h)"
  using assms by (auto simp: tidy_def update_entry_apply split: if_splits)

lemma tidyD: "tidy s h \<Longrightarrow> h q = Some e \<Longrightarrow> distinct (bl_observedByThis e) \<and> distinct (bl_observingThis e) \<and> (s \<longrightarrow> change_refs e \<subseteq> dom h)"
  by (simp add: tidy_def)

lemma sees_unsee [simp]:
  "tidy s h \<Longrightarrow> sees (unsee q r h) a b \<longleftrightarrow> sees h a b \<and> \<not> (a = q \<and> b = r)"
  "tidy s h \<Longrightarrow> seen (unsee q r h) a b \<longleftrightarrow> seen h a b \<and> \<not> (a = q \<and> b = r)"
  by (auto simp: sees_def seen_def unsee_def update_entry_apply dest: tidyD split: option.splits)

lemma change_refs_simps [simp]: "change_refs (b\<lparr>bl_observedByThis := l\<rparr>) = change_refs b"
  "change_refs (b\<lparr>bl_observingThis := l\<rparr>) = change_refs b" "change_refs (b\<lparr>bl_marked := m\<rparr>) = change_refs b"
  "change_refs (b\<lparr>bl_view := v\<rparr>) = change_refs b" "change_refs (b\<lparr>bl_viewShape := s\<rparr>) = change_refs b"
  by (simp_all add: change_refs_def)

lemma tidy_see: "tidy s h \<Longrightarrow> tidy s (see q r h)"
  unfolding see_def
  by (intro tidy_update) (auto dest: tidyD simp: distinct_set_insert update_entry_apply domIff subset_iff split: if_splits)

lemma tidy_unsee: "tidy s h \<Longrightarrow> tidy s (unsee q r h)"
  unfolding unsee_def
  by (intro tidy_update) (auto dest: tidyD simp: update_entry_apply domIff subset_iff split: if_splits)

lemma agree_see: "agree s X h \<Longrightarrow> q \<in> dom h \<Longrightarrow> r \<in> dom h \<Longrightarrow> agree s (X - {(q, r)}) (see q r h)"
  by (auto simp: agree_def tidy_see)

lemma agree_unsee: "agree s X h \<Longrightarrow> agree s X (unsee q r h)"
  by (auto simp: agree_def tidy_unsee)

lemma agree_mono: "agree s X h \<Longrightarrow> X \<subseteq> Y \<Longrightarrow> agree s Y h"
  by (auto simp: agree_def)

text \<open>An update that leaves the two sets of observers alone.\<close>

lemma agree_update:
  assumes "agree s X h"
    and "\<And>e. h q = Some e \<Longrightarrow> bl_observedByThis (f e) = bl_observedByThis e \<and> bl_observingThis (f e) = bl_observingThis e
      \<and> (s \<longrightarrow> change_refs (f e) \<subseteq> dom h)"
  shows "agree s X (update_entry q f h)"
proof -
  have "sees (update_entry q f h) a b = sees h a b" "seen (update_entry q f h) a b = seen h a b" for a b
    using assms(2) by (auto simp: sees_def seen_def update_entry_apply split: option.splits)
  moreover have "tidy s (update_entry q f h)"
    using assms by (intro tidy_update) (auto simp: agree_def dest: tidyD)
  ultimately show ?thesis using assms(1) by (simp add: agree_def)
qed

section \<open>The engine\<close>

definition live_calls :: "engine_calls \<Rightarrow> bullet_heap \<Rightarrow> bool" where
  "live_calls calls h \<longleftrightarrow> (\<forall>(k, p0, p1) \<in> set calls. px_entry p0 \<in> dom h \<and> px_entry p1 \<in> dom h)"

text \<open>What the calls leave alone: the entries and who observes whom; changes are only appended.\<close>

definition add_changes :: "(eptr \<times> change) list \<Rightarrow> (eptr \<times> change) list \<Rightarrow> bullet \<Rightarrow> bullet" where
  "add_changes xs ys b = b\<lparr>bl_observedByThisChanges := bl_observedByThisChanges b @ xs,
     bl_observingThisChanges := bl_observingThisChanges b @ ys\<rparr>"

definition heap_grows :: "bullet_heap \<Rightarrow> bullet_heap \<Rightarrow> bool" where
  "heap_grows h h' \<longleftrightarrow> dom h' = dom h \<and> (\<forall>a e. h a = Some e \<longrightarrow>
     (\<exists>xs ys. h' a = Some (add_changes xs ys e) \<and> (bl_view e = None \<longrightarrow> xs = [])))"

lemma add_changes_simps [simp]: "add_changes [] [] b = b" "bl_view (add_changes xs ys b) = bl_view b"
  "add_changes us vs (add_changes xs ys b) = add_changes (xs @ us) (ys @ vs) b"
  "bl_observedByThisChanges (add_changes xs ys b) = bl_observedByThisChanges b @ xs"
  "bl_observingThisChanges (add_changes xs ys b) = bl_observingThisChanges b @ ys"
  "bl_observedByThis (add_changes xs ys b) = bl_observedByThis b" "bl_observingThis (add_changes xs ys b) = bl_observingThis b"
  "bl_entity (add_changes xs ys b) = bl_entity b" "bl_visibility (add_changes xs ys b) = bl_visibility b"
  "bl_marked (add_changes xs ys b) = bl_marked b" "bl_viewShape (add_changes xs ys b) = bl_viewShape b"
  by (simp_all add: add_changes_def)

lemma note_change_add: "note_change ob x b = (if bl_view b = Some ob then add_changes [x] [] b else add_changes [] [x] b)"
  by (simp add: note_change_def add_changes_def)

lemma heap_grows_refl: "heap_grows h h"
  by (auto simp: heap_grows_def intro!: exI [of _ "[]"])

lemma growsD:
  assumes "heap_grows h h'" "h a = Some e"
  obtains xs ys where "h' a = Some (add_changes xs ys e)" "bl_view e = None \<Longrightarrow> xs = []"
  using assms unfolding heap_grows_def by blast

lemma grows_dom: "heap_grows h h' \<Longrightarrow> dom h' = dom h"
  by (simp add: heap_grows_def)

lemma heap_grows_trans:
  assumes "heap_grows h h1" "heap_grows h1 h2" shows "heap_grows h h2"
  unfolding heap_grows_def
proof (intro conjI allI impI)
  show "dom h2 = dom h" using assms by (simp add: heap_grows_def)
  fix a e assume a: "h a = Some e"
  from growsD [OF assms(1) a] obtain xs ys where
    1: "h1 a = Some (add_changes xs ys e)" and x: "bl_view e = None \<longrightarrow> xs = []" by metis
  from growsD [OF assms(2) 1] obtain xs' ys' where
    "h2 a = Some (add_changes (xs @ xs') (ys @ ys') e)" "bl_view e = None \<longrightarrow> xs' = []" by auto
  with x show "\<exists>xs ys. h2 a = Some (add_changes xs ys e) \<and> (bl_view e = None \<longrightarrow> xs = [])"
    by (intro exI [of _ "xs @ xs'"] exI [of _ "ys @ ys'"]) simp
qed

lemma pair_callback_keeps:
  assumes "pair_callback (k, p0, p1) h = Some h'" "s \<Longrightarrow> px_entry p1 \<in> dom h" "agree s X h"
  shows "heap_grows h h' \<and> agree s X h'"
proof (cases "\<not> collides p0 p1 \<or> px_entry p0 = px_entry p1")
  case True then show ?thesis using assms heap_grows_refl by (auto simp: pair_callback_def)
next
  case False
  with assms(1) obtain b where b: "h (px_entry p0) = Some b" by (auto simp: pair_callback_def split: option.splits)
  let ?h = "update_entry (px_entry p0) (note_change (px_object p0) (px_entry p1, k)) h"
  have h': "h' = ?h" using assms(1) False b by (simp add: pair_callback_def update_entry_def)
  have "agree s X ?h"
    using assms(2,3) by (intro agree_update) (auto simp: note_change_def change_refs_def agree_def tidy_def)
  moreover have "heap_grows h ?h"
    unfolding heap_grows_def
  proof (intro conjI allI impI)
    show "dom ?h = dom h" by simp
    fix a e assume a: "h a = Some e"
    show "\<exists>xs ys. ?h a = Some (add_changes xs ys e) \<and> (bl_view e = None \<longrightarrow> xs = [])"
    proof (cases "a = px_entry p0")
      case True
      then have "?h a = Some (note_change (px_object p0) (px_entry p1, k) e)" using a by (simp add: update_entry_apply)
      then show ?thesis
        by (cases "bl_view e = Some (px_object p0)") (simp_all add: note_change_add, blast+)
    next
      case False
      then have "?h a = Some (add_changes [] [] e)" using a by (simp add: update_entry_apply)
      then show ?thesis by blast
    qed
  qed
  ultimately show ?thesis unfolding h' by blast
qed

lemma live_calls_Cons: "live_calls ((k, p0, p1) # cs) h \<longleftrightarrow> px_entry p0 \<in> dom h \<and> px_entry p1 \<in> dom h \<and> live_calls cs h"
  by (simp add: live_calls_def)

lemma live_calls_dom: "live_calls calls h \<Longrightarrow> dom h' = dom h \<Longrightarrow> live_calls calls h'"
  by (simp add: live_calls_def)

lemma engine_keeps:
  "engine calls h = Some h' \<Longrightarrow> (s \<Longrightarrow> live_calls calls h) \<Longrightarrow> agree s X h \<Longrightarrow> heap_grows h h' \<and> agree s X h'"
proof (induction calls arbitrary: h)
  case Nil then show ?case by (simp add: engine_def heap_grows_refl)
next
  case (Cons c cs)
  obtain k p0 p1 where c: "c = (k, p0, p1)" by (cases c)
  from Cons.prems(1) c obtain h1 where h1: "pair_callback (k, p0, p1) h = Some h1" "engine cs h1 = Some h'"
    by (auto simp: engine_def split: option.splits)
  from Cons.prems(2) c have l: "s \<Longrightarrow> px_entry p1 \<in> dom h" "s \<Longrightarrow> live_calls cs h" by (simp_all add: live_calls_Cons)
  from pair_callback_keeps [OF h1(1) l(1) Cons.prems(3)] have g: "heap_grows h h1" "agree s X h1" by auto
  from Cons.IH [OF h1(2) live_calls_dom [OF l(2) grows_dom [OF g(1)]] g(2)] g(1) show ?case
    by (auto intro: heap_grows_trans)
qed

lemma engine_total: "live_calls calls h \<Longrightarrow> \<exists>h'. engine calls h = Some h'"
proof (induction calls arbitrary: h)
  case (Cons c cs)
  obtain k p0 p1 where c: "c = (k, p0, p1)" by (cases c)
  from Cons.prems c have l: "px_entry p0 \<in> dom h" "live_calls cs h" by (simp_all add: live_calls_Cons)
  then obtain b where "h (px_entry p0) = Some b" by auto
  then obtain h1 where h1: "pair_callback (k, p0, p1) h = Some h1" "dom h1 = dom h"
    by (cases "\<not> collides p0 p1 \<or> px_entry p0 = px_entry p1") (auto simp: pair_callback_def)
  from Cons.IH [OF live_calls_dom [OF l(2) h1(2)]] h1(1) c show ?case by (auto simp: engine_def)
qed (simp add: engine_def)

lemma engine_step:
  assumes "live_calls calls h" "agree s X h" shows "\<exists>h'. engine calls h = Some h' \<and> heap_grows h h' \<and> agree s X h'"
proof -
  from engine_total [OF assms(1)] obtain h' where "engine calls h = Some h'" by blast
  with engine_keeps [OF this _ assms(2)] assms(1) show ?thesis by blast
qed

text \<open>
  What a step gives: nothing, if it uses an entry that has been freed, which it does not if \<open>s\<close>; or else something
  of which \<open>P\<close> holds.
\<close>

definition fine :: "bool \<Rightarrow> ('a \<Rightarrow> bool) \<Rightarrow> 'a option \<Rightarrow> bool" where
  "fine s P r \<longleftrightarrow> (case r of None \<Rightarrow> \<not> s | Some x \<Rightarrow> P x)"

lemma fine_simps [simp]: "fine s P None \<longleftrightarrow> \<not> s" "fine s P (Some x) \<longleftrightarrow> P x"
  by (simp_all add: fine_def)

lemma fine_bind: "fine s P r \<Longrightarrow> (\<And>x. P x \<Longrightarrow> fine s Q (f x)) \<Longrightarrow> fine s Q (Option.bind r f)"
  by (cases r) simp_all

lemma fine_map: "fine s P r \<Longrightarrow> (\<And>x. P x \<Longrightarrow> Q (f x)) \<Longrightarrow> fine s Q (map_option f r)"
  by (cases r) simp_all

lemma fine_result: "fine s P r \<Longrightarrow> r = Some x \<Longrightarrow> P x"
  by simp

lemma fine_total: "fine True P r \<Longrightarrow> \<exists>x. r = Some x \<and> P x"
  by (cases r) simp_all

lemma fine_engine:
  assumes "agree s X h" "s \<Longrightarrow> live_calls calls h"
  shows "fine s (\<lambda>h'. heap_grows h h' \<and> agree s X h') (engine calls h)"
proof (cases "engine calls h")
  case None then show ?thesis using engine_total [of calls h] assms(2) by auto
next
  case (Some h') then show ?thesis using engine_keeps [OF Some assms(2,1)] by simp
qed

section \<open>Changes of what is observed\<close>

text \<open>All of the heap but for who observes whom.\<close>

definition skeleton :: "bullet_heap \<Rightarrow> bullet_heap" where
  "skeleton h = (\<lambda>a. map_option (\<lambda>b. b\<lparr>bl_observedByThis := [], bl_observingThis := []\<rparr>) (h a))"

lemma skeleton_None: "skeleton h a = None \<longleftrightarrow> h a = None"
  by (simp add: skeleton_def)

lemma skeleton_dom: "skeleton h' = skeleton h \<Longrightarrow> dom h' = dom h"
  by (metis domIff skeleton_None subsetI subset_antisym)

definition core :: "bullet \<Rightarrow> addr \<times> nat option \<times> bool \<times> nat option \<times> (eptr \<times> change) list \<times> (eptr \<times> change) list \<times> bool" where
  "core b = (bl_entity b, bl_view b, bl_viewShape b, bl_visibility b, bl_observedByThisChanges b,
     bl_observingThisChanges b, bl_marked b)"

lemma skeleton_get:
  assumes "skeleton h' = skeleton h" "h q = Some e"
  shows "\<exists>e'. h' q = Some e' \<and> core e' = core e"
proof -
  have q: "skeleton h' q = skeleton h q" using assms(1) by simp
  then obtain e' where e: "h' q = Some e'" using assms(2) by (auto simp: skeleton_def)
  with q assms(2) have "e'\<lparr>bl_observedByThis := [], bl_observingThis := []\<rparr> = e\<lparr>bl_observedByThis := [], bl_observingThis := []\<rparr>"
    by (simp add: skeleton_def)
  then have "core (e'\<lparr>bl_observedByThis := [], bl_observingThis := []\<rparr>) = core (e\<lparr>bl_observedByThis := [], bl_observingThis := []\<rparr>)"
    by (rule arg_cong)
  then show ?thesis using e by (simp add: core_def)
qed

lemma skeleton_see [simp]: "skeleton (see q r h) = skeleton h" "skeleton (unsee q r h) = skeleton h"
  by (auto simp: skeleton_def see_def unsee_def update_entry_apply fun_eq_iff option.map_comp o_def)

definition entity_at :: "bullet_heap \<Rightarrow> eptr \<Rightarrow> addr" where
  "entity_at h r = bl_entity (the (h r))"

lemma entity_at_skeleton: "skeleton h' = skeleton h \<Longrightarrow> r \<in> dom h \<Longrightarrow> entity_at h' r = entity_at h r"
  by (auto simp: entity_at_def core_def dest!: skeleton_get)

text \<open>What a list of changes makes of a relation, and whom it adds or removes, in this order.\<close>

fun net :: "(eptr \<times> change) list \<Rightarrow> eptr \<Rightarrow> bool \<Rightarrow> bool" where
  "net [] r b = b"
| "net ((r', k) # xs) r b = net xs r (if r' = r then k = Add else b)"

definition changed :: "change \<Rightarrow> (eptr \<times> change) list \<Rightarrow> eptr list" where
  "changed k xs = map fst (filter (\<lambda>x. snd x = k) xs)"

lemma changed_simps [simp]: "changed k [] = []"
  "changed k ((r, k') # xs) = (if k' = k then r # changed k xs else changed k xs)"
  by (simp_all add: changed_def)

lemma set_changed: "r \<in> set (changed k xs) \<longleftrightarrow> (r, k) \<in> set xs"
  by (force simp: changed_def)

lemma observer_step_simps:
  "h r = Some e \<Longrightarrow> observer_step who q (r, Add) (h, ap, dis) = Some (see q r h, ap @ [about who (bl_entity e)], dis)"
  "h r = Some e \<Longrightarrow> observer_step who q (r, Remove) (h, ap, dis) = Some (unsee q r h, ap, dis @ [about who (bl_entity e)])"
  by (simp_all add: observer_step_def)

lemma map_entity_at:
  assumes "fst ` set xs \<subseteq> dom h" "skeleton h' = skeleton h"
  shows "map (\<lambda>r. f (entity_at h' r)) (changed k xs) = map (\<lambda>r. f (entity_at h r)) (changed k xs)"
proof (rule map_cong [OF refl])
  fix r assume "r \<in> set (changed k xs)"
  then have "r \<in> dom h" using assms(1) by (force simp: set_changed)
  then show "f (entity_at h' r) = f (entity_at h r)" using entity_at_skeleton [OF assms(2)] by simp
qed

lemma observer_fold:
  assumes "agree s X h" "q \<in> dom h" "fst ` set xs \<subseteq> dom h"
  shows "\<exists>h'. fold_opt (observer_step who q) xs (h, ap, dis)
        = Some (h', ap @ map (\<lambda>r. about who (entity_at h r)) (changed Add xs),
                dis @ map (\<lambda>r. about who (entity_at h r)) (changed Remove xs))
      \<and> agree s (X - {q} \<times> set (changed Add xs)) h' \<and> skeleton h' = skeleton h
      \<and> (\<forall>a b. sees h' a b = (if a = q then net xs b (sees h a b) else sees h a b))"
  using assms
proof (induction xs arbitrary: X h ap dis)
  case Nil then show ?case by simp
next
  case (Cons x xs)
  obtain r k where x: "x = (r, k)" by (cases x)
  from Cons.prems(3) x obtain e where e: "h r = Some e" by auto
  have t: "tidy s h" using Cons.prems(1) by (simp add: agree_def)
  show ?case
  proof (cases k)
    case Add
    have 1: "agree s (X - {(q, r)}) (see q r h)" using Cons.prems e by (intro agree_see) auto
    have 2: "X - {(q, r)} - {q} \<times> set (changed Add xs) = X - {q} \<times> set (changed Add (x # xs))" using x Add by auto
    have 3: "entity_at h r = bl_entity e" using e by (simp add: entity_at_def)
    have m: "map (\<lambda>r'. about who (entity_at (see q r h) r')) (changed c xs) = map (\<lambda>r'. about who (entity_at h r')) (changed c xs)" for c
      using Cons.prems(3) by (intro map_entity_at) auto
    from Cons.IH [OF 1, of "ap @ [about who (bl_entity e)]" dis] Cons.prems x obtain h' where
      "fold_opt (observer_step who q) xs (see q r h, ap @ [about who (bl_entity e)], dis)
        = Some (h', (ap @ [about who (bl_entity e)]) @ map (\<lambda>r'. about who (entity_at (see q r h) r')) (changed Add xs),
                dis @ map (\<lambda>r'. about who (entity_at (see q r h) r')) (changed Remove xs))"
      "agree s (X - {(q, r)} - {q} \<times> set (changed Add xs)) h'" "skeleton h' = skeleton h"
      "\<forall>a b. sees h' a b = (if a = q then net xs b (sees (see q r h) a b) else sees (see q r h) a b)" by auto
    then show ?thesis unfolding 2 m using e x Add Cons.prems(2) 3
      by (intro exI [of _ h']) (simp add: observer_step_simps)
  next
    case Remove
    have 1: "agree s X (unsee q r h)" using Cons.prems(1) by (rule agree_unsee)
    have 3: "entity_at h r = bl_entity e" using e by (simp add: entity_at_def)
    have m: "map (\<lambda>r'. about who (entity_at (unsee q r h) r')) (changed c xs) = map (\<lambda>r'. about who (entity_at h r')) (changed c xs)" for c
      using Cons.prems(3) by (intro map_entity_at) auto
    from Cons.IH [OF 1, of ap "dis @ [about who (bl_entity e)]"] Cons.prems x obtain h' where
      "fold_opt (observer_step who q) xs (unsee q r h, ap, dis @ [about who (bl_entity e)])
        = Some (h', ap @ map (\<lambda>r'. about who (entity_at (unsee q r h) r')) (changed Add xs),
                (dis @ [about who (bl_entity e)]) @ map (\<lambda>r'. about who (entity_at (unsee q r h) r')) (changed Remove xs))"
      "agree s (X - {q} \<times> set (changed Add xs)) h'" "skeleton h' = skeleton h"
      "\<forall>a b. sees h' a b = (if a = q then net xs b (sees (unsee q r h) a b) else sees (unsee q r h) a b)" by auto
    then show ?thesis unfolding m using e x Remove t 3
      by (intro exI [of _ h']) (simp add: observer_step_simps)
  qed
qed

lemma observer_fold_fails:
  "(q, k) \<in> set xs \<Longrightarrow> q \<notin> dom h \<Longrightarrow> fold_opt (observer_step who r) xs (h, ap, dis) = None"
proof (induction xs arbitrary: h ap dis)
  case (Cons x xs)
  obtain r' k' where x: "x = (r', k')" by (cases x)
  show ?case
  proof (cases "h r'")
    case None then show ?thesis using x by (simp add: observer_step_def)
  next
    case (Some e)
    with Cons.prems x have "(q, k) \<in> set xs" by auto
    with Cons.IH Cons.prems(2) Some x show ?thesis by (cases k') (simp_all add: observer_step_simps del: domIff)
  qed
qed simp

lemma observed_step_simps:
  "h r = Some e \<Longrightarrow> observed_step who g q arg (r, Add) (h, res) = Some (see r q h,
     if g then res @ [set_to (name_of who (bl_entity e)) (set_args [arg] (new_op Appearance))] else res)"
  "h r = Some e \<Longrightarrow> observed_step who g q arg (r, Remove) (h, res) = Some (unsee r q h,
     if g then res @ [set_to (name_of who (bl_entity e)) (set_args [arg] (new_op Disappearance))] else res)"
  by (simp_all add: observed_step_def)

definition notices :: "(addr \<Rightarrow> i64 \<times> i64) \<Rightarrow> root \<Rightarrow> bullet_heap \<Rightarrow> (eptr \<times> change) list \<Rightarrow> oper list" where
  "notices who arg h xs = map (\<lambda>(r, k). set_to (name_of who (entity_at h r))
     (set_args [arg] (new_op (if k = Add then Appearance else Disappearance)))) xs"

lemma notices_skeleton:
  assumes "fst ` set xs \<subseteq> dom h" "skeleton h' = skeleton h"
  shows "notices who arg h' xs = notices who arg h xs"
  unfolding notices_def
proof (rule map_cong [OF refl])
  fix x assume x: "x \<in> set xs"
  obtain r k where rk: "x = (r, k)" by (cases x)
  with x assms(1) have "r \<in> dom h" by force
  then have "entity_at h' r = entity_at h r" by (rule entity_at_skeleton [OF assms(2)])
  then show "(case x of (r, k) \<Rightarrow> set_to (name_of who (entity_at h' r))
      (set_args [arg] (new_op (if k = Add then Appearance else Disappearance))))
    = (case x of (r, k) \<Rightarrow> set_to (name_of who (entity_at h r))
      (set_args [arg] (new_op (if k = Add then Appearance else Disappearance))))" by (simp add: rk)
qed

lemma observed_fold:
  assumes "agree s X h" "q \<in> dom h" "fst ` set xs \<subseteq> dom h"
  shows "\<exists>h'. fold_opt (observed_step who g q arg) xs (h, res) = Some (h', res @ (if g then notices who arg h xs else []))
      \<and> agree s X h' \<and> skeleton h' = skeleton h
      \<and> (\<forall>a b. sees h' a b = (if b = q then net xs a (sees h a b) else sees h a b))"
  using assms
proof (induction xs arbitrary: h res)
  case Nil then show ?case by (simp add: notices_def)
next
  case (Cons x xs)
  obtain r k where x: "x = (r, k)" by (cases x)
  from Cons.prems(3) x obtain e where e: "h r = Some e" by auto
  have t: "tidy s h" using Cons.prems(1) by (simp add: agree_def)
  have 3: "entity_at h r = bl_entity e" using e by (simp add: entity_at_def)
  define h1 where "h1 = (if k = Add then see r q h else unsee r q h)"
  define p where "p = set_to (name_of who (bl_entity e)) (set_args [arg] (new_op (if k = Add then Appearance else Disappearance)))"
  have sk: "skeleton h1 = skeleton h" by (simp add: h1_def)
  have ag: "agree s X h1" using Cons.prems e agree_see [of s X h r q] agree_unsee [of s X h r q] agree_mono
    by (auto simp: h1_def domIff)
  have st: "observed_step who g q arg x (h, res) = Some (h1, if g then res @ [p] else res)"
    using e x by (cases k) (auto simp: observed_step_simps h1_def p_def)
  have se: "sees h1 a b = (if a = r \<and> b = q then k = Add else sees h a b)" for a b
    using t e by (cases k) (auto simp: h1_def domIff)
  have dm: "dom h1 = dom h" by (simp add: h1_def)
  have n: "notices who arg h1 xs = notices who arg h xs" using Cons.prems(3) sk by (intro notices_skeleton) auto
  have pr: "q \<in> dom h1" "fst ` set xs \<subseteq> dom h1" using Cons.prems dm by auto
  from Cons.IH [OF ag pr, of "if g then res @ [p] else res"] obtain h' where
    "fold_opt (observed_step who g q arg) xs (h1, if g then res @ [p] else res)
      = Some (h', (if g then res @ [p] else res) @ (if g then notices who arg h xs else []))"
    "agree s X h'" "skeleton h' = skeleton h"
    "\<forall>a b. sees h' a b = (if b = q then net xs a (sees h1 a b) else sees h1 a b)" unfolding n sk by blast
  then show ?case using st x 3
    by (intro exI [of _ h']) (auto simp: notices_def p_def se)
qed

lemma observed_fold_fails:
  "(q, k) \<in> set xs \<Longrightarrow> q \<notin> dom h \<Longrightarrow> fold_opt (observed_step who g r arg) xs (h, res) = None"
proof (induction xs arbitrary: h res)
  case (Cons x xs)
  obtain r' k' where x: "x = (r', k')" by (cases x)
  show ?case
  proof (cases "h r'")
    case None then show ?thesis using x by (simp add: observed_step_def)
  next
    case (Some e)
    with Cons.prems x have "(q, k) \<in> set xs" by auto
    with Cons.IH Cons.prems(2) Some x show ?thesis by (cases k') (simp_all add: observed_step_simps del: domIff)
  qed
qed simp

text \<open>What no step changes once an entry is there, but for its marks and its eyes.\<close>

definition body :: "bullet_heap \<Rightarrow> eptr \<Rightarrow> (addr \<times> nat option \<times> bool \<times> nat option \<times> bool) option" where
  "body h = (\<lambda>a. map_option (\<lambda>b. (bl_entity b, bl_view b, bl_viewShape b, bl_visibility b, bl_marked b)) (h a))"

lemma body_skeleton: "skeleton h' = skeleton h \<Longrightarrow> body h' = body h"
proof
  fix a assume sk: "skeleton h' = skeleton h"
  show "body h' a = body h a"
  proof (cases "h a")
    case None then show ?thesis using sk skeleton_None by (metis (no_types) body_def option.map(1))
  next
    case (Some e) from skeleton_get [OF sk Some] Some show ?thesis by (auto simp: body_def core_def)
  qed
qed

lemma body_grows: "heap_grows h h' \<Longrightarrow> body h' = body h"
proof
  fix a assume g: "heap_grows h h'"
  show "body h' a = body h a"
  proof (cases "h a")
    case None
    then have "h' a = None" using grows_dom [OF g] by (metis domIff)
    then show ?thesis using None by (simp add: body_def)
  next
    case (Some e) then show ?thesis by (rule growsD [OF g]) (simp add: body_def Some)
  qed
qed

lemma body_update: "(\<And>e. h q = Some e \<Longrightarrow> bl_entity (f e) = bl_entity e \<and> bl_view (f e) = bl_view e
    \<and> bl_viewShape (f e) = bl_viewShape e \<and> bl_visibility (f e) = bl_visibility e \<and> bl_marked (f e) = bl_marked e)
  \<Longrightarrow> body (update_entry q f h) = body h"
  by (auto simp: body_def update_entry_apply fun_eq_iff split: option.splits) (cases "h q"; simp)+

lemma body_dom: "body h' = body h \<Longrightarrow> dom h' = dom h"
  by (metis (mono_tags, lifting) body_def domIff option.map_disc_iff subsetI subset_antisym)

section \<open>Bringing an entry up to date\<close>

lemma agree_change_refs: "agree s X h \<Longrightarrow> h q = Some b \<Longrightarrow> s \<Longrightarrow> change_refs b \<subseteq> dom h"
  by (auto simp: agree_def dest: tidyD)

definition told :: "(addr \<Rightarrow> i64 \<times> i64) \<Rightarrow> bullet_heap \<Rightarrow> bullet \<Rightarrow> (eptr \<times> change) list \<Rightarrow> oper list" where
  "told who h b xs =
     batch Appearance (name_of who (bl_entity b)) (map (\<lambda>r. about who (entity_at h r)) (changed Add xs))
     @ batch Disappearance (name_of who (bl_entity b)) (map (\<lambda>r. about who (entity_at h r)) (changed Remove xs))"

lemma observer_update:
  assumes "agree s X h" "h q = Some b" "bl_view b \<noteq> None" "engine calls h = Some h1" "heap_grows h h1" "agree s X h1"
    and alive: "\<And>c. h1 q = Some c \<Longrightarrow> fst ` set (bl_observedByThisChanges c) \<subseteq> dom h1"
  obtains h' c b' ys where "updateObserverEntry who calls q h = Some (h', told who h1 b (bl_observedByThisChanges c))"
    "h1 q = Some c" "bl_observedByThisChanges c = bl_observedByThisChanges b @ ys"
    "\<And>a r. sees h' a r = (if a = q then net (bl_observedByThisChanges c) r (sees h1 a r) else sees h1 a r)"
    "body h' = body h" "agree s (X - {q} \<times> set (changed Add (bl_observedByThisChanges c))) h'"
    "h' q = Some b'" "bl_observedByThisChanges b' = []"
proof -
  from growsD [OF assms(5,2)] obtain xs ys where b1: "h1 q = Some (add_changes xs ys b)" by metis
  let ?xs = "bl_observedByThisChanges b @ xs"
  have "fst ` set ?xs \<subseteq> dom h1" using alive [OF b1] by simp
  from observer_fold [OF assms(6) _ this, of q who "[]" "[]"] b1 obtain h2 where
    h2: "fold_opt (observer_step who q) ?xs (h1, [], [])
        = Some (h2, map (\<lambda>r. about who (entity_at h1 r)) (changed Add ?xs),
                map (\<lambda>r. about who (entity_at h1 r)) (changed Remove ?xs))"
      "agree s (X - {q} \<times> set (changed Add ?xs)) h2" "skeleton h2 = skeleton h1"
      "\<forall>a b. sees h2 a b = (if a = q then net ?xs b (sees h1 a b) else sees h1 a b)" by auto
  let ?h = "update_entry q (\<lambda>b. b\<lparr>bl_observedByThisChanges := []\<rparr>) h2"
  from skeleton_get [OF h2(3) b1] obtain b2 where b2: "h2 q = Some b2" by auto
  have "updateObserverEntry who calls q h = Some (?h,
        told who h1 b ?xs)"
    using assms(2-4) b1 h2(1) by (auto simp: updateObserverEntry_def told_def)
  moreover have "sees ?h a r = sees h2 a r" for a r
    by (auto simp: sees_def update_entry_apply split: option.splits)
  moreover have "agree s (X - {q} \<times> set (changed Add ?xs)) ?h"
    using h2(2) b2 agree_change_refs [OF h2(2) b2] by (intro agree_update) (auto simp: change_refs_def)
  moreover have "body ?h = body h"
    using body_update [of h2 q "\<lambda>b. b\<lparr>bl_observedByThisChanges := []\<rparr>"] body_skeleton [OF h2(3)] body_grows [OF assms(5)] by simp
  moreover have "?h q = Some (b2\<lparr>bl_observedByThisChanges := []\<rparr>)" using b2 by (simp add: update_entry_apply)
  ultimately show thesis using h2(4) b1
    by (intro that [where h' = ?h and c = "add_changes xs ys b" and ys = xs
          and b' = "b2\<lparr>bl_observedByThisChanges := []\<rparr>"]) simp_all
qed

lemma observed_update:
  assumes "agree s X h" "h q = Some b" "bl_visibility b \<noteq> None" "engine calls h = Some h1" "heap_grows h h1" "agree s X h1"
    and alive: "\<And>c. h1 q = Some c \<Longrightarrow> fst ` set (bl_observingThisChanges c) \<subseteq> dom h1"
  shows "\<exists>h' xs. updateObservedEntry who g calls q h = Some (h', if g then notices who (about who (bl_entity b)) h1 xs else [])
      \<and> (\<exists>b1. h1 q = Some b1 \<and> xs = bl_observingThisChanges b1)
      \<and> (\<forall>a r. sees h' a r = (if r = q then net xs a (sees h1 a r) else sees h1 a r))
      \<and> body h' = body h \<and> agree s X h'"
proof -
  from growsD [OF assms(5,2)] obtain xs ys where b1: "h1 q = Some (add_changes xs ys b)" by metis
  let ?xs = "bl_observingThisChanges b @ ys"
  have "fst ` set ?xs \<subseteq> dom h1" using alive [OF b1] by simp
  from observed_fold [OF assms(6) _ this, of q who g "about who (bl_entity b)" "[]"] b1 obtain h2 where
    h2: "fold_opt (observed_step who g q (about who (bl_entity b))) ?xs (h1, [])
        = Some (h2, if g then notices who (about who (bl_entity b)) h1 ?xs else [])"
      "agree s X h2" "skeleton h2 = skeleton h1"
      "\<forall>a b. sees h2 a b = (if b = q then net ?xs a (sees h1 a b) else sees h1 a b)" by auto
  let ?h = "update_entry q (\<lambda>b. b\<lparr>bl_observingThisChanges := []\<rparr>) h2"
  have "updateObservedEntry who g calls q h = Some (?h, if g then notices who (about who (bl_entity b)) h1 ?xs else [])"
    using assms(2-4) b1 h2(1) by (auto simp: updateObservedEntry_def)
  moreover have "sees ?h a r = sees h2 a r" for a r
    by (auto simp: sees_def update_entry_apply split: option.splits)
  moreover have "agree s X ?h"
    using h2(2) agree_change_refs [OF h2(2)] by (intro agree_update) (auto simp: change_refs_def)
  moreover have "body ?h = body h"
    using body_update [of h2 q "\<lambda>b. b\<lparr>bl_observingThisChanges := []\<rparr>"] body_skeleton [OF h2(3)] body_grows [OF assms(5)] by simp
  ultimately show ?thesis using h2(4) b1 by (intro exI [of _ ?h] exI [of _ ?xs]) simp
qed

text \<open>Both updates keep the agreement, whatever the engine reports, and succeed as long as no change is about a freed entry.\<close>

lemma updateObserverEntry_fine:
  assumes "agree s X h" "q \<in> dom h" "s \<Longrightarrow> live_calls calls h"
  shows "fine s (\<lambda>(h', res). body h' = body h \<and> agree s X h') (updateObserverEntry who calls q h)"
proof -
  from assms(2) obtain b where b: "h q = Some b" by auto
  show ?thesis
  proof (cases "bl_view b = None \<or> engine calls h = None")
    case True then show ?thesis using b assms(1) fine_engine [OF assms(1,3)] by (auto simp: updateObserverEntry_def)
  next
    case False
    then obtain h1 where h1: "engine calls h = Some h1" "bl_view b \<noteq> None" by auto
    from engine_keeps [OF h1(1) assms(3,1)] have g: "heap_grows h h1" "agree s X h1" by auto
    from growsD [OF g(1) b] obtain c where c: "h1 q = Some c" by metis
    show ?thesis
    proof (cases "fst ` set (bl_observedByThisChanges c) \<subseteq> dom h1")
      case True
      show ?thesis using c True
        by (rule_tac observer_update [OF assms(1) b h1(2,1) g, of who])
          (auto intro: agree_mono [OF _ Diff_subset])
    next
      case False
      then obtain r k where rk: "(r, k) \<in> set (bl_observedByThisChanges c)" "r \<notin> dom h1" by (metis image_subset_iff prod.collapse)
      from observer_fold_fails [OF rk] have "updateObserverEntry who calls q h = None"
        using b h1 c by (simp add: updateObserverEntry_def)
      moreover have "\<not> s" using agree_change_refs [OF g(2) c] False by (auto simp: change_refs_def)
      ultimately show ?thesis by simp
    qed
  qed
qed

lemma updateObservedEntry_fine:
  assumes "agree s X h" "q \<in> dom h" "s \<Longrightarrow> live_calls calls h"
  shows "fine s (\<lambda>(h', res). body h' = body h \<and> agree s X h') (updateObservedEntry who g calls q h)"
proof -
  from assms(2) obtain b where b: "h q = Some b" by auto
  show ?thesis
  proof (cases "bl_visibility b = None \<or> engine calls h = None")
    case True then show ?thesis using b assms(1) fine_engine [OF assms(1,3)] by (auto simp: updateObservedEntry_def)
  next
    case False
    then obtain h1 where h1: "engine calls h = Some h1" "bl_visibility b \<noteq> None" by auto
    from engine_keeps [OF h1(1) assms(3,1)] have g: "heap_grows h h1" "agree s X h1" by auto
    from growsD [OF g(1) b] obtain c where c: "h1 q = Some c" by metis
    show ?thesis
    proof (cases "fst ` set (bl_observingThisChanges c) \<subseteq> dom h1")
      case True
      then have al: "fst ` set (bl_observingThisChanges c') \<subseteq> dom h1" if "h1 q = Some c'" for c' using c that by simp
      from observed_update [OF assms(1) b h1(2,1) g al, of who g] show ?thesis by auto
    next
      case False
      then obtain r k where rk: "(r, k) \<in> set (bl_observingThisChanges c)" "r \<notin> dom h1" by (metis image_subset_iff prod.collapse)
      from observed_fold_fails [OF rk] have "updateObservedEntry who g calls q h = None"
        using b h1 c by (simp add: updateObservedEntry_def)
      moreover have "\<not> s" using agree_change_refs [OF g(2) c] False by (auto simp: change_refs_def)
      ultimately show ?thesis by simp
    qed
  qed
qed

section \<open>A child that leaves\<close>

lemma each_entry_all:
  "distinct l \<Longrightarrow> set l \<subseteq> dom h \<Longrightarrow> each_entry f l h = Some (\<lambda>r. if r \<in> set l then map_option f (h r) else h r)"
proof (induction l arbitrary: h)
  case Nil then show ?case by (simp add: each_entry_def)
next
  case (Cons r l)
  from Cons.prems obtain b where b: "h r = Some b" by auto
  have d: "distinct l" "set l \<subseteq> dom (h(r := Some (f b)))" using Cons.prems by auto
  have "each_entry f (r # l) h = each_entry f l (h(r := Some (f b)))" using b by (simp add: each_entry_def)
  also have "\<dots> = Some (\<lambda>s. if s \<in> set l then map_option f ((h(r := Some (f b))) s) else (h(r := Some (f b))) s)"
    by (rule Cons.IH [OF d])
  also have "(\<lambda>s. if s \<in> set l then map_option f ((h(r := Some (f b))) s) else (h(r := Some (f b))) s)
    = (\<lambda>s. if s \<in> set (r # l) then map_option f (h s) else h s)" using Cons.prems(1) b by (auto simp: fun_eq_iff)
  finally show ?case .
qed

text \<open>All pairs that an entry is part of.\<close>

definition around :: "eptr \<Rightarrow> (eptr \<times> eptr) set" where
  "around c = {(a, b). a = c \<or> b = c}"

lemma around_iff [simp]: "(a, b) \<in> around c \<longleftrightarrow> a = c \<or> b = c"
  by (simp add: around_def)

text \<open>Whatever is done to the two sets of an entry that is exempt, and of others as far as it is concerned.\<close>

lemma agree_exempt:
  assumes "agree s (around c) h"
    and "\<And>e. h q = Some e \<Longrightarrow> distinct (bl_observedByThis (f e)) \<and> distinct (bl_observingThis (f e)) \<and> change_refs (f e) = change_refs e
      \<and> (q \<noteq> c \<longrightarrow> set (bl_observedByThis (f e)) - {c} = set (bl_observedByThis e) - {c}
          \<and> set (bl_observingThis (f e)) - {c} = set (bl_observingThis e) - {c})"
  shows "agree s (around c) (update_entry q f h)"
proof -
  have t: "tidy s h" using assms(1) by (simp add: agree_def)
  have "tidy s (update_entry q f h)" using assms(2) tidyD [OF t] by (intro tidy_update [OF t]) auto
  moreover have "sees (update_entry q f h) a b = seen (update_entry q f h) a b" if "a \<noteq> c" "b \<noteq> c" for a b
  proof -
    have "sees (update_entry q f h) a b = sees h a b"
    proof (cases "a = q \<and> a \<in> dom h")
      case True
      then obtain e where e: "h q = Some e" by auto
      have "set (bl_observedByThis (f e)) - {c} = set (bl_observedByThis e) - {c}" using assms(2) [OF e] True that by simp
      with e True that show ?thesis by (auto simp: sees_def update_entry_apply)
    qed (auto simp: sees_def update_entry_apply domIff)
    moreover have "seen (update_entry q f h) a b = seen h a b"
    proof (cases "b = q \<and> b \<in> dom h")
      case True
      then obtain e where e: "h q = Some e" by auto
      have "set (bl_observingThis (f e)) - {c} = set (bl_observingThis e) - {c}" using assms(2) [OF e] True that by simp
      with e True that show ?thesis by (auto simp: seen_def update_entry_apply)
    qed (auto simp: seen_def update_entry_apply domIff)
    ultimately show ?thesis using agree_pair [OF assms(1), of a b] that by simp
  qed
  ultimately show ?thesis by (simp add: agree_def)
qed

text \<open>A child's two sets have only living entries in them.\<close>

lemma agree_lists_alive:
  assumes "agree s (around c) h" "c \<in> dom h" "h q = Some b" "q \<noteq> c"
  shows "set (bl_observedByThis b) \<subseteq> dom h" "set (bl_observingThis b) \<subseteq> dom h"
proof -
  have "r \<in> dom h" if "r \<in> set (bl_observedByThis b)" for r
  proof (cases "r = c")
    case True with assms(2) show ?thesis by simp
  next
    case False
    then have "seen h q r" using agree_pair [OF assms(1), of q r] assms(3,4) that by (simp add: sees_def)
    then show ?thesis by (rule seen_dom)
  qed
  moreover have "r \<in> dom h" if "r \<in> set (bl_observingThis b)" for r
  proof (cases "r = c")
    case True with assms(2) show ?thesis by simp
  next
    case False
    then have "sees h r q" using agree_pair [OF assms(1), of r q] assms(3,4) that by (simp add: seen_def)
    then show ?thesis by (rule sees_dom)
  qed
  ultimately show "set (bl_observedByThis b) \<subseteq> dom h" "set (bl_observingThis b) \<subseteq> dom h" by blast+
qed

lemma agree_removed:
  assumes "agree s (around c) h" "h q = Some b" "q \<noteq> c"
    and free: "\<And>a e. s \<Longrightarrow> h a = Some e \<Longrightarrow> a \<noteq> q \<Longrightarrow> q \<notin> change_refs e"
    and h2: "h2 = (\<lambda>r. if r \<in> set (bl_observingThis b) then map_option (forget_observed q) (h r) else h r)"
    and b2: "h2 q = Some b2"
    and h3: "h3 = (\<lambda>r. if r \<in> set (bl_observedByThis b2) then map_option (forget_observing q) (h2 r) else h2 r)"
    and h4: "h4 = update_entry c (forget_observing q) h3"
  shows "agree s (around c) (h4(q := None)) \<and> dom (h4(q := None)) = dom h - {q}"
proof -
  have t: "tidy s h" and eq: "\<And>a b. a \<noteq> c \<Longrightarrow> b \<noteq> c \<Longrightarrow> sees h a b = seen h a b" using assms(1) by (auto simp: agree_def)
  have d: "distinct (bl_observedByThis e)" "distinct (bl_observingThis e)" "s \<Longrightarrow> change_refs e \<subseteq> dom h" if "h a = Some e" for a e
    using tidyD [OF t that] by auto
  have s2: "sees h2 a r \<longleftrightarrow> sees h a r \<and> r \<noteq> q" if "a \<noteq> c" for a r
  proof -
    have "sees h a q \<longleftrightarrow> a \<in> set (bl_observingThis b)" using eq [OF that assms(3)] assms(2) by (simp add: seen_def)
    then show ?thesis using d unfolding h2 sees_def by (auto simp: forget_observed_def split: option.splits)
  qed
  have n2: "seen h2 a r = seen h a r" for a r
    unfolding h2 seen_def by (auto simp: forget_observed_def split: option.splits)
  have o2: "r \<in> set (bl_observedByThis b2) \<longleftrightarrow> sees h q r \<and> r \<noteq> q" for r
    using s2 [OF assms(3), of r] b2 by (simp add: sees_def)
  have s3: "sees h3 a r = sees h2 a r" for a r
    unfolding h3 sees_def by (auto simp: forget_observing_def split: option.splits)
  have d2: "distinct (bl_observingThis e)" if "h2 a = Some e" for a e
    using that d unfolding h2 by (auto simp: forget_observed_def split: if_splits)
  have n3: "seen h3 a r \<longleftrightarrow> seen h a r \<and> (a = q \<longrightarrow> r = q)" if "r \<noteq> c" for a r
  proof -
    have "seen h3 a r \<longleftrightarrow> seen h2 a r \<and> \<not> (a = q \<and> r \<in> set (bl_observedByThis b2))"
      unfolding h3 seen_def using d2 by (auto simp: forget_observing_def split: option.splits)
    then show ?thesis using n2 o2 eq [OF assms(3) that] by blast
  qed
  let ?h = "h4(q := None)"
  have s5: "sees ?h a r \<longleftrightarrow> sees h a r \<and> r \<noteq> q \<and> a \<noteq> q" if "a \<noteq> c" for a r
  proof -
    have "sees h4 a r = sees h3 a r" unfolding h4 sees_def
      by (auto simp: update_entry_apply forget_observing_def split: option.splits)
    then show ?thesis using s3 s2 [OF that] by (auto simp: sees_def)
  qed
  have n5: "seen ?h a r \<longleftrightarrow> seen h a r \<and> a \<noteq> q \<and> r \<noteq> q" if "r \<noteq> c" for a r
  proof -
    have "seen h4 a r = seen h3 a r" unfolding h4 seen_def using that by (simp add: update_entry_apply)
    then show ?thesis using n3 [OF that] by (auto simp: seen_def)
  qed
  have dm: "dom ?h = dom h - {q}" unfolding h4 h3 h2 by (auto simp: update_entry_apply split: if_splits)
  have pe: "\<exists>e0. h a = Some e0 \<and> change_refs e = change_refs e0 \<and> distinct (bl_observedByThis e) \<and> distinct (bl_observingThis e)"
    if "h4 a = Some e" for a e
    using that d unfolding h4 h3 h2
    by (auto simp: update_entry_apply forget_observing_def forget_observed_def split: if_splits)
  have "tidy s ?h" unfolding tidy_def dm
  proof (intro allI impI)
    fix a e assume "?h a = Some e"
    then have a: "h4 a = Some e" "a \<noteq> q" by (auto split: if_splits)
    from pe [OF a(1)] obtain e0 where "h a = Some e0" "change_refs e = change_refs e0" "distinct (bl_observedByThis e)"
      "distinct (bl_observingThis e)" by auto
    with free [of a e0] a(2) d(3) [of a e0]
    show "distinct (bl_observedByThis e) \<and> distinct (bl_observingThis e) \<and> (s \<longrightarrow> change_refs e \<subseteq> dom h - {q})" by auto
  qed
  then show ?thesis using s5 n5 eq dm by (auto simp: agree_def)
qed

end
