(* ===== verification/Physical_Properties.thy ===== *)
theory Physical_Properties
  imports Physical_Guarantees
begin

text \<open>
  The steps of a physical domain as far as perception goes, the invariant that they keep, and where the code fails to
  keep it: when a domain whose own entity is perceptive loses a child, and when a child becomes perceptive.
\<close>

section \<open>The invariant\<close>

definition marked :: "bullet_heap \<Rightarrow> eptr set" where
  "marked h = {q. \<exists>e. h q = Some e \<and> bl_marked e}"

definition physical_ok :: "physical \<Rightarrow> bool" where
  "physical_ok d \<longleftrightarrow> agree True {} (ph_heap d) \<and> ph_containing d \<in> dom (ph_heap d)
     \<and> snd ` set (ph_entries d) \<subseteq> dom (ph_heap d) \<and> distinct (map snd (ph_entries d)) \<and> smap_ok (ph_entries d)
     \<and> distinct (ph_queue d) \<and> set (ph_queue d) = marked (ph_heap d)"

lemma marked_dom: "marked h \<subseteq> dom h"
  by (auto simp: marked_def)

lemma marked_body: "body h' = body h \<Longrightarrow> marked h' = marked h"
proof -
  assume b: "body h' = body h"
  have "q \<in> marked h \<longleftrightarrow> (\<exists>a v s w. body h q = Some (a, v, s, w, True))" for h q
    by (auto simp: marked_def body_def)
  with b show ?thesis by auto
qed

lemma marked_update: "(\<And>e. h q = Some e \<Longrightarrow> bl_marked (f e) = bl_marked e) \<Longrightarrow> marked (update_entry q f h) = marked h"
  by (auto simp: marked_def update_entry_apply split: if_splits)

text \<open>
  The invariant of every domain: all children agree with each other; what the containing entity itself sees and who sees
  it is left out, since the code does not keep it. \<open>s\<close> is as in \<open>agree\<close>.
\<close>

definition physical_fit :: "bool \<Rightarrow> physical \<Rightarrow> bool" where
  "physical_fit s d \<longleftrightarrow> agree s (around (ph_containing d)) (ph_heap d) \<and> ph_containing d \<in> dom (ph_heap d)
     \<and> snd ` set (ph_entries d) \<subseteq> dom (ph_heap d) \<and> distinct (map snd (ph_entries d)) \<and> smap_ok (ph_entries d)
     \<and> distinct (ph_queue d) \<and> set (ph_queue d) = marked (ph_heap d)"

lemma physical_ok_fit: "physical_ok d \<Longrightarrow> physical_fit s d"
  by (auto simp: physical_ok_def physical_fit_def agree_def tidy_def)

text \<open>The part of it that is about the heap, with the entries and the marks that the heap has.\<close>

definition in_order :: "bool \<Rightarrow> eptr \<Rightarrow> eptr set \<Rightarrow> eptr set \<Rightarrow> bullet_heap \<Rightarrow> bool" where
  "in_order s c D M h \<longleftrightarrow> agree s (around c) h \<and> dom h = D \<and> marked h = M"

lemma physical_fit_in_order: "physical_fit s d \<Longrightarrow> in_order s (ph_containing d) (dom (ph_heap d)) (marked (ph_heap d)) (ph_heap d)"
  by (simp add: physical_fit_def in_order_def)

lemma physical_fit_heap:
  "physical_fit s d \<Longrightarrow> in_order s (ph_containing d) (dom (ph_heap d)) (marked (ph_heap d)) h \<Longrightarrow> physical_fit s (d\<lparr>ph_heap := h\<rparr>)"
  by (simp add: physical_fit_def in_order_def)

lemma in_order_live: "in_order s c D M h \<Longrightarrow> dom h0 = D \<Longrightarrow> live_calls calls h0 \<Longrightarrow> live_calls calls h"
  using live_calls_dom [of calls h0 h] by (simp add: in_order_def)

lemma in_order_body: "in_order s c D M h \<Longrightarrow> body h' = body h \<Longrightarrow> agree s (around c) h' \<Longrightarrow> in_order s c D M h'"
  using body_dom [of h' h] marked_body [of h' h] by (simp add: in_order_def)

lemma in_order_engine:
  assumes "in_order s c D M h" "s \<Longrightarrow> live_calls calls h0" "dom h0 = D"
  shows "fine s (in_order s c D M) (engine calls h)"
proof -
  have "agree s (around c) h" using assms(1) by (simp add: in_order_def)
  from fine_engine [OF this, of calls] in_order_live [OF assms(1,3)] assms(2)
  have "fine s (\<lambda>h'. heap_grows h h' \<and> agree s (around c) h') (engine calls h)" by blast
  then show ?thesis by (cases "engine calls h") (auto intro: in_order_body [OF assms(1)] body_grows)
qed

lemma in_order_observer:
  assumes "in_order s c D M h" "q \<in> D" "s \<Longrightarrow> live_calls calls h0" "dom h0 = D"
  shows "fine s (\<lambda>(h', res). in_order s c D M h') (updateObserverEntry who calls q h)"
proof -
  have "agree s (around c) h" "q \<in> dom h" using assms(1,2) by (simp_all add: in_order_def)
  from updateObserverEntry_fine [OF this, of calls who] in_order_live [OF assms(1,4)] assms(3)
  have "fine s (\<lambda>(h', res). body h' = body h \<and> agree s (around c) h') (updateObserverEntry who calls q h)" by blast
  then show ?thesis by (cases "updateObserverEntry who calls q h") (auto intro: in_order_body [OF assms(1)])
qed

lemma in_order_observed:
  assumes "in_order s c D M h" "q \<in> D" "s \<Longrightarrow> live_calls calls h0" "dom h0 = D"
  shows "fine s (\<lambda>(h', res). in_order s c D M h') (updateObservedEntry who g calls q h)"
proof -
  have "agree s (around c) h" "q \<in> dom h" using assms(1,2) by (simp_all add: in_order_def)
  from updateObservedEntry_fine [OF this, of calls who g] in_order_live [OF assms(1,4)] assms(3)
  have "fine s (\<lambda>(h', res). body h' = body h \<and> agree s (around c) h') (updateObservedEntry who g calls q h)" by blast
  then show ?thesis by (cases "updateObservedEntry who g calls q h") (auto intro: in_order_body [OF assms(1)])
qed

text \<open>Updates of single entries.\<close>

lemma in_order_update:
  assumes "in_order s c D M h"
    and "\<And>e. h q = Some e \<Longrightarrow> bl_observedByThis (f e) = bl_observedByThis e \<and> bl_observingThis (f e) = bl_observingThis e
      \<and> (s \<longrightarrow> change_refs (f e) \<subseteq> D) \<and> bl_marked (f e) = bl_marked e"
  shows "in_order s c D M (update_entry q f h)"
  using assms by (auto simp: in_order_def marked_update intro!: agree_update)

lemma in_order_exempt:
  assumes "in_order s c D M h"
    and "\<And>e. h q = Some e \<Longrightarrow> distinct (bl_observedByThis e) \<and> distinct (bl_observingThis e) \<Longrightarrow>
      distinct (bl_observedByThis (f e)) \<and> distinct (bl_observingThis (f e)) \<and> change_refs (f e) = change_refs e
      \<and> bl_marked (f e) = bl_marked e
      \<and> (q \<noteq> c \<longrightarrow> set (bl_observedByThis (f e)) - {c} = set (bl_observedByThis e) - {c}
          \<and> set (bl_observingThis (f e)) - {c} = set (bl_observingThis e) - {c})"
  shows "in_order s c D M (update_entry q f h)"
proof -
  have a: "agree s (around c) h" using assms(1) by (simp add: in_order_def)
  then have "tidy s h" by (simp add: agree_def)
  then have f: "distinct (bl_observedByThis (f e)) \<and> distinct (bl_observingThis (f e)) \<and> change_refs (f e) = change_refs e
      \<and> bl_marked (f e) = bl_marked e
      \<and> (q \<noteq> c \<longrightarrow> set (bl_observedByThis (f e)) - {c} = set (bl_observedByThis e) - {c}
          \<and> set (bl_observingThis (f e)) - {c} = set (bl_observingThis e) - {c})" if "h q = Some e" for e
    using assms(2) [OF that] tidyD [of s h q e] that \<open>tidy s h\<close> by blast
  then have "agree s (around c) (update_entry q f h)" by (intro agree_exempt [OF a]) blast
  then show ?thesis using assms(1) f by (simp add: in_order_def marked_update)
qed

lemma agree_itself: "agree s X h \<Longrightarrow> agree s X (observes_itself q h)"
proof -
  assume a: "agree s X h"
  then have "tidy s (observes_itself q h)" unfolding observes_itself_def
    by (intro tidy_update) (auto simp: agree_def distinct_set_insert dest: tidyD)
  moreover have "sees (observes_itself q h) x y \<longleftrightarrow> sees h x y \<or> (x = q \<and> y = q \<and> q \<in> dom h)"
    "seen (observes_itself q h) x y \<longleftrightarrow> seen h x y \<or> (x = q \<and> y = q \<and> q \<in> dom h)" for x y
    by (auto simp: sees_def seen_def observes_itself_def update_entry_apply split: option.splits)
  ultimately show ?thesis using a by (auto simp: agree_def)
qed

lemma in_order_itself: "in_order s c D M h \<Longrightarrow> in_order s c D M (observes_itself q h)"
  using agree_itself [of s "around c" h q] by (simp add: in_order_def observes_itself_def marked_update)

section \<open>Bringing the queue up to date\<close>

lemma dirty_step_fine:
  assumes "in_order s c D M h" "q \<in> D" "s \<Longrightarrow> live_calls (fst (calls q)) h0 \<and> live_calls (snd (calls q)) h0" "dom h0 = D"
  shows "fine s (\<lambda>(h', r). in_order s c D (M - {q}) h') (dirty_step who calls q (h, res))"
proof (cases "updateObservedEntry who True (fst (calls q)) q h")
  case None
  with in_order_observed [OF assms(1,2) _ assms(4), of "fst (calls q)" who True] assms(3) show ?thesis
    by (simp add: dirty_step_def)
next
  case (Some x)
  obtain h1 r1 where x: "x = (h1, r1)" by (cases x)
  with in_order_observed [OF assms(1,2) _ assms(4), of "fst (calls q)" who True] assms(3) Some have
    1: "in_order s c D M h1" by simp
  have 2: "fine s (\<lambda>(h', res). in_order s c D M h') (updateObserverEntry who (snd (calls q)) q h1)"
    using assms(3) by (intro in_order_observer [OF 1 assms(2) _ assms(4)]) simp
  show ?thesis
  proof (cases "updateObserverEntry who (snd (calls q)) q h1")
    case None with 2 Some x show ?thesis by (simp add: dirty_step_def)
  next
    case (Some y)
    obtain h2 r2 where y: "y = (h2, r2)" by (cases y)
    from 2 Some y have s2: "in_order s c D M h2" by simp
    let ?h = "update_entry q (\<lambda>b. b\<lparr>bl_marked := False\<rparr>) h2"
    have a: "agree s (around c) h2" using s2 by (simp add: in_order_def)
    then have "agree s (around c) ?h" using agree_change_refs [OF a] by (intro agree_update) auto
    moreover have "marked ?h = marked h2 - {q}" by (auto simp: marked_def update_entry_apply split: if_splits)
    ultimately have "in_order s c D (M - {q}) ?h" using s2 by (simp add: in_order_def)
    then show ?thesis using Some \<open>updateObservedEntry who True (fst (calls q)) q h = Some x\<close> x y
      by (simp add: dirty_step_def)
  qed
qed

lemma dirty_fold_fine:
  assumes "in_order s c D M h" "set qs \<subseteq> D" "dom h0 = D"
    and "\<And>q. s \<Longrightarrow> q \<in> set qs \<Longrightarrow> live_calls (fst (calls q)) h0 \<and> live_calls (snd (calls q)) h0"
  shows "fine s (\<lambda>(h', r). in_order s c D (M - set qs) h') (fold_opt (dirty_step who calls) qs (h, res))"
  using assms
proof (induction qs arbitrary: M h res)
  case Nil then show ?case by simp
next
  case (Cons q qs)
  have 1: "fine s (\<lambda>(h', r). in_order s c D (M - {q}) h') (dirty_step who calls q (h, res))"
    using Cons.prems by (intro dirty_step_fine [OF Cons.prems(1) _ _ Cons.prems(3)]) auto
  show ?case
  proof (cases "dirty_step who calls q (h, res)")
    case None with 1 show ?thesis by simp
  next
    case (Some x)
    obtain h1 r1 where x: "x = (h1, r1)" by (cases x)
    have s1: "in_order s c D (M - {q}) h1" using 1 Some x by simp
    have "M - {q} - set qs = M - set (q # qs)" by auto
    then show ?thesis using Cons.IH [OF s1 _ Cons.prems(3), of r1] Cons.prems(2,4) Some x by simp
  qed
qed

text \<open>The calls of the engine are on living entries.\<close>

definition honest :: "(eptr \<Rightarrow> engine_calls \<times> engine_calls) \<Rightarrow> physical \<Rightarrow> bool" where
  "honest calls d \<longleftrightarrow> (\<forall>q \<in> set (take visibility_check_max_entries (ph_queue d)).
     live_calls (fst (calls q)) (ph_heap d) \<and> live_calls (snd (calls q)) (ph_heap d))"

lemma set_drop_rest:
  assumes "distinct l" shows "set (drop n l) = set l - set (take n l)"
proof -
  have "set l = set (take n l) \<union> set (drop n l)" by (metis append_take_drop_id set_append)
  moreover have "set (take n l) \<inter> set (drop n l) = {}" using assms by (metis append_take_drop_id distinct_append)
  ultimately show ?thesis by blast
qed

lemma update_queue_fine:
  assumes "physical_fit s d" "s \<Longrightarrow> honest calls d"
  shows "fine s (\<lambda>(d', res). physical_fit s d' \<and> ph_queue d' = drop visibility_check_max_entries (ph_queue d))
    (updateVisibilityOfDirtyEntities who calls d)"
proof -
  let ?qs = "take visibility_check_max_entries (ph_queue d)" and ?c = "ph_containing d" and ?D = "dom (ph_heap d)"
  have ok: "distinct (ph_queue d)" "set (ph_queue d) = marked (ph_heap d)"
    using assms(1) by (simp_all add: physical_fit_def)
  have q: "set ?qs \<subseteq> ?D"
    using set_take_subset [of visibility_check_max_entries "ph_queue d"] ok(2) marked_dom [of "ph_heap d"] by blast
  have f: "fine s (\<lambda>(h', r). in_order s ?c ?D (marked (ph_heap d) - set ?qs) h')
      (fold_opt (dirty_step who calls) ?qs (ph_heap d, []))"
    using assms(2) by (intro dirty_fold_fine [OF physical_fit_in_order [OF assms(1)] q refl]) (simp add: honest_def)
  have "set (drop visibility_check_max_entries (ph_queue d)) = set (ph_queue d) - set ?qs" by (rule set_drop_rest [OF ok(1)])
  then show ?thesis using assms(1) ok f
    by (cases "fold_opt (dirty_step who calls) ?qs (ph_heap d, [])")
      (auto simp: updateVisibilityOfDirtyEntities_def physical_fit_def in_order_def)
qed

section \<open>A child that arrives\<close>

lemma set_smap_emplace: "set (smap_emplace k v m) \<subseteq> insert (k, v) (set m)"
  by (induction k v m rule: smap_emplace.induct) auto

lemma distinct_smap_emplace:
  "distinct (map snd m) \<Longrightarrow> v \<notin> snd ` set m \<Longrightarrow> distinct (map snd (smap_emplace k v m))"
proof (induction m)
  case (Cons x m)
  obtain k' v' where x: "x = (k', v')" by (cases x)
  have s: "snd ` set (smap_emplace k v m) \<subseteq> insert v (snd ` set m)" using set_smap_emplace [of k v m] by force
  have d: "distinct (map snd (smap_emplace k v m))" using Cons.IH Cons.prems x by simp
  have v: "v' \<noteq> v" "v' \<notin> snd ` set m" "v \<notin> snd ` set m" "distinct (map snd m)" using Cons.prems x by auto
  from s v have "v' \<notin> snd ` set (smap_emplace k v m)" by blast
  with d v show ?case by (simp add: x)
qed simp

lemma sees_new: "sees (h(q := Some (new_bullet a v))) x y \<longleftrightarrow> sees h x y \<and> x \<noteq> q"
  "seen (h(q := Some (new_bullet a v))) x y \<longleftrightarrow> seen h x y \<and> y \<noteq> q"
  by (auto simp: sees_def seen_def new_bullet_def)

lemma agree_new:
  assumes "agree s (around c) h" "q \<notin> dom h" "c \<in> dom h"
  shows "agree s (around c) (h(q := Some (new_bullet a v)))" (is "agree s _ ?h")
proof -
  have qc: "q \<noteq> c" using assms(2,3) by auto
  have eq: "sees h x y = seen h x y" if "x \<noteq> c" "y \<noteq> c" for x y using agree_pair [OF assms(1)] that by simp
  have n: "\<not> seen h x q" "\<not> sees h q x" for x using assms(2) seen_dom sees_dom by metis+
  then have "sees ?h x y = seen ?h x y" if "x \<noteq> c" "y \<noteq> c" for x y
    unfolding sees_new using eq [OF that] eq [OF that(1) qc] eq [OF qc that(2)] by metis
  moreover have "tidy s ?h" unfolding tidy_def
  proof (intro allI impI)
    fix x e assume x: "?h x = Some e"
    show "distinct (bl_observedByThis e) \<and> distinct (bl_observingThis e) \<and> (s \<longrightarrow> change_refs e \<subseteq> dom ?h)"
    proof (cases "x = q")
      case True with x show ?thesis by (auto simp: new_bullet_def change_refs_def)
    next
      case False
      with x have "h x = Some e" by simp
      from assms(1) have "tidy s h" by (simp add: agree_def)
      from tidyD [OF this \<open>h x = Some e\<close>] show ?thesis by auto
    qed
  qed
  ultimately show ?thesis by (simp add: agree_def)
qed

lemma in_order_new:
  assumes "in_order s c D M h" "q \<notin> D" "c \<in> D"
  shows "in_order s c (insert q D) M (h(q := Some (new_bullet a v)))"
proof -
  from assms have h: "agree s (around c) h" "q \<notin> dom h" "c \<in> dom h" by (simp_all add: in_order_def)
  have "marked (h(q := Some (new_bullet a v))) = marked h" using h(2) by (auto simp: marked_def new_bullet_def split: if_splits)
  with agree_new [OF h, of a v] assms(1) show ?thesis by (simp add: in_order_def)
qed

lemma add_view_fine:
  assumes "in_order s c D M h" "c \<in> D" "s \<Longrightarrow> live_calls calls h0" "dom h0 = D"
  shows "fine s (in_order s c D M) (add_view v c calls q h)"
proof -
  have a: "agree s (around c) h" "dom h = D" using assms(1) by (simp_all add: in_order_def)
  have 1: "in_order s c D M (update_entry q (perceptive_entry v c) h)"
  proof (rule in_order_update [OF assms(1)])
    fix e assume "h q = Some e"
    with agree_change_refs [OF a(1) this] a(2) assms(2)
    show "bl_observedByThis (perceptive_entry v c e) = bl_observedByThis e
      \<and> bl_observingThis (perceptive_entry v c e) = bl_observingThis e
      \<and> (s \<longrightarrow> change_refs (perceptive_entry v c e) \<subseteq> D) \<and> bl_marked (perceptive_entry v c e) = bl_marked e"
      by (auto simp: perceptive_entry_def change_refs_def)
  qed
  from in_order_engine [OF this assms(3,4)] show ?thesis unfolding add_view_def
    by (rule fine_map) (auto intro!: in_order_itself in_order_exempt simp: distinct_set_insert)
qed

lemma in_order_owner:
  assumes "in_order s c D M h" shows "in_order s c D M (add_owner c q h)"
  unfolding add_owner_def
  by (intro in_order_exempt) (use assms in \<open>auto simp: distinct_set_insert split: if_splits\<close>)

lemma addEntity_fine:
  assumes ok: "physical_fit s d" and q: "q \<notin> dom (ph_heap d)" and new: "\<not> smap_has (fst (who a)) (ph_entries d)"
    and live: "\<And>c. s \<Longrightarrow> c \<in> {c1, c2, c3, c4} \<Longrightarrow> live_calls c ((ph_heap d)(q := Some (new_bullet a v)))"
  shows "fine s (\<lambda>(d', res). physical_fit s d' \<and> dom (ph_heap d') = insert q (dom (ph_heap d)))
    (addEntity who p op (c1, c2, c3, c4) v w q a d)"
proof -
  let ?c = "ph_containing d" and ?h0 = "(ph_heap d)(q := Some (new_bullet a v))" and ?D = "insert q (dom (ph_heap d))"
    and ?M = "marked (ph_heap d)"
  have c: "?c \<in> dom (ph_heap d)" using ok by (simp add: physical_fit_def)
  then have cD: "?c \<in> ?D" by simp
  have d0: "dom ?h0 = ?D" by simp
  have 0: "in_order s ?c ?D ?M ?h0" by (rule in_order_new [OF physical_fit_in_order [OF ok] q c])
  have e: "physical_fit s (d\<lparr>ph_heap := h, ph_entries := smap_emplace (fst (who a)) q (ph_entries d)\<rparr>) \<and> dom h = ?D"
    if h: "in_order s ?c ?D ?M h" for h
  proof -
    have m: "set (smap_emplace (fst (who a)) q (ph_entries d)) \<subseteq> insert (fst (who a), q) (set (ph_entries d))"
      by (rule set_smap_emplace)
    have "q \<notin> snd ` set (ph_entries d)" using ok q by (auto simp: physical_fit_def)
    from distinct_smap_emplace [OF _ this] ok have "distinct (map snd (smap_emplace (fst (who a)) q (ph_entries d)))"
      by (simp add: physical_fit_def)
    moreover have "snd ` set (smap_emplace (fst (who a)) q (ph_entries d)) \<subseteq> ?D" using m ok by (fastforce simp: physical_fit_def)
    ultimately show ?thesis using ok h by (simp add: physical_fit_def in_order_def)
  qed
  have 2: "fine s (in_order s ?c ?D ?M) (if p then add_view w ?c c2 q h else Some h)" if "in_order s ?c ?D ?M h" for h
    using add_view_fine [OF that cD live d0, of c2 w q] that by auto
  have 3: "in_order s ?c ?D ?M (if op then add_owner ?c q h else h)" if "in_order s ?c ?D ?M h" for h
    using in_order_owner [OF that] that by simp
  have 4: "fine s (\<lambda>(h', res). in_order s ?c ?D ?M h') (updateObserverEntry who c3 q h)" if "in_order s ?c ?D ?M h" for h
    by (rule in_order_observer [OF that _ live d0]) simp_all
  have 5: "fine s (\<lambda>(h', res). in_order s ?c ?D ?M h') (updateObservedEntry who False c4 q h)" if "in_order s ?c ?D ?M h" for h
    by (rule in_order_observed [OF that _ live d0]) simp_all
  have 1: "fine s (in_order s ?c ?D ?M) (engine c1 ?h0)"
    by (rule in_order_engine [OF 0 live d0]) simp_all
  show ?thesis unfolding addEntity_def using new
    by (auto simp del: fun_upd_apply intro!: fine_bind [OF 1] fine_bind [OF 2] fine_bind [OF 4 [OF 3]] fine_bind [OF 5] e)
qed

section \<open>A child that begins or ceases to perceive\<close>

lemma toggle_fine:
  assumes ok: "physical_fit s d" and live: "s \<Longrightarrow> live_calls (fst calls) (ph_heap d)" "s \<Longrightarrow> live_calls (snd calls) (ph_heap d)"
  shows "fine s (\<lambda>(d', res). physical_fit s d') (toggleChildPerception who p calls w i d)"
proof (cases "smap_find i (ph_entries d)")
  case None with ok show ?thesis by (simp add: toggleChildPerception_def)
next
  case (Some q)
  let ?c = "ph_containing d" and ?D = "dom (ph_heap d)" and ?M = "marked (ph_heap d)"
  note st = physical_fit_in_order [OF ok]
  from Some have "(i, q) \<in> set (ph_entries d)" by (simp add: smap_find_def map_of_SomeD)
  then have q: "q \<in> ?D" using ok by (force simp: physical_fit_def)
  then obtain b where b: "ph_heap d q = Some b" by auto
  show ?thesis
  proof (cases p)
    case True
    let ?h0 = "update_entry ?c (\<lambda>b. b\<lparr>bl_observingThis := set_insert q (bl_observingThis b)\<rparr>) (ph_heap d)"
    have "in_order s ?c ?D ?M ?h0" by (rule in_order_exempt [OF st]) (auto simp: distinct_set_insert)
    from in_order_engine [OF this live(1) refl] have 1: "fine s (in_order s ?c ?D ?M) (engine (fst calls) ?h0)" by simp
    have 2: "fine s (\<lambda>(h', res). in_order s ?c ?D ?M h') (updateObserverEntry who (snd calls) q
        (observes_itself q (update_entry q (\<lambda>b. b\<lparr>bl_view := Some w\<rparr>) h)))" if h: "in_order s ?c ?D ?M h" for h
    proof (rule in_order_observer [OF in_order_itself q live(2) refl])
      show "in_order s ?c ?D ?M (update_entry q (\<lambda>b. b\<lparr>bl_view := Some w\<rparr>) h)"
        using h agree_change_refs [of s "around ?c" h q] by (intro in_order_update [OF h]) (auto simp: in_order_def)
    qed simp
    show ?thesis unfolding toggleChildPerception_def using Some b True ok
      by (auto simp: Let_def physical_fit_heap [OF ok] intro!: fine_bind [OF 1] fine_bind [OF 2])
  next
    case False
    have 1: "fine s (in_order s ?c ?D ?M) (engine (fst calls) (ph_heap d))" by (rule in_order_engine [OF st live(1) refl])
    have 2: "in_order s ?c ?D ?M (update_entry ?c (\<lambda>b. b\<lparr>bl_observingThis := remove1 q (bl_observingThis b)\<rparr>)
        (update_entry q (\<lambda>b. b\<lparr>bl_view := None, bl_viewShape := False\<rparr>) h))" if h: "in_order s ?c ?D ?M h" for h
    proof (rule in_order_exempt)
      show "in_order s ?c ?D ?M (update_entry q (\<lambda>b. b\<lparr>bl_view := None, bl_viewShape := False\<rparr>) h)"
        using h agree_change_refs [of s "around ?c" h q] by (intro in_order_update [OF h]) (auto simp: in_order_def)
    qed auto
    show ?thesis unfolding toggleChildPerception_def using Some b False ok
      by (auto intro!: fine_bind [OF 1] physical_fit_heap [OF ok 2])
  qed
qed

section \<open>A child that leaves\<close>

lemma set_removeAndShift:
  "distinct l \<Longrightarrow> set (removeAndShift x l) = set l - {x} \<and> distinct (removeAndShift x l)"
proof (induction l)
  case (Cons y l)
  have "set (last l # butlast l) = set l \<and> distinct (last l # butlast l)" if "l \<noteq> []" "distinct l"
  proof -
    have "set (butlast l @ [last l]) = set l \<and> distinct (butlast l @ [last l])" using that by simp
    then show ?thesis by auto
  qed
  with Cons show ?case by auto
qed simp

text \<open>No other entry waits for a change that has to do with the entry that leaves.\<close>

definition unmentioned :: "eptr \<Rightarrow> bullet_heap \<Rightarrow> bool" where
  "unmentioned q h \<longleftrightarrow> (\<forall>a e. h a = Some e \<longrightarrow> a \<noteq> q \<longrightarrow> q \<notin> change_refs e)"

lemma removeEntity_heap:
  assumes ok: "physical_fit s d" and i: "smap_find i (ph_entries d) = Some q" and c: "q \<noteq> ph_containing d"
    and h1: "engine calls (ph_heap d) = Some h1" "s \<Longrightarrow> live_calls calls (ph_heap d)"
  obtains h4 b where "removeEntity p calls i d = Some (d\<lparr>ph_heap := (if p then update_entry (ph_containing d)
        (\<lambda>b. b\<lparr>bl_observedByThis := set_insert q (bl_observedByThis b)\<rparr>) h4 else h4)(q := None),
      ph_entries := smap_erase i (ph_entries d),
      ph_queue := (if bl_marked b then removeAndShift q (ph_queue d) else ph_queue d)\<rparr>)"
    "h1 q = Some b" "(s \<Longrightarrow> unmentioned q h1) \<Longrightarrow> agree s (around (ph_containing d)) (h4(q := None))"
    "dom (h4(q := None)) = dom (ph_heap d) - {q}"
    "marked (h4(q := None)) = marked (ph_heap d) - {q}" "marked h1 = marked (ph_heap d)" "skeleton h4 = skeleton h1"
proof -
  let ?c = "ph_containing d"
  have a: "agree s (around ?c) (ph_heap d)" using ok by (simp add: physical_fit_def)
  from engine_keeps [OF h1 a] have g: "heap_grows (ph_heap d) h1" "agree s (around ?c) h1" by auto
  have "(i, q) \<in> set (ph_entries d)" using i by (simp add: smap_find_def map_of_SomeD)
  then have "q \<in> dom (ph_heap d)" using ok by (force simp: physical_fit_def)
  then obtain b where b: "h1 q = Some b" using grows_dom [OF g(1)] by auto
  have cd: "?c \<in> dom h1" using ok grows_dom [OF g(1)] by (simp add: physical_fit_def)
  have t: "tidy s h1" using g(2) by (simp add: agree_def)
  note alive = agree_lists_alive [OF g(2) cd b c]
  from each_entry_all [OF _ alive(2)] tidyD [OF t b] obtain h2 where
    h2: "each_entry (forget_observed q) (bl_observingThis b) h1 = Some h2"
    "h2 = (\<lambda>r. if r \<in> set (bl_observingThis b) then map_option (forget_observed q) (h1 r) else h1 r)" by auto
  have d2: "dom h2 = dom h1" by (auto simp: h2(2) split: if_splits)
  obtain b2 where b2: "h2 q = Some b2" using b by (cases "q \<in> set (bl_observingThis b)") (auto simp: h2(2))
  have s2: "set (bl_observedByThis b2) \<subseteq> set (bl_observedByThis b)" "distinct (bl_observedByThis b2)"
    using b2 b tidyD [OF t b] by (auto simp: h2(2) forget_observed_def split: if_splits dest: notin_set_remove1)
  have "set (bl_observedByThis b2) \<subseteq> dom h2" using s2(1) alive(1) unfolding d2 by blast
  from each_entry_all [OF s2(2) this] obtain h3 where h3: "each_entry (forget_observing q) (bl_observedByThis b2) h2 = Some h3"
    "h3 = (\<lambda>r. if r \<in> set (bl_observedByThis b2) then map_option (forget_observing q) (h2 r) else h2 r)" by auto
  let ?h4 = "update_entry ?c (forget_observing q) h3"
  have "(s \<Longrightarrow> unmentioned q h1) \<Longrightarrow> agree s (around ?c) (?h4(q := None))"
    using agree_removed [OF g(2) b c _ h2(2) b2 h3(2) refl] by (simp add: unmentioned_def)
  moreover have "dom (?h4(q := None)) = dom h1 - {q}"
    unfolding h3(2) h2(2) by (auto simp: update_entry_apply split: if_splits)
  moreover have "skeleton ?h4 = skeleton h1" unfolding h3(2) h2(2)
    by (auto simp: fun_eq_iff skeleton_def update_entry_apply forget_observing_def forget_observed_def option.map_comp o_def)
  moreover have "marked (?h4(q := None)) = marked h1 - {q}"
    unfolding h3(2) h2(2) by (auto simp: marked_def update_entry_apply forget_observing_def forget_observed_def split: if_splits)
  moreover have "marked h1 = marked (ph_heap d)" by (rule marked_body [OF body_grows [OF g(1)]])
  moreover have "removeEntity p calls i d = Some (d\<lparr>ph_heap := (if p then update_entry ?c
        (\<lambda>b. b\<lparr>bl_observedByThis := set_insert q (bl_observedByThis b)\<rparr>) ?h4 else ?h4)(q := None),
      ph_entries := smap_erase i (ph_entries d),
      ph_queue := (if bl_marked b then removeAndShift q (ph_queue d) else ph_queue d)\<rparr>)"
    unfolding removeEntity_def by (simp add: i h1(1) b h2(1) b2 h3(1) Let_def)
  ultimately show thesis using that [of b ?h4] b grows_dom [OF g(1)] by simp
qed

lemma removeEntity_fine:
  assumes ok: "physical_fit s d" and i: "smap_find i (ph_entries d) = Some q" and c: "q \<noteq> ph_containing d"
    and l: "s \<Longrightarrow> live_calls calls (ph_heap d)"
    and un: "\<And>h. s \<Longrightarrow> engine calls (ph_heap d) = Some h \<Longrightarrow> unmentioned q h"
  shows "fine s (physical_fit s) (removeEntity p calls i d)"
proof (cases "engine calls (ph_heap d)")
  case None
  then have "\<not> s" using engine_total l by fastforce
  then show ?thesis using i None by (simp add: removeEntity_def)
next
  case (Some h1)
  let ?c = "ph_containing d"
  show ?thesis
  proof (rule removeEntity_heap [OF ok i c Some l, where p = p])
    fix h4 and b :: bullet
    let ?h4 = "h4(q := None)"
      and ?h5 = "if p then update_entry ?c (\<lambda>b. b\<lparr>bl_observedByThis := set_insert q (bl_observedByThis b)\<rparr>) h4 else h4"
    let ?d = "d\<lparr>ph_heap := ?h5(q := None), ph_entries := smap_erase i (ph_entries d),
      ph_queue := (if bl_marked b then removeAndShift q (ph_queue d) else ph_queue d)\<rparr>"
    assume r: "removeEntity p calls i d = Some ?d"
      and h4: "h1 q = Some b" "(s \<Longrightarrow> unmentioned q h1) \<Longrightarrow> agree s (around ?c) ?h4" "dom ?h4 = dom (ph_heap d) - {q}"
        "marked ?h4 = marked (ph_heap d) - {q}" "marked h1 = marked (ph_heap d)"
    have "in_order s ?c (dom (ph_heap d) - {q}) (marked (ph_heap d) - {q}) ?h4"
      using h4(2-4) un Some by (simp add: in_order_def)
    then have "in_order s ?c (dom (ph_heap d) - {q}) (marked (ph_heap d) - {q})
        (update_entry ?c (\<lambda>b. b\<lparr>bl_observedByThis := set_insert q (bl_observedByThis b)\<rparr>) ?h4)"
      by (rule in_order_exempt) (auto simp: distinct_set_insert)
    moreover have "update_entry ?c f ?h4 = (update_entry ?c f h4)(q := None)" for f
      using c by (auto simp: update_entry_def fun_eq_iff)
    ultimately have s5: "in_order s ?c (dom (ph_heap d) - {q}) (marked (ph_heap d) - {q}) (?h5(q := None))"
      using \<open>in_order s ?c _ _ ?h4\<close> by simp
    have e: "set (smap_erase i (ph_entries d)) \<subseteq> set (ph_entries d)" "distinct (map snd (smap_erase i (ph_entries d)))"
      using ok by (auto simp: smap_erase_def physical_fit_def distinct_map_filter)
    have iq: "(i, q) \<in> set (ph_entries d)" using i by (simp add: smap_find_def map_of_SomeD)
    have inj: "inj_on snd (set (ph_entries d))" using ok by (simp add: physical_fit_def distinct_map)
    have "a = i" if "(a, q) \<in> set (ph_entries d)" for a
      using inj_onD [OF inj, of "(a, q)" "(i, q)"] that iq by simp
    then have "q \<notin> snd ` set (smap_erase i (ph_entries d))" by (auto simp: smap_erase_def)
    then have sn: "snd ` set (smap_erase i (ph_entries d)) \<subseteq> dom (ph_heap d) - {q}"
      using image_mono [OF e(1), of snd] ok unfolding physical_fit_def by blast
    have "bl_marked b \<longleftrightarrow> q \<in> marked (ph_heap d)" using h4(1) unfolding h4(5) [symmetric] by (simp add: marked_def)
    then have qu: "distinct (ph_queue ?d)" "set (ph_queue ?d) = marked (ph_heap d) - {q}"
      using ok set_removeAndShift [of "ph_queue d" q] by (auto simp: physical_fit_def)
    have sm: "smap_ok (smap_erase i (ph_entries d))" using ok by (simp add: physical_fit_def)
    have "physical_fit s ?d" using s5 sn e(2) qu sm ok c by (auto simp: physical_fit_def in_order_def)
    then show ?thesis using r by simp
  qed
qed

section \<open>The steps of a domain\<close>

text \<open>
  What may happen as far as perception goes: spheres are moved (\<open>Reported\<close>), a child waits to be brought up to date, an
  admin looks at once, the queue is worked off, a child arrives, begins or ceases to perceive, or leaves; the domain's own
  entity perceives or not. A step that would use an entry that has been freed is not a step. If \<open>s\<close>, the
  engine reports only living entries, and no child leaves while another entry has a pending change about it; this is what
  keeps the code from using freed entries.
\<close>

inductive perceives :: "bool \<Rightarrow> physical \<Rightarrow> physical \<Rightarrow> bool" for s where
  Reported: "(s \<Longrightarrow> live_calls calls (ph_heap d)) \<Longrightarrow> engine calls (ph_heap d) = Some h \<Longrightarrow> perceives s d (d\<lparr>ph_heap := h\<rparr>)"
| Moved: "mark_dirty q d = Some d' \<Longrightarrow> perceives s d d'"
| Looked: "q \<in> dom (ph_heap d) \<Longrightarrow> (s \<Longrightarrow> live_calls calls (ph_heap d)) \<Longrightarrow>
    updateObserverEntry who calls q (ph_heap d) = Some (h, res) \<Longrightarrow> perceives s d (d\<lparr>ph_heap := h\<rparr>)"
| Updated: "(s \<Longrightarrow> honest calls d) \<Longrightarrow> updateVisibilityOfDirtyEntities who calls d = Some (d', res) \<Longrightarrow> perceives s d d'"
| Arrived: "q \<notin> dom (ph_heap d) \<Longrightarrow>
    (\<And>c. s \<Longrightarrow> c \<in> {c1, c2, c3, c4} \<Longrightarrow> live_calls c ((ph_heap d)(q := Some (new_bullet a v)))) \<Longrightarrow>
    addEntity who p op (c1, c2, c3, c4) v w q a d = Some (d', res) \<Longrightarrow> perceives s d d'"
| Toggled: "(s \<Longrightarrow> live_calls (fst calls) (ph_heap d)) \<Longrightarrow> (s \<Longrightarrow> live_calls (snd calls) (ph_heap d)) \<Longrightarrow>
    toggleChildPerception who p calls w i d = Some (d', res) \<Longrightarrow> perceives s d d'"
| Left: "smap_find i (ph_entries d) = Some q \<Longrightarrow> q \<noteq> ph_containing d \<Longrightarrow> (s \<Longrightarrow> live_calls calls (ph_heap d)) \<Longrightarrow>
    (\<And>h. s \<Longrightarrow> engine calls (ph_heap d) = Some h \<Longrightarrow> unmentioned q h) \<Longrightarrow>
    removeEntity p calls i d = Some d' \<Longrightarrow> perceives s d d'"

inductive_cases perceives_elim: "perceives s d d'"

lemma mark_dirty_fit: "physical_fit s d \<Longrightarrow> mark_dirty q d = Some d' \<Longrightarrow> physical_fit s d'"
proof -
  assume ok: "physical_fit s d" and d': "mark_dirty q d = Some d'"
  then obtain b where b: "ph_heap d q = Some b" by (auto simp: mark_dirty_def split: option.splits)
  show ?thesis
  proof (cases "bl_marked b")
    case True with ok d' b show ?thesis by (simp add: mark_dirty_def)
  next
    case False
    let ?h = "update_entry q (\<lambda>b. b\<lparr>bl_marked := True\<rparr>) (ph_heap d)" and ?c = "ph_containing d"
    have a: "agree s (around ?c) (ph_heap d)" using ok by (simp add: physical_fit_def)
    have "agree s (around ?c) ?h" using a agree_change_refs [OF a] by (intro agree_update) auto
    moreover have "marked ?h = insert q (marked (ph_heap d))" using b by (auto simp: marked_def update_entry_apply)
    moreover have "q \<notin> marked (ph_heap d)" using b False by (simp add: marked_def)
    moreover have "d' = d\<lparr>ph_heap := ?h, ph_queue := ph_queue d @ [q]\<rparr>" using d' b False by (simp add: mark_dirty_def)
    ultimately show ?thesis using ok by (simp add: physical_fit_def)
  qed
qed

lemma perceives_fit: "perceives s d d' \<Longrightarrow> physical_fit s d \<Longrightarrow> physical_fit s d'"
proof (induction rule: perceives.induct)
  case (Reported calls d h)
  from in_order_engine [OF physical_fit_in_order [OF Reported.prems] Reported.hyps(1) refl] Reported.hyps(2)
  show ?case by (auto intro: physical_fit_heap [OF Reported.prems])
next
  case (Moved q d d')
  from mark_dirty_fit [OF Moved.prems Moved.hyps] show ?case .
next
  case (Looked q d calls who h res)
  from in_order_observer [OF physical_fit_in_order [OF Looked.prems] Looked.hyps(1,2) refl, of who] Looked.hyps(3)
  show ?case by (auto intro: physical_fit_heap [OF Looked.prems])
next
  case (Updated calls d who d' res)
  from update_queue_fine [OF Updated.prems Updated.hyps(1), of who] Updated.hyps(2) show ?case by simp
next
  case (Arrived q d c1 c2 c3 c4 a v who p op w d' res)
  have "\<not> smap_has (fst (who a)) (ph_entries d)" using Arrived.hyps(3) by (auto simp: addEntity_def split: if_splits)
  from addEntity_fine [where ?c1.0 = c1 and ?c2.0 = c2 and ?c3.0 = c3 and ?c4.0 = c4 and p = p and op = op and w = w and d = d
      and q = q and who = who and a = a and v = v,
      OF Arrived.prems Arrived.hyps(1) this Arrived.hyps(2)] Arrived.hyps(3)
  show ?case by simp
next
  case (Toggled calls d who p w i d' res)
  from toggle_fine [OF Toggled.prems Toggled.hyps(1,2), of who p w i] Toggled.hyps(3) show ?case by simp
next
  case (Left i d q calls p d')
  have "fine s (physical_fit s) (removeEntity p calls i d)"
    by (rule removeEntity_fine [OF Left.prems Left.hyps(1-2)]) (fact Left.hyps(3,4))+
  from fine_result [OF this Left.hyps(5)] show ?case .
qed

lemma perceives_run: "(perceives s)\<^sup>*\<^sup>* d d' \<Longrightarrow> physical_fit s d \<Longrightarrow> physical_fit s d'"
  by (induction rule: rtranclp_induct) (auto intro: perceives_fit)

text \<open>The domain as it is made: its only entry is the one of its own entity.\<close>

definition new_domain :: "i64 \<Rightarrow> addr \<Rightarrow> physical" where
  "new_domain i a = \<lparr>ph_entries = [(i, 0)], ph_heap = [0 \<mapsto> (new_bullet a 0)\<lparr>bl_visibility := None\<rparr>],
     ph_containing = 0, ph_queue = []\<rparr>"

lemma new_domain_ok: "physical_ok (new_domain i a)"
  by (auto simp: physical_ok_def new_domain_def agree_def tidy_def sees_def seen_def new_bullet_def change_refs_def
      marked_def smap_ok_def split: if_splits)

section \<open>Properties\<close>

lemma entities_of_alive: "set l \<subseteq> dom (ph_heap d) \<Longrightarrow> entities_of d l = Some (map (\<lambda>r. bl_entity (the (ph_heap d r))) l)"
  by (auto simp: entities_of_def list_all_iff)


text \<open>
  C18: As long as the engine reports only living entries and no child leaves while another entry has a pending change
  about it (with which the code uses the freed entry), in every state that a domain reaches - children also begin and
  cease to perceive, and the domain's own entity may perceive - working off the queue never uses an entry that has been
  freed, and it leaves what it has no time for: twenty entries at most are brought up to date, in their order, and the
  others wait.
\<close>

theorem queue_worked_off:
  assumes "(perceives True)\<^sup>*\<^sup>* (new_domain o_id o_addr) d" "honest calls d"
  shows "\<exists>d' res. updateVisibilityOfDirtyEntities who calls d = Some (d', res)
    \<and> ph_queue d' = drop 20 (ph_queue d) \<and> marked (ph_heap d') = set (drop 20 (ph_queue d))"
  using fine_total [OF update_queue_fine [OF perceives_run [OF assms(1) physical_ok_fit [OF new_domain_ok]] assms(2), of who]]
  by (fastforce simp: physical_fit_def visibility_check_max_entries_def)


text \<open>
  Only admins perceive what is private or protected: the sphere of sight of an observer meets the sphere of
  visibility of an entity exactly when the entity is not hidden or the observer is an admin; two spheres of the
  same kind never meet.
\<close>

theorem hidden_from_all_but_admins:
  "(collides (view_proxy admin ob q) (visibility_proxy hidden ob' r) \<longleftrightarrow> (if hidden then admin else True))
   \<and> (collides (visibility_proxy hidden ob' r) (view_proxy admin ob q) \<longleftrightarrow> (if hidden then admin else True))
   \<and> \<not> collides (view_proxy admin ob q) (view_proxy admin' ob' r)
   \<and> \<not> collides (visibility_proxy hidden ob q) (visibility_proxy hidden' ob' r)"
  by (simp add: collides_def view_proxy_def visibility_proxy_def visibility_mask_observer_def
      visibility_mask_observable_def visibility_mask_observable_private_def)

text \<open>
  A domain whose own entity perceives keeps a pointer to each child that leaves: the code puts the entry that it is
  about to free among those that the entity observes, instead of taking it out, and asking what the entity sees uses
  the freed entry.
\<close>

theorem perceptive_owner_dangles:
  assumes "physical_ok d" "smap_find i (ph_entries d) = Some q" "q \<noteq> ph_containing d"
    and "smap_find o_id (ph_entries d) = Some (ph_containing d)"
  shows "\<exists>d'. removeEntity True [] i d = Some d' \<and> ph_heap d' q = None
    \<and> (\<exists>e. ph_heap d' (ph_containing d') = Some e \<and> q \<in> set (bl_observedByThis e))
    \<and> physical_sees o_id d' = None"
proof (rule removeEntity_heap [OF physical_ok_fit [OF assms(1), of False] assms(2,3), where p = True])
  show "engine [] (ph_heap d) = Some (ph_heap d)" by (simp add: engine_def)
  show "live_calls [] (ph_heap d)" by (simp add: live_calls_def)
next
  fix h4 b
  assume r: "removeEntity True [] i d = Some (d\<lparr>ph_heap := (if True then update_entry (ph_containing d)
        (\<lambda>b. b\<lparr>bl_observedByThis := set_insert q (bl_observedByThis b)\<rparr>) h4 else h4)(q := None),
      ph_entries := smap_erase i (ph_entries d),
      ph_queue := (if bl_marked b then removeAndShift q (ph_queue d) else ph_queue d)\<rparr>)"
    and dom: "dom (h4(q := None)) = dom (ph_heap d) - {q}"
  have "ph_containing d \<in> dom (h4(q := None))" using assms(1,3) unfolding dom physical_ok_def by blast
  then obtain e where e: "h4 (ph_containing d) = Some e" using assms(3) by auto
  have f: "smap_find o_id (smap_erase i (ph_entries d)) = Some (ph_containing d)"
  proof -
    have "o_id \<noteq> i" using assms(2-4) by auto
    then show ?thesis using assms(4) by (simp add: smap_find_erase)
  qed
  define e' where "e' = e\<lparr>bl_observedByThis := set_insert q (bl_observedByThis e)\<rparr>"
  define h' where "h' = (update_entry (ph_containing d) (\<lambda>b. b\<lparr>bl_observedByThis := set_insert q (bl_observedByThis b)\<rparr>) h4)(q := None)"
  have h': "h' q = None" "h' (ph_containing d) = Some e'" "q \<in> set (bl_observedByThis e')"
    using e assms(3) by (simp_all add: h'_def e'_def update_entry_apply)
  let ?d = "d\<lparr>ph_heap := h', ph_entries := smap_erase i (ph_entries d),
      ph_queue := (if bl_marked b then removeAndShift q (ph_queue d) else ph_queue d)\<rparr>"
  have "removeEntity True [] i d = Some ?d" using r by (simp add: h'_def)
  moreover have "entities_of ?d (bl_observedByThis e') = None"
    using h'(1,3) by (auto simp: entities_of_def list_all_iff)
  ultimately show ?thesis using h' f by (intro exI [of _ ?d]) (simp add: physical_sees_def)
qed

text \<open>
  A child that becomes perceptive while it is in a domain does not see what its new sphere of sight meets: the
  sphere is handed to the engine before the entry has it, so that what the engine reports is filed with the observers of
  the child instead of with what it observes; and the shape of the sphere is freed while the sphere is still in use.
\<close>

theorem new_perceiver_blind:
  assumes "smap_find i (ph_entries d) = Some q" "ph_heap d q = Some b" "bl_view b = None"
    and "bl_observedByThisChanges b = []" "q \<noteq> ph_containing d" "r \<noteq> q" "r \<notin> set (bl_observedByThis b)"
  shows "\<exists>d' b'. toggleChildPerception who True ([(Add, view_proxy admin view q, visibility_proxy False ob r)], []) view i d
      = Some (d', [])
    \<and> ph_heap d' q = Some b' \<and> bl_view b' = Some view \<and> \<not> (r \<in> set (bl_observedByThis b')) \<and> bl_observedByThisChanges b' = []
    \<and> (r, Add) \<in> set (bl_observingThisChanges b') \<and> bl_viewShape b' = bl_viewShape b"
proof -
  let ?x = "(Add, view_proxy admin view q, visibility_proxy False ob r)"
  let ?h0 = "update_entry (ph_containing d) (\<lambda>b. b\<lparr>bl_observingThis := set_insert q (bl_observingThis b)\<rparr>) (ph_heap d)"
  let ?b1 = "b\<lparr>bl_observingThisChanges := bl_observingThisChanges b @ [(r, Add)]\<rparr>"
  have c: "collides (view_proxy admin view q) (visibility_proxy False ob r)"
    by (simp add: collides_def view_proxy_def visibility_proxy_def visibility_mask_observer_def
      visibility_mask_observable_def visibility_mask_observable_private_def)
  have e: "px_entry (view_proxy admin view q) = q" "px_entry (visibility_proxy False ob r) = r"
    "px_object (view_proxy admin view q) = view" by (simp_all add: view_proxy_def visibility_proxy_def)
  have "?h0 q = Some b" using assms(2,5) by (simp add: update_entry_apply)
  then have 1: "engine [?x] ?h0 = Some (?h0(q := Some ?b1))"
    using c e assms(3,6) by (simp add: engine_def pair_callback_def note_change_def)
  let ?h2 = "observes_itself q (update_entry q (\<lambda>b. b\<lparr>bl_view := Some view\<rparr>) (?h0(q := Some ?b1)))"
  let ?b2 = "?b1\<lparr>bl_view := Some view, bl_observedByThis := set_insert q (bl_observedByThis b),
    bl_observingThis := set_insert q (bl_observingThis b)\<rparr>"
  have 2: "?h2 q = Some ?b2" by (simp add: observes_itself_def update_entry_apply)
  let ?h3 = "update_entry q (\<lambda>b. b\<lparr>bl_observedByThisChanges := []\<rparr>) ?h2"
  have 3: "updateObserverEntry who [] q ?h2 = Some (?h3, [])"
    using 2 assms(4) by (simp add: updateObserverEntry_def engine_def batch_def)
  have "toggleChildPerception who True ([?x], []) view i d = Some (d\<lparr>ph_heap := ?h3\<rparr>, [])"
    using assms(1-3) 1 3 by (simp add: toggleChildPerception_def Let_def)
  moreover have "?h3 q = Some (?b2\<lparr>bl_observedByThisChanges := []\<rparr>)" using 2 by (simp add: update_entry_apply)
  ultimately show ?thesis using assms(6,7) by (intro exI [of _ "d\<lparr>ph_heap := ?h3\<rparr>"] exI [of _ "?b2\<lparr>bl_observedByThisChanges := []\<rparr>"]) simp
qed

text \<open>
  C26: When a child leaves while another one waits to be told about it, the next update of the other one uses the freed
  entry: leaving clears who observes whom, but not the pending changes of the others.
\<close>

theorem pending_change_dangles:
  assumes "physical_ok d" "smap_find i (ph_entries d) = Some q" "q \<noteq> ph_containing d"
    and "r \<noteq> q" "ph_heap d r = Some e" "bl_view e \<noteq> None" "(q, k) \<in> set (bl_observedByThisChanges e)"
  shows "\<exists>d'. removeEntity False [] i d = Some d' \<and> updateObserverEntry who [] r (ph_heap d') = None"
proof (rule removeEntity_heap [OF physical_ok_fit [OF assms(1), of False] assms(2,3), where p = False])
  show "engine [] (ph_heap d) = Some (ph_heap d)" by (simp add: engine_def)
  show "live_calls [] (ph_heap d)" by (simp add: live_calls_def)
next
  fix h4 b
  assume r: "removeEntity False [] i d = Some (d\<lparr>ph_heap := (if False then update_entry (ph_containing d)
        (\<lambda>b. b\<lparr>bl_observedByThis := set_insert q (bl_observedByThis b)\<rparr>) h4 else h4)(q := None),
      ph_entries := smap_erase i (ph_entries d),
      ph_queue := (if bl_marked b then removeAndShift q (ph_queue d) else ph_queue d)\<rparr>)"
    and sk: "skeleton h4 = skeleton (ph_heap d)"
  from skeleton_get [OF sk assms(5)] obtain e' where e': "h4 r = Some e'" "core e' = core e" by auto
  have "fold_opt (observer_step who r) (bl_observedByThisChanges e') (h4(q := None), [], []) = None"
    using assms(7) e'(2) by (intro observer_fold_fails) (auto simp: core_def)
  then have "updateObserverEntry who [] r (h4(q := None)) = None"
    using e' assms(4,6) by (simp add: updateObserverEntry_def engine_def core_def)
  then show ?thesis using r by simp
qed

section \<open>Concrete domains\<close>

lemma addEntity_shape:
  assumes "addEntity who p op ([], [], [], []) v w q a d = Some (d', res)"
  shows "ph_entries d' = smap_emplace (fst (who a)) q (ph_entries d)" "ph_containing d' = ph_containing d"
  using assms by (auto simp: addEntity_def Let_def bind_eq_Some_conv split: if_splits)

lemma sample_arrivals:
  "\<exists>d. (perceives s)\<^sup>*\<^sup>* (new_domain 1 100) d \<and> ph_containing d = 0
    \<and> smap_find 105 (ph_entries d) = Some 1 \<and> smap_find 106 (ph_entries d) = Some 2"
proof -
  let ?d = "new_domain 1 100" and ?who = "\<lambda>a. (a, 0)"
  have f0: "physical_fit True ?d" by (rule physical_ok_fit [OF new_domain_ok])
  have n: "1 \<notin> dom (ph_heap ?d)" "\<not> smap_has (fst (?who 105)) (ph_entries ?d)"
    by (auto simp: new_domain_def smap_has_def)
  from fine_total [OF addEntity_fine [OF f0, of "1::nat" ?who 105 "[]" "[]" "[]" "[]" 10 True False 11]]
  obtain d1 res where d1: "addEntity ?who True False ([], [], [], []) 10 11 1 105 ?d = Some (d1, res)" "physical_fit True d1"
    "dom (ph_heap d1) = insert 1 (dom (ph_heap ?d))"
    using n by (auto simp: live_calls_def)
  have p1: "perceives s ?d d1" by (rule Arrived [OF n(1) _ d1(1)]) (auto simp: live_calls_def)
  have e1: "ph_entries d1 = [(1, 0), (105, 1)]" "dom (ph_heap d1) = {0, 1}" "ph_containing d1 = 0"
    using addEntity_shape [OF d1(1)] d1(3) by (simp_all add: new_domain_def insert_commute)
  have n: "2 \<notin> dom (ph_heap d1)" "\<not> smap_has (fst (?who 106)) (ph_entries d1)"
    using e1 by (simp_all add: smap_has_def)
  from fine_total [OF addEntity_fine [OF d1(2), of "2::nat" ?who 106 "[]" "[]" "[]" "[]" 20 True False 21]]
  obtain d2 res where d2: "addEntity ?who True False ([], [], [], []) 20 21 2 106 d1 = Some (d2, res)"
    using n by (auto simp: live_calls_def)
  have p2: "perceives s d1 d2" by (rule Arrived [OF n(1) _ d2]) (auto simp: live_calls_def)
  have "ph_entries d2 = [(1, 0), (105, 1), (106, 2)]" "ph_containing d2 = 0"
    using addEntity_shape [OF d2] e1 by simp_all
  then show ?thesis using p1 p2 by (intro exI [of _ d2]) (simp add: smap_find_def)
qed


theorem queue_worked_off_witness:
  "\<exists>d d' res. (perceives True)\<^sup>*\<^sup>* (new_domain 1 100) d \<and> ph_queue d = [0]
    \<and> updateVisibilityOfDirtyEntities (\<lambda>a. (a, 0)) (\<lambda>q. ([], [])) d = Some (d', res) \<and> ph_queue d' = []"
proof -
  obtain d where d: "mark_dirty 0 (new_domain 1 100) = Some d" "ph_queue d = [0]"
    by (simp add: mark_dirty_def new_domain_def new_bullet_def)
  have r: "(perceives True)\<^sup>*\<^sup>* (new_domain 1 100) d" using Moved [OF d(1)] by blast
  have h: "honest (\<lambda>q. ([], [])) d" by (simp add: honest_def live_calls_def)
  from queue_worked_off [OF r h, of "\<lambda>a. (a, 0)"] d(2) r show ?thesis by auto
qed

definition sample_domain :: physical where
  "sample_domain = \<lparr>ph_entries = [(1, 0), (105, 1), (106, 2)],
     ph_heap = [0 \<mapsto> (new_bullet 100 0)\<lparr>bl_visibility := None\<rparr>, 1 \<mapsto> new_bullet 105 10,
       2 \<mapsto> (new_bullet 106 20)\<lparr>bl_view := Some 21, bl_viewShape := True, bl_observedByThisChanges := [(1, Add)]\<rparr>],
     ph_containing = 0, ph_queue = []\<rparr>"

lemma sample_domain_facts:
  "physical_ok sample_domain" "smap_find 1 (ph_entries sample_domain) = Some (ph_containing sample_domain)"
  "smap_find 105 (ph_entries sample_domain) = Some 1" "ph_containing sample_domain = 0"
  "ph_heap sample_domain 1 = Some (new_bullet 105 10)"
  "ph_heap sample_domain 2 = Some ((new_bullet 106 20)\<lparr>bl_view := Some 21, bl_viewShape := True, bl_observedByThisChanges := [(1, Add)]\<rparr>)"
  by (auto simp: sample_domain_def physical_ok_def agree_def tidy_def sees_def seen_def new_bullet_def change_refs_def
      marked_def smap_ok_def smap_find_def split: if_splits)


theorem perceptive_owner_dangles_witness:
  "\<exists>d'. removeEntity True [] 105 sample_domain = Some d' \<and> ph_heap d' 1 = None \<and> physical_sees 1 d' = None"
  using perceptive_owner_dangles [OF sample_domain_facts(1,3) _ sample_domain_facts(2)] by (simp add: sample_domain_facts(4)) blast

theorem new_perceiver_blind_witness:
  "\<exists>d' b'. toggleChildPerception (\<lambda>a. (a, 0)) True ([(Add, view_proxy False 11 1, visibility_proxy False 20 2)], []) 11 105
      sample_domain = Some (d', [])
    \<and> ph_heap d' 1 = Some b' \<and> bl_view b' = Some 11 \<and> 2 \<notin> set (bl_observedByThis b')"
  using new_perceiver_blind [OF sample_domain_facts(3,5), of 2 "\<lambda>a. (a, 0)" False 11 20]
  by (simp add: sample_domain_facts(4) new_bullet_def) blast

theorem pending_change_dangles_witness:
  "\<exists>d'. removeEntity False [] 105 sample_domain = Some d' \<and> updateObserverEntry (\<lambda>a. (a, 0)) [] 2 (ph_heap d') = None"
  using pending_change_dangles [OF sample_domain_facts(1,3) _ _ sample_domain_facts(6), of Add "\<lambda>a. (a, 0)"]
  by (simp add: sample_domain_facts(4))

end
