(* ===== verification/Tree_Entity.thy ===== *)
theory Tree_Entity
  imports Domain_Physical
begin

text \<open>
  The tree of entities of Cyphesis: who contains whom, what the domain of a container makes of it, who can see and who
  can reach whom, and who observes an entity
  (\<open>apps/cyphesis/src/rules/simulation/LocatedEntity.cpp\<close> with \<open>VoidDomain.cpp\<close>, \<open>InventoryDomain.cpp\<close>,
  \<open>StackableDomain.cpp\<close>, \<open>ContainerDomain.cpp\<close> and \<open>PhysicalDomain.cpp\<close>). A loop up the tree does not end in a
  circle of parents; then its value is \<open>None\<close>. Sets of entities are kept in the order of their addresses.
\<close>

section \<open>State\<close>

text \<open>\<open>ContainerDomain\<close> has the observers by their id, each with the entities that it has been told of.\<close>

datatype domain = VoidDomain | InventoryDomain | StackableDomain
  | ContainerDomain "(string \<times> addr \<times> addr list) list" | PhysicalDomain physical

text \<open>The mode property of an entity: what it is planted on, another mode, or none that is known. The location is a property
  that is always there and public; of its flags only that it is still to be sent matters. \<open>nd_type\<close> is the name of its type.\<close>

datatype mode_data = Planted "i64 option" | OtherMode | UnknownMode

record node =
  nd_entity :: located
  nd_parent :: "addr option"
  nd_contains :: "addr list option"
  nd_domain :: "domain option"
  nd_mode :: "mode_data option"
  nd_seq :: i64
  nd_loc_unsent :: bool
  nd_type :: "string option"

type_synonym tree = "addr \<Rightarrow> node option"

definition entity_perceptive :: "32 word" where "entity_perceptive = 8"
definition entity_destroyed :: "32 word" where "entity_destroyed = 16"
definition entity_admin :: "32 word" where "entity_admin = 4096"
definition entity_contained_visible :: "32 word" where "entity_contained_visible = 16384"
definition entity_visibility_protected :: "32 word" where "entity_visibility_protected = 65536"
definition entity_visibility_private :: "32 word" where "entity_visibility_private = 131072"

definition parent_of :: "tree \<Rightarrow> addr \<Rightarrow> addr option" where
  "parent_of t a = (case t a of None \<Rightarrow> None | Some n \<Rightarrow> nd_parent n)"

definition contains_of :: "tree \<Rightarrow> addr \<Rightarrow> addr list" where
  "contains_of t a = (case t a of None \<Rightarrow> [] | Some n \<Rightarrow> (case nd_contains n of None \<Rightarrow> [] | Some l \<Rightarrow> l))"

definition flagged :: "tree \<Rightarrow> 32 word \<Rightarrow> addr \<Rightarrow> bool" where
  "flagged t f a \<longleftrightarrow> (case t a of None \<Rightarrow> False | Some n \<Rightarrow> has_flags (le_flags (nd_entity n)) f)"

definition id_of :: "tree \<Rightarrow> addr \<Rightarrow> i64" where
  "id_of t a = (case t a of None \<Rightarrow> 0 | Some n \<Rightarrow> le_id (nd_entity n))"

definition seq_of :: "tree \<Rightarrow> addr \<Rightarrow> i64" where
  "seq_of t a = (case t a of None \<Rightarrow> 0 | Some n \<Rightarrow> nd_seq n)"

text \<open>A domain together with the entity that it belongs to.\<close>

definition domain_of :: "tree \<Rightarrow> addr \<Rightarrow> (addr \<times> domain) option" where
  "domain_of t a = (case t a of None \<Rightarrow> None | Some n \<Rightarrow> map_option (Pair a) (nd_domain n))"

definition mode_of :: "tree \<Rightarrow> addr \<Rightarrow> mode_data option" where
  "mode_of t a = (case t a of None \<Rightarrow> None | Some n \<Rightarrow> nd_mode n)"

section \<open>Domains\<close>

text \<open>\<open>isEntityVisibleFor\<close> and \<open>getObservingEntitiesFor\<close>.\<close>

definition hasObserverRegistered :: "tree \<Rightarrow> (string \<times> addr \<times> addr list) list \<Rightarrow> addr \<Rightarrow> bool" where
  "hasObserverRegistered t rs a \<longleftrightarrow> smap_has (show_i64 (id_of t a)) rs"

definition inventory_visible :: "tree \<Rightarrow> addr \<Rightarrow> addr \<Rightarrow> addr \<Rightarrow> bool" where
  "inventory_visible t owner observing observed \<longleftrightarrow>
     observing = owner \<or> flagged t entity_admin observing \<or> flagged t entity_contained_visible observed
     \<or> mode_of t observed = Some (Planted (Some (id_of t owner)))"

definition container_visible ::
  "tree \<Rightarrow> addr \<Rightarrow> (string \<times> addr \<times> addr list) list \<Rightarrow> addr \<Rightarrow> addr \<Rightarrow> bool" where
  "container_visible t owner rs observing observed \<longleftrightarrow>
     observing = owner \<or> flagged t entity_admin observing \<or> flagged t entity_contained_visible observed
     \<or> hasObserverRegistered t rs observing"

definition isEntityVisibleFor :: "tree \<Rightarrow> addr \<times> domain \<Rightarrow> addr \<Rightarrow> addr \<Rightarrow> bool" where
  "isEntityVisibleFor t d observing observed \<longleftrightarrow> (case d of (owner, k) \<Rightarrow> (case k of
       VoidDomain \<Rightarrow> observing = owner
     | InventoryDomain \<Rightarrow> inventory_visible t owner observing observed
     | StackableDomain \<Rightarrow> True
     | ContainerDomain rs \<Rightarrow> container_visible t owner rs observing observed
     | PhysicalDomain p \<Rightarrow> physical_visible owner (id_of t observing) (id_of t observed) observing observed p))"

definition container_observers :: "tree \<Rightarrow> addr \<Rightarrow> (string \<times> addr \<times> addr list) list \<Rightarrow> addr \<Rightarrow> addr list" where
  "container_observers t owner rs observed =
     concat (map (\<lambda>(_, ob, told). if flagged t entity_admin ob \<or> flagged t entity_contained_visible observed
         \<or> observed \<in> set told then [ob] else []) rs)
     @ (if flagged t entity_perceptive owner then [owner] else [])"

definition getObservingEntitiesFor :: "tree \<Rightarrow> addr \<times> domain \<Rightarrow> addr \<Rightarrow> addr list option" where
  "getObservingEntitiesFor t d observed = (case d of (owner, k) \<Rightarrow> (case k of
       VoidDomain \<Rightarrow> Some []
     | InventoryDomain \<Rightarrow> Some [owner]
     | StackableDomain \<Rightarrow> Some []
     | ContainerDomain rs \<Rightarrow> Some (container_observers t owner rs observed)
     | PhysicalDomain p \<Rightarrow> physical_observers (id_of t observed) p))"

section \<open>Seeing\<close>

text \<open>The search for the domain that the observer is in: the observer may be inside of the entity itself. \<open>highest\<close> is the
  last entity below the domain.\<close>

datatype domain_search = InsideOfIt | Searched "(addr \<times> domain) option" addr

partial_function (option) find_domain :: "tree \<Rightarrow> addr option \<Rightarrow> addr option \<Rightarrow> addr \<Rightarrow> domain_search option" where
  "find_domain t this a highest = (case a of None \<Rightarrow> Some (Searched None highest)
     | Some e \<Rightarrow> if Some e = this then Some InsideOfIt
       else (case domain_of t e of Some d \<Rightarrow> Some (Searched (Some d) highest)
         | None \<Rightarrow> find_domain t this (parent_of t e) e))"

text \<open>The way up from the entity that is looked at: the ancestors in the order in which they are met, and the domain
  that the way ends in; \<open>Some None\<close> if it ends nowhere.\<close>

partial_function (option) climb ::
  "tree \<Rightarrow> addr \<Rightarrow> addr option \<Rightarrow> (addr \<times> domain) option \<Rightarrow> addr \<Rightarrow> addr list \<Rightarrow> addr
     \<Rightarrow> (addr list \<times> (addr \<times> domain) option) option option" where
  "climb t observer observer_parent parent_domain highest acc a =
     (if a = observer then Some (Some (acc @ [a], domain_of t observer))
      else if Some a = observer_parent then Some (Some (acc @ [a], parent_domain))
      else if a = highest then Some (Some (acc @ [a], None))
      else (case parent_of t a of None \<Rightarrow> Some None
        | Some p \<Rightarrow> climb t observer observer_parent parent_domain highest (acc @ [a]) p))"

fun visible_down :: "tree \<Rightarrow> addr \<Rightarrow> (addr \<times> domain) option \<Rightarrow> addr list \<Rightarrow> bool" where
  "visible_down t observer d [] \<longleftrightarrow> True"
| "visible_down t observer d (a # as) \<longleftrightarrow>
     (case d of None \<Rightarrow> True | Some k \<Rightarrow> isEntityVisibleFor t k observer a)
     \<and> \<not> (flagged t entity_visibility_private a \<and> \<not> flagged t entity_admin observer)
     \<and> \<not> (flagged t entity_visibility_protected a \<and> parent_of t a \<noteq> Some observer \<and> \<not> flagged t entity_admin observer)
     \<and> visible_down t observer (domain_of t a) as"

text \<open>The case in which both are in the same domain is decided at once.\<close>

definition visible_in_same_domain :: "tree \<Rightarrow> addr \<Rightarrow> addr \<Rightarrow> addr \<times> domain \<Rightarrow> bool" where
  "visible_in_same_domain t this observer d \<longleftrightarrow>
     \<not> (\<not> flagged t entity_admin observer
          \<and> (flagged t entity_visibility_protected this \<or> flagged t entity_visibility_private this))
     \<and> isEntityVisibleFor t d observer this"

definition visible_from_afar :: "tree \<Rightarrow> addr \<Rightarrow> addr \<Rightarrow> bool option" where
  "visible_from_afar t this observer =
     (case find_domain t (Some this) (parent_of t observer) observer of
        None \<Rightarrow> None
      | Some InsideOfIt \<Rightarrow> Some True
      | Some (Searched d highest) \<Rightarrow>
          (case climb t observer (parent_of t observer) d highest [] this of
             None \<Rightarrow> None
           | Some None \<Rightarrow> Some False
           | Some (Some (ancestors, k)) \<Rightarrow> Some (visible_down t observer k (rev ancestors))))"

definition same_domain :: "tree \<Rightarrow> addr \<Rightarrow> addr \<Rightarrow> (addr \<times> domain) option" where
  "same_domain t this observer = (case parent_of t this of None \<Rightarrow> None
     | Some p \<Rightarrow> if parent_of t observer = Some p then domain_of t p else None)"

definition isVisibleForOtherEntity :: "tree \<Rightarrow> addr \<Rightarrow> addr \<Rightarrow> bool option" where
  "isVisibleForOtherEntity t this observer =
     (if observer = this then Some True
      else (case same_domain t this observer of
          Some d \<Rightarrow> Some (visible_in_same_domain t this observer d)
        | None \<Rightarrow> visible_from_afar t this observer))"

section \<open>Reaching\<close>

text \<open>\<open>near\<close> is what a physical domain says on the distance between the one who reaches and another entity; the reach
  and the point that is reached for are fixed.\<close>

definition isEntityReachable :: "tree \<Rightarrow> (addr \<Rightarrow> addr \<Rightarrow> addr \<Rightarrow> bool) \<Rightarrow> addr \<times> domain \<Rightarrow> addr \<Rightarrow> addr \<Rightarrow> bool" where
  "isEntityReachable t near d reaching queried \<longleftrightarrow> (case d of (owner, k) \<Rightarrow> (case k of
       VoidDomain \<Rightarrow> reaching = owner
     | InventoryDomain \<Rightarrow> reaching = owner
     | StackableDomain \<Rightarrow> True
     | ContainerDomain rs \<Rightarrow> hasObserverRegistered t rs reaching
     | PhysicalDomain p \<Rightarrow> near owner reaching queried))"

text \<open>The way up from the target: \<open>Inl\<close> is an answer, \<open>Inr\<close> the entities on the way.\<close>

partial_function (option) reach_up ::
  "tree \<Rightarrow> (addr \<Rightarrow> addr \<Rightarrow> addr \<Rightarrow> bool) \<Rightarrow> addr \<Rightarrow> addr \<Rightarrow> (addr \<times> domain) option \<Rightarrow> addr \<Rightarrow> addr list \<Rightarrow> addr
     \<Rightarrow> (bool + addr list) option" where
  "reach_up t near reaching target d highest acc a =
     (if map_option fst d = Some a
      then (if a = target then Some (Inl (case d of None \<Rightarrow> True | Some k \<Rightarrow> isEntityReachable t near k reaching a))
            else Some (Inr acc))
      else if a = reaching then Some (Inr acc)
      else if a = highest then Some (Inr (acc @ [a]))
      else (case parent_of t a of None \<Rightarrow> Some (Inl False)
        | Some p \<Rightarrow> reach_up t near reaching target d highest (acc @ [a]) p))"

definition reached_down :: "tree \<Rightarrow> (addr \<Rightarrow> addr \<Rightarrow> addr \<Rightarrow> bool) \<Rightarrow> addr \<Rightarrow> addr list \<Rightarrow> bool" where
  "reached_down t near reaching as = list_all (\<lambda>a. case parent_of t a of None \<Rightarrow> True
     | Some p \<Rightarrow> (case domain_of t p of None \<Rightarrow> True | Some k \<Rightarrow> isEntityReachable t near k reaching a)) as"

definition canReach :: "tree \<Rightarrow> (addr \<Rightarrow> addr \<Rightarrow> addr \<Rightarrow> bool) \<Rightarrow> addr \<Rightarrow> addr \<Rightarrow> bool option" where
  "canReach t near this target =
     (if this = target then Some True
      else if flagged t entity_admin this then Some True
      else if flagged t entity_destroyed this \<or> flagged t entity_destroyed target then Some False
      else (case find_domain t None (parent_of t this) this of
          None \<Rightarrow> None
        | Some InsideOfIt \<Rightarrow> None
        | Some (Searched d highest) \<Rightarrow>
            (case reach_up t near this target d highest [] target of
               None \<Rightarrow> None
             | Some (Inl b) \<Rightarrow> Some b
             | Some (Inr as) \<Rightarrow> Some (if as = [] then False else reached_down t near this (rev as)))))"

text \<open>\<open>getVisibleEntitiesFor\<close>: a container asks first whether it can be reached.\<close>

definition getVisibleEntitiesFor ::
  "tree \<Rightarrow> (addr \<Rightarrow> addr \<Rightarrow> addr \<Rightarrow> bool) \<Rightarrow> addr \<times> domain \<Rightarrow> addr \<Rightarrow> addr list option" where
  "getVisibleEntitiesFor t near d observing = (case d of (owner, k) \<Rightarrow> (case k of
       VoidDomain \<Rightarrow> Some []
     | InventoryDomain \<Rightarrow> Some (filter (isEntityVisibleFor t d observing) (contains_of t owner))
     | StackableDomain \<Rightarrow> Some (contains_of t owner)
     | ContainerDomain rs \<Rightarrow> map_option (\<lambda>b. if b then filter (isEntityVisibleFor t d observing) (contains_of t owner) else [])
         (canReach t near observing owner)
     | PhysicalDomain p \<Rightarrow> physical_sees (id_of t observing) p))"

section \<open>Observers\<close>

definition insert_all :: "addr list \<Rightarrow> addr list \<Rightarrow> addr list" where
  "insert_all l s = foldl (\<lambda>s a. set_insert a s) s l"

definition observers_in :: "tree \<Rightarrow> (addr \<times> domain) option \<Rightarrow> addr \<Rightarrow> addr list \<Rightarrow> addr list option" where
  "observers_in t d observed s = (case d of None \<Rightarrow> Some s
     | Some k \<Rightarrow> map_option (\<lambda>l. insert_all l s) (getObservingEntitiesFor t k observed))"

partial_function (option) collectObserversForChild :: "tree \<Rightarrow> addr \<Rightarrow> addr \<Rightarrow> addr list \<Rightarrow> addr list option" where
  "collectObserversForChild t this child s =
     Option.bind (observers_in t (domain_of t this) child
       (if flagged t entity_perceptive this then set_insert this s else s)) (\<lambda>s'.
     (case parent_of t this of None \<Rightarrow> Some s'
      | Some p \<Rightarrow>
          if (case domain_of t this of None \<Rightarrow> False | Some k \<Rightarrow> \<not> isEntityVisibleFor t k p child) then Some s'
          else collectObserversForChild t p this s'))"

definition collectObservers :: "tree \<Rightarrow> addr \<Rightarrow> addr list option" where
  "collectObservers t this =
     Option.bind (observers_in t (domain_of t this) this
       (if flagged t entity_perceptive this then [this] else [])) (\<lambda>s.
     (case parent_of t this of None \<Rightarrow> Some s | Some p \<Rightarrow> collectObserversForChild t p this s))"

datatype visibility = PUBLIC | PROTECTED | PRIVATE

definition may_receive :: "tree \<Rightarrow> visibility \<Rightarrow> addr \<Rightarrow> addr \<Rightarrow> bool" where
  "may_receive t v this receiver = (case v of
       PUBLIC \<Rightarrow> True
     | PROTECTED \<Rightarrow> flagged t entity_admin receiver \<or> id_of t receiver = id_of t this
     | PRIVATE \<Rightarrow> flagged t entity_admin receiver)"

definition broadcast :: "tree \<Rightarrow> visibility \<Rightarrow> addr \<Rightarrow> oper \<Rightarrow> oper list option" where
  "broadcast t v this p = map_option (\<lambda>receivers.
     map (\<lambda>r. set_from (show_i64 (id_of t this)) (set_to (show_i64 (id_of t r)) p)) (filter (may_receive t v this) receivers))
     (collectObservers t this)"

definition sight_of :: "tree \<Rightarrow> addr \<Rightarrow> root" where
  "sight_of t a = EntityArg (Some (show_i64 (id_of t a))) None None (Some (seq_of t a)) []"

definition appear_to :: "tree \<Rightarrow> addr \<Rightarrow> op_class \<Rightarrow> addr \<Rightarrow> oper" where
  "appear_to t this c r = set_to (show_i64 (id_of t r)) (set_args [sight_of t this] (new_op c))"

definition processAppearDisappear :: "tree \<Rightarrow> addr \<Rightarrow> addr list \<Rightarrow> oper list option" where
  "processAppearDisappear t this previous = map_option (\<lambda>now.
     map (appear_to t this Appearance) (filter (\<lambda>r. r \<notin> set previous) now)
     @ map (appear_to t this Disappearance) (filter (\<lambda>r. r \<notin> set now) previous))
     (collectObservers t this)"

text \<open>The loops are evaluated by their equations.\<close>

declare find_domain.simps [code] climb.simps [code] reach_up.simps [code] collectObserversForChild.simps [code]

end
