(* ===== verification/Tree_Guarantees.thy ===== *)
theory Tree_Guarantees
  imports Tree_Entity
begin

text \<open>
  What holds of sight, reach and observers in a tree of entities: every question is answered if nobody contains
  itself, what is private stays private, the shortcut for two entities in one domain against the general way,
  and an abstract description of who observes an entity.
\<close>

section \<open>Trees without circles\<close>

definition above :: "tree \<Rightarrow> (addr \<times> addr) set" where
  "above t = {(p, a). parent_of t a = Some p}"

definition rooted :: "tree \<Rightarrow> bool" where
  "rooted t \<longleftrightarrow> wf (above t)"

lemma rooted_induct [consumes 1, case_names up]:
  assumes "rooted t" "\<And>a. (\<And>p. parent_of t a = Some p \<Longrightarrow> P p) \<Longrightarrow> P a"
  shows "P a"
  using assms(1) unfolding rooted_def by (induction a rule: wf_induct_rule) (auto intro: assms(2) simp: above_def)

lemma rooted_not_own_parent: "rooted t \<Longrightarrow> parent_of t a \<noteq> Some a"
  unfolding rooted_def by (auto simp: above_def dest: wf_not_refl [where a = a])

lemma find_domain_simps:
  "find_domain t this None highest = Some (Searched None highest)"
  "find_domain t this (Some e) highest = (if Some e = this then Some InsideOfIt
       else (case domain_of t e of Some d \<Rightarrow> Some (Searched (Some d) highest)
         | None \<Rightarrow> find_domain t this (parent_of t e) e))"
  by (simp_all add: find_domain.simps [of t this "None"] find_domain.simps [of t this "Some e"])

lemma find_domain_ends:
  assumes "rooted t" shows "\<exists>s. find_domain t this a highest = Some s"
proof (cases a)
  case None then show ?thesis by (simp add: find_domain_simps)
next
  case (Some e)
  have "\<exists>s. find_domain t this (Some e) highest = Some s" for highest
    using assms
  proof (induction e arbitrary: highest rule: rooted_induct)
    case (up e)
    show ?case
    proof (cases "parent_of t e")
      case None then show ?thesis by (simp add: find_domain_simps split: option.split)
    next
      case (Some p) with up.IH [of p] show ?thesis by (auto simp: find_domain_simps split: option.split)
    qed
  qed
  with Some show ?thesis by simp
qed

lemma climb_ends: "rooted t \<Longrightarrow> \<exists>r. climb t ob op d highest acc a = Some r"
proof (induction a arbitrary: acc rule: rooted_induct)
  case (up a)
  show ?case
  proof (cases "parent_of t a")
    case None then show ?thesis by (simp add: climb.simps [of _ _ _ _ _ _ a])
  next
    case (Some p) with up.IH [of p] show ?thesis by (auto simp: climb.simps [of _ _ _ _ _ _ a])
  qed
qed

lemma reach_up_ends: "rooted t \<Longrightarrow> \<exists>r. reach_up t near x target d highest acc a = Some r"
proof (induction a arbitrary: acc rule: rooted_induct)
  case (up a)
  show ?case
  proof (cases "parent_of t a")
    case None then show ?thesis by (simp add: reach_up.simps [of _ _ _ _ _ _ _ a])
  next
    case (Some p) with up.IH [of p] show ?thesis by (auto simp: reach_up.simps [of _ _ _ _ _ _ _ a])
  qed
qed

section \<open>What is private stays private\<close>

text \<open>An entity is loosely inside of another if it is inside of it with no domain in between.\<close>

inductive loosely_inside :: "tree \<Rightarrow> addr \<Rightarrow> addr \<Rightarrow> bool" for t this where
  child: "parent_of t a = Some this \<Longrightarrow> loosely_inside t this a"
| below: "parent_of t a = Some p \<Longrightarrow> p \<noteq> this \<Longrightarrow> domain_of t p = None \<Longrightarrow> loosely_inside t this p \<Longrightarrow> loosely_inside t this a"

inductive_simps loosely_inside_simps: "loosely_inside t this a"

lemma find_domain_inside:
  "rooted t \<Longrightarrow> find_domain t (Some this) (parent_of t a) h = Some InsideOfIt \<longleftrightarrow> loosely_inside t this a"
proof (induction a arbitrary: h rule: rooted_induct)
  case (up a)
  show ?case
  proof (cases "parent_of t a")
    case None then show ?thesis by (subst loosely_inside_simps) (simp add: find_domain_simps)
  next
    case (Some p)
    show ?thesis
    proof (cases "p = this")
      case True with Some show ?thesis by (subst loosely_inside_simps) (simp add: find_domain_simps)
    next
      case False
      with Some up.IH [OF Some] show ?thesis
        by (subst loosely_inside_simps) (auto simp: find_domain_simps split: option.split)
    qed
  qed
qed

lemma climb_contains:
  "rooted t \<Longrightarrow> climb t ob op d h acc a = Some (Some (as, k)) \<Longrightarrow> set acc \<union> {a} \<subseteq> set as"
proof (induction a arbitrary: acc rule: rooted_induct)
  case (up a)
  show ?case
  proof (cases "parent_of t a")
    case None with up.prems show ?thesis by (auto simp: climb.simps [of _ _ _ _ _ _ a] split: if_splits)
  next
    case (Some p)
    with up.IH [of p "acc @ [a]"] up.prems show ?thesis by (auto simp: climb.simps [of _ _ _ _ _ _ a] split: if_splits)
  qed
qed

lemma visible_down_all:
  "visible_down t ob d as \<Longrightarrow> a \<in> set as \<Longrightarrow>
   \<not> (flagged t entity_visibility_private a \<and> \<not> flagged t entity_admin ob)
   \<and> \<not> (flagged t entity_visibility_protected a \<and> parent_of t a \<noteq> Some ob \<and> \<not> flagged t entity_admin ob)"
  by (induction as arbitrary: d) auto

lemma from_afar_hidden:
  assumes "rooted t" "visible_from_afar t this ob = Some True" "\<not> flagged t entity_admin ob"
  shows "loosely_inside t this ob \<or> \<not> flagged t entity_visibility_private this
    \<and> (flagged t entity_visibility_protected this \<longrightarrow> parent_of t this = Some ob)"
proof -
  from find_domain_ends [OF assms(1)] obtain s where s: "find_domain t (Some this) (parent_of t ob) ob = Some s" by blast
  show ?thesis
  proof (cases s)
    case InsideOfIt with s find_domain_inside [OF assms(1)] show ?thesis by blast
  next
    case (Searched d h)
    with assms(2) s obtain as k where c: "climb t ob (parent_of t ob) d h [] this = Some (Some (as, k))"
      "visible_down t ob k (rev as)"
      by (auto simp: visible_from_afar_def split: option.splits)
    from climb_contains [OF assms(1) c(1)] have "this \<in> set (rev as)" by simp
    from visible_down_all [OF c(2) this] assms(3) show ?thesis by blast
  qed
qed

lemma visible_ends: "rooted t \<Longrightarrow> \<exists>b. isVisibleForOtherEntity t this ob = Some b"
proof -
  assume r: "rooted t"
  have "\<exists>b. visible_from_afar t this ob = Some b"
  proof -
    from find_domain_ends [OF r] obtain s where s: "find_domain t (Some this) (parent_of t ob) ob = Some s" by blast
    show ?thesis
    proof (cases s)
      case InsideOfIt with s show ?thesis by (intro exI [of _ True]) (simp add: visible_from_afar_def)
    next
      case (Searched d h)
      from climb_ends [OF r] obtain c where "climb t ob (parent_of t ob) d h [] this = Some c" by blast
      with s Searched show ?thesis by (cases c) (auto simp: visible_from_afar_def)
    qed
  qed
  then show ?thesis by (cases "ob = this") (auto simp: isVisibleForOtherEntity_def split: option.split)
qed

section \<open>The shortcut\<close>

lemma same_domain_parents: "same_domain t this ob = Some (p, k) \<Longrightarrow>
  parent_of t this = Some p \<and> parent_of t ob = Some p \<and> domain_of t p = Some (p, k)"
  by (auto simp: same_domain_def domain_of_def split: option.splits if_splits)

text \<open>What the general way asks of the common parent.\<close>

definition parent_clear :: "tree \<Rightarrow> addr \<Rightarrow> addr \<times> domain \<Rightarrow> bool" where
  "parent_clear t ob d \<longleftrightarrow> isEntityVisibleFor t d ob (fst d)
     \<and> (flagged t entity_visibility_private (fst d) \<longrightarrow> flagged t entity_admin ob)
     \<and> (flagged t entity_visibility_protected (fst d) \<longrightarrow> parent_of t (fst d) = Some ob \<or> flagged t entity_admin ob)"

lemma from_afar_siblings:
  assumes "rooted t" "this \<noteq> ob" "same_domain t this ob = Some d"
  shows "visible_from_afar t this ob = Some (parent_clear t ob d \<and> visible_in_same_domain t this ob d)"
proof -
  obtain p k where d: "d = (p, k)" by (cases d)
  from same_domain_parents assms(3) d have p: "parent_of t this = Some p" "parent_of t ob = Some p" "domain_of t p = Some (p, k)"
    by auto
  have n: "p \<noteq> this" "p \<noteq> ob" using rooted_not_own_parent [OF assms(1)] p(1,2) by auto
  have "find_domain t (Some this) (parent_of t ob) ob = Some (Searched (Some (p, k)) ob)"
    using p n by (simp add: find_domain_simps)
  moreover have "climb t ob (parent_of t ob) (Some (p, k)) ob [] this = Some (Some ([this, p], Some (p, k)))"
    using p n assms(2) by (simp add: climb.simps [of _ _ _ _ _ _ this] climb.simps [of _ _ _ _ _ _ p])
  ultimately show ?thesis using p n
    by (auto simp: visible_from_afar_def parent_clear_def visible_in_same_domain_def d)
qed

section \<open>Observers\<close>

text \<open>Who observes what happens to \<open>child\<close>, as far as \<open>this\<close>, in which it is, and what is around it, are concerned.\<close>

inductive watches :: "tree \<Rightarrow> addr \<Rightarrow> addr \<Rightarrow> addr \<Rightarrow> bool" for t where
  itself: "flagged t entity_perceptive this \<Longrightarrow> watches t child this this"
| inside: "domain_of t this = Some d \<Longrightarrow> getObservingEntitiesFor t d child = Some l \<Longrightarrow> r \<in> set l \<Longrightarrow> watches t child this r"
| outside: "parent_of t this = Some p \<Longrightarrow> (\<And>d. domain_of t this = Some d \<Longrightarrow> isEntityVisibleFor t d p child) \<Longrightarrow>
    watches t this p r \<Longrightarrow> watches t child this r"

inductive_simps watches_simps: "watches t child this r"

inductive is_observer :: "tree \<Rightarrow> addr \<Rightarrow> addr \<Rightarrow> bool" for t this where
  own_eyes: "flagged t entity_perceptive this \<Longrightarrow> is_observer t this this"
| own_domain: "domain_of t this = Some d \<Longrightarrow> getObservingEntitiesFor t d this = Some l \<Longrightarrow> r \<in> set l \<Longrightarrow> is_observer t this r"
| around: "parent_of t this = Some p \<Longrightarrow> watches t this p r \<Longrightarrow> is_observer t this r"

inductive_simps is_observer_simps: "is_observer t this r"

text \<open>No domain has a freed entry among the observers of anybody.\<close>

definition observers_known :: "tree \<Rightarrow> bool" where
  "observers_known t \<longleftrightarrow> (\<forall>a d x. domain_of t a = Some d \<longrightarrow> getObservingEntitiesFor t d x \<noteq> None)"

lemma insert_all_facts [simp]: "set (insert_all l s) = set l \<union> set s" "sorted s \<Longrightarrow> sorted (insert_all l s)"
  "distinct s \<Longrightarrow> distinct (insert_all l s)"
  by (induction l arbitrary: s) (auto simp: insert_all_def sorted_set_insert distinct_set_insert)

lemma observers_in_ok:
  assumes "observers_known t" "sorted s" "distinct s"
  shows "\<exists>s'. observers_in t (domain_of t a) x s = Some s' \<and> sorted s' \<and> distinct s'
    \<and> (\<forall>r. r \<in> set s' \<longleftrightarrow> r \<in> set s \<or> (\<exists>d l. domain_of t a = Some d \<and> getObservingEntitiesFor t d x = Some l \<and> r \<in> set l))"
proof (cases "domain_of t a")
  case None then show ?thesis using assms by (simp add: observers_in_def)
next
  case (Some d)
  with assms(1) have "getObservingEntitiesFor t d x \<noteq> None" unfolding observers_known_def by blast
  then obtain l where "getObservingEntitiesFor t d x = Some l" by blast
  with Some assms show ?thesis by (auto simp: observers_in_def)
qed

lemma collectObserversForChild_ok:
  assumes "rooted t" "observers_known t" "sorted s" "distinct s"
  shows "\<exists>s'. collectObserversForChild t this child s = Some s' \<and> sorted s' \<and> distinct s'
    \<and> (\<forall>r. r \<in> set s' \<longleftrightarrow> r \<in> set s \<or> watches t child this r)"
  using assms(1,3,4)
proof (induction this arbitrary: child s rule: rooted_induct)
  case (up this)
  let ?s0 = "if flagged t entity_perceptive this then set_insert this s else s"
  have "sorted ?s0" "distinct ?s0" using up.prems by (simp_all add: sorted_set_insert distinct_set_insert)
  from observers_in_ok [OF assms(2) this, of this child] obtain s1 where
    s1: "observers_in t (domain_of t this) child ?s0 = Some s1" "sorted s1" "distinct s1"
      and m: "\<And>r. r \<in> set s1 \<longleftrightarrow> r \<in> set ?s0
        \<or> (\<exists>d l. domain_of t this = Some d \<and> getObservingEntitiesFor t d child = Some l \<and> r \<in> set l)"
    by blast
  have "r \<in> set ?s0 \<longleftrightarrow> r \<in> set s \<or> (flagged t entity_perceptive this \<and> r = this)" for r by auto
  note s1 = s1 m [unfolded this]
  show ?case
  proof (cases "parent_of t this")
    case None
    then have "collectObserversForChild t this child s = Some s1" using s1(1) by (simp add: collectObserversForChild.simps [of _ this])
    then show ?thesis using s1 None by (subst watches_simps) auto
  next
    case (Some p)
    show ?thesis
    proof (cases "case domain_of t this of None \<Rightarrow> False | Some k \<Rightarrow> \<not> isEntityVisibleFor t k p child")
      case True
      then have "collectObserversForChild t this child s = Some s1" using s1(1) Some
        by (simp add: collectObserversForChild.simps [of _ this])
      then show ?thesis using s1 Some True by (subst watches_simps) (auto split: option.splits)
    next
      case False
      then have "collectObserversForChild t this child s = collectObserversForChild t p this s1" using s1(1) Some
        by (simp add: collectObserversForChild.simps [of _ this])
      with up.IH [OF Some s1(2,3), of this] obtain s2 where
        "collectObserversForChild t this child s = Some s2" "sorted s2" "distinct s2"
        "\<forall>r. r \<in> set s2 \<longleftrightarrow> r \<in> set s1 \<or> watches t this p r" by auto
      then show ?thesis using s1(4) Some False
        by (intro exI [of _ s2], subst watches_simps) (auto split: option.splits)
    qed
  qed
qed

lemma collectObservers_ok:
  assumes "rooted t" "observers_known t"
  shows "\<exists>l. collectObservers t this = Some l \<and> sorted l \<and> distinct l \<and> (\<forall>r. r \<in> set l \<longleftrightarrow> is_observer t this r)"
proof -
  let ?s0 = "if flagged t entity_perceptive this then [this] else []"
  have "sorted ?s0" "distinct ?s0" by simp_all
  from observers_in_ok [OF assms(2) this, of this this] obtain s1 where
    s1: "observers_in t (domain_of t this) this ?s0 = Some s1" "sorted s1" "distinct s1"
      and m: "\<And>r. r \<in> set s1 \<longleftrightarrow> r \<in> set ?s0
        \<or> (\<exists>d l. domain_of t this = Some d \<and> getObservingEntitiesFor t d this = Some l \<and> r \<in> set l)"
    by blast
  have "r \<in> set ?s0 \<longleftrightarrow> flagged t entity_perceptive this \<and> r = this" for r by auto
  note s1 = s1 m [unfolded this]
  show ?thesis
  proof (cases "parent_of t this")
    case None
    then show ?thesis using s1 by (subst is_observer_simps) (auto simp: collectObservers_def)
  next
    case (Some p)
    from collectObserversForChild_ok [OF assms s1(2,3), of p this] obtain s2 where
      "collectObserversForChild t p this s1 = Some s2" "sorted s2" "distinct s2"
      "\<forall>r. r \<in> set s2 \<longleftrightarrow> r \<in> set s1 \<or> watches t this p r" by auto
    then show ?thesis using s1 Some by (subst is_observer_simps) (auto simp: collectObservers_def)
  qed
qed

end
