(* ===== verification/Tree_Moves.thy ===== *)
theory Tree_Moves
  imports Tree_Guarantees
begin

text \<open>
  Entities that change their container: \<open>addChild\<close>, \<open>removeChild\<close>, \<open>changeContainer\<close> and the parts of
  \<open>moveOurselves\<close>, \<open>moveToNewLocation\<close> and \<open>destroy\<close> that concern the tree
  (\<open>apps/cyphesis/src/rules/simulation/LocatedEntity.cpp\<close>). What a domain does with a child that arrives or leaves is
  behind an interface; the domains of Cyphesis provide it, for children that are not merged into a stack. Ids are looked
  up as numbers (\<open>apps/cyphesis/src/common/id.cpp\<close>). A failed assertion is \<open>None\<close>.
\<close>

section \<open>Ids\<close>

definition integerId :: "string \<Rightarrow> i64" where
  "integerId i = (case stol i of None \<Rightarrow> - 1 | Some n \<Rightarrow> n)"

definition getEntity :: "(i64, addr) smap \<Rightarrow> string \<Rightarrow> addr option" where
  "getEntity es i = smap_find (integerId i) es"

section \<open>The links of the tree\<close>

definition update_node :: "addr \<Rightarrow> (node \<Rightarrow> node) \<Rightarrow> tree \<Rightarrow> tree" where
  "update_node a f t = t(a := map_option f (t a))"

definition add_entity_flags :: "32 word \<Rightarrow> addr \<Rightarrow> tree \<Rightarrow> tree" where
  "add_entity_flags f a = update_node a (\<lambda>n. n\<lparr>nd_entity := (nd_entity n)\<lparr>le_flags := add_flags f (le_flags (nd_entity n))\<rparr>\<rparr>)"

definition remove_entity_flags :: "32 word \<Rightarrow> addr \<Rightarrow> tree \<Rightarrow> tree" where
  "remove_entity_flags f a =
     update_node a (\<lambda>n. n\<lparr>nd_entity := (nd_entity n)\<lparr>le_flags := remove_flags f (le_flags (nd_entity n))\<rparr>\<rparr>)"

type_synonym hook = "addr \<Rightarrow> addr \<Rightarrow> tree \<Rightarrow> tree option"

text \<open>What the domain of a container, if it has one, does with a child.\<close>

definition call_hook :: "hook \<Rightarrow> addr \<Rightarrow> addr \<Rightarrow> tree \<Rightarrow> tree option" where
  "call_hook hook p c t = (case domain_of t p of None \<Rightarrow> Some t | Some d \<Rightarrow> hook p c t)"

text \<open>The property that shows the contents is not kept among the properties of the entity: it only refers to
  \<open>nd_contains\<close>, and a look renders it from there.\<close>

definition makeContainer :: "addr \<Rightarrow> tree \<Rightarrow> tree" where
  "makeContainer a = update_node a (\<lambda>n. case nd_contains n of None \<Rightarrow> n\<lparr>nd_contains := Some []\<rparr> | Some l \<Rightarrow> n)"

definition insert_child :: "addr \<Rightarrow> addr \<Rightarrow> tree \<Rightarrow> tree" where
  "insert_child p c = update_node p (\<lambda>n. n\<lparr>nd_contains := map_option (set_insert c) (nd_contains n)\<rparr>)"

definition erase_child :: "addr \<Rightarrow> addr \<Rightarrow> tree \<Rightarrow> tree" where
  "erase_child p c = update_node p (\<lambda>n. n\<lparr>nd_contains := map_option (remove1 c) (nd_contains n)\<rparr>)"

definition set_parent :: "addr \<Rightarrow> addr option \<Rightarrow> tree \<Rightarrow> tree" where
  "set_parent c p = update_node c (\<lambda>n. n\<lparr>nd_parent := p\<rparr>)"

definition addChild :: "hook \<Rightarrow> addr \<Rightarrow> addr \<Rightarrow> tree \<Rightarrow> tree option" where
  "addChild on_add p c t = call_hook on_add p c (set_parent c (Some p) (insert_child p c (makeContainer p t)))"

definition removeChild :: "hook \<Rightarrow> addr \<Rightarrow> addr \<Rightarrow> tree \<Rightarrow> tree option" where
  "removeChild on_remove p c t = (if c \<notin> set (contains_of t p) then None
     else map_option (erase_child p c) (call_hook on_remove p c t))"

text \<open>The location as a property that has changed.\<close>

definition apply_location :: "addr \<Rightarrow> tree \<Rightarrow> tree" where
  "apply_location c = update_node c (\<lambda>n. n\<lparr>nd_loc_unsent := True,
     nd_entity := (nd_entity n)\<lparr>le_flags := remove_flags entity_clean (le_flags (nd_entity n))\<rparr>\<rparr>)"

definition changeContainer :: "hook \<Rightarrow> hook \<Rightarrow> addr \<Rightarrow> addr \<Rightarrow> tree \<Rightarrow> tree option" where
  "changeContainer on_add on_remove c new t =
     Option.bind (case parent_of t c of None \<Rightarrow> Some t | Some p \<Rightarrow> removeChild on_remove p c t)
       (\<lambda>t1. map_option (apply_location c) (addChild on_add new c t1))"

section \<open>Moving\<close>

text \<open>Whether the way up from an entity meets another.\<close>

partial_function (option) meets :: "tree \<Rightarrow> addr \<Rightarrow> addr option \<Rightarrow> bool option" where
  "meets t this a = (case a of None \<Rightarrow> Some False
     | Some e \<Rightarrow> if e = this then Some True else meets t this (parent_of t e))"

datatype destination = Stay | Refused string | MoveTo addr | AssertionFailed

text \<open>Where a move operation with this container leads. Moving needs a container to be in already.\<close>

definition new_location :: "(i64, addr) smap \<Rightarrow> tree \<Rightarrow> addr \<Rightarrow> string option \<Rightarrow> destination option" where
  "new_location es t this loc = (case loc of None \<Rightarrow> Some Stay
     | Some l \<Rightarrow> (case parent_of t this of None \<Rightarrow> None
       | Some p \<Rightarrow> if l = show_i64 (id_of t p) then Some Stay
         else (case getEntity es l of None \<Rightarrow> Some (Refused ''Move op loc does not exist'')
           | Some n \<Rightarrow> map_option (\<lambda>m. if m then Refused ''Attempt to move into itself''
               else if n = p then AssertionFailed else MoveTo n) (meets t this (Some n)))))"

definition entity_dirty_location :: "32 word" where "entity_dirty_location = 2048"

text \<open>\<open>enqueueUpdateOp\<close> with the operations of the caller: at most one such operation waits.\<close>

definition enqueue_update :: "addr \<Rightarrow> tree \<Rightarrow> tree \<times> oper list" where
  "enqueue_update a t = (if flagged t entity_update_broadcast_queued a then (t, [])
     else (add_entity_flags entity_update_broadcast_queued a t, [set_to (show_i64 (id_of t a)) (new_op Update)]))"

text \<open>What a perceptive entity sees in the domain that it is in, together with its container.\<close>

definition seen_before :: "tree \<Rightarrow> (addr \<Rightarrow> addr \<Rightarrow> addr \<Rightarrow> bool) \<Rightarrow> addr \<Rightarrow> addr list option" where
  "seen_before t near this = (case parent_of t this of None \<Rightarrow> Some []
     | Some p \<Rightarrow> (case domain_of t p of None \<Rightarrow> Some []
       | Some d \<Rightarrow> if flagged t entity_perceptive this
           then map_option (\<lambda>l. remove1 this (set_insert p (insert_all l []))) (getVisibleEntitiesFor t near d this)
           else Some []))"

text \<open>What it is told to have lost sight of behind the move from \<open>old\<close> to \<open>new\<close>: if there is a new domain, what the old
  one still shows is left out.\<close>

definition gone_from_sight ::
  "tree \<Rightarrow> (addr \<Rightarrow> addr \<Rightarrow> addr \<Rightarrow> bool) \<Rightarrow> addr \<Rightarrow> addr option \<Rightarrow> addr \<Rightarrow> addr list \<Rightarrow> addr list option" where
  "gone_from_sight t near this old new seen = (if seen = [] then Some [] else
     (case domain_of t new of None \<Rightarrow> Some (remove1 new seen)
      | Some _ \<Rightarrow> (case Option.bind old (domain_of t) of None \<Rightarrow> Some (remove1 new seen)
        | Some d \<Rightarrow> map_option (\<lambda>l. filter (\<lambda>e. e = this \<or> e \<notin> set l) (remove1 new seen))
            (getVisibleEntitiesFor t near d this))))"

definition tell_gone :: "tree \<Rightarrow> addr \<Rightarrow> addr list \<Rightarrow> oper list" where
  "tell_gone t this gone = (if gone = [] then []
     else [set_args (map (sight_of t) gone) (set_to (show_i64 (id_of t this)) (new_op Disappearance))])"

definition moveToNewLocation ::
  "hook \<Rightarrow> hook \<Rightarrow> (addr \<Rightarrow> addr \<Rightarrow> addr \<Rightarrow> bool) \<Rightarrow> addr \<Rightarrow> addr \<Rightarrow> tree \<Rightarrow> (tree \<times> oper list) option" where
  "moveToNewLocation on_add on_remove near this new t =
     Option.bind (collectObservers t this) (\<lambda>previous.
     Option.bind (seen_before t near this) (\<lambda>seen.
     Option.bind (changeContainer on_add on_remove this new t) (\<lambda>t1.
     Option.bind (processAppearDisappear t1 this previous) (\<lambda>res.
     if flagged t1 entity_destroyed this then Some (t1, res)
     else (case enqueue_update this (add_entity_flags entity_dirty_location this t1) of (t2, up) \<Rightarrow>
       map_option (\<lambda>gone. (t2, res @ up @ tell_gone t2 this gone))
         (gone_from_sight t2 near this (parent_of t this) new seen))))))"

text \<open>\<open>destroy\<close>: \<open>move_out\<close> stands for the call by which each entity inside handles the operation that moves it to the
  container of the one that is destroyed. A script or a property may block it, so it is a parameter.\<close>

definition destroy :: "hook \<Rightarrow> (addr \<Rightarrow> addr option \<Rightarrow> tree \<Rightarrow> tree option) \<Rightarrow> addr \<Rightarrow> tree \<Rightarrow> tree option" where
  "destroy on_remove move_out a t =
     Option.bind (fold_opt (\<lambda>c t. move_out c (parent_of t a) t) (contains_of t a) (add_entity_flags entity_destroyed a t)) (\<lambda>t1.
     (case parent_of t1 a of None \<Rightarrow> Some t1
      | Some p \<Rightarrow> map_option (set_parent a None) (removeChild on_remove p a t1)))"

section \<open>The domains\<close>

definition set_mode :: "mode_data option \<Rightarrow> addr \<Rightarrow> tree \<Rightarrow> tree" where
  "set_mode m a = update_node a (\<lambda>n. n\<lparr>nd_mode := m\<rparr>)"

definition set_domain :: "domain option \<Rightarrow> addr \<Rightarrow> tree \<Rightarrow> tree" where
  "set_domain d a = update_node a (\<lambda>n. n\<lparr>nd_domain := d\<rparr>)"

definition told_more :: "addr \<Rightarrow> (string \<times> addr \<times> addr list) list \<Rightarrow> (string \<times> addr \<times> addr list) list" where
  "told_more c rs = map (\<lambda>(i, ob, l). (i, ob, l @ [c])) rs"

definition told_less :: "addr \<Rightarrow> (string \<times> addr \<times> addr list) list \<Rightarrow> (string \<times> addr \<times> addr list) list" where
  "told_less c rs = map (\<lambda>(i, ob, l). (i, ob, filter (\<lambda>x. x \<noteq> c) l)) rs"

text \<open>The update that a changed mode calls for goes straight to the world.\<close>

definition reset_mode :: "addr \<Rightarrow> tree \<Rightarrow> tree" where
  "reset_mode c t = update_node c (\<lambda>n. n\<lparr>nd_entity := enqueueUpdateOp (nd_entity n)\<rparr>) (set_mode (Some UnknownMode) c t)"

text \<open>\<open>engine_env\<close> is what a physical domain gets from the physics engine for a new child: the calls, the two
  collision objects and the entry; \<open>None\<close> if the child has no valid position.\<close>

type_synonym engine_env =
  "tree \<Rightarrow> addr \<Rightarrow> addr \<Rightarrow> ((engine_calls \<times> engine_calls \<times> engine_calls \<times> engine_calls) \<times> nat \<times> nat \<times> eptr) option"

text \<open>Void domains and stacks.\<close>

definition void_add :: "addr \<Rightarrow> tree \<Rightarrow> tree" where
  "void_add c t = (let t1 = remove_entity_flags entity_clean c t
     in case mode_of t1 c of None \<Rightarrow> t1 | Some UnknownMode \<Rightarrow> t1 | Some _ \<Rightarrow> reset_mode c t1)"

definition inventory_add :: "addr \<Rightarrow> addr \<Rightarrow> tree \<Rightarrow> tree" where
  "inventory_add p c t = (let t1 = remove_entity_flags entity_clean c t
     in case mode_of t1 c of Some (Planted (Some i)) \<Rightarrow> if i \<noteq> id_of t p then reset_mode c t1 else t1 | _ \<Rightarrow> t1)"

definition container_add :: "(string \<times> addr \<times> addr list) list \<Rightarrow> addr \<Rightarrow> addr \<Rightarrow> tree \<Rightarrow> tree" where
  "container_add rs p c t = (let t1 = remove_entity_flags entity_clean c t;
       t2 = (case mode_of t1 c of None \<Rightarrow> t1 | Some _ \<Rightarrow> set_mode (Some UnknownMode) c t1)
     in set_domain (Some (ContainerDomain (told_more c rs))) p t2)"

definition domain_add :: "engine_env \<Rightarrow> hook" where
  "domain_add env p c t = (case domain_of t p of None \<Rightarrow> Some t
     | Some (_, d) \<Rightarrow> (case d of
         VoidDomain \<Rightarrow> Some (void_add c t)
       | InventoryDomain \<Rightarrow> Some (inventory_add p c t)
       | StackableDomain \<Rightarrow> Some (void_add c t)
       | ContainerDomain rs \<Rightarrow> Some (container_add rs p c t)
       | PhysicalDomain ph \<Rightarrow> (case env t p c of None \<Rightarrow> Some t | Some (calls, vis, view, q) \<Rightarrow>
           map_option (\<lambda>(ph', _). set_domain (Some (PhysicalDomain ph')) p t)
             (Domain_Physical.addEntity (\<lambda>a. (id_of t a, seq_of t a)) (flagged t entity_perceptive c)
                (flagged t entity_perceptive p) calls vis view q c ph))))"

definition domain_remove :: "(tree \<Rightarrow> addr \<Rightarrow> addr \<Rightarrow> engine_calls) \<Rightarrow> hook" where
  "domain_remove calls p c t = (case domain_of t p of None \<Rightarrow> Some t
     | Some (_, d) \<Rightarrow> (case d of
         ContainerDomain rs \<Rightarrow> Some (set_domain (Some (ContainerDomain (told_less c rs))) p t)
       | PhysicalDomain ph \<Rightarrow> map_option (\<lambda>ph'. set_domain (Some (PhysicalDomain ph')) p t)
           (Domain_Physical.removeEntity (flagged t entity_perceptive p) (calls t p c) (id_of t c) ph)
       | _ \<Rightarrow> Some t))"

text \<open>The loops are evaluated by their equations.\<close>

declare meets.simps [code]

end
