(* ===== verification/Tree_Update.thy ===== *)
theory Tree_Update
  imports Tree_Moves
begin

text \<open>
  What an entity tells of its properties: the update that sends those that have changed, and the answer to a look;
  and how an operation that reaches an entity is handled (\<open>apps/cyphesis/src/rules/simulation/LocatedEntity.cpp\<close>).
  Scripts, properties and listeners that take an operation before the entity does are parameters, and so are the
  handlers of the classes \<open>Delete\<close>, \<open>Move\<close> and \<open>Create\<close>. \<open>None\<close> is undefined behaviour.
\<close>

section \<open>Sending what has changed\<close>

definition prop_flag_visibility_non_public :: "32 word" where
  "prop_flag_visibility_non_public = or prop_flag_visibility_private prop_flag_visibility_protected"

text \<open>Who a property is for.\<close>

definition prop_audience :: "property \<Rightarrow> visibility" where
  "prop_audience p = (if has_flags (pr_flags p) prop_flag_visibility_private then PRIVATE
     else if has_flags (pr_flags p) prop_flag_visibility_protected then PROTECTED else PUBLIC)"

type_synonym changes = "visibility \<Rightarrow> map_type option"

definition add_change :: "visibility \<Rightarrow> string \<Rightarrow> elem \<Rightarrow> changes \<Rightarrow> changes" where
  "add_change a name v ch = ch(a := Some (smap_put name v (case ch a of None \<Rightarrow> [] | Some m \<Rightarrow> m)))"

definition mark_sent :: "property \<Rightarrow> property" where
  "mark_sent p = p\<lparr>pr_flags := remove_flags (or prop_flag_unsent prop_flag_persistence_clean) (pr_flags p)\<rparr>"

definition update_property :: "heap \<Rightarrow> located \<Rightarrow> string \<times> modifiable \<Rightarrow> (string, modifiable) smap \<times> changes
    \<Rightarrow> ((string, modifiable) smap \<times> changes) option" where
  "update_property h e x s = (case x of (name, mp) \<Rightarrow> case s of (ps, ch) \<Rightarrow>
     (case mp_property mp of None \<Rightarrow> Some (ps @ [(name, mp)], ch)
      | Some p \<Rightarrow>
          if \<not> has_flags (pr_flags p) prop_flag_unsent then Some (ps @ [(name, mp)], ch)
          else (case prop_get h e p of Inl _ \<Rightarrow> None
            | Inr v \<Rightarrow> Some (ps @ [(name, mp\<lparr>mp_property := Some (mark_sent p)\<rparr>)], add_change (prop_audience p) name v ch))))"

definition loc_change :: "node \<Rightarrow> changes \<Rightarrow> changes" where
  "loc_change n ch = (if nd_loc_unsent n then ch(PUBLIC := Some (case ch PUBLIC of None \<Rightarrow> [] | Some m \<Rightarrow> m)) else ch)"

text \<open>The operation that an audience gets.\<close>

definition set_sight :: "i64 \<Rightarrow> i64 \<Rightarrow> string option \<Rightarrow> map_type \<Rightarrow> oper" where
  "set_sight i stamp loc m = set_args [OperArg (set_args [EntityArg (Some (show_i64 i)) None loc None m]
     (set_stamp stamp (set_from (show_i64 i) (set_to (show_i64 i) (new_op Set)))))] (new_op Sight)"

definition send_changes :: "tree \<Rightarrow> addr \<Rightarrow> oper \<Rightarrow> string option \<Rightarrow> changes \<Rightarrow> visibility \<Rightarrow> oper list option" where
  "send_changes t this op loc ch a = (case ch a of None \<Rightarrow> Some []
     | Some m \<Rightarrow> broadcast t a this (set_sight (id_of t this) (getStamp op) (if a = PUBLIC then loc else None) m))"

definition parent_name_of :: "tree \<Rightarrow> addr \<Rightarrow> string option" where
  "parent_name_of t this = map_option (\<lambda>p. show_i64 (id_of t p)) (parent_of t this)"

definition has_changes :: "changes \<Rightarrow> bool" where
  "has_changes ch \<longleftrightarrow> ch PUBLIC \<noteq> None \<or> ch PROTECTED \<noteq> None \<or> ch PRIVATE \<noteq> None"

definition updateProperties :: "heap \<Rightarrow> addr \<Rightarrow> oper \<Rightarrow> tree \<Rightarrow> (tree \<times> oper list) option" where
  "updateProperties h this op t = Option.bind (t this) (\<lambda>n.
     Option.bind (fold_opt (update_property h (nd_entity n)) (le_props (nd_entity n)) ([], \<lambda>_. None)) (\<lambda>(ps, ch0).
     let ch = loc_change n ch0;
         loc = (if nd_loc_unsent n then parent_name_of t this else None);
         fl = (if has_changes ch then remove_flags entity_clean (le_flags (nd_entity n)) else le_flags (nd_entity n));
         t1 = t(this \<mapsto> n\<lparr>nd_loc_unsent := False, nd_entity := (nd_entity n)\<lparr>le_props := ps, le_flags := fl\<rparr>\<rparr>)
     in
     Option.bind (send_changes t1 this op loc ch PUBLIC) (\<lambda>r1.
     Option.bind (send_changes t1 this op loc ch PROTECTED) (\<lambda>r2.
     Option.bind (send_changes t1 this op loc ch PRIVATE) (\<lambda>r3.
     Some (remove_entity_flags entity_update_broadcast_queued this
             (if has_changes ch then update_node this (\<lambda>n. n\<lparr>nd_seq := nd_seq n + 1\<rparr>) t1 else t1), r1 @ r2 @ r3))))))"

definition UpdateOperation :: "heap \<Rightarrow> addr \<Rightarrow> oper \<Rightarrow> tree \<Rightarrow> (tree \<times> oper list) option" where
  "UpdateOperation h this op t = (if refno_attr op = None then updateProperties h this op t else Some (t, []))"

section \<open>Being looked at\<close>

text \<open>A reply names the serial number of what it answers.\<close>

definition answer_to :: "oper \<Rightarrow> oper \<Rightarrow> oper" where
  "answer_to op s = (case serialno_attr op of None \<Rightarrow> s | Some i \<Rightarrow> set_refno i s)"

text \<open>Which properties an observer is shown.\<close>

definition shown_to :: "tree \<Rightarrow> addr \<Rightarrow> addr \<Rightarrow> property \<Rightarrow> bool" where
  "shown_to t this observing p \<longleftrightarrow>
     (if flagged t entity_admin observing then True
      else if id_of t observing = id_of t this then \<not> has_flags (pr_flags p) prop_flag_visibility_private
      else \<not> has_flags (pr_flags p) prop_flag_visibility_non_public)"

definition contains_name :: string where "contains_name = ''contains''"

definition show_property :: "tree \<Rightarrow> heap \<Rightarrow> bool \<Rightarrow> addr \<Rightarrow> addr \<Rightarrow> located \<Rightarrow> string \<times> modifiable \<Rightarrow> map_type \<Rightarrow> map_type option" where
  "show_property t h skip_contains this observing e x m = (case x of (name, mp) \<Rightarrow>
     (case mp_property mp of None \<Rightarrow> None
      | Some p \<Rightarrow> if \<not> shown_to t this observing p \<or> skip_contains \<and> name = contains_name then Some m
          else (case prop_get h e p of Inl _ \<Rightarrow> None | Inr v \<Rightarrow> Some (smap_put name v m))))"

text \<open>The list of what is in the entity: its domain decides; without a domain all is listed if there is something.\<close>

definition name_list :: "tree \<Rightarrow> addr list \<Rightarrow> elem" where
  "name_list t l = EList (map (\<lambda>a. EString (show_i64 (id_of t a))) l)"

definition shown_contains :: "tree \<Rightarrow> (addr \<Rightarrow> addr \<Rightarrow> addr \<Rightarrow> bool) \<Rightarrow> addr \<Rightarrow> addr \<Rightarrow> node \<Rightarrow> (bool \<times> elem option) option" where
  "shown_contains t near this observing n = (case nd_contains n of None \<Rightarrow> Some (True, None)
     | Some l \<Rightarrow> (case domain_of t this of
          Some d \<Rightarrow> map_option (\<lambda>as. (True, Some (name_list t (filter (\<lambda>a. parent_of t a = Some this) as))))
            (getVisibleEntitiesFor t near d observing)
        | None \<Rightarrow> Some (False, if l = [] then None else Some (name_list t l))))"

definition generateSightOp :: "heap \<Rightarrow> (addr \<Rightarrow> addr \<Rightarrow> addr \<Rightarrow> bool) \<Rightarrow> addr \<Rightarrow> addr \<Rightarrow> oper \<Rightarrow> tree \<Rightarrow> oper option" where
  "generateSightOp h near this observing op t = Option.bind (t this) (\<lambda>n.
     Option.bind (shown_contains t near this observing n) (\<lambda>(skip_contains, contains).
     Option.bind (fold_opt (show_property t h skip_contains this observing (nd_entity n)) (le_props (nd_entity n)) []) (\<lambda>m.
     Option.bind (case parent_of t this of None \<Rightarrow> Some None
       | Some p \<Rightarrow> map_option (\<lambda>b. if b then parent_name_of t this else None) (isVisibleForOtherEntity t p observing)) (\<lambda>loc.
     Some (answer_to op (set_to (getFrom op) (set_args [EntityArg (Some (show_i64 (id_of t this))) (nd_type n) loc (Some (nd_seq n))
       (case contains of None \<Rightarrow> m | Some v \<Rightarrow> smap_put contains_name v m)] (new_op Sight))))))))"

definition LookOperation ::
  "heap \<Rightarrow> (addr \<Rightarrow> addr \<Rightarrow> addr \<Rightarrow> bool) \<Rightarrow> (i64, addr) smap \<Rightarrow> addr \<Rightarrow> oper \<Rightarrow> tree \<Rightarrow> oper list option" where
  "LookOperation h near es this op t = (case getEntity es (getFrom op) of None \<Rightarrow> Some []
     | Some watcher \<Rightarrow> Option.bind (isVisibleForOtherEntity t this watcher) (\<lambda>b.
         if b then map_option (\<lambda>s. [s]) (generateSightOp h near this watcher op t)
         else Some [answer_to op (set_args (op_args op) (set_to (getFrom op) (new_op Unseen)))]))"

section \<open>Other operations\<close>

definition ImaginaryOperation :: "oper \<Rightarrow> oper list" where
  "ImaginaryOperation op = [set_args [OperArg op] (case to_attr op of None \<Rightarrow> new_op Sight | Some r \<Rightarrow> set_to r (new_op Sight))]"

definition TalkOperation :: "oper \<Rightarrow> oper list" where
  "TalkOperation op = [set_args [OperArg op] (new_op Sound)]"

text \<open>An argument as a message. An empty list of arguments is no list of arguments here.\<close>

definition put_some :: "string \<Rightarrow> elem option \<Rightarrow> map_type \<Rightarrow> map_type" where
  "put_some k v m = (case v of None \<Rightarrow> m | Some x \<Rightarrow> smap_put k x m)"

fun as_message :: "oper \<Rightarrow> map_type" and root_message :: "root \<Rightarrow> map_type" where
  "as_message (Oper c p t f s u n r a) =
     put_some ''parent'' (if p = [] then None else Some (EString p)) (put_some ''to'' (map_option EString t)
     (put_some ''from'' (map_option EString f) (put_some ''stamp'' (map_option EInt s)
     (put_some ''future_milliseconds'' (map_option EInt u) (put_some ''serialno'' (map_option EInt n)
     (put_some ''refno'' (map_option EInt r) (put_some ''args'' (if a = [] then None else Some (EList (map (\<lambda>x. EMap (root_message x)) a)))
     [(''objtype'', EString ''op'')])))))))"
| "root_message (OperArg p) = as_message p"
| "root_message (EntityArg i p l s m) =
     put_some ''id'' (map_option EString i) (put_some ''parent'' (map_option EString p)
     (put_some ''loc'' (map_option EString l) (put_some ''stamp'' (map_option EInt s) m)))"

text \<open>\<open>listen\<close> is who listens to the properties of the entity, \<open>create\<close> the factory of properties.\<close>

definition SetOperation ::
  "(string \<Rightarrow> property) \<Rightarrow> heap \<Rightarrow> listener \<Rightarrow> addr \<Rightarrow> oper \<Rightarrow> tree \<Rightarrow> (tree \<times> oper list) option" where
  "SetOperation create h listen this op t = (case op_args op of
       [] \<Rightarrow> Some (t, [client_error op ''Set has no argument'' (show_i64 (id_of t this))])
     | arg # _ \<Rightarrow> Option.bind (t this) (\<lambda>n.
         (case merge create h listen (root_message arg) (nd_entity n) of Inl _ \<Rightarrow> None
          | Inr e \<Rightarrow>
              let t1 = t(this \<mapsto> n\<lparr>nd_entity := e\<rparr>);
                  reply = (case (serialno_attr op, from_attr op) of
                      (Some i, Some f) \<Rightarrow> [set_args [OperArg op] (set_refno i (set_to f (new_op Sight)))] | _ \<Rightarrow> [])
              in case enqueue_update this t1 of (t2, up) \<Rightarrow> Some (t2, reply @ up))))"

section \<open>Handling an operation\<close>

datatype handler_result = OPERATION_IGNORED | OPERATION_HANDLED | OPERATION_BLOCKED

type_synonym 's handler = "oper \<Rightarrow> 's \<Rightarrow> ('s \<times> oper list \<times> handler_result) option"

text \<open>Of the results the most blocking is kept, but \<open>OPERATION_IGNORED\<close> changes nothing.\<close>

definition more_blocking :: "handler_result \<Rightarrow> handler_result \<Rightarrow> handler_result" where
  "more_blocking hr call = (if hr = OPERATION_BLOCKED then hr else if call = OPERATION_IGNORED then hr else call)"

text \<open>The first script that blocks ends everything: \<open>True\<close> in the result.\<close>

fun run_scripts :: "'s handler list \<Rightarrow> oper \<Rightarrow> handler_result \<Rightarrow> 's \<times> oper list \<Rightarrow> ('s \<times> oper list \<times> handler_result \<times> bool) option" where
  "run_scripts [] op hr (s, res) = Some (s, res, hr, False)"
| "run_scripts (f # fs) op hr (s, res) = (case f op s of None \<Rightarrow> None
     | Some (s', r, call) \<Rightarrow> if call = OPERATION_BLOCKED then Some (s', res @ r, hr, True)
         else run_scripts fs op (if call = OPERATION_IGNORED then hr else call) (s', res @ r))"

fun run_all :: "'s handler list \<Rightarrow> oper \<Rightarrow> handler_result \<Rightarrow> 's \<times> oper list \<Rightarrow> ('s \<times> oper list \<times> handler_result) option" where
  "run_all [] op hr (s, res) = Some (s, res, hr)"
| "run_all (f # fs) op hr (s, res) = (case f op s of None \<Rightarrow> None
     | Some (s', r, call) \<Rightarrow> run_all fs op (more_blocking hr call) (s', res @ r))"

text \<open>The delegates of a class are properties, of the entity or of its type.\<close>

definition callDelegate :: "(property \<Rightarrow> 's handler) \<Rightarrow> ('s \<Rightarrow> located) \<Rightarrow> string \<Rightarrow> 's handler" where
  "callDelegate operate entity name op s = (case getProperty name (entity s) of
       None \<Rightarrow> Some (s, [], OPERATION_IGNORED) | Some p \<Rightarrow> operate p op s)"

definition delegates_for :: "(op_class \<times> string) list \<Rightarrow> op_class \<Rightarrow> string list" where
  "delegates_for ds c = map snd (filter (\<lambda>x. fst x = c) ds)"

definition entity_operation ::
  "'s handler list \<Rightarrow> 's handler list \<Rightarrow> 's handler list \<Rightarrow> (oper \<Rightarrow> 's \<Rightarrow> ('s \<times> oper list) option)
     \<Rightarrow> oper \<Rightarrow> 's \<Rightarrow> ('s \<times> oper list) option" where
  "entity_operation scripts delegates listeners own op s =
     Option.bind (if is_perception (op_class op) then Some (s, [], OPERATION_IGNORED, False)
                  else run_scripts scripts op OPERATION_IGNORED (s, [])) (\<lambda>(s1, r1, hr1, stopped).
     if stopped then Some (s1, r1)
     else Option.bind (run_all delegates op hr1 (s1, r1)) (\<lambda>(s2, r2, hr2).
       if hr2 = OPERATION_BLOCKED then Some (s2, r2)
       else Option.bind (run_all listeners op hr2 (s2, r2)) (\<lambda>(s3, r3, hr3).
         if hr3 = OPERATION_BLOCKED then Some (s3, r3)
         else map_option (\<lambda>(s4, r4). (s4, r3 @ r4)) (own op s3))))"

text \<open>An operation that comes from outside: what is sent to the link, and what to the world.\<close>

definition externalOperation ::
  "(oper \<Rightarrow> 's \<Rightarrow> ('s \<times> oper list) option) \<Rightarrow> i64 \<Rightarrow> oper \<Rightarrow> 's \<Rightarrow> ('s \<times> oper list \<times> oper list) option" where
  "externalOperation operate i op s = map_option (\<lambda>(s', res). (s',
       if op_class op \<noteq> Thought
       then [client_error op ''An entity can only be externally controlled by Thoughts.'' (show_i64 i)] else [], res))
     (operate op s)"

text \<open>What the entity itself does. \<open>others\<close> are the handlers of \<open>Delete\<close>, \<open>Move\<close> and \<open>Create\<close>.\<close>

definition callOperation ::
  "(op_class \<Rightarrow> oper \<Rightarrow> tree \<Rightarrow> (tree \<times> oper list) option) \<Rightarrow> (string \<Rightarrow> property) \<Rightarrow> heap \<Rightarrow> listener
     \<Rightarrow> (addr \<Rightarrow> addr \<Rightarrow> addr \<Rightarrow> bool) \<Rightarrow> (i64, addr) smap \<Rightarrow> addr \<Rightarrow> oper \<Rightarrow> tree \<Rightarrow> (tree \<times> oper list) option" where
  "callOperation others create h listen near es this op t = (case op_class op of
       Imaginary \<Rightarrow> Some (t, ImaginaryOperation op)
     | Look \<Rightarrow> map_option (Pair t) (LookOperation h near es this op t)
     | Set \<Rightarrow> SetOperation create h listen this op t
     | Talk \<Rightarrow> Some (t, TalkOperation op)
     | Update \<Rightarrow> UpdateOperation h this op t
     | Delete \<Rightarrow> others Delete op t
     | Move \<Rightarrow> others Move op t
     | Create \<Rightarrow> others Create op t
     | _ \<Rightarrow> Some (t, []))"

end
