(* ===== verification/Tree_Properties.thy ===== *)
theory Tree_Properties
  imports Tree_Moves
begin

text \<open>
  What holds when entities change their container: the tree stays a tree, an entity is never put into itself, and those
  who observe it are told exactly of what has come into their sight or gone out of it.
\<close>

section \<open>The invariant of the tree\<close>

definition links :: "tree \<Rightarrow> addr \<Rightarrow> addr option \<times> addr list" where
  "links t = (\<lambda>a. (parent_of t a, contains_of t a))"

definition tree_ok :: "tree \<Rightarrow> bool" where
  "tree_ok t \<longleftrightarrow> rooted t \<and> (\<forall>a p. parent_of t a = Some p \<longleftrightarrow> a \<in> set (contains_of t p))
     \<and> (\<forall>p. sorted (contains_of t p) \<and> distinct (contains_of t p))"

definition same_links :: "tree \<Rightarrow> tree \<Rightarrow> bool" where
  "same_links t' t \<longleftrightarrow> links t' = links t \<and> dom t' = dom t"

lemma same_links_refl [simp]: "same_links t t"
  by (simp add: same_links_def)

lemma links_parts: "links t' = links t \<Longrightarrow> parent_of t' = parent_of t" "links t' = links t \<Longrightarrow> contains_of t' = contains_of t"
  by (auto simp: links_def fun_eq_iff)

lemma tree_ok_links: "links t' = links t \<Longrightarrow> tree_ok t' = tree_ok t"
  using links_parts [of t' t] by (simp add: tree_ok_def rooted_def above_def)

lemma links_update: "(\<And>n. t a = Some n \<Longrightarrow> nd_parent (f n) = nd_parent n \<and> nd_contains (f n) = nd_contains n)
  \<Longrightarrow> links (update_node a f t) = links t"
  by (auto simp: links_def parent_of_def contains_of_def update_node_def fun_eq_iff split: option.splits)

lemma dom_update_node [simp]: "dom (update_node a f t) = dom t"
  by (auto simp: update_node_def domIff)

lemma parent_contains_children:
  "parent_of (erase_child p c t) = parent_of t"
  "contains_of (erase_child p c t) = (contains_of t)(p := remove1 c (contains_of t p))"
  "parent_of (makeContainer p t) = parent_of t" "contains_of (makeContainer p t) = contains_of t"
  by (auto simp: erase_child_def makeContainer_def parent_of_def contains_of_def update_node_def fun_eq_iff split: option.splits)

lemma parent_set_parent: "c \<in> dom t \<Longrightarrow> parent_of (set_parent c p t) = (parent_of t)(c := p)"
  "contains_of (set_parent c p t) = contains_of t"
  by (auto simp: set_parent_def parent_of_def contains_of_def update_node_def fun_eq_iff split: option.splits)

lemma contains_insert_child:
  "p \<in> dom t \<Longrightarrow> contains_of (insert_child p c (makeContainer p t)) = (contains_of t)(p := set_insert c (contains_of t p))"
  "parent_of (insert_child p c t) = parent_of t"
  by (auto simp: insert_child_def makeContainer_def parent_of_def contains_of_def update_node_def fun_eq_iff split: option.splits)

lemma dom_tree_ops [simp]: "dom (erase_child p c t) = dom t" "dom (makeContainer p t) = dom t"
  "dom (insert_child p c t) = dom t" "dom (set_parent c q t) = dom t"
  by (simp_all add: erase_child_def makeContainer_def insert_child_def set_parent_def)

lemma apply_location_links [simp]: "same_links (apply_location c t) t"
  by (simp add: same_links_def apply_location_def links_update)

text \<open>The way up, as a relation.\<close>

lemma meets_simps: "meets t this None = Some False"
  "meets t this (Some e) = (if e = this then Some True else meets t this (parent_of t e))"
  by (simp_all add: meets.simps [of t this None] meets.simps [of t this "Some e"])

lemma meets_iff: "rooted t \<Longrightarrow> meets t this (Some a) = Some ((this, a) \<in> (above t)\<^sup>*)"
proof (induction a rule: rooted_induct)
  case (up a)
  show ?case
  proof (cases "a = this")
    case True then show ?thesis by (simp add: meets_simps)
  next
    case False
    have step: "(this, a) \<in> (above t)\<^sup>* \<longleftrightarrow> (\<exists>p. parent_of t a = Some p \<and> (this, p) \<in> (above t)\<^sup>*)"
      using False by (auto simp: above_def elim: rtranclE intro: rtrancl_into_rtrancl)
    show ?thesis
    proof (cases "parent_of t a")
      case None with False step show ?thesis by (simp add: meets_simps)
    next
      case (Some p) with False step up.IH [OF Some] show ?thesis by (simp add: meets_simps)
    qed
  qed
qed

section \<open>Changing the container\<close>

text \<open>What the tree needs of the domains: they leave its links alone.\<close>

locale container_hooks =
  fixes on_add :: hook and on_remove :: hook
  assumes add_links: "on_add p c t = Some t' \<Longrightarrow> same_links t' t"
    and remove_links: "on_remove p c t = Some t' \<Longrightarrow> same_links t' t"
begin

lemma call_hook_links:
  "call_hook on_add p c t = Some t' \<Longrightarrow> same_links t' t"
  "call_hook on_remove p c t = Some t' \<Longrightarrow> same_links t' t"
  by (cases "domain_of t p"; simp add: call_hook_def add_links remove_links)+

lemma removeChild_links:
  assumes "removeChild on_remove p c t = Some t'"
  shows "parent_of t' = parent_of t" "contains_of t' = (contains_of t)(p := remove1 c (contains_of t p))" "dom t' = dom t"
proof -
  from assms obtain t1 where t1: "call_hook on_remove p c t = Some t1" "t' = erase_child p c t1"
    by (auto simp: removeChild_def split: if_splits)
  note call_hook_links(2) [OF t1(1)]
  then show "parent_of t' = parent_of t" "contains_of t' = (contains_of t)(p := remove1 c (contains_of t p))" "dom t' = dom t"
    using t1(2) links_parts [of t1 t] by (simp_all add: parent_contains_children same_links_def)
qed

lemma addChild_links:
  assumes "addChild on_add p c t = Some t'" "p \<in> dom t" "c \<in> dom t"
  shows "parent_of t' = (parent_of t)(c := Some p)" "contains_of t' = (contains_of t)(p := set_insert c (contains_of t p))"
    "dom t' = dom t"
proof -
  let ?t = "set_parent c (Some p) (insert_child p c (makeContainer p t))"
  from assms(1) have "same_links t' ?t"
    unfolding addChild_def by (rule call_hook_links)
  then show "parent_of t' = (parent_of t)(c := Some p)" "contains_of t' = (contains_of t)(p := set_insert c (contains_of t p))"
    "dom t' = dom t"
    using links_parts [of t' ?t] assms(2,3)
    by (simp_all add: parent_set_parent contains_insert_child parent_contains_children same_links_def)
qed

lemma changeContainer_links:
  assumes ok: "tree_ok t" and "changeContainer on_add on_remove c new t = Some t'" "new \<in> dom t" "c \<in> dom t"
  shows "parent_of t' = (parent_of t)(c := Some new)"
    "set (contains_of t' p) = (if p = new then insert c (set (contains_of t p)) else set (contains_of t p) - {c})"
    "sorted (contains_of t' p) \<and> distinct (contains_of t' p)" "dom t' = dom t"
proof -
  have l: "parent_of t a = Some p \<longleftrightarrow> a \<in> set (contains_of t p)" "sorted (contains_of t p)" "distinct (contains_of t p)" for a p
    using ok by (auto simp: tree_ok_def)
  from assms(2) obtain t2 where t2: "t' = apply_location c t2"
    and a: "Option.bind (case parent_of t c of None \<Rightarrow> Some t | Some p \<Rightarrow> removeChild on_remove p c t) (addChild on_add new c) = Some t2"
    by (auto simp: changeContainer_def bind_eq_Some_conv)
  have same: "parent_of t' = parent_of t2" "contains_of t' = contains_of t2" "dom t' = dom t2"
    using apply_location_links [of c t2] links_parts [of t' t2] t2 by (auto simp: same_links_def)
  obtain t1 where t1: "addChild on_add new c t1 = Some t2" "parent_of t1 = parent_of t" "dom t1 = dom t"
    "\<And>p. set (contains_of t1 p) = set (contains_of t p) - (if parent_of t c = Some p then {c} else {})"
    "\<And>p. sorted (contains_of t1 p) \<and> distinct (contains_of t1 p)"
  proof (cases "parent_of t c")
    case None with a l that [of t] show thesis by auto
  next
    case (Some q)
    with a obtain t1 where r: "removeChild on_remove q c t = Some t1" "addChild on_add new c t1 = Some t2"
      by (auto simp: bind_eq_Some_conv)
    note r1 = removeChild_links [OF r(1)]
    have "set (contains_of t1 p) = set (contains_of t p) - (if parent_of t c = Some p then {c} else {})" for p
      using l(3) Some by (auto simp: r1(2))
    moreover have "sorted (contains_of t1 p) \<and> distinct (contains_of t1 p)" for p
      using l(2,3) by (simp add: r1(2) sorted_remove1)
    ultimately show thesis using r(2) r1(1,3) that by blast
  qed
  from addChild_links [OF t1(1)] t1(2,3) assms(3,4) same have t': "parent_of t' = (parent_of t)(c := Some new)"
    "contains_of t' = (contains_of t1)(new := set_insert c (contains_of t1 new))" "dom t' = dom t" by auto
  show "parent_of t' = (parent_of t)(c := Some new)" "dom t' = dom t" using t' by auto
  show "sorted (contains_of t' p) \<and> distinct (contains_of t' p)"
    using t1(5) by (simp add: t'(2) sorted_set_insert distinct_set_insert)
  show "set (contains_of t' p) = (if p = new then insert c (set (contains_of t p)) else set (contains_of t p) - {c})"
    using t1(4) l(1) [of c p] by (auto simp: t'(2))
qed

lemma changeContainer_ok:
  assumes ok: "tree_ok t" and "changeContainer on_add on_remove c new t = Some t'" "new \<in> dom t" "c \<in> dom t"
    and free: "(c, new) \<notin> (above t)\<^sup>*"
  shows "tree_ok t'"
proof -
  note l = changeContainer_links [OF assms(1-4)]
  let ?r = "above t - {(p, c) | p. True}"
  have "above t' = insert (new, c) ?r" unfolding above_def l(1) by (auto split: if_splits)
  moreover have "wf ?r" using ok by (auto simp: tree_ok_def rooted_def intro: wf_subset)
  moreover have "(c, new) \<notin> ?r\<^sup>*" using free by (meson Diff_subset rtrancl_mono subsetD)
  ultimately have "rooted t'" by (simp add: rooted_def)
  moreover have "parent_of t' a = Some p \<longleftrightarrow> a \<in> set (contains_of t' p)" for a p
    using ok l(1,2) by (auto simp: tree_ok_def)
  ultimately show ?thesis using l(3) by (simp add: tree_ok_def)
qed

text \<open>The assertions of \<open>removeChild\<close> hold.\<close>

lemma changeContainer_defined:
  assumes "tree_ok t" "\<And>p t. on_add p c t \<noteq> None" "\<And>p t. on_remove p c t \<noteq> None"
  shows "changeContainer on_add on_remove c new t \<noteq> None"
proof -
  have a: "addChild on_add new c t1 \<noteq> None" for t1
    using assms(2) by (simp add: addChild_def call_hook_def split: option.split)
  show ?thesis
  proof (cases "parent_of t c")
    case None with a show ?thesis by (simp add: changeContainer_def)
  next
    case (Some p)
    then have "c \<in> set (contains_of t p)" using assms(1) by (simp add: tree_ok_def)
    then have "removeChild on_remove p c t \<noteq> None" using assms(3)
      by (simp add: removeChild_def call_hook_def split: option.split)
    with a Some show ?thesis by (auto simp: changeContainer_def bind_eq_None_conv)
  qed
qed

end

section \<open>The domains of Cyphesis\<close>

lemma same_links_ops [simp]: "same_links (set_mode m a t') t = same_links t' t"
  "same_links (set_domain d a t') t = same_links t' t" "same_links (add_entity_flags f a t') t = same_links t' t"
  "same_links (remove_entity_flags f a t') t = same_links t' t" "same_links (reset_mode a t') t = same_links t' t"
  by (simp_all add: same_links_def set_mode_def set_domain_def add_entity_flags_def remove_entity_flags_def
      reset_mode_def links_update)

lemma domain_add_parts [simp]: "same_links (void_add c t) t" "same_links (inventory_add p c t) t" "same_links (container_add rs p c t) t"
  by (auto simp: void_add_def inventory_add_def container_add_def Let_def split: option.splits mode_data.splits)

lemma domain_add_links: "domain_add env p c t = Some t' \<Longrightarrow> same_links t' t"
  by (auto simp: domain_add_def Let_def split: option.splits domain.splits mode_data.splits if_splits)

lemma domain_remove_links: "domain_remove calls p c t = Some t' \<Longrightarrow> same_links t' t"
  by (auto simp: domain_remove_def split: option.splits domain.splits)

interpretation domains: container_hooks "domain_add env" "domain_remove calls" for env calls
  by unfold_locales (rule domain_add_links, assumption, rule domain_remove_links, assumption)

section \<open>Runs\<close>

text \<open>The moves of a run, in a world with the entities \<open>es\<close>; everything else that happens leaves the links alone.\<close>

inductive tree_run ::
  "engine_env \<Rightarrow> (tree \<Rightarrow> addr \<Rightarrow> addr \<Rightarrow> engine_calls) \<Rightarrow> (addr \<Rightarrow> addr \<Rightarrow> addr \<Rightarrow> bool) \<Rightarrow> (i64, addr) smap \<Rightarrow> tree \<Rightarrow> tree \<Rightarrow> bool"
  for env calls near es t0 where
  started: "tree_run env calls near es t0 t0"
| moved: "tree_run env calls near es t0 t \<Longrightarrow> smap_find i es = Some this \<Longrightarrow> new_location es t this loc = Some (MoveTo n)
    \<Longrightarrow> moveToNewLocation (domain_add env) (domain_remove calls) near this n t = Some (t', res) \<Longrightarrow> tree_run env calls near es t0 t'"
| worked: "tree_run env calls near es t0 t \<Longrightarrow> same_links t' t \<Longrightarrow> tree_run env calls near es t0 t'"

lemma new_location_MoveTo:
  assumes "rooted t" "new_location es t this loc = Some (MoveTo n)"
  shows "(this, n) \<notin> (above t)\<^sup>*" "\<exists>i. smap_find i es = Some n" "parent_of t this \<noteq> None" "parent_of t this \<noteq> Some n"
proof -
  from assms(2) obtain l p where l: "loc = Some l" "parent_of t this = Some p" "getEntity es l = Some n" "n \<noteq> p"
    "meets t this (Some n) = Some False"
    by (auto simp: new_location_def split: option.splits if_splits)
  then show "(this, n) \<notin> (above t)\<^sup>*" by (simp add: meets_iff [OF assms(1)])
  show "\<exists>i. smap_find i es = Some n" using l(3) by (auto simp: getEntity_def)
  show "parent_of t this \<noteq> None" "parent_of t this \<noteq> Some n" using l by auto
qed

lemma moveToNewLocation_changes:
  assumes "moveToNewLocation on_add on_remove near this n t = Some (t', res)"
  obtains previous seen t1 told gone where "collectObservers t this = Some previous" "seen_before t near this = Some seen"
    "changeContainer on_add on_remove this n t = Some t1" "processAppearDisappear t1 this previous = Some told"
    "same_links t' t1" "(\<exists>g. gone_from_sight t' near this (parent_of t this) n seen = Some g \<and> gone = tell_gone t' this g)
      \<or> gone = [] \<and> flagged t1 entity_destroyed this"
    "res = told @ (if flagged t1 entity_destroyed this then []
       else snd (enqueue_update this (add_entity_flags entity_dirty_location this t1))) @ gone"
proof -
  from assms obtain previous seen t1 told where b: "collectObservers t this = Some previous" "seen_before t near this = Some seen"
    "changeContainer on_add on_remove this n t = Some t1" "processAppearDisappear t1 this previous = Some told"
    "(if flagged t1 entity_destroyed this then Some (t1, told)
      else (case enqueue_update this (add_entity_flags entity_dirty_location this t1) of (t2, up) \<Rightarrow>
       map_option (\<lambda>gone. (t2, told @ up @ tell_gone t2 this gone))
         (gone_from_sight t2 near this (parent_of t this) n seen))) = Some (t', res)"
    unfolding moveToNewLocation_def bind_eq_Some_conv by blast
  have e: "same_links (fst (enqueue_update this t2)) t2" for t2 by (simp add: enqueue_update_def)
  show thesis
  proof (cases "flagged t1 entity_destroyed this")
    case True with b that [OF b(1-4), of "[]"] show thesis by simp
  next
    case False
    obtain t2 up where u: "enqueue_update this (add_entity_flags entity_dirty_location this t1) = (t2, up)" by fastforce
    with b(5) False obtain g where "gone_from_sight t2 near this (parent_of t this) n seen = Some g"
      "t' = t2" "res = told @ up @ tell_gone t2 this g" by auto
    moreover have "same_links t2 t1" using e [of "add_entity_flags entity_dirty_location this t1"] u
      by (simp add: same_links_def add_entity_flags_def links_update)
    ultimately show thesis using that [OF b(1-4), of "tell_gone t2 this g"] False u by auto
  qed
qed

lemma move_links:
  assumes "tree_ok t" "new_location es t this loc = Some (MoveTo n)" "this \<in> dom t" "n \<in> dom t"
    "moveToNewLocation (domain_add env) (domain_remove calls) near this n t = Some (t', res)"
  shows "tree_ok t'" "dom t' = dom t" "parent_of t' = (parent_of t)(this := Some n)"
proof -
  from moveToNewLocation_changes [OF assms(5)] obtain t1 where
    c: "changeContainer (domain_add env) (domain_remove calls) this n t = Some t1" and s: "same_links t' t1" by metis
  have r: "rooted t" using assms(1) by (simp add: tree_ok_def)
  note l = domains.changeContainer_links [OF assms(1) c assms(4,3)]
  have "tree_ok t1" by (rule domains.changeContainer_ok [OF assms(1) c assms(4,3) new_location_MoveTo(1) [OF r assms(2)]])
  with s show "tree_ok t'" "dom t' = dom t" "parent_of t' = (parent_of t)(this := Some n)"
    using l(1,4) tree_ok_links [of t' t1] links_parts(1) [of t' t1] by (simp_all add: same_links_def)
qed

lemma tree_run_ok:
  assumes "tree_run env calls near es t0 t" "tree_ok t0" "\<And>i a. smap_find i es = Some a \<Longrightarrow> a \<in> dom t0"
  shows "tree_ok t \<and> dom t = dom t0"
  using assms
proof (induction rule: tree_run.induct)
  case started then show ?case by simp
next
  case (moved t i this loc n t' res)
  then have ok: "tree_ok t" "dom t = dom t0" by auto
  then have r: "rooted t" by (simp add: tree_ok_def)
  from new_location_MoveTo(2) [OF r moved.hyps(3)] moved.hyps(2) moved.prems(2) ok(2) have d: "this \<in> dom t" "n \<in> dom t" by auto
  from move_links [OF ok(1) moved.hyps(3) d moved.hyps(4)] ok(2) show ?case by simp
next
  case (worked t t') then show ?case using tree_ok_links [of t' t] by (simp add: same_links_def)
qed

lemma new_location_answers: "rooted t \<Longrightarrow> parent_of t a \<noteq> None \<Longrightarrow> new_location es t a loc \<noteq> None"
  by (auto simp: new_location_def meets_iff split: option.splits)

text \<open>C14: In every run the entities form a tree: nobody is inside of itself, at any depth, whatever the move operations
  ask for, everybody is among the children of exactly the entity that is its parent, and the children are kept in
  order without repetitions. Where a move leads is decided for everybody who is in a container.\<close>

theorem moves_keep_tree:
  assumes "tree_ok t0" "\<And>i a. smap_find i es = Some a \<Longrightarrow> a \<in> dom t0" "tree_run env calls near es t0 t"
  shows "(a, a) \<notin> (above t)\<^sup>+ \<and> (parent_of t a = Some p \<longleftrightarrow> a \<in> set (contains_of t p))
    \<and> sorted (contains_of t p) \<and> distinct (contains_of t p) \<and> (parent_of t a \<noteq> None \<longrightarrow> new_location es t a loc \<noteq> None)"
proof -
  from tree_run_ok [OF assms(3,1,2)] have ok: "tree_ok t" by simp
  then have "wf (above t)" by (simp add: tree_ok_def rooted_def)
  then have "(a, a) \<notin> (above t)\<^sup>+" by (simp add: wf_trancl wf_not_refl)
  with ok new_location_answers show ?thesis by (auto simp: tree_ok_def)
qed

section \<open>Who is told\<close>

lemma sorted_distinct_eq: "sorted (l :: addr list) \<Longrightarrow> distinct l \<Longrightarrow> set l = S \<Longrightarrow> l = sorted_list_of_set S"
  using sorted_list_of_set.idem_if_sorted_distinct [of l] by simp

lemma observers_finite: "rooted t \<Longrightarrow> observers_known t \<Longrightarrow> finite {r. is_observer t this r}"
  using collectObservers_ok [of t this] by (metis finite_set mem_Collect_eq subsetI finite_subset)

lemma collectObservers_eq:
  assumes "rooted t" "observers_known t"
  shows "collectObservers t this = Some (sorted_list_of_set {r. is_observer t this r})"
proof -
  from collectObservers_ok [OF assms] obtain l where l: "collectObservers t this = Some l" "sorted l" "distinct l"
    "\<And>r. r \<in> set l \<longleftrightarrow> is_observer t this r" by blast
  then have "l = sorted_list_of_set {r. is_observer t this r}" by (intro sorted_distinct_eq) auto
  with l(1) show ?thesis by simp
qed

lemma filter_observers: "rooted t \<Longrightarrow> observers_known t \<Longrightarrow>
  filter P (sorted_list_of_set {r. is_observer t this r}) = sorted_list_of_set {r. is_observer t this r \<and> P r}"
  by (intro sorted_distinct_eq) (auto simp: observers_finite sorted_wrt_filter)

text \<open>C16: A broadcast sends one copy to each entity that observes the sender and may receive it, in the order of their
  addresses, under the name of the sender: everybody for what is public, the administrators and the sender itself for
  what is protected, the administrators alone for what is private. Who observes is what the abstract description says.\<close>

theorem broadcast_exact:
  assumes "rooted t" "observers_known t"
  shows "broadcast t v this p = Some (map (\<lambda>r. set_from (show_i64 (id_of t this)) (set_to (show_i64 (id_of t r)) p))
    (sorted_list_of_set {r. is_observer t this r \<and> (v = PRIVATE \<longrightarrow> flagged t entity_admin r)
        \<and> (v = PROTECTED \<longrightarrow> flagged t entity_admin r \<or> id_of t r = id_of t this)}))"
proof -
  have m: "may_receive t v this = (\<lambda>r. (v = PRIVATE \<longrightarrow> flagged t entity_admin r)
      \<and> (v = PROTECTED \<longrightarrow> flagged t entity_admin r \<or> id_of t r = id_of t this))"
    by (rule ext, cases v) (simp_all add: may_receive_def)
  show ?thesis by (simp add: broadcast_def collectObservers_eq [OF assms] m filter_observers [OF assms])
qed

text \<open>C15: An entity that moves into another container is put there, appears to exactly those who observe it in the new
  place and did not in the old one, and disappears for exactly those who did in the old place and do not in the new one,
  each told once; behind that come at most the operation that asks it to send its new place, and one that tells
  the entity itself what it does not see any more.\<close>

theorem move_tells_exactly:
  assumes "tree_ok t" "observers_known t" "new_location es t this loc = Some (MoveTo n)" "this \<in> dom t" "n \<in> dom t"
    "moveToNewLocation (domain_add env) (domain_remove calls) near this n t = Some (t', res)"
    "changeContainer (domain_add env) (domain_remove calls) this n t = Some t1" "observers_known t1"
  shows "parent_of t' = (parent_of t)(this := Some n) \<and> this \<in> set (contains_of t' n) \<and> (\<exists>up gone.
    res = map (appear_to t1 this Appearance) (sorted_list_of_set {r. is_observer t1 this r \<and> \<not> is_observer t this r})
        @ map (appear_to t1 this Disappearance) (sorted_list_of_set {r. is_observer t this r \<and> \<not> is_observer t1 this r})
        @ up @ tell_gone t' this gone
    \<and> (up = [] \<or> up = [set_to (show_i64 (id_of t1 this)) (new_op Update)]))"
proof -
  have r: "rooted t" using assms(1) by (simp add: tree_ok_def)
  note f = new_location_MoveTo [OF r assms(3)]
  have r1: "rooted t1" using domains.changeContainer_ok [OF assms(1,7,5,4) f(1)] by (simp add: tree_ok_def)
  from move_links [OF assms(1,3,4,5,6)] have l: "tree_ok t'" "parent_of t' = (parent_of t)(this := Some n)" by auto
  have "parent_of t' this = Some n" using l(2) by simp
  with l(1) have c: "this \<in> set (contains_of t' n)" by (auto simp: tree_ok_def)
  let ?up = "if flagged t1 entity_destroyed this then []
       else snd (enqueue_update this (add_entity_flags entity_dirty_location this t1))"
  from moveToNewLocation_changes [OF assms(6)] assms(7) obtain told gone where
    told: "processAppearDisappear t1 this (sorted_list_of_set {r. is_observer t this r}) = Some told"
      "res = told @ ?up @ gone" "\<exists>g. gone = tell_gone t' this g"
    by (metis collectObservers_eq [OF r assms(2)] option.inject tell_gone_def)
  have i: "id_of (add_entity_flags x this t1) = id_of t1" for x
    by (auto simp: id_of_def add_entity_flags_def update_node_def fun_eq_iff split: option.splits)
  have "?up = [] \<or> ?up = [set_to (show_i64 (id_of t1 this)) (new_op Update)]" by (auto simp: enqueue_update_def i)
  moreover have "told = map (appear_to t1 this Appearance) (sorted_list_of_set {r. is_observer t1 this r \<and> \<not> is_observer t this r})
        @ map (appear_to t1 this Disappearance) (sorted_list_of_set {r. is_observer t this r \<and> \<not> is_observer t1 this r})"
    using told(1) observers_finite [OF r assms(2)] observers_finite [OF r1 assms(8)]
    by (simp add: processAppearDisappear_def collectObservers_eq [OF r1 assms(8)] filter_observers [OF r1 assms(8)]
        filter_observers [OF r assms(2)])
  ultimately show ?thesis using l(2) c told(2,3) by (intro conjI) (blast | auto)+
qed

section \<open>Sight and reach\<close>

text \<open>C22: Every question whether one entity sees another is answered, and what is private is seen only by administrators,
  by itself and by what is inside of it with no domain in between; what is protected, in addition, by the entity that it
  is directly inside of.\<close>

theorem private_unseen:
  assumes "rooted t"
  shows "\<exists>b. isVisibleForOtherEntity t this ob = Some b \<and> (b \<longrightarrow> flagged t entity_admin ob \<or> ob = this
    \<or> loosely_inside t this ob \<or> (\<not> flagged t entity_visibility_private this
        \<and> (flagged t entity_visibility_protected this \<longrightarrow> parent_of t this = Some ob)))"
proof -
  from visible_ends [OF assms] obtain b where b: "isVisibleForOtherEntity t this ob = Some b" by blast
  have "flagged t entity_admin ob \<or> ob = this \<or> loosely_inside t this ob \<or> (\<not> flagged t entity_visibility_private this
        \<and> (flagged t entity_visibility_protected this \<longrightarrow> parent_of t this = Some ob))" if "b"
    using b that from_afar_hidden [OF assms, of this ob]
    by (auto simp: isVisibleForOtherEntity_def visible_in_same_domain_def split: option.splits if_splits)
  with b show ?thesis by blast
qed

text \<open>C23: For two entities in the domain of one parent the shortcut and the general way say the same exactly if, whenever
  the shortcut shows the entity, the general way has nothing against the parent. They differ only if the shortcut shows an
  entity in a parent that is itself hidden from the observer: the general way hides it.\<close>

theorem shortcut_agrees:
  assumes "rooted t" "this \<noteq> ob" "same_domain t this ob = Some d"
  shows "isVisibleForOtherEntity t this ob = visible_from_afar t this ob
    \<longleftrightarrow> (visible_in_same_domain t this ob d \<longrightarrow> parent_clear t ob d)"
  using assms by (auto simp: isVisibleForOtherEntity_def from_afar_siblings)

lemma reach_up_contains:
  "rooted t \<Longrightarrow> reach_up t near x target d h acc a = Some (Inr as) \<Longrightarrow> set acc \<subseteq> set as
    \<and> (map_option fst d \<noteq> Some a \<longrightarrow> a \<noteq> x \<longrightarrow> a \<in> set as)"
proof (induction a arbitrary: acc rule: rooted_induct)
  case (up a)
  show ?case
  proof (cases "parent_of t a")
    case None with up.prems show ?thesis by (auto simp: reach_up.simps [of _ _ _ _ _ _ _ a] split: if_splits)
  next
    case (Some p)
    with up.IH [of p "acc @ [a]"] up.prems show ?thesis
      by (auto simp: reach_up.simps [of _ _ _ _ _ _ _ a] split: if_splits)
  qed
qed

lemma reach_up_true: "rooted t \<Longrightarrow> reach_up t near x target d h acc a = Some (Inl True) \<Longrightarrow> map_option fst d = Some target"
proof (induction a arbitrary: acc rule: rooted_induct)
  case (up a)
  show ?case
  proof (cases "parent_of t a")
    case None with up.prems show ?thesis by (auto simp: reach_up.simps [of _ _ _ _ _ _ _ a] split: if_splits)
  next
    case (Some p)
    with up.IH [of p "acc @ [a]"] up.prems show ?thesis
      by (auto simp: reach_up.simps [of _ _ _ _ _ _ _ a] split: if_splits)
  qed
qed

text \<open>The first entity with a domain above an entity.\<close>

inductive surrounded_by :: "tree \<Rightarrow> addr \<Rightarrow> addr \<Rightarrow> bool" for t where
  directly: "parent_of t a = Some p \<Longrightarrow> domain_of t p \<noteq> None \<Longrightarrow> surrounded_by t p a"
| further: "parent_of t a = Some p \<Longrightarrow> domain_of t p = None \<Longrightarrow> surrounded_by t q p \<Longrightarrow> surrounded_by t q a"

inductive_simps surrounded_by_simps: "surrounded_by t q a"

lemma find_domain_owner: "rooted t \<Longrightarrow> find_domain t None (parent_of t a) h = Some (Searched (Some d) h') \<Longrightarrow> surrounded_by t (fst d) a"
proof (induction a arbitrary: h rule: rooted_induct)
  case (up a)
  show ?case
  proof (cases "parent_of t a")
    case None with up.prems show ?thesis by (simp add: find_domain_simps)
  next
    case (Some p)
    show ?thesis
    proof (cases "domain_of t p")
      case None
      with up.prems Some have "find_domain t None (parent_of t p) p = Some (Searched (Some d) h')" by (simp add: find_domain_simps)
      from up.IH [OF Some this] Some None show ?thesis by (blast intro: further)
    next
      case dom: (Some k)
      with up.prems Some have "k = d" by (simp add: find_domain_simps)
      with dom Some show ?thesis by (cases d) (auto simp: domain_of_def split: option.splits intro: directly)
    qed
  qed
qed

lemma find_domain_never_inside: "rooted t \<Longrightarrow> find_domain t None (parent_of t a) h \<noteq> Some InsideOfIt"
proof (induction a arbitrary: h rule: rooted_induct)
  case (up a) then show ?case by (cases "parent_of t a") (auto simp: find_domain_simps split: option.splits)
qed

text \<open>C24: Every question whether one entity reaches another is answered, and what is in the inventory of an entity, or in an
  entity with a void domain, is out of reach for everybody but that entity, the administrators, itself, and what
  it surrounds with its own domain.\<close>

theorem inventory_unreached:
  assumes "rooted t"
  shows "\<exists>b. canReach t near this target = Some b \<and> (b \<longrightarrow> parent_of t target = Some p
    \<longrightarrow> domain_of t p = Some (p, InventoryDomain) \<or> domain_of t p = Some (p, VoidDomain)
    \<longrightarrow> this = p \<or> this = target \<or> flagged t entity_admin this \<or> surrounded_by t target this)"
proof (cases "this = target \<or> flagged t entity_admin this \<or> flagged t entity_destroyed this \<or> flagged t entity_destroyed target")
  case True then show ?thesis by (auto simp: canReach_def)
next
  case False
  from find_domain_ends [OF assms] obtain s where s: "find_domain t None (parent_of t this) this = Some s" by blast
  with find_domain_never_inside [OF assms] obtain d h where f: "find_domain t None (parent_of t this) this = Some (Searched d h)"
    by (cases s) auto
  from reach_up_ends [OF assms] obtain r where r: "reach_up t near this target d h [] target = Some r" by blast
  show ?thesis
  proof (cases r)
    case (Inl b)
    have "surrounded_by t target this" if "b"
    proof -
      from r Inl that have "reach_up t near this target d h [] target = Some (Inl True)" by simp
      from reach_up_true [OF assms this] have "map_option fst d = Some target" .
      with find_domain_owner [OF assms] f show ?thesis by fastforce
    qed
    with False f r Inl show ?thesis by (auto simp: canReach_def)
  next
    case (Inr as)
    have "surrounded_by t target this \<or> target \<in> set as"
      using reach_up_contains [OF assms, of near this target d h "[]" target as] r Inr False
        find_domain_owner [OF assms, of this this] f by auto
    moreover have "this = p" if "target \<in> set as" "reached_down t near this (rev as)" "parent_of t target = Some p"
      "domain_of t p = Some (p, InventoryDomain) \<or> domain_of t p = Some (p, VoidDomain)"
      using that by (auto simp: reached_down_def list_all_iff isEntityReachable_def split: option.splits)
    ultimately show ?thesis using False f r Inr by (auto simp: canReach_def)
  qed
qed

section \<open>Destruction\<close>

text \<open>What the content of a destroyed entity makes of its move operation if \<open>blocked\<close> are the entities of which a
  property or a script blocks the operation: the entity is moved to the container of the destroyed one. That the operation
  names this container by its id, which is looked up again, and that a stack could be split are left out: the
  container is the parent of the destroyed entity and so in the world, and the operation names no amount.\<close>

definition move_out ::
  "engine_env \<Rightarrow> (tree \<Rightarrow> addr \<Rightarrow> addr \<Rightarrow> engine_calls) \<Rightarrow> (addr \<Rightarrow> addr \<Rightarrow> addr \<Rightarrow> bool) \<Rightarrow> (addr \<Rightarrow> bool) \<Rightarrow> addr \<Rightarrow> addr option \<Rightarrow> tree \<Rightarrow> tree option" where
  "move_out env calls near blocked c q t = (case q of None \<Rightarrow> Some t
     | Some p \<Rightarrow> if blocked c then Some t else map_option fst (moveToNewLocation (domain_add env) (domain_remove calls) near c p t))"

lemma tree_ok_dom:
  assumes "tree_ok t" "parent_of t c = Some p" shows "c \<in> dom t \<and> p \<in> dom t"
proof -
  from assms have "c \<in> set (contains_of t p)" by (simp add: tree_ok_def)
  then have "p \<in> dom t" by (cases "t p") (auto simp: contains_of_def)
  moreover from assms(2) have "c \<in> dom t" by (auto simp: parent_of_def split: option.splits)
  ultimately show ?thesis by simp
qed

lemma rooted_above: "rooted t \<Longrightarrow> (p, a) \<in> (above t)\<^sup>+ \<Longrightarrow> (a, p) \<notin> (above t)\<^sup>*"
  using trancl_rtrancl_trancl [of p a "above t" p] wf_not_refl [OF wf_trancl, of "above t" p] by (auto simp: rooted_def)

lemma move_out_links:
  assumes "tree_ok t" "parent_of t a = Some p" "parent_of t c = Some a" "move_out env calls near blocked c (Some p) t = Some t'"
  shows "tree_ok t' \<and> dom t' = dom t \<and> parent_of t' = (if blocked c then parent_of t else (parent_of t)(c := Some p))"
proof (cases "blocked c")
  case True with assms show ?thesis by (simp add: move_out_def)
next
  case False
  with assms(4) obtain res where m: "moveToNewLocation (domain_add env) (domain_remove calls) near c p t = Some (t', res)"
    by (auto simp: move_out_def)
  from moveToNewLocation_changes [OF m] obtain t1 where
    ch: "changeContainer (domain_add env) (domain_remove calls) c p t = Some t1" and s: "same_links t' t1" by metis
  have d: "p \<in> dom t" "c \<in> dom t" using tree_ok_dom [OF assms(1)] assms(2,3) by auto
  have "(p, c) \<in> (above t)\<^sup>+" using assms(2,3) by (auto simp: above_def intro: trancl_into_trancl)
  then have f: "(c, p) \<notin> (above t)\<^sup>*" using assms(1) by (intro rooted_above) (simp_all add: tree_ok_def)
  from domains.changeContainer_ok [OF assms(1) ch d f] domains.changeContainer_links(1,4) [OF assms(1) ch d] s False
  show ?thesis using tree_ok_links [of t' t1] links_parts(1) [of t' t1] by (simp add: same_links_def)
qed

lemma move_out_all:
  assumes "fold_opt (\<lambda>c t. move_out env calls near blocked c (parent_of t a) t) cs t = Some t'"
    "tree_ok t" "parent_of t a = Some p" "distinct cs" "\<And>c. c \<in> set cs \<Longrightarrow> parent_of t c = Some a"
  shows "tree_ok t' \<and> dom t' = dom t \<and> (\<forall>c. parent_of t' c = (if c \<in> set cs \<and> \<not> blocked c then Some p else parent_of t c))"
  using assms
proof (induction cs arbitrary: t)
  case Nil then show ?case by simp
next
  case (Cons c cs)
  from Cons.prems(1,3) obtain t1 where t1: "move_out env calls near blocked c (Some p) t = Some t1"
    "fold_opt (\<lambda>c t. move_out env calls near blocked c (parent_of t a) t) cs t1 = Some t'" by (auto split: option.splits)
  have ca: "parent_of t c = Some a" using Cons.prems(5) by simp
  note l = move_out_links [OF Cons.prems(2,3) ca t1(1)]
  have "c \<noteq> a" using Cons.prems(2) ca rooted_not_own_parent by (auto simp: tree_ok_def)
  then have "parent_of t1 a = Some p" "\<And>x. x \<in> set cs \<Longrightarrow> parent_of t1 x = Some a"
    using l Cons.prems(3,4,5) by (auto split: if_splits)
  from Cons.IH [OF t1(2) _ this(1) _ this(2)] l Cons.prems(4) show ?case by (auto split: if_splits)
qed

text \<open>C25: When an entity that is in a container is destroyed, it is in no container any more, the entities in it are in the
  container that it was in, and nothing else moves, but an entity of which the move is blocked keeps the destroyed
  entity as its parent. The tree stays a tree.\<close>

theorem destroyed_content_moves:
  assumes "tree_ok t" "parent_of t a = Some p"
    "destroy (domain_remove calls) (move_out env calls near blocked) a t = Some t'"
  shows "tree_ok t' \<and> parent_of t' c = (if c = a then None
    else if parent_of t c = Some a \<and> \<not> blocked c then Some p else parent_of t c)"
proof -
  let ?t = "add_entity_flags entity_destroyed a t"
  have same: "same_links ?t t" by simp
  then have ok: "tree_ok ?t" "parent_of ?t = parent_of t" "dom ?t = dom t"
    using tree_ok_links [of ?t t] links_parts(1) [of ?t t] assms(1) by (auto simp: same_links_def)
  from assms(3) obtain t1 where f: "fold_opt (\<lambda>c t. move_out env calls near blocked c (parent_of t a) t) (contains_of t a) ?t = Some t1"
    and r: "(case parent_of t1 a of None \<Rightarrow> Some t1
      | Some p \<Rightarrow> map_option (set_parent a None) (removeChild (domain_remove calls) p a t1)) = Some t'"
    unfolding destroy_def bind_eq_Some_conv by blast
  have "distinct (contains_of t a)" "\<And>c. c \<in> set (contains_of t a) \<longleftrightarrow> parent_of t c = Some a"
    using assms(1) by (auto simp: tree_ok_def)
  note all = move_out_all [OF f ok(1) _ this(1), unfolded ok(2), OF assms(2), unfolded this(2)]
  have na: "parent_of t a \<noteq> Some a" using assms(1) rooted_not_own_parent by (auto simp: tree_ok_def)
  from all na assms(2) have p1: "tree_ok t1" "parent_of t1 a = Some p" by auto
  from r p1(2) obtain t2 where t2: "removeChild (domain_remove calls) p a t1 = Some t2" "t' = set_parent a None t2" by auto
  note l = domains.removeChild_links [OF t2(1)]
  have "a \<in> dom t2" using tree_ok_dom [OF p1] l(3) by simp
  then have par: "parent_of t' = (parent_of t1)(a := None)" and con: "contains_of t' = (contains_of t1)(p := remove1 a (contains_of t1 p))"
    using l by (simp_all add: t2(2) parent_set_parent)
  have "above t' \<subseteq> above t1" by (auto simp: above_def par split: if_splits)
  then have "rooted t'" using p1 by (auto simp: tree_ok_def rooted_def intro: wf_subset)
  moreover have "parent_of t' b = Some q \<longleftrightarrow> b \<in> set (contains_of t' q)" for b q
  proof (cases "b = a")
    case True
    have "a \<in> set (contains_of t1 q) \<longleftrightarrow> q = p" using p1 unfolding tree_ok_def by (metis option.inject)
    moreover have "distinct (contains_of t1 p)" using p1 by (simp add: tree_ok_def)
    ultimately show ?thesis using True by (auto simp: par con)
  next
    case False with p1 show ?thesis by (auto simp: tree_ok_def par con)
  qed
  moreover have "sorted (contains_of t' q) \<and> distinct (contains_of t' q)" for q
    using p1 by (auto simp: tree_ok_def con sorted_remove1)
  ultimately have "tree_ok t'" by (simp add: tree_ok_def)
  moreover have "parent_of t' c = (if c = a then None
    else if parent_of t c = Some a \<and> \<not> blocked c then Some p else parent_of t c)"
    using all by (simp add: par)
  ultimately show ?thesis by simp
qed

text \<open>A move operation that names the container its entity is in by another text with the same number reaches the
  assertion that the container is another one.\<close>

theorem spelled_parent_asserts:
  assumes "rooted t" "parent_of t this = Some p" "stol l = Some (id_of t p)" "smap_find (id_of t p) es = Some p"
    "l \<noteq> show_i64 (id_of t p)"
  shows "new_location es t this (Some l) = Some AssertionFailed"
proof -
  have "(p, this) \<in> (above t)\<^sup>+" using assms(2) by (auto simp: above_def)
  then have "(this, p) \<notin> (above t)\<^sup>*" by (rule rooted_above [OF assms(1)])
  with assms show ?thesis by (simp add: new_location_def getEntity_def integerId_def meets_iff)
qed

section \<open>The theorems at work\<close>

text \<open>A world with a player who holds a stone, and an administrator.\<close>

definition sample_node :: "i64 \<Rightarrow> 32 word \<Rightarrow> addr option \<Rightarrow> addr list \<Rightarrow> domain option \<Rightarrow> node" where
  "sample_node i f p c d =
     \<lparr>nd_entity = \<lparr>le_id = i, le_flags = f, le_props = [], le_active = [], le_defaults = None, le_updates = 0\<rparr>,
      nd_parent = p, nd_contains = Some c, nd_domain = d, nd_mode = None, nd_seq = 0, nd_loc_unsent = False, nd_type = Some ''thing''\<rparr>"

definition small_world :: tree where
  "small_world a =
     (if a = 1 then Some (sample_node 0 0 None [2, 4] (Some StackableDomain))
      else if a = 2 then Some (sample_node 10 (entity_perceptive + entity_visibility_private) (Some 1) [3, 5] (Some InventoryDomain))
      else if a = 3 then Some (sample_node 11 0 (Some 2) [] None)
      else if a = 4 then Some (sample_node 12 (entity_perceptive + entity_admin) (Some 1) [] (Some InventoryDomain))
      else if a = 5 then Some (sample_node 13 entity_contained_visible (Some 2) [] None)
      else None)"

definition no_engine :: engine_env where "no_engine t p c = None"
definition far :: "addr \<Rightarrow> addr \<Rightarrow> addr \<Rightarrow> bool" where "far owner a b = False"
definition no_calls :: "tree \<Rightarrow> addr \<Rightarrow> addr \<Rightarrow> engine_calls" where "no_calls t p c = []"

lemma rooted_measure: "(\<And>a p. parent_of t a = Some p \<Longrightarrow> f p < (f a :: nat)) \<Longrightarrow> rooted t"
  unfolding rooted_def by (rule wf_subset [OF wf_measure [of f]]) (auto simp: above_def)

lemma sample_parents: "parent_of small_world a =
    (if a = 2 \<or> a = 4 then Some 1 else if a = 3 \<or> a = 5 then Some 2 else None)"
  by (simp add: parent_of_def small_world_def sample_node_def)

lemma sample_contains: "contains_of small_world a = (if a = 1 then [2, 4] else if a = 2 then [3, 5] else [])"
  by (simp add: contains_of_def small_world_def sample_node_def)

lemma sample_rooted: "rooted small_world"
  by (rule rooted_measure [where f = unat]) (auto simp: sample_parents split: if_splits)

lemma small_world_ok: "tree_ok small_world"
  unfolding tree_ok_def using sample_rooted by (auto simp: sample_parents sample_contains)

text \<open>Only physical domains can have freed entries.\<close>

lemma observers_knownI: "(\<And>a b p. domain_of t a \<noteq> Some (b, PhysicalDomain p)) \<Longrightarrow> observers_known t"
  unfolding observers_known_def by (auto simp: getObservingEntitiesFor_def split: domain.splits)

lemma sample_observers_known: "observers_known small_world"
  by (rule observers_knownI) (auto simp: domain_of_def small_world_def sample_node_def split: if_splits)

lemma sample_known: "smap_find (i :: i64) [(11, 3), (12, 4)] = Some a \<Longrightarrow> a \<in> dom small_world"
  by (auto simp: small_world_def smap_find_def split: if_splits)

lemma sample_domains: "domain_of small_world a = (if a = 1 then Some (1, StackableDomain)
    else if a = 2 \<or> a = 4 then Some (a, InventoryDomain) else None)"
  by (simp add: domain_of_def small_world_def sample_node_def)

theorem moves_keep_tree_witness:
  "\<exists>t. tree_run no_engine no_calls far [(11, 3), (12, 4)] small_world t \<and> parent_of t 3 = Some 4
    \<and> (3, 3) \<notin> (above t)\<^sup>+ \<and> 3 \<in> set (contains_of t 4)"
proof -
  let ?es = "[(11, 3), (12, 4)] :: (i64, addr) smap"
  let ?t = "fst (the (moveToNewLocation (domain_add no_engine) (domain_remove no_calls) far 3 4 small_world))"
  have "moveToNewLocation (domain_add no_engine) (domain_remove no_calls) far 3 4 small_world \<noteq> None" by code_simp
  then obtain res where m: "moveToNewLocation (domain_add no_engine) (domain_remove no_calls) far 3 4 small_world = Some (?t, res)"
    by fastforce
  have "smap_find 11 ?es = Some 3" "new_location ?es small_world 3 (Some ''12'') = Some (MoveTo 4)" by code_simp+
  from moved [OF started this m] have run: "tree_run no_engine no_calls far ?es small_world ?t" .
  have p: "parent_of ?t 3 = Some 4" by code_simp
  have "(3, 3) \<notin> (above ?t)\<^sup>+ \<and> (parent_of ?t 3 = Some 4 \<longleftrightarrow> 3 \<in> set (contains_of ?t 4))
    \<and> sorted (contains_of ?t 4) \<and> distinct (contains_of ?t 4) \<and> (parent_of ?t 3 \<noteq> None \<longrightarrow> new_location ?es ?t 3 None \<noteq> None)"
    by (rule moves_keep_tree [OF small_world_ok _ run]) (rule sample_known)
  with p run show ?thesis by blast
qed

theorem broadcast_exact_witness:
  "map_option length (broadcast small_world PUBLIC 3 (new_op Sight)) = Some 1
   \<and> broadcast small_world PRIVATE 3 (new_op Sight) = Some []"
proof -
  have "collectObservers small_world 3 = Some [2]" by code_simp
  then have o: "sorted_list_of_set {r. is_observer small_world 3 r} = [2]"
    by (simp add: collectObservers_eq [OF sample_rooted sample_observers_known])
  have f: "\<not> flagged small_world entity_admin 2" by code_simp
  have "sorted_list_of_set {r. is_observer small_world 3 r \<and> flagged small_world entity_admin r} = []"
    unfolding filter_observers [OF sample_rooted sample_observers_known, symmetric] o using f by simp
  with o show ?thesis by (simp add: broadcast_exact [OF sample_rooted sample_observers_known])
qed

theorem move_tells_exactly_witness:
  "\<exists>t' more. moveToNewLocation (domain_add no_engine) (domain_remove no_calls) far 3 4 small_world = Some (t',
      [set_to ''12'' (set_args [EntityArg (Some ''11'') None None (Some 0) []] (new_op Appearance)),
       set_to ''10'' (set_args [EntityArg (Some ''11'') None None (Some 0) []] (new_op Disappearance))] @ more)
    \<and> parent_of t' 3 = Some 4 \<and> 3 \<in> set (contains_of t' 4)"
proof -
  let ?es = "[(11, 3), (12, 4)] :: (i64, addr) smap"
  let ?m = "moveToNewLocation (domain_add no_engine) (domain_remove no_calls) far 3 4 small_world"
  let ?c = "changeContainer (domain_add no_engine) (domain_remove no_calls) 3 4 small_world"
  have "?m \<noteq> None" "?c \<noteq> None" by code_simp+
  then obtain t' res t1 where m: "?m = Some (t', res)" and c: "?c = Some t1" by fastforce
  have n: "new_location ?es small_world 3 (Some ''12'') = Some (MoveTo 4)" by code_simp
  have d: "3 \<in> dom small_world" "4 \<in> dom small_world" by (simp_all add: domIff small_world_def)
  have t1: "t1 = the ?c" using c by simp
  have "domain_of t1 a = domain_of small_world a" for a
    using c by (auto simp: changeContainer_def apply_location_def inventory_add_def sample_parents removeChild_def addChild_def call_hook_def domain_add_def
        domain_remove_def domain_of_def small_world_def sample_node_def erase_child_def set_parent_def insert_child_def
        makeContainer_def update_node_def contains_of_def remove_entity_flags_def mode_of_def)
  then have k: "observers_known t1" by (intro observers_knownI) (auto simp: domain_of_def small_world_def sample_node_def split: if_splits)
  have "collectObservers small_world 3 = Some [2]" by code_simp
  then have o: "is_observer small_world 3 r \<longleftrightarrow> r = 2" for r
    using collectObservers_ok [OF sample_rooted sample_observers_known, of 3] by auto
  have "collectObservers t1 3 = Some [4]" unfolding t1 by code_simp
  moreover have "rooted t1"
    using domains.changeContainer_ok [OF small_world_ok c d(2,1) new_location_MoveTo(1) [OF sample_rooted n]] by (simp add: tree_ok_def)
  ultimately have o1: "is_observer t1 3 r \<longleftrightarrow> r = 4" for r using collectObservers_ok [OF _ k, of 3] by auto
  have s: "{r. r = 4 \<and> r \<noteq> (2::addr)} = {4}" "{r. r = 2 \<and> r \<noteq> (4::addr)} = {2}" by auto
  have a: "appear_to t1 3 Appearance 4 = set_to ''12'' (set_args [EntityArg (Some ''11'') None None (Some 0) []] (new_op Appearance))"
    "appear_to t1 3 Disappearance 2 = set_to ''10'' (set_args [EntityArg (Some ''11'') None None (Some 0) []] (new_op Disappearance))"
    unfolding t1 by code_simp+
  from move_tells_exactly [OF small_world_ok sample_observers_known n d m c k] show ?thesis
    by (auto simp: o o1 s a m sample_parents)
qed

theorem private_unseen_witness:
  "isVisibleForOtherEntity small_world 2 3 = Some True \<and> isVisibleForOtherEntity small_world 2 4 = Some True
   \<and> isVisibleForOtherEntity small_world 2 1 = Some False"
proof -
  have f: "\<not> flagged small_world entity_admin 1" "flagged small_world entity_visibility_private 2"
    "parent_of small_world 1 = None" by code_simp+
  have "\<not> loosely_inside small_world 2 1" by (subst loosely_inside_simps) (simp add: f)
  with private_unseen [OF sample_rooted, of 2 1] f have "isVisibleForOtherEntity small_world 2 1 = Some False" by auto
  moreover have "isVisibleForOtherEntity small_world 2 3 = Some True" "isVisibleForOtherEntity small_world 2 4 = Some True"
    by code_simp+
  ultimately show ?thesis by simp
qed

text \<open>The stone that the player shows in private is seen by what is beside it, through the shortcut.\<close>

theorem shortcut_agrees_witness:
  "isVisibleForOtherEntity small_world 5 3 = Some True \<and> visible_from_afar small_world 5 3 = Some False"
proof -
  let ?d = "(2, InventoryDomain)"
  have d: "same_domain small_world 5 3 = Some ?d" by (simp add: same_domain_def sample_parents sample_domains)
  have "visible_in_same_domain small_world 5 3 ?d" "\<not> parent_clear small_world 3 ?d" by code_simp+
  moreover have "isVisibleForOtherEntity small_world 5 3 = Some True" by code_simp
  moreover obtain b where "visible_from_afar small_world 5 3 = Some b"
    using from_afar_siblings [OF sample_rooted _ d] by auto
  ultimately show ?thesis using shortcut_agrees [OF sample_rooted _ d] by (cases b) auto
qed

theorem inventory_unreached_witness:
  "canReach small_world (\<lambda>_ _ _. True) 4 3 = Some True \<and> canReach small_world (\<lambda>_ _ _. True) 2 3 = Some True
   \<and> canReach small_world (\<lambda>_ _ _. True) 5 3 = Some False"
proof -
  have "parent_of small_world 3 = Some 2" "domain_of small_world 2 = Some (2, InventoryDomain)" "domain_of small_world 3 = None"
    "\<not> flagged small_world entity_admin 5"
    by (simp_all add: sample_parents sample_domains flagged_def small_world_def sample_node_def has_flags_def
        entity_contained_visible_def entity_admin_def)
  moreover have "surrounded_by small_world q 5 \<Longrightarrow> q = 2" for q
    by (subst (asm) surrounded_by_simps) (auto simp: sample_parents sample_domains)
  ultimately have "canReach small_world (\<lambda>_ _ _. True) 5 3 = Some False"
    using inventory_unreached [OF sample_rooted, of "\<lambda>_ _ _. True" 5 3 2] by fastforce
  moreover have "canReach small_world (\<lambda>_ _ _. True) 4 3 = Some True" "canReach small_world (\<lambda>_ _ _. True) 2 3 = Some True"
    by code_simp+
  ultimately show ?thesis by simp
qed

theorem destroyed_content_moves_witness:
  "\<exists>t'. destroy (domain_remove no_calls) (move_out no_engine no_calls far (\<lambda>c. c = 5)) 2 small_world = Some t'
    \<and> parent_of t' 2 = None \<and> parent_of t' 3 = Some 1 \<and> parent_of t' 5 = Some 2"
proof -
  let ?d = "destroy (domain_remove no_calls) (move_out no_engine no_calls far (\<lambda>c. c = 5)) 2 small_world"
  have "?d \<noteq> None" by code_simp
  then obtain t' where d: "?d = Some t'" by blast
  have p: "parent_of small_world 2 = Some 1" by code_simp
  from destroyed_content_moves [OF small_world_ok p d] d show ?thesis by (simp add: sample_parents)
qed

theorem spelled_parent_asserts_witness:
  "new_location [(10, 2)] small_world 3 (Some '' 10'') = Some AssertionFailed"
proof -
  have "parent_of small_world 3 = Some 2" "stol '' 10'' = Some (id_of small_world 2)"
    "smap_find (id_of small_world 2) [(10, 2)] = Some (2::addr)" "'' 10'' \<noteq> show_i64 (id_of small_world 2)" by code_simp+
  from spelled_parent_asserts [OF sample_rooted this] show ?thesis .
qed

end
