(* ===== verification/Update_Properties.thy ===== *)
theory Update_Properties
  imports Tree_Update Tree_Properties
begin

text \<open>
  What holds of updates and looks: every changed property is sent once, to those it is for and to nobody else, and a look
  shows an observer the properties whose updates it gets.
\<close>

section \<open>The loop over the properties\<close>

lemma smap_put_last: "\<forall>k' \<in> fst ` set m. k' < k \<Longrightarrow> smap_put k v m = m @ [(k, v)]"
  by (induction k v m rule: smap_put.induct) auto

lemma smap_put_others: "k \<noteq> k' \<Longrightarrow> (k, v) \<in> set (smap_put k' w m) \<longleftrightarrow> (k, v) \<in> set m"
  by (induction k' w m rule: smap_put.induct) auto

definition is_unsent :: "string \<times> modifiable \<Rightarrow> bool" where
  "is_unsent x \<longleftrightarrow> (case mp_property (snd x) of None \<Rightarrow> False | Some p \<Rightarrow> has_flags (pr_flags p) prop_flag_unsent)"

definition sent :: "string \<times> modifiable \<Rightarrow> string \<times> modifiable" where
  "sent x = (if is_unsent x then (fst x, (snd x)\<lparr>mp_property := map_option mark_sent (mp_property (snd x))\<rparr>) else x)"

text \<open>The changed properties for one audience, with their values.\<close>

definition unsent_for :: "heap \<Rightarrow> located \<Rightarrow> visibility \<Rightarrow> (string, modifiable) smap \<Rightarrow> map_type" where
  "unsent_for h e a l = concat (map (\<lambda>(name, mp). case mp_property mp of None \<Rightarrow> []
     | Some p \<Rightarrow> if has_flags (pr_flags p) prop_flag_unsent \<and> prop_audience p = a
         then (case prop_get h e p of Inl _ \<Rightarrow> [] | Inr v \<Rightarrow> [(name, v)]) else []) l)"

lemma unsent_for_Cons: "unsent_for h e a (x # l) = unsent_for h e a [x] @ unsent_for h e a l"
  by (simp add: unsent_for_def)

definition with_changes :: "map_type option \<Rightarrow> map_type \<Rightarrow> map_type option" where
  "with_changes c xs = (if xs = [] then c else Some ((case c of None \<Rightarrow> [] | Some m \<Rightarrow> m) @ xs))"

lemma with_changes_append: "with_changes (with_changes c xs) ys = with_changes c (xs @ ys)"
  by (auto simp: with_changes_def)

lemma update_fold:
  assumes "fold_opt (update_property h e) l (ps0, ch0) = Some (ps, ch)" "smap_ok l"
    "\<And>a m k k'. ch0 a = Some m \<Longrightarrow> k \<in> fst ` set m \<Longrightarrow> k' \<in> fst ` set l \<Longrightarrow> k < k'"
  shows "ps = ps0 @ map sent l \<and> (\<forall>a. ch a = with_changes (ch0 a) (unsent_for h e a l))"
  using assms
proof (induction l arbitrary: ps0 ch0)
  case Nil then show ?case by (simp add: with_changes_def unsent_for_def)
next
  case (Cons x l)
  obtain name mp where x: "x = (name, mp)" by (cases x)
  from Cons.prems(1) obtain ps1 ch1 where s: "update_property h e x (ps0, ch0) = Some (ps1, ch1)"
    and r: "fold_opt (update_property h e) l (ps1, ch1) = Some (ps, ch)" by (auto split: option.splits)
  have step: "ps1 = ps0 @ [sent x] \<and> (\<forall>a. ch1 a = with_changes (ch0 a) (unsent_for h e a [x]))"
  proof (cases "is_unsent x")
    case False
    with s show ?thesis
      by (auto simp: update_property_def x is_unsent_def sent_def unsent_for_def with_changes_def split: option.splits)
  next
    case True
    then obtain p where p: "mp_property mp = Some p" "has_flags (pr_flags p) prop_flag_unsent"
      by (auto simp: is_unsent_def x split: option.splits)
    with s obtain v where v: "prop_get h e p = Inr v" "ps1 = ps0 @ [(name, mp\<lparr>mp_property := Some (mark_sent p)\<rparr>)]"
      "ch1 = add_change (prop_audience p) name v ch0"
      by (auto simp: update_property_def x split: sum.splits)
    have "smap_put name v m = m @ [(name, v)]" if "ch0 a = Some m" for a m
      using Cons.prems(3) [OF that] by (intro smap_put_last) (auto simp: x)
    then show ?thesis using v p True
      by (auto simp: add_change_def unsent_for_def with_changes_def x sent_def split: option.splits)
  qed
  have "smap_ok l" and above: "\<And>k'. k' \<in> fst ` set l \<Longrightarrow> name < k'" using Cons.prems(2) by (auto simp: smap_ok_Cons x)
  moreover have "k < k'" if "ch1 a = Some m" "k \<in> fst ` set m" "k' \<in> fst ` set l" for a m k k'
  proof -
    have "k = name \<or> (\<exists>m0. ch0 a = Some m0 \<and> k \<in> fst ` set m0)"
      using step that(1,2)
      by (auto simp: with_changes_def unsent_for_def x split: if_splits option.splits sum.splits)
    moreover have "k < k'" if "ch0 a = Some m0" "k \<in> fst ` set m0" for m0
      by (rule Cons.prems(3) [OF that]) (use \<open>k' \<in> fst ` set l\<close> in simp)
    ultimately show ?thesis using above [OF that(3)] by blast
  qed
  ultimately have "ps = ps1 @ map sent l \<and> (\<forall>a. ch a = with_changes (ch1 a) (unsent_for h e a l))"
    by (intro Cons.IH [OF r]) blast+
  with step show ?case by (simp add: with_changes_append unsent_for_Cons [of h e _ x l])
qed

section \<open>What an update leaves alone\<close>

text \<open>Two trees in which everybody sees and observes the same.\<close>

definition same_view :: "tree \<Rightarrow> tree \<Rightarrow> bool" where
  "same_view t' t \<longleftrightarrow> parent_of t' = parent_of t \<and> contains_of t' = contains_of t \<and> domain_of t' = domain_of t
     \<and> mode_of t' = mode_of t \<and> id_of t' = id_of t
     \<and> (\<forall>f \<in> {entity_perceptive, entity_admin, entity_contained_visible}. flagged t' f = flagged t f)"

lemma same_view_sym: "same_view t' t \<Longrightarrow> same_view t t'"
  by (simp add: same_view_def)

lemma same_view_visible: "same_view t' t \<Longrightarrow> isEntityVisibleFor t' d ob x = isEntityVisibleFor t d ob x"
  by (cases d) (auto simp: same_view_def isEntityVisibleFor_def inventory_visible_def container_visible_def
      hasObserverRegistered_def split: domain.splits)

lemma same_view_observing: "same_view t' t \<Longrightarrow> getObservingEntitiesFor t' d x = getObservingEntitiesFor t d x"
  by (cases d) (auto simp: same_view_def getObservingEntitiesFor_def container_observers_def split: domain.splits)

lemma same_view_watches: "watches t child this r \<Longrightarrow> same_view t' t \<Longrightarrow> watches t' child this r"
proof (induction rule: watches.induct)
  case (itself this child) then show ?case by (auto simp: same_view_def intro: watches.itself)
next
  case (inside this d child l r)
  then show ?case by (intro watches.inside [of t' this d child l]) (simp_all add: same_view_observing, simp add: same_view_def)
next
  case (outside this p child r)
  have "domain_of t' = domain_of t" "parent_of t' this = Some p" using outside by (auto simp: same_view_def)
  with outside show ?case by (intro watches.outside [of t' this p]) (simp_all add: same_view_visible [OF outside.prems])
qed

lemma same_view_observer: "same_view t' t \<Longrightarrow> is_observer t' this r = is_observer t this r"
proof -
  have one: "is_observer t2 this r" if "is_observer t1 this r" "same_view t2 t1" for t1 t2
    using that
  proof (induction rule: is_observer.induct)
    case own_eyes then show ?case by (auto simp: same_view_def intro: is_observer.own_eyes)
  next
    case (own_domain d l r)
    then show ?case by (intro is_observer.own_domain [of t2 this d l]) (simp_all add: same_view_observing, simp add: same_view_def)
  next
    case (around p r)
    then show ?case by (intro is_observer.around [of t2 this p]) (simp_all add: same_view_watches, simp add: same_view_def)
  qed
  assume "same_view t' t"
  with one [of t' t] one [of t t'] same_view_sym show ?thesis by blast
qed

lemma same_view_known: "same_view t' t \<Longrightarrow> observers_known t' = observers_known t"
  by (simp add: observers_known_def same_view_observing) (simp add: same_view_def)

lemma same_view_rooted: "same_view t' t \<Longrightarrow> rooted t' = rooted t"
  by (simp add: rooted_def above_def same_view_def)

lemma same_view_receive: "same_view t' t \<Longrightarrow> may_receive t' a this r = may_receive t a this r"
  by (cases a) (auto simp: may_receive_def same_view_def)

lemma has_flags_remove: "and g f = 0 \<Longrightarrow> has_flags (remove_flags g w) f = has_flags w f"
proof -
  assume "and g f = 0"
  then have "and (and w (not g)) f = and w f" by (simp add: bit_eq_iff bit_simps) blast
  then show ?thesis by (simp add: has_flags_def remove_flags_def)
qed

lemma sent_not_unsent: "\<not> is_unsent (sent x)"
proof -
  have "and (and w (not (or prop_flag_unsent prop_flag_persistence_clean))) prop_flag_unsent = 0" for w
    by (simp add: bit_eq_iff bit_simps) blast
  then show ?thesis
    by (auto simp: sent_def is_unsent_def mark_sent_def has_flags_def remove_flags_def split: option.splits)
qed

lemma same_view_update:
  assumes "t this = Some n" "nd_parent n' = nd_parent n" "nd_contains n' = nd_contains n" "nd_domain n' = nd_domain n"
    "nd_mode n' = nd_mode n" "le_id (nd_entity n') = le_id (nd_entity n)"
    "\<And>f. f \<in> {entity_perceptive, entity_admin, entity_contained_visible} \<Longrightarrow>
       has_flags (le_flags (nd_entity n')) f = has_flags (le_flags (nd_entity n)) f"
  shows "same_view (t(this \<mapsto> n')) t"
  using assms unfolding same_view_def
  by (auto simp: parent_of_def contains_of_def domain_of_def mode_of_def id_of_def flagged_def fun_eq_iff split: option.splits)

lemma view_flags: "f \<in> {entity_perceptive, entity_admin, entity_contained_visible} \<Longrightarrow>
    and entity_clean f = 0 \<and> and entity_update_broadcast_queued f = 0"
  by (auto simp: entity_perceptive_def entity_admin_def entity_contained_visible_def entity_clean_def
      entity_update_broadcast_queued_def)

section \<open>The update\<close>

text \<open>What one audience is sent.\<close>

definition told_changes :: "tree \<Rightarrow> addr \<Rightarrow> i64 \<Rightarrow> string option \<Rightarrow> visibility \<Rightarrow> map_type \<Rightarrow> oper list" where
  "told_changes t this stamp loc a m = map (\<lambda>r. set_from (show_i64 (id_of t this)) (set_to (show_i64 (id_of t r))
       (set_sight (id_of t this) stamp loc m)))
     (sorted_list_of_set {r. is_observer t this r \<and> may_receive t a this r})"

lemma broadcast_told:
  assumes "rooted t" "observers_known t"
  shows "broadcast t a this (set_sight (id_of t this) stamp loc m) = Some (told_changes t this stamp loc a m)"
  by (simp add: broadcast_def told_changes_def collectObservers_eq [OF assms] filter_observers [OF assms] comp_def)

definition sent_node :: "node \<Rightarrow> bool \<Rightarrow> node" where
  "sent_node n changed = n\<lparr>nd_loc_unsent := False, nd_entity := (nd_entity n)\<lparr>le_props := map sent (le_props (nd_entity n)),
     le_flags := if changed then remove_flags entity_clean (le_flags (nd_entity n)) else le_flags (nd_entity n)\<rparr>\<rparr>"

lemma sent_node_view: "t this = Some n \<Longrightarrow> same_view (t(this \<mapsto> sent_node n c)) t"
  by (rule same_view_update) (use view_flags in \<open>auto simp: sent_node_def has_flags_remove\<close>)

lemma updateProperties_sends:
  assumes "rooted t" "observers_known t" "t this = Some n" "smap_ok (le_props (nd_entity n))"
    and "updateProperties h this op t = Some (t', res)"
  obtains changed where
    "changed \<longleftrightarrow> nd_loc_unsent n \<or> (\<exists>a. unsent_for h (nd_entity n) a (le_props (nd_entity n)) \<noteq> [])"
    "t' = remove_entity_flags entity_update_broadcast_queued this
       (if changed then update_node this (\<lambda>n. n\<lparr>nd_seq := nd_seq n + 1\<rparr>) (t(this \<mapsto> sent_node n changed))
        else t(this \<mapsto> sent_node n changed))"
    "res = concat (map (\<lambda>a. let m = unsent_for h (nd_entity n) a (le_props (nd_entity n)); l = (a = PUBLIC \<and> nd_loc_unsent n) in
       if m = [] \<and> \<not> l then [] else told_changes t this (getStamp op) (if l then parent_name_of t this else None) a m)
       [PUBLIC, PROTECTED, PRIVATE])"
proof -
  let ?u = "\<lambda>a. unsent_for h (nd_entity n) a (le_props (nd_entity n))"
  from assms(3,5) obtain ps ch0 where f: "fold_opt (update_property h (nd_entity n)) (le_props (nd_entity n)) ([], \<lambda>_. None) = Some (ps, ch0)"
    by (auto simp: updateProperties_def bind_eq_Some_conv)
  from update_fold [OF f assms(4)] have ps: "ps = map sent (le_props (nd_entity n))" and ch0: "ch0 a = with_changes None (?u a)" for a
    by auto
  let ?ch = "loc_change n ch0"
  let ?l = "\<lambda>a. a = PUBLIC \<and> nd_loc_unsent n"
  have ch: "?ch a = (if ?u a = [] \<and> \<not> ?l a then None else Some (?u a))" for a
    by (auto simp: loc_change_def ch0 with_changes_def)
  define changed where "changed = has_changes ?ch"
  have c: "changed \<longleftrightarrow> nd_loc_unsent n \<or> (\<exists>a. ?u a \<noteq> [])"
    unfolding changed_def has_changes_def ch by (auto, metis visibility.exhaust)
  let ?t1 = "t(this \<mapsto> sent_node n changed)"
  let ?loc = "if nd_loc_unsent n then parent_name_of t this else None"
  note v = sent_node_view [of t this n changed, OF assms(3)]
  have v1: "rooted ?t1" "observers_known ?t1" using assms(1,2) same_view_rooted [OF v] same_view_known [OF v] by simp_all
  have told: "told_changes ?t1 this stamp loc a m = told_changes t this stamp loc a m" for stamp loc a m
    using v by (simp add: told_changes_def same_view_observer [OF v] same_view_receive [OF v]) (simp add: same_view_def)
  have id: "id_of ?t1 this = id_of t this" using v by (simp add: same_view_def)
  have send: "send_changes ?t1 this op ?loc ?ch a = Some (if ?u a = [] \<and> \<not> ?l a then []
      else told_changes t this (getStamp op) (if ?l a then parent_name_of t this else None) a (?u a))" for a
    using broadcast_told [OF v1, of a this] by (auto simp: send_changes_def ch told id)
  have t1: "t(this \<mapsto> n\<lparr>nd_loc_unsent := False, nd_entity := (nd_entity n)\<lparr>le_props := ps,
      le_flags := (if has_changes ?ch then remove_flags entity_clean (le_flags (nd_entity n)) else le_flags (nd_entity n))\<rparr>\<rparr>) = ?t1"
    by (simp add: sent_node_def ps changed_def)
  from assms(5) have r: "t' = remove_entity_flags entity_update_broadcast_queued this
       (if changed then update_node this (\<lambda>n. n\<lparr>nd_seq := nd_seq n + 1\<rparr>) ?t1 else ?t1)"
    "res = the (send_changes ?t1 this op ?loc ?ch PUBLIC) @ the (send_changes ?t1 this op ?loc ?ch PROTECTED)
       @ the (send_changes ?t1 this op ?loc ?ch PRIVATE)"
    unfolding updateProperties_def assms(3) bind.bind_lunit f prod.case Let_def t1 send
    by (simp_all add: changed_def)
  show thesis by (rule that [OF c r(1)]) (simp add: r(2) send Let_def)
qed

lemma update_fold_silent: "\<forall>x \<in> set l. \<not> is_unsent x \<Longrightarrow> fold_opt (update_property h e) l (ps0, ch) = Some (ps0 @ l, ch)"
proof (induction l arbitrary: ps0)
  case (Cons x l)
  have "update_property h e x (ps0, ch) = Some (ps0 @ [x], ch)"
    using Cons.prems by (cases x) (auto simp: update_property_def is_unsent_def split: option.splits)
  with Cons show ?case by simp
qed simp

text \<open>An entity with nothing to send.\<close>

definition all_sent :: "node \<Rightarrow> bool" where
  "all_sent n \<longleftrightarrow> \<not> nd_loc_unsent n \<and> (\<forall>x \<in> set (le_props (nd_entity n)). \<not> is_unsent x)"

lemma all_sent_update:
  assumes "t this = Some n" "all_sent n"
  shows "updateProperties h this op t = Some (remove_entity_flags entity_update_broadcast_queued this t, [])"
proof -
  have f: "fold_opt (update_property h (nd_entity n)) (le_props (nd_entity n)) ([], \<lambda>_. None)
      = Some (le_props (nd_entity n), \<lambda>_. None)"
    using assms(2) update_fold_silent [of "le_props (nd_entity n)" h "nd_entity n" "[]"] by (simp add: all_sent_def)
  have l: "loc_change n (\<lambda>_. None) = (\<lambda>_. None)" "\<not> has_changes (\<lambda>_. None)" "nd_loc_unsent n = False"
    using assms(2) by (simp_all add: all_sent_def loc_change_def has_changes_def)
  have n: "n\<lparr>nd_loc_unsent := False, nd_entity := (nd_entity n)\<lparr>le_props := le_props (nd_entity n), le_flags := le_flags (nd_entity n)\<rparr>\<rparr> = n"
    using l(3) by (cases n) simp
  have s: "send_changes t' this op' loc (\<lambda>_. None) a = Some []" for t' op' loc a by (simp add: send_changes_def)
  have t: "t(this \<mapsto> n) = t" using assms(1) by (simp add: fun_upd_idem)
  show ?thesis
    by (simp only: updateProperties_def assms(1) bind.bind_lunit f prod.case Let_def l s if_False n t append_Nil)
qed

lemma remove_flags_twice: "remove_flags f (remove_flags f w) = remove_flags f w"
  unfolding remove_flags_def by (simp add: and.assoc)

lemma remove_entity_flags_twice: "remove_entity_flags f a (remove_entity_flags f a t) = remove_entity_flags f a t"
  by (auto simp: remove_entity_flags_def update_node_def remove_flags_twice option.map_comp comp_def fun_eq_iff)

text \<open>C20: An update sends each property that has changed, with its value, in one operation to each observer of the entity
  that may receive it: public ones to all, protected ones to administrators and the entity itself, private ones to
  administrators alone; a new location goes with the public ones; an audience for which nothing has changed gets nothing.
  Afterwards nothing is left to be sent, and another update sends nothing and changes nothing.\<close>

theorem update_sends_changes:
  assumes "rooted t" "observers_known t" "t this = Some n" "smap_ok (le_props (nd_entity n))"
    and "updateProperties h this op t = Some (t', res)"
  shows "res = concat (map (\<lambda>a. let m = unsent_for h (nd_entity n) a (le_props (nd_entity n)); l = (a = PUBLIC \<and> nd_loc_unsent n) in
       if m = [] \<and> \<not> l then [] else told_changes t this (getStamp op) (if l then parent_name_of t this else None) a m)
       [PUBLIC, PROTECTED, PRIVATE])
    \<and> updateProperties h this op' t' = Some (t', [])"
proof (rule updateProperties_sends [OF assms])
  fix changed
  assume t': "t' = remove_entity_flags entity_update_broadcast_queued this
       (if changed then update_node this (\<lambda>n. n\<lparr>nd_seq := nd_seq n + 1\<rparr>) (t(this \<mapsto> sent_node n changed))
        else t(this \<mapsto> sent_node n changed))"
    and r: "res = concat (map (\<lambda>a. let m = unsent_for h (nd_entity n) a (le_props (nd_entity n)); l = (a = PUBLIC \<and> nd_loc_unsent n) in
       if m = [] \<and> \<not> l then [] else told_changes t this (getStamp op) (if l then parent_name_of t this else None) a m)
       [PUBLIC, PROTECTED, PRIVATE])"
  obtain n' where n': "t' this = Some n'" "nd_loc_unsent n' = False" "le_props (nd_entity n') = map sent (le_props (nd_entity n))"
    by (cases changed) (simp_all add: t' remove_entity_flags_def update_node_def sent_node_def)
  then have "all_sent n'" using sent_not_unsent by (auto simp: all_sent_def)
  from all_sent_update [of t' this n', OF n'(1) this] have "updateProperties h this op' t' = Some (t', [])"
    by (simp add: t' remove_entity_flags_twice)
  with r show ?thesis by simp
qed

section \<open>The answer to a look\<close>

lemma has_flags_or: "has_flags w (or f g) \<longleftrightarrow> has_flags w f \<or> has_flags w g"
  by (simp add: has_flags_def bit_eq_iff bit_simps) blast

lemma shown_receives: "shown_to t this ob p \<longleftrightarrow> may_receive t (prop_audience p) this ob"
  by (auto simp: shown_to_def may_receive_def prop_audience_def prop_flag_visibility_non_public_def has_flags_or)

definition shown :: "heap \<Rightarrow> located \<Rightarrow> tree \<Rightarrow> addr \<Rightarrow> addr \<Rightarrow> bool \<Rightarrow> string \<times> modifiable \<Rightarrow> map_type" where
  "shown h e t this ob sk x = (case mp_property (snd x) of None \<Rightarrow> []
     | Some p \<Rightarrow> if may_receive t (prop_audience p) this ob \<and> \<not> (sk \<and> fst x = contains_name)
         then (case prop_get h e p of Inl _ \<Rightarrow> [] | Inr v \<Rightarrow> [(fst x, v)]) else [])"

lemma shown_iff: "y \<in> set (shown h e t this ob sk x) \<longleftrightarrow> (case mp_property (snd x) of None \<Rightarrow> False
    | Some p \<Rightarrow> (case prop_get h e p of Inl _ \<Rightarrow> False | Inr v \<Rightarrow> y = (fst x, v))
        \<and> may_receive t (prop_audience p) this ob \<and> (sk \<longrightarrow> fst x \<noteq> contains_name))"
proof (cases "mp_property (snd x)")
  case None then show ?thesis by (simp add: shown_def)
next
  case (Some p)
  show ?thesis
  proof (cases "prop_get h e p")
    case (Inl f)
    with Some have "shown h e t this ob sk x = []" by (simp only: shown_def option.case sum.case if_cancel)
    with Some Inl show ?thesis by simp
  next
    case (Inr v)
    show ?thesis
    proof (cases "may_receive t (prop_audience p) this ob \<and> (sk \<longrightarrow> fst x \<noteq> contains_name)")
      case True
      then have "shown h e t this ob sk x = [(fst x, v)]" using Some Inr by (simp add: shown_def)
      with Some Inr True show ?thesis by simp
    next
      case False
      then have "shown h e t this ob sk x = []" using Some Inr by (simp add: shown_def)
      with Some Inr False show ?thesis by simp
    qed
  qed
qed

lemma shownD: "y \<in> set (shown h e t this ob sk x) \<Longrightarrow> fst y = fst x"
  by (auto simp: shown_iff split: option.splits sum.splits)

lemma show_fold:
  assumes "fold_opt (show_property t h sk this ob e) l m0 = Some m" "smap_ok l"
    "\<And>k k'. k \<in> fst ` set m0 \<Longrightarrow> k' \<in> fst ` set l \<Longrightarrow> k < k'"
  shows "m = m0 @ concat (map (shown h e t this ob sk) l)"
  using assms
proof (induction l arbitrary: m0)
  case Nil then show ?case by simp
next
  case (Cons x l)
  obtain name mp where x: "x = (name, mp)" by (cases x)
  from Cons.prems(1) obtain m1 where s: "show_property t h sk this ob e x m0 = Some m1"
    and r: "fold_opt (show_property t h sk this ob e) l m1 = Some m" by (auto split: option.splits)
  have "smap_put name v m0 = m0 @ [(name, v)]" for v
    using Cons.prems(3) by (intro smap_put_last) (auto simp: x)
  then have step: "m1 = m0 @ shown h e t this ob sk x"
    using s by (auto simp: show_property_def shown_def x shown_receives split: option.splits sum.splits if_splits)
  have l: "smap_ok l" and above: "\<And>k'. k' \<in> fst ` set l \<Longrightarrow> name < k'" using Cons.prems(2) by (auto simp: smap_ok_Cons x)
  have k: "k < k'" if "k \<in> fst ` set m1" "k' \<in> fst ` set l" for k k'
  proof -
    have "k = name \<or> k \<in> fst ` set m0" using that(1) shownD [of _ h e t this ob sk x] by (force simp: step x)
    moreover have "k < k'" if "k \<in> fst ` set m0"
      by (rule Cons.prems(3) [OF that]) (use \<open>k' \<in> fst ` set l\<close> in simp)
    ultimately show ?thesis using above [OF that(2)] by blast
  qed
  have "m = m1 @ concat (map (shown h e t this ob sk) l)"
    by (rule Cons.IH [OF r l]) (rule k)
  then show ?case by (simp add: step)
qed

text \<open>C21: The answer to a look goes to the one who looks, names the entity, its type and its sequence number, and shows of
  the properties - other than the list of what the entity contains, which the domain decides - exactly those, with their
  values, whose updates the observer may receive: administrators see all, the entity itself all but the private ones,
  others the public ones.\<close>

theorem look_shows_what_updates_tell:
  assumes "t this = Some n" "smap_ok (le_props (nd_entity n))" "generateSightOp h near this ob op t = Some s"
  shows "\<exists>loc m. op_class s = Sight \<and> to_attr s = Some (getFrom op)
    \<and> op_args s = [EntityArg (Some (show_i64 (id_of t this))) (nd_type n) loc (Some (nd_seq n)) m]
    \<and> (\<forall>name v. name \<noteq> contains_name \<longrightarrow> ((name, v) \<in> set m \<longleftrightarrow> (\<exists>mp p. (name, mp) \<in> set (le_props (nd_entity n))
         \<and> mp_property mp = Some p \<and> may_receive t (prop_audience p) this ob \<and> prop_get h (nd_entity n) p = Inr v)))"
proof -
  from assms(1,3) obtain sk con m loc where
    f: "fold_opt (show_property t h sk this ob (nd_entity n)) (le_props (nd_entity n)) [] = Some m"
    and s: "s = answer_to op (set_to (getFrom op) (set_args [EntityArg (Some (show_i64 (id_of t this))) (nd_type n) loc (Some (nd_seq n))
       (case con of None \<Rightarrow> m | Some v \<Rightarrow> smap_put contains_name v m)] (new_op Sight)))"
    by (auto simp: generateSightOp_def bind_eq_Some_conv)
  let ?m = "case con of None \<Rightarrow> m | Some v \<Rightarrow> smap_put contains_name v m"
  from show_fold [OF f assms(2)] have m: "m = concat (map (shown h (nd_entity n) t this ob sk) (le_props (nd_entity n)))" by simp
  have "(name, v) \<in> set m \<longleftrightarrow> (\<exists>mp p. (name, mp) \<in> set (le_props (nd_entity n)) \<and> mp_property mp = Some p
         \<and> may_receive t (prop_audience p) this ob \<and> prop_get h (nd_entity n) p = Inr v)" (is "_ \<longleftrightarrow> ?r")
    if "name \<noteq> contains_name" for name v
  proof
    assume "(name, v) \<in> set m"
    then obtain x where x: "x \<in> set (le_props (nd_entity n))" "(name, v) \<in> set (shown h (nd_entity n) t this ob sk x)"
      by (auto simp: m)
    from x(2) obtain p where "mp_property (snd x) = Some p" "may_receive t (prop_audience p) this ob"
      "prop_get h (nd_entity n) p = Inr v" "name = fst x"
      by (auto simp: shown_iff split: option.splits sum.splits)
    with x(1) show ?r by (intro exI [of _ "snd x"] exI [of _ p]) simp
  next
    assume ?r
    then obtain mp p where "(name, mp) \<in> set (le_props (nd_entity n))" "mp_property mp = Some p"
      "may_receive t (prop_audience p) this ob" "prop_get h (nd_entity n) p = Inr v" by blast
    with that show "(name, v) \<in> set m"
      by (auto simp: m shown_iff intro!: bexI [of _ "(name, mp)"])
  qed
  moreover have "(name, v) \<in> set ?m \<longleftrightarrow> (name, v) \<in> set m" if "name \<noteq> contains_name" for name v
    using that by (cases con) (simp_all add: smap_put_others)
  ultimately have a: "\<forall>name v. name \<noteq> contains_name \<longrightarrow> ((name, v) \<in> set ?m \<longleftrightarrow> (\<exists>mp p. (name, mp) \<in> set (le_props (nd_entity n))
         \<and> mp_property mp = Some p \<and> may_receive t (prop_audience p) this ob \<and> prop_get h (nd_entity n) p = Inr v))"
    by simp
  have b: "op_class s = Sight" "to_attr s = Some (getFrom op)"
    "op_args s = [EntityArg (Some (show_i64 (id_of t this))) (nd_type n) loc (Some (nd_seq n)) ?m]"
    by (cases "serialno_attr op"; simp add: s answer_to_def)+
  from b a show ?thesis by (intro exI [of _ loc] exI [of _ ?m] conjI)
qed

section \<open>The theorems at work\<close>

text \<open>The player of the small world with a public, a protected and a private property that have changed.\<close>

definition changed_prop :: "i64 \<Rightarrow> 32 word \<Rightarrow> modifiable" where
  "changed_prop v f = \<lparr>mp_property = Some \<lparr>pr_class = SoftProperty, pr_data = EInt v,
     pr_flags = prop_flag_unsent + f, pr_installed = False\<rparr>, mp_base = ENone, mp_modifiers = []\<rparr>"

definition changed_node :: node where
  "changed_node = (let n = sample_node 10 (entity_perceptive + entity_visibility_private) (Some 1) [3, 5] (Some InventoryDomain)
     in n\<lparr>nd_entity := (nd_entity n)\<lparr>le_props := [(''__key'', changed_prop 7 prop_flag_visibility_private),
       (''_hp'', changed_prop 6 prop_flag_visibility_protected), (''mass'', changed_prop 5 0)]\<rparr>\<rparr>)"

definition changed_world :: tree where
  "changed_world = small_world(2 \<mapsto> changed_node)"

lemma changed_world_view: "same_view changed_world small_world"
  unfolding changed_world_def
  by (rule same_view_update [where n = "the (small_world 2)"]) (auto simp: small_world_def changed_node_def sample_node_def Let_def)

lemma changed_world_facts: "rooted changed_world" "observers_known changed_world" "changed_world 2 = Some changed_node"
  "smap_ok (le_props (nd_entity changed_node))"
proof -
  show "rooted changed_world" "observers_known changed_world"
    using same_view_rooted [OF changed_world_view] same_view_known [OF changed_world_view] sample_rooted
      sample_observers_known by simp_all
  show "changed_world 2 = Some changed_node" by (simp add: changed_world_def)
  show "smap_ok (le_props (nd_entity changed_node))" by code_simp
qed

theorem update_sends_changes_witness:
  "\<exists>t' res. updateProperties (\<lambda>_. None) 2 (set_stamp 9 (new_op Update)) changed_world = Some (t', res)
    \<and> length res = 2 \<and> updateProperties (\<lambda>_. None) 2 (set_stamp 10 (new_op Update)) t' = Some (t', [])"
proof -
  let ?u = "updateProperties (\<lambda>_. None) 2 (set_stamp 9 (new_op Update)) changed_world"
  have "map_option (\<lambda>(t, r). length r) ?u = Some 2" by code_simp
  then obtain t' res where u: "?u = Some (t', res)" "length res = 2" by auto
  from update_sends_changes [OF changed_world_facts u(1)] u show ?thesis by blast
qed

theorem look_shows_what_updates_tell_witness:
  "\<exists>s m loc. generateSightOp (\<lambda>_. None) far 2 1 (set_from ''0'' (new_op Look)) changed_world = Some s
    \<and> op_args s = [EntityArg (Some ''10'') (Some ''thing'') loc (Some 0) m] \<and> (''mass'', EInt 5) \<in> set m \<and> (''__key'', EInt 7) \<notin> set m"
proof -
  let ?s = "generateSightOp (\<lambda>_. None) far 2 1 (set_from ''0'' (new_op Look)) changed_world"
  have "?s \<noteq> None" by code_simp
  then obtain s where s: "?s = Some s" by blast
  from look_shows_what_updates_tell [OF changed_world_facts(3,4) s] obtain loc m where
    a: "op_args s = [EntityArg (Some (show_i64 (id_of changed_world 2))) (nd_type changed_node) loc (Some (nd_seq changed_node)) m]"
    and m: "\<And>name v. name \<noteq> contains_name \<Longrightarrow> (name, v) \<in> set m \<longleftrightarrow> (\<exists>mp p. (name, mp) \<in> set (le_props (nd_entity changed_node))
         \<and> mp_property mp = Some p \<and> may_receive changed_world (prop_audience p) 2 1 \<and> prop_get (\<lambda>_. None) (nd_entity changed_node) p = Inr v)"
    by blast
  have c: "show_i64 (id_of changed_world 2) = ''10''" "nd_seq changed_node = 0" "nd_type changed_node = Some ''thing''" "''mass'' \<noteq> contains_name" "''__key'' \<noteq> contains_name"
    by code_simp+
  have k: "le_props (nd_entity changed_node) = [(''__key'', changed_prop 7 prop_flag_visibility_private),
       (''_hp'', changed_prop 6 prop_flag_visibility_protected), (''mass'', changed_prop 5 0)]"
    by (simp add: changed_node_def Let_def)
  have "may_receive changed_world (prop_audience (the (mp_property (changed_prop 5 0)))) 2 1"
    "\<not> may_receive changed_world (prop_audience (the (mp_property (changed_prop 7 prop_flag_visibility_private)))) 2 1" by code_simp+
  then have "(''mass'', EInt 5) \<in> set m" "(''__key'', EInt 7) \<notin> set m"
    by (auto simp: m c(4,5) k changed_prop_def prop_get_def)
  with a c(1-3) s show ?thesis by auto
qed

end
