(* ===== verification/Spec2Isabelle.thy ===== *)
theory Spec2Isabelle
  imports Codec_Packed Codec_XML Codec_Bach Atlas_Net Meta_Guarantees Squall_Sync
    Varconf_Guarantees Filter_Properties Entity_Properties
    Physical_Properties Update_Properties
begin

text \<open>
  A development about WorldForge, a framework for virtual worlds. The parts of the program modelled so far are
  the ones through which its processes talk to each other: the Atlas protocol library
  (\<open>libs/atlas/src/Atlas\<close>), with which clients and game servers exchange messages, and the metaserver
  (\<open>apps/metaserver/src\<close>), where game servers register and clients ask for the list of servers.

  \<^bold>\<open>Atlas.\<close> A message is a map of elements (\<open>Message/Element.h\<close>). An encoder (\<open>Message/MEncoder.cpp\<close>) turns it into
  calls of a bridge (\<open>Bridge.h\<close>); a codec writes the calls as text, or reads text and makes the calls again;
  a decoder (\<open>Message/DecoderBase.cpp\<close>) rebuilds the message from the calls and queues it
  (\<open>Message/QueuedDecoder.cpp\<close>). Before, the two ends agree on a codec (\<open>Net/Stream.cpp\<close>).

  \<^item> \<open>Prelude\<close>: \<open>std::map\<close> as the ordered list of its entries with the contract \<open>keyed_table\<close>, decimal text of
    integers, \<open>stol\<close>, and \<open>run_steps\<close>, which feeds inputs to a step that may fail.
  \<^item> \<open>Doubles\<close>: doubles as exact numbers, and how \<open>operator<<\<close> and \<open>stod\<close> write and read them.
  \<^item> \<open>Atlas_Message\<close>, \<open>Atlas_Decoder\<close>: elements, calls, encoder, decoder and queue. The decoder rebuilds what the
    encoder streams, and no assertion of its stacks can fail.
  \<^item> \<open>Atlas_Transport\<close>: the contract \<open>message_codec\<close> between a writer, a reader and a bridge; a codec that keeps it
    carries messages, in whatever pieces the bytes arrive.
  \<^item> \<open>Codec_Packed\<close>, \<open>Codec_XML\<close>, \<open>Codec_Bach\<close>: the three codecs (\<open>Codecs/\<close>), character by character, each with an
    interpretation of the contract, its escaping, and the inputs on which it fails.
  \<^item> \<open>Atlas_Net\<close>: the negotiation as two state machines with their buffers and a relation that lets either end poll on
    any part of what the other has sent; and the loopback bridge.

  \<^bold>\<open>Metaserver.\<close> Packets arrive by UDP (\<open>server/MetaServerHandlerUDP.cpp\<close>), are handled by type
  (\<open>server/MetaServer.cpp\<close>), read and change the store (\<open>server/DataObject.cpp\<close>), and may be answered; timers sweep
  the store.

  \<^item> \<open>Meta_Packet\<close>: the packet's buffer (\<open>api/MetaServerPacket.cpp\<close>); what is appended is read back, appending never
    leaves the buffer, reading a short message does.
  \<^item> \<open>Meta_Data\<close>: the store with its invariant \<open>data_ok\<close>, every operation, the contract \<open>expiring\<close> of a container that
    \<open>expireEntries\<close> sweeps, with its three interpretations, and the cached server lists.
  \<^item> \<open>Meta_Server\<close>: addresses (\<open>server/Network.h\<close>), the handlers, the timers, the receive handler and the loop of
    \<open>main.cpp\<close>.
  \<^item> \<open>Meta_Guarantees\<close>: the invariant under every run, the datagrams that are undefined or that stop the server, and
    what each kind of request does.

  \<^bold>\<open>Squall.\<close> Assets are files named by the hash of their content (\<open>libs/squall/src/squall/core\<close>): a manifest lists the
  entries of a directory with their signatures, a root names the manifest of a whole tree.

  \<^item> \<open>Squall_Store\<close>: signatures, manifests and their text, the file system, the repository with its roots.
  \<^item> \<open>Squall_Walk\<close>: the iterator over what a manifest describes. A loop over it is a partial function; it ends on every
    stored tree and visits it depth first, up to the first entry that is missing.
  \<^item> \<open>Squall_Compare\<close>: differences of two manifests, and the files no root leads to.
  \<^item> \<open>Squall_Hash\<close>: signatures of content, at once and in pieces, over a hash that is a parameter.
  \<^item> \<open>Squall_Sound\<close>: what every writer keeps of a repository: files have the content their names promise, what is stored
    stays, and files outside of the data directory do not change.
  \<^item> \<open>Squall_Generator\<close>, \<open>Squall_Generate\<close>: the generator as a state machine over directory iterators, and the proof
    that it stores what a recursive specification computes and nothing else.
  \<^item> \<open>Squall_Realizer\<close>: recreating the files of a manifest, and which it leaves out.
  \<^item> \<open>Squall_Resolver\<close>, \<open>Squall_Resolve\<close>, \<open>Squall_Sync\<close>: fetching a tree through a provider. The contract \<open>answering\<close>
    says that a provider writes none of the files in which the repository that asks keeps its content; it is interpreted
    for the provider that reads from another repository (\<open>local\<close>) and for the one that downloads first into a file
    beside the one it is asked for (\<open>curl\<close>, with the transfer as a parameter). For every such provider completion means
    that all is there, and for the one that reads from another repository completion comes, within a number of polls
    that depends on the limit of the hashing of a poll. Signatures with slashes, which the code does not refuse, are
    outside of these theorems. A file that cannot be written is an exception or a failure, as in the code; a write that
    begins is taken to succeed.

  \<^bold>\<open>Varconf.\<close> Every process reads its settings from files, the command line and the environment
  (\<open>libs/varconf/src/varconf\<close>).

  \<^item> \<open>Varconf_Variable\<close>: values with their caches, the conversions of the standard library, and the heap of shared
    values (\<open>variable.cpp\<close>).
  \<^item> \<open>Varconf_Config\<close>: sections and items, the parser state by state, the writer, the command line and the
    environment (\<open>config.cpp\<close>).
  \<^item> \<open>Varconf_Guarantees\<close>: names stay clean in every reachable store, the writer and the parser are inverse, exactly
    when the parser throws and the place it names (by the tables \<open>can_follow\<close> and \<open>expected\<close>, which are independent of
    the parser), and how options are read.

  \<^bold>\<open>Entity filters.\<close> The rules of the Cyphesis server ask of entities whether they match a filter, such as
  \<open>actor can_reach entity with tool\<close> (\<open>apps/cyphesis/src/rules/entityfilter\<close>).

  \<^item> \<open>Float64\<close>: IEEE arithmetic on doubles, and the comparison with a tolerance of \<open>float.cpp\<close>.
  \<^item> \<open>Filter_Values\<close>: elements under comparison, what can end an evaluation, and the world an evaluation reads. The
    class of entities is a parameter of the templates; the operations used of it are the fields of \<open>world\<close>.
  \<^item> \<open>Filter_Predicate\<close>: providers and predicates, the pointer type a provider announces, and their values
    (\<open>Providers_impl.h\<close>, \<open>Predicates_impl.h\<close>).
  \<^item> \<open>Filter_Factory\<close>: the factory (\<open>ProviderFactory_impl.h\<close>), the constructors that check, and \<open>built\<close>, which
    providers and predicates these let through.
  \<^item> \<open>Filter_Guarantees\<close>, \<open>Filter_Properties\<close>: announced pointer types are true, so no cast is wrong; which
    filters answer in every context, and what they answer.

  \<^bold>\<open>Modifiers.\<close> An entity can modify the properties of the one it is inside of, as armour does
  (\<open>apps/cyphesis/src/rules/Modifier.cpp\<close>, \<open>rules/simulation/LocatedEntity.cpp\<close>, \<open>rules/simulation/ModifyProperty.cpp\<close>).

  \<^item> \<open>Entity_Modifier\<close>: the modifiers on every type of element, and the names of properties.
  \<^item> \<open>Entity_Attr\<close>: the properties of an entity with base values and modifiers, and every operation on them. Who listens
    to the signal of a changed property is a parameter and may change the entity again.
  \<^item> \<open>Entity_Modify\<close>: the modify property with the memory of its modifiers; \<open>notify\<close> ties its listeners to the operations,
    with the depth of nested calls as fuel.
  \<^item> \<open>Entity_Guarantees\<close>: the contract \<open>settling\<close> of listeners, with its interpretation for \<open>notify\<close>: modified values are
    what the modifiers make of the base value.
  \<^item> \<open>Entity_Sync\<close>: the contract \<open>silent\<close>, under which a check activates what the constraints ask for.
  \<^item> \<open>Entity_Properties\<close>: what holds of every sequence of changes, and what goes wrong when a property is observed by
    what modifies it.

  \<^bold>\<open>Entities in the world.\<close> The entities of the server are a tree, each in a container, and a container may have a
  domain that says what of its content is seen, reached and told to whom (\<open>apps/cyphesis/src/rules/simulation\<close>).

  \<^item> \<open>World_Op\<close>: operations as the server handles them, their setters, and error replies (\<open>common/Router.cpp\<close>).
  \<^item> \<open>Domain_Physical\<close>: perception in a physical domain (\<open>PhysicalDomain.cpp\<close>): the entries with who observes whom, the
    spheres that the physics engine reports as meeting, the queue of entries that have moved. The engine is a
    parameter: the list of its calls. The use of a freed entry is \<open>None\<close>.
  \<^item> \<open>Physical_Guarantees\<close>, \<open>Physical_Properties\<close>: the step relation \<open>perceives\<close> has every operation on perception, with a
    flag for the runs in which the engine reports only living entries and no child leaves while another has a pending
    change about it. The two sides of who observes whom agree for any two children in every state that a domain
    reaches (not for the entity of the domain itself, for which the code changes one side only when a child begins or
    ceases to perceive); in the runs with the flag no freed entry is used; observers are told exactly what changed; and
    three ways to a freed or lost entry.
  \<^item> \<open>Tree_Entity\<close>: the tree, the domains, sight, reach, observers and broadcasts (\<open>LocatedEntity.cpp\<close> and the domains).
  \<^item> \<open>Tree_Guarantees\<close>: every question is answered if nobody contains itself, and who observes as an inductive relation
    that the collecting loops implement.
  \<^item> \<open>Tree_Moves\<close>: children that come and leave, moving to another container, destruction. What a destroyed entity
    holds is moved by an operation in the code; \<open>move_out\<close> is the effect of that operation on the tree.
  \<^item> \<open>Tree_Properties\<close>: the contract \<open>container_hooks\<close> of what a domain does with a child, with its interpretation for the
    domains of Cyphesis; the tree stays a tree in every run, and who is told of a move.
  \<^item> \<open>Tree_Update\<close>: the update that sends changed properties, the answer to a look, and the way of an operation through
    scripts, delegates and listeners to the handler of its class. \<open>Update_Properties\<close>: each change is sent once, to those it
    is for, and a look shows what updates tell.

  \<^bold>\<open>Conventions.\<close> State is passed explicitly. An exception, a failed assertion or an undefined access is the left side
  of a sum, with the state at that point where later code sees it. Integers of fixed width are words. Loops over
  input are structural recursions over the characters; the loops over an iterator of Squall are partial functions, shown
  to end; the number of polls a client makes is the fuel of \<open>poll_signature\<close>, \<open>realize_run\<close> and \<open>resolver_run\<close>, with a
  bound that is enough in each theorem; \<open>w_types\<close> and \<open>w_entities\<close> bound the walk along the parents of a type and the
  nesting of containers, a longer one is the fault \<open>EndlessRecursion\<close>, and \<open>world_finite\<close> says when they are enough. What belongs to
  libraries is a parameter: the clock of Boost with its text of times (\<open>clock\<close>, with the law \<open>clock_ok\<close> where a
  property needs it), the random numbers of the handshakes, and BLAKE3 (\<open>hasher\<close>, with the law \<open>hasher_ok\<close>). The host is little-endian.

  \<^bold>\<open>Not modelled.\<close> Sockets and timers themselves, logging, configuration and score files of the metaserver; reference
  counting of elements; the Atlas filters, which the negotiation does not offer; the generated Atlas objects. The
  grammar of the text of a filter is a Boost Spirit parser and is not modelled. In the world, positions, motion and
  collisions (and so the distance that a physical domain asks for when something is reached for, a parameter), merging
  into stacks, observation of closeness, who listens to the signal of an updated entity, what scripts do, the positions of a move and the handlers of \<open>Delete\<close> and
  \<open>Create\<close> are left out; so are the queue and the router of the world, the rest of Cyphesis, and Eris. wfmath
  and mercator are floating-point geometry; ember is a user interface.
\<close>

end
